(* ===== verification/Prelude.thy ===== *)
theory Prelude
  imports Main "HOL-Library.Word" "HOL-Library.Sublist"
begin

text \<open>
  Shared vocabulary of the development: fixed-width integer types, the memory primitives the
  native code uses on byte buffers, the character and string routines of the C and C++ standard
  library that the parsers rely on, and the generic list lemmas the components share.

  Undefined behaviour of the C++ code (an index outside a fixed array, a \<open>memcpy\<close> that reads or
  writes past the end of a buffer) is the value \<^term>\<open>None\<close> of an option; where a routine can
  show it, the routine returns an option and the safety theorems say when it is
  \<^term>\<open>Some\<close>.
\<close>

unbundle bit_operations_syntax

named_theorems buffer_simps \<open>reading and writing byte buffers\<close>
named_theorems text_simps \<open>character classes and trimming\<close>

type_synonym u8 = "8 word"
type_synonym u16 = "16 word"
type_synonym u32 = "32 word"
type_synonym u64 = "64 word"
type_synonym i32 = "32 word"

subsection \<open>Byte buffers\<close>

text \<open>\<open>memcpy(dst, src, n)\<close>: undefined unless both buffers hold \<open>n\<close> bytes.\<close>

definition memcpy :: "'a list \<Rightarrow> 'a list \<Rightarrow> nat \<Rightarrow> 'a list option" where
  "memcpy dst src n =
     (if n \<le> length src \<and> n \<le> length dst then Some (take n src @ drop n dst) else None)"

text \<open>\<open>memcmp(a, b, n) == 0\<close>.\<close>

definition memcmp_eq :: "'a list \<Rightarrow> 'a list \<Rightarrow> nat \<Rightarrow> bool option" where
  "memcmp_eq xs ys n =
     (if n \<le> length xs \<and> n \<le> length ys then Some (take n xs = take n ys) else None)"

text \<open>\<open>index < size ? buffer[index] : fallback\<close>.\<close>

definition read_or :: "'a list \<Rightarrow> nat \<Rightarrow> 'a \<Rightarrow> 'a" where
  "read_or xs i d = (if i < length xs then xs ! i else d)"

lemma memcpy_Some_iff [buffer_simps]:
  "memcpy dst src n = Some out \<longleftrightarrow>
     n \<le> length src \<and> n \<le> length dst \<and> out = take n src @ drop n dst"
  by (auto simp: memcpy_def)

lemma memcpy_defined [buffer_simps]:
  "n \<le> length src \<Longrightarrow> n \<le> length dst \<Longrightarrow> memcpy dst src n = Some (take n src @ drop n dst)"
  by (simp add: memcpy_def)

lemma memcmp_defined [buffer_simps]:
  "n \<le> length xs \<Longrightarrow> n \<le> length ys \<Longrightarrow> memcmp_eq xs ys n = Some (take n xs = take n ys)"
  by (simp add: memcmp_eq_def)

lemma length_memcpy: "memcpy dst src n = Some out \<Longrightarrow> length out = length dst"
  by (auto simp: memcpy_def split: if_splits)

lemma nth_memcpy:
  "memcpy dst src n = Some out \<Longrightarrow> i < length dst \<Longrightarrow>
     out ! i = (if i < n then src ! i else dst ! i)"
  by (auto simp: memcpy_def nth_append split: if_splits)

lemma read_or_nth [simp]: "i < length xs \<Longrightarrow> read_or xs i d = xs ! i"
  by (simp add: read_or_def)

lemma read_or_beyond [simp]: "length xs \<le> i \<Longrightarrow> read_or xs i d = d"
  by (simp add: read_or_def)

lemma nth_update: "xs[i := x] ! j = (if i = j \<and> i < length xs then x else xs ! j)"
  by (cases "i < length xs") (auto simp: nth_list_update list_update_beyond)

subsection \<open>Composing bytes into wider words\<close>

lemma nat_or_push_bit:
  fixes a b :: nat
  assumes "b < 2 ^ n"
  shows "push_bit n a OR b = a * 2 ^ n + b"
proof -
  have "take_bit n b = b"
    using assms by (simp add: take_bit_nat_eq_self)
  then have "bit b i \<Longrightarrow> i < n" for i
    by (metis bit_take_bit_iff)
  then have "push_bit n a AND b = 0"
    by (auto simp: bit_eq_iff bit_and_iff bit_push_bit_iff dest: leD)
  then have "push_bit n a + b = push_bit n a OR b"
    by (rule disjunctive_add_eq_or)
  then show ?thesis by (simp add: push_bit_eq_mult)
qed

lemma unat_or_push_bit:
  fixes x y :: "'a::len word"
  assumes "unat y < 2 ^ n" and "unat x * 2 ^ n < 2 ^ LENGTH('a)"
  shows "unat (push_bit n x OR y) = unat x * 2 ^ n + unat y"
proof -
  have "unat (push_bit n x) = push_bit n (unat x)"
    using assms(2)
    by (subst unsigned_push_bit_eq) (simp add: push_bit_eq_mult take_bit_nat_eq_self)
  then have "unat (push_bit n x OR y) = push_bit n (unat x) OR unat y"
    by (simp add: unsigned_or_eq)
  then show ?thesis using nat_or_push_bit [OF assms(1)] by simp
qed

lemma unat_ucast_widen:
  "LENGTH('a) \<le> LENGTH('b) \<Longrightarrow> unat (ucast (x :: 'a::len word) :: 'b::len word) = unat x"
  by (simp add: unsigned_ucast_eq take_bit_nat_eq_self order_less_le_trans [OF unsigned_less])

lemma unat_byte_less: "unat (x :: u8) < 256"
  using unsigned_less [of x] by simp

lemma byte_pair_eq_iff:
  fixes a a' b b' :: nat
  assumes "b < 256" and "b' < 256"
  shows "256 * a + b = 256 * a' + b' \<longleftrightarrow> a = a' \<and> b = b'"
proof
  assume eq: "256 * a + b = 256 * a' + b'"
  have "(256 * a + b) div 256 = a" and "(256 * a' + b') div 256 = a'"
    using assms by simp_all
  with eq show "a = a' \<and> b = b'" by simp
qed simp

subsection \<open>Characters\<close>

definition code_of :: "char \<Rightarrow> nat" where
  "code_of c = of_char c"

definition isspace_c :: "char \<Rightarrow> bool" where
  "isspace_c c \<longleftrightarrow> code_of c = 32 \<or> (9 \<le> code_of c \<and> code_of c \<le> 13)"

definition isdigit_c :: "char \<Rightarrow> bool" where
  "isdigit_c c \<longleftrightarrow> 48 \<le> code_of c \<and> code_of c \<le> 57"

definition isxdigit_c :: "char \<Rightarrow> bool" where
  "isxdigit_c c \<longleftrightarrow> isdigit_c c \<or> (65 \<le> code_of c \<and> code_of c \<le> 70)
     \<or> (97 \<le> code_of c \<and> code_of c \<le> 102)"

definition tolower_c :: "char \<Rightarrow> char" where
  "tolower_c c = (if 65 \<le> code_of c \<and> code_of c \<le> 90 then char_of (code_of c + 32) else c)"

lemma code_of_less [simp]: "code_of c < 256"
  by (simp add: code_of_def)

lemma code_of_char_of [simp]: "n < 256 \<Longrightarrow> code_of (char_of n) = n"
  by (simp add: code_of_def)

lemma code_of_tolower:
  "code_of (tolower_c c) = (if 65 \<le> code_of c \<and> code_of c \<le> 90 then code_of c + 32 else code_of c)"
  by (simp add: tolower_c_def)

lemma tolower_idem [text_simps]: "tolower_c (tolower_c c) = tolower_c c"
  by (simp add: tolower_c_def)

lemma isspace_tolower [text_simps]: "isspace_c (tolower_c c) = isspace_c c"
  by (auto simp: isspace_c_def code_of_tolower)

lemma isxdigit_tolower [text_simps]: "isxdigit_c (tolower_c c) = isxdigit_c c"
  by (auto simp: isxdigit_c_def isdigit_c_def code_of_tolower)

subsection \<open>Strings\<close>

definition lower_string :: "string \<Rightarrow> string" where
  "lower_string s = map tolower_c s"

definition trim_left :: "string \<Rightarrow> string" where
  "trim_left s = dropWhile isspace_c s"

definition trim_right :: "string \<Rightarrow> string" where
  "trim_right s = rev (dropWhile isspace_c (rev s))"

definition trim_both :: "string \<Rightarrow> string" where
  "trim_both s = trim_right (trim_left s)"

text \<open>\<open>s.rfind(token, 0) == 0\<close>.\<close>

definition starts_with :: "string \<Rightarrow> string \<Rightarrow> bool" where
  "starts_with tok s \<longleftrightarrow> take (length tok) s = tok"

text \<open>\<open>s.find(token) != npos\<close>.\<close>

fun str_contains :: "string \<Rightarrow> string \<Rightarrow> bool" where
  "str_contains tok [] = (tok = [])"
| "str_contains tok (c # cs) = (starts_with tok (c # cs) \<or> str_contains tok cs)"

text \<open>Repeated \<open>std::getline(stream, piece, d)\<close>: no piece after a final delimiter.\<close>

lemma length_tl_dropWhile_less: "s \<noteq> [] \<Longrightarrow> length (tl (dropWhile P s)) < length s"
  by (cases s) (auto simp: less_Suc_eq_le intro: le_trans [OF diff_le_self] length_dropWhile_le)

function getline_split :: "char \<Rightarrow> string \<Rightarrow> string list" where
  "getline_split d s =
     (if s = [] then []
      else takeWhile (\<lambda>c. c \<noteq> d) s # getline_split d (tl (dropWhile (\<lambda>c. c \<noteq> d) s)))"
  by pat_completeness auto
termination
  by (relation "measure (\<lambda>(d, s). length s)")
     (simp_all add: length_tl_dropWhile_less del: length_tl)

declare getline_split.simps [simp del]

lemma starts_with_append [simp]: "starts_with t (t @ s)"
  by (simp add: starts_with_def)

lemma starts_with_iff_prefix: "starts_with t s \<longleftrightarrow> prefix t s"
  by (auto simp: starts_with_def prefix_def) (metis append_take_drop_id)

lemma str_contains_iff_sublist: "str_contains t s \<longleftrightarrow> sublist t s"
  by (induction t s rule: str_contains.induct)
     (auto simp: starts_with_iff_prefix sublist_Cons_right)

lemma lower_string_idem [text_simps]: "lower_string (lower_string s) = lower_string s"
  by (simp add: lower_string_def text_simps)

lemma lower_string_Nil_iff [simp]: "lower_string s = [] \<longleftrightarrow> s = []"
  by (simp add: lower_string_def)

lemma length_lower_string [simp]: "length (lower_string s) = length s"
  by (simp add: lower_string_def)

lemma hd_dropWhile_not: "dropWhile P xs \<noteq> [] \<Longrightarrow> \<not> P (hd (dropWhile P xs))"
  by (rule hd_dropWhile)

lemma dropWhile_id: "(xs \<noteq> [] \<Longrightarrow> \<not> P (hd xs)) \<Longrightarrow> dropWhile P xs = xs"
  by (cases xs) auto

lemma trim_both_Nil [simp]: "trim_both [] = []"
  by (simp add: trim_both_def trim_left_def trim_right_def)

lemma trim_right_decomp:
  obtains sp where "s = trim_right s @ sp" and "\<forall>c \<in> set sp. isspace_c c"
proof
  show "s = trim_right s @ rev (takeWhile isspace_c (rev s))"
    unfolding trim_right_def by (metis rev_append rev_rev_ident takeWhile_dropWhile_id)
  show "\<forall>c \<in> set (rev (takeWhile isspace_c (rev s))). isspace_c c"
    by (auto dest: set_takeWhileD)
qed

lemma trim_right_last: "trim_right s \<noteq> [] \<Longrightarrow> \<not> isspace_c (last (trim_right s))"
  by (simp add: trim_right_def last_rev hd_dropWhile_not)

lemma trim_both_last: "trim_both s \<noteq> [] \<Longrightarrow> \<not> isspace_c (last (trim_both s))"
  by (simp add: trim_both_def trim_right_last)

lemma trim_both_hd:
  assumes "trim_both s \<noteq> []" shows "\<not> isspace_c (hd (trim_both s))"
proof -
  obtain sp where "trim_left s = trim_both s @ sp"
    using trim_right_decomp [of "trim_left s"] by (metis trim_both_def)
  with assms have "hd (trim_both s) = hd (trim_left s)" and "trim_left s \<noteq> []"
    by (auto simp: hd_append)
  then show ?thesis by (simp add: trim_left_def hd_dropWhile_not)
qed

lemma trim_both_fixed:
  assumes "s \<noteq> [] \<Longrightarrow> \<not> isspace_c (hd s)" and "s \<noteq> [] \<Longrightarrow> \<not> isspace_c (last s)"
  shows "trim_both s = s"
proof (cases "s = []")
  case False
  with assms have "dropWhile isspace_c s = s" and "dropWhile isspace_c (rev s) = rev s"
    by (simp_all add: dropWhile_id hd_rev)
  then show ?thesis by (simp add: trim_both_def trim_left_def trim_right_def)
qed simp

lemma trim_both_padded:
  assumes "\<forall>c\<in>set a. isspace_c c" and "\<forall>c\<in>set b. isspace_c c"
    and "s \<noteq> []" and "\<not> isspace_c (hd s)" and "\<not> isspace_c (last s)"
  shows "trim_both (a @ s @ b) = s"
proof -
  have "trim_left (a @ s @ b) = s @ b"
    using assms(1,3,4) by (cases s) (simp_all add: trim_left_def dropWhile_append)
  moreover have "dropWhile isspace_c (rev b @ rev s) = rev s"
    using assms(2,3,5) by (cases s rule: rev_cases) (simp_all add: dropWhile_append)
  ultimately show ?thesis by (simp add: trim_both_def trim_right_def)
qed

lemma trim_both_idem [text_simps]: "trim_both (trim_both s) = trim_both s"
  by (rule trim_both_fixed) (auto dest: trim_both_hd trim_both_last)

subsection \<open>Selecting from lists\<close>

lemma map_filter_agree: "\<forall>x\<in>set xs. f x = g x \<Longrightarrow> List.map_filter f xs = List.map_filter g xs"
  by (induction xs) (simp_all add: List.map_filter_simps split: option.split)

subsection \<open>Identifiers below a bound\<close>

lemma distinct_ids_bound:
  assumes "\<forall>u\<in>set us. unat u < n" and "distinct us"
  shows "length us \<le> n"
proof -
  have "distinct (map unat us)"
    using assms(2) by (simp add: distinct_map inj_on_def word_unat_eq_iff)
  moreover have "set (map unat us) \<subseteq> {..<n}" using assms(1) by auto
  ultimately have "length (map unat us) \<le> card {..<n}"
    by (metis card_mono distinct_card finite_lessThan)
  then show ?thesis by simp
qed

lemma ids_below:
  fixes n :: nat
  assumes "n \<le> 2 ^ LENGTH('a)"
  shows "set (map of_nat [0..<n]) = {u :: 'a::len word. unat u < n}"
    and "distinct (map of_nat [0..<n] :: 'a::len word list)"
proof -
  have inv: "unat (of_nat i :: 'a word) = i" if "i < n" for i
    using that assms by (simp add: unat_of_nat take_bit_nat_eq_self)
  show "set (map of_nat [0..<n]) = {u :: 'a::len word. unat u < n}"
  proof (rule set_eqI)
    fix u :: "'a word"
    show "u \<in> set (map of_nat [0..<n]) \<longleftrightarrow> u \<in> {u. unat u < n}"
      by (auto simp: inv intro!: image_eqI [of _ _ "unat u"])
  qed
  show "distinct (map of_nat [0..<n] :: 'a word list)"
    by (auto simp: distinct_map inj_on_def) (metis inv)
qed

end
