(* ===== verification/ArtNet_Packet.thy ===== *)
theory ArtNet_Packet
  imports Prelude
begin

text \<open>
  The ArtDmx datagram parser (\<open>dmx/artnet_dmx_parser.cpp\<close>). A datagram is the list of the
  \<open>packet_size\<close> bytes at \<open>packet_data\<close>, \<^term>\<open>None\<close> for a null pointer; the frame view's data
  pointer is the suffix of the datagram it points to. A datagram the parser refuses is
  \<^term>\<open>None\<close> (the code returns false and leaves the view alone).
\<close>

record frame_view =
  fv_universe_id :: u16
  fv_sequence :: u8
  fv_length :: u16
  fv_data :: "u8 list"

definition kArtNetHeader :: "u8 list" where
  "kArtNetHeader = [65, 114, 116, 45, 78, 101, 116, 0]"

definition kMinimumArtDmxPacketSize :: nat where
  "kMinimumArtDmxPacketSize = 18"

definition kOpCodeArtDmx :: u16 where
  "kOpCodeArtDmx = 0x5000"

definition kMinimumProtocolVersion :: u16 where
  "kMinimumProtocolVersion = 14"

definition read_u16_le :: "u8 list \<Rightarrow> nat \<Rightarrow> u16" where
  "read_u16_le p i = ucast (p ! i) OR push_bit 8 (ucast (p ! (i + 1)))"

definition read_u16_be :: "u8 list \<Rightarrow> nat \<Rightarrow> u16" where
  "read_u16_be p i = push_bit 8 (ucast (p ! i)) OR ucast (p ! (i + 1))"

definition parse_artdmx :: "u8 list option \<Rightarrow> frame_view option" where
  "parse_artdmx packet =
     (case packet of
        None \<Rightarrow> None
      | Some p \<Rightarrow>
          if length p < kMinimumArtDmxPacketSize then None
          else if take 8 p \<noteq> kArtNetHeader then None
          else if read_u16_le p 8 \<noteq> kOpCodeArtDmx then None
          else if read_u16_be p 10 < kMinimumProtocolVersion then None
          else
            let sequence = p ! 12; subuni = p ! 14; net = p ! 15;
                declared_length = read_u16_be p 16;
                clamped_length = min declared_length 512
            in if length p < kMinimumArtDmxPacketSize + unat clamped_length then None
               else Some \<lparr>fv_universe_id = push_bit 8 (ucast net) OR ucast subuni,
                          fv_sequence = sequence, fv_length = clamped_length,
                          fv_data = drop kMinimumArtDmxPacketSize p\<rparr>)"

lemmas artdmx_constants =
  kMinimumArtDmxPacketSize_def kOpCodeArtDmx_def kMinimumProtocolVersion_def

subsection \<open>Two-byte fields\<close>

lemma unat_two_bytes:
  "unat (push_bit 8 (ucast (hi :: u8)) OR ucast (lo :: u8) :: u16) = 256 * unat hi + unat lo"
proof -
  have w: "unat (ucast hi :: u16) = unat hi" "unat (ucast lo :: u16) = unat lo"
    by (simp_all add: unat_ucast_widen)
  show ?thesis
    using unat_or_push_bit [of "ucast lo :: u16" 8 "ucast hi"] unat_byte_less [of hi] unat_byte_less [of lo]
    by (simp add: w)
qed

lemma unat_read_u16_be: "unat (read_u16_be p i) = 256 * unat (p ! i) + unat (p ! (i + 1))"
  by (simp add: read_u16_be_def unat_two_bytes)

lemma unat_read_u16_le: "unat (read_u16_le p i) = 256 * unat (p ! (i + 1)) + unat (p ! i)"
  by (simp add: read_u16_le_def unat_two_bytes or.commute [of "ucast (p ! i)"])

subsection \<open>What the parser accepts\<close>

lemma unat_min_512: "unat (min (n :: u16) 512) = min (unat n) 512"
  by (simp add: min_def word_le_nat_alt)

lemma opcode_bytes: "read_u16_le p i = kOpCodeArtDmx \<longleftrightarrow> p ! i = 0 \<and> p ! (i + 1) = 0x50"
proof -
  have op: "unat kOpCodeArtDmx = 256 * 80" and b: "unat (0x50 :: u8) = 80"
    by (simp_all add: kOpCodeArtDmx_def)
  have "read_u16_le p i = kOpCodeArtDmx \<longleftrightarrow> 256 * unat (p ! (i + 1)) + unat (p ! i) = 256 * 80 + 0"
    by (simp only: word_unat_eq_iff op unat_read_u16_le add_0_right)
  also have "\<dots> \<longleftrightarrow> unat (p ! (i + 1)) = 80 \<and> unat (p ! i) = 0"
    by (rule byte_pair_eq_iff) (rule unat_byte_less, simp)
  also have "\<dots> \<longleftrightarrow> p ! (i + 1) = 0x50 \<and> p ! i = 0"
    by (simp only: word_unat_eq_iff [of "p ! (i + 1)" "0x50"] b unat_eq_zero)
  finally show ?thesis by blast
qed

lemma version_too_old: "read_u16_be p i < kMinimumProtocolVersion \<longleftrightarrow> 256 * unat (p ! i) + unat (p ! (i + 1)) < 14"
  by (simp add: word_less_nat_alt kMinimumProtocolVersion_def unat_read_u16_be)

text \<open>The conditions of the Art-Net 4 ArtDmx layout, read off the bytes as numbers.\<close>

definition is_artdmx :: "u8 list \<Rightarrow> bool" where
  "is_artdmx p \<longleftrightarrow> 18 \<le> length p \<and> take 8 p = kArtNetHeader \<and> p ! 8 = 0 \<and> p ! 9 = 0x50
     \<and> 14 \<le> 256 * unat (p ! 10) + unat (p ! 11)
     \<and> 18 + min 512 (256 * unat (p ! 16) + unat (p ! 17)) \<le> length p"

lemma parse_artdmx_eq:
  "parse_artdmx (Some p) =
     (if is_artdmx p
      then Some \<lparr>fv_universe_id = push_bit 8 (ucast (p ! 15)) OR ucast (p ! 14), fv_sequence = p ! 12,
                 fv_length = min (read_u16_be p 16) 512, fv_data = drop 18 p\<rparr>
      else None)"
  by (auto simp: parse_artdmx_def is_artdmx_def kMinimumArtDmxPacketSize_def Let_def opcode_bytes
        version_too_old unat_min_512 unat_read_u16_be min.commute)

lemma parse_artdmx_Some:
  "parse_artdmx packet = Some f \<longleftrightarrow>
     (\<exists>p. packet = Some p \<and> is_artdmx p
        \<and> f = \<lparr>fv_universe_id = push_bit 8 (ucast (p ! 15)) OR ucast (p ! 14), fv_sequence = p ! 12,
               fv_length = min (read_u16_be p 16) 512, fv_data = drop 18 p\<rparr>)"
  by (cases packet) (auto simp: parse_artdmx_eq, simp add: parse_artdmx_def)

lemma parsed_length: "parse_artdmx packet = Some f \<Longrightarrow> unat (fv_length f) \<le> 512"
  by (auto simp: parse_artdmx_Some unat_min_512)

lemma parsed_data: "parse_artdmx packet = Some f \<Longrightarrow> unat (fv_length f) \<le> length (fv_data f)"
  by (auto simp: parse_artdmx_Some unat_min_512 unat_read_u16_be is_artdmx_def min.commute)

text \<open>C29: the parser accepts a datagram exactly when its bytes form an ArtDmx packet (id string,
  little-endian opcode 0x5000, big-endian protocol version at least 14, room for the payload it
  declares clamped to 512 bytes), and the view it returns holds the 15-bit-or-wider port address
  net * 256 + subuni, the sequence byte, the clamped length and the payload; the length never
  exceeds 512 nor the bytes the view points to.\<close>

theorem parse_artdmx_exact:
  "(parse_artdmx packet = Some f) =
     (\<exists>p. packet = Some p \<and> is_artdmx p
        \<and> unat (fv_universe_id f) = 256 * unat (p ! 15) + unat (p ! 14)
        \<and> fv_sequence f = p ! 12
        \<and> unat (fv_length f) = min 512 (256 * unat (p ! 16) + unat (p ! 17))
        \<and> unat (fv_length f) \<le> length (fv_data f)
        \<and> fv_data f = drop 18 p)"
  (is "?l = ?r")
proof
  show "?r" if "?l"
    using that parsed_data [OF that]
    by (auto simp: parse_artdmx_Some unat_two_bytes unat_min_512 unat_read_u16_be min.commute)
next
  assume ?r
  then obtain p where p: "packet = Some p" "is_artdmx p"
    and u: "unat (fv_universe_id f) = 256 * unat (p ! 15) + unat (p ! 14)"
    and l: "unat (fv_length f) = min 512 (256 * unat (p ! 16) + unat (p ! 17))"
    and rest: "fv_sequence f = p ! 12" "fv_data f = drop 18 p"
    by blast
  have "fv_universe_id f = push_bit 8 (ucast (p ! 15)) OR ucast (p ! 14)"
    using u by (simp add: word_unat_eq_iff unat_two_bytes)
  moreover have "fv_length f = min (read_u16_be p 16) 512"
    using l by (simp add: word_unat_eq_iff unat_min_512 unat_read_u16_be min.commute)
  ultimately show ?l
    using p rest by (cases f) (simp add: parse_artdmx_Some)
qed

subsection \<open>Reference encoder\<close>

text \<open>A sender following the Art-Net layout: any protocol version of at least 14, any payload
  length a 16-bit field holds, and any trailing bytes.\<close>

definition artdmx_datagram :: "u16 \<Rightarrow> u8 \<Rightarrow> u8 \<Rightarrow> u8 \<Rightarrow> u8 \<Rightarrow> u8 list \<Rightarrow> u8 list" where
  "artdmx_datagram version sequence physical subuni net payload =
     kArtNetHeader @ [0x00, 0x50, ucast (drop_bit 8 version), ucast version, sequence, physical, subuni, net,
       ucast (drop_bit 8 (of_nat (length payload) :: u16)), of_nat (length payload)] @ payload"

lemma split_u16: "256 * unat (ucast (drop_bit 8 v) :: u8) + unat (v :: u16) mod 256 = unat v"
proof -
  have "unat v < 65536" using unsigned_less [of v] by simp
  then have "unat (ucast (drop_bit 8 v) :: u8) = unat v div 256"
    by (subst unsigned_ucast_eq, subst unsigned_drop_bit_eq) (simp add: drop_bit_eq_div take_bit_eq_mod)
  then show ?thesis by simp
qed

lemma is_artdmx_datagram:
  assumes "14 \<le> unat version" and "length payload < 65536"
  shows "is_artdmx (artdmx_datagram version sequence physical subuni net payload @ pad)"
proof -
  have "256 * unat (ucast (drop_bit 8 (of_nat (length payload) :: u16)) :: u8)
          + length payload mod 256 = length payload"
    using split_u16 [of "of_nat (length payload)"] assms(2) by (simp add: unat_of_nat)
  then show ?thesis
    using split_u16 [of version] assms(1)
    by (simp add: is_artdmx_def artdmx_datagram_def kArtNetHeader_def unat_of_nat unsigned_ucast_eq
        take_bit_eq_mod)
qed

lemma datagram_fields:
  "artdmx_datagram version sequence physical subuni net payload ! 12 = sequence"
  "artdmx_datagram version sequence physical subuni net payload ! 14 = subuni"
  "artdmx_datagram version sequence physical subuni net payload ! 15 = net"
  "18 \<le> length (artdmx_datagram version sequence physical subuni net payload)"
  "drop 18 (artdmx_datagram version sequence physical subuni net payload) = payload"
  by (simp_all add: artdmx_datagram_def kArtNetHeader_def)

lemma datagram_declared_length:
  assumes "length payload < 65536"
  shows "read_u16_be (artdmx_datagram version sequence physical subuni net payload @ pad) 16
           = of_nat (length payload)"
proof -
  have "unat (read_u16_be (artdmx_datagram version sequence physical subuni net payload @ pad) 16)
          = unat (of_nat (length payload) :: u16)"
    using split_u16 [of "of_nat (length payload)"] assms
    by (simp add: unat_read_u16_be artdmx_datagram_def kArtNetHeader_def unat_of_nat unsigned_ucast_eq
        take_bit_eq_mod)
  then show ?thesis by (simp only: word_unat_eq_iff)
qed

text \<open>Every datagram a conforming sender builds (protocol version at least 14, any payload
  up to 65535 bytes, any trailing bytes in the same datagram) is accepted, and decoding returns
  its sequence, its port address, its payload and its length clamped to the 512 slots of a
  universe.\<close>

theorem parse_artdmx_datagram:
  assumes "14 \<le> unat version" and "length payload < 65536"
  shows "parse_artdmx (Some (artdmx_datagram version sequence physical subuni net payload @ pad)) =
     Some \<lparr>fv_universe_id = push_bit 8 (ucast net) OR ucast subuni, fv_sequence = sequence,
           fv_length = min (of_nat (length payload)) 512, fv_data = payload @ pad\<rparr>"
  using is_artdmx_datagram [OF assms] datagram_declared_length [OF assms(2)]
  by (simp add: parse_artdmx_eq datagram_fields nth_append order.strict_trans2 [OF _ datagram_fields(4)])

theorem parse_artdmx_datagram_witness:
  "parse_artdmx (Some (artdmx_datagram 14 7 0 3 1 [10, 20] @ [99])) =
     Some \<lparr>fv_universe_id = 259, fv_sequence = 7, fv_length = 2, fv_data = [10, 20, 99]\<rparr>"
proof -
  have "parse_artdmx (Some (artdmx_datagram 14 7 0 3 1 [10, 20] @ [99])) =
     Some \<lparr>fv_universe_id = push_bit 8 (ucast (1 :: u8)) OR ucast (3 :: u8), fv_sequence = 7,
           fv_length = min (of_nat (length [10, 20 :: u8])) 512, fv_data = [10, 20] @ [99]\<rparr>"
    by (rule parse_artdmx_datagram) simp_all
  then show ?thesis by (simp add: min_def)
qed

end
