(* ===== verification/Sequence_Tracker.thy ===== *)
theory Sequence_Tracker
  imports Prelude
begin

text \<open>
  Acceptance of ArtDmx sequence numbers per universe (\<open>dmx/artnet_sequence_tracker.cpp\<close>). The
  tracker's hash map from universe to stream state is a map; \<open>states_[universe]\<close> on a missing key
  creates the default, uninitialised state, which is what \<open>state_of\<close> reads.
\<close>

record endpoint =
  ep_ipv4 :: u32
  ep_port :: u16

record sequence_decision =
  sd_accepted :: bool
  sd_source_changed :: bool

record stream_state =
  st_endpoint :: endpoint
  st_sequence :: u8
  st_ordered :: bool
  st_initialized :: bool

type_synonym tracker = "u16 \<rightharpoonup> stream_state"

definition default_stream :: stream_state where
  "default_stream = \<lparr>st_endpoint = \<lparr>ep_ipv4 = 0, ep_port = 0\<rparr>, st_sequence = 0,
     st_ordered = False, st_initialized = False\<rparr>"

definition state_of :: "tracker \<Rightarrow> u16 \<Rightarrow> stream_state" where
  "state_of t u = (case t u of None \<Rightarrow> default_stream | Some s \<Rightarrow> s)"

text \<open>\<open>(incoming - previous + 255) % 255\<close> on the one-based sequence cycle 1..255.\<close>

definition forward_distance :: "u8 \<Rightarrow> u8 \<Rightarrow> int" where
  "forward_distance stored sequence =
     (let previous = uint stored - 1; incoming = uint sequence - 1
      in (incoming - previous + 255) mod 255)"

definition accept :: "tracker \<Rightarrow> u16 \<Rightarrow> u8 \<Rightarrow> endpoint \<Rightarrow> sequence_decision \<times> tracker" where
  "accept t u sequence ep =
     (let s = state_of t u;
          source_changed = (st_initialized s \<and> st_endpoint s \<noteq> ep)
      in if \<not> st_initialized s \<or> source_changed then
           (\<lparr>sd_accepted = True, sd_source_changed = source_changed\<rparr>,
            t(u \<mapsto> \<lparr>st_endpoint = ep, st_sequence = sequence, st_ordered = (sequence \<noteq> 0),
                    st_initialized = True\<rparr>))
         else if sequence = 0 then
           (\<lparr>sd_accepted = True, sd_source_changed = False\<rparr>,
            t(u \<mapsto> s\<lparr>st_ordered := False, st_sequence := 0\<rparr>))
         else if \<not> st_ordered s then
           (\<lparr>sd_accepted = True, sd_source_changed = False\<rparr>,
            t(u \<mapsto> s\<lparr>st_sequence := sequence, st_ordered := True\<rparr>))
         else
           let forward = forward_distance (st_sequence s) sequence
           in if forward = 0 \<or> forward > 127 then
                (\<lparr>sd_accepted = False, sd_source_changed = False\<rparr>, t(u \<mapsto> s))
              else
                (\<lparr>sd_accepted = True, sd_source_changed = False\<rparr>,
                 t(u \<mapsto> s\<lparr>st_sequence := sequence\<rparr>)))"

definition reset_tracker :: "tracker \<Rightarrow> tracker" where
  "reset_tracker t = Map.empty"

text \<open>A stream of sequence numbers from one sender: the decisions and the final tracker.\<close>

fun accept_stream :: "tracker \<Rightarrow> u16 \<Rightarrow> endpoint \<Rightarrow> u8 list \<Rightarrow> bool list \<times> tracker" where
  "accept_stream t u ep [] = ([], t)"
| "accept_stream t u ep (q # qs) =
     (let (d, t') = accept t u q ep; (ds, t'') = accept_stream t' u ep qs
      in (sd_accepted d # ds, t''))"

subsection \<open>Invariant\<close>

definition stream_ok :: "stream_state \<Rightarrow> bool" where
  "stream_ok s \<longleftrightarrow> (st_ordered s \<longleftrightarrow> st_sequence s \<noteq> 0)"

definition tracker_ok :: "tracker \<Rightarrow> bool" where
  "tracker_ok t \<longleftrightarrow> (\<forall>u s. t u = Some s \<longrightarrow> stream_ok s \<and> st_initialized s)"

lemma tracker_ok_reset [simp]: "tracker_ok (reset_tracker t)"
  by (simp add: tracker_ok_def reset_tracker_def)

lemma tracker_ok_accept: "tracker_ok t \<Longrightarrow> tracker_ok (snd (accept t u q ep))"
  by (auto simp: tracker_ok_def accept_def state_of_def stream_ok_def default_stream_def Let_def
      split: option.splits)

lemma accept_other_universe: "v \<noteq> u \<Longrightarrow> snd (accept t u q ep) v = t v"
  by (simp add: accept_def Let_def)

subsection \<open>The sequence cycle\<close>

lemma uint_u8_bounds: "0 \<le> uint (q :: u8)" "uint (q :: u8) \<le> 255"
  using uint_bounded [of q] by simp_all

lemma uint_nonzero: "(q :: u8) \<noteq> 0 \<Longrightarrow> 1 \<le> uint q"
  by (metis uint_u8_bounds(1) int_one_le_iff_zero_less less_le uint_0_iff)

lemma forward_distance_range: "0 \<le> forward_distance p q" "forward_distance p q < 255"
  by (simp_all add: forward_distance_def Let_def)

lemma forward_distance_cases:
  assumes "p \<noteq> 0" and "q \<noteq> 0"
  shows "forward_distance p q =
           (if uint p \<le> uint q then uint q - uint p else uint q - uint p + 255)"
proof -
  have "1 \<le> uint p" "uint p \<le> 255" "1 \<le> uint q" "uint q \<le> 255"
    using assms by (simp_all add: uint_nonzero uint_u8_bounds)
  moreover have "(x + 255) mod 255 = (if 0 \<le> x then x else x + 255)" if "-255 < x" "x < 255" for x :: int
  proof (cases "0 \<le> x")
    case False
    then have "(x + 255) mod 255 = x + 255"
      using that by (intro mod_pos_pos_trivial) simp_all
    with False show ?thesis by simp
  qed (use that in simp)
  ultimately show ?thesis
    by (simp add: forward_distance_def Let_def)
qed

lemma forward_distance_0_iff:
  assumes "p \<noteq> 0" and "q \<noteq> 0"
  shows "forward_distance p q = 0 \<longleftrightarrow> p = q"
  using forward_distance_cases [OF assms] uint_nonzero [OF assms(1)] uint_nonzero [OF assms(2)]
    uint_u8_bounds [of p] uint_u8_bounds [of q]
  by (auto simp: word_uint_eq_iff split: if_splits)

lemma forward_distance_antisym:
  assumes "p \<noteq> 0" and "q \<noteq> 0" and "p \<noteq> q"
  shows "forward_distance p q + forward_distance q p = 255"
  using assms(3) forward_distance_cases [OF assms(1,2)] forward_distance_cases [OF assms(2,1)]
  by (auto simp: word_uint_eq_iff split: if_splits)

subsection \<open>Stream positions\<close>

text \<open>The abstract view of an ordered stream: the sender's \<open>k\<close>-th packet carries sequence
  \<open>k mod 255 + 1\<close>, skipping 0.\<close>

definition seq_of :: "nat \<Rightarrow> u8" where
  "seq_of k = of_nat (k mod 255 + 1)"

lemma uint_seq_of: "uint (seq_of k) = int (k mod 255) + 1"
proof -
  have "k mod 255 + 1 < 256" using mod_less_divisor [of 255 k] by linarith
  then have "unat (seq_of k) = k mod 255 + 1"
    by (simp only: seq_of_def unat_of_nat) simp
  then have "int (unat (seq_of k)) = int (k mod 255) + 1" by simp
  then show ?thesis by (simp only: uint_nat)
qed

lemma seq_of_nonzero [simp]: "seq_of k \<noteq> 0"
  using uint_seq_of [of k] by (auto simp del: of_nat_mod)

lemma seq_of_surj: "q \<noteq> 0 \<Longrightarrow> q = seq_of (unat q - 1)"
proof -
  assume "q \<noteq> 0"
  then have "0 < unat q" and "unat q < 256" by (simp_all add: unat_gt_0 unat_byte_less)
  then have "(unat q - 1) mod 255 + 1 = unat q" by simp
  then have "unat (seq_of (unat q - 1)) = unat q"
    by (simp only: seq_of_def unat_of_nat) simp
  then show ?thesis by (simp only: word_unat_eq_iff)
qed

lemma forward_distance_seq_of:
  "forward_distance (seq_of k) (seq_of j) = (int j - int k) mod 255"
proof -
  have "forward_distance (seq_of k) (seq_of j) = (int j mod 255 - int k mod 255) mod 255"
    by (simp add: forward_distance_def uint_seq_of zmod_int)
  then show ?thesis by (simp add: mod_diff_eq)
qed

text \<open>The stream at universe \<open>u\<close> follows endpoint \<open>ep\<close> and last accepted position \<open>k\<close>.\<close>

definition at_position :: "tracker \<Rightarrow> u16 \<Rightarrow> endpoint \<Rightarrow> nat \<Rightarrow> bool" where
  "at_position t u ep k \<longleftrightarrow>
     t u = Some \<lparr>st_endpoint = ep, st_sequence = seq_of k, st_ordered = True, st_initialized = True\<rparr>"

lemma accept_at_position:
  assumes "at_position t u ep k"
  shows "accept t u (seq_of j) ep =
     (let fwd = (int j - int k) mod 255; ok = (0 < fwd \<and> fwd \<le> 127)
      in (\<lparr>sd_accepted = ok, sd_source_changed = False\<rparr>,
          if ok then t(u \<mapsto> \<lparr>st_endpoint = ep, st_sequence = seq_of j, st_ordered = True,
                            st_initialized = True\<rparr>) else t))"
  using assms
  by (auto simp: accept_def state_of_def at_position_def forward_distance_seq_of Let_def fun_upd_idem
      order.order_iff_strict)

text \<open>C19: seen as positions of the sender's stream, the tracker is a sliding window: from position
  \<open>k\<close> a packet at position \<open>j\<close> is accepted exactly when it is 1 to 127 places ahead on the
  255-cycle; accepting it moves the stream to \<open>j\<close>, and refusing it leaves the whole tracker
  unchanged.\<close>

theorem accept_refines_window:
  assumes "at_position t u ep k"
  shows "sd_accepted (fst (accept t u (seq_of j) ep)) = ((int j - int k) mod 255 \<in> {1..127})
       \<and> (if sd_accepted (fst (accept t u (seq_of j) ep))
          then at_position (snd (accept t u (seq_of j) ep)) u ep j
          else snd (accept t u (seq_of j) ep) = t)"
  using assms by (auto simp: accept_at_position Let_def at_position_def)

theorem accept_refines_window_witness:
  "sd_accepted (fst (accept [5 \<mapsto> \<lparr>st_endpoint = \<lparr>ep_ipv4 = 1, ep_port = 2\<rparr>, st_sequence = seq_of 254,
        st_ordered = True, st_initialized = True\<rparr>] 5 (seq_of 255) \<lparr>ep_ipv4 = 1, ep_port = 2\<rparr>))"
  using accept_refines_window [of "[5 \<mapsto> \<lparr>st_endpoint = \<lparr>ep_ipv4 = 1, ep_port = 2\<rparr>,
      st_sequence = seq_of 254, st_ordered = True, st_initialized = True\<rparr>]" 5
      "\<lparr>ep_ipv4 = 1, ep_port = 2\<rparr>" 254 255]
  by (simp add: at_position_def)

text \<open>Of two different sequence numbers, each nonzero, exactly one is newer than the other: a
  tracker that stands at \<open>p\<close> accepts \<open>q\<close> if and only if a tracker that stands at \<open>q\<close> refuses
  \<open>p\<close>, so two packets swapped in flight are never both accepted or both dropped.\<close>

theorem accept_orders_pairs:
  assumes "p \<noteq> 0" and "q \<noteq> 0" and "p \<noteq> q"
    and "t u = Some \<lparr>st_endpoint = ep, st_sequence = p, st_ordered = True, st_initialized = True\<rparr>"
    and "t' u = Some \<lparr>st_endpoint = ep, st_sequence = q, st_ordered = True, st_initialized = True\<rparr>"
  shows "sd_accepted (fst (accept t u q ep)) = (\<not> sd_accepted (fst (accept t' u p ep)))"
proof -
  have sum: "forward_distance p q + forward_distance q p = 255"
    using assms(1-3) by (rule forward_distance_antisym)
  have pos: "forward_distance p q \<noteq> 0" "forward_distance q p \<noteq> 0"
    using assms(1-3) by (simp_all add: forward_distance_0_iff)
  have "sd_accepted (fst (accept t u q ep)) \<longleftrightarrow> forward_distance p q \<le> 127"
    and "sd_accepted (fst (accept t' u p ep)) \<longleftrightarrow> forward_distance q p \<le> 127"
    using assms pos by (simp_all add: accept_def state_of_def Let_def)
  with sum show ?thesis by auto
qed

theorem accept_orders_pairs_witness:
  "\<not> sd_accepted (fst (accept [1 \<mapsto> \<lparr>st_endpoint = \<lparr>ep_ipv4 = 9, ep_port = 9\<rparr>, st_sequence = 2,
        st_ordered = True, st_initialized = True\<rparr>] 1 250 \<lparr>ep_ipv4 = 9, ep_port = 9\<rparr>))"
proof -
  let ?ep = "\<lparr>ep_ipv4 = 9, ep_port = 9\<rparr>"
  let ?t = "[1 \<mapsto> \<lparr>st_endpoint = ?ep, st_sequence = 250, st_ordered = True, st_initialized = True\<rparr>]"
  let ?t' = "[1 \<mapsto> \<lparr>st_endpoint = ?ep, st_sequence = 2, st_ordered = True, st_initialized = True\<rparr>]"
  have "sd_accepted (fst (accept ?t 1 2 ?ep)) = (\<not> sd_accepted (fst (accept ?t' 1 250 ?ep)))"
    by (rule accept_orders_pairs) simp_all
  moreover have "sd_accepted (fst (accept ?t 1 2 ?ep))"
    by (simp add: accept_def state_of_def forward_distance_def)
  ultimately show ?thesis by simp
qed

subsection \<open>Streams with losses\<close>

text \<open>Positions that advance by 1 to 127 places: up to 126 packets in a row may be lost.\<close>

fun advances :: "nat \<Rightarrow> nat list \<Rightarrow> bool" where
  "advances k [] = True"
| "advances k (j # js) = (k < j \<and> j \<le> k + 127 \<and> advances j js)"

lemma accept_stream_from:
  "at_position t u ep k \<Longrightarrow> advances k js \<Longrightarrow>
     fst (accept_stream t u ep (map seq_of js)) = replicate (length js) True"
proof (induction js arbitrary: t k)
  case Nil
  then show ?case by simp
next
  case (Cons j js)
  then have "(int j - int k) mod 255 = int j - int k" and "0 < int j - int k" "int j - int k \<le> 127"
    by (simp_all add: mod_pos_pos_trivial)
  with Cons.prems(1) have step: "accept t u (seq_of j) ep =
      (\<lparr>sd_accepted = True, sd_source_changed = False\<rparr>,
       t(u \<mapsto> \<lparr>st_endpoint = ep, st_sequence = seq_of j, st_ordered = True, st_initialized = True\<rparr>))"
    by (simp add: accept_at_position Let_def)
  have "fst (accept_stream (snd (accept t u (seq_of j) ep)) u ep (map seq_of js)) = replicate (length js) True"
    using Cons.prems(2) by (intro Cons.IH [of _ j]) (simp_all add: step at_position_def)
  then show ?case by (simp add: step split_def)
qed

text \<open>A sender whose packets arrive in order is never interrupted: from any tracker in which the
  universe is new or belongs to another endpoint, a stream whose positions advance by at most 127
  (so up to 126 consecutive packets lost, any number of wraps past 255) has every packet
  accepted.\<close>

theorem accept_stream_in_order:
  assumes "\<not> st_initialized (state_of t u) \<or> st_endpoint (state_of t u) \<noteq> ep"
    and "advances k js"
  shows "fst (accept_stream t u ep (map seq_of (k # js))) = replicate (Suc (length js)) True"
proof -
  let ?t = "t(u \<mapsto> \<lparr>st_endpoint = ep, st_sequence = seq_of k, st_ordered = True, st_initialized = True\<rparr>)"
  have "\<exists>b. accept t u (seq_of k) ep = (\<lparr>sd_accepted = True, sd_source_changed = b\<rparr>, ?t)"
    using assms(1) by (auto simp: accept_def Let_def)
  moreover have "fst (accept_stream ?t u ep (map seq_of js)) = replicate (length js) True"
    using assms(2) by (intro accept_stream_from) (simp_all add: at_position_def)
  ultimately show ?thesis by (auto simp: split_def)
qed

theorem accept_stream_in_order_witness:
  "fst (accept_stream Map.empty 7 \<lparr>ep_ipv4 = 1, ep_port = 1\<rparr> (map seq_of [253, 254, 255, 300]))
     = [True, True, True, True]"
  using accept_stream_in_order [of Map.empty 7 "\<lparr>ep_ipv4 = 1, ep_port = 1\<rparr>" 253 "[254, 255, 300]"]
  by (simp add: state_of_def default_stream_def eval_nat_numeral)

end
