(* ===== verification/Slot_Directory.thy ===== *)
theory Slot_Directory
  imports Prelude
begin

text \<open>
  The frame records of \<open>dmx/dmx_universe_cache.h\<close>, and the interface both per-universe caches
  share: slots are allocated on the first effective write of a universe, which is then appended to a
  list of known ids and counted. The locale states that contract; its lemmas say what a cache may
  rely on after any sequence of puts. The two caches interpret it.
\<close>

record dmx_frame =
  df_universe_id :: u16
  df_length :: u16
  df_data :: "u8 list"
  df_last_rx_us :: u64
  df_counter :: u32
  df_sequence :: u8
  df_content_hash :: u32
  df_source_ipv4 :: u32
  df_source_port :: u16

record dmx_universe_metadata =
  um_universe_id :: u16
  um_length :: u16
  um_last_rx_us :: u64
  um_counter :: u32
  um_sequence :: u8
  um_content_hash :: u32
  um_source_ipv4 :: u32
  um_source_port :: u16

definition kUniverseSlots :: nat where
  "kUniverseSlots = 32768"

definition kSlotBytes :: nat where
  "kSlotBytes = 512"

definition blank_frame :: dmx_frame where
  "blank_frame = \<lparr>df_universe_id = 0, df_length = 0, df_data = replicate kSlotBytes 0, df_last_rx_us = 0,
     df_counter = 0, df_sequence = 0, df_content_hash = 0, df_source_ipv4 = 0, df_source_port = 0\<rparr>"

lemma length_blank_frame [simp]: "length (df_data blank_frame) = kSlotBytes"
  by (simp add: blank_frame_def)

text \<open>Universes seen by \<open>active\<close> queries: received at a known time not after now and within the window.\<close>

definition recently_received :: "u64 \<Rightarrow> u64 \<Rightarrow> u64 \<Rightarrow> bool" where
  "recently_received last_rx_us now_us window_us \<longleftrightarrow>
     last_rx_us > 0 \<and> last_rx_us \<le> now_us \<and> now_us - last_rx_us \<le> window_us"

lemma recently_received_iff:
  "recently_received l n w \<longleftrightarrow> 0 < unat l \<and> unat l \<le> unat n \<and> unat n - unat l \<le> unat w"
  by (auto simp: recently_received_def word_le_nat_alt unat_sub unat_gt_0 word_neq_0_conv)

locale slot_directory =
  fixes present :: "'s \<Rightarrow> u16 \<Rightarrow> bool"
    and ids :: "'s \<Rightarrow> u16 list"
    and slot_count :: "'s \<Rightarrow> nat"
    and effective :: "u16 \<Rightarrow> 'a \<Rightarrow> bool"
    and put :: "'s \<Rightarrow> u16 \<Rightarrow> 'a \<Rightarrow> 's option"
  assumes put_ineffective: "put s u a = Some s' \<Longrightarrow> \<not> effective u a \<Longrightarrow> s' = s"
    and put_present: "put s u a = Some s' \<Longrightarrow> effective u a \<Longrightarrow> present s' v = (v = u \<or> present s v)"
    and put_ids: "put s u a = Some s' \<Longrightarrow> effective u a \<Longrightarrow>
          ids s' = (if present s u then ids s else ids s @ [u])"
    and put_count: "put s u a = Some s' \<Longrightarrow> effective u a \<Longrightarrow>
          slot_count s' = (if present s u then slot_count s else Suc (slot_count s))"
    and effective_bound: "put s u a = Some s' \<Longrightarrow> effective u a \<Longrightarrow> unat u < kUniverseSlots"
begin

definition consistent :: "'s \<Rightarrow> bool" where
  "consistent s \<longleftrightarrow> distinct (ids s) \<and> set (ids s) = {u. present s u} \<and> slot_count s = length (ids s)
     \<and> (\<forall>u. present s u \<longrightarrow> unat u < kUniverseSlots)"

fun puts :: "'s \<Rightarrow> (u16 \<times> 'a) list \<Rightarrow> 's option" where
  "puts s [] = Some s"
| "puts s ((u, a) # ws) = (case put s u a of None \<Rightarrow> None | Some s' \<Rightarrow> puts s' ws)"

lemma consistent_put:
  assumes "put s u a = Some s'" and "consistent s"
  shows "consistent s'"
proof (cases "effective u a")
  case True
  then show ?thesis
    using assms(2) put_present [OF assms(1) True] put_ids [OF assms(1) True]
      put_count [OF assms(1) True] effective_bound [OF assms(1) True]
    by (auto simp: consistent_def)
next
  case False
  with put_ineffective [OF assms(1)] assms(2) show ?thesis by simp
qed

lemma consistent_puts: "puts s ws = Some s' \<Longrightarrow> consistent s \<Longrightarrow> consistent s'"
  by (induction s ws rule: puts.induct) (auto split: option.splits dest: consistent_put)

lemma present_puts:
  "puts s ws = Some s' \<Longrightarrow> present s' u = (present s u \<or> (\<exists>a. (u, a) \<in> set ws \<and> effective u a))"
proof (induction s ws rule: puts.induct)
  case (2 s v a ws)
  then obtain t where t: "put s v a = Some t" and rest: "puts t ws = Some s'"
    by (auto split: option.splits)
  have "present t u = (present s u \<or> (u = v \<and> effective v a))"
    using put_ineffective [OF t] put_present [OF t, of u] by (cases "effective v a") auto
  then show ?case using "2.IH" [OF t rest] by auto
qed simp

lemma slot_count_bound: "consistent s \<Longrightarrow> slot_count s \<le> kUniverseSlots"
  using distinct_ids_bound [of "ids s" kUniverseSlots] by (simp add: consistent_def)

end

end
