(* ===== verification/Metadata_Cache.thy ===== *)
theory Metadata_Cache
  imports Slot_Directory
begin

text \<open>
  The compact all-network metadata cache (\<open>dmx/dmx_network_metadata_cache.cpp\<close>). \<open>slots_\<close> is a
  \<open>std::array\<close> of 32768 slots indexed by a 16-bit universe without a bounds check, so an access with
  an index of 32768 or more is undefined: \<^term>\<open>None\<close>. Every operation runs under the cache's
  locks or on one slot's atomics, so operations are atomic steps here.
\<close>

record metadata_slot =
  ms_length :: u16
  ms_last_rx_us :: u64
  ms_packets :: u32
  ms_sequence :: u8
  ms_source_ipv4 :: u32
  ms_source_port :: u16

record metadata_cache =
  mc_slots :: "u16 \<rightharpoonup> metadata_slot"
  mc_active_ids :: "u16 list"
  mc_slot_count :: nat

record observation =
  ob_length :: u16
  ob_sequence :: u8
  ob_now_us :: u64
  ob_source_ipv4 :: u32
  ob_source_port :: u16

definition empty_metadata_cache :: metadata_cache where
  "empty_metadata_cache = \<lparr>mc_slots = Map.empty, mc_active_ids = [], mc_slot_count = 0\<rparr>"

definition blank_slot :: metadata_slot where
  "blank_slot = \<lparr>ms_length = 0, ms_last_rx_us = 0, ms_packets = 0, ms_sequence = 0,
     ms_source_ipv4 = 0, ms_source_port = 0\<rparr>"

definition observe :: "metadata_cache \<Rightarrow> u16 \<Rightarrow> observation \<Rightarrow> metadata_cache option" where
  "observe c universe ob =
     (if kUniverseSlots \<le> unat universe then None
      else
        let c1 = (case mc_slots c universe of
                    Some _ \<Rightarrow> c
                  | None \<Rightarrow> c\<lparr>mc_slots := (mc_slots c)(universe \<mapsto> blank_slot),
                             mc_active_ids := mc_active_ids c @ [universe],
                             mc_slot_count := mc_slot_count c + 1\<rparr>);
            slot = (case mc_slots c1 universe of None \<Rightarrow> blank_slot | Some s \<Rightarrow> s)
        in Some (c1\<lparr>mc_slots := (mc_slots c1)(universe \<mapsto>
             slot\<lparr>ms_length := ob_length ob, ms_sequence := ob_sequence ob, ms_last_rx_us := ob_now_us ob,
                  ms_source_ipv4 := ob_source_ipv4 ob, ms_source_port := ob_source_port ob,
                  ms_packets := ms_packets slot + 1\<rparr>)\<rparr>))"

text \<open>\<open>get\<close>: undefined out of range, otherwise the metadata when the universe has a slot.\<close>

definition get_metadata :: "metadata_cache \<Rightarrow> u16 \<Rightarrow> dmx_universe_metadata option option" where
  "get_metadata c universe =
     (if kUniverseSlots \<le> unat universe then None
      else Some (map_option (\<lambda>slot. \<lparr>um_universe_id = universe, um_length = ms_length slot,
             um_last_rx_us = ms_last_rx_us slot, um_counter = ms_packets slot,
             um_sequence = ms_sequence slot, um_content_hash = 0,
             um_source_ipv4 = ms_source_ipv4 slot, um_source_port = ms_source_port slot\<rparr>)
           (mc_slots c universe)))"

fun active_from :: "metadata_cache \<Rightarrow> u64 \<Rightarrow> u64 \<Rightarrow> u16 list \<Rightarrow> u16 list option" where
  "active_from c now_us window_us [] = Some []"
| "active_from c now_us window_us (u # us) =
     (case get_metadata c u of
        None \<Rightarrow> None
      | Some m \<Rightarrow>
          map_option (\<lambda>rest. case m of
              Some md \<Rightarrow> if um_last_rx_us md > 0 \<and> now_us \<ge> um_last_rx_us md
                            \<and> now_us - um_last_rx_us md \<le> window_us then u # rest else rest
            | None \<Rightarrow> rest)
          (active_from c now_us window_us us))"

definition active :: "metadata_cache \<Rightarrow> u64 \<Rightarrow> u64 \<Rightarrow> u16 list option" where
  "active c now_us window_us = active_from c now_us window_us (mc_active_ids c)"

lemma observe_Some_iff: "(\<exists>c'. observe c u ob = Some c') \<longleftrightarrow> unat u < kUniverseSlots"
  by (auto simp: observe_def Let_def)

definition has_metadata :: "metadata_cache \<Rightarrow> u16 \<Rightarrow> bool" where
  "has_metadata c u \<longleftrightarrow> mc_slots c u \<noteq> None"

definition any_observation :: "u16 \<Rightarrow> observation \<Rightarrow> bool" where
  "any_observation u ob = True"

interpretation metadata_dir: slot_directory has_metadata mc_active_ids mc_slot_count any_observation observe
  by unfold_locales
     (auto simp: observe_def has_metadata_def any_observation_def Let_def split: option.splits if_splits)

lemma consistent_empty [simp]: "metadata_dir.consistent empty_metadata_cache"
  by (simp add: metadata_dir.consistent_def empty_metadata_cache_def has_metadata_def)

lemma observe_slot:
  "observe c u ob = Some c' \<Longrightarrow>
     mc_slots c' = (mc_slots c)(u \<mapsto> \<lparr>ms_length = ob_length ob, ms_last_rx_us = ob_now_us ob,
       ms_packets = (case mc_slots c u of None \<Rightarrow> 0 | Some s \<Rightarrow> ms_packets s) + 1,
       ms_sequence = ob_sequence ob, ms_source_ipv4 = ob_source_ipv4 ob,
       ms_source_port = ob_source_port ob\<rparr>)"
  by (auto simp: observe_def Let_def blank_slot_def split: option.splits if_splits)

lemma get_after_observe:
  "observe c u ob = Some c' \<Longrightarrow>
     get_metadata c' v =
       (if v = u
        then Some (Some \<lparr>um_universe_id = u, um_length = ob_length ob, um_last_rx_us = ob_now_us ob,
               um_counter = (case mc_slots c u of None \<Rightarrow> 0 | Some s \<Rightarrow> ms_packets s) + 1,
               um_sequence = ob_sequence ob, um_content_hash = 0,
               um_source_ipv4 = ob_source_ipv4 ob, um_source_port = ob_source_port ob\<rparr>)
        else get_metadata c v)"
  using observe_Some_iff [of c u ob] by (auto simp: get_metadata_def observe_slot)

lemma active_from_filter:
  assumes "\<forall>u \<in> set us. unat u < kUniverseSlots"
  shows "active_from c now_us window_us us =
    Some (filter (\<lambda>u. case mc_slots c u of None \<Rightarrow> False
                      | Some s \<Rightarrow> recently_received (ms_last_rx_us s) now_us window_us) us)"
  using assms
  by (induction us) (auto simp: get_metadata_def recently_received_def split: option.splits)

subsection \<open>The cache after any packet sequence\<close>

fun observe_all :: "metadata_cache \<Rightarrow> (u16 \<times> observation) list \<Rightarrow> metadata_cache option" where
  "observe_all c [] = Some c"
| "observe_all c ((u, ob) # obs) =
     (case observe c u ob of None \<Rightarrow> None | Some c' \<Rightarrow> observe_all c' obs)"

lemma observe_all_puts: "observe_all c obs = metadata_dir.puts c obs"
  by (induction c obs rule: observe_all.induct) (auto split: option.splits)

lemma observe_all_defined: "(\<exists>c'. observe_all c obs = Some c') \<longleftrightarrow> (\<forall>(u, ob) \<in> set obs. unat u < kUniverseSlots)"
proof (induction c obs rule: observe_all.induct)
  case (2 c u ob obs)
  show ?case
  proof (cases "observe c u ob")
    case None
    then show ?thesis using observe_Some_iff [of c u ob] by auto
  next
    case (Some c')
    then show ?thesis using "2.IH" [OF Some] observe_Some_iff [of c u ob] by auto
  qed
qed simp

lemma observe_all_append:
  "observe_all c (xs @ ys) = (case observe_all c xs of None \<Rightarrow> None | Some c' \<Rightarrow> observe_all c' ys)"
  by (induction c xs rule: observe_all.induct) (auto split: option.splits)

lemma consistent_observe_all: "observe_all empty_metadata_cache obs = Some c \<Longrightarrow> metadata_dir.consistent c"
  by (simp add: observe_all_puts metadata_dir.consistent_puts)

definition slot_after :: "(u16 \<times> observation) list \<Rightarrow> u16 \<Rightarrow> observation \<Rightarrow> metadata_slot" where
  "slot_after obs u ob = \<lparr>ms_length = ob_length ob, ms_last_rx_us = ob_now_us ob,
     ms_packets = of_nat (length (filter (\<lambda>(v, _). v = u) obs)), ms_sequence = ob_sequence ob,
     ms_source_ipv4 = ob_source_ipv4 ob, ms_source_port = ob_source_port ob\<rparr>"

lemma slots_after_observe_all:
  "observe_all empty_metadata_cache obs = Some c \<Longrightarrow>
     mc_slots c u = map_option (slot_after obs u) (map_of (rev obs) u)"
proof (induction obs arbitrary: c u rule: rev_induct)
  case Nil
  then show ?case by (auto simp: empty_metadata_cache_def)
next
  case (snoc x obs)
  obtain v ob where x: "x = (v, ob)" by (cases x)
  from snoc.prems obtain c1 where c1: "observe_all empty_metadata_cache obs = Some c1"
    and step: "observe c1 v ob = Some c"
    by (auto simp: observe_all_append x split: option.splits)
  show ?case
  proof (cases "u = v")
    case False
    then show ?thesis using snoc.IH [OF c1, of u] by (simp add: observe_slot [OF step] x slot_after_def)
  next
    case True
    have "map_of (rev obs) v = None \<longleftrightarrow> filter (\<lambda>(w, _). w = v) obs = []"
      by (force simp: map_of_eq_None_iff filter_empty_conv)
    then show ?thesis
      using True snoc.IH [OF c1, of v]
      by (auto simp: observe_slot [OF step] x slot_after_def split: option.splits)
  qed
qed

text \<open>After any sequence of observed packets, reading a universe returns exactly the length, time,
  sequence and source of its last packet together with the number of its packets modulo 2^32, and
  reports nothing for a universe that was never seen.\<close>

theorem metadata_is_last_packet:
  assumes "observe_all empty_metadata_cache obs = Some c" and "unat u < kUniverseSlots"
  shows "get_metadata c u =
     Some (case map_of (rev obs) u of
             None \<Rightarrow> None
           | Some ob \<Rightarrow> Some \<lparr>um_universe_id = u, um_length = ob_length ob, um_last_rx_us = ob_now_us ob,
               um_counter = of_nat (length (filter (\<lambda>(v, _). v = u) obs)),
               um_sequence = ob_sequence ob, um_content_hash = 0,
               um_source_ipv4 = ob_source_ipv4 ob, um_source_port = ob_source_port ob\<rparr>)"
  using assms(2)
  by (auto simp: get_metadata_def slots_after_observe_all [OF assms(1)] slot_after_def split: option.splits)

definition sample_observation :: "u64 \<Rightarrow> observation" where
  "sample_observation t = \<lparr>ob_length = 512, ob_sequence = 1, ob_now_us = t, ob_source_ipv4 = 1, ob_source_port = 2\<rparr>"

lemma sample_observe_all:
  "\<exists>c. observe_all empty_metadata_cache
     [(3, sample_observation 10), (4, sample_observation 20), (3, sample_observation 30)] = Some c"
  by (rule observe_all_defined [THEN iffD2]) (simp add: kUniverseSlots_def)

theorem metadata_is_last_packet_witness:
  "\<exists>c md. observe_all empty_metadata_cache
      [(3, sample_observation 10), (4, sample_observation 20), (3, sample_observation 30)] = Some c
     \<and> get_metadata c 3 = Some (Some md) \<and> um_last_rx_us md = 30 \<and> um_counter md = 2"
proof -
  obtain c where c: "observe_all empty_metadata_cache
      [(3, sample_observation 10), (4, sample_observation 20), (3, sample_observation 30)] = Some c"
    using sample_observe_all by blast
  have "unat (3 :: u16) < kUniverseSlots" by (simp add: kUniverseSlots_def)
  from metadata_is_last_packet [OF c this] c show ?thesis
    by (auto simp: sample_observation_def)
qed

definition first_seen :: "(u16 \<times> observation) list \<Rightarrow> u16 list" where
  "first_seen obs = rev (remdups (rev (map fst obs)))"

lemma active_ids_first_seen:
  "observe_all empty_metadata_cache obs = Some c \<Longrightarrow> mc_active_ids c = first_seen obs"
proof (induction obs arbitrary: c rule: rev_induct)
  case Nil
  then show ?case by (auto simp: empty_metadata_cache_def first_seen_def)
next
  case (snoc x obs)
  obtain v ob where x: "x = (v, ob)" by (cases x)
  from snoc.prems obtain c1 where c1: "observe_all empty_metadata_cache obs = Some c1"
    and step: "observe c1 v ob = Some c"
    by (auto simp: observe_all_append x split: option.splits)
  have "has_metadata c1 v \<longleftrightarrow> v \<in> set (map fst obs)"
    using slots_after_observe_all [OF c1, of v] by (force simp: has_metadata_def map_of_eq_None_iff)
  then show ?case
    using snoc.IH [OF c1] metadata_dir.put_ids [OF step]
    by (simp add: first_seen_def x any_observation_def)
qed

text \<open>The active list after any sequence of packets is read without an out-of-range access; it is
  the list of universes in first-seen order, each once, keeping those whose last packet came at a
  nonzero time that is not after now and no more than the window before it.\<close>

theorem active_is_recent_universes:
  assumes "observe_all empty_metadata_cache obs = Some c"
  shows "active c now_us window_us =
     Some (filter (\<lambda>u. case map_of (rev obs) u of
                         None \<Rightarrow> False
                       | Some ob \<Rightarrow> 0 < unat (ob_now_us ob) \<and> unat (ob_now_us ob) \<le> unat now_us
                           \<and> unat now_us - unat (ob_now_us ob) \<le> unat window_us)
            (rev (remdups (rev (map fst obs)))))"
proof -
  have "\<forall>u \<in> set (mc_active_ids c). unat u < kUniverseSlots"
    using consistent_observe_all [OF assms] by (auto simp: metadata_dir.consistent_def)
  moreover have "(case mc_slots c u of None \<Rightarrow> False
        | Some s \<Rightarrow> recently_received (ms_last_rx_us s) now_us window_us) =
      (case map_of (rev obs) u of None \<Rightarrow> False
       | Some ob \<Rightarrow> 0 < unat (ob_now_us ob) \<and> unat (ob_now_us ob) \<le> unat now_us
           \<and> unat now_us - unat (ob_now_us ob) \<le> unat window_us)" for u
    by (cases "map_of (rev obs) u")
       (simp_all add: slots_after_observe_all [OF assms] slot_after_def recently_received_iff)
  ultimately show ?thesis
    by (simp add: active_def active_from_filter active_ids_first_seen [OF assms] first_seen_def)
qed

theorem active_is_recent_universes_witness:
  "\<exists>c. observe_all empty_metadata_cache
      [(3, sample_observation 10), (4, sample_observation 20), (3, sample_observation 30)] = Some c
     \<and> active c 35 5 = Some [3]"
proof -
  obtain c where c: "observe_all empty_metadata_cache
      [(3, sample_observation 10), (4, sample_observation 20), (3, sample_observation 30)] = Some c"
    using sample_observe_all by blast
  with active_is_recent_universes [OF c, of 35 5] show ?thesis
    by (simp add: sample_observation_def)
qed

end
