(* ===== verification/Universe_Cache.thy ===== *)
theory Universe_Cache
  imports Slot_Directory "HOL-Library.Monad_Syntax"
begin

text \<open>
  The double-buffered cache of the latest payload per universe (\<open>dmx/dmx_universe_cache.cpp\<close>),
  used by the Technical Monitor. A slot has two 512-byte buffers and the index of the front one;
  \<open>write_frame\<close> composes the next frame in the back buffer and flips the index under the slot's
  exclusive lock, so each operation is an atomic step here. A copy outside a buffer is
  \<^term>\<open>None\<close>.
\<close>

record universe_slot =
  us_buffers :: "u8 list list"
  us_front_index :: u8
  us_length :: u16
  us_last_rx_us :: u64
  us_counter :: u32
  us_sequence :: u8
  us_content_hash :: u32
  us_dirty :: bool
  us_capture_generation :: u64

record universe_cache =
  uc_slots :: "u16 \<rightharpoonup> universe_slot"
  uc_active_universe_ids :: "u16 list"
  uc_active_slot_count :: nat
  uc_active_capture_generation :: u64

record frame_write =
  fw_data :: "u8 list option"
  fw_length :: u16
  fw_sequence :: u8
  fw_now_us :: u64
  fw_capture_generation :: u64

definition empty_universe_cache :: universe_cache where
  "empty_universe_cache = \<lparr>uc_slots = Map.empty, uc_active_universe_ids = [], uc_active_slot_count = 0,
     uc_active_capture_generation = 0\<rparr>"

definition new_universe_slot :: universe_slot where
  "new_universe_slot = \<lparr>us_buffers = [replicate kSlotBytes 0, replicate kSlotBytes 0], us_front_index = 0,
     us_length = 0, us_last_rx_us = 0, us_counter = 0, us_sequence = 0, us_content_hash = 0,
     us_dirty = False, us_capture_generation = 0\<rparr>"

fun hash_bytes :: "u32 \<Rightarrow> u8 list \<Rightarrow> u32" where
  "hash_bytes h [] = h"
| "hash_bytes h (b # bs) = hash_bytes ((h XOR ucast b) * 16777619) bs"

definition compute_dmx_content_hash :: "u8 list \<Rightarrow> u16 \<Rightarrow> u32 option" where
  "compute_dmx_content_hash data n =
     (if length data < unat n then None
      else Some ((hash_bytes 2166136261 (take (unat n) data) XOR ucast n) * 16777619))"

definition buffer_at :: "universe_slot \<Rightarrow> u8 \<Rightarrow> u8 list option" where
  "buffer_at s i = (if unat i < length (us_buffers s) then Some (us_buffers s ! unat i) else None)"

definition get_or_create_slot :: "universe_cache \<Rightarrow> u16 \<Rightarrow> universe_slot \<times> universe_cache" where
  "get_or_create_slot c u =
     (case uc_slots c u of
        Some s \<Rightarrow> (s, c)
      | None \<Rightarrow> (new_universe_slot,
          c\<lparr>uc_slots := (uc_slots c)(u \<mapsto> new_universe_slot),
            uc_active_universe_ids := uc_active_universe_ids c @ [u],
            uc_active_slot_count := uc_active_slot_count c + 1\<rparr>))"

definition get_slot :: "universe_cache \<Rightarrow> u16 \<Rightarrow> universe_slot option" where
  "get_slot c u = (if kUniverseSlots \<le> unat u then None else uc_slots c u)"

text \<open>The body of \<open>write_frame\<close> under the slot's lock.\<close>

definition write_slot :: "universe_slot \<Rightarrow> u8 list \<Rightarrow> frame_write \<Rightarrow> universe_slot option" where
  "write_slot s data w =
     (let safe_length = unat (min (fw_length w) 512);
          current_front = us_front_index s;
          next_front = 1 - current_front;
          same_generation = (us_capture_generation s = fw_capture_generation w);
          current_length = (if same_generation then unat (us_length s) else 0);
          effective_length = max current_length safe_length
      in do {
        front \<leftarrow> buffer_at s current_front;
        rear \<leftarrow> buffer_at s next_front;
        payload_changed \<leftarrow> (if \<not> same_generation then Some True
                             else if safe_length > 0 then map_option Not (memcmp_eq front data safe_length)
                             else Some False);
        held \<leftarrow> (if current_length > 0 then memcpy rear front current_length else Some rear);
        composed \<leftarrow> (if safe_length > 0 then memcpy held data safe_length else Some held);
        hash \<leftarrow> compute_dmx_content_hash composed (of_nat effective_length);
        Some (s\<lparr>us_buffers := (us_buffers s)[unat next_front := composed],
                us_length := of_nat effective_length,
                us_last_rx_us := fw_now_us w,
                us_sequence := fw_sequence w,
                us_capture_generation := fw_capture_generation w,
                us_content_hash := hash,
                us_counter := (if payload_changed then us_counter s + 1 else us_counter s),
                us_dirty := (if payload_changed then True else us_dirty s),
                us_front_index := next_front\<rparr>)
      })"

definition write_frame :: "universe_cache \<Rightarrow> u16 \<Rightarrow> frame_write \<Rightarrow> universe_cache option" where
  "write_frame c u w =
     (if kUniverseSlots \<le> unat u \<or> fw_data w = None then Some c
      else
        let (s, c') = get_or_create_slot c u
        in map_option (\<lambda>s'. c'\<lparr>uc_slots := (uc_slots c')(u \<mapsto> s')\<rparr>) (write_slot s (the (fw_data w)) w))"

definition begin_capture_session :: "universe_cache \<Rightarrow> u64 \<times> universe_cache" where
  "begin_capture_session c =
     (uc_active_capture_generation c + 1,
      c\<lparr>uc_active_capture_generation := uc_active_capture_generation c + 1\<rparr>)"

text \<open>Fills the caller's frame; the data bytes past the slot's length keep what they held.\<close>

definition copy_out :: "universe_slot \<Rightarrow> u16 \<Rightarrow> dmx_frame \<Rightarrow> dmx_frame option" where
  "copy_out s u out =
     do {
       front \<leftarrow> buffer_at s (us_front_index s);
       bytes \<leftarrow> (if us_length s > 0 then memcpy (df_data out) front (unat (us_length s)) else Some (df_data out));
       Some (out\<lparr>df_universe_id := u, df_length := us_length s, df_data := bytes,
                 df_last_rx_us := us_last_rx_us s, df_counter := us_counter s,
                 df_sequence := us_sequence s, df_content_hash := us_content_hash s\<rparr>)
     }"

text \<open>\<open>Some None\<close> is the result false; \<^term>\<open>None\<close> is undefined behaviour.\<close>

definition try_get_frame :: "universe_cache \<Rightarrow> u16 \<Rightarrow> dmx_frame \<Rightarrow> dmx_frame option option" where
  "try_get_frame c u out =
     (case get_slot c u of
        None \<Rightarrow> Some None
      | Some s \<Rightarrow> if us_capture_generation s \<noteq> uc_active_capture_generation c then Some None
                  else map_option Some (copy_out s u out))"

definition try_get_metadata :: "universe_cache \<Rightarrow> u16 \<Rightarrow> dmx_universe_metadata \<Rightarrow> dmx_universe_metadata option" where
  "try_get_metadata c u out =
     map_option (\<lambda>s. out\<lparr>um_universe_id := u, um_length := us_length s, um_last_rx_us := us_last_rx_us s,
         um_counter := us_counter s, um_sequence := us_sequence s, um_content_hash := us_content_hash s\<rparr>)
       (get_slot c u)"

definition get_dirty_universes :: "universe_cache \<Rightarrow> u16 list" where
  "get_dirty_universes c =
     filter (\<lambda>u. case get_slot c u of
                   None \<Rightarrow> False
                 | Some s \<Rightarrow> us_capture_generation s = uc_active_capture_generation c \<and> us_dirty s)
       (uc_active_universe_ids c)"

definition consume_frame :: "universe_cache \<Rightarrow> u16 \<Rightarrow> dmx_frame \<Rightarrow> (dmx_frame option \<times> universe_cache) option" where
  "consume_frame c u out =
     (case get_slot c u of
        None \<Rightarrow> Some (None, c)
      | Some s \<Rightarrow>
          if us_capture_generation s \<noteq> uc_active_capture_generation c then Some (None, c)
          else if \<not> us_dirty s then Some (None, c)
          else map_option (\<lambda>f. (Some f, c\<lparr>uc_slots := (uc_slots c)(u \<mapsto> s\<lparr>us_dirty := False\<rparr>)\<rparr>))
                 (copy_out s u out))"

definition get_active_universes :: "universe_cache \<Rightarrow> u64 \<Rightarrow> u64 \<Rightarrow> u16 list" where
  "get_active_universes c now_us window_us =
     filter (\<lambda>u. case get_slot c u of
                   None \<Rightarrow> False
                 | Some s \<Rightarrow> \<not> (us_last_rx_us s = 0 \<or> now_us < us_last_rx_us s)
                             \<and> now_us - us_last_rx_us s \<le> window_us)
       (uc_active_universe_ids c)"

subsection \<open>Well-formed slots\<close>

definition slot_ok :: "universe_slot \<Rightarrow> bool" where
  "slot_ok s \<longleftrightarrow> us_front_index s \<in> {0, 1} \<and> length (us_buffers s) = 2
     \<and> (\<forall>b \<in> set (us_buffers s). length b = kSlotBytes) \<and> unat (us_length s) \<le> kSlotBytes"

definition cache_ok :: "universe_cache \<Rightarrow> bool" where
  "cache_ok c \<longleftrightarrow> (\<forall>u s. uc_slots c u = Some s \<longrightarrow> unat u < kUniverseSlots \<and> slot_ok s)"

text \<open>A write brings at least the bytes its clamped length says (the receiver's frame view does).\<close>

definition front_bytes :: "universe_slot \<Rightarrow> u8 list" where
  "front_bytes s = us_buffers s ! unat (us_front_index s)"

definition visible_bytes :: "universe_slot \<Rightarrow> u8 list" where
  "visible_bytes s = take (unat (us_length s)) (front_bytes s)"

lemma slot_ok_new [simp]: "slot_ok new_universe_slot"
  by (simp add: slot_ok_def new_universe_slot_def)

lemma slot_ok_front:
  assumes "slot_ok s"
  shows "buffer_at s (us_front_index s) = Some (front_bytes s)" and "length (front_bytes s) = kSlotBytes"
    and "\<exists>b. buffer_at s (1 - us_front_index s) = Some b \<and> length b = kSlotBytes"
    and "unat (1 - us_front_index s) < 2"
    and "1 - us_front_index s \<in> {0, 1}"
  using assms by (auto simp: slot_ok_def buffer_at_def front_bytes_def)

lemma unat_min_u16: "unat (min (n :: u16) m) = min (unat n) (unat m)"
  by (simp add: min_def word_le_nat_alt)

subsection \<open>Composing the next frame\<close>

lemma length_overlay: "n \<le> length d \<Longrightarrow> n \<le> length h \<Longrightarrow> length (take n d @ drop n h) = length h"
  by simp

lemma take_overlay:
  assumes "n \<le> length data" and "cur \<le> length front"
  shows "take (max cur n) (take n data @ drop n (take cur front @ drop cur rear)) = take n data @ drop n (take cur front)"
proof (cases "n \<le> cur")
  case True
  then show ?thesis using assms by (simp add: max_def drop_take)
next
  case False
  then show ?thesis using assms by (simp add: max_def)
qed

text \<open>What a slot shows to readers of one capture generation.\<close>

definition generation_bytes :: "universe_slot \<Rightarrow> u64 \<Rightarrow> u8 list" where
  "generation_bytes s g = (if us_capture_generation s = g then visible_bytes s else [])"

definition clamped :: "frame_write \<Rightarrow> nat" where
  "clamped w = min (unat (fw_length w)) 512"

definition changes_payload :: "universe_slot \<Rightarrow> u8 list \<Rightarrow> frame_write \<Rightarrow> bool" where
  "changes_payload s data w \<longleftrightarrow> us_capture_generation s \<noteq> fw_capture_generation w
     \<or> take (clamped w) (front_bytes s) \<noteq> take (clamped w) data"

lemma compute_hash_defined:
  "unat n \<le> length data \<Longrightarrow> \<exists>h. compute_dmx_content_hash data n = Some h"
  by (simp add: compute_dmx_content_hash_def)

definition current_of :: "universe_slot \<Rightarrow> frame_write \<Rightarrow> nat" where
  "current_of s w = (if us_capture_generation s = fw_capture_generation w then unat (us_length s) else 0)"

lemma write_slot_eq:
  assumes ok: "slot_ok s" and enough: "clamped w \<le> length data"
    and rear: "buffer_at s (1 - us_front_index s) = Some b"
  shows "write_slot s data w =
    (let composed = take (clamped w) data
           @ drop (clamped w) (take (current_of s w) (front_bytes s) @ drop (current_of s w) b);
         eff = max (current_of s w) (clamped w)
     in Some (s\<lparr>us_buffers := (us_buffers s)[unat (1 - us_front_index s) := composed],
                us_length := of_nat eff,
                us_last_rx_us := fw_now_us w,
                us_sequence := fw_sequence w,
                us_capture_generation := fw_capture_generation w,
                us_content_hash := the (compute_dmx_content_hash composed (of_nat eff)),
                us_counter := (if changes_payload s data w then us_counter s + 1 else us_counter s),
                us_dirty := (changes_payload s data w \<or> us_dirty s),
                us_front_index := 1 - us_front_index s\<rparr>))"
proof -
  let ?n = "clamped w" and ?cur = "current_of s w" and ?front = "front_bytes s"
  have n: "unat (min (fw_length w) 512) = ?n"
    by (simp add: clamped_def unat_min_u16)
  have lens: "length ?front = 512" "length b = 512" "?n \<le> 512" "?cur \<le> 512"
    using slot_ok_front [OF ok] rear ok
    by (auto simp: clamped_def current_of_def kSlotBytes_def slot_ok_def)
  have cur: "(if us_capture_generation s = fw_capture_generation w then unat (us_length s) else 0) = ?cur"
    by (simp add: current_of_def)
  have changed: "(if us_capture_generation s \<noteq> fw_capture_generation w then Some True
      else if ?n > 0 then map_option Not (memcmp_eq ?front data ?n) else Some False)
      = Some (changes_payload s data w)"
    using lens enough by (auto simp: changes_payload_def memcmp_defined)
  have held: "(if ?cur > 0 then memcpy b ?front ?cur else Some b) = Some (take ?cur ?front @ drop ?cur b)"
    using lens by (simp add: memcpy_defined)
  have composed: "(if ?n > 0 then memcpy h data ?n else Some h) = Some (take ?n data @ drop ?n h)"
    if "length h = 512" for h
    using lens enough that by (simp add: memcpy_defined)
  let ?c = "take ?n data @ drop ?n (take ?cur ?front @ drop ?cur b)"
  have lh: "length (take ?cur ?front @ drop ?cur b) = 512" using lens by simp
  have "length ?c = 512"
    using length_overlay [of ?n data "take ?cur ?front @ drop ?cur b", unfolded lh] lens enough by blast
  moreover have "max ?cur ?n < 65536" and "max ?cur ?n \<le> 512" using lens by simp_all
  ultimately have "unat (of_nat (max ?cur ?n) :: u16) \<le> length ?c"
    by (simp only: unat_of_nat) simp
  then obtain h where hash: "compute_dmx_content_hash ?c (of_nat (max ?cur ?n)) = Some h"
    using compute_hash_defined by blast
  note comp = composed [OF lh]
  show ?thesis
    unfolding write_slot_def Let_def n cur
    by (simp only: slot_ok_front(1) [OF ok] rear bind.bind_lunit changed held comp hash
        if_True if_False simp_thms option.sel) simp
qed

lemma write_slot_result:
  assumes ok: "slot_ok s" and enough: "clamped w \<le> length data"
  obtains s' where "write_slot s data w = Some s'" and "slot_ok s'"
    and "visible_bytes s' = take (clamped w) data @ drop (clamped w) (generation_bytes s (fw_capture_generation w))"
    and "us_capture_generation s' = fw_capture_generation w"
    and "us_counter s' = (if changes_payload s data w then us_counter s + 1 else us_counter s)"
    and "us_dirty s' = (changes_payload s data w \<or> us_dirty s)"
    and "us_last_rx_us s' = fw_now_us w" and "us_sequence s' = fw_sequence w"
    and "unat (us_length s') = max (current_of s w) (clamped w)"
proof -
  obtain b where b: "buffer_at s (1 - us_front_index s) = Some b" "length b = kSlotBytes"
    using slot_ok_front(3) [OF ok] by blast
  have lens: "length (front_bytes s) = 512" "length b = 512" "clamped w \<le> 512" "current_of s w \<le> 512"
    using slot_ok_front(2) [OF ok] b(2) ok
    by (auto simp: clamped_def current_of_def kSlotBytes_def slot_ok_def)
  define composed where "composed = take (clamped w) data
      @ drop (clamped w) (take (current_of s w) (front_bytes s) @ drop (current_of s w) b)"
  define eff where "eff = max (current_of s w) (clamped w)"
  have eff: "eff \<le> 512" using lens by (simp add: eff_def)
  define s' where "s' = s\<lparr>us_buffers := (us_buffers s)[unat (1 - us_front_index s) := composed],
      us_length := of_nat eff, us_last_rx_us := fw_now_us w, us_sequence := fw_sequence w,
      us_capture_generation := fw_capture_generation w,
      us_content_hash := the (compute_dmx_content_hash composed (of_nat eff)),
      us_counter := (if changes_payload s data w then us_counter s + 1 else us_counter s),
      us_dirty := (changes_payload s data w \<or> us_dirty s),
      us_front_index := 1 - us_front_index s\<rparr>"
  have "write_slot s data w = Some s'"
    using write_slot_eq [OF ok enough b(1)] by (simp add: s'_def composed_def eff_def Let_def)
  moreover have len: "unat (us_length s') = eff"
    using eff by (simp add: s'_def unat_of_nat)
  moreover have "length composed = 512"
    using lens enough by (simp add: composed_def)
  then have "slot_ok s'"
    using ok eff len slot_ok_front(5) [OF ok]
    by (auto simp: slot_ok_def s'_def kSlotBytes_def dest!: set_update_subset_insert [THEN subsetD])
  moreover have "front_bytes s' = composed"
    using slot_ok_front(4) [OF ok] ok by (simp add: front_bytes_def s'_def slot_ok_def)
  then have "visible_bytes s' = take (clamped w) data @ drop (clamped w) (take (current_of s w) (front_bytes s))"
    using lens enough len by (simp add: visible_bytes_def eff_def composed_def take_overlay)
  then have "visible_bytes s' = take (clamped w) data @ drop (clamped w) (generation_bytes s (fw_capture_generation w))"
    by (simp add: generation_bytes_def visible_bytes_def current_of_def)
  ultimately show thesis
    by (intro that [of s']) (simp_all add: s'_def eff_def)
qed

subsection \<open>The slot directory contract\<close>

definition has_universe :: "universe_cache \<Rightarrow> u16 \<Rightarrow> bool" where
  "has_universe c u \<longleftrightarrow> uc_slots c u \<noteq> None"

definition effective_write :: "u16 \<Rightarrow> frame_write \<Rightarrow> bool" where
  "effective_write u w \<longleftrightarrow> unat u < kUniverseSlots \<and> fw_data w \<noteq> None"

interpretation universe_dir: slot_directory
  has_universe uc_active_universe_ids uc_active_slot_count effective_write write_frame
  by unfold_locales
     (auto simp: has_universe_def effective_write_def write_frame_def get_or_create_slot_def Let_def
       split: option.splits if_splits prod.splits)

lemma universe_dir_empty [simp]: "universe_dir.consistent empty_universe_cache"
  by (simp add: universe_dir.consistent_def empty_universe_cache_def has_universe_def)

subsection \<open>Reading back what was written\<close>

text \<open>The bytes readers of the active capture session see for a universe.\<close>

definition shown :: "universe_cache \<Rightarrow> u16 \<Rightarrow> u8 list option" where
  "shown c u = (case uc_slots c u of
     None \<Rightarrow> None
   | Some s \<Rightarrow> if us_capture_generation s = uc_active_capture_generation c then Some (visible_bytes s) else None)"

lemma shown_upd:
  "uc_slots c' = (uc_slots c)(u \<mapsto> s) \<Longrightarrow>
   uc_active_capture_generation c' = uc_active_capture_generation c \<Longrightarrow>
   shown c' = (shown c)(u := if us_capture_generation s = uc_active_capture_generation c
                             then Some (visible_bytes s) else None)"
  by (rule ext) (simp add: shown_def split: option.split)

definition slot_or_new :: "universe_cache \<Rightarrow> u16 \<Rightarrow> universe_slot" where
  "slot_or_new c u = (case uc_slots c u of None \<Rightarrow> new_universe_slot | Some s \<Rightarrow> s)"

lemma slot_or_new_ok: "cache_ok c \<Longrightarrow> slot_ok (slot_or_new c u)"
  by (auto simp: cache_ok_def slot_or_new_def split: option.splits)

lemma write_frame_slot:
  assumes "cache_ok c" and "unat u < kUniverseSlots" and "fw_data w = Some d" and "clamped w \<le> length d"
  shows "\<exists>c' s'. write_frame c u w = Some c' \<and> write_slot (slot_or_new c u) d w = Some s'
     \<and> slot_ok s' \<and> uc_slots c' = (uc_slots c)(u \<mapsto> s') \<and> cache_ok c'
     \<and> uc_active_capture_generation c' = uc_active_capture_generation c"
proof -
  obtain s' where s': "write_slot (slot_or_new c u) d w = Some s'" "slot_ok s'"
    using write_slot_result [OF slot_or_new_ok [OF assms(1)] assms(4)] by metis
  have "\<exists>c'. write_frame c u w = Some c' \<and> uc_slots c' = (uc_slots c)(u \<mapsto> s')
      \<and> uc_active_capture_generation c' = uc_active_capture_generation c"
    using assms(2,3) s'(1)
    by (auto simp: write_frame_def get_or_create_slot_def slot_or_new_def split: option.splits)
  then show ?thesis using s' assms(1,2) by (fastforce simp: cache_ok_def)
qed

lemma copy_out_shown:
  assumes "slot_ok s" and "length (df_data out) = kSlotBytes"
  shows "copy_out s u out = Some (out\<lparr>df_universe_id := u, df_length := us_length s,
      df_data := visible_bytes s @ drop (unat (us_length s)) (df_data out),
      df_last_rx_us := us_last_rx_us s, df_counter := us_counter s,
      df_sequence := us_sequence s, df_content_hash := us_content_hash s\<rparr>)"
  using assms slot_ok_front [OF assms(1)]
  by (auto simp: copy_out_def memcpy_defined visible_bytes_def slot_ok_def word_gt_0 split: if_splits)

lemma try_get_frame_shown:
  assumes "cache_ok c" and "length (df_data out) = kSlotBytes"
  shows "map_option (map_option (\<lambda>f. take (unat (df_length f)) (df_data f))) (try_get_frame c u out)
           = Some (shown c u)"
proof (cases "get_slot c u")
  case None
  then have "uc_slots c u = None"
    using assms(1) by (cases "uc_slots c u") (auto simp: get_slot_def cache_ok_def split: if_splits dest: leD)
  with None show ?thesis
    by (simp add: try_get_frame_def shown_def)
next
  case (Some s)
  then have s: "uc_slots c u = Some s" "slot_ok s"
    using assms(1) by (auto simp: get_slot_def cache_ok_def split: if_splits)
  have "unat (us_length s) = length (visible_bytes s)"
    using s(2) slot_ok_front(2) [OF s(2)] by (simp add: visible_bytes_def slot_ok_def)
  then show ?thesis
    using Some s by (simp add: try_get_frame_def shown_def copy_out_shown [OF s(2) assms(2)])
qed

text \<open>Writing a packet for the active capture session never copies outside a buffer; it keeps the
  cache well formed, makes the universe show the packet's first bytes (at most 512) over what the
  session already showed beyond them, changes no other universe, and a read of the universe returns
  exactly those bytes.\<close>

theorem write_frame_read_back:
  assumes "cache_ok c" and "unat u < kUniverseSlots" and "fw_data w = Some d"
    and "min (unat (fw_length w)) 512 \<le> length d"
    and "fw_capture_generation w = uc_active_capture_generation c"
    and "length (df_data out) = kSlotBytes"
  shows "\<exists>c' f. write_frame c u w = Some c' \<and> cache_ok c'
     \<and> shown c' = (shown c)(u \<mapsto> take (min (unat (fw_length w)) 512) d
           @ drop (min (unat (fw_length w)) 512) (case shown c u of None \<Rightarrow> [] | Some old \<Rightarrow> old))
     \<and> try_get_frame c' u out = Some (Some f)
     \<and> Some (take (unat (df_length f)) (df_data f)) = shown c' u"
proof -
  have enough: "clamped w \<le> length d" using assms(4) by (simp add: clamped_def)
  obtain c' s' where c': "write_frame c u w = Some c'" "write_slot (slot_or_new c u) d w = Some s'"
      "uc_slots c' = (uc_slots c)(u \<mapsto> s')" "cache_ok c'"
      "uc_active_capture_generation c' = uc_active_capture_generation c"
    using write_frame_slot [OF assms(1-3) enough] by blast
  have s': "visible_bytes s' = take (clamped w) d
        @ drop (clamped w) (generation_bytes (slot_or_new c u) (fw_capture_generation w))"
      "us_capture_generation s' = fw_capture_generation w"
    using write_slot_result [OF slot_or_new_ok [OF assms(1)] enough] c'(2) by (metis option.inject)+
  have "generation_bytes (slot_or_new c u) (fw_capture_generation w)
      = (case shown c u of None \<Rightarrow> [] | Some old \<Rightarrow> old)"
    by (simp add: generation_bytes_def slot_or_new_def shown_def assms(5) visible_bytes_def
        new_universe_slot_def split: option.splits)
  then have shown': "shown c' = (shown c)(u \<mapsto> take (clamped w) d
        @ drop (clamped w) (case shown c u of None \<Rightarrow> [] | Some old \<Rightarrow> old))"
    using s' assms(5) by (simp add: shown_upd [OF c'(3,5)])
  then obtain f where "try_get_frame c' u out = Some (Some f)"
      "Some (take (unat (df_length f)) (df_data f)) = shown c' u"
    using try_get_frame_shown [OF c'(4) assms(6), of u] by fastforce
  then show ?thesis using c'(1,4) shown' by (auto simp: clamped_def)
qed

lemma cache_ok_empty [simp]: "cache_ok empty_universe_cache"
  by (simp add: cache_ok_def empty_universe_cache_def)

definition sample_write :: "u8 list \<Rightarrow> u64 \<Rightarrow> frame_write" where
  "sample_write d g = \<lparr>fw_data = Some d, fw_length = of_nat (length d), fw_sequence = 1, fw_now_us = 100,
     fw_capture_generation = g\<rparr>"

theorem write_frame_read_back_witness:
  "\<exists>c'. write_frame empty_universe_cache 9 (sample_write [1, 2, 3] 0) = Some c' \<and> shown c' 9 = Some [1, 2, 3]"
proof -
  have "shown empty_universe_cache 9 = None"
    by (simp add: shown_def empty_universe_cache_def)
  moreover have "\<exists>c' f. write_frame empty_universe_cache 9 (sample_write [1, 2, 3] 0) = Some c' \<and> cache_ok c'
     \<and> shown c' = (shown empty_universe_cache)(9 \<mapsto> take (min (unat (fw_length (sample_write [1, 2, 3] 0))) 512) [1, 2, 3]
           @ drop (min (unat (fw_length (sample_write [1, 2, 3] 0))) 512)
               (case shown empty_universe_cache 9 of None \<Rightarrow> [] | Some old \<Rightarrow> old))
     \<and> try_get_frame c' 9 blank_frame = Some (Some f)
     \<and> Some (take (unat (df_length f)) (df_data f)) = shown c' 9"
    by (rule write_frame_read_back) (simp_all add: kUniverseSlots_def sample_write_def, simp add: empty_universe_cache_def)
  ultimately show ?thesis by (auto simp: sample_write_def)
qed

subsection \<open>Dirty tracking\<close>

lemma visible_in_front: "slot_ok s \<Longrightarrow> n \<le> unat (us_length s) \<Longrightarrow> take n (visible_bytes s) = take n (front_bytes s)"
  by (simp add: visible_bytes_def min_absorb1)

lemma changes_payload_shown:
  assumes "slot_ok s" and "us_capture_generation s = fw_capture_generation w" and "clamped w \<le> unat (us_length s)"
    and "clamped w \<le> length d"
  shows "changes_payload s d w \<longleftrightarrow>
    take (clamped w) d @ drop (clamped w) (visible_bytes s) \<noteq> visible_bytes s"
proof -
  have len: "length (visible_bytes s) = unat (us_length s)"
    using assms(1) slot_ok_front(2) [OF assms(1)] by (simp add: visible_bytes_def slot_ok_def)
  have "take (clamped w) d @ drop (clamped w) (visible_bytes s) = visible_bytes s
      \<longleftrightarrow> take (clamped w) d = take (clamped w) (visible_bytes s)"
    by (metis append_same_eq append_take_drop_id)
  then show ?thesis
    using assms(2,3) by (auto simp: changes_payload_def visible_in_front [OF assms(1)])
qed

text \<open>For a packet that does not lengthen what the session shows for its universe, change detection
  is exact: the slot's content counter moves (by one) and the slot is marked dirty if and only if the
  bytes readers see change; an unchanged packet leaves both as they were.\<close>

theorem write_frame_detects_change:
  assumes "cache_ok c" and "uc_slots c u = Some s" and "fw_data w = Some d"
    and "us_capture_generation s = uc_active_capture_generation c"
    and "fw_capture_generation w = uc_active_capture_generation c"
    and "min (unat (fw_length w)) 512 \<le> unat (us_length s)"
    and "min (unat (fw_length w)) 512 \<le> length d"
  shows "\<exists>c' s'. write_frame c u w = Some c' \<and> uc_slots c' u = Some s'
     \<and> us_counter s' = (if shown c' u = shown c u then us_counter s else us_counter s + 1)
     \<and> us_dirty s' = (us_dirty s \<or> shown c' u \<noteq> shown c u)"
proof -
  have u: "unat u < kUniverseSlots" and ok: "slot_ok s"
    using assms(1,2) by (auto simp: cache_ok_def)
  have enough: "clamped w \<le> length d" using assms(7) by (simp add: clamped_def)
  obtain c' s' where c': "write_frame c u w = Some c'" "write_slot s d w = Some s'"
      "uc_slots c' = (uc_slots c)(u \<mapsto> s')"
      "uc_active_capture_generation c' = uc_active_capture_generation c"
    using write_frame_slot [OF assms(1) u assms(3) enough] assms(2) by (auto simp: slot_or_new_def)
  have s': "visible_bytes s' = take (clamped w) d @ drop (clamped w) (visible_bytes s)"
      "us_capture_generation s' = fw_capture_generation w"
      "us_counter s' = (if changes_payload s d w then us_counter s + 1 else us_counter s)"
      "us_dirty s' = (changes_payload s d w \<or> us_dirty s)"
    by (rule write_slot_result [OF ok enough], use c'(2) assms(4,5) in \<open>simp add: generation_bytes_def\<close>)+
  have "shown c' u = Some (visible_bytes s')" and "shown c u = Some (visible_bytes s)"
    using assms(2,4,5) s'(2) by (simp_all add: shown_upd [OF c'(3,4)]) (simp add: shown_def)
  moreover have "changes_payload s d w \<longleftrightarrow> visible_bytes s' \<noteq> visible_bytes s"
    using changes_payload_shown [OF ok _ _ enough] assms(4-6) s'(1) by (simp add: clamped_def)
  ultimately show ?thesis
    using c'(1,3) s'(3,4) by auto
qed

text \<open>A universe that has shown \<open>[1]\<close> in session 0.\<close>

definition sample_slot :: universe_slot where
  "sample_slot = new_universe_slot\<lparr>us_buffers := [1 # replicate 511 0, replicate kSlotBytes 0], us_length := 1\<rparr>"

definition sample_cache :: universe_cache where
  "sample_cache = \<lparr>uc_slots = [9 \<mapsto> sample_slot], uc_active_universe_ids = [9], uc_active_slot_count = 1,
     uc_active_capture_generation = 0\<rparr>"

lemma sample_cache_ok: "cache_ok sample_cache"
  by (simp add: cache_ok_def sample_cache_def sample_slot_def slot_ok_def new_universe_slot_def
      kUniverseSlots_def kSlotBytes_def)

lemma sample_shown: "shown sample_cache 9 = Some [1]"
  by (simp add: shown_def sample_cache_def sample_slot_def visible_bytes_def front_bytes_def new_universe_slot_def)

theorem write_frame_detects_change_witness:
  "\<exists>c' s'. write_frame sample_cache 9 (sample_write [7] 0) = Some c' \<and> uc_slots c' 9 = Some s'
     \<and> us_dirty s' = (shown c' 9 \<noteq> Some [1])"
proof -
  have "\<exists>c' s'. write_frame sample_cache 9 (sample_write [7] 0) = Some c' \<and> uc_slots c' 9 = Some s'
     \<and> us_counter s' = (if shown c' 9 = shown sample_cache 9 then us_counter sample_slot else us_counter sample_slot + 1)
     \<and> us_dirty s' = (us_dirty sample_slot \<or> shown c' 9 \<noteq> shown sample_cache 9)"
    by (rule write_frame_detects_change [OF sample_cache_ok, where d = "[7]"])
       (simp_all add: sample_cache_def sample_slot_def sample_write_def new_universe_slot_def)
  then show ?thesis
    by (auto simp: sample_shown sample_slot_def new_universe_slot_def)
qed

text \<open>C39: a packet that lengthens what the session shows can go unreported: when the bytes it brings,
  including those past the shown length, equal what the front buffer still holds there (zeros, or
  bytes of an earlier session), readers see more channels than before but neither the content
  counter nor the dirty flag moves.\<close>

theorem write_frame_misses_growth:
  assumes "cache_ok c" and "uc_slots c u = Some s" and "fw_data w = Some d"
    and "us_capture_generation s = uc_active_capture_generation c"
    and "fw_capture_generation w = uc_active_capture_generation c"
    and "unat (us_length s) < min (unat (fw_length w)) 512"
    and "min (unat (fw_length w)) 512 \<le> length d"
    and "take (min (unat (fw_length w)) 512) (front_bytes s) = take (min (unat (fw_length w)) 512) d"
  shows "\<exists>c' s'. write_frame c u w = Some c' \<and> uc_slots c' u = Some s'
     \<and> shown c' u \<noteq> shown c u \<and> us_counter s' = us_counter s \<and> us_dirty s' = us_dirty s"
proof -
  have u: "unat u < kUniverseSlots" and ok: "slot_ok s"
    using assms(1,2) by (auto simp: cache_ok_def)
  have enough: "clamped w \<le> length d" using assms(7) by (simp add: clamped_def)
  obtain c' s' where c': "write_frame c u w = Some c'" "write_slot s d w = Some s'"
      "uc_slots c' = (uc_slots c)(u \<mapsto> s')"
      "uc_active_capture_generation c' = uc_active_capture_generation c"
    using write_frame_slot [OF assms(1) u assms(3) enough] assms(2) by (auto simp: slot_or_new_def)
  have s': "visible_bytes s' = take (clamped w) d @ drop (clamped w) (visible_bytes s)"
      "us_capture_generation s' = fw_capture_generation w"
      "us_counter s' = (if changes_payload s d w then us_counter s + 1 else us_counter s)"
      "us_dirty s' = (changes_payload s d w \<or> us_dirty s)"
    by (rule write_slot_result [OF ok enough], use c'(2) assms(4,5) in \<open>simp add: generation_bytes_def\<close>)+
  have same: "\<not> changes_payload s d w"
    using assms(4,5,8) by (simp add: changes_payload_def clamped_def)
  have "length (visible_bytes s) \<le> unat (us_length s)"
    by (simp add: visible_bytes_def)
  then have "length (visible_bytes s) < clamped w"
    using assms(6) by (simp add: clamped_def)
  moreover have "clamped w \<le> length (visible_bytes s')"
    using s'(1) enough by simp
  ultimately have "visible_bytes s' \<noteq> visible_bytes s" by auto
  moreover have "shown c' u = Some (visible_bytes s')" and "shown c u = Some (visible_bytes s)"
    using assms(2,4,5) s'(2) by (simp_all add: shown_upd [OF c'(3,4)]) (simp add: shown_def)
  ultimately show ?thesis
    using c'(1,3) s'(3,4) same by auto
qed

theorem write_frame_misses_growth_witness:
  "\<exists>c' s'. write_frame sample_cache 9 (sample_write [1, 0] 0) = Some c' \<and> uc_slots c' 9 = Some s'
     \<and> shown c' 9 \<noteq> Some [1] \<and> us_counter s' = 0 \<and> \<not> us_dirty s'"
proof -
  have "\<exists>c' s'. write_frame sample_cache 9 (sample_write [1, 0] 0) = Some c' \<and> uc_slots c' 9 = Some s'
     \<and> shown c' 9 \<noteq> shown sample_cache 9 \<and> us_counter s' = us_counter sample_slot \<and> us_dirty s' = us_dirty sample_slot"
    by (rule write_frame_misses_growth [OF sample_cache_ok, where d = "[1, 0]"])
       (simp_all add: sample_cache_def sample_slot_def sample_write_def new_universe_slot_def front_bytes_def)
  then show ?thesis
    by (auto simp: sample_shown sample_slot_def new_universe_slot_def)
qed

text \<open>Consuming hands out exactly what a reader of the active session sees and happens once: it
  succeeds only for a listed dirty universe, and afterwards the universe is no longer listed, a
  second consume reports nothing, and what every universe shows is unchanged.\<close>

theorem consume_frame_once:
  assumes "cache_ok c" and "universe_dir.consistent c" and "length (df_data out) = kSlotBytes"
    and "consume_frame c u out = Some (Some f, c')"
  shows "u \<in> set (get_dirty_universes c)
     \<and> shown c u = Some (take (unat (df_length f)) (df_data f))
     \<and> shown c' = shown c
     \<and> u \<notin> set (get_dirty_universes c') \<and> consume_frame c' u out = Some (None, c')"
proof -
  obtain s where s: "get_slot c u = Some s" "us_capture_generation s = uc_active_capture_generation c"
      "us_dirty s" "copy_out s u out = Some f"
      "c' = c\<lparr>uc_slots := (uc_slots c)(u \<mapsto> s\<lparr>us_dirty := False\<rparr>)\<rparr>"
    using assms(4) by (auto simp: consume_frame_def split: option.splits if_splits)
  have slot: "uc_slots c u = Some s" "unat u < kUniverseSlots"
    using s(1) by (auto simp: get_slot_def split: if_splits)
  have "u \<in> set (uc_active_universe_ids c)"
    using assms(2) slot(1) by (auto simp: universe_dir.consistent_def has_universe_def)
  then have "u \<in> set (get_dirty_universes c)"
    using s by (simp add: get_dirty_universes_def)
  moreover have "try_get_frame c u out = Some (Some f)"
    using s by (simp add: try_get_frame_def)
  then have "shown c u = Some (take (unat (df_length f)) (df_data f))"
    using try_get_frame_shown [OF assms(1,3), of u] by simp
  moreover have "shown c' = (shown c)(u := shown c u)"
    using slot(1) s(2) by (subst shown_upd [of c' c u "s\<lparr>us_dirty := False\<rparr>"])
      (simp_all add: s(5) shown_def visible_bytes_def front_bytes_def)
  then have "shown c' = shown c" by simp
  moreover have "u \<notin> set (get_dirty_universes c')" and "consume_frame c' u out = Some (None, c')"
    using slot s(2) by (simp_all add: get_dirty_universes_def consume_frame_def get_slot_def s(5))
  ultimately show ?thesis by blast
qed

theorem consume_frame_once_witness:
  "\<exists>f c'. consume_frame (sample_cache\<lparr>uc_slots := [9 \<mapsto> sample_slot\<lparr>us_dirty := True\<rparr>]\<rparr>) 9 blank_frame = Some (Some f, c')
     \<and> consume_frame c' 9 blank_frame = Some (None, c')"
proof -
  let ?s = "sample_slot\<lparr>us_dirty := True\<rparr>"
  let ?c = "sample_cache\<lparr>uc_slots := [9 \<mapsto> ?s]\<rparr>"
  have ok: "cache_ok ?c" and con: "universe_dir.consistent ?c"
    by (simp_all add: cache_ok_def sample_cache_def sample_slot_def slot_ok_def new_universe_slot_def
        kUniverseSlots_def kSlotBytes_def universe_dir.consistent_def has_universe_def)
  have "slot_ok ?s" using ok by (simp add: cache_ok_def)
  then obtain f where "consume_frame ?c 9 blank_frame = Some (Some f, ?c\<lparr>uc_slots := (uc_slots ?c)(9 \<mapsto> ?s\<lparr>us_dirty := False\<rparr>)\<rparr>)"
    using copy_out_shown [of ?s blank_frame 9]
    by (simp add: consume_frame_def get_slot_def kUniverseSlots_def)
       (simp add: sample_cache_def sample_slot_def new_universe_slot_def)
  with consume_frame_once [OF ok con length_blank_frame this] show ?thesis by blast
qed

end
