(* ===== verification/Token_Ring.thy ===== *)
theory Token_Ring
  imports Prelude
begin

text \<open>
  The ring of dirty tokens inside \<open>dmx/realtime_universe_mailbox.h\<close>: a fixed array of 32768 tokens
  with a head index and a count. The locale is the queue contract the mailbox relies on; the ring
  interprets it with its abstraction to a list.
\<close>

locale bounded_fifo =
  fixes items :: "'s \<Rightarrow> 'a list"
    and capacity :: nat
    and invar :: "'s \<Rightarrow> bool"
    and empty_queue :: "'s \<Rightarrow> 's"
    and push :: "'a \<Rightarrow> 's \<Rightarrow> 's"
    and front :: "'s \<Rightarrow> 'a"
    and pop :: "'s \<Rightarrow> 's"
  assumes invar_empty: "invar s \<Longrightarrow> invar (empty_queue s)"
    and invar_push: "invar s \<Longrightarrow> length (items s) < capacity \<Longrightarrow> invar (push x s)"
    and invar_pop: "invar s \<Longrightarrow> items s \<noteq> [] \<Longrightarrow> invar (pop s)"
    and items_empty: "invar s \<Longrightarrow> items (empty_queue s) = []"
    and items_push: "invar s \<Longrightarrow> length (items s) < capacity \<Longrightarrow> items (push x s) = items s @ [x]"
    and items_front: "invar s \<Longrightarrow> items s \<noteq> [] \<Longrightarrow> front s = hd (items s)"
    and items_pop: "invar s \<Longrightarrow> items s \<noteq> [] \<Longrightarrow> items (pop s) = tl (items s)"
    and items_bound: "invar s \<Longrightarrow> length (items s) \<le> capacity"
begin

fun pops :: "nat \<Rightarrow> 's \<Rightarrow> 'a list \<times> 's" where
  "pops 0 s = ([], s)"
| "pops (Suc n) s = (if items s = [] then ([], s) else (let (xs, t) = pops n (pop s) in (front s # xs, t)))"

fun pushes :: "'a list \<Rightarrow> 's \<Rightarrow> 's" where
  "pushes [] s = s"
| "pushes (x # xs) s = pushes xs (push x s)"

lemma pops_items: "invar s \<Longrightarrow> fst (pops n s) = take n (items s) \<and> items (snd (pops n s)) = drop n (items s)"
proof (induction n arbitrary: s)
  case (Suc n)
  show ?case
  proof (cases "items s = []")
    case False
    then obtain x xs where xs: "items s = x # xs" by (cases "items s") auto
    then have "items (pop s) = xs" and "front s = x" and "invar (pop s)"
      using Suc.prems by (simp_all add: items_pop items_front invar_pop)
    then show ?thesis using Suc.IH [of "pop s"] xs by (simp add: split_def)
  qed simp
qed simp

lemma pushes_items:
  "invar s \<Longrightarrow> length (items s) + length xs \<le> capacity \<Longrightarrow>
     invar (pushes xs s) \<and> items (pushes xs s) = items s @ xs"
proof (induction xs arbitrary: s)
  case (Cons x xs)
  then have "length (items s) < capacity" by simp
  with Cons.prems have "invar (push x s)" "items (push x s) = items s @ [x]"
    by (simp_all add: invar_push items_push)
  then show ?case using Cons.IH [of "push x s"] Cons.prems(2) by simp
qed simp

lemma fifo_order:
  "invar s \<Longrightarrow> items s = [] \<Longrightarrow> length xs \<le> capacity \<Longrightarrow> fst (pops (length xs) (pushes xs s)) = xs"
  using pushes_items [of s xs] pops_items [of "pushes xs s" "length xs"] by simp

end

record dirty_token =
  tk_universe :: u16
  tk_generation :: u64
  tk_token_id :: u64

record token_ring =
  tr_tokens :: "nat \<Rightarrow> dirty_token"
  tr_head :: nat
  tr_count :: nat

definition kArtNetUniverseCount :: nat where
  "kArtNetUniverseCount = 32768"

definition ring_ok :: "token_ring \<Rightarrow> bool" where
  "ring_ok r \<longleftrightarrow> tr_head r < kArtNetUniverseCount \<and> tr_count r \<le> kArtNetUniverseCount"

definition ring_items :: "token_ring \<Rightarrow> dirty_token list" where
  "ring_items r = map (\<lambda>i. tr_tokens r ((tr_head r + i) mod kArtNetUniverseCount)) [0..<tr_count r]"

definition ring_clear :: "token_ring \<Rightarrow> token_ring" where
  "ring_clear r = r\<lparr>tr_head := 0, tr_count := 0\<rparr>"

definition ring_push :: "dirty_token \<Rightarrow> token_ring \<Rightarrow> token_ring" where
  "ring_push tok r =
     (let tail = (tr_head r + tr_count r) mod kArtNetUniverseCount
      in r\<lparr>tr_tokens := (tr_tokens r)(tail := tok), tr_count := tr_count r + 1\<rparr>)"

definition ring_front :: "token_ring \<Rightarrow> dirty_token" where
  "ring_front r = tr_tokens r (tr_head r)"

definition ring_pop :: "token_ring \<Rightarrow> token_ring" where
  "ring_pop r = r\<lparr>tr_head := (tr_head r + 1) mod kArtNetUniverseCount, tr_count := tr_count r - 1\<rparr>"

lemma length_ring_items [simp]: "length (ring_items r) = tr_count r"
  by (simp add: ring_items_def)

lemma ring_items_Nil_iff [simp]: "ring_items r = [] \<longleftrightarrow> tr_count r = 0"
  by (simp add: ring_items_def)

lemma ring_items_clear [simp]: "ring_items (ring_clear r) = []"
  by (simp add: ring_items_def ring_clear_def)

lemma ring_index_neq:
  assumes "i < c" and "c < n"
  shows "(h + i) mod n \<noteq> (h + c) mod (n :: nat)"
proof
  assume "(h + i) mod n = (h + c) mod n"
  then have "(h + c) mod n = (h + i) mod n" ..
  then have "n dvd (h + c) - (h + i)"
    using assms by (simp add: mod_eq_dvd_iff_nat)
  then have "n dvd c - i" by simp
  with assms show False by (auto dest: dvd_imp_le)
qed

lemma ring_items_push: "tr_count r < kArtNetUniverseCount \<Longrightarrow> ring_items (ring_push tok r) = ring_items r @ [tok]"
  by (auto simp: ring_items_def ring_push_def Let_def ring_index_neq)

lemma ring_items_pop:
  assumes "ring_ok r" and "tr_count r \<noteq> 0"
  shows "ring_items (ring_pop r) = tl (ring_items r)"
proof -
  obtain k where k: "tr_count r = Suc k" using assms(2) by (cases "tr_count r") auto
  have "[0..<Suc k] = 0 # map Suc [0..<k]" by (simp add: map_Suc_upt upt_conv_Cons del: upt_Suc)
  then show ?thesis
    by (simp add: ring_items_def ring_pop_def k mod_simps del: upt_Suc)
qed

lemma ring_items_front: "ring_ok r \<Longrightarrow> tr_count r \<noteq> 0 \<Longrightarrow> ring_front r = hd (ring_items r)"
  by (simp add: ring_items_def ring_front_def ring_ok_def hd_map upt_conv_Cons)

interpretation ring: bounded_fifo ring_items kArtNetUniverseCount ring_ok ring_clear ring_push ring_front ring_pop
proof unfold_locales
  fix s :: token_ring and x :: dirty_token
  assume ok: "ring_ok s"
  show "ring_ok (ring_clear s)" and "ring_items (ring_clear s) = []"
    by (simp_all add: ring_ok_def ring_clear_def kArtNetUniverseCount_def)
  show "length (ring_items s) \<le> kArtNetUniverseCount"
    using ok by (simp add: ring_ok_def)
  {
    assume "length (ring_items s) < kArtNetUniverseCount"
    with ok show "ring_ok (ring_push x s)" and "ring_items (ring_push x s) = ring_items s @ [x]"
      by (simp_all add: ring_items_push) (simp add: ring_ok_def ring_push_def Let_def)
  }
  assume "ring_items s \<noteq> []"
  with ok show "ring_ok (ring_pop s)" and "ring_front s = hd (ring_items s)"
      and "ring_items (ring_pop s) = tl (ring_items s)"
    by (simp_all add: ring_items_front ring_items_pop)
       (auto simp: ring_ok_def ring_pop_def kArtNetUniverseCount_def)
qed

end
