(* ===== verification/Realtime_Subscription.thy ===== *)
theory Realtime_Subscription
  imports Token_Ring
begin

text \<open>
  The compiled interests of a scene (\<open>dmx/realtime_subscription.cpp\<close>): which universes are used and
  which of their 512 offsets matter. A \<open>std::bitset<512>\<close> is a 512-bit word; the table of all 32768
  masks and the membership bitset are functions of the universe id.
\<close>

type_synonym offset_mask = "512 word"

record subscription =
  sb_used :: "u16 \<Rightarrow> bool"
  sb_offsets :: "u16 \<Rightarrow> offset_mask"
  sb_universes :: "u16 list"

definition kDmxSlotCount :: nat where
  "kDmxSlotCount = 512"

definition empty_subscription :: subscription where
  "empty_subscription = \<lparr>sb_used = (\<lambda>_. False), sb_offsets = (\<lambda>_. 0), sb_universes = []\<rparr>"

fun set_offsets :: "offset_mask \<Rightarrow> u16 list \<Rightarrow> offset_mask" where
  "set_offsets m [] = m"
| "set_offsets m (i # is) =
     set_offsets (if unat i < kDmxSlotCount then set_bit (unat i) m else m) is"

definition add_entry :: "u16 \<times> u16 list \<Rightarrow> subscription \<Rightarrow> subscription" where
  "add_entry e s =
     (if kArtNetUniverseCount \<le> unat (fst e) then s
      else
        let masked = set_offsets (sb_offsets s (fst e)) (snd e);
            s1 = s\<lparr>sb_offsets := (sb_offsets s)(fst e := masked)\<rparr>
        in if masked \<noteq> 0 \<and> \<not> sb_used s (fst e)
           then s1\<lparr>sb_used := (sb_used s)(fst e := True), sb_universes := sb_universes s @ [fst e]\<rparr>
           else s1)"

definition build_subscription :: "(u16 \<times> u16 list) list \<Rightarrow> subscription" where
  "build_subscription offsets_by_universe =
     (let s = fold add_entry offsets_by_universe empty_subscription
      in s\<lparr>sb_universes := sort (sb_universes s)\<rparr>)"

definition subscription_contains :: "subscription \<Rightarrow> u16 \<Rightarrow> bool" where
  "subscription_contains s u \<longleftrightarrow> unat u < kArtNetUniverseCount \<and> sb_used s u"

definition subscription_offsets :: "subscription \<Rightarrow> u16 \<Rightarrow> offset_mask" where
  "subscription_offsets s u = (if unat u < kArtNetUniverseCount then sb_offsets s u else 0)"

subsection \<open>What build computes\<close>

lemma bit_set_offsets:
  "bit (set_offsets m is) n \<longleftrightarrow> bit m n \<or> n < 512 \<and> (\<exists>i\<in>set is. unat i = n)"
  by (induction m "is" rule: set_offsets.induct)
     (auto simp: bit_set_bit_iff kDmxSlotCount_def)

text \<open>The invariant of the building loop, over the entries seen so far.\<close>

definition built_from :: "(u16 \<times> u16 list) list \<Rightarrow> subscription \<Rightarrow> bool" where
  "built_from es s \<longleftrightarrow>
     (\<forall>u n. bit (sb_offsets s u) n \<longleftrightarrow>
        unat u < kArtNetUniverseCount \<and> n < 512 \<and> (\<exists>is. (u, is) \<in> set es \<and> (\<exists>i\<in>set is. unat i = n)))
     \<and> (\<forall>u. sb_used s u \<longleftrightarrow> sb_offsets s u \<noteq> 0)
     \<and> distinct (sb_universes s) \<and> set (sb_universes s) = {u. sb_used s u}"

lemma built_from_empty: "built_from [] empty_subscription"
  by (simp add: built_from_def empty_subscription_def)

lemma built_from_out_of_range:
  assumes "built_from es s" and "kArtNetUniverseCount \<le> unat (fst e)"
  shows "built_from (es @ [e]) s"
  using assms by (cases e) (fastforce simp: built_from_def)

lemma built_from_add:
  assumes inv: "built_from es s"
  shows "built_from (es @ [e]) (add_entry e s)"
proof (cases "kArtNetUniverseCount \<le> unat (fst e)")
  case True
  then show ?thesis using built_from_out_of_range [OF inv] by (simp add: add_entry_def)
next
  case False
  obtain u "is" where e: "e = (u, is)" by (cases e)
  let ?t = "add_entry e s" and ?mask = "set_offsets (sb_offsets s u) is"
  have offs: "sb_offsets ?t = (sb_offsets s)(u := ?mask)"
    using False by (simp add: add_entry_def e Let_def)
  have bits: "\<And>v n. bit (sb_offsets s v) n \<longleftrightarrow> unat v < kArtNetUniverseCount \<and> n < 512
        \<and> (\<exists>js. (v, js) \<in> set es \<and> (\<exists>i\<in>set js. unat i = n))"
    and used: "\<And>v. sb_used s v \<longleftrightarrow> sb_offsets s v \<noteq> 0"
    using inv by (auto simp: built_from_def)
  have grows: "?mask \<noteq> 0" if "sb_offsets s u \<noteq> 0"
  proof -
    from that obtain n where "bit (sb_offsets s u) n" by (auto simp: bit_eq_iff)
    then have "bit ?mask n" by (simp add: bit_set_offsets)
    then show ?thesis by auto
  qed
  have offs': "bit (sb_offsets ?t v) n \<longleftrightarrow> unat v < kArtNetUniverseCount \<and> n < 512
        \<and> (\<exists>js. (v, js) \<in> set (es @ [e]) \<and> (\<exists>i\<in>set js. unat i = n))" for v n
    using False by (cases "v = u") (auto simp: offs [unfolded e] e bit_set_offsets bits)
  have used': "sb_used ?t v \<longleftrightarrow> sb_offsets ?t v \<noteq> 0" for v
  proof (cases "v = u")
    case True
    show ?thesis using False grows
      by (cases "sb_offsets s u = 0"; cases "?mask = 0") (simp_all add: True add_entry_def e Let_def used)
  next
    case neq: False
    then show ?thesis using False by (simp add: add_entry_def e Let_def used)
  qed
  have "distinct (sb_universes ?t) \<and> set (sb_universes ?t) = {v. sb_used ?t v}"
    using inv False by (auto simp: built_from_def add_entry_def e Let_def)
  then show ?thesis using offs' used' by (simp add: built_from_def)
qed

lemma built_from_fold: "built_from es s \<Longrightarrow> built_from (es @ fs) (fold add_entry fs s)"
proof (induction fs arbitrary: es s)
  case (Cons f fs)
  show ?case using Cons.IH [OF built_from_add [OF Cons.prems, of f]] by simp
qed simp

lemma built_from_build: "built_from es (build_subscription es)"
  using built_from_fold [OF built_from_empty, of es]
  by (simp add: build_subscription_def Let_def built_from_def)

lemma build_used: "sb_used (build_subscription es) u \<longleftrightarrow> sb_offsets (build_subscription es) u \<noteq> 0"
  using built_from_build [of es] by (simp add: built_from_def)

lemma build_bit:
  "bit (sb_offsets (build_subscription es) u) n \<longleftrightarrow>
     unat u < kArtNetUniverseCount \<and> n < 512 \<and> (\<exists>is. (u, is) \<in> set es \<and> (\<exists>i\<in>set is. unat i = n))"
  using built_from_build [of es] by (simp add: built_from_def)

lemma build_universes:
  "distinct (sb_universes (build_subscription es)) \<and> set (sb_universes (build_subscription es)) = {u. sb_used (build_subscription es) u}"
  using built_from_build [of es] by (simp add: built_from_def)

lemma build_sorted: "sorted (sb_universes (build_subscription es))"
  by (simp add: build_subscription_def Let_def)

lemma build_contains:
  "subscription_contains (build_subscription es) u \<longleftrightarrow>
     unat u < kArtNetUniverseCount \<and> (\<exists>is i. (u, is) \<in> set es \<and> i \<in> set is \<and> unat i < 512)"
proof -
  have "sb_used (build_subscription es) u \<longleftrightarrow> (\<exists>n. bit (sb_offsets (build_subscription es) u) n)"
    by (auto simp: build_used bit_eq_iff build_bit)
  then show ?thesis by (auto simp: subscription_contains_def build_bit)
qed

lemma build_used_in_range: "sb_used (build_subscription es) u \<Longrightarrow> unat u < kArtNetUniverseCount"
  by (auto simp: build_used bit_eq_iff build_bit)

text \<open>Compiling the scene's interests is exact: offset \<open>n\<close> of a universe is in the mask if and only
  if some entry of that universe lists it and both are in range; the universe list is the sorted list,
  each once, of the universes with at least one such offset, and membership tests agree with it.\<close>

theorem build_subscription_exact:
  "(bit (subscription_offsets (build_subscription es) u) n \<longleftrightarrow>
      unat u < 32768 \<and> n < 512 \<and> (\<exists>is. (u, is) \<in> set es \<and> (\<exists>i\<in>set is. unat i = n)))
   \<and> sorted_wrt (<) (sb_universes (build_subscription es))
   \<and> (u \<in> set (sb_universes (build_subscription es)) \<longleftrightarrow> subscription_contains (build_subscription es) u)
   \<and> (subscription_contains (build_subscription es) u \<longleftrightarrow>
        unat u < 32768 \<and> (\<exists>is i. (u, is) \<in> set es \<and> i \<in> set is \<and> unat i < 512))"
proof -
  have "bit (subscription_offsets (build_subscription es) u) n \<longleftrightarrow>
      unat u < 32768 \<and> n < 512 \<and> (\<exists>is. (u, is) \<in> set es \<and> (\<exists>i\<in>set is. unat i = n))"
    by (auto simp: subscription_offsets_def build_bit kArtNetUniverseCount_def)
  moreover have "u \<in> set (sb_universes (build_subscription es)) \<longleftrightarrow> subscription_contains (build_subscription es) u"
    using build_universes [of es] build_used_in_range [of es u] by (auto simp: subscription_contains_def)
  moreover have "sorted_wrt (<) (sb_universes (build_subscription es))"
    using build_universes [of es] build_sorted [of es] by (simp add: strict_sorted_iff)
  ultimately show ?thesis
    using build_contains [of es u] by (simp add: kArtNetUniverseCount_def)
qed

end
