(* ===== verification/Realtime_Mailbox.thy ===== *)
theory Realtime_Mailbox
  imports Slot_Directory Realtime_Subscription
begin

text \<open>
  The latest-state mailbox between the receiver thread and the visual runtime
  (\<open>dmx/realtime_universe_mailbox.cpp\<close>): one held frame per subscribed universe and a ring of dirty
  tokens. Every operation runs under the one state mutex; \<open>consume_dirty_frames\<close> takes it once per
  token, so its loop body is an operation of its own (\<open>consume_one\<close>). Reading the caller's buffer past
  its end is \<^term>\<open>None\<close>.
\<close>

record mailbox_slot =
  ms_held :: dmx_frame
  ms_generation :: u64
  ms_initialized :: bool
  ms_dirty :: bool
  ms_queued :: bool
  ms_token_id :: u64

record mailbox =
  mb_subscription :: "subscription option"
  mb_slots :: "u16 \<rightharpoonup> mailbox_slot"
  mb_ring :: token_ring
  mb_pending_high_water :: nat
  mb_allocated_slots :: nat
  mb_generation :: u64
  mb_next_token_id :: u64
  mb_relevant :: u64
  mb_irrelevant :: u64
  mb_unchanged :: u64
  mb_state_updates :: u64
  mb_coalesced :: u64
  mb_consumed :: u64

definition blank_token :: dirty_token where
  "blank_token = \<lparr>tk_universe = 0, tk_generation = 0, tk_token_id = 0\<rparr>"

definition empty_mailbox :: mailbox where
  "empty_mailbox = \<lparr>mb_subscription = None, mb_slots = Map.empty,
     mb_ring = \<lparr>tr_tokens = (\<lambda>_. blank_token), tr_head = 0, tr_count = 0\<rparr>,
     mb_pending_high_water = 0, mb_allocated_slots = 0, mb_generation = 0, mb_next_token_id = 0,
     mb_relevant = 0, mb_irrelevant = 0, mb_unchanged = 0, mb_state_updates = 0, mb_coalesced = 0,
     mb_consumed = 0\<rparr>"

definition blank_mailbox_slot :: mailbox_slot where
  "blank_mailbox_slot = \<lparr>ms_held = blank_frame, ms_generation = 0, ms_initialized = False,
     ms_dirty = False, ms_queued = False, ms_token_id = 0\<rparr>"

definition wants :: "subscription option \<Rightarrow> u16 \<Rightarrow> bool" where
  "wants sub u = (case sub of None \<Rightarrow> False | Some s \<Rightarrow> subscription_contains s u)"

definition wanted_offsets :: "subscription option \<Rightarrow> u16 \<Rightarrow> offset_mask" where
  "wanted_offsets sub u = (case sub of None \<Rightarrow> 0 | Some s \<Rightarrow> subscription_offsets s u)"

subsection \<open>Replacing the subscription\<close>

definition has_new_offsets :: "subscription option \<Rightarrow> subscription option \<Rightarrow> u16 \<Rightarrow> bool" where
  "has_new_offsets previous sub u \<longleftrightarrow>
     \<not> wants previous u \<or> wanted_offsets sub u AND NOT (wanted_offsets previous u) \<noteq> 0"

definition install_slot :: "subscription option \<Rightarrow> u64 \<Rightarrow> u16 \<Rightarrow> mailbox \<Rightarrow> mailbox" where
  "install_slot sub generation u m =
     (if \<not> wants sub u then
        (case mb_slots m u of
           None \<Rightarrow> m
         | Some s \<Rightarrow> m\<lparr>mb_slots := (mb_slots m)(u \<mapsto>
               s\<lparr>ms_dirty := False, ms_queued := False, ms_generation := generation\<rparr>)\<rparr>)
      else
        let (s, m1) = (case mb_slots m u of
                         Some s \<Rightarrow> (s, m)
                       | None \<Rightarrow> (blank_mailbox_slot, m\<lparr>mb_allocated_slots := mb_allocated_slots m + 1\<rparr>))
        in m1\<lparr>mb_slots := (mb_slots m1)(u \<mapsto>
             s\<lparr>ms_initialized := (if has_new_offsets (mb_subscription m) sub u then False else ms_initialized s),
               ms_dirty := False, ms_queued := False, ms_generation := generation\<rparr>)\<rparr>)"

definition set_subscription :: "subscription option \<Rightarrow> mailbox \<Rightarrow> mailbox" where
  "set_subscription sub m =
     (let generation = mb_generation m + 1;
          m1 = m\<lparr>mb_generation := generation, mb_ring := ring_clear (mb_ring m)\<rparr>;
          m2 = fold (install_slot sub generation) (map of_nat [0..<kArtNetUniverseCount]) m1
      in m2\<lparr>mb_subscription := sub\<rparr>)"

definition retire_slot :: "u64 \<Rightarrow> mailbox_slot \<Rightarrow> mailbox_slot" where
  "retire_slot generation s =
     s\<lparr>ms_initialized := False, ms_dirty := False, ms_queued := False, ms_generation := generation\<rparr>"

definition reset_session :: "mailbox \<Rightarrow> mailbox" where
  "reset_session m =
     m\<lparr>mb_ring := ring_clear (mb_ring m), mb_generation := mb_generation m + 1,
       mb_slots := map_option (retire_slot (mb_generation m + 1)) \<circ> mb_slots m\<rparr>"

subsection \<open>Publishing\<close>

definition enqueue_dirty :: "u16 \<Rightarrow> mailbox_slot \<Rightarrow> mailbox \<Rightarrow> mailbox_slot \<times> mailbox" where
  "enqueue_dirty u s m =
     (if ms_queued s \<or> kArtNetUniverseCount \<le> tr_count (mb_ring m) then (s, m)
      else
        let token_id = mb_next_token_id m + 1;
            ring = ring_push \<lparr>tk_universe = u, tk_generation = ms_generation s, tk_token_id = token_id\<rparr> (mb_ring m)
        in (s\<lparr>ms_token_id := token_id, ms_queued := True\<rparr>,
            m\<lparr>mb_next_token_id := token_id, mb_ring := ring,
              mb_pending_high_water := max (mb_pending_high_water m) (tr_count ring)\<rparr>))"

text \<open>The scan over the subscribed offsets, with its early exit; the incoming payload reads as zero
  past its length, and so does the held frame.\<close>

fun scan_changed :: "offset_mask \<Rightarrow> u8 list \<Rightarrow> nat \<Rightarrow> dmx_frame \<Rightarrow> nat list \<Rightarrow> bool option" where
  "scan_changed m data safe_length held [] = Some False"
| "scan_changed m data safe_length held (i # is) =
     (if \<not> bit m i then scan_changed m data safe_length held is
      else if i < safe_length \<and> length data \<le> i \<or> i < unat (df_length held) \<and> length (df_data held) \<le> i then None
      else
        let incoming = (if i < safe_length then data ! i else 0);
            previous = (if i < unat (df_length held) then df_data held ! i else 0)
        in if incoming \<noteq> previous then Some True else scan_changed m data safe_length held is)"

definition hold_frame :: "u16 \<Rightarrow> u8 list \<Rightarrow> nat \<Rightarrow> dmx_frame \<Rightarrow> dmx_frame option" where
  "hold_frame u data safe_length f =
     map_option (\<lambda>bytes. f\<lparr>df_universe_id := u, df_length := of_nat safe_length, df_data := bytes,
                            df_counter := df_counter f + 1\<rparr>)
       (memcpy (replicate (length (df_data f)) 0) data safe_length)"

definition publish_changed :: "u16 \<Rightarrow> mailbox_slot \<Rightarrow> mailbox \<Rightarrow> mailbox" where
  "publish_changed u s m =
     (let (s', m') = (if ms_dirty s then (s, m\<lparr>mb_coalesced := mb_coalesced m + 1\<rparr>)
                      else enqueue_dirty u (s\<lparr>ms_dirty := True\<rparr>) m)
      in m'\<lparr>mb_slots := (mb_slots m')(u \<mapsto> s'), mb_state_updates := mb_state_updates m' + 1\<rparr>)"

definition publish_slot :: "u16 \<Rightarrow> u8 list \<Rightarrow> u16 \<Rightarrow> u8 \<Rightarrow> u64 \<Rightarrow> mailbox_slot \<Rightarrow> mailbox \<Rightarrow> (bool \<times> mailbox) option" where
  "publish_slot u data len sequence now_us s m =
     (let safe_length = unat (min len 512) in
      case (if \<not> ms_initialized s then Some True
            else scan_changed (wanted_offsets (mb_subscription m) u) data safe_length (ms_held s) [0..<512]) of
        None \<Rightarrow> None
      | Some changed \<Rightarrow>
          let f = (ms_held s)\<lparr>df_last_rx_us := now_us, df_sequence := sequence\<rparr> in
          if \<not> changed
          then Some (False, m\<lparr>mb_slots := (mb_slots m)(u \<mapsto> s\<lparr>ms_held := f\<rparr>), mb_unchanged := mb_unchanged m + 1\<rparr>)
          else map_option (\<lambda>f'. (True, publish_changed u (s\<lparr>ms_held := f', ms_initialized := True\<rparr>) m))
                 (hold_frame u data safe_length f))"

definition publish :: "u16 \<Rightarrow> u8 list option \<Rightarrow> u16 \<Rightarrow> u8 \<Rightarrow> u64 \<Rightarrow> mailbox \<Rightarrow> (bool \<times> mailbox) option" where
  "publish u data len sequence now_us m =
     (if data = None \<or> \<not> wants (mb_subscription m) u
      then Some (False, m\<lparr>mb_irrelevant := mb_irrelevant m + 1\<rparr>)
      else
        let m1 = m\<lparr>mb_relevant := mb_relevant m + 1\<rparr> in
        case mb_slots m u of
          None \<Rightarrow> Some (False, m1)
        | Some s \<Rightarrow>
            if ms_generation s \<noteq> mb_generation m then Some (False, m1)
            else publish_slot u (the data) len sequence now_us s m1)"

subsection \<open>Consuming\<close>

definition consume_token :: "dirty_token \<Rightarrow> mailbox \<Rightarrow> dmx_frame option \<times> mailbox" where
  "consume_token tok m =
     (case mb_slots m (tk_universe tok) of
        None \<Rightarrow> (None, m)
      | Some s \<Rightarrow>
          if ms_generation s \<noteq> tk_generation tok \<or> ms_token_id s \<noteq> tk_token_id tok \<or> \<not> ms_dirty s \<or> \<not> ms_queued s
          then (None, m)
          else (Some (ms_held s),
                m\<lparr>mb_slots := (mb_slots m)(tk_universe tok \<mapsto> s\<lparr>ms_dirty := False, ms_queued := False\<rparr>),
                  mb_consumed := mb_consumed m + 1\<rparr>))"

text \<open>One iteration of the draining loop, between its lock and its unlock; the outer \<^term>\<open>None\<close> is
  its break on an empty ring.\<close>

definition consume_one :: "mailbox \<Rightarrow> (dmx_frame option \<times> mailbox) option" where
  "consume_one m =
     (if tr_count (mb_ring m) = 0 then None
      else Some (consume_token (ring_front (mb_ring m)) (m\<lparr>mb_ring := ring_pop (mb_ring m)\<rparr>)))"

fun consume_loop :: "nat \<Rightarrow> mailbox \<Rightarrow> dmx_frame list \<times> mailbox" where
  "consume_loop 0 m = ([], m)"
| "consume_loop (Suc n) m =
     (case consume_one m of
        None \<Rightarrow> ([], m)
      | Some (out, m') \<Rightarrow>
          let (frames, m'') = consume_loop n m'
          in (case out of None \<Rightarrow> (frames, m'') | Some f \<Rightarrow> (f # frames, m'')))"

definition consume_dirty_frames :: "mailbox \<Rightarrow> dmx_frame list \<times> mailbox" where
  "consume_dirty_frames m = consume_loop (tr_count (mb_ring m)) m"

definition held :: "u16 \<Rightarrow> mailbox \<Rightarrow> dmx_frame option" where
  "held u m =
     (case (if unat u < kArtNetUniverseCount then mb_slots m u else None) of
        None \<Rightarrow> None
      | Some s \<Rightarrow>
          if \<not> ms_initialized s \<or> \<not> wants (mb_subscription m) u \<or> ms_generation s \<noteq> mb_generation m then None
          else Some (ms_held s))"

definition held_states :: "mailbox \<Rightarrow> dmx_frame list" where
  "held_states m =
     (case mb_subscription m of
        None \<Rightarrow> []
      | Some sub \<Rightarrow>
          List.map_filter (\<lambda>u. case mb_slots m u of
              None \<Rightarrow> None
            | Some s \<Rightarrow> if ms_initialized s \<and> ms_generation s = mb_generation m then Some (ms_held s) else None)
            (sb_universes sub))"

definition pending_dirty_count :: "mailbox \<Rightarrow> nat" where
  "pending_dirty_count m = tr_count (mb_ring m)"

end
