(* ===== verification/Mailbox_Refinement.thy ===== *)
theory Mailbox_Refinement
  imports Realtime_Mailbox
begin

text \<open>
  What the realtime mailbox promises. Its abstract state is the map \<open>known\<close> from subscribed universes
  to the bytes their interesting offsets show, and the list of universes waiting to be consumed; the
  invariant ties slots, tokens and generations together, and each operation refines an operation on
  the abstract state.
\<close>

subsection \<open>Invariant\<close>

definition subscription_ok :: "subscription option \<Rightarrow> bool" where
  "subscription_ok sub \<longleftrightarrow>
     (\<forall>s. sub = Some s \<longrightarrow> distinct (sb_universes s) \<and> set (sb_universes s) = {u. subscription_contains s u})"

definition frame_good :: "u16 \<Rightarrow> dmx_frame \<Rightarrow> bool" where
  "frame_good u f \<longleftrightarrow> df_universe_id f = u \<and> length (df_data f) = 512 \<and> unat (df_length f) \<le> 512"

definition slot_good :: "mailbox \<Rightarrow> u16 \<Rightarrow> mailbox_slot \<Rightarrow> bool" where
  "slot_good m u s \<longleftrightarrow> unat u < kArtNetUniverseCount \<and> ms_generation s = mb_generation m
     \<and> length (df_data (ms_held s)) = 512 \<and> ms_queued s = ms_dirty s
     \<and> (ms_dirty s \<longrightarrow> ms_initialized s \<and> wants (mb_subscription m) u)
     \<and> (ms_initialized s \<longrightarrow> frame_good u (ms_held s))"

definition token_good :: "mailbox \<Rightarrow> dirty_token \<Rightarrow> bool" where
  "token_good m t \<longleftrightarrow> tk_generation t = mb_generation m
     \<and> (\<exists>s. mb_slots m (tk_universe t) = Some s \<and> ms_queued s \<and> ms_token_id s = tk_token_id t)"

definition queued_ids :: "mailbox \<Rightarrow> u16 list" where
  "queued_ids m = map tk_universe (ring_items (mb_ring m))"

definition mailbox_ok :: "mailbox \<Rightarrow> bool" where
  "mailbox_ok m \<longleftrightarrow> subscription_ok (mb_subscription m) \<and> ring_ok (mb_ring m)
     \<and> (\<forall>u s. mb_slots m u = Some s \<longrightarrow> slot_good m u s)
     \<and> (\<forall>u. wants (mb_subscription m) u \<longrightarrow> mb_slots m u \<noteq> None)
     \<and> distinct (queued_ids m) \<and> (\<forall>t\<in>set (ring_items (mb_ring m)). token_good m t)
     \<and> (\<forall>u s. mb_slots m u = Some s \<longrightarrow> ms_queued s \<longrightarrow> u \<in> set (queued_ids m))"

lemma mailbox_okD:
  assumes "mailbox_ok m"
  shows ok_subscription: "subscription_ok (mb_subscription m)"
    and ok_ring: "ring_ok (mb_ring m)"
    and ok_slot: "mb_slots m u = Some s \<Longrightarrow> slot_good m u s"
    and ok_wanted: "wants (mb_subscription m) u \<Longrightarrow> mb_slots m u \<noteq> None"
    and ok_distinct: "distinct (queued_ids m)"
    and ok_token: "t \<in> set (ring_items (mb_ring m)) \<Longrightarrow> token_good m t"
    and ok_queued: "mb_slots m u = Some s \<Longrightarrow> ms_queued s \<Longrightarrow> u \<in> set (queued_ids m)"
  using assms by (auto simp: mailbox_ok_def)

lemma mailbox_ok_counters [simp]:
  "mailbox_ok (m\<lparr>mb_relevant := n\<rparr>) = mailbox_ok m" "mailbox_ok (m\<lparr>mb_irrelevant := n\<rparr>) = mailbox_ok m"
  "mailbox_ok (m\<lparr>mb_unchanged := n\<rparr>) = mailbox_ok m" "mailbox_ok (m\<lparr>mb_state_updates := n\<rparr>) = mailbox_ok m"
  "mailbox_ok (m\<lparr>mb_coalesced := n\<rparr>) = mailbox_ok m" "mailbox_ok (m\<lparr>mb_consumed := n\<rparr>) = mailbox_ok m"
  by (simp_all add: mailbox_ok_def slot_good_def token_good_def queued_ids_def)

lemma queued_iff:
  assumes ok: "mailbox_ok m"
  shows "u \<in> set (queued_ids m) \<longleftrightarrow> (\<exists>s. mb_slots m u = Some s \<and> ms_dirty s)"
proof
  assume "u \<in> set (queued_ids m)"
  then obtain t where "t \<in> set (ring_items (mb_ring m))" "tk_universe t = u" by (auto simp: queued_ids_def)
  then have "token_good m t" using ok_token [OF ok] by simp
  with \<open>tk_universe t = u\<close> show "\<exists>s. mb_slots m u = Some s \<and> ms_dirty s"
    using ok_slot [OF ok, of u] by (auto simp: token_good_def slot_good_def)
next
  assume "\<exists>s. mb_slots m u = Some s \<and> ms_dirty s"
  then show "u \<in> set (queued_ids m)"
    using ok_slot [OF ok, of u] ok_queued [OF ok, of u] by (auto simp: slot_good_def)
qed

lemma queued_in_range: "mailbox_ok m \<Longrightarrow> u \<in> set (queued_ids m) \<Longrightarrow> unat u < kArtNetUniverseCount"
  using ok_slot [of m u] by (auto simp: queued_iff slot_good_def)

text \<open>The ring always has room for a universe that is not waiting: the waiting ones are distinct ids
  below its capacity.\<close>

lemma ring_has_room:
  assumes ok: "mailbox_ok m" and u: "unat u < kArtNetUniverseCount" and free: "u \<notin> set (queued_ids m)"
  shows "tr_count (mb_ring m) < kArtNetUniverseCount"
proof -
  have "\<forall>v\<in>set (u # queued_ids m). unat v < kArtNetUniverseCount"
    using u queued_in_range [OF ok] by auto
  then have "length (u # queued_ids m) \<le> kArtNetUniverseCount"
    by (rule distinct_ids_bound) (use free ok_distinct [OF ok] in simp)
  then show ?thesis by (simp add: queued_ids_def)
qed

subsection \<open>The abstract state\<close>

type_synonym shown_bytes = "nat \<Rightarrow> u8"

definition masked :: "offset_mask \<Rightarrow> dmx_frame \<Rightarrow> shown_bytes" where
  "masked m f = (\<lambda>i. if bit m i \<and> i < unat (df_length f) then df_data f ! i else 0)"

definition payload_on :: "offset_mask \<Rightarrow> u8 list \<Rightarrow> nat \<Rightarrow> shown_bytes" where
  "payload_on m data n = (\<lambda>i. if bit m i \<and> i < n then data ! i else 0)"

definition known :: "mailbox \<Rightarrow> u16 \<rightharpoonup> shown_bytes" where
  "known m = (\<lambda>u. map_option (masked (wanted_offsets (mb_subscription m) u)) (held u m))"

lemma held_eq:
  assumes "mailbox_ok m"
  shows "held u m = (if wants (mb_subscription m) u
                     then (case mb_slots m u of None \<Rightarrow> None
                           | Some s \<Rightarrow> if ms_initialized s then Some (ms_held s) else None)
                     else None)"
  using ok_slot [OF assms, of u] by (auto simp: held_def slot_good_def split: option.splits)

lemma known_eq:
  assumes "mailbox_ok m"
  shows "known m u = (if wants (mb_subscription m) u
                     then (case mb_slots m u of None \<Rightarrow> None
                           | Some s \<Rightarrow> if ms_initialized s
                                       then Some (masked (wanted_offsets (mb_subscription m) u) (ms_held s))
                                       else None)
                     else None)"
  by (simp add: known_def held_eq [OF assms] split: option.split)

lemma known_slots_cong:
  assumes "mb_subscription m' = mb_subscription m" and "mb_generation m' = mb_generation m"
    and "\<And>v. map_option (\<lambda>s. (ms_initialized s, ms_held s, ms_generation s)) (mb_slots m' v)
            = map_option (\<lambda>s. (ms_initialized s, ms_held s, ms_generation s)) (mb_slots m v)"
  shows "known m' = known m"
proof
  fix v
  show "known m' v = known m v"
    using assms(3) [of v] by (cases "mb_slots m' v"; cases "mb_slots m v") (auto simp: known_def held_def assms(1,2))
qed

subsection \<open>Publishing\<close>

lemma scan_changed_eq:
  assumes "safe \<le> length data" and "unat (df_length f) \<le> length (df_data f)"
  shows "scan_changed m data safe f is = Some (\<exists>i\<in>set is. payload_on m data safe i \<noteq> masked m f i)"
  using assms
  by (induction m data safe f "is" rule: scan_changed.induct)
     (auto simp: Let_def payload_on_def masked_def split: if_splits)

lemma shown_bytes_eq_iff: "payload_on m data n = masked m f \<longleftrightarrow> (\<forall>i\<in>{0..<512}. payload_on m data n i = masked (m :: offset_mask) f i)"
proof
  assume same: "\<forall>i\<in>{0..<512}. payload_on m data n i = masked m f i"
  show "payload_on m data n = masked m f"
  proof
    fix i
    show "payload_on m data n i = masked m f i"
    proof (cases "i < 512")
      case False
      then have "\<not> bit m i" using bit_imp_le_length [of m i] by auto
      then show ?thesis by (simp add: payload_on_def masked_def)
    qed (simp add: same)
  qed
qed simp

lemma scan_changed_full:
  assumes "safe \<le> length data" and "unat (df_length f) \<le> length (df_data f)"
  shows "scan_changed m data safe f [0..<512] = Some (payload_on m data safe \<noteq> masked m f)"
  by (auto simp: scan_changed_eq [OF assms] shown_bytes_eq_iff)

lemma hold_frame_eq:
  assumes "length (df_data f) = 512" and "safe \<le> 512" and "safe \<le> length data"
  shows "hold_frame u data safe f =
     Some (f\<lparr>df_universe_id := u, df_length := of_nat safe,
             df_data := take safe data @ replicate (512 - safe) 0, df_counter := df_counter f + 1\<rparr>)"
  using assms by (simp add: hold_frame_def memcpy_def)

lemma masked_held_payload:
  assumes "safe \<le> 512" and "safe \<le> length data"
  shows "masked m (f\<lparr>df_universe_id := u, df_length := of_nat safe,
             df_data := take safe data @ replicate (512 - safe) 0, df_counter := c\<rparr>) = payload_on m data safe"
proof -
  have "unat (of_nat safe :: u16) = safe" using assms(1) by (simp add: unat_of_nat take_bit_nat_eq_self)
  then show ?thesis using assms by (auto simp: masked_def payload_on_def nth_append fun_eq_iff)
qed

lemma masked_touch [simp]: "masked m (f\<lparr>df_last_rx_us := t, df_sequence := q\<rparr>) = masked m f"
  by (simp add: masked_def fun_eq_iff)

text \<open>Replacing the slot of a subscribed universe by an initialised one that is queued as before.\<close>

lemma mailbox_ok_hold:
  assumes ok: "mailbox_ok m" and slot: "mb_slots m u = Some s" and sub: "wants (mb_subscription m) u"
    and frame: "frame_good u f"
  shows "mailbox_ok (m\<lparr>mb_slots := (mb_slots m)(u \<mapsto> s\<lparr>ms_held := f, ms_initialized := True\<rparr>)\<rparr>)"
proof -
  have "slot_good m u s" by (rule ok_slot [OF ok slot])
  then show ?thesis
    using ok slot sub frame
    unfolding mailbox_ok_def
    by (auto simp: slot_good_def token_good_def queued_ids_def frame_good_def)
qed

lemma mailbox_ok_enqueue:
  assumes ok: "mailbox_ok m" and slot: "mb_slots m u = Some s" and sub: "wants (mb_subscription m) u"
    and init: "ms_initialized s" and clean: "\<not> ms_dirty s"
    and step: "enqueue_dirty u (s\<lparr>ms_dirty := True\<rparr>) m = (s', m')"
  shows "mailbox_ok (m'\<lparr>mb_slots := (mb_slots m')(u \<mapsto> s')\<rparr>)"
    and "queued_ids m' = queued_ids m @ [u]"
    and "s' = s\<lparr>ms_dirty := True, ms_queued := True, ms_token_id := mb_next_token_id m + 1\<rparr>"
    and "mb_slots m' = mb_slots m" and "mb_subscription m' = mb_subscription m"
    and "mb_generation m' = mb_generation m"
proof -
  have good: "slot_good m u s" by (rule ok_slot [OF ok slot])
  have free: "u \<notin> set (queued_ids m)" using queued_iff [OF ok, of u] slot clean by simp
  have room: "tr_count (mb_ring m) < kArtNetUniverseCount"
    using ring_has_room [OF ok _ free] good by (simp add: slot_good_def)
  let ?t = "\<lparr>tk_universe = u, tk_generation = ms_generation s, tk_token_id = mb_next_token_id m + 1\<rparr>"
  have eqs: "s' = s\<lparr>ms_dirty := True, ms_queued := True, ms_token_id := mb_next_token_id m + 1\<rparr>"
      "mb_ring m' = ring_push ?t (mb_ring m)" "mb_slots m' = mb_slots m"
      "mb_subscription m' = mb_subscription m" "mb_generation m' = mb_generation m"
    using step room good clean by (auto simp: enqueue_dirty_def Let_def slot_good_def)
  then show "s' = s\<lparr>ms_dirty := True, ms_queued := True, ms_token_id := mb_next_token_id m + 1\<rparr>"
    and "mb_slots m' = mb_slots m" and "mb_subscription m' = mb_subscription m"
    and "mb_generation m' = mb_generation m" by simp_all
  have items: "ring_items (mb_ring m') = ring_items (mb_ring m) @ [?t]" and rok: "ring_ok (mb_ring m')"
    using ring.items_push [of "mb_ring m" ?t] ring.invar_push [of "mb_ring m" ?t] ok_ring [OF ok] room
    by (simp_all add: eqs(2))
  then show ids: "queued_ids m' = queued_ids m @ [u]" by (simp add: queued_ids_def)
  let ?m = "m'\<lparr>mb_slots := (mb_slots m')(u \<mapsto> s')\<rparr>"
  have "slot_good ?m v r" if "mb_slots ?m v = Some r" for v r
    using that ok_slot [OF ok, of v r] good sub init
    by (auto simp: eqs slot_good_def split: if_splits)
  moreover have "token_good ?m t" if "t \<in> set (ring_items (mb_ring ?m))" for t
    using that ok_token [OF ok, of t] free good
    by (auto simp: eqs(1,3-5) items token_good_def slot_good_def queued_ids_def)
  moreover have "v \<in> set (queued_ids ?m)" if "mb_slots ?m v = Some r" "ms_queued r" for v r
    using that ok_queued [OF ok, of v r] ids by (auto simp: eqs(1,3) queued_ids_def split: if_splits)
  moreover have "distinct (queued_ids ?m)"
    using ids free ok_distinct [OF ok] by (simp add: queued_ids_def)
  moreover have "mb_slots ?m v \<noteq> None" if "wants (mb_subscription ?m) v" for v
    using that ok_wanted [OF ok, of v] by (simp add: eqs)
  ultimately show "mailbox_ok ?m"
    using rok ok_subscription [OF ok] by (simp add: mailbox_ok_def eqs(4))
qed

lemma known_slot_update:
  assumes "mb_subscription m' = mb_subscription m" and "mb_generation m' = mb_generation m"
    and "mb_slots m' = (mb_slots m)(u \<mapsto> s)" and "ms_generation s = mb_generation m"
    and "ms_initialized s" and "wants (mb_subscription m) u" and "unat u < kArtNetUniverseCount"
  shows "known m' = (known m)(u \<mapsto> masked (wanted_offsets (mb_subscription m) u) (ms_held s))"
  using assms by (intro ext) (auto simp: known_def held_def split: option.split)

lemma known_counters [simp]:
  "known (m\<lparr>mb_relevant := n\<rparr>) = known m" "known (m\<lparr>mb_irrelevant := n\<rparr>) = known m"
  "known (m\<lparr>mb_unchanged := n\<rparr>) = known m" "known (m\<lparr>mb_state_updates := n\<rparr>) = known m"
  "known (m\<lparr>mb_coalesced := n\<rparr>) = known m"
  by (simp_all add: known_def held_def fun_eq_iff split: option.split)

lemma queued_counters [simp]:
  "queued_ids (m\<lparr>mb_relevant := n\<rparr>) = queued_ids m" "queued_ids (m\<lparr>mb_irrelevant := n\<rparr>) = queued_ids m"
  "queued_ids (m\<lparr>mb_unchanged := n\<rparr>) = queued_ids m" "queued_ids (m\<lparr>mb_state_updates := n\<rparr>) = queued_ids m"
  "queued_ids (m\<lparr>mb_coalesced := n\<rparr>) = queued_ids m" "queued_ids (m\<lparr>mb_slots := x\<rparr>) = queued_ids m"
  by (simp_all add: queued_ids_def)

lemma publish_changed_refines:
  assumes ok: "mailbox_ok m" and slot: "mb_slots m u = Some s" and sub: "wants (mb_subscription m) u"
    and frame: "frame_good u f"
  defines "m' \<equiv> publish_changed u (s\<lparr>ms_held := f, ms_initialized := True\<rparr>) m"
  shows "mailbox_ok m' \<and> known m' = (known m)(u \<mapsto> masked (wanted_offsets (mb_subscription m) u) f)
     \<and> queued_ids m' = (if u \<in> set (queued_ids m) then queued_ids m else queued_ids m @ [u])"
proof -
  have good: "slot_good m u s" by (rule ok_slot [OF ok slot])
  let ?s = "s\<lparr>ms_held := f, ms_initialized := True\<rparr>"
  let ?m = "m\<lparr>mb_slots := (mb_slots m)(u \<mapsto> ?s)\<rparr>"
  have okm: "mailbox_ok ?m" by (rule mailbox_ok_hold [OF ok slot sub frame])
  have known_m: "known ?m = (known m)(u \<mapsto> masked (wanted_offsets (mb_subscription m) u) f)"
    using good sub by (subst known_slot_update [of ?m m u ?s]) (simp_all add: slot_good_def)
  show ?thesis
  proof (cases "ms_dirty s")
    case True
    then have "u \<in> set (queued_ids m)" using queued_iff [OF ok, of u] slot by simp
    moreover have "m' = ?m\<lparr>mb_coalesced := mb_coalesced m + 1, mb_state_updates := mb_state_updates m + 1\<rparr>"
      using True by (simp add: m'_def publish_changed_def)
    ultimately show ?thesis using okm known_m by simp
  next
    case False
    obtain s' m1 where step: "enqueue_dirty u (?s\<lparr>ms_dirty := True\<rparr>) ?m = (s', m1)" by fastforce
    have step': "enqueue_dirty u (?s\<lparr>ms_dirty := True\<rparr>) m = (s', m1\<lparr>mb_slots := mb_slots m\<rparr>)"
      using step by (auto simp: enqueue_dirty_def Let_def split: if_splits)
    have slot': "mb_slots ?m u = Some ?s" and sub': "wants (mb_subscription ?m) u" using sub by simp_all
    have init: "ms_initialized ?s" and clean: "\<not> ms_dirty ?s" using False by simp_all
    note enq = mailbox_ok_enqueue [OF okm slot' sub' init clean step]
    have m': "m' = m1\<lparr>mb_slots := (mb_slots m1)(u \<mapsto> s'), mb_state_updates := mb_state_updates m1 + 1\<rparr>"
      using False enq(4) by (simp add: m'_def publish_changed_def step')
    have "known (m1\<lparr>mb_slots := (mb_slots m1)(u \<mapsto> s')\<rparr>) = (known m)(u \<mapsto> masked (wanted_offsets (mb_subscription m) u) f)"
      using enq(3-6) good sub
      by (subst known_slot_update [of _ m u s']) (auto simp: slot_good_def)
    moreover have "u \<notin> set (queued_ids m)" using queued_iff [OF ok, of u] slot False by simp
    ultimately show ?thesis using enq(1,2) by (simp add: m')
  qed
qed

lemma publish_slot_refines:
  assumes ok: "mailbox_ok m" and slot: "mb_slots m u = Some s" and sub: "wants (mb_subscription m) u"
    and data: "min (unat len) 512 \<le> length data"
  defines "p \<equiv> payload_on (wanted_offsets (mb_subscription m) u) data (min (unat len) 512)"
  shows "\<exists>r m'. publish_slot u data len sequence now_us s m = Some (r, m') \<and> mailbox_ok m'
     \<and> known m' = (known m)(u \<mapsto> p) \<and> r = (known m u \<noteq> Some p)
     \<and> queued_ids m' = (if \<not> r \<or> u \<in> set (queued_ids m) then queued_ids m else queued_ids m @ [u])"
proof -
  let ?safe = "min (unat len) 512" and ?mask = "wanted_offsets (mb_subscription m) u"
  let ?f = "(ms_held s)\<lparr>df_last_rx_us := now_us, df_sequence := sequence\<rparr>"
  let ?h = "?f\<lparr>df_universe_id := u, df_length := of_nat ?safe,
             df_data := take ?safe data @ replicate (512 - ?safe) 0, df_counter := df_counter ?f + 1\<rparr>"
  have safe: "unat (min len 512) = ?safe" by (simp add: min_def word_le_nat_alt)
  have good: "slot_good m u s" by (rule ok_slot [OF ok slot])
  have hold: "hold_frame u data ?safe ?f = Some ?h"
    using good data by (subst hold_frame_eq) (simp_all add: slot_good_def)
  have shown_h: "masked ?mask ?h = p"
    unfolding p_def by (rule masked_held_payload) (use data in simp_all)
  have frame_h: "frame_good u ?h"
  proof -
    have "unat (of_nat ?safe :: u16) = ?safe" by (simp add: unat_of_nat take_bit_nat_eq_self)
    then show ?thesis using data by (simp add: frame_good_def)
  qed
  note changed = publish_changed_refines [OF ok slot sub frame_h, unfolded shown_h]
  have now_known: "known m u = (if ms_initialized s then Some (masked ?mask (ms_held s)) else None)"
    using sub slot by (simp add: known_eq [OF ok])
  show ?thesis
  proof (cases "ms_initialized s \<and> masked ?mask (ms_held s) = p")
    case True
    then have "frame_good u ?f" using good by (simp add: slot_good_def frame_good_def)
    moreover have "s\<lparr>ms_held := ?f, ms_initialized := True\<rparr> = s\<lparr>ms_held := ?f\<rparr>" using True by (cases s) simp
    ultimately have "mailbox_ok (m\<lparr>mb_slots := (mb_slots m)(u \<mapsto> s\<lparr>ms_held := ?f\<rparr>)\<rparr>)"
      using mailbox_ok_hold [OF ok slot sub, of ?f] by metis
    moreover have "known (m\<lparr>mb_slots := (mb_slots m)(u \<mapsto> s\<lparr>ms_held := ?f\<rparr>)\<rparr>) = (known m)(u \<mapsto> p)"
      using good sub True by (subst known_slot_update [of _ m u "s\<lparr>ms_held := ?f\<rparr>"]) (simp_all add: slot_good_def)
    moreover have "scan_changed ?mask data ?safe (ms_held s) [0..<512] = Some False"
      using good data True by (subst scan_changed_full) (auto simp: slot_good_def frame_good_def p_def)
    ultimately show ?thesis
      using True now_known by (auto simp: publish_slot_def Let_def safe)
  next
    case False
    have "(if \<not> ms_initialized s then Some True else scan_changed ?mask data ?safe (ms_held s) [0..<512]) = Some True"
      using good data False by (auto simp: scan_changed_full slot_good_def frame_good_def p_def)
    then have "publish_slot u data len sequence now_us s m =
        Some (True, publish_changed u (s\<lparr>ms_held := ?h, ms_initialized := True\<rparr>) m)"
      by (simp add: publish_slot_def Let_def safe hold del: scan_changed.simps)
    moreover have "known m u \<noteq> Some p" using False now_known by auto
    ultimately show ?thesis using changed by (intro exI [of _ True]) simp
  qed
qed

lemma publish_refines_step:
  fixes u :: u16
  assumes ok: "mailbox_ok m" and data: "min (unat len) 512 \<le> length data"
  defines "p \<equiv> payload_on (wanted_offsets (mb_subscription m) u) data (min (unat len) 512)"
  shows "\<exists>r m'. publish u (Some data) len sequence now_us m = Some (r, m') \<and> mailbox_ok m'
     \<and> mb_subscription m' = mb_subscription m
     \<and> known m' = (if wants (mb_subscription m) u then (known m)(u \<mapsto> p) else known m)
     \<and> r = (wants (mb_subscription m) u \<and> known m u \<noteq> Some p)
     \<and> queued_ids m' = (if \<not> r \<or> u \<in> set (queued_ids m) then queued_ids m else queued_ids m @ [u])"
proof (cases "wants (mb_subscription m) u")
  case False
  then show ?thesis using ok by (auto simp: publish_def)
next
  case True
  then obtain s where slot: "mb_slots m u = Some s" using ok_wanted [OF ok] by blast
  have gen: "ms_generation s = mb_generation m" using ok_slot [OF ok slot] by (simp add: slot_good_def)
  let ?m = "m\<lparr>mb_relevant := mb_relevant m + 1\<rparr>"
  have "mailbox_ok ?m" "mb_slots ?m u = Some s" "wants (mb_subscription ?m) u" using ok slot True by simp_all
  from publish_slot_refines [OF this data, of sequence now_us]
  obtain r m' where res: "publish_slot u data len sequence now_us s ?m = Some (r, m')" and
    post: "mailbox_ok m'" "known m' = (known ?m)(u \<mapsto> p)" "r = (known ?m u \<noteq> Some p)"
      "queued_ids m' = (if \<not> r \<or> u \<in> set (queued_ids ?m) then queued_ids ?m else queued_ids ?m @ [u])"
    by (auto simp: p_def)
  have "mb_subscription m' = mb_subscription m"
    using res by (auto simp: publish_slot_def Let_def publish_changed_def enqueue_dirty_def split: option.splits if_splits)
  then show ?thesis using res post True slot gen by (simp add: publish_def)
qed

subsection \<open>Replacing the subscription and restarting the session\<close>

definition installed :: "subscription option \<Rightarrow> subscription option \<Rightarrow> u64 \<Rightarrow> u16 \<Rightarrow> mailbox_slot option \<Rightarrow> mailbox_slot option" where
  "installed sub previous g u slot =
     (if wants sub u
      then Some (let s = (case slot of None \<Rightarrow> blank_mailbox_slot | Some s \<Rightarrow> s)
                 in s\<lparr>ms_initialized := (ms_initialized s \<and> \<not> has_new_offsets previous sub u),
                      ms_dirty := False, ms_queued := False, ms_generation := g\<rparr>)
      else map_option (\<lambda>s. s\<lparr>ms_dirty := False, ms_queued := False, ms_generation := g\<rparr>) slot)"

lemma install_slot_fields [simp]:
  "mb_subscription (install_slot sub g u m) = mb_subscription m"
  "mb_generation (install_slot sub g u m) = mb_generation m"
  "mb_ring (install_slot sub g u m) = mb_ring m"
  by (simp_all add: install_slot_def split: option.splits)

lemma install_slot_slots:
  "mb_slots (install_slot sub g u m) = (mb_slots m)(u := installed sub (mb_subscription m) g u (mb_slots m u))"
  by (auto simp: install_slot_def installed_def Let_def fun_eq_iff split: option.splits)

lemma install_fold:
  "distinct us \<Longrightarrow>
     mb_slots (fold (install_slot sub g) us m) =
       (\<lambda>u. if u \<in> set us then installed sub (mb_subscription m) g u (mb_slots m u) else mb_slots m u)
     \<and> mb_subscription (fold (install_slot sub g) us m) = mb_subscription m
     \<and> mb_generation (fold (install_slot sub g) us m) = mb_generation m
     \<and> mb_ring (fold (install_slot sub g) us m) = mb_ring m"
proof (induction us arbitrary: m)
  case (Cons v us)
  then show ?case using Cons.IH [of "install_slot sub g v m"] by (auto simp: install_slot_slots fun_eq_iff)
qed simp

lemma set_subscription_fields:
  assumes "dom (mb_slots m) \<subseteq> {u. unat u < kArtNetUniverseCount}"
  shows "mb_subscription (set_subscription sub m) = sub"
    and "mb_generation (set_subscription sub m) = mb_generation m + 1"
    and "mb_ring (set_subscription sub m) = ring_clear (mb_ring m)"
    and "mb_slots (set_subscription sub m) u = installed sub (mb_subscription m) (mb_generation m + 1) u (mb_slots m u)"
proof -
  let ?g = "mb_generation m + 1"
  let ?m1 = "m\<lparr>mb_generation := ?g, mb_ring := ring_clear (mb_ring m)\<rparr>"
  have le: "kArtNetUniverseCount \<le> 2 ^ LENGTH(16)" by (simp add: kArtNetUniverseCount_def)
  note all_ids = ids_below [OF le]
  note steps = install_fold [OF all_ids(2), of sub ?g ?m1]
  have res: "set_subscription sub m =
      (fold (install_slot sub ?g) (map of_nat [0..<kArtNetUniverseCount]) ?m1)\<lparr>mb_subscription := sub\<rparr>"
    by (simp add: set_subscription_def Let_def)
  show "mb_subscription (set_subscription sub m) = sub"
    and "mb_generation (set_subscription sub m) = ?g"
    and "mb_ring (set_subscription sub m) = ring_clear (mb_ring m)"
    unfolding res using steps by simp_all
  have "mb_slots (set_subscription sub m) u =
      (if unat u < kArtNetUniverseCount then installed sub (mb_subscription m) ?g u (mb_slots m u) else mb_slots m u)"
    unfolding res using steps by (simp add: all_ids(1) del: set_map)
  moreover have "installed sub (mb_subscription m) ?g u (mb_slots m u) = mb_slots m u"
    if "\<not> unat u < kArtNetUniverseCount"
  proof -
    have "mb_slots m u = None" using assms that by blast
    moreover have "\<not> wants sub u" using that by (auto simp: wants_def subscription_contains_def split: option.splits)
    ultimately show ?thesis by (simp add: installed_def)
  qed
  ultimately show "mb_slots (set_subscription sub m) u = installed sub (mb_subscription m) ?g u (mb_slots m u)"
    by simp
qed

lemma slots_in_range: "mailbox_ok m \<Longrightarrow> dom (mb_slots m) \<subseteq> {u. unat u < kArtNetUniverseCount}"
  using ok_slot [of m] by (auto simp: slot_good_def)

lemma wants_in_range: "wants sub u \<Longrightarrow> unat u < kArtNetUniverseCount"
  by (auto simp: wants_def subscription_contains_def split: option.splits)

lemma queued_ids_cleared [simp]: "mb_ring m' = ring_clear r \<Longrightarrow> queued_ids m' = []"
  by (simp add: queued_ids_def ring_clear_def)

lemma installed_good:
  assumes ok: "mailbox_ok m" and slot: "installed sub (mb_subscription m) g u (mb_slots m u) = Some s"
  shows "\<not> ms_dirty s \<and> \<not> ms_queued s \<and> ms_generation s = g \<and> length (df_data (ms_held s)) = 512
     \<and> (ms_initialized s \<longrightarrow> frame_good u (ms_held s)) \<and> unat u < kArtNetUniverseCount"
proof -
  have "length (df_data (ms_held blank_mailbox_slot)) = 512 \<and> \<not> ms_initialized blank_mailbox_slot"
    by (simp add: blank_mailbox_slot_def blank_frame_def kSlotBytes_def)
  then show ?thesis
    using slot ok_slot [OF ok, of u] wants_in_range [of sub u]
    by (cases "mb_slots m u") (auto simp: installed_def Let_def slot_good_def split: if_splits)
qed

lemma set_subscription_ok:
  assumes ok: "mailbox_ok m" and sub: "subscription_ok sub"
  shows "mailbox_ok (set_subscription sub m)"
proof -
  note fields = set_subscription_fields [where sub = sub, OF slots_in_range [OF ok]]
  have "wants sub u \<Longrightarrow> mb_slots (set_subscription sub m) u \<noteq> None" for u
    by (simp add: fields(4) installed_def)
  moreover have "slot_good (set_subscription sub m) u s" if "mb_slots (set_subscription sub m) u = Some s" for u s
    using installed_good [OF ok that [unfolded fields(4)]] by (simp add: slot_good_def fields(1,2))
  moreover have "\<not> ms_queued s" if "mb_slots (set_subscription sub m) u = Some s" for u s
    using installed_good [OF ok that [unfolded fields(4)]] by simp
  moreover have "ring_ok (mb_ring (set_subscription sub m))"
    using ring.invar_empty [OF ok_ring [OF ok]] by (simp add: fields(3))
  moreover have "ring_items (mb_ring (set_subscription sub m)) = []"
    by (simp add: fields(3) ring_clear_def)
  ultimately show ?thesis
    using sub by (auto simp: mailbox_ok_def fields(1,3))
qed

definition remask :: "offset_mask \<Rightarrow> shown_bytes \<Rightarrow> shown_bytes" where
  "remask m k = (\<lambda>i. if bit m i then k i else 0)"

lemma no_new_bits_iff: "m AND NOT (m' :: offset_mask) = 0 \<longleftrightarrow> (\<forall>i. bit m i \<longrightarrow> bit m' i)"
proof -
  have "bit (m AND NOT m') i \<longleftrightarrow> bit m i \<and> \<not> bit m' i" for i
    using bit_imp_le_length [of m i] by (auto simp: bit_and_iff bit_not_iff)
  moreover have "m AND NOT m' = 0 \<longleftrightarrow> (\<forall>i. \<not> bit (m AND NOT m') i)"
    by (metis bit_0_eq bit_eqI bot_apply bot_bool_def)
  ultimately show ?thesis by auto
qed

lemma remask_masked: "m AND NOT (m' :: offset_mask) = 0 \<Longrightarrow> remask m (masked m' f) = masked m f"
  by (auto simp: remask_def masked_def fun_eq_iff no_new_bits_iff)

lemma set_subscription_known:
  assumes ok: "mailbox_ok m" and sub: "subscription_ok sub"
  shows "known (set_subscription sub m) u =
     (if wants sub u \<and> \<not> has_new_offsets (mb_subscription m) sub u
      then map_option (remask (wanted_offsets sub u)) (known m u) else None)"
proof -
  note fields = set_subscription_fields [where sub = sub, OF slots_in_range [OF ok]]
  show ?thesis
  proof (cases "wants sub u \<and> \<not> has_new_offsets (mb_subscription m) sub u")
    case True
    then have prev: "wants (mb_subscription m) u"
      and narrower: "wanted_offsets sub u AND NOT (wanted_offsets (mb_subscription m) u) = 0"
      by (auto simp: has_new_offsets_def)
    obtain s where s: "mb_slots m u = Some s" using ok_wanted [OF ok prev] by blast
    show ?thesis
      using True prev s remask_masked [OF narrower, of "ms_held s"]
      by (simp add: known_eq [OF set_subscription_ok [OF ok sub]] known_eq [OF ok] fields(1,4) installed_def Let_def)
  next
    case False
    then show ?thesis
      by (auto simp: known_eq [OF set_subscription_ok [OF ok sub]] fields(1,4) installed_def Let_def
          blank_mailbox_slot_def split: option.splits)
  qed
qed

lemma reset_session_ok: 
  assumes ok: "mailbox_ok m"
  shows "mailbox_ok (reset_session m)"
proof -
  have "ring_ok (ring_clear (mb_ring m))" by (rule ring.invar_empty [OF ok_ring [OF ok]])
  then show ?thesis
    using ok_subscription [OF ok] ok_wanted [OF ok] ok_slot [OF ok]
    by (auto simp: mailbox_ok_def reset_session_def retire_slot_def slot_good_def queued_ids_def)
qed

lemma reset_session_known: "mailbox_ok m \<Longrightarrow> known (reset_session m) = Map.empty"
  by (intro ext) (auto simp: known_def held_def reset_session_def retire_slot_def split: option.splits)

lemma reset_session_queue: "queued_ids (reset_session m) = []"
  by (simp add: reset_session_def queued_ids_def ring_clear_def)

subsection \<open>Consuming\<close>

lemma consume_one_ok:
  assumes ok: "mailbox_ok m" and queue: "queued_ids m = u # us"
  shows "\<exists>f m'. consume_one m = Some (Some f, m') \<and> held u m = Some f \<and> frame_good u f
     \<and> mailbox_ok m' \<and> (\<forall>v. held v m' = held v m) \<and> known m' = known m
     \<and> mb_subscription m' = mb_subscription m \<and> queued_ids m' = us"
proof -
  let ?r = "mb_ring m"
  have rok: "ring_ok ?r" by (rule ok_ring [OF ok])
  obtain t ts where items: "ring_items ?r = t # ts" and t: "tk_universe t = u" and ts: "map tk_universe ts = us"
    using queue by (auto simp: queued_ids_def)
  then have busy: "ring_items ?r \<noteq> []" by simp
  have front: "ring_front ?r = t" and rest: "ring_items (ring_pop ?r) = ts" and pok: "ring_ok (ring_pop ?r)"
    using ring.items_front [OF rok busy] ring.items_pop [OF rok busy] ring.invar_pop [OF rok busy] items by simp_all
  have count: "tr_count ?r \<noteq> 0" using busy by simp
  have tok: "token_good m t" using ok_token [OF ok] items by simp
  then obtain s where slot: "mb_slots m u = Some s" and s: "ms_queued s" "ms_token_id s = tk_token_id t"
      "tk_generation t = mb_generation m" by (auto simp: token_good_def t)
  have good: "slot_good m u s" by (rule ok_slot [OF ok slot])
  let ?s = "s\<lparr>ms_dirty := False, ms_queued := False\<rparr>"
  let ?m = "m\<lparr>mb_ring := ring_pop ?r, mb_slots := (mb_slots m)(u \<mapsto> ?s)\<rparr>"
  have step: "consume_one m = Some (Some (ms_held s), ?m\<lparr>mb_consumed := mb_consumed m + 1\<rparr>)"
    using count good s slot t by (simp add: consume_one_def consume_token_def front slot_good_def)
  have free: "u \<notin> set us" and dist: "distinct us" using ok_distinct [OF ok] queue by simp_all
  have ids: "queued_ids ?m = us" using rest ts by (simp add: queued_ids_def)
  have "token_good ?m t'" if "t' \<in> set ts" for t'
  proof -
    have "tk_universe t' \<noteq> u" using that free ts by auto
    then show ?thesis using ok_token [OF ok, of t'] that items by (auto simp: token_good_def)
  qed
  moreover have "slot_good ?m v r" if "mb_slots ?m v = Some r" for v r
    using that ok_slot [OF ok, of v r] good by (auto simp: slot_good_def split: if_splits)
  moreover have "v \<in> set us" if "mb_slots ?m v = Some r" "ms_queued r" for v r
    using that ok_queued [OF ok, of v r] queue by (auto split: if_splits)
  moreover have "mb_slots ?m v \<noteq> None" if "wants (mb_subscription m) v" for v
    using that ok_wanted [OF ok, of v] by simp
  ultimately have okm: "mailbox_ok ?m"
    using pok ids dist rest ok_subscription [OF ok] by (simp add: mailbox_ok_def)
  have held_same: "held v ?m = held v m" for v
    using slot by (auto simp: held_def split: option.split)
  then have "known ?m = known m" by (simp add: known_def fun_eq_iff)
  moreover have "held u m = Some (ms_held s)" "frame_good u (ms_held s)"
    using slot good s by (simp_all add: held_eq [OF ok] slot_good_def)
  moreover have "held v (?m\<lparr>mb_consumed := mb_consumed m + 1\<rparr>) = held v ?m" for v
    by (simp add: held_def split: option.split)
  moreover have "known (?m\<lparr>mb_consumed := mb_consumed m + 1\<rparr>) = known ?m"
    by (simp add: known_def held_def fun_eq_iff split: option.split)
  moreover have "queued_ids (?m\<lparr>mb_consumed := mb_consumed m + 1\<rparr>) = us"
    using ids by (simp add: queued_ids_def)
  ultimately show ?thesis
    using step okm held_same by auto
qed

lemma consume_one_empty: "mailbox_ok m \<Longrightarrow> queued_ids m = [] \<Longrightarrow> consume_one m = None"
  by (simp add: consume_one_def queued_ids_def)

lemma consume_loop_ok:
  "mailbox_ok m \<Longrightarrow> n = length (queued_ids m) \<Longrightarrow>
     \<exists>frames m'. consume_loop n m = (frames, m') \<and> map Some frames = map (\<lambda>u. held u m) (queued_ids m)
       \<and> map df_universe_id frames = queued_ids m
       \<and> mailbox_ok m' \<and> (\<forall>v. held v m' = held v m) \<and> known m' = known m
       \<and> mb_subscription m' = mb_subscription m \<and> queued_ids m' = []"
proof (induction n arbitrary: m)
  case (Suc n)
  then obtain u us where queue: "queued_ids m = u # us" and n: "n = length us"
    by (cases "queued_ids m") auto
  obtain f m1 where one: "consume_one m = Some (Some f, m1)" "held u m = Some f" "frame_good u f" "mailbox_ok m1"
      "\<forall>v. held v m1 = held v m" "known m1 = known m" "mb_subscription m1 = mb_subscription m" "queued_ids m1 = us"
    using consume_one_ok [OF Suc.prems(1) queue] by blast
  then obtain fs m' where rest: "consume_loop n m1 = (fs, m')" "map Some fs = map (\<lambda>u. held u m1) us"
      "map df_universe_id fs = us" "mailbox_ok m'" "\<forall>v. held v m' = held v m1" "known m' = known m1"
      "mb_subscription m' = mb_subscription m1" "queued_ids m' = []"
    using Suc.IH [of m1] n by auto
  then show ?case using one queue by (simp add: frame_good_def)
qed (simp add: queued_ids_def)

lemma consume_dirty_frames_ok:
  assumes "mailbox_ok m"
  shows "\<exists>frames m'. consume_dirty_frames m = (frames, m')
     \<and> map Some frames = map (\<lambda>u. held u m) (queued_ids m)
     \<and> map df_universe_id frames = queued_ids m
     \<and> mailbox_ok m' \<and> (\<forall>v. held v m' = held v m) \<and> known m' = known m
     \<and> mb_subscription m' = mb_subscription m \<and> queued_ids m' = []"
  unfolding consume_dirty_frames_def
  by (rule consume_loop_ok [OF assms]) (simp add: queued_ids_def)

lemma mailbox_ok_empty: "mailbox_ok empty_mailbox"
  by (simp add: mailbox_ok_def empty_mailbox_def subscription_ok_def ring_ok_def wants_def queued_ids_def
      ring_items_def kArtNetUniverseCount_def)

lemma subscription_ok_build: "subscription_ok (Some (build_subscription es))"
  using build_universes [of es] build_used_in_range [of es]
  by (auto simp: subscription_ok_def subscription_contains_def)

lemma subscription_ok_None: "subscription_ok None"
  by (simp add: subscription_ok_def)

lemma held_frame_id: "mailbox_ok m \<Longrightarrow> held u m = Some f \<Longrightarrow> frame_good u f \<and> wants (mb_subscription m) u"
  using ok_slot [of m u] by (auto simp: held_eq slot_good_def split: option.splits if_splits)

lemma held_states_eq:
  assumes ok: "mailbox_ok m" and sub: "mb_subscription m = Some sub"
  shows "held_states m = List.map_filter (\<lambda>u. held u m) (sb_universes sub)"
proof -
  let ?sel = "\<lambda>u. case mb_slots m u of None \<Rightarrow> None
            | Some s \<Rightarrow> if ms_initialized s \<and> ms_generation s = mb_generation m then Some (ms_held s) else None"
  have "wants (mb_subscription m) u" if "u \<in> set (sb_universes sub)" for u
    using that ok_subscription [OF ok] by (simp add: subscription_ok_def sub wants_def)
  then have "\<forall>u\<in>set (sb_universes sub). ?sel u = held u m"
    using ok_slot [OF ok] by (auto simp: held_eq [OF ok] slot_good_def split: option.split)
  then have "List.map_filter ?sel (sb_universes sub) = List.map_filter (\<lambda>u. held u m) (sb_universes sub)"
    by (rule map_filter_agree)
  then show ?thesis by (simp add: held_states_def sub)
qed

lemma held_states_ids:
  assumes ok: "mailbox_ok m" and sub: "mb_subscription m = Some sub"
  shows "map df_universe_id (held_states m) = filter (\<lambda>u. held u m \<noteq> None) (sb_universes sub)"
proof -
  have "map df_universe_id (List.map_filter (\<lambda>u. held u m) us) = filter (\<lambda>u. held u m \<noteq> None) us" for us
  proof (induction us)
    case (Cons u us)
    then show ?case
      using held_frame_id [OF ok, of u] by (cases "held u m") (auto simp: List.map_filter_simps frame_good_def)
  qed (simp add: List.map_filter_simps)
  then show ?thesis by (simp add: held_states_eq [OF assms])
qed

lemma held_states_known:
  assumes ok: "mailbox_ok m"
  shows held_states_distinct: "distinct (map df_universe_id (held_states m))"
    and held_states_mem: "f \<in> set (held_states m) \<longleftrightarrow> held (df_universe_id f) m = Some f"
proof -
  show "distinct (map df_universe_id (held_states m))"
    using held_states_ids [OF ok] ok_subscription [OF ok]
    by (cases "mb_subscription m") (simp_all add: subscription_ok_def held_states_def)
  show "f \<in> set (held_states m) \<longleftrightarrow> held (df_universe_id f) m = Some f"
  proof (cases "mb_subscription m")
    case None
    then show ?thesis by (simp add: held_states_def held_eq [OF ok] wants_def)
  next
    case (Some sub)
    have "f \<in> set (held_states m) \<longleftrightarrow> (\<exists>u\<in>set (sb_universes sub). held u m = Some f)"
      by (auto simp: held_states_eq [OF ok Some] List.map_filter_def image_iff)
    moreover have "u \<in> set (sb_universes sub) \<and> df_universe_id f = u" if "held u m = Some f" for u
      using held_frame_id [OF ok that] ok_subscription [OF ok]
      by (simp add: subscription_ok_def Some wants_def frame_good_def)
    ultimately show ?thesis by auto
  qed
qed

text \<open>C2: publishing refines a map update: for a universe the scene wants, its known bytes become the
  packet's bytes on the subscribed offsets (zero past its length) and nothing else changes; the call
  reports true, and the universe is waiting to be consumed (once), exactly when these bytes differ
  from what was known, so the ring never overflows and no change is dropped; for other universes
  nothing changes.\<close>

theorem publish_refines_update:
  assumes "mailbox_ok m" and "min (unat len) 512 \<le> length data"
  shows "\<exists>r m'. publish u (Some data) len sequence now_us m = Some (r, m') \<and> mailbox_ok m'
     \<and> known m' = (if wants (mb_subscription m) u
                   then (known m)(u \<mapsto> payload_on (wanted_offsets (mb_subscription m) u) data (min (unat len) 512))
                   else known m)
     \<and> r = (known m' \<noteq> known m)
     \<and> queued_ids m' = (if \<not> r \<or> u \<in> set (queued_ids m) then queued_ids m else queued_ids m @ [u])"
proof -
  have upd: "((known m)(u \<mapsto> q) \<noteq> known m) = (known m u \<noteq> Some q)" for q
    by (metis fun_upd_same fun_upd_triv)
  obtain r m' where step: "publish u (Some data) len sequence now_us m = Some (r, m')" "mailbox_ok m'"
      "known m' = (if wants (mb_subscription m) u
                   then (known m)(u \<mapsto> payload_on (wanted_offsets (mb_subscription m) u) data (min (unat len) 512))
                   else known m)"
      "r = (wants (mb_subscription m) u \<and>
            known m u \<noteq> Some (payload_on (wanted_offsets (mb_subscription m) u) data (min (unat len) 512)))"
      "queued_ids m' = (if \<not> r \<or> u \<in> set (queued_ids m) then queued_ids m else queued_ids m @ [u])"
    using publish_refines_step [OF assms, of u sequence now_us] by blast
  then have "r = (known m' \<noteq> known m)" by (simp add: upd)
  with step show ?thesis by blast
qed

definition sample_mailbox :: mailbox where
  "sample_mailbox = set_subscription (Some (build_subscription [(3, [0, 1])])) empty_mailbox"

lemma sample_mailbox_ok: "mailbox_ok sample_mailbox"
  unfolding sample_mailbox_def by (rule set_subscription_ok [OF mailbox_ok_empty subscription_ok_build])

theorem publish_refines_update_witness:
  "\<exists>r m'. publish 3 (Some [7, 8, 9]) 3 1 5 sample_mailbox = Some (r, m') \<and> mailbox_ok m'
     \<and> known m' = (if wants (mb_subscription sample_mailbox) 3
                   then (known sample_mailbox)(3 \<mapsto>
                      payload_on (wanted_offsets (mb_subscription sample_mailbox) 3) [7, 8, 9] (min (unat (3 :: u16)) 512))
                   else known sample_mailbox)
     \<and> r = (known m' \<noteq> known sample_mailbox)
     \<and> queued_ids m' = (if \<not> r \<or> 3 \<in> set (queued_ids sample_mailbox) then queued_ids sample_mailbox
                        else queued_ids sample_mailbox @ [3])"
  by (rule publish_refines_update [OF sample_mailbox_ok]) simp

text \<open>Replacing the subscription empties the queue and keeps exactly the knowledge that is still
  valid: a universe wanted before and after, with no offset that was not watched before, stays known
  on its new offsets; every other universe becomes unknown. A session reset forgets everything.\<close>

theorem set_subscription_refines_restriction:
  assumes "mailbox_ok m" and "sub = None \<or> sub = Some (build_subscription es)"
  shows "mailbox_ok (set_subscription sub m) \<and> queued_ids (set_subscription sub m) = []
     \<and> known (set_subscription sub m) =
         (\<lambda>u. if wants sub u \<and> wants (mb_subscription m) u
                 \<and> (\<forall>i. bit (wanted_offsets sub u) i \<longrightarrow> bit (wanted_offsets (mb_subscription m) u) i)
              then map_option (remask (wanted_offsets sub u)) (known m u) else None)
     \<and> mailbox_ok (reset_session m) \<and> queued_ids (reset_session m) = []
     \<and> known (reset_session m) = Map.empty"
proof -
  have sub: "subscription_ok sub" using assms(2) subscription_ok_build subscription_ok_None by auto
  have narrower: "has_new_offsets (mb_subscription m) sub u \<longleftrightarrow> \<not> (wants (mb_subscription m) u
      \<and> (\<forall>i. bit (wanted_offsets sub u) i \<longrightarrow> bit (wanted_offsets (mb_subscription m) u) i))" for u
    by (auto simp: has_new_offsets_def no_new_bits_iff)
  have "queued_ids (set_subscription sub m) = []"
    by (rule queued_ids_cleared) (rule set_subscription_fields(3) [OF slots_in_range [OF assms(1)]])
  then show ?thesis
    using set_subscription_ok [OF assms(1) sub] set_subscription_known [OF assms(1) sub] narrower
      reset_session_ok [OF assms(1)] reset_session_known [OF assms(1)] reset_session_queue
    by (auto simp: fun_eq_iff)
qed

theorem set_subscription_refines_restriction_witness:
  "mailbox_ok (set_subscription None sample_mailbox) \<and> known (reset_session sample_mailbox) = Map.empty"
  using set_subscription_refines_restriction [OF sample_mailbox_ok, of None] by simp

text \<open>Draining the mailbox hands out, in the order the universes became dirty and each once, exactly
  the frame every waiting universe holds at that moment; afterwards nothing is waiting and what is
  known is unchanged.\<close>

theorem consume_dirty_frames_drains:
  assumes "mailbox_ok m"
  shows "\<exists>frames m'. consume_dirty_frames m = (frames, m')
     \<and> map Some frames = map (\<lambda>u. held u m) (queued_ids m)
     \<and> map df_universe_id frames = queued_ids m \<and> distinct (queued_ids m)
     \<and> mailbox_ok m' \<and> pending_dirty_count m' = 0 \<and> known m' = known m
     \<and> (\<forall>v. held v m' = held v m)"
proof -
  have "pending_dirty_count m' = length (queued_ids m')" for m'
    by (simp add: pending_dirty_count_def queued_ids_def)
  then show ?thesis
    using consume_dirty_frames_ok [OF assms] ok_distinct [OF assms] by auto
qed

theorem consume_dirty_frames_drains_witness:
  "\<exists>frames m'. consume_dirty_frames sample_mailbox = (frames, m') \<and> pending_dirty_count m' = 0"
  using consume_dirty_frames_drains [OF sample_mailbox_ok] by auto

end
