(* ===== verification/Capture_Budget.thy ===== *)
theory Capture_Budget
  imports Prelude
begin

text \<open>
  The allowance of full-payload captures for the Technical Monitor
  (\<open>dmx/monitor_capture_budget.cpp\<close>): at most \<open>limit\<close> captures per socket drain, and no two within the
  minimum interval. The arithmetic on times is 64-bit and wraps.
\<close>

record capture_budget =
  cb_limit :: u32
  cb_remaining :: u32
  cb_minimum_interval_us :: u64
  cb_next_capture_us :: u64

definition new_budget :: "u32 \<Rightarrow> u64 \<Rightarrow> capture_budget" where
  "new_budget captures_per_drain minimum_interval_us =
     \<lparr>cb_limit = captures_per_drain, cb_remaining = captures_per_drain,
      cb_minimum_interval_us = minimum_interval_us, cb_next_capture_us = 0\<rparr>"

definition default_budget :: capture_budget where
  "default_budget = new_budget 4 1000"

definition begin_drain :: "capture_budget \<Rightarrow> capture_budget" where
  "begin_drain b = b\<lparr>cb_remaining := cb_limit b\<rparr>"

definition try_acquire :: "u64 \<Rightarrow> capture_budget \<Rightarrow> bool \<times> capture_budget" where
  "try_acquire now_us b =
     (if cb_remaining b = 0 \<or> now_us < cb_next_capture_us b then (False, b)
      else (True, b\<lparr>cb_remaining := cb_remaining b - 1,
                    cb_next_capture_us := now_us + cb_minimum_interval_us b\<rparr>))"

text \<open>A history of drains, each with the times at which captures were requested, and the times granted
  in each drain.\<close>

fun requests :: "u64 list \<Rightarrow> capture_budget \<Rightarrow> u64 list \<times> capture_budget" where
  "requests [] b = ([], b)"
| "requests (t # ts) b =
     (let (granted, b1) = try_acquire t b; (rest, b2) = requests ts b1
      in (if granted then t # rest else rest, b2))"

fun drains :: "u64 list list \<Rightarrow> capture_budget \<Rightarrow> u64 list list \<times> capture_budget" where
  "drains [] b = ([], b)"
| "drains (ts # tss) b =
     (let (granted, b1) = requests ts (begin_drain b); (rest, b2) = drains tss b1
      in (granted # rest, b2))"

lemma try_acquire_fields [simp]:
  "cb_limit (snd (try_acquire t b)) = cb_limit b"
  "cb_minimum_interval_us (snd (try_acquire t b)) = cb_minimum_interval_us b"
  by (simp_all add: try_acquire_def)

lemma try_acquire_granted:
  "fst (try_acquire t b) \<Longrightarrow> cb_remaining b \<noteq> 0 \<and> unat (cb_next_capture_us b) \<le> unat t
     \<and> cb_remaining (snd (try_acquire t b)) = cb_remaining b - 1
     \<and> cb_next_capture_us (snd (try_acquire t b)) = t + cb_minimum_interval_us b"
  by (cases "cb_remaining b = 0 \<or> t < cb_next_capture_us b") (simp_all add: try_acquire_def word_less_nat_alt)

lemma try_acquire_refused: "\<not> fst (try_acquire t b) \<Longrightarrow> snd (try_acquire t b) = b"
  by (cases "cb_remaining b = 0 \<or> t < cb_next_capture_us b") (simp_all add: try_acquire_def)

lemma requests_fields:
  "cb_limit (snd (requests ts b)) = cb_limit b \<and> cb_minimum_interval_us (snd (requests ts b)) = cb_minimum_interval_us b"
  by (induction ts arbitrary: b) (simp_all add: split_def Let_def)

lemma requests_limit: "length (fst (requests ts b)) \<le> unat (cb_remaining b)"
proof (induction ts arbitrary: b)
  case (Cons t ts)
  show ?case
  proof (cases "fst (try_acquire t b)")
    case True
    then have "cb_remaining b \<noteq> 0" and "cb_remaining (snd (try_acquire t b)) = cb_remaining b - 1"
      by (simp_all add: try_acquire_granted)
    then have "Suc (unat (cb_remaining (snd (try_acquire t b)))) = unat (cb_remaining b)"
      by (metis Suc_pred' unat_gt_0 unat_minus_one)
    then show ?thesis using Cons.IH [of "snd (try_acquire t b)"] True
      by (simp add: split_def Let_def)
  next
    case False
    then have "snd (try_acquire t b) = b" by (rule try_acquire_refused)
    then show ?thesis using Cons.IH [of "snd (try_acquire t b)"] False
      by (simp add: split_def Let_def)
  qed
qed simp

text \<open>Grants stay at or after the next capture time, which moves with them.\<close>

definition spaced :: "nat \<Rightarrow> nat \<Rightarrow> u64 list \<Rightarrow> bool" where
  "spaced d from ts \<longleftrightarrow> (\<forall>t\<in>set ts. from \<le> unat t) \<and> sorted_wrt (\<lambda>a b. unat a + d \<le> unat b) ts"

lemma spaced_append:
  "spaced d from xs \<Longrightarrow> spaced d from' ys \<Longrightarrow> from \<le> from' \<Longrightarrow> \<forall>x\<in>set xs. unat x + d \<le> from' \<Longrightarrow>
     spaced d from (xs @ ys)"
  by (fastforce simp: spaced_def sorted_wrt_append)

lemma requests_spaced:
  assumes "\<forall>t\<in>set ts. unat t + unat (cb_minimum_interval_us b) < 2 ^ 64"
  shows "spaced (unat (cb_minimum_interval_us b)) (unat (cb_next_capture_us b)) (fst (requests ts b))
     \<and> unat (cb_next_capture_us b) \<le> unat (cb_next_capture_us (snd (requests ts b)))
     \<and> (\<forall>t\<in>set (fst (requests ts b)).
          unat t + unat (cb_minimum_interval_us b) \<le> unat (cb_next_capture_us (snd (requests ts b))))"
  using assms
proof (induction ts arbitrary: b)
  case (Cons t ts)
  let ?d = "unat (cb_minimum_interval_us b)" and ?b1 = "snd (try_acquire t b)"
  note IH = Cons.IH [of ?b1]
  show ?case
  proof (cases "fst (try_acquire t b)")
    case True
    then have late: "unat (cb_next_capture_us b) \<le> unat t" and "cb_next_capture_us ?b1 = t + cb_minimum_interval_us b"
      by (simp_all add: try_acquire_granted)
    moreover have "unat (t + cb_minimum_interval_us b) = unat t + ?d"
      using Cons.prems by (simp add: unat_add_lem [THEN iffD1])
    ultimately have "unat (cb_next_capture_us ?b1) = unat t + ?d" by simp
    then show ?thesis using IH Cons.prems True late
      by (auto simp: split_def Let_def spaced_def)
  next
    case False
    then have "?b1 = b" by (rule try_acquire_refused)
    then show ?thesis using IH Cons.prems False by (simp add: split_def Let_def)
  qed
qed (simp add: spaced_def)

lemma drains_spaced:
  assumes "\<forall>ts\<in>set tss. \<forall>t\<in>set ts. unat t + unat (cb_minimum_interval_us b) < 2 ^ 64"
  shows "spaced (unat (cb_minimum_interval_us b)) (unat (cb_next_capture_us b)) (concat (fst (drains tss b)))"
  using assms
proof (induction tss arbitrary: b)
  case (Cons ts tss)
  let ?r = "requests ts (begin_drain b)"
  have keep: "cb_minimum_interval_us (begin_drain b) = cb_minimum_interval_us b"
    "cb_next_capture_us (begin_drain b) = cb_next_capture_us b"
    by (simp_all add: begin_drain_def)
  have here: "spaced (unat (cb_minimum_interval_us b)) (unat (cb_next_capture_us b)) (fst ?r)
     \<and> unat (cb_next_capture_us b) \<le> unat (cb_next_capture_us (snd ?r))
     \<and> (\<forall>t\<in>set (fst ?r). unat t + unat (cb_minimum_interval_us b) \<le> unat (cb_next_capture_us (snd ?r)))"
    using requests_spaced [of ts "begin_drain b"] Cons.prems by (simp add: keep)
  have interval: "cb_minimum_interval_us (snd ?r) = cb_minimum_interval_us b"
    using requests_fields [of ts "begin_drain b"] by (simp add: keep)
  have "spaced (unat (cb_minimum_interval_us b)) (unat (cb_next_capture_us (snd ?r))) (concat (fst (drains tss (snd ?r))))"
    using Cons.IH [of "snd ?r"] Cons.prems by (simp add: interval)
  then show ?case using here spaced_append by (simp add: split_def Let_def)
qed (simp add: spaced_def)

lemma drains_limit: "\<forall>granted\<in>set (fst (drains tss b)). length granted \<le> unat (cb_limit b)"
proof (induction tss arbitrary: b)
  case (Cons ts tss)
  have "cb_limit (snd (requests ts (begin_drain b))) = cb_limit b"
    using requests_fields [of ts "begin_drain b"] by (simp add: begin_drain_def)
  moreover have "length (fst (requests ts (begin_drain b))) \<le> unat (cb_limit b)"
    using requests_limit [of ts "begin_drain b"] by (simp add: begin_drain_def)
  ultimately show ?case
    using Cons.IH [of "snd (requests ts (begin_drain b))"]
    by (simp add: split_def Let_def)
qed simp

text \<open>Over any history of socket drains, whatever the order of the request times, a drain is granted
  at most the configured number of captures, and any two grants, in the same drain or in different
  ones, are at least the minimum interval apart, as long as no request time is within the interval of
  the 64-bit limit.\<close>

theorem captures_are_rate_limited:
  assumes "\<forall>ts\<in>set tss. \<forall>t\<in>set ts. unat t + unat (cb_minimum_interval_us b) < 2 ^ 64"
  shows "(\<forall>granted\<in>set (fst (drains tss b)). length granted \<le> unat (cb_limit b))
     \<and> sorted_wrt (\<lambda>s t. unat s + unat (cb_minimum_interval_us b) \<le> unat t) (concat (fst (drains tss b)))"
  using drains_limit drains_spaced [OF assms] by (simp add: spaced_def)

theorem captures_are_rate_limited_witness:
  "fst (drains [[5, 6, 1005], [1500, 2005]] default_budget) = [[5, 1005], [2005]]
   \<and> sorted_wrt (\<lambda>s t. unat s + unat (cb_minimum_interval_us default_budget) \<le> unat t)
       (concat (fst (drains [[5, 6, 1005], [1500, 2005]] default_budget)))"
proof -
  have "\<forall>ts\<in>set [[5, 6, 1005], [1500, 2005 :: u64]]. \<forall>t\<in>set ts.
      unat t + unat (cb_minimum_interval_us default_budget) < 2 ^ 64"
    by (simp add: default_budget_def new_budget_def)
  from captures_are_rate_limited [OF this] show ?thesis
    by (simp add: default_budget_def new_budget_def try_acquire_def begin_drain_def)
qed

end
