(* ===== verification/Receiver.thy ===== *)
theory Receiver
  imports ArtNet_Packet Sequence_Tracker Metadata_Cache Universe_Cache Mailbox_Refinement Capture_Budget
begin

text \<open>
  The Art-Net receiver (\<open>dmx/artnet_receiver.cpp\<close>), which composes the parser, the sequence tracker, the
  two caches, the realtime mailbox and the capture budget. The UDP socket is not modelled: what its
  calls return is the input of \<open>start\<close> and of the receive loop. The clock reading of an accepted packet
  comes with its datagram. \<^term>\<open>None\<close> is undefined behaviour in one of the components.
\<close>

record receiver =
  rx_running :: bool
  rx_last_error :: string
  rx_tracker :: tracker
  rx_cache :: universe_cache
  rx_metadata :: metadata_cache
  rx_mailbox :: mailbox
  rx_budget :: capture_budget
  rx_monitor_session :: u64
  rx_packets_received :: u64
  rx_valid_artdmx_packets :: u64
  rx_ignored_malformed :: u64
  rx_dropped_out_of_order :: u64
  rx_valid_artdmx_accepted :: u64
  rx_source_changes :: u64
  rx_monitor_captures :: u64
  rx_monitor_skipped :: u64
  rx_drain_wakes :: u64
  rx_max_drained :: u64
  rx_last_packet_us :: u64
  rx_second_window_us :: u64
  rx_packets_in_window :: u32
  rx_accepted_per_second :: u32

definition new_receiver :: receiver where
  "new_receiver = \<lparr>rx_running = False, rx_last_error = [], rx_tracker = Map.empty,
     rx_cache = empty_universe_cache, rx_metadata = empty_metadata_cache, rx_mailbox = empty_mailbox,
     rx_budget = default_budget, rx_monitor_session = 0, rx_packets_received = 0,
     rx_valid_artdmx_packets = 0, rx_ignored_malformed = 0, rx_dropped_out_of_order = 0,
     rx_valid_artdmx_accepted = 0, rx_source_changes = 0, rx_monitor_captures = 0, rx_monitor_skipped = 0,
     rx_drain_wakes = 0, rx_max_drained = 0, rx_last_packet_us = 0, rx_second_window_us = 0,
     rx_packets_in_window = 0, rx_accepted_per_second = 0\<rparr>"

text \<open>The error each socket call reports, \<^term>\<open>None\<close> for success.\<close>

record socket_results =
  so_initializer :: "string option"
  so_open_and_bind :: "string option"
  so_set_non_blocking :: "string option"
  so_set_receive_buffer :: "string option"

definition first_error :: "string option list \<Rightarrow> string option" where
  "first_error es = (case filter (\<lambda>e. e \<noteq> None) es of [] \<Rightarrow> None | e # _ \<Rightarrow> e)"

definition start :: "socket_results \<Rightarrow> receiver \<Rightarrow> bool \<times> receiver" where
  "start so r =
     (if rx_running r then (True, r)
      else case so_initializer so of
        Some msg \<Rightarrow> (False, r\<lparr>rx_last_error := msg\<rparr>)
      | None \<Rightarrow>
          (case first_error [so_open_and_bind so, so_set_non_blocking so, so_set_receive_buffer so] of
             Some msg \<Rightarrow> (False, r\<lparr>rx_last_error := msg\<rparr>)
           | None \<Rightarrow> (True, r\<lparr>rx_last_error := [], rx_tracker := reset_tracker (rx_tracker r), rx_running := True\<rparr>)))"

definition stop :: "receiver \<Rightarrow> receiver" where
  "stop r = r\<lparr>rx_running := False, rx_mailbox := reset_session (rx_mailbox r)\<rparr>"

definition set_monitor_capture_enabled :: "bool \<Rightarrow> receiver \<Rightarrow> receiver" where
  "set_monitor_capture_enabled enabled r =
     (if \<not> enabled then r\<lparr>rx_monitor_session := 0\<rparr>
      else if rx_monitor_session r = 0
      then (let (session, c) = begin_capture_session (rx_cache r)
            in r\<lparr>rx_cache := c, rx_monitor_session := session\<rparr>)
      else r)"

definition should_accept_frame :: "frame_view \<Rightarrow> endpoint \<Rightarrow> receiver \<Rightarrow> bool \<times> receiver" where
  "should_accept_frame f ep r =
     (let (decision, t) = accept (rx_tracker r) (fv_universe_id f) (fv_sequence f) ep;
          r1 = r\<lparr>rx_tracker := t\<rparr>
      in (sd_accepted decision,
          if sd_source_changed decision then r1\<lparr>rx_source_changes := rx_source_changes r1 + 1\<rparr> else r1))"

definition record_packet_time :: "u64 \<Rightarrow> receiver \<Rightarrow> receiver" where
  "record_packet_time packet_time_us r =
     (let r1 = r\<lparr>rx_last_packet_us := packet_time_us\<rparr>;
          window_start = rx_second_window_us r1
      in if window_start = 0
         then r1\<lparr>rx_second_window_us := packet_time_us, rx_packets_in_window := 1\<rparr>
         else if packet_time_us - window_start \<ge> 1000000
         then r1\<lparr>rx_accepted_per_second := rx_packets_in_window r1, rx_second_window_us := packet_time_us,
                 rx_packets_in_window := 1\<rparr>
         else r1\<lparr>rx_packets_in_window := rx_packets_in_window r1 + 1\<rparr>)"

definition capture_frame :: "frame_view \<Rightarrow> u64 \<Rightarrow> receiver \<Rightarrow> receiver option" where
  "capture_frame f packet_time_us r =
     (if rx_monitor_session r = 0 then Some r
      else
        let (granted, b) = try_acquire packet_time_us (rx_budget r);
            r1 = r\<lparr>rx_budget := b\<rparr>
        in if granted
           then map_option (\<lambda>c. r1\<lparr>rx_cache := c, rx_monitor_captures := rx_monitor_captures r1 + 1\<rparr>)
                  (write_frame (rx_cache r1) (fv_universe_id f)
                     \<lparr>fw_data = Some (fv_data f), fw_length = fv_length f, fw_sequence = fv_sequence f,
                      fw_now_us = packet_time_us, fw_capture_generation = rx_monitor_session r1\<rparr>)
           else Some (r1\<lparr>rx_monitor_skipped := rx_monitor_skipped r1 + 1\<rparr>))"

definition accept_packet :: "frame_view \<Rightarrow> endpoint \<Rightarrow> u64 \<Rightarrow> receiver \<Rightarrow> receiver option" where
  "accept_packet f ep packet_time_us r =
     do {
       md \<leftarrow> observe (rx_metadata r) (fv_universe_id f)
               \<lparr>ob_length = fv_length f, ob_sequence = fv_sequence f, ob_now_us = packet_time_us,
                ob_source_ipv4 = ep_ipv4 ep, ob_source_port = ep_port ep\<rparr>;
       (_, mb) \<leftarrow> publish (fv_universe_id f) (Some (fv_data f)) (fv_length f) (fv_sequence f) packet_time_us (rx_mailbox r);
       r1 \<leftarrow> capture_frame f packet_time_us (r\<lparr>rx_metadata := md, rx_mailbox := mb\<rparr>);
       Some (record_packet_time packet_time_us (r1\<lparr>rx_valid_artdmx_accepted := rx_valid_artdmx_accepted r1 + 1\<rparr>))
     }"

text \<open>One pass of the inner loop over a received datagram.\<close>

definition process_datagram :: "u8 list \<Rightarrow> endpoint \<Rightarrow> u64 \<Rightarrow> receiver \<Rightarrow> receiver option" where
  "process_datagram bytes ep packet_time_us r =
     (let r1 = r\<lparr>rx_packets_received := rx_packets_received r + 1\<rparr> in
      case parse_artdmx (Some bytes) of
        None \<Rightarrow> Some (r1\<lparr>rx_ignored_malformed := rx_ignored_malformed r1 + 1\<rparr>)
      | Some f \<Rightarrow>
          let r2 = r1\<lparr>rx_valid_artdmx_packets := rx_valid_artdmx_packets r1 + 1\<rparr>;
              (accepted, r3) = should_accept_frame f ep r2
          in if \<not> accepted then Some (r3\<lparr>rx_dropped_out_of_order := rx_dropped_out_of_order r3 + 1\<rparr>)
             else accept_packet f ep packet_time_us r3)"

text \<open>What one iteration of the inner loop sees: the stop flag, a socket error, no data (also a datagram
  without bytes), or a datagram with its sender and the clock reading.\<close>

datatype recv_event =
    Recv_stopped
  | Recv_error string
  | Recv_empty
  | Recv_datagram "u8 list" endpoint u64

fun drain_socket :: "recv_event list \<Rightarrow> u64 \<Rightarrow> receiver \<Rightarrow> (u64 \<times> receiver) option" where
  "drain_socket [] datagrams_drained r = Some (datagrams_drained, r)"
| "drain_socket (Recv_stopped # es) datagrams_drained r = Some (datagrams_drained, r)"
| "drain_socket (Recv_error msg # es) datagrams_drained r = Some (datagrams_drained, r\<lparr>rx_last_error := msg\<rparr>)"
| "drain_socket (Recv_empty # es) datagrams_drained r = Some (datagrams_drained, r)"
| "drain_socket (Recv_datagram bytes ep t # es) datagrams_drained r =
     (if bytes = [] then Some (datagrams_drained, r)
      else case process_datagram bytes ep t r of
             None \<Rightarrow> None
           | Some r' \<Rightarrow> drain_socket es (datagrams_drained + 1) r')"

datatype wait_event =
    Wait_error string
  | Not_readable
  | Readable "recv_event list"

definition wake :: "wait_event \<Rightarrow> receiver \<Rightarrow> receiver option" where
  "wake e r =
     (case e of
        Wait_error msg \<Rightarrow> Some (r\<lparr>rx_last_error := msg\<rparr>)
      | Not_readable \<Rightarrow> Some r
      | Readable es \<Rightarrow>
          map_option (\<lambda>(drained, r'). if drained > rx_max_drained r' then r'\<lparr>rx_max_drained := drained\<rparr> else r')
            (drain_socket es 0 (r\<lparr>rx_drain_wakes := rx_drain_wakes r + 1, rx_budget := begin_drain (rx_budget r)\<rparr>)))"

fun run :: "wait_event list \<Rightarrow> receiver \<Rightarrow> receiver option" where
  "run [] r = Some r"
| "run (e # es) r = (case wake e r of None \<Rightarrow> None | Some r' \<Rightarrow> run es r')"

subsection \<open>Safety\<close>

definition receiver_ok :: "receiver \<Rightarrow> bool" where
  "receiver_ok r \<longleftrightarrow> cache_ok (rx_cache r) \<and> mailbox_ok (rx_mailbox r) \<and> metadata_dir.consistent (rx_metadata r)"

definition view_ok :: "frame_view \<Rightarrow> bool" where
  "view_ok f \<longleftrightarrow> min (unat (fv_length f)) 512 \<le> length (fv_data f)"

lemma parsed_view_ok: "parse_artdmx packet = Some f \<Longrightarrow> view_ok f"
  using parsed_data [of packet f] by (simp add: view_ok_def)

lemma receiver_ok_updates [simp]:
  "receiver_ok (r\<lparr>rx_packets_received := n\<rparr>) = receiver_ok r"
  "receiver_ok (r\<lparr>rx_valid_artdmx_packets := n\<rparr>) = receiver_ok r"
  "receiver_ok (r\<lparr>rx_ignored_malformed := n\<rparr>) = receiver_ok r"
  "receiver_ok (r\<lparr>rx_dropped_out_of_order := n\<rparr>) = receiver_ok r"
  "receiver_ok (r\<lparr>rx_valid_artdmx_accepted := n\<rparr>) = receiver_ok r"
  "receiver_ok (r\<lparr>rx_last_error := msg\<rparr>) = receiver_ok r"
  "receiver_ok (r\<lparr>rx_max_drained := n\<rparr>) = receiver_ok r"
  "receiver_ok (r\<lparr>rx_drain_wakes := n, rx_budget := b\<rparr>) = receiver_ok r"
  by (simp_all add: receiver_ok_def)

lemma should_accept_frame_keeps:
  "receiver_ok (snd (should_accept_frame f ep r)) = receiver_ok r"
  "fst (should_accept_frame f ep r) = sd_accepted (fst (accept (rx_tracker r) (fv_universe_id f) (fv_sequence f) ep))"
  by (simp_all add: should_accept_frame_def receiver_ok_def split_def Let_def)

lemma record_packet_time_keeps [simp]:
  "receiver_ok (record_packet_time t r) = receiver_ok r"
  "rx_mailbox (record_packet_time t r) = rx_mailbox r" "rx_metadata (record_packet_time t r) = rx_metadata r"
  "rx_cache (record_packet_time t r) = rx_cache r"
  by (simp_all add: record_packet_time_def receiver_ok_def Let_def)

lemma capture_frame_defined:
  assumes ok: "receiver_ok r" and f: "view_ok f"
  shows "\<exists>r'. capture_frame f t r = Some r' \<and> receiver_ok r' \<and> rx_mailbox r' = rx_mailbox r
     \<and> rx_metadata r' = rx_metadata r \<and> rx_tracker r' = rx_tracker r"
proof -
  have cache: "cache_ok (rx_cache r)" using ok by (simp add: receiver_ok_def)
  let ?w = "\<lparr>fw_data = Some (fv_data f), fw_length = fv_length f, fw_sequence = fv_sequence f,
      fw_now_us = t, fw_capture_generation = rx_monitor_session r\<rparr>"
  have "\<exists>c'. write_frame (rx_cache r) (fv_universe_id f) ?w = Some c' \<and> cache_ok c'"
  proof (cases "unat (fv_universe_id f) < kUniverseSlots")
    case True
    then show ?thesis
      using write_frame_slot [OF cache True, of ?w "fv_data f"] f by (auto simp: clamped_def view_ok_def)
  qed (simp add: write_frame_def cache)
  then show ?thesis
    using ok by (auto simp: capture_frame_def receiver_ok_def split_def Let_def)
qed

lemma observe_defined:
  assumes "metadata_dir.consistent c"
  shows "observe c u ob = None \<longleftrightarrow> kUniverseSlots \<le> unat u"
    and "observe c u ob = Some c' \<Longrightarrow> metadata_dir.consistent c'"
  using observe_Some_iff [of c u ob] metadata_dir.consistent_put [OF _ assms]
  by (auto simp: not_le)

lemma accept_packet_defined:
  assumes ok: "receiver_ok r" and f: "view_ok f"
  shows "accept_packet f ep t r = None \<longleftrightarrow> kUniverseSlots \<le> unat (fv_universe_id f)"
    and "accept_packet f ep t r = Some r' \<Longrightarrow> receiver_ok r'"
proof -
  let ?u = "fv_universe_id f"
  let ?ob = "\<lparr>ob_length = fv_length f, ob_sequence = fv_sequence f, ob_now_us = t,
      ob_source_ipv4 = ep_ipv4 ep, ob_source_port = ep_port ep\<rparr>"
  have md: "metadata_dir.consistent (rx_metadata r)" and mb: "mailbox_ok (rx_mailbox r)"
    using ok by (simp_all add: receiver_ok_def)
  obtain x mb' where pub: "publish ?u (Some (fv_data f)) (fv_length f) (fv_sequence f) t (rx_mailbox r) = Some (x, mb')"
      and mb': "mailbox_ok mb'"
    using publish_refines_step [OF mb, of "fv_length f" "fv_data f" ?u "fv_sequence f" t] f by (auto simp: view_ok_def)
  have rest: "\<exists>r1. capture_frame f t (r\<lparr>rx_metadata := c, rx_mailbox := mb'\<rparr>) = Some r1 \<and> receiver_ok r1"
    if "observe (rx_metadata r) ?u ?ob = Some c" for c
    using capture_frame_defined [OF _ f, of "r\<lparr>rx_metadata := c, rx_mailbox := mb'\<rparr>" t]
      observe_defined(2) [OF md that] ok mb' by (auto simp: receiver_ok_def)
  show "accept_packet f ep t r = None \<longleftrightarrow> kUniverseSlots \<le> unat ?u"
    using rest observe_defined(1) [OF md, of ?u ?ob] pub
    by (cases "observe (rx_metadata r) ?u ?ob") (auto simp: accept_packet_def)
  show "accept_packet f ep t r = Some r' \<Longrightarrow> receiver_ok r'"
    using rest pub by (cases "observe (rx_metadata r) ?u ?ob") (auto simp: accept_packet_def)
qed

lemma process_datagram_cases:
  "process_datagram bytes ep t r =
     (let r1 = r\<lparr>rx_packets_received := rx_packets_received r + 1\<rparr> in
      case parse_artdmx (Some bytes) of
        None \<Rightarrow> Some (r1\<lparr>rx_ignored_malformed := rx_ignored_malformed r1 + 1\<rparr>)
      | Some f \<Rightarrow>
          let r3 = snd (should_accept_frame f ep (r1\<lparr>rx_valid_artdmx_packets := rx_valid_artdmx_packets r1 + 1\<rparr>))
          in if sd_accepted (fst (accept (rx_tracker r) (fv_universe_id f) (fv_sequence f) ep))
             then accept_packet f ep t r3
             else Some (r3\<lparr>rx_dropped_out_of_order := rx_dropped_out_of_order r3 + 1\<rparr>))"
  by (auto simp: process_datagram_def Let_def split_def should_accept_frame_keeps split: option.split)

lemma process_datagram_safe:
  assumes ok: "receiver_ok r"
  shows "process_datagram bytes ep t r = None \<longleftrightarrow>
      (\<exists>f. parse_artdmx (Some bytes) = Some f \<and> kUniverseSlots \<le> unat (fv_universe_id f)
         \<and> sd_accepted (fst (accept (rx_tracker r) (fv_universe_id f) (fv_sequence f) ep)))"
    and "process_datagram bytes ep t r = Some r' \<Longrightarrow> receiver_ok r'"
proof -
  let ?r3 = "\<lambda>f. snd (should_accept_frame f ep (r\<lparr>rx_packets_received := rx_packets_received r + 1,
       rx_valid_artdmx_packets := rx_valid_artdmx_packets r + 1\<rparr>))"
  have r3: "receiver_ok (?r3 f)" for f using ok by (simp add: should_accept_frame_keeps)
  show "process_datagram bytes ep t r = None \<longleftrightarrow>
      (\<exists>f. parse_artdmx (Some bytes) = Some f \<and> kUniverseSlots \<le> unat (fv_universe_id f)
         \<and> sd_accepted (fst (accept (rx_tracker r) (fv_universe_id f) (fv_sequence f) ep)))"
    using accept_packet_defined(1) [where ep = ep and t = t, OF r3 parsed_view_ok]
    by (auto simp: process_datagram_cases Let_def split: option.split)
  show "process_datagram bytes ep t r = Some r' \<Longrightarrow> receiver_ok r'"
    using accept_packet_defined(2) [where ep = ep and t = t, OF r3 parsed_view_ok] ok r3
    by (auto simp: process_datagram_cases Let_def split: option.splits if_splits)
qed

text \<open>C36: the receiver indexes outside its metadata table exactly when a datagram parses as ArtDmx, passes
  the sequence check and carries a port address of 32768 or more (its net byte has the top bit set,
  which Art-Net reserves as zero but the parser does not check); every other datagram is processed
  without undefined behaviour, and the caches and the mailbox stay well formed.\<close>

theorem receiver_out_of_bounds_iff:
  assumes "receiver_ok r"
  shows "(process_datagram bytes ep t r = None) =
      (\<exists>f. parse_artdmx (Some bytes) = Some f \<and> 128 \<le> unat (bytes ! 15)
         \<and> sd_accepted (fst (accept (rx_tracker r) (fv_universe_id f) (fv_sequence f) ep)))
    \<and> (\<forall>r'. process_datagram bytes ep t r = Some r' \<longrightarrow> receiver_ok r')"
proof -
  have "kUniverseSlots \<le> unat (fv_universe_id f) \<longleftrightarrow> 128 \<le> unat (bytes ! 15)"
    if "parse_artdmx (Some bytes) = Some f" for f
  proof -
    have "unat (fv_universe_id f) = 256 * unat (bytes ! 15) + unat (bytes ! 14)"
      using that by (auto simp: parse_artdmx_Some unat_two_bytes)
    then show ?thesis using unat_byte_less [of "bytes ! 14"] by (simp add: kUniverseSlots_def) linarith
  qed
  then show ?thesis using process_datagram_safe [OF assms] by auto
qed

lemma receiver_ok_new: "receiver_ok new_receiver"
  using mailbox_ok_empty
  by (simp add: receiver_ok_def new_receiver_def cache_ok_def empty_universe_cache_def)

definition high_net_datagram :: "u8 list" where
  "high_net_datagram = artdmx_datagram 14 0 0 0 128 []"

theorem receiver_out_of_bounds_iff_witness:
  "process_datagram high_net_datagram \<lparr>ep_ipv4 = 1, ep_port = 2\<rparr> 5 new_receiver = None"
proof -
  have "is_artdmx high_net_datagram" and "high_net_datagram ! 15 = 128"
    by (simp_all add: high_net_datagram_def artdmx_datagram_def is_artdmx_def kArtNetHeader_def)
  then have "\<exists>f. parse_artdmx (Some high_net_datagram) = Some f" by (simp add: parse_artdmx_eq)
  moreover have "sd_accepted (fst (accept (rx_tracker new_receiver) u q ep))" for u q ep
    by (simp add: accept_def new_receiver_def state_of_def default_stream_def Let_def)
  ultimately show ?thesis
    using receiver_out_of_bounds_iff [OF receiver_ok_new, of high_net_datagram "\<lparr>ep_ipv4 = 1, ep_port = 2\<rparr>" 5]
      \<open>high_net_datagram ! 15 = 128\<close> by auto
qed

subsection \<open>Accounting\<close>

definition balanced :: "receiver \<Rightarrow> bool" where
  "balanced r \<longleftrightarrow> rx_packets_received r = rx_ignored_malformed r + rx_valid_artdmx_packets r
     \<and> rx_valid_artdmx_packets r = rx_dropped_out_of_order r + rx_valid_artdmx_accepted r"

lemma capture_frame_counters:
  "capture_frame f t r = Some r' \<Longrightarrow> rx_packets_received r' = rx_packets_received r
     \<and> rx_ignored_malformed r' = rx_ignored_malformed r \<and> rx_valid_artdmx_packets r' = rx_valid_artdmx_packets r
     \<and> rx_dropped_out_of_order r' = rx_dropped_out_of_order r
     \<and> rx_valid_artdmx_accepted r' = rx_valid_artdmx_accepted r"
  by (auto simp: capture_frame_def split_def Let_def split: if_splits)

lemma should_accept_frame_counters:
  "rx_packets_received (snd (should_accept_frame f ep r)) = rx_packets_received r"
  "rx_ignored_malformed (snd (should_accept_frame f ep r)) = rx_ignored_malformed r"
  "rx_valid_artdmx_packets (snd (should_accept_frame f ep r)) = rx_valid_artdmx_packets r"
  "rx_dropped_out_of_order (snd (should_accept_frame f ep r)) = rx_dropped_out_of_order r"
  "rx_valid_artdmx_accepted (snd (should_accept_frame f ep r)) = rx_valid_artdmx_accepted r"
  by (simp_all add: should_accept_frame_def split_def Let_def)

lemma record_packet_time_counters [simp]:
  "rx_packets_received (record_packet_time t r) = rx_packets_received r"
  "rx_ignored_malformed (record_packet_time t r) = rx_ignored_malformed r"
  "rx_valid_artdmx_packets (record_packet_time t r) = rx_valid_artdmx_packets r"
  "rx_dropped_out_of_order (record_packet_time t r) = rx_dropped_out_of_order r"
  "rx_valid_artdmx_accepted (record_packet_time t r) = rx_valid_artdmx_accepted r"
  by (simp_all add: record_packet_time_def Let_def)

lemma accept_packet_counters:
  assumes "accept_packet f ep t r = Some r'"
  shows "rx_packets_received r' = rx_packets_received r \<and> rx_ignored_malformed r' = rx_ignored_malformed r
     \<and> rx_valid_artdmx_packets r' = rx_valid_artdmx_packets r
     \<and> rx_dropped_out_of_order r' = rx_dropped_out_of_order r
     \<and> rx_valid_artdmx_accepted r' = rx_valid_artdmx_accepted r + 1"
  using assms
  by (auto simp: accept_packet_def bind_eq_Some_conv dest!: capture_frame_counters)

lemma process_datagram_balanced:
  "balanced r \<Longrightarrow> process_datagram bytes ep t r = Some r' \<Longrightarrow> balanced r'"
  by (auto simp: process_datagram_cases Let_def balanced_def should_accept_frame_counters
      dest!: accept_packet_counters split: option.splits if_splits)

subsection \<open>The receive loop\<close>

definition conforming :: "recv_event \<Rightarrow> bool" where
  "conforming e \<longleftrightarrow> (case e of Recv_datagram bytes ep t \<Rightarrow> length bytes < 16 \<or> unat (bytes ! 15) < 128 | _ \<Rightarrow> True)"

definition conforming_wake :: "wait_event \<Rightarrow> bool" where
  "conforming_wake w \<longleftrightarrow> (case w of Readable es \<Rightarrow> \<forall>e\<in>set es. conforming e | _ \<Rightarrow> True)"

lemma process_conforming:
  assumes "receiver_ok r" and "conforming (Recv_datagram bytes ep t)"
  shows "\<exists>r'. process_datagram bytes ep t r = Some r' \<and> receiver_ok r'"
proof -
  have "process_datagram bytes ep t r \<noteq> None"
  proof
    assume "process_datagram bytes ep t r = None"
    then obtain f where f: "parse_artdmx (Some bytes) = Some f" "kUniverseSlots \<le> unat (fv_universe_id f)"
      using process_datagram_safe(1) [OF assms(1)] by blast
    then have "18 \<le> length bytes" "unat (fv_universe_id f) = 256 * unat (bytes ! 15) + unat (bytes ! 14)"
      by (auto simp: parse_artdmx_Some is_artdmx_def unat_two_bytes)
    then show False
      using assms(2) f(2) unat_byte_less [of "bytes ! 14"] by (simp add: conforming_def kUniverseSlots_def)
  qed
  then show ?thesis using process_datagram_safe(2) [OF assms(1)] by auto
qed

lemma drain_socket_ok:
  "receiver_ok r \<Longrightarrow> balanced r \<Longrightarrow> \<forall>e\<in>set es. conforming e \<Longrightarrow>
     \<exists>n r'. drain_socket es k r = Some (n, r') \<and> receiver_ok r' \<and> balanced r'"
proof (induction es k r rule: drain_socket.induct)
  case (5 bytes ep t es k r)
  then obtain r' where "process_datagram bytes ep t r = Some r'" "receiver_ok r'"
    using process_conforming [of r bytes ep t] by auto
  moreover from this have "balanced r'" using process_datagram_balanced "5.prems"(2) by blast
  ultimately show ?case using 5 by auto
qed (simp_all add: balanced_def)

lemma wake_ok:
  assumes "receiver_ok r" and "balanced r" and "conforming_wake e"
  shows "\<exists>r'. wake e r = Some r' \<and> receiver_ok r' \<and> balanced r'"
proof (cases e)
  case (Readable es)
  have "balanced (r\<lparr>rx_drain_wakes := rx_drain_wakes r + 1, rx_budget := begin_drain (rx_budget r)\<rparr>)"
    using assms(2) by (simp add: balanced_def)
  then obtain n r' where "drain_socket es 0 (r\<lparr>rx_drain_wakes := rx_drain_wakes r + 1, rx_budget := begin_drain (rx_budget r)\<rparr>) = Some (n, r')"
      "receiver_ok r'" "balanced r'"
    using drain_socket_ok [of "r\<lparr>rx_drain_wakes := rx_drain_wakes r + 1, rx_budget := begin_drain (rx_budget r)\<rparr>" es 0] assms
    by (auto simp: conforming_wake_def Readable)
  then show ?thesis by (simp add: wake_def Readable) (simp add: balanced_def)
qed (use assms in \<open>simp_all add: wake_def balanced_def\<close>)

lemma run_ok:
  "receiver_ok r \<Longrightarrow> balanced r \<Longrightarrow> \<forall>e\<in>set es. conforming_wake e \<Longrightarrow>
     \<exists>r'. run es r = Some r' \<and> receiver_ok r' \<and> balanced r'"
proof (induction es arbitrary: r)
  case (Cons e es)
  obtain r' where "wake e r = Some r'" "receiver_ok r'" "balanced r'"
    using wake_ok [of r e] Cons.prems by auto
  then show ?case using Cons by auto
qed simp



subsection \<open>Delivery\<close>

lemma accept_packet_effect:
  assumes ok: "receiver_ok r" and f: "view_ok f" and res: "accept_packet f ep t r = Some r'"
  shows "known (rx_mailbox r') =
       (if wants (mb_subscription (rx_mailbox r)) (fv_universe_id f)
        then (known (rx_mailbox r))(fv_universe_id f \<mapsto>
           payload_on (wanted_offsets (mb_subscription (rx_mailbox r)) (fv_universe_id f)) (fv_data f) (min (unat (fv_length f)) 512))
        else known (rx_mailbox r))
     \<and> observe (rx_metadata r) (fv_universe_id f)
         \<lparr>ob_length = fv_length f, ob_sequence = fv_sequence f, ob_now_us = t,
          ob_source_ipv4 = ep_ipv4 ep, ob_source_port = ep_port ep\<rparr> = Some (rx_metadata r')"
proof -
  let ?u = "fv_universe_id f"
  have mb: "mailbox_ok (rx_mailbox r)" using ok by (simp add: receiver_ok_def)
  obtain c x mb' r1 where steps: "observe (rx_metadata r) ?u
         \<lparr>ob_length = fv_length f, ob_sequence = fv_sequence f, ob_now_us = t,
          ob_source_ipv4 = ep_ipv4 ep, ob_source_port = ep_port ep\<rparr> = Some c"
      "publish ?u (Some (fv_data f)) (fv_length f) (fv_sequence f) t (rx_mailbox r) = Some (x, mb')"
      "capture_frame f t (r\<lparr>rx_metadata := c, rx_mailbox := mb'\<rparr>) = Some r1"
      "r' = record_packet_time t (r1\<lparr>rx_valid_artdmx_accepted := rx_valid_artdmx_accepted r1 + 1\<rparr>)"
    using res by (auto simp: accept_packet_def bind_eq_Some_conv)
  have pub: "mailbox_ok mb'" "known mb' = (if wants (mb_subscription (rx_mailbox r)) ?u
        then (known (rx_mailbox r))(?u \<mapsto>
           payload_on (wanted_offsets (mb_subscription (rx_mailbox r)) ?u) (fv_data f) (min (unat (fv_length f)) 512))
        else known (rx_mailbox r))"
    using publish_refines_step [OF mb, of "fv_length f" "fv_data f" ?u "fv_sequence f" t] f steps(2)
    by (auto simp: view_ok_def)
  have "receiver_ok (r\<lparr>rx_metadata := c, rx_mailbox := mb'\<rparr>)"
    using ok pub(1) observe_defined(2) [OF _ steps(1)] by (simp add: receiver_ok_def)
  then have "rx_mailbox r1 = mb'" and "rx_metadata r1 = c"
    using capture_frame_defined [OF _ f, of "r\<lparr>rx_metadata := c, rx_mailbox := mb'\<rparr>" t] steps(3) by auto
  then show ?thesis using steps pub(2) by simp
qed

text \<open>A packet built by a conforming sender (protocol version at least 14, payload below 65536 bytes,
  net below 128) that the sequence tracker accepts is delivered: the mailbox knows its payload on
  every offset the scene subscribed to (zero past its end), and the network metadata shows its
  clamped length, sequence, time and source.\<close>

theorem conforming_packet_is_delivered:
  assumes "receiver_ok r" and "14 \<le> unat version" and "length payload < 65536" and "unat net < 128"
    and "u = push_bit 8 (ucast net) OR ucast subuni"
    and "sd_accepted (fst (accept (rx_tracker r) u sequence ep))"
  shows "\<exists>r' md. process_datagram (artdmx_datagram version sequence physical subuni net payload) ep t r = Some r'
     \<and> receiver_ok r'
     \<and> (wants (mb_subscription (rx_mailbox r)) u \<longrightarrow>
          known (rx_mailbox r') u = Some (payload_on (wanted_offsets (mb_subscription (rx_mailbox r)) u)
                                             payload (min (length payload) 512)))
     \<and> get_metadata (rx_metadata r') u = Some (Some md) \<and> unat (um_length md) = min (length payload) 512
     \<and> um_sequence md = sequence \<and> um_last_rx_us md = t
     \<and> um_source_ipv4 md = ep_ipv4 ep \<and> um_source_port md = ep_port ep"
proof -
  let ?d = "artdmx_datagram version sequence physical subuni net payload"
  let ?f = "\<lparr>fv_universe_id = u, fv_sequence = sequence, fv_length = min (of_nat (length payload)) 512, fv_data = payload\<rparr>"
  let ?r3 = "snd (should_accept_frame ?f ep (r\<lparr>rx_packets_received := rx_packets_received r + 1,
       rx_valid_artdmx_packets := rx_valid_artdmx_packets r + 1\<rparr>))"
  have parse: "parse_artdmx (Some ?d) = Some ?f"
    using is_artdmx_datagram [OF assms(2,3), of sequence physical subuni net "[]"]
      datagram_declared_length [OF assms(3), of version sequence physical subuni net "[]"] assms(5)
    by (simp add: parse_artdmx_eq datagram_fields)
  have len: "unat (fv_length ?f) = min (length payload) 512"
    using assms(3) by (simp add: unat_min_512 unat_of_nat take_bit_nat_eq_self)
  have range: "unat u < kUniverseSlots"
    using assms(4) unat_byte_less [of subuni] unfolding assms(5) unat_two_bytes by (simp add: kUniverseSlots_def)
  have r3: "receiver_ok ?r3" "rx_mailbox ?r3 = rx_mailbox r" "rx_metadata ?r3 = rx_metadata r"
    using assms(1) by (simp add: should_accept_frame_keeps, simp_all add: should_accept_frame_def split_def Let_def)
  have view: "view_ok ?f" by (rule parsed_view_ok [OF parse])
  have go: "process_datagram ?d ep t r = accept_packet ?f ep t ?r3"
    using assms(6) by (simp add: process_datagram_cases parse Let_def)
  have "accept_packet ?f ep t ?r3 \<noteq> None"
    using accept_packet_defined(1) [OF r3(1) view, of ep t] range by simp
  then obtain r' where r': "accept_packet ?f ep t ?r3 = Some r'" by auto
  note effect = accept_packet_effect [OF r3(1) view r', unfolded r3(2,3)]
  have "get_metadata (rx_metadata r') u = Some (Some \<lparr>um_universe_id = u, um_length = fv_length ?f, um_last_rx_us = t,
      um_counter = (case mc_slots (rx_metadata r) u of None \<Rightarrow> 0 | Some s \<Rightarrow> ms_packets s) + 1,
      um_sequence = sequence, um_content_hash = 0, um_source_ipv4 = ep_ipv4 ep, um_source_port = ep_port ep\<rparr>)"
    using get_after_observe [OF conjunct2 [OF effect], of u] by simp
  moreover have "receiver_ok r'" by (rule accept_packet_defined(2) [OF r3(1) view r'])
  moreover have "wants (mb_subscription (rx_mailbox r)) u \<longrightarrow>
      known (rx_mailbox r') u = Some (payload_on (wanted_offsets (mb_subscription (rx_mailbox r)) u) payload (min (length payload) 512))"
    using conjunct1 [OF effect] len by simp
  ultimately show ?thesis using go r' len by fastforce
qed

theorem conforming_packet_is_delivered_witness:
  "\<exists>r' md. process_datagram (artdmx_datagram 14 1 0 3 0 [7, 8]) \<lparr>ep_ipv4 = 1, ep_port = 2\<rparr> 5 new_receiver = Some r'
     \<and> get_metadata (rx_metadata r') 3 = Some (Some md) \<and> unat (um_length md) = 2"
proof -
  have "sd_accepted (fst (accept (rx_tracker new_receiver) 3 1 \<lparr>ep_ipv4 = 1, ep_port = 2\<rparr>))"
    by (simp add: accept_def new_receiver_def state_of_def default_stream_def Let_def)
  from conforming_packet_is_delivered [where version = 14 and payload = "[7, 8]" and net = 0 and subuni = 3
      and physical = 0 and t = 5, OF receiver_ok_new _ _ _ _ this]
  obtain r' md where "process_datagram (artdmx_datagram 14 1 0 3 0 [7, 8]) \<lparr>ep_ipv4 = 1, ep_port = 2\<rparr> 5 new_receiver = Some r'"
      "get_metadata (rx_metadata r') 3 = Some (Some md)" "unat (um_length md) = min (length [7 :: u8, 8]) 512"
    by auto
  then show ?thesis by (intro exI conjI) (simp_all add: numeral_2_eq_2)
qed

end
