(* ===== verification/Realtime_Exchange.thy ===== *)
theory Realtime_Exchange
  imports Mailbox_Refinement
begin

text \<open>
  The path from the mailbox into the visual runtime: the coordinator that installs subscriptions and
  pumps frames (\<open>runtime/realtime_dmx_coordinator.cpp\<close>), the runtime's input side that receives them
  (\<open>submit_universe_frame\<close> in \<open>runtime/peraviz_visual_runtime.cpp\<close> and
  \<open>runtime/realtime_interest_descriptor.cpp\<close>), and the interleaving of the receiver thread with the
  consumer thread as a step relation.
\<close>

subsection \<open>The runtime's input side\<close>

text \<open>The runtime's hash map from universe ids to input states, in its iteration order; an id occurs
  once.\<close>

record universe_input =
  ui_interest_offsets :: "int list"
  ui_latest_frame :: "u8 list"
  ui_has_pending_frame :: bool

record runtime_input =
  ri_universes :: "(int \<times> universe_input) list"
  ri_packets_submitted :: u64
  ri_universes_ignored :: u64
  ri_packets_coalesced :: u64

definition realtime_interest_offsets :: "runtime_input \<Rightarrow> (u16 \<times> u16 list) list" where
  "realtime_interest_offsets rt =
     map (\<lambda>(universe_id, s). (word_of_int universe_id,
            map word_of_int (filter (\<lambda>i. 0 \<le> i \<and> i < 512) (ui_interest_offsets s))))
       (ri_universes rt)"

definition assign_frame :: "int \<Rightarrow> u8 list \<Rightarrow> (int \<times> universe_input) list \<Rightarrow> (int \<times> universe_input) list" where
  "assign_frame universe_id bytes =
     map (\<lambda>(k, s). if k = universe_id
                   then (k, s\<lparr>ui_latest_frame := bytes, ui_has_pending_frame := True\<rparr>) else (k, s))"

definition submit_universe_frame :: "int \<Rightarrow> u8 list option \<Rightarrow> int \<Rightarrow> runtime_input \<Rightarrow> runtime_input option" where
  "submit_universe_frame universe_id data len rt =
     (let rt1 = rt\<lparr>ri_packets_submitted := ri_packets_submitted rt + 1\<rparr> in
      case map_of (ri_universes rt) universe_id of
        None \<Rightarrow> Some (rt1\<lparr>ri_universes_ignored := ri_universes_ignored rt1 + 1\<rparr>)
      | Some s \<Rightarrow>
          (case data of
             None \<Rightarrow> Some (rt1\<lparr>ri_universes_ignored := ri_universes_ignored rt1 + 1\<rparr>)
           | Some bytes \<Rightarrow>
               if len \<le> 0 then Some (rt1\<lparr>ri_universes_ignored := ri_universes_ignored rt1 + 1\<rparr>)
               else
                 let rt2 = (if ui_has_pending_frame s
                            then rt1\<lparr>ri_packets_coalesced := ri_packets_coalesced rt1 + 1\<rparr> else rt1);
                     clamped_length = nat (min (max len 0) 512)
                 in if length bytes < clamped_length then None
                    else Some (rt2\<lparr>ri_universes := assign_frame universe_id (take clamped_length bytes) (ri_universes rt2)\<rparr>)))"

subsection \<open>The coordinator\<close>

record pump_result =
  pr_states_submitted :: int
  pr_oldest_receive_us :: u64

fun oldest_receive :: "u64 \<Rightarrow> dmx_frame list \<Rightarrow> u64" where
  "oldest_receive oldest [] = oldest"
| "oldest_receive oldest (f # fs) =
     oldest_receive (if df_last_rx_us f > 0 \<and> (oldest = 0 \<or> df_last_rx_us f < oldest)
                     then df_last_rx_us f else oldest) fs"

fun submit_each :: "dmx_frame list \<Rightarrow> runtime_input \<Rightarrow> runtime_input option" where
  "submit_each [] rt = Some rt"
| "submit_each (f # fs) rt =
     (case submit_universe_frame (uint (df_universe_id f)) (Some (df_data f)) (uint (df_length f)) rt of
        None \<Rightarrow> None
      | Some rt' \<Rightarrow> submit_each fs rt')"

definition submit_frames :: "runtime_input \<Rightarrow> dmx_frame list \<Rightarrow> (pump_result \<times> runtime_input) option" where
  "submit_frames rt frames =
     map_option (\<lambda>rt'. (\<lparr>pr_states_submitted = int (length frames),
                         pr_oldest_receive_us = oldest_receive 0 frames\<rparr>, rt'))
       (submit_each frames rt)"

definition install_subscription :: "runtime_input \<Rightarrow> mailbox \<Rightarrow> ((pump_result \<times> runtime_input) \<times> mailbox) option" where
  "install_subscription rt m =
     (let m' = set_subscription (Some (build_subscription (realtime_interest_offsets rt))) m
      in map_option (\<lambda>res. (res, m')) (submit_frames rt (held_states m')))"

definition pump :: "runtime_input \<Rightarrow> mailbox \<Rightarrow> ((pump_result \<times> runtime_input) \<times> mailbox) option" where
  "pump rt m =
     (let (frames, m') = consume_dirty_frames m
      in map_option (\<lambda>res. (res, m')) (submit_frames rt frames))"

subsection \<open>What a submitted batch leaves in the runtime\<close>

definition input_frame :: "runtime_input \<Rightarrow> u16 \<Rightarrow> u8 list option" where
  "input_frame rt u = map_option ui_latest_frame (map_of (ri_universes rt) (uint u))"

definition frame_bytes :: "dmx_frame \<Rightarrow> u8 list" where
  "frame_bytes f = take (unat (df_length f)) (df_data f)"

lemma map_of_assign_frame:
  "map_of (assign_frame k bytes us) k' =
     map_option (\<lambda>s. if k' = k then s\<lparr>ui_latest_frame := bytes, ui_has_pending_frame := True\<rparr> else s) (map_of us k')"
  by (induction us) (auto simp: assign_frame_def)

lemma assign_frame_keys [simp]: "map fst (assign_frame k bytes us) = map fst us"
  by (auto simp: assign_frame_def)

lemma submit_bytes_defined:
  assumes "n \<le> 512" and "n \<le> length bytes"
  shows "\<exists>rt'. submit_universe_frame (uint u) (Some bytes) (int n) rt = Some rt'
     \<and> map fst (ri_universes rt') = map fst (ri_universes rt)
     \<and> (\<forall>v. input_frame rt' v = (if v = u \<and> 0 < n \<and> input_frame rt u \<noteq> None
                            then Some (take n bytes) else input_frame rt v))"
proof (cases "map_of (ri_universes rt) (uint u)")
  case (Some s)
  have same: "uint v = uint u \<longleftrightarrow> v = u" for v by (simp add: word_uint_eq_iff)
  have "nat (min (max (int n) 0) 512) = n" using assms(1) by simp
  then show ?thesis
    using Some assms
    by (auto simp: submit_universe_frame_def Let_def input_frame_def map_of_assign_frame
        option.map_comp comp_def same split: option.split)
qed (simp add: submit_universe_frame_def Let_def input_frame_def)

lemma submit_frame_defined:
  assumes "frame_good u f"
  shows "\<exists>rt'. submit_universe_frame (uint (df_universe_id f)) (Some (df_data f)) (uint (df_length f)) rt = Some rt'
     \<and> map fst (ri_universes rt') = map fst (ri_universes rt)
     \<and> (\<forall>v. input_frame rt' v = (if v = u \<and> 0 < unat (df_length f) \<and> input_frame rt u \<noteq> None
                            then Some (frame_bytes f) else input_frame rt v))"
  unfolding frame_bytes_def
  using submit_bytes_defined [of "unat (df_length f)" "df_data f" u rt] assms
  by (simp add: frame_good_def split del: if_split)

text \<open>A batch of frames with distinct ids: every universe of the batch that the runtime has shows its
  frame's bytes unless the frame is empty; the others are untouched.\<close>

definition frames_ok :: "dmx_frame list \<Rightarrow> bool" where
  "frames_ok fs \<longleftrightarrow> distinct (map df_universe_id fs) \<and> (\<forall>f\<in>set fs. frame_good (df_universe_id f) f)"

definition batch_ok :: "dmx_frame list \<Rightarrow> bool" where
  "batch_ok fs \<longleftrightarrow> frames_ok fs \<and> (\<forall>f\<in>set fs. 0 < unat (df_length f))"

lemma submit_each_defined:
  "frames_ok fs \<Longrightarrow>
     \<exists>rt'. submit_each fs rt = Some rt' \<and> map fst (ri_universes rt') = map fst (ri_universes rt)
       \<and> (\<forall>f\<in>set fs. input_frame rt' (df_universe_id f) =
             (if 0 < unat (df_length f) \<and> input_frame rt (df_universe_id f) \<noteq> None
              then Some (frame_bytes f) else input_frame rt (df_universe_id f)))
       \<and> (\<forall>v. v \<notin> df_universe_id ` set fs \<longrightarrow> input_frame rt' v = input_frame rt v)"
proof (induction fs arbitrary: rt)
  case (Cons f fs)
  then have good: "frame_good (df_universe_id f) f"
    and new: "df_universe_id f \<notin> df_universe_id ` set fs" and rest: "frames_ok fs"
    by (auto simp: frames_ok_def)
  obtain rt1 where one: "submit_universe_frame (uint (df_universe_id f)) (Some (df_data f)) (uint (df_length f)) rt = Some rt1"
      "map fst (ri_universes rt1) = map fst (ri_universes rt)"
      "\<And>v. input_frame rt1 v = (if v = df_universe_id f \<and> 0 < unat (df_length f) \<and> input_frame rt (df_universe_id f) \<noteq> None
                             then Some (frame_bytes f) else input_frame rt v)"
    using submit_frame_defined [OF good, of rt] by auto
  obtain rt' where rt': "submit_each fs rt1 = Some rt'" "map fst (ri_universes rt') = map fst (ri_universes rt1)"
      "\<forall>g\<in>set fs. input_frame rt' (df_universe_id g) =
             (if 0 < unat (df_length g) \<and> input_frame rt1 (df_universe_id g) \<noteq> None
              then Some (frame_bytes g) else input_frame rt1 (df_universe_id g))"
      "\<forall>v. v \<notin> df_universe_id ` set fs \<longrightarrow> input_frame rt' v = input_frame rt1 v"
    using Cons.IH [OF rest, of rt1] by blast
  have same: "input_frame rt1 (df_universe_id g) = input_frame rt (df_universe_id g)" if "g \<in> set fs" for g
  proof -
    have "df_universe_id g \<noteq> df_universe_id f" using that new by (metis image_eqI)
    then show ?thesis by (simp add: one(3))
  qed
  have "input_frame rt' (df_universe_id g) =
             (if 0 < unat (df_length g) \<and> input_frame rt (df_universe_id g) \<noteq> None
              then Some (frame_bytes g) else input_frame rt (df_universe_id g))" if "g \<in> set (f # fs)" for g
  proof (cases "g \<in> set fs")
    case True
    then show ?thesis using rt'(3) same [OF True] by simp
  next
    case False
    then have "g = f" using that by simp
    then show ?thesis using rt'(4) new one(3) by simp
  qed
  with one rt' new show ?case by (simp add: one(3))
qed simp

lemma submit_each_ok:
  "batch_ok fs \<Longrightarrow>
     \<exists>rt'. submit_each fs rt = Some rt' \<and> map fst (ri_universes rt') = map fst (ri_universes rt)
       \<and> (\<forall>f\<in>set fs. input_frame rt (df_universe_id f) \<noteq> None \<longrightarrow>
             input_frame rt' (df_universe_id f) = Some (frame_bytes f))
       \<and> (\<forall>v. v \<notin> df_universe_id ` set fs \<longrightarrow> input_frame rt' v = input_frame rt v)"
  using submit_each_defined [of fs rt] by (auto simp: batch_ok_def)

subsection \<open>Interleaving\<close>

text \<open>The receiver thread publishes and restarts sessions; the consumer thread installs a compiled
  scene (the runtime's universes and the subscription built from them), rehydrates it from the held
  states, and consumes one token at a time. \<open>ex_rehydrated\<close> is false between the installation and the
  rehydration, where the receiver may run. \<open>ex_spec\<close> is a specification variable: the bytes each wanted
  universe last received on its subscribed offsets, restricted at each installation and cleared by each
  restart, as \<open>publish\<close>, \<open>set_subscription\<close> and \<open>reset_session\<close> promise it.\<close>

record exchange =
  ex_mailbox :: mailbox
  ex_runtime :: runtime_input
  ex_rehydrated :: bool
  ex_spec :: "u16 \<rightharpoonup> shown_bytes"

definition spec_publish :: "subscription option \<Rightarrow> u16 \<Rightarrow> u8 list \<Rightarrow> u16 \<Rightarrow> (u16 \<rightharpoonup> shown_bytes) \<Rightarrow> (u16 \<rightharpoonup> shown_bytes)" where
  "spec_publish sub u data len k =
     (if wants sub u then k(u \<mapsto> payload_on (wanted_offsets sub u) data (min (unat len) 512)) else k)"

definition spec_install :: "subscription option \<Rightarrow> subscription option \<Rightarrow> (u16 \<rightharpoonup> shown_bytes) \<Rightarrow> (u16 \<rightharpoonup> shown_bytes)" where
  "spec_install old new k =
     (\<lambda>u. if wants new u \<and> \<not> has_new_offsets old new u then map_option (remask (wanted_offsets new u)) (k u) else None)"

definition ids_ok :: "runtime_input \<Rightarrow> bool" where
  "ids_ok rt \<longleftrightarrow> (\<forall>k\<in>set (map fst (ri_universes rt)). 0 \<le> k \<and> k < int kArtNetUniverseCount)"

definition interests :: "runtime_input \<Rightarrow> subscription option" where
  "interests rt = Some (build_subscription (realtime_interest_offsets rt))"

inductive exchange_step :: "exchange \<Rightarrow> exchange \<Rightarrow> bool" where
  publish_step: "\<lbrakk>0 < unat len; min (unat len) 512 \<le> length data;
     publish u (Some data) len sequence now_us (ex_mailbox x) = Some (r, m')\<rbrakk> \<Longrightarrow>
     exchange_step x (x\<lparr>ex_mailbox := m',
       ex_spec := spec_publish (mb_subscription (ex_mailbox x)) u data len (ex_spec x)\<rparr>)"
| reset_step:
    "exchange_step x (x\<lparr>ex_mailbox := reset_session (ex_mailbox x), ex_spec := Map.empty\<rparr>)"
| install_step: "ids_ok rt \<Longrightarrow>
     exchange_step x (x\<lparr>ex_mailbox := set_subscription (interests rt) (ex_mailbox x), ex_runtime := rt,
       ex_rehydrated := False,
       ex_spec := spec_install (mb_subscription (ex_mailbox x)) (interests rt) (ex_spec x)\<rparr>)"
| rehydrate_step: "submit_frames (ex_runtime x) (held_states (ex_mailbox x)) = Some (res, rt') \<Longrightarrow>
     exchange_step x (x\<lparr>ex_runtime := rt', ex_rehydrated := True\<rparr>)"
| consume_step: "\<lbrakk>consume_one (ex_mailbox x) = Some (out, m');
     submit_frames (ex_runtime x) (case out of None \<Rightarrow> [] | Some f \<Rightarrow> [f]) = Some (res, rt')\<rbrakk> \<Longrightarrow>
     exchange_step x (x\<lparr>ex_mailbox := m', ex_runtime := rt'\<rparr>)"

definition initial_exchange :: exchange where
  "initial_exchange = \<lparr>ex_mailbox = empty_mailbox,
     ex_runtime = \<lparr>ri_universes = [], ri_packets_submitted = 0, ri_universes_ignored = 0, ri_packets_coalesced = 0\<rparr>,
     ex_rehydrated = True, ex_spec = Map.empty\<rparr>"

inductive reachable_exchange :: "exchange \<Rightarrow> bool" where
  initial: "reachable_exchange initial_exchange"
| step: "reachable_exchange x \<Longrightarrow> exchange_step x y \<Longrightarrow> reachable_exchange y"

subsection \<open>The invariant of the exchange\<close>

definition agrees :: "exchange \<Rightarrow> u16 \<Rightarrow> shown_bytes \<Rightarrow> bool" where
  "agrees x u k \<longleftrightarrow> (\<exists>bytes. input_frame (ex_runtime x) u = Some bytes
     \<and> payload_on (wanted_offsets (mb_subscription (ex_mailbox x)) u) bytes (length bytes) = k)"

definition exchange_ok :: "exchange \<Rightarrow> bool" where
  "exchange_ok x \<longleftrightarrow> mailbox_ok (ex_mailbox x) \<and> known (ex_mailbox x) = ex_spec x
     \<and> (\<forall>u f. held u (ex_mailbox x) = Some f \<longrightarrow> 0 < unat (df_length f))
     \<and> (\<forall>u. wants (mb_subscription (ex_mailbox x)) u \<longrightarrow> input_frame (ex_runtime x) u \<noteq> None)
     \<and> (ex_rehydrated x \<longrightarrow> (\<forall>u k. known (ex_mailbox x) u = Some k \<longrightarrow>
           u \<notin> set (queued_ids (ex_mailbox x)) \<longrightarrow> agrees x u k))"

lemma exchange_okD:
  assumes "exchange_ok x"
  shows ex_ok_mailbox: "mailbox_ok (ex_mailbox x)" and ex_ok_spec: "known (ex_mailbox x) = ex_spec x"
    and ex_ok_length: "held u (ex_mailbox x) = Some f \<Longrightarrow> 0 < unat (df_length f)"
    and ex_ok_input: "wants (mb_subscription (ex_mailbox x)) u \<Longrightarrow> input_frame (ex_runtime x) u \<noteq> None"
    and ex_ok_agrees: "ex_rehydrated x \<Longrightarrow> known (ex_mailbox x) u = Some k \<Longrightarrow>
           u \<notin> set (queued_ids (ex_mailbox x)) \<Longrightarrow> agrees x u k"
  using assms by (auto simp: exchange_ok_def)

lemma known_Some_held:
  "known m u = Some k \<longleftrightarrow> (\<exists>f. held u m = Some f \<and> k = masked (wanted_offsets (mb_subscription m) u) f)"
  by (auto simp: known_def)

lemma payload_on_frame_bytes:
  "frame_good u f \<Longrightarrow> payload_on m (frame_bytes f) (length (frame_bytes f)) = masked m f"
  by (auto simp: payload_on_def masked_def frame_bytes_def frame_good_def fun_eq_iff)

lemma publish_slot_held_length:
  assumes "publish_slot u data len sequence now_us s m = Some (r, m')" and "mb_slots m u = Some s"
    and "held v m' = Some f'"
  shows "(\<exists>f. held v m = Some f \<and> df_length f' = df_length f) \<or> df_length f' = of_nat (min (unat len) 512)"
proof -
  have safe: "unat (min len 512) = min (unat len) 512" by (simp add: min_def word_le_nat_alt)
  show ?thesis
    using assms
    by (auto simp: publish_slot_def publish_changed_def enqueue_dirty_def held_def hold_frame_def Let_def safe
        split: option.splits if_splits)
qed

lemma publish_held_length:
  assumes "publish u (Some data) len sequence now_us m = Some (r, m')" and "held v m' = Some f'"
  shows "(\<exists>f. held v m = Some f \<and> df_length f' = df_length f) \<or> unat (df_length f') = min (unat len) 512"
proof -
  have counter: "held v (m\<lparr>mb_irrelevant := n\<rparr>) = held v m" "held v (m\<lparr>mb_relevant := n\<rparr>) = held v m" for n
    by (simp_all add: held_def split: option.split)
  have back_len: "unat (of_nat (min (unat len) 512) :: u16) = min (unat len) 512"
    by (simp add: unat_of_nat take_bit_nat_eq_self)
  show ?thesis
  proof (cases "\<exists>s. mb_slots m u = Some s \<and> publish_slot u data len sequence now_us s (m\<lparr>mb_relevant := mb_relevant m + 1\<rparr>) = Some (r, m')")
    case True
    then obtain s where "mb_slots (m\<lparr>mb_relevant := mb_relevant m + 1\<rparr>) u = Some s"
        "publish_slot u data len sequence now_us s (m\<lparr>mb_relevant := mb_relevant m + 1\<rparr>) = Some (r, m')" by auto
    from publish_slot_held_length [OF this(2,1) assms(2)] show ?thesis by (auto simp: counter back_len)
  next
    case False
    then have "held v m' = held v m"
      using assms(1) by (auto simp: publish_def Let_def counter split: if_splits option.splits)
    then have "held v m = Some f'" using assms(2) by simp
    then show ?thesis by simp
  qed
qed

lemma set_subscription_held:
  assumes ok: "mailbox_ok m" and sub: "subscription_ok sub" and f: "held u (set_subscription sub m) = Some f"
  shows "held u m = Some f"
proof -
  note fields = set_subscription_fields [where sub = sub, OF slots_in_range [OF ok]]
  have "held u (set_subscription sub m) =
     (if wants sub u \<and> \<not> has_new_offsets (mb_subscription m) sub u then held u m else None)"
    using ok_wanted [OF ok, of u]
    by (auto simp: held_eq [OF ok] held_eq [OF set_subscription_ok [OF ok sub]] fields(1,4) installed_def Let_def
        blank_mailbox_slot_def has_new_offsets_def split: option.splits)
  then show ?thesis using f by (simp split: if_splits)
qed

lemma interests_wanted:
  assumes "ids_ok rt" and "wants (interests rt) u"
  shows "input_frame rt u \<noteq> None"
proof -
  obtain k s where k: "(k, s) \<in> set (ri_universes rt)" and u: "u = word_of_int k"
    using assms(2) by (auto simp: wants_def interests_def build_contains realtime_interest_offsets_def)
  then have "0 \<le> k \<and> k < 32768" using assms(1) by (force simp: ids_ok_def kArtNetUniverseCount_def)
  then have "uint u = k" by (simp add: u uint_word_of_int)
  then have "map_of (ri_universes rt) (uint u) \<noteq> None" using k by (metis map_of_eq_None_iff image_eqI fst_conv)
  then show ?thesis by (simp add: input_frame_def)
qed

lemma subscription_ok_interests: "subscription_ok (interests rt)"
  by (simp add: interests_def subscription_ok_build)

lemma input_frame_keys: "map fst (ri_universes rt') = map fst (ri_universes rt) \<Longrightarrow> input_frame rt' u = None \<longleftrightarrow> input_frame rt u = None"
  by (simp add: input_frame_def map_of_eq_None_iff) (metis list.set_map)

lemma publish_keeps_exchange:
  assumes ok: "exchange_ok x" and len: "0 < unat len" and data: "min (unat len) 512 \<le> length data"
    and pub: "publish u (Some data) len sequence now_us (ex_mailbox x) = Some (r, m')"
  shows "exchange_ok (x\<lparr>ex_mailbox := m', ex_spec := spec_publish (mb_subscription (ex_mailbox x)) u data len (ex_spec x)\<rparr>)"
proof -
  let ?m = "ex_mailbox x"
  let ?p = "payload_on (wanted_offsets (mb_subscription ?m) u) data (min (unat len) 512)"
  have post: "mailbox_ok m'" "mb_subscription m' = mb_subscription ?m"
      "known m' = (if wants (mb_subscription ?m) u then (known ?m)(u \<mapsto> ?p) else known ?m)"
      "r = (wants (mb_subscription ?m) u \<and> known ?m u \<noteq> Some ?p)"
      "queued_ids m' = (if \<not> r \<or> u \<in> set (queued_ids ?m) then queued_ids ?m else queued_ids ?m @ [u])"
    using publish_refines_step [OF ex_ok_mailbox [OF ok] data, of u sequence now_us] pub by auto
  have lens: "0 < unat (df_length f)" if "held v m' = Some f" for v f
    using publish_held_length [OF pub that] ex_ok_length [OF ok, of v] len by auto
  let ?x = "x\<lparr>ex_mailbox := m', ex_spec := spec_publish (mb_subscription ?m) u data len (ex_spec x)\<rparr>"
  have same_agrees: "agrees ?x v k = agrees x v k" for v k by (simp add: agrees_def post(2))
  have "agrees ?x v k" if "ex_rehydrated x" "known m' v = Some k" "v \<notin> set (queued_ids m')" for v k
  proof -
    have "known ?m v = Some k \<and> v \<notin> set (queued_ids ?m)"
      using that(2,3) post(3-5) by (auto split: if_splits)
    then show ?thesis unfolding same_agrees using ex_ok_agrees [OF ok that(1)] by blast
  qed
  moreover have "known m' = ex_spec ?x" using post(3) by (simp add: spec_publish_def ex_ok_spec [OF ok])
  ultimately show ?thesis
    unfolding exchange_ok_def using post(1,2) lens ex_ok_input [OF ok] by auto
qed

lemma install_keeps_exchange:
  assumes ok: "exchange_ok x" and ids: "ids_ok rt"
  shows "exchange_ok (x\<lparr>ex_mailbox := set_subscription (interests rt) (ex_mailbox x), ex_runtime := rt,
       ex_rehydrated := False,
       ex_spec := spec_install (mb_subscription (ex_mailbox x)) (interests rt) (ex_spec x)\<rparr>)"
proof -
  note okm = ex_ok_mailbox [OF ok] and sub = subscription_ok_interests [of rt]
  have "known (set_subscription (interests rt) (ex_mailbox x)) =
      spec_install (mb_subscription (ex_mailbox x)) (interests rt) (ex_spec x)"
    using set_subscription_known [OF okm sub] ex_ok_spec [OF ok] by (auto simp: spec_install_def fun_eq_iff)
  moreover have "0 < unat (df_length f)" if "held u (set_subscription (interests rt) (ex_mailbox x)) = Some f" for u f
    using ex_ok_length [OF ok set_subscription_held [OF okm sub that]] .
  ultimately show ?thesis
    using set_subscription_ok [OF okm sub] interests_wanted [OF ids]
      set_subscription_fields(1) [OF slots_in_range [OF okm]]
    by (simp add: exchange_ok_def)
qed

lemma reset_keeps_exchange:
  assumes ok: "exchange_ok x"
  shows "exchange_ok (x\<lparr>ex_mailbox := reset_session (ex_mailbox x), ex_spec := Map.empty\<rparr>)"
proof -
  have "held u (reset_session (ex_mailbox x)) = None" for u
    using reset_session_known [OF ex_ok_mailbox [OF ok]] by (metis known_def map_option_is_None)
  moreover have "mb_subscription (reset_session (ex_mailbox x)) = mb_subscription (ex_mailbox x)"
    by (simp add: reset_session_def)
  ultimately show ?thesis
    using ok reset_session_ok [OF ex_ok_mailbox [OF ok]] reset_session_known [OF ex_ok_mailbox [OF ok]]
    by (simp add: exchange_ok_def)
qed

lemma held_states_batch:
  assumes "exchange_ok x"
  shows "batch_ok (held_states (ex_mailbox x))"
proof -
  note okm = ex_ok_mailbox [OF assms]
  have "frame_good (df_universe_id f) f \<and> 0 < unat (df_length f)" if "f \<in> set (held_states (ex_mailbox x))" for f
  proof -
    have f: "held (df_universe_id f) (ex_mailbox x) = Some f" by (rule iffD1 [OF held_states_mem [OF okm] that])
    show ?thesis using held_frame_id [OF okm f] ex_ok_length [OF assms f] by simp
  qed
  then show ?thesis using held_states_distinct [OF okm] by (simp add: batch_ok_def frames_ok_def)
qed

lemma submitted_batch_agrees:
  assumes ok: "exchange_ok x" and batch: "batch_ok fs" and held: "held u (ex_mailbox x) = Some f" and f: "f \<in> set fs"
    and out: "submit_each fs (ex_runtime x) = Some rt'"
  shows "agrees (x\<lparr>ex_runtime := rt'\<rparr>) u (masked (wanted_offsets (mb_subscription (ex_mailbox x)) u) f)"
proof -
  have good: "frame_good u f" "wants (mb_subscription (ex_mailbox x)) u"
    using held_frame_id [OF ex_ok_mailbox [OF ok] held] by simp_all
  then have u: "df_universe_id f = u" by (simp add: frame_good_def)
  then have "input_frame (ex_runtime x) (df_universe_id f) \<noteq> None" using ex_ok_input [OF ok] good by simp
  then have "input_frame rt' u = Some (frame_bytes f)"
    using submit_each_ok [OF batch, of "ex_runtime x"] out f u by auto
  then show ?thesis by (simp add: agrees_def payload_on_frame_bytes [OF good(1)])
qed

lemma rehydrate_keeps_exchange:
  assumes ok: "exchange_ok x" and sub: "submit_frames (ex_runtime x) (held_states (ex_mailbox x)) = Some (res, rt')"
  shows "exchange_ok (x\<lparr>ex_runtime := rt', ex_rehydrated := True\<rparr>)"
proof -
  have each: "submit_each (held_states (ex_mailbox x)) (ex_runtime x) = Some rt'"
    using sub by (auto simp: submit_frames_def)
  note batch = held_states_batch [OF ok]
  have keys: "map fst (ri_universes rt') = map fst (ri_universes (ex_runtime x))"
    using submit_each_ok [OF batch, of "ex_runtime x"] each by auto
  have "agrees (x\<lparr>ex_runtime := rt'\<rparr>) u k" if k: "known (ex_mailbox x) u = Some k" for u k
  proof -
    obtain f where f: "held u (ex_mailbox x) = Some f"
        "k = masked (wanted_offsets (mb_subscription (ex_mailbox x)) u) f"
      using k by (auto simp: known_Some_held)
    have "f \<in> set (held_states (ex_mailbox x))"
      using held_states_mem [OF ex_ok_mailbox [OF ok]] held_frame_id [OF ex_ok_mailbox [OF ok] f(1)] f(1)
      by (simp add: frame_good_def)
    from submitted_batch_agrees [OF ok batch f(1) this each] show ?thesis by (simp add: f(2))
  qed
  then have "agrees (x\<lparr>ex_runtime := rt', ex_rehydrated := True\<rparr>) u k" if "known (ex_mailbox x) u = Some k" for u k
    using that by (simp add: agrees_def)
  then show ?thesis
    using ok input_frame_keys [OF keys] by (simp add: exchange_ok_def)
qed

lemma queue_nonempty: "consume_one m \<noteq> None \<Longrightarrow> queued_ids m \<noteq> []"
  by (simp add: consume_one_def queued_ids_def split: if_splits)

lemma singleton_batch:
  assumes "exchange_ok x" and "held u (ex_mailbox x) = Some f"
  shows "batch_ok [f]"
  using held_frame_id [OF ex_ok_mailbox [OF assms(1)] assms(2)] ex_ok_length [OF assms]
  by (simp add: batch_ok_def frames_ok_def frame_good_def)

lemma consume_keeps_exchange:
  assumes ok: "exchange_ok x" and one: "consume_one (ex_mailbox x) = Some (out, m')"
    and sub: "submit_frames (ex_runtime x) (case out of None \<Rightarrow> [] | Some f \<Rightarrow> [f]) = Some (res, rt')"
  shows "exchange_ok (x\<lparr>ex_mailbox := m', ex_runtime := rt'\<rparr>)"
proof -
  note okm = ex_ok_mailbox [OF ok]
  obtain u us where queue: "queued_ids (ex_mailbox x) = u # us"
    using queue_nonempty [of "ex_mailbox x"] one by (cases "queued_ids (ex_mailbox x)") auto
  obtain f where f: "out = Some f" "held u (ex_mailbox x) = Some f" and good: "frame_good u f"
      and post: "mailbox_ok m'" "\<forall>v. held v m' = held v (ex_mailbox x)" "known m' = known (ex_mailbox x)"
      "mb_subscription m' = mb_subscription (ex_mailbox x)" "queued_ids m' = us"
    using consume_one_ok [OF okm queue] one by auto
  have each: "submit_each [f] (ex_runtime x) = Some rt'" using sub f(1) by (auto simp: submit_frames_def)
  note batch = singleton_batch [OF ok f(2)]
  have keys: "map fst (ri_universes rt') = map fst (ri_universes (ex_runtime x))"
    and others: "\<And>v. v \<noteq> u \<Longrightarrow> input_frame rt' v = input_frame (ex_runtime x) v"
    using submit_each_ok [OF batch, of "ex_runtime x"] each good by (auto simp: frame_good_def)
  let ?x = "x\<lparr>ex_mailbox := m', ex_runtime := rt'\<rparr>"
  have "agrees ?x v k" if re: "ex_rehydrated x" and k: "known (ex_mailbox x) v = Some k" and v: "v \<notin> set us" for v k
  proof (cases "v = u")
    case True
    have "k = masked (wanted_offsets (mb_subscription (ex_mailbox x)) u) f"
      using k f(2) True by (simp add: known_def)
    then show ?thesis
      using submitted_batch_agrees [OF ok batch f(2) _ each] True by (simp add: agrees_def post(4))
  next
    case False
    then have "agrees x v k" using ex_ok_agrees [OF ok re k] v queue by simp
    then show ?thesis using others [OF False] by (simp add: agrees_def post(4))
  qed
  then show ?thesis
    unfolding exchange_ok_def
    using post ex_ok_spec [OF ok] ex_ok_length [OF ok] ex_ok_input [OF ok] input_frame_keys [OF keys]
    by auto
qed

lemma exchange_step_ok: "exchange_step x y \<Longrightarrow> exchange_ok x \<Longrightarrow> exchange_ok y"
  by (induction rule: exchange_step.induct)
     (simp_all add: publish_keeps_exchange reset_keeps_exchange install_keeps_exchange rehydrate_keeps_exchange
       consume_keeps_exchange)

lemma exchange_ok_initial: "exchange_ok initial_exchange"
proof -
  have "held u empty_mailbox = None" "\<not> wants (mb_subscription empty_mailbox) u" for u
    by (simp_all add: held_def empty_mailbox_def wants_def)
  then show ?thesis
    using mailbox_ok_empty by (simp add: exchange_ok_def initial_exchange_def known_def fun_eq_iff)
qed

lemma reachable_exchange_ok: "reachable_exchange x \<Longrightarrow> exchange_ok x"
  by (induction rule: reachable_exchange.induct) (simp_all add: exchange_ok_initial exchange_step_ok)

text \<open>Pumping is the consumer thread's drain.\<close>

lemma drained_frame_held:
  assumes frames: "map Some fs = map (\<lambda>v. held v m) (queued_ids m)" and ids: "map df_universe_id fs = queued_ids m"
    and f: "f \<in> set fs"
  shows "held (df_universe_id f) m = Some f"
proof -
  obtain i where i: "i < length fs" "fs ! i = f" using f by (auto simp: in_set_conv_nth)
  then have "map df_universe_id fs ! i = queued_ids m ! i" by (simp add: ids)
  moreover have "length (queued_ids m) = length fs" using ids by (metis length_map)
  moreover have "map Some fs ! i = map (\<lambda>v. held v m) (queued_ids m) ! i" by (simp only: frames)
  ultimately show ?thesis using i by simp
qed

lemma publish_changed_length:
  assumes "publish u (Some data) len sequence now_us m = Some (r, m')" and "r" and "held u m' = Some f"
  shows "unat (df_length f) = min (unat len) 512"
proof -
  have safe: "unat (min len 512) = min (unat len) 512" by (simp add: min_def word_le_nat_alt)
  have back_len: "unat (of_nat (min (unat len) 512) :: u16) = min (unat len) 512"
    by (simp add: unat_of_nat take_bit_nat_eq_self)
  show ?thesis
    using assms
    by (auto simp: publish_def publish_slot_def publish_changed_def enqueue_dirty_def held_def hold_frame_def
        Let_def safe back_len split: option.splits if_splits)
qed

lemma pump_defined:
  assumes ok: "exchange_ok x" and re: "ex_rehydrated x"
  shows "\<exists>res rt' m'. pump (ex_runtime x) (ex_mailbox x) = Some ((res, rt'), m')
     \<and> pr_states_submitted res = int (length (queued_ids (ex_mailbox x)))
     \<and> (\<forall>u k. known (ex_mailbox x) u = Some k \<longrightarrow> agrees (x\<lparr>ex_runtime := rt'\<rparr>) u k)"
proof -
  note okm = ex_ok_mailbox [OF ok]
  obtain fs m' where drain: "consume_dirty_frames (ex_mailbox x) = (fs, m')"
      "map Some fs = map (\<lambda>u. held u (ex_mailbox x)) (queued_ids (ex_mailbox x))"
      "map df_universe_id fs = queued_ids (ex_mailbox x)"
    using consume_dirty_frames_ok [OF okm] by auto
  have waiting: "held (df_universe_id f) (ex_mailbox x) = Some f" if "f \<in> set fs" for f
    using drained_frame_held [OF drain(2,3) that] .
  have batch: "batch_ok fs"
    using waiting ok_distinct [OF okm] drain(3) singleton_batch [OF ok]
    by (auto simp: batch_ok_def frames_ok_def)
  obtain rt' where each: "submit_each fs (ex_runtime x) = Some rt'"
      and others: "\<forall>v. v \<notin> df_universe_id ` set fs \<longrightarrow> input_frame rt' v = input_frame (ex_runtime x) v"
    using submit_each_ok [OF batch, of "ex_runtime x"] by auto
  have "agrees (x\<lparr>ex_runtime := rt'\<rparr>) u k" if k: "known (ex_mailbox x) u = Some k" for u k
  proof (cases "u \<in> set (queued_ids (ex_mailbox x))")
    case True
    then obtain f where f: "f \<in> set fs" "df_universe_id f = u" unfolding drain(3) [symmetric] by auto
    then have h: "held u (ex_mailbox x) = Some f" using waiting by auto
    from submitted_batch_agrees [OF ok batch h f(1) each] k h show ?thesis by (simp add: known_def)
  next
    case False
    then have "u \<notin> df_universe_id ` set fs" unfolding drain(3) [symmetric] by simp
    then show ?thesis
      using ex_ok_agrees [OF ok re k False] others by (simp add: agrees_def)
  qed
  moreover have "length fs = length (queued_ids (ex_mailbox x))" using drain(3) by (metis length_map)
  ultimately show ?thesis using drain(1) each by (simp add: pump_def submit_frames_def)
qed


definition sample_runtime :: runtime_input where
  "sample_runtime = \<lparr>ri_universes = [(3, \<lparr>ui_interest_offsets = [0, 1], ui_latest_frame = [],
     ui_has_pending_frame = False\<rparr>)], ri_packets_submitted = 0, ri_universes_ignored = 0, ri_packets_coalesced = 0\<rparr>"

lemma sample_wants: "wants (interests sample_runtime) 3"
  by (auto simp: wants_def interests_def build_contains realtime_interest_offsets_def sample_runtime_def
      kArtNetUniverseCount_def intro!: exI [of _ 0])

lemma sample_run:
  "\<exists>x. reachable_exchange x \<and> ex_rehydrated x \<and> ex_spec x 3 \<noteq> None"
proof -
  let ?x1 = "initial_exchange\<lparr>ex_mailbox := set_subscription (interests sample_runtime) (ex_mailbox initial_exchange),
      ex_runtime := sample_runtime, ex_rehydrated := False,
      ex_spec := spec_install (mb_subscription (ex_mailbox initial_exchange)) (interests sample_runtime) (ex_spec initial_exchange)\<rparr>"
  have "ids_ok sample_runtime" by (simp add: ids_ok_def sample_runtime_def kArtNetUniverseCount_def)
  then have r1: "reachable_exchange ?x1"
    by (intro reachable_exchange.step [OF reachable_exchange.initial] install_step)
  note ok1 = reachable_exchange_ok [OF r1]
  obtain res rt' where "submit_frames (ex_runtime ?x1) (held_states (ex_mailbox ?x1)) = Some (res, rt')"
    using submit_each_ok [OF held_states_batch [OF ok1], of "ex_runtime ?x1"] by (auto simp: submit_frames_def)
  from reachable_exchange.step [OF r1 rehydrate_step [OF this]]
  have r2: "reachable_exchange (?x1\<lparr>ex_runtime := rt', ex_rehydrated := True\<rparr>)" .
  let ?x2 = "?x1\<lparr>ex_runtime := rt', ex_rehydrated := True\<rparr>"
  have sub: "wants (mb_subscription (ex_mailbox ?x2)) 3"
    using sample_wants set_subscription_fields(1) [OF slots_in_range [OF mailbox_ok_empty]]
    by (simp add: initial_exchange_def)
  obtain r m' where "publish 3 (Some [7, 8]) 2 1 5 (ex_mailbox ?x2) = Some (r, m')"
    using publish_refines_step [OF ex_ok_mailbox [OF reachable_exchange_ok [OF r2]], of 2 "[7, 8]" 3 1 5] by auto
  from reachable_exchange.step [OF r2 publish_step [OF _ _ this]]
  show ?thesis using sub by (intro exI conjI) (assumption | simp add: spec_publish_def)+
qed


text \<open>The length guard of \<open>pump_delivers_latest\<close> is needed: a packet of length zero for a universe the
  scene wants and that is not known to be all zero makes the mailbox report a change to all zeros and
  queue it, but the runtime ignores the empty frame the pump hands it, so its input frame keeps the
  old bytes.\<close>

theorem empty_packet_never_arrives:
  assumes "mailbox_ok m" and "wants (mb_subscription m) u" and "known m u \<noteq> Some (\<lambda>_. 0)"
  shows "\<exists>m'. publish u (Some data) 0 sequence now_us m = Some (True, m')
     \<and> known m' u = Some (\<lambda>_. 0) \<and> u \<in> set (queued_ids m')
     \<and> (\<forall>rt. \<exists>res rt' m''. pump rt m' = Some ((res, rt'), m'') \<and> queued_ids m'' = []
           \<and> input_frame rt' u = input_frame rt u)"
proof -
  have zero: "payload_on k data (min (unat (0 :: u16)) 512) = (\<lambda>_. 0)" for k
    by (simp add: payload_on_def fun_eq_iff)
  obtain r m' where pub: "publish u (Some data) 0 sequence now_us m = Some (r, m')" and ok: "mailbox_ok m'"
      and post: "known m' = (known m)(u \<mapsto> (\<lambda>_. 0))" "r"
      "queued_ids m' = (if u \<in> set (queued_ids m) then queued_ids m else queued_ids m @ [u])"
    using publish_refines_step [OF assms(1), of 0 data u sequence now_us, unfolded zero] assms(2,3) by auto
  have waiting: "u \<in> set (queued_ids m')" by (simp add: post(3))
  obtain fs m'' where drain: "consume_dirty_frames m' = (fs, m'')"
      "map Some fs = map (\<lambda>v. held v m') (queued_ids m')" "map df_universe_id fs = queued_ids m'" "queued_ids m'' = []"
    using consume_dirty_frames_ok [OF ok] by auto
  have at: "held (df_universe_id f) m' = Some f" if "f \<in> set fs" for f
    using drained_frame_held [OF drain(2,3) that] .
  then have frames: "frames_ok fs"
    using held_frame_id [OF ok] ok_distinct [OF ok] drain(3) by (auto simp: frames_ok_def)
  have "unat (df_length f) = 0" if "held u m' = Some f" for f
    using publish_changed_length [OF pub \<open>r\<close> that] by simp
  then have empty: "\<forall>f\<in>set fs. df_universe_id f = u \<longrightarrow> unat (df_length f) = 0" using at by auto
  have "\<exists>res rt' m''. pump rt m' = Some ((res, rt'), m'') \<and> queued_ids m'' = [] \<and> input_frame rt' u = input_frame rt u" for rt
  proof -
    obtain f where "f \<in> set fs" "df_universe_id f = u" using waiting unfolding drain(3) [symmetric] by auto
    then show ?thesis
      using submit_each_defined [OF frames, of rt] empty drain(1,4) by (auto simp: pump_def submit_frames_def)
  qed
  then show ?thesis using pub post(1,2) waiting by auto
qed

theorem empty_packet_never_arrives_witness:
  "\<exists>m'. publish 3 (Some [9]) 0 1 5 sample_mailbox = Some (True, m') \<and> known m' 3 = Some (\<lambda>_. 0)"
proof -
  have sub: "wants (mb_subscription sample_mailbox) 3"
    unfolding sample_mailbox_def set_subscription_fields(1) [OF slots_in_range [OF mailbox_ok_empty]]
    by (auto simp: wants_def build_contains kArtNetUniverseCount_def intro!: exI [of _ 0])
  have "\<not> wants (mb_subscription empty_mailbox) 3" by (simp add: empty_mailbox_def wants_def)
  then have "known sample_mailbox 3 = None"
    unfolding sample_mailbox_def set_subscription_known [OF mailbox_ok_empty subscription_ok_build]
    by (simp add: has_new_offsets_def)
  then have "known sample_mailbox 3 \<noteq> Some (\<lambda>_. 0)" by simp
  from empty_packet_never_arrives [OF sample_mailbox_ok sub this] show ?thesis by blast
qed

end
