(* ===== verification/Latency_Histogram.thy ===== *)
theory Latency_Histogram
  imports Prelude
begin

text \<open>
  The fixed-storage latency histogram (\<open>dmx/latency_histogram.h\<close>): 32 buckets with upper bounds 1, 2, 4,
  ..., 2^31, and percentiles read off the bucket counts. Counters are 64-bit words.
\<close>

record latency_histogram =
  lh_buckets :: "u64 list"
  lh_samples :: u64
  lh_maximum_us :: u64

record latency_windows =
  lw_lifetime :: latency_histogram
  lw_interval :: latency_histogram

definition empty_histogram :: latency_histogram where
  "empty_histogram = \<lparr>lh_buckets = replicate 32 0, lh_samples = 0, lh_maximum_us = 0\<rparr>"

function find_bucket :: "nat \<Rightarrow> u64 \<Rightarrow> nat \<Rightarrow> nat" where
  "find_bucket size_of_buckets value_us bucket =
     (if bucket + 1 < size_of_buckets \<and> value_us > push_bit bucket 1
      then find_bucket size_of_buckets value_us (bucket + 1) else bucket)"
  by pat_completeness auto
termination by (relation "measure (\<lambda>(n, _, b). n - b)") auto

declare find_bucket.simps [simp del]

definition observe_latency :: "u64 \<Rightarrow> latency_histogram \<Rightarrow> latency_histogram" where
  "observe_latency value_us h =
     (let bucket = find_bucket (length (lh_buckets h)) value_us 0
      in h\<lparr>lh_buckets := (lh_buckets h)[bucket := lh_buckets h ! bucket + 1],
           lh_samples := lh_samples h + 1, lh_maximum_us := max (lh_maximum_us h) value_us\<rparr>)"

fun scan_buckets :: "u64 \<Rightarrow> u64 \<Rightarrow> u64 \<Rightarrow> nat \<Rightarrow> u64 list \<Rightarrow> u64" where
  "scan_buckets target maximum_us count index [] = maximum_us"
| "scan_buckets target maximum_us count index (b # bs) =
     (let count' = count + b
      in if count' \<ge> target then min (push_bit index 1) maximum_us
         else scan_buckets target maximum_us count' (index + 1) bs)"

definition percentile :: "u32 \<Rightarrow> latency_histogram \<Rightarrow> u64" where
  "percentile percent h =
     (if lh_samples h = 0 then 0
      else
        let target = (lh_samples h div 100) * ucast percent + ((lh_samples h mod 100) * ucast percent + 99) div 100
        in scan_buckets target (lh_maximum_us h) 0 0 (lh_buckets h))"

definition observe_windows :: "u64 \<Rightarrow> bool \<Rightarrow> latency_windows \<Rightarrow> latency_windows" where
  "observe_windows value_us trace_enabled w =
     (let w1 = w\<lparr>lw_lifetime := observe_latency value_us (lw_lifetime w)\<rparr>
      in if trace_enabled then w1\<lparr>lw_interval := observe_latency value_us (lw_interval w)\<rparr> else w1)"

definition consume_interval :: "latency_windows \<Rightarrow> latency_histogram \<times> latency_windows" where
  "consume_interval w = (lw_interval w, w\<lparr>lw_interval := empty_histogram\<rparr>)"

subsection \<open>Buckets\<close>

text \<open>The least \<open>b < 31\<close> with \<open>v \<le> 2^b\<close>, or 31.\<close>

definition bucket_of :: "u64 \<Rightarrow> nat" where
  "bucket_of v = find_bucket 32 v 0"

lemma unat_push_bit_one: "k < 64 \<Longrightarrow> unat (push_bit k (1 :: u64)) = 2 ^ k"
  by (subst unsigned_push_bit_eq) (simp add: push_bit_eq_mult take_bit_nat_eq_self)

lemma find_bucket_bounds: "b < 32 \<Longrightarrow> b \<le> find_bucket 32 v b \<and> find_bucket 32 v b < 32"
proof (induction "32 :: nat" v b rule: find_bucket.induct)
  case (1 v b)
  show ?case
  proof (cases "b + 1 < 32 \<and> v > push_bit b 1")
    case True
    then have "find_bucket 32 v b = find_bucket 32 v (b + 1)" by (subst find_bucket.simps) simp
    then show ?thesis using 1 True by auto
  next
    case False
    then have "find_bucket 32 v b = b" by (subst find_bucket.simps) auto
    then show ?thesis using 1 by simp
  qed
qed

lemma find_bucket_le_iff:
  "b \<le> c \<Longrightarrow> c < 31 \<Longrightarrow> find_bucket 32 v b \<le> c \<longleftrightarrow> unat v \<le> 2 ^ c"
proof (induction "32 :: nat" v b rule: find_bucket.induct)
  case (1 v b)
  have pb: "push_bit b 1 < v \<longleftrightarrow> 2 ^ b < unat v"
    using 1(2,3) unat_push_bit_one [of b] by (simp add: word_less_nat_alt)
  show ?case
  proof (cases "2 ^ b < unat v")
    case True
    then have step: "find_bucket 32 v b = find_bucket 32 v (b + 1)"
      using pb 1(2,3) by (subst find_bucket.simps) simp
    show ?thesis
    proof (cases "b = c")
      case True
      have "b + 1 \<le> find_bucket 32 v (b + 1)" using find_bucket_bounds [of "b + 1" v] 1(3) True by simp
      then show ?thesis using step \<open>2 ^ b < unat v\<close> True by simp
    next
      case False
      then show ?thesis using 1 pb \<open>2 ^ b < unat v\<close> step by simp
    qed
  next
    case False
    then have "find_bucket 32 v b = b" using pb by (subst find_bucket.simps) simp
    moreover have "unat v \<le> 2 ^ c" 
    proof -
      have "(2 :: nat) ^ b \<le> 2 ^ c" using 1(2) by simp
      then show ?thesis using False by linarith
    qed
    ultimately show ?thesis using 1(2) by simp
  qed
qed

lemma bucket_le_iff: "c < 31 \<Longrightarrow> bucket_of v \<le> c \<longleftrightarrow> unat v \<le> 2 ^ c"
  by (simp add: bucket_of_def find_bucket_le_iff)

lemma bucket_less: "bucket_of v < 32"
  using find_bucket_bounds [of 0 v] by (simp add: bucket_of_def)

lemma bucket_mono: "unat v \<le> unat w \<Longrightarrow> bucket_of v \<le> bucket_of w"
proof (cases "bucket_of w < 31")
  case True
  assume "unat v \<le> unat w"
  moreover have "unat w \<le> 2 ^ bucket_of w" using bucket_le_iff [OF True, of w] by simp
  ultimately show ?thesis using bucket_le_iff [OF True, of v] by simp
next
  case False
  then show ?thesis using bucket_less [of v] by simp
qed

subsection \<open>The state after a list of observations\<close>

fun observe_latencies :: "u64 list \<Rightarrow> latency_histogram \<Rightarrow> latency_histogram" where
  "observe_latencies [] h = h"
| "observe_latencies (v # vs) h = observe_latencies vs (observe_latency v h)"

definition in_bucket :: "nat \<Rightarrow> u64 list \<Rightarrow> nat" where
  "in_bucket i vs = length (filter (\<lambda>v. bucket_of v = i) vs)"

definition up_to_bucket :: "nat \<Rightarrow> u64 list \<Rightarrow> nat" where
  "up_to_bucket i vs = length (filter (\<lambda>v. bucket_of v < i) vs)"

lemma observe_latencies_state:
  assumes "length (lh_buckets h) = 32"
  shows "length (lh_buckets (observe_latencies vs h)) = 32
     \<and> (\<forall>i < 32. lh_buckets (observe_latencies vs h) ! i = lh_buckets h ! i + of_nat (in_bucket i vs))
     \<and> lh_samples (observe_latencies vs h) = lh_samples h + of_nat (length vs)
     \<and> lh_maximum_us (observe_latencies vs h) = fold max vs (lh_maximum_us h)"
  using assms
proof (induction vs arbitrary: h)
  case (Cons v vs)
  have len: "length (lh_buckets (observe_latency v h)) = 32" using Cons.prems by (simp add: observe_latency_def Let_def)
  have "lh_buckets (observe_latency v h) ! i = lh_buckets h ! i + (if bucket_of v = i then 1 else 0)" if "i < 32" for i
    using that Cons.prems bucket_less [of v] by (auto simp: observe_latency_def Let_def bucket_of_def nth_list_update)
  then show ?case
    using Cons.IH [OF len] by (auto simp: in_bucket_def observe_latency_def Let_def max.commute)
qed (simp add: in_bucket_def)

lemma up_to_bucket_Suc: "up_to_bucket (Suc i) vs = up_to_bucket i vs + in_bucket i vs"
  by (induction vs) (auto simp: up_to_bucket_def in_bucket_def less_Suc_eq)

lemma up_to_bucket_le: "up_to_bucket i vs \<le> length vs"
  by (simp add: up_to_bucket_def)

lemma up_to_bucket_all: "up_to_bucket 32 vs = length vs"
  by (simp add: up_to_bucket_def bucket_less)

text \<open>The scan stops at the first bucket at which the running count reaches the target.\<close>

lemma scan_buckets_finds:
  assumes "length vs < 2 ^ 64" and "k \<le> 32" and "bs = map (\<lambda>i. of_nat (in_bucket i vs)) [k..<32]"
    and "unat target \<le> length vs" and "up_to_bucket k vs < unat target" and "m < 32"
    and "up_to_bucket m vs < unat target" and "unat target \<le> up_to_bucket (Suc m) vs" and "k \<le> m"
  shows "scan_buckets target maximum (of_nat (up_to_bucket k vs)) k bs = min (push_bit m 1) maximum"
  using assms
proof (induction bs arbitrary: k)
  case Nil
  then show ?case by simp
next
  case (Cons b bs)
  then have k: "k < 32" by auto
  then have "[k..<32] = k # [Suc k..<32]" by (simp add: upt_conv_Cons)
  then have b: "b = of_nat (in_bucket k vs)" and bs: "bs = map (\<lambda>i. of_nat (in_bucket i vs)) [Suc k..<32]"
    using Cons.prems(3) by simp_all
  have sum: "of_nat (up_to_bucket k vs) + b = (of_nat (up_to_bucket (Suc k) vs) :: u64)"
    by (simp add: b up_to_bucket_Suc)
  have small: "unat (of_nat (up_to_bucket (Suc k) vs) :: u64) = up_to_bucket (Suc k) vs"
    using up_to_bucket_le [of "Suc k" vs] Cons.prems(1) by (simp add: unat_of_nat take_bit_nat_eq_self)
  show ?case
  proof (cases "k = m")
    case True
    then have "target \<le> of_nat (up_to_bucket (Suc k) vs)"
      using Cons.prems(8) small True by (simp add: word_le_nat_alt)
    then show ?thesis by (simp add: sum [unfolded True] True Let_def)
  next
    case False
    then have later: "Suc k \<le> m" using Cons.prems(9) by simp
    then have "up_to_bucket (Suc k) vs \<le> up_to_bucket m vs"
      unfolding up_to_bucket_def by (induction vs) auto
    then have before: "up_to_bucket (Suc k) vs < unat target" using Cons.prems(7) by simp
    then have "\<not> target \<le> of_nat (up_to_bucket (Suc k) vs)" by (simp add: word_le_nat_alt small)
    then have "scan_buckets target maximum (of_nat (up_to_bucket k vs)) k (b # bs)
        = scan_buckets target maximum (of_nat (up_to_bucket (Suc k) vs)) (Suc k) bs"
      by (simp add: sum Let_def)
    also have "\<dots> = min (push_bit m 1) maximum"
      by (rule Cons.IH [OF Cons.prems(1) _ bs Cons.prems(4) before Cons.prems(6,7,8) later]) (use k in simp)
    finally show ?thesis .
  qed
qed

subsection \<open>Percentiles\<close>

text \<open>The nearest-rank percentile of a list of values: the value at position \<open>ceiling (n * p / 100)\<close> (from
  1) of the sorted list.\<close>

definition rank :: "nat \<Rightarrow> nat \<Rightarrow> nat" where
  "rank n p = (n * p + 99) div 100"

definition nearest_rank :: "nat \<Rightarrow> u64 list \<Rightarrow> u64" where
  "nearest_rank p vs = sort vs ! (rank (length vs) p - 1)"

lemma rank_split: "n div 100 * p + (n mod 100 * p + 99) div 100 = rank n p"
proof -
  have "n * p = 100 * (n div 100 * p) + n mod 100 * p"
    by (metis add_mult_distrib div_mult_mod_eq mult.assoc mult.commute)
  then show ?thesis by (simp add: rank_def)
qed

lemma rank_bounds: "0 < n \<Longrightarrow> 0 < p \<Longrightarrow> p \<le> 100 \<Longrightarrow> 1 \<le> rank n p \<and> rank n p \<le> n"
proof -
  assume "0 < n" and "0 < p" and "p \<le> 100"
  then have "1 \<le> n * p" and "n * p \<le> n * 100" by simp_all
  moreover have "1 \<le> (x + 99) div 100 \<and> (x + 99) div 100 \<le> n" if "1 \<le> x" and "x \<le> n * 100" for x
  proof -
    have "x + 99 < Suc n * 100" using that(2) by simp
    then have "(x + 99) div 100 < Suc n" by (rule less_mult_imp_div_less)
    moreover have "100 div 100 \<le> (x + 99) div 100" using that(1) by (intro div_le_mono) simp
    ultimately show ?thesis by simp
  qed
  ultimately show ?thesis unfolding rank_def by blast
qed

lemma target_rank:
  assumes n: "length vs < 2 ^ 57" and p: "unat percent \<le> 100"
  defines "samples \<equiv> (of_nat (length vs) :: u64)"
  shows "unat ((samples div 100) * ucast (percent :: u32) + ((samples mod 100) * ucast percent + 99) div 100)
     = rank (length vs) (unat percent)"
proof -
  have s: "unat samples = length vs" using n by (simp add: samples_def unat_of_nat take_bit_nat_eq_self)
  have pc: "unat (ucast percent :: u64) = unat percent"
    by (rule unat_ucast_widen) simp
  let ?q = "length vs div 100" and ?r = "length vs mod 100" and ?p = "unat percent"
  have q: "?q * ?p \<le> length vs"
    by (rule order_trans [OF mult_le_mono2 [OF p] div_times_less_eq_dividend])
  have r: "?r * ?p + 99 < 2 ^ 64"
    using mult_le_mono [OF less_imp_le [of ?r 100] p] by simp
  have a: "unat ((samples div 100) * ucast percent) = ?q * ?p"
    using q n by (simp add: unat_mult_lem [THEN iffD1] unat_div s pc)
  have b: "unat (((samples mod 100) * ucast percent + 99) div 100) = (?r * ?p + 99) div 100"
  proof -
    have m: "unat ((samples mod 100) * ucast percent) = ?r * ?p"
      using r by (simp add: unat_mult_lem [THEN iffD1] unat_mod s pc)
    have "unat ((samples mod 100) * ucast percent + 99) = ?r * ?p + 99"
      using r by (subst unat_add_lem [THEN iffD1]) (simp_all add: m)
    then show ?thesis by (simp add: unat_div)
  qed
  have "(?r * ?p + 99) div 100 \<le> 100" using mult_le_mono [OF less_imp_le [of ?r 100] p] by simp
  then have "?q * ?p + (?r * ?p + 99) div 100 < 2 ^ 64" using q n by simp
  then show ?thesis by (subst unat_add_lem [THEN iffD1]) (simp_all add: a b rank_split)
qed

lemma sorted_filter_prefix:
  "sorted xs \<Longrightarrow> (\<And>x y. x \<le> y \<Longrightarrow> P y \<Longrightarrow> P x) \<Longrightarrow> j < length xs \<Longrightarrow>
     P (xs ! j) \<longleftrightarrow> j < length (filter P xs)"
proof (induction xs arbitrary: j)
  case (Cons x xs)
  show ?case
  proof (cases "P x")
    case True
    then show ?thesis using Cons by (cases j) auto
  next
    case False
    then have "\<not> P y" if "y \<in> set (x # xs)" for y using that Cons.prems(1,2) by auto
    then have "filter P (x # xs) = []" and "\<not> P ((x # xs) ! j)" using nth_mem [OF Cons.prems(3)] by (simp_all add: filter_empty_conv)
    then show ?thesis by simp
  qed
qed simp

lemma rank_bucket:
  assumes "1 \<le> t" and "t \<le> length vs"
  shows "up_to_bucket i vs < t \<longleftrightarrow> i \<le> bucket_of (sort vs ! (t - 1))"
proof -
  let ?P = "\<lambda>v. bucket_of v < i"
  have len: "length (filter ?P (sort vs)) = up_to_bucket i vs"
    by (simp add: up_to_bucket_def filter_sort)
  have "?P (sort vs ! (t - 1)) \<longleftrightarrow> t - 1 < length (filter ?P (sort vs))"
    using assms bucket_mono
    by (intro sorted_filter_prefix) (auto simp: word_le_nat_alt intro: le_less_trans)
  then show ?thesis using assms(1) unfolding len by auto
qed

lemma bucket_upper:
  assumes "unat v \<le> 2 ^ 31"
  shows "v \<le> push_bit (bucket_of v) 1"
proof -
  have "unat v \<le> 2 ^ bucket_of v"
  proof (cases "bucket_of v < 31")
    case True
    then show ?thesis using bucket_le_iff [OF True, of v] by simp
  next
    case False
    then have "bucket_of v = 31" using bucket_less [of v] by simp
    then show ?thesis using assms by simp
  qed
  then show ?thesis using bucket_less [of v] unat_push_bit_one [of "bucket_of v"] by (simp add: word_le_nat_alt)
qed

lemma bucket_lower:
  assumes "0 < unat v"
  shows "unat (push_bit (bucket_of v) 1 :: u64) < 2 * unat v"
proof -
  have "2 ^ bucket_of v < 2 * unat v"
  proof (cases "bucket_of v")
    case 0
    then show ?thesis using assms by simp
  next
    case (Suc c)
    then have "\<not> unat v \<le> 2 ^ c" using bucket_le_iff [of c v] bucket_less [of v] by simp
    then show ?thesis by (simp add: Suc)
  qed
  then show ?thesis using bucket_less [of v] unat_push_bit_one [of "bucket_of v"] by simp
qed

lemma fold_max_upper: "v \<in> set vs \<Longrightarrow> v \<le> fold max vs (m :: u64)"
proof -
  have mono: "m \<le> fold max vs m" for m :: u64 and vs
    by (induction vs arbitrary: m) (auto intro: order_trans [OF max.cobounded2])
  show "v \<in> set vs \<Longrightarrow> v \<le> fold max vs m"
    using mono by (induction vs arbitrary: m) (auto intro: order_trans [OF max.cobounded1])
qed

text \<open>Reading a percentile from the histogram after any list of latencies (fewer than 2^57, percent
  1 to 100) gives the upper bound of the bucket that holds the nearest-rank percentile of these
  latencies, capped by their maximum: never below the true percentile unless that exceeds 2^31
  microseconds, and, below that, less than twice it when it is at least 1.\<close>

theorem percentile_is_bucketed_rank:
  assumes "0 < length vs" and "length vs < 2 ^ 57" and "0 < unat percent" and "unat percent \<le> 100"
  shows "percentile percent (observe_latencies vs empty_histogram)
        = min (push_bit (bucket_of (nearest_rank (unat percent) vs)) 1) (fold max vs 0)
     \<and> (unat (nearest_rank (unat percent) vs) \<le> 2 ^ 31 \<longrightarrow>
          nearest_rank (unat percent) vs \<le> percentile percent (observe_latencies vs empty_histogram)
        \<and> (0 < unat (nearest_rank (unat percent) vs) \<longrightarrow>
             unat (percentile percent (observe_latencies vs empty_histogram)) < 2 * unat (nearest_rank (unat percent) vs)))"
proof -
  let ?t = "rank (length vs) (unat percent)" and ?h = "observe_latencies vs empty_histogram"
  let ?v = "nearest_rank (unat percent) vs"
  let ?b = "bucket_of ?v"
  have t: "1 \<le> ?t" "?t \<le> length vs" using rank_bounds assms(1,3,4) by blast+
  have state: "length (lh_buckets ?h) = 32" "lh_samples ?h = of_nat (length vs)" "lh_maximum_us ?h = fold max vs 0"
      "\<And>i. i < 32 \<Longrightarrow> lh_buckets ?h ! i = of_nat (in_bucket i vs)"
    using observe_latencies_state [of empty_histogram vs] by (simp_all add: empty_histogram_def)
  have buckets: "lh_buckets ?h = map (\<lambda>i. of_nat (in_bucket i vs)) [0..<32]"
    by (rule nth_equalityI) (simp_all add: state)
  define target where "target = (lh_samples ?h div 100) * ucast percent + ((lh_samples ?h mod 100) * ucast percent + 99) div 100"
  have target: "unat target = ?t"
    unfolding target_def state(2) by (rule target_rank [OF assms(2,4)])
  have found: "up_to_bucket ?b vs < ?t" "?t \<le> up_to_bucket (Suc ?b) vs"
    using rank_bucket [OF t, of ?b] rank_bucket [OF t, of "Suc ?b"] by (simp_all add: nearest_rank_def)
  have "unat (of_nat (length vs) :: u64) = length vs"
    using assms(2) by (simp add: unat_of_nat take_bit_nat_eq_self)
  then have nonzero: "lh_samples ?h \<noteq> 0" using assms(1) by (auto simp: state(2) unat_eq_0)
  have "scan_buckets target (fold max vs 0) (of_nat (up_to_bucket 0 vs)) 0 (lh_buckets ?h) = min (push_bit ?b 1) (fold max vs 0)"
    by (rule scan_buckets_finds [OF _ _ buckets])
       (use assms(2) t found bucket_less [of ?v] in \<open>simp_all add: target up_to_bucket_def [of 0]\<close>)
  then have eq: "percentile percent ?h = min (push_bit ?b 1) (fold max vs 0)"
    using nonzero by (simp add: percentile_def Let_def target_def state(3) up_to_bucket_def)
  have mem: "?v \<in> set vs"
    using nth_mem [of "?t - 1" "sort vs"] t assms(1) by (simp add: nearest_rank_def)
  have "?v \<le> percentile percent ?h" if "unat ?v \<le> 2 ^ 31"
    unfolding eq using bucket_upper [OF that] fold_max_upper [OF mem] by simp
  moreover have "unat (percentile percent ?h) < 2 * unat ?v" if "0 < unat ?v"
    unfolding eq using bucket_lower [OF that] by (simp add: min_def word_le_nat_alt)
  ultimately show ?thesis using eq by blast
qed

theorem percentile_is_bucketed_rank_witness:
  "percentile 50 (observe_latencies [3, 900, 5] empty_histogram) = 8
   \<and> percentile 50 (observe_latencies [3, 900, 5] empty_histogram)
        = min (push_bit (bucket_of (nearest_rank (unat (50 :: u32)) [3, 900, 5])) 1) (fold max [3, 900, 5] 0)"
proof -
  have "nearest_rank (unat (50 :: u32)) [3, 900, 5] = 5"
    by (simp add: nearest_rank_def rank_def)
  moreover have "bucket_of 5 = 3"
    unfolding bucket_of_def by (simp add: find_bucket.simps)
  ultimately show ?thesis using percentile_is_bucketed_rank [of "[3, 900, 5]" 50] by simp
qed

end
