(* ===== verification/Text_Numbers.thy ===== *)
theory Text_Numbers
  imports Prelude
begin

text \<open>
  The C library's decimal conversions as the code calls them: \<open>strtol\<close>, \<open>strtoul\<close> and their 64-bit forms
  (with \<open>long\<close> of 64 bits), \<open>std::from_chars\<close> for \<open>int\<close>, and \<open>std::to_string\<close>. A conversion returns the
  value and the text its end pointer points to.
\<close>

subsection \<open>Digits\<close>

definition digit_value :: "char \<Rightarrow> nat" where
  "digit_value c = code_of c - 48"

definition decimal :: "string \<Rightarrow> nat" where
  "decimal ds = foldl (\<lambda>n c. 10 * n + digit_value c) 0 ds"

fun dec_string :: "nat \<Rightarrow> string" where
  "dec_string n = (if n < 10 then [char_of (48 + n)] else dec_string (n div 10) @ [char_of (48 + n mod 10)])"

declare dec_string.simps [simp del]

definition int_string :: "int \<Rightarrow> string" where
  "int_string i = (if i < 0 then CHR ''-'' # dec_string (nat (- i)) else dec_string (nat i))"

lemma decimal_snoc: "decimal (ds @ [c]) = 10 * decimal ds + digit_value c"
  by (simp add: decimal_def)

lemma isdigit_char_of: "d < 10 \<Longrightarrow> isdigit_c (char_of (48 + d)) \<and> digit_value (char_of (48 + d)) = d"
  by (simp add: isdigit_c_def digit_value_def)

lemma dec_string_digits: "\<forall>c\<in>set (dec_string n). isdigit_c c"
proof (induction n rule: dec_string.induct)
  case (1 n)
  then show ?case
    by (subst dec_string.simps) (auto simp: isdigit_char_of split: if_splits)
qed

lemma dec_string_not_Nil [simp]: "dec_string n \<noteq> []" "[] \<noteq> dec_string n"
  by (subst dec_string.simps, simp)+

lemma decimal_dec_string [simp]: "decimal (dec_string n) = n"
proof (induction n rule: dec_string.induct)
  case (1 n)
  show ?case
  proof (cases "n < 10")
    case True
    then show ?thesis
      by (subst dec_string.simps) (simp add: decimal_def isdigit_char_of)
  next
    case False
    then show ?thesis
      using 1 by (subst dec_string.simps) (simp add: decimal_snoc isdigit_char_of)
  qed
qed

lemma dec_string_inj: "dec_string m = dec_string n \<longleftrightarrow> m = n"
  by (metis decimal_dec_string)

subsection \<open>C strings and conversions\<close>

text \<open>What \<open>c_str()\<close> shows to a C function: the characters before the first NUL.\<close>

definition c_str :: "string \<Rightarrow> string" where
  "c_str s = takeWhile (\<lambda>c. code_of c \<noteq> 0) s"

definition sign_and_rest :: "string \<Rightarrow> bool \<times> string" where
  "sign_and_rest s =
     (case s of [] \<Rightarrow> (False, [])
      | c # cs \<Rightarrow> if c = CHR ''-'' then (True, cs) else if c = CHR ''+'' then (False, cs) else (False, s))"

definition ULONG_MAX :: nat where
  "ULONG_MAX = 18446744073709551615"

definition strtoul :: "string \<Rightarrow> nat \<times> string" where
  "strtoul s =
     (let (negative, t) = sign_and_rest (trim_left s);
          ds = takeWhile isdigit_c t;
          v = decimal ds
      in if ds = [] then (0, s)
         else (if v > ULONG_MAX then ULONG_MAX else if negative then (ULONG_MAX + 1 - v) mod (ULONG_MAX + 1) else v,
               dropWhile isdigit_c t))"

definition LONG_MAX :: int where
  "LONG_MAX = 9223372036854775807"

definition strtol :: "string \<Rightarrow> int \<times> string" where
  "strtol s =
     (let (negative, t) = sign_and_rest (trim_left s);
          ds = takeWhile isdigit_c t;
          v = int (decimal ds)
      in if ds = [] then (0, s)
         else (if negative then max (- v) (- LONG_MAX - 1) else min v LONG_MAX, dropWhile isdigit_c t))"

definition INT_MAX :: int where
  "INT_MAX = 2147483647"

text \<open>\<open>std::from_chars\<close> on \<open>int\<close>: no leading space and no plus sign; \<^term>\<open>None\<close> is an error code.\<close>

definition from_chars_int :: "string \<Rightarrow> (int \<times> string) option" where
  "from_chars_int s =
     (let (negative, t) = (case s of [] \<Rightarrow> (False, []) | c # cs \<Rightarrow> if c = CHR ''-'' then (True, cs) else (False, s));
          ds = takeWhile isdigit_c t;
          v = (if negative then - int (decimal ds) else int (decimal ds))
      in if ds = [] \<or> v > INT_MAX \<or> v < - INT_MAX - 1 then None else Some (v, dropWhile isdigit_c t))"

lemma digit_not_space: "isdigit_c c \<Longrightarrow> \<not> isspace_c c"
  by (auto simp: isdigit_c_def isspace_c_def)

lemma digit_not_sign: "isdigit_c c \<Longrightarrow> c \<noteq> CHR ''-'' \<and> c \<noteq> CHR ''+''"
  by (auto simp: isdigit_c_def code_of_def)

lemma digit_not_nul: "isdigit_c c \<Longrightarrow> 0 < code_of c"
  by (simp add: isdigit_c_def)

lemma c_str_digits: "\<forall>c\<in>set s. isdigit_c c \<Longrightarrow> c_str s = s"
  by (auto simp: c_str_def digit_not_nul takeWhile_eq_all_conv)

lemma digits_start:
  assumes "ds \<noteq> []" and "\<forall>c\<in>set ds. isdigit_c c"
  shows "trim_left (ds @ r) = ds @ r" and "sign_and_rest (ds @ r) = (False, ds @ r)"
  using assms by (cases ds; auto simp: trim_left_def sign_and_rest_def digit_not_space dest: digit_not_sign)+

lemma strtoul_digits:
  assumes "ds \<noteq> []" and "\<forall>c\<in>set ds. isdigit_c c" and "decimal ds \<le> ULONG_MAX"
  shows "strtoul ds = (decimal ds, [])"
  using assms digits_start [OF assms(1,2), of "[]"]
  by (simp add: strtoul_def Let_def takeWhile_eq_all_conv [THEN iffD2] dropWhile_eq_Nil_conv [THEN iffD2] not_less)

lemma strtoul_dec_string: "n \<le> ULONG_MAX \<Longrightarrow> strtoul (dec_string n) = (n, [])"
  using strtoul_digits [of "dec_string n"] dec_string_digits [of n] by simp

lemma strtol_digits:
  assumes "ds \<noteq> []" and "\<forall>c\<in>set ds. isdigit_c c" and "int (decimal ds) \<le> LONG_MAX"
  shows "strtol ds = (int (decimal ds), [])"
  using assms digits_start [OF assms(1,2), of "[]"]
  by (simp add: strtol_def Let_def takeWhile_eq_all_conv [THEN iffD2] dropWhile_eq_Nil_conv [THEN iffD2])

lemma strtol_dec_string: "int n \<le> LONG_MAX \<Longrightarrow> strtol (dec_string n) = (int n, [])"
  using strtol_digits [of "dec_string n"] dec_string_digits [of n] by simp

lemma dec_string_not_space:
  "\<not> isspace_c (hd (dec_string n))" "\<not> isspace_c (last (dec_string n))"
  using dec_string_digits [of n] by (simp_all add: digit_not_space)

end
