(* ===== verification/Mode_Master.thy ===== *)
theory Mode_Master
  imports Text_Numbers
begin

text \<open>
  ModeMaster conditions of GDTF channel functions (\<open>gdtf_runtime/mode_master.cpp\<close>): the DMXValue syntax
  and its conversion between byte widths, the resolution of a condition's link, the check of the
  dependency graph, and the activation cascade. \<open>int32_t\<close> ids are only compared and are ints.
\<close>

datatype target_kind = No_target | Dmx_channel | Channel_function | Invalid_target

datatype dmx_conversion = Mirror | Shift

record parsed_dmx_value =
  dv_value :: u32
  dv_byte_count :: u8
  dv_conversion :: dmx_conversion

record mode_master_condition =
  mc_target_kind :: target_kind
  mc_target_id :: int
  mc_master_program_id :: int
  mc_from :: u32
  mc_to :: u32
  mc_master_byte_count :: u8
  mc_source_link :: string
  mc_valid :: bool
  mc_master_channel_id :: int

record mode_master_node =
  mn_kind :: target_kind
  mn_id :: int
  mn_channel_id :: int
  mn_source_program_id :: int
  mn_byte_count :: u8
  mn_path :: string

record activation =
  cf_function_id :: int
  cf_source_id :: int
  cf_dmx_from :: u32
  cf_dmx_to :: u32
  cf_mode_master :: mode_master_condition

definition blank_condition :: mode_master_condition where
  "blank_condition = \<lparr>mc_target_kind = No_target, mc_target_id = 0, mc_master_program_id = 0, mc_from = 0,
     mc_to = 0, mc_master_byte_count = 1, mc_source_link = [], mc_valid = True, mc_master_channel_id = 0\<rparr>"

subsection \<open>DMX values\<close>

definition byte_max :: "u8 \<Rightarrow> u32" where
  "byte_max bytes =
     (if bytes = 0 \<or> bytes > 4 then 0
      else if bytes = 4 then 0xffffffff else push_bit (unat bytes * 8) 1 - 1)"

text \<open>\<open>text.find('/')\<close> and the two substrings; without a slash the resolution is 1.\<close>

definition split_resolution :: "string \<Rightarrow> string \<times> string" where
  "split_resolution text =
     (if CHR ''/'' \<in> set text
      then (takeWhile (\<lambda>c. c \<noteq> CHR ''/'') text, tl (dropWhile (\<lambda>c. c \<noteq> CHR ''/'') text))
      else (text, ''1''))"

definition parse_gdtf_dmx_value :: "string \<Rightarrow> parsed_dmx_value option" where
  "parse_gdtf_dmx_value raw =
     (let text = trim_both raw;
          (value_text, resolution) = split_resolution text
      in if text = [] \<or> resolution = [] then None
         else
           let shifted = (last resolution = CHR ''s'' \<or> last resolution = CHR ''S'');
               resolution1 = (if shifted then butlast resolution else resolution);
               (bytes, bytes_end) = strtoul (c_str resolution1);
               (v, value_end) = strtoul (c_str value_text)
           in if bytes_end = c_str resolution1 \<or> bytes_end \<noteq> [] \<or> bytes < 1 \<or> bytes > 4 then None
              else if value_end = c_str value_text \<or> value_end \<noteq> [] \<or> v > unat (byte_max (of_nat bytes)) then None
              else Some \<lparr>dv_value = of_nat v, dv_byte_count = of_nat bytes,
                         dv_conversion = (if shifted then Shift else Mirror)\<rparr>)"

text \<open>The mirroring loop; \<open>filled\<close> grows by at least one while it runs.\<close>

function mirror_bytes :: "u32 \<Rightarrow> nat \<Rightarrow> nat \<Rightarrow> u32 \<Rightarrow> nat \<Rightarrow> u32" where
  "mirror_bytes v byte_count target_bytes converted filled =
     (if filled < target_bytes \<and> 0 < byte_count
      then let n = min byte_count (target_bytes - filled)
           in mirror_bytes v byte_count target_bytes
                (push_bit (n * 8) converted OR drop_bit ((byte_count - n) * 8) v) (filled + n)
      else converted)"
  by pat_completeness auto
termination
  by (relation "measure (\<lambda>(v, b, t, c, f). t - f)") (auto simp: min_def)

declare mirror_bytes.simps [simp del]

definition convert_gdtf_dmx_value :: "parsed_dmx_value \<Rightarrow> u8 \<Rightarrow> u32 option" where
  "convert_gdtf_dmx_value d target_bytes =
     (if dv_byte_count d = 0 \<or> dv_byte_count d > 4 \<or> target_bytes = 0 \<or> target_bytes > 4 then None
      else if dv_byte_count d = target_bytes then Some (dv_value d)
      else if dv_byte_count d > target_bytes
      then Some (drop_bit ((unat (dv_byte_count d) - unat target_bytes) * 8) (dv_value d))
      else if dv_conversion d = Shift
      then Some (push_bit ((unat target_bytes - unat (dv_byte_count d)) * 8) (dv_value d))
      else Some (mirror_bytes (dv_value d) (unat (dv_byte_count d)) (unat target_bytes) (dv_value d)
                   (unat (dv_byte_count d))))"

definition parse_and_convert_gdtf_dmx_value :: "string \<Rightarrow> u8 \<Rightarrow> u32 option" where
  "parse_and_convert_gdtf_dmx_value raw target_bytes =
     (case parse_gdtf_dmx_value raw of None \<Rightarrow> None | Some d \<Rightarrow> convert_gdtf_dmx_value d target_bytes)"

subsection \<open>Resolving a condition\<close>

text \<open>The loop over the nodes: the first match, unless a second one makes the link ambiguous.\<close>

datatype node_match = No_match | Ambiguous | Match mode_master_node

fun match_node :: "string \<Rightarrow> mode_master_node list \<Rightarrow> node_match \<Rightarrow> node_match" where
  "match_node link [] found = found"
| "match_node link (n # ns) found =
     (if mn_path n \<noteq> link then match_node link ns found
      else case found of No_match \<Rightarrow> match_node link ns (Match n) | _ \<Rightarrow> Ambiguous)"

text \<open>The condition that is returned, and the diagnostic when resolving fails (\<open>Inl\<close>). On a range error
  \<open>out.from\<close> and \<open>out.to\<close> hold what was converted before the failure.\<close>

definition resolve_mode_master_condition ::
  "string \<Rightarrow> string \<Rightarrow> string \<Rightarrow> mode_master_node list \<Rightarrow> mode_master_condition \<times> (string + unit)" where
  "resolve_mode_master_condition source_link mode_from mode_to nodes =
     (let link = trim_both source_link;
          out = blank_condition\<lparr>mc_source_link := link\<rparr>;
          invalid = out\<lparr>mc_target_kind := Invalid_target, mc_valid := False\<rparr>
      in if link = [] \<or> hd link = CHR ''.'' \<or> last link = CHR ''.'' \<or> str_contains ''..'' link
         then (invalid, Inl ''PVZ-GDTF-MODEMASTER-NODE-MALFORMED'')
         else case match_node link nodes No_match of
           Ambiguous \<Rightarrow> (invalid, Inl ''PVZ-GDTF-MODEMASTER-NODE-AMBIGUOUS'')
         | No_match \<Rightarrow> (invalid, Inl ''PVZ-GDTF-MODEMASTER-UNRESOLVED'')
         | Match n \<Rightarrow>
             let from_source = (if trim_both mode_from = [] then ''0/1'' else mode_from);
                 to_source = (if trim_both mode_to = [] then ''0/1'' else mode_to)
             in case parse_and_convert_gdtf_dmx_value from_source (mn_byte_count n) of
                  None \<Rightarrow> (invalid, Inl ''PVZ-GDTF-MODEMASTER-RANGE-INVALID'')
                | Some a \<Rightarrow>
                    (case parse_and_convert_gdtf_dmx_value to_source (mn_byte_count n) of
                       None \<Rightarrow> (invalid\<lparr>mc_from := a\<rparr>, Inl ''PVZ-GDTF-MODEMASTER-RANGE-INVALID'')
                     | Some b \<Rightarrow>
                         if a > b then (invalid\<lparr>mc_from := a, mc_to := b\<rparr>, Inl ''PVZ-GDTF-MODEMASTER-RANGE-INVALID'')
                         else (out\<lparr>mc_from := a, mc_to := b, mc_target_kind := mn_kind n, mc_target_id := mn_id n,
                                   mc_master_program_id := mn_source_program_id n,
                                   mc_master_channel_id := mn_channel_id n,
                                   mc_master_byte_count := mn_byte_count n, mc_valid := True\<rparr>, Inr ())))"

subsection \<open>The dependency graph\<close>

datatype visit_mark = Unvisited | Visiting | Visited

text \<open>\<open>indexes\<close>: for a repeated function id the last position wins.\<close>

definition index_of_function :: "activation list \<Rightarrow> int \<Rightarrow> nat option" where
  "index_of_function fs i = map_of (rev (zip (map cf_function_id fs) [0..<length fs])) i"

definition cycle_diagnostic :: "activation \<Rightarrow> string" where
  "cycle_diagnostic f = ''PVZ-GDTF-MODEMASTER-CYCLE:function='' @ int_string (cf_function_id f)"

definition unresolved_diagnostic :: "activation \<Rightarrow> string" where
  "unresolved_diagnostic f = ''PVZ-GDTF-MODEMASTER-UNRESOLVED:function='' @ int_string (cf_function_id f)"

function visit :: "activation list \<Rightarrow> nat \<Rightarrow> visit_mark list \<Rightarrow> (string + visit_mark list) option" where
  "visit fs index state =
     (if length state \<le> index \<or> length fs \<le> index then None
      else if state ! index = Visiting then Some (Inl (cycle_diagnostic (fs ! index)))
      else if state ! index = Visited then Some (Inr state)
      else
        let state1 = state[index := Visiting];
            condition = cf_mode_master (fs ! index)
        in if mc_target_kind condition = Invalid_target \<or> \<not> mc_valid condition
           then Some (Inl (unresolved_diagnostic (fs ! index)))
           else if mc_target_kind condition = Channel_function
           then (case index_of_function fs (mc_target_id condition) of
                   None \<Rightarrow> Some (Inl (unresolved_diagnostic (fs ! index)))
                 | Some target \<Rightarrow>
                     (case visit fs target state1 of
                        None \<Rightarrow> None
                      | Some (Inl diagnostic) \<Rightarrow> Some (Inl diagnostic)
                      | Some (Inr state2) \<Rightarrow> Some (Inr (state2[index := Visited]))))
           else Some (Inr (state1[index := Visited])))"
  by pat_completeness auto

definition unvisited :: "visit_mark list \<Rightarrow> nat" where
  "unvisited state = length (filter (\<lambda>m. m = Unvisited) state)"

lemma unvisited_visiting: "i < length state \<Longrightarrow> state ! i = Unvisited \<Longrightarrow> unvisited (state[i := Visiting]) < unvisited state"
  unfolding unvisited_def
proof (induction state arbitrary: i)
  case (Cons m ms)
  then show ?case by (cases i) auto
qed simp

termination visit
proof (relation "measure (\<lambda>(fs, index, state). unvisited state)")
  fix fs :: "activation list" and index target state state1 condition
  assume "\<not> (length state \<le> index \<or> length fs \<le> index)" "state ! index \<noteq> Visiting" "state ! index \<noteq> Visited"
    and state1: "state1 = state[index := Visiting]"
  then have "index < length state" "state ! index = Unvisited" by (auto, cases "state ! index") auto
  then show "((fs, target, state1), (fs, index, state)) \<in> measure (\<lambda>(fs, index, state). unvisited state)"
    unfolding state1 by (simp add: unvisited_visiting)
qed simp

declare visit.simps [simp del]

fun visit_each :: "activation list \<Rightarrow> nat list \<Rightarrow> visit_mark list \<Rightarrow> (string + visit_mark list) option" where
  "visit_each fs [] state = Some (Inr state)"
| "visit_each fs (i # is) state =
     (case visit fs i state of
        None \<Rightarrow> None
      | Some (Inl diagnostic) \<Rightarrow> Some (Inl diagnostic)
      | Some (Inr state') \<Rightarrow> visit_each fs is state')"

definition validate_mode_master_graph :: "activation list \<Rightarrow> (string + unit) option" where
  "validate_mode_master_graph fs =
     (case visit_each fs [0..<length fs] (replicate (length fs) Unvisited) of
        None \<Rightarrow> None
      | Some (Inl diagnostic) \<Rightarrow> Some (Inl diagnostic)
      | Some (Inr _) \<Rightarrow> Some (Inr ()))"

subsection \<open>Activation\<close>

fun find_index :: "int \<Rightarrow> activation list \<Rightarrow> nat" where
  "find_index i [] = 0"
| "find_index i (f # fs) = (if cf_function_id f = i then 0 else Suc (find_index i fs))"

definition source_value :: "int \<Rightarrow> u32 list \<Rightarrow> u32 option" where
  "source_value i source_values =
     (if i < 0 \<or> int (length source_values) \<le> i then None else Some (source_values ! nat i))"

function activated_at :: "activation list \<Rightarrow> u32 list \<Rightarrow> nat \<Rightarrow> nat \<Rightarrow> bool" where
  "activated_at fs source_values index depth =
     (if length fs \<le> index \<or> depth > length fs then False
      else
        let f = fs ! index in
        (case source_value (cf_source_id f) source_values of
           None \<Rightarrow> False
         | Some own \<Rightarrow>
             let condition = cf_mode_master f in
             if own < cf_dmx_from f \<or> own > cf_dmx_to f then False
             else if \<not> mc_valid condition \<or> mc_target_kind condition = Invalid_target then False
             else if mc_target_kind condition = No_target then True
             else
               let master = find_index (if mc_target_kind condition = Channel_function then mc_target_id condition
                                        else mc_master_program_id condition) fs
               in if length fs \<le> master then False
                  else
                    (case source_value (cf_source_id (fs ! master)) source_values of
                       None \<Rightarrow> False
                     | Some master_value \<Rightarrow>
                         if master_value < mc_from condition \<or> master_value > mc_to condition then False
                         else mc_target_kind condition \<noteq> Channel_function
                              \<or> activated_at fs source_values master (depth + 1))))"
  by pat_completeness auto
termination
  by (relation "measure (\<lambda>(fs, vs, index, depth). Suc (length fs) - depth)") auto

declare activated_at.simps [simp del]

definition is_channel_function_active :: "int \<Rightarrow> activation list \<Rightarrow> u32 list \<Rightarrow> bool" where
  "is_channel_function_active function_id fs source_values =
     (let found = find_index function_id fs
      in found < length fs \<and> activated_at fs source_values found 0)"

subsection \<open>Conversion, byte by byte\<close>

definition be_bytes :: "nat \<Rightarrow> u32 \<Rightarrow> u8 list" where
  "be_bytes n v = map (\<lambda>i. ucast (drop_bit (8 * (n - 1 - i)) v)) [0..<n]"

text \<open>The bytes GDTF prescribes: the leading bytes when narrowing, zeros appended when shifting, the
  byte sequence repeated when mirroring.\<close>

definition converted_bytes :: "dmx_conversion \<Rightarrow> u8 list \<Rightarrow> nat \<Rightarrow> u8 list" where
  "converted_bytes mode bs t =
     (if t \<le> length bs then take t bs
      else if mode = Shift then bs @ replicate (t - length bs) 0
      else take t (concat (replicate t bs)))"

definition value_ok :: "parsed_dmx_value \<Rightarrow> bool" where
  "value_ok d \<longleftrightarrow> 1 \<le> unat (dv_byte_count d) \<and> unat (dv_byte_count d) \<le> 4 \<and> dv_value d \<le> byte_max (dv_byte_count d)"

lemma byte_cases:
  assumes "1 \<le> unat (b :: u8)" and "unat b \<le> 4"
  shows "b = 1 \<or> b = 2 \<or> b = 3 \<or> b = 4"
proof -
  have "unat b = 1 \<or> unat b = 2 \<or> unat b = 3 \<or> unat b = 4" using assms by linarith
  moreover have "b = of_nat (unat b)" by simp
  ultimately show ?thesis by (metis of_nat_1 of_nat_numeral)
qed

lemma byte_max_eq: "byte_max 1 = 0xff" "byte_max 2 = 0xffff" "byte_max 3 = 0xffffff" "byte_max 4 = 0xffffffff"
  by (simp_all add: byte_max_def push_bit_eq_mult)

lemma fits_bits:
  assumes "unat (v :: u32) < 2 ^ k" and "k \<le> i"
  shows "\<not> bit v i"
proof -
  have "(2 :: nat) ^ k \<le> 2 ^ i" using assms(2) by simp
  then have "unat v < 2 ^ i" using assms(1) by linarith
  then have "\<not> bit (unat v) i" by (simp add: bit_iff_odd)
  then show ?thesis by (simp add: bit_unsigned_iff)
qed

lemma byte_eqI: "(\<And>j. j < 8 \<Longrightarrow> bit a j = bit b j) \<Longrightarrow> a = (b :: u8)"
  by (rule bit_eqI) simp

lemma convert_narrow_bytes:
  assumes "1 \<le> t" and "t \<le> n" and "n \<le> 4"
  shows "be_bytes t (drop_bit ((n - t) * 8) v) = take t (be_bytes n v)"
proof (rule nth_equalityI)
  show "length (be_bytes t (drop_bit ((n - t) * 8) v)) = length (take t (be_bytes n v))"
    using assms by (simp add: be_bytes_def)
  fix i
  assume "i < length (be_bytes t (drop_bit ((n - t) * 8) v))"
  then have "i < t" by (simp add: be_bytes_def)
  then have "8 * (t - 1 - i) + (n - t) * 8 = 8 * (n - 1 - i)" using assms by (simp add: algebra_simps)
  then show "be_bytes t (drop_bit ((n - t) * 8) v) ! i = take t (be_bytes n v) ! i"
    using \<open>i < t\<close> assms by (simp add: be_bytes_def)
qed

lemma convert_shift_bytes:
  assumes "1 \<le> n" and "n < t" and "t \<le> 4" and "unat v < 2 ^ (8 * n)"
  shows "be_bytes t (push_bit ((t - n) * 8) v) = be_bytes n v @ replicate (t - n) 0"
proof (rule nth_equalityI)
  show "length (be_bytes t (push_bit ((t - n) * 8) v)) = length (be_bytes n v @ replicate (t - n) 0)"
    using assms by (simp add: be_bytes_def)
  fix i
  assume "i < length (be_bytes t (push_bit ((t - n) * 8) v))"
  then have i: "i < t" by (simp add: be_bytes_def)
  show "be_bytes t (push_bit ((t - n) * 8) v) ! i = (be_bytes n v @ replicate (t - n) 0) ! i"
  proof (cases "i < n")
    case True
    have "ucast (drop_bit (8 * (t - 1 - i)) (push_bit ((t - n) * 8) v)) = (ucast (drop_bit (8 * (n - 1 - i)) v) :: u8)"
    proof (rule byte_eqI)
      fix j :: nat
      assume "j < 8"
      have "8 * (t - 1 - i) + j = 8 * (n - 1 - i) + j + (t - n) * 8" and "8 * (t - 1 - i) + j < 32"
        using True assms \<open>j < 8\<close> by (auto simp: algebra_simps)
      then show "bit (ucast (drop_bit (8 * (t - 1 - i)) (push_bit ((t - n) * 8) v)) :: u8) j
          = bit (ucast (drop_bit (8 * (n - 1 - i)) v) :: u8) j"
        using \<open>j < 8\<close> by (simp add: bit_unsigned_iff bit_drop_bit_eq bit_push_bit_iff)
    qed
    then show ?thesis using True i by (simp add: be_bytes_def nth_append)
  next
    case False
    have "ucast (drop_bit (8 * (t - 1 - i)) (push_bit ((t - n) * 8) v)) = (0 :: u8)"
    proof (rule byte_eqI)
      fix j :: nat
      assume "j < 8"
      have "\<not> (t - n) * 8 \<le> 8 * (t - 1 - i) + j" using False i assms \<open>j < 8\<close> by (auto simp: algebra_simps)
      then show "bit (ucast (drop_bit (8 * (t - 1 - i)) (push_bit ((t - n) * 8) v)) :: u8) j = bit (0 :: u8) j"
        using \<open>j < 8\<close> by (simp add: bit_unsigned_iff bit_drop_bit_eq bit_push_bit_iff)
    qed
    then show ?thesis using False i by (simp add: be_bytes_def nth_append)
  qed
qed

lemma length_be_bytes [simp]: "length (be_bytes n v) = n"
  by (simp add: be_bytes_def)

lemma be_bytes_0 [simp]: "be_bytes 0 v = []"
  by (simp add: be_bytes_def)

lemma be_bytes_nth: "k < n \<Longrightarrow> be_bytes n v ! k = ucast (drop_bit (8 * (n - 1 - k)) v)"
  by (simp add: be_bytes_def)

lemma append_bytes:
  assumes "f + m \<le> 4" and "1 \<le> m" and "unat w < 2 ^ (8 * m)"
  shows "be_bytes (f + m) (push_bit (m * 8) c OR w) = be_bytes f c @ be_bytes m w"
proof (rule nth_equalityI)
  show "length (be_bytes (f + m) (push_bit (m * 8) c OR w)) = length (be_bytes f c @ be_bytes m w)"
    by (simp add: be_bytes_def)
  fix i
  assume "i < length (be_bytes (f + m) (push_bit (m * 8) c OR w))"
  then have i: "i < f + m" by (simp add: be_bytes_def)
  show "be_bytes (f + m) (push_bit (m * 8) c OR w) ! i = (be_bytes f c @ be_bytes m w) ! i"
  proof (cases "i < f")
    case True
    have "ucast (drop_bit (8 * (f + m - 1 - i)) (push_bit (m * 8) c OR w)) = (ucast (drop_bit (8 * (f - 1 - i)) c) :: u8)"
    proof (rule byte_eqI)
      fix j :: nat
      assume "j < 8"
      have e: "8 * (f + m - 1 - i) + j = 8 * (f - 1 - i) + j + m * 8" and "8 * (f + m - 1 - i) + j < 32"
        using True assms \<open>j < 8\<close> by (auto simp: algebra_simps)
      moreover have "\<not> bit w (8 * (f + m - 1 - i) + j)"
        by (rule fits_bits [OF assms(3)]) (use e in linarith)
      ultimately show "bit (ucast (drop_bit (8 * (f + m - 1 - i)) (push_bit (m * 8) c OR w)) :: u8) j
          = bit (ucast (drop_bit (8 * (f - 1 - i)) c) :: u8) j"
        using \<open>j < 8\<close> by (simp add: bit_unsigned_iff bit_drop_bit_eq bit_push_bit_iff bit_or_iff)
    qed
    then show ?thesis using True i by (simp add: be_bytes_def nth_append)
  next
    case False
    then have e: "f + m - 1 - i = m - 1 - (i - f)" using i by simp
    have "ucast (drop_bit (8 * (f + m - 1 - i)) (push_bit (m * 8) c OR w)) = (ucast (drop_bit (8 * (m - 1 - (i - f))) w) :: u8)"
    proof (rule byte_eqI)
      fix j :: nat
      assume "j < 8"
      then have "\<not> m * 8 \<le> 8 * (m - 1 - (i - f)) + j" using False i by linarith
      then show "bit (ucast (drop_bit (8 * (f + m - 1 - i)) (push_bit (m * 8) c OR w)) :: u8) j
          = bit (ucast (drop_bit (8 * (m - 1 - (i - f))) w) :: u8) j"
        unfolding e using \<open>j < 8\<close> by (simp add: bit_unsigned_iff bit_drop_bit_eq bit_push_bit_iff bit_or_iff)
    qed
    moreover have "i - f < m" using False i by linarith
    ultimately show ?thesis using False i by (simp add: be_bytes_nth nth_append)
  qed
qed

lemma drop_bit_bound:
  assumes "unat (v :: u32) < 2 ^ (8 * n)" and "m \<le> n"
  shows "unat (drop_bit ((n - m) * 8) v) < 2 ^ (8 * m)"
proof -
  have "unat (drop_bit ((n - m) * 8) v) = unat v div 2 ^ ((n - m) * 8)"
  proof -
    have "unat v < 2 ^ 32" using unsigned_less [of v] by simp
    then show ?thesis by (subst unsigned_drop_bit_eq) (simp add: drop_bit_eq_div take_bit_nat_eq_self)
  qed
  moreover have "(2 :: nat) ^ (8 * n) = 2 ^ (8 * m) * 2 ^ ((n - m) * 8)"
    using assms(2) by (simp flip: power_add)
  ultimately show ?thesis using assms(1) by (simp add: less_mult_imp_div_less)
qed

definition cycle_bytes :: "nat \<Rightarrow> u8 list \<Rightarrow> u8 list" where
  "cycle_bytes k bs = take k (concat (replicate k bs))"

lemma cycle_bytes_any:
  "bs \<noteq> [] \<Longrightarrow> k \<le> n \<Longrightarrow> take k (concat (replicate n bs)) = cycle_bytes k bs"
proof (induction n)
  case (Suc n)
  show ?case
  proof (cases "k \<le> n")
    case True
    have "replicate (Suc n) bs = replicate n bs @ [bs]" by (simp add: replicate_append_same)
    moreover have "k \<le> length (concat (replicate n bs))"
      using True Suc.prems(1) by (cases bs) (simp_all add: length_concat sum_list_replicate)
    ultimately show ?thesis using Suc.IH [OF Suc.prems(1) True] by (simp del: replicate_Suc)
  next
    case False
    then have "k = Suc n" using Suc.prems(2) by simp
    then show ?thesis by (simp add: cycle_bytes_def)
  qed
qed (simp add: cycle_bytes_def)

lemma cycle_bytes_step: "bs \<noteq> [] \<Longrightarrow> length bs \<le> k \<Longrightarrow> cycle_bytes k bs = bs @ cycle_bytes (k - length bs) bs"
proof -
  assume bs: "bs \<noteq> []" and k: "length bs \<le> k"
  then obtain j where "k = Suc j" by (cases k) auto
  then show ?thesis
    using bs k cycle_bytes_any [of bs "k - length bs" j] by (cases bs) (simp_all add: cycle_bytes_def)
qed

lemma cycle_bytes_short: "bs \<noteq> [] \<Longrightarrow> k \<le> length bs \<Longrightarrow> cycle_bytes k bs = take k bs"
  by (cases k) (simp_all add: cycle_bytes_def)

lemma mirror_bytes_eq:
  assumes "1 \<le> n" and "n \<le> 4" and "f \<le> t" and "t \<le> 4" and "unat v < 2 ^ (8 * n)"
  shows "be_bytes t (mirror_bytes v n t c f) = be_bytes f c @ cycle_bytes (t - f) (be_bytes n v)"
  using assms
proof (induction v n t c f rule: mirror_bytes.induct)
  case (1 v n t c f)
  have nonempty: "be_bytes n v \<noteq> []" using 1(2) by (metis length_be_bytes list.size(3) not_one_le_zero)
  show ?case
  proof (cases "f < t")
    case True
    let ?m = "min n (t - f)"
    let ?c = "push_bit (?m * 8) c OR drop_bit ((n - ?m) * 8) v"
    have step: "mirror_bytes v n t c f = mirror_bytes v n t ?c (f + ?m)"
      using True 1(2) by (subst mirror_bytes.simps) (simp add: Let_def)
    have IH: "be_bytes t (mirror_bytes v n t ?c (f + ?m)) = be_bytes (f + ?m) ?c @ cycle_bytes (t - (f + ?m)) (be_bytes n v)"
      using 1(1) [OF _ refl] True 1(2-6) by simp
    have "be_bytes (f + ?m) ?c = be_bytes f c @ be_bytes ?m (drop_bit ((n - ?m) * 8) v)"
      by (rule append_bytes) (use True 1(2-6) drop_bit_bound [OF 1(6), of ?m] in auto)
    also have "be_bytes ?m (drop_bit ((n - ?m) * 8) v) = take ?m (be_bytes n v)"
      by (rule convert_narrow_bytes) (use True 1(2-6) in auto)
    finally have front: "be_bytes (f + ?m) ?c = be_bytes f c @ take ?m (be_bytes n v)" .
    have "cycle_bytes (t - f) (be_bytes n v) = take ?m (be_bytes n v) @ cycle_bytes (t - (f + ?m)) (be_bytes n v)"
    proof (cases "n \<le> t - f")
      case True
      then show ?thesis using cycle_bytes_step [OF nonempty, of "t - f"] by (simp add: min_def)
    next
      case False
      then show ?thesis
        using cycle_bytes_short [OF nonempty, of "t - f"] cycle_bytes_short [OF nonempty, of 0] \<open>f < t\<close>
        by (simp add: min_def)
    qed
    then show ?thesis unfolding step IH front by simp
  next
    case False
    then have "f = t" using 1 by simp
    then show ?thesis by (subst mirror_bytes.simps) (simp add: cycle_bytes_def)
  qed
qed

lemma bound_append:
  assumes "unat c < 2 ^ (8 * f)" and "unat w < 2 ^ (8 * m)" and "f + m \<le> 4"
  shows "unat (push_bit (m * 8) c OR w :: u32) < 2 ^ (8 * (f + m))"
proof -
  have e: "(2 :: nat) ^ (8 * (f + m)) = 2 ^ (8 * f) * 2 ^ (m * 8)" by (simp flip: power_add add: algebra_simps)
  have "unat c * 2 ^ (m * 8) + 2 ^ (m * 8) \<le> 2 ^ (8 * (f + m))"
    using mult_le_mono1 [of "Suc (unat c)" "2 ^ (8 * f)" "2 ^ (m * 8)"] assms(1) unfolding e by simp
  moreover have "(2 :: nat) ^ (8 * (f + m)) \<le> 2 ^ 32" using assms(3) by (intro power_increasing) simp_all
  moreover have "unat w < 2 ^ (m * 8)" using assms(2) by (simp add: mult.commute)
  ultimately show ?thesis
    using unat_or_push_bit [of w "m * 8" c] by simp
qed

lemma mirror_bytes_bound:
  assumes "1 \<le> n" and "n \<le> 4" and "f \<le> t" and "t \<le> 4" and "unat v < 2 ^ (8 * n)" and "unat c < 2 ^ (8 * f)"
  shows "unat (mirror_bytes v n t c f) < 2 ^ (8 * t)"
  using assms
proof (induction v n t c f rule: mirror_bytes.induct)
  case (1 v n t c f)
  show ?case
  proof (cases "f < t")
    case True
    let ?m = "min n (t - f)"
    have "unat (push_bit (?m * 8) c OR drop_bit ((n - ?m) * 8) v) < 2 ^ (8 * (f + ?m))"
      by (rule bound_append) (use True 1(2-7) drop_bit_bound [OF 1(6), of ?m] in auto)
    then show ?thesis
      using 1(1) [OF _ refl] True 1(2-6) by (subst mirror_bytes.simps) (simp add: Let_def)
  next
    case False
    then show ?thesis using 1 by (subst mirror_bytes.simps) simp
  qed
qed

lemma byte_max_bound:
  assumes "1 \<le> unat b" and "unat b \<le> 4"
  shows "w \<le> byte_max b \<longleftrightarrow> unat w < 2 ^ (8 * unat b)"
  using byte_cases [OF assms] unsigned_less [of w] by (auto simp: byte_max_eq word_le_nat_alt less_Suc_eq_le)

lemma be_bytes_inject:
  assumes "be_bytes n a = be_bytes n b" and "unat a < 2 ^ (8 * n)" and "unat b < 2 ^ (8 * n)" and "n \<le> 4"
  shows "a = b"
proof (rule bit_eqI)
  fix i
  assume "possible_bit TYPE(32 word) i"
  show "bit a i = bit b i"
  proof (cases "i < 8 * n")
    case True
    let ?k = "n - 1 - i div 8"
    have k: "?k < n" and e: "8 * (n - 1 - ?k) + i mod 8 = i" using True by auto
    then have "be_bytes n a ! ?k = be_bytes n b ! ?k" by (simp add: assms(1))
    then have "bit (ucast (drop_bit (8 * (n - 1 - ?k)) a) :: u8) (i mod 8) = bit (ucast (drop_bit (8 * (n - 1 - ?k)) b) :: u8) (i mod 8)"
      using k by (simp add: be_bytes_def)
    then show ?thesis using e by (simp add: bit_unsigned_iff bit_drop_bit_eq)
  next
    case False
    then show ?thesis using fits_bits [OF assms(2), of i] fits_bits [OF assms(3), of i] by simp
  qed
qed

text \<open>Converting a DMX value of 1 to 4 bytes to a width of 1 to 4 bytes always succeeds, and the
  big-endian bytes of the result, which fits the target width, are the leading bytes when narrowing,
  the bytes followed by zeros when shifting, and the byte sequence repeated from its start when
  mirroring; so widening and narrowing back gives the value.\<close>

theorem convert_gdtf_dmx_value_bytes:
  assumes "value_ok d" and "1 \<le> unat t" and "unat t \<le> 4"
  shows "\<exists>w. convert_gdtf_dmx_value d t = Some w \<and> w \<le> byte_max t
     \<and> be_bytes (unat t) w = converted_bytes (dv_conversion d) (be_bytes (unat (dv_byte_count d)) (dv_value d)) (unat t)
     \<and> (unat (dv_byte_count d) \<le> unat t \<longrightarrow>
          convert_gdtf_dmx_value \<lparr>dv_value = w, dv_byte_count = t, dv_conversion = dv_conversion d\<rparr> (dv_byte_count d)
            = Some (dv_value d))"
proof -
  let ?n = "unat (dv_byte_count d)" and ?t = "unat t" and ?v = "dv_value d"
  have n: "1 \<le> ?n" "?n \<le> 4" and v: "unat ?v < 2 ^ (8 * ?n)"
    using assms(1) byte_max_bound [of "dv_byte_count d" ?v] by (auto simp: value_ok_def)
  have guard: "\<not> (b = 0 \<or> b > 4)" if "1 \<le> unat b" "unat b \<le> 4" for b :: u8
    using that by (auto simp: word_less_nat_alt)
  have conv: "convert_gdtf_dmx_value d t = Some (if ?t \<le> ?n then drop_bit ((?n - ?t) * 8) ?v
      else if dv_conversion d = Shift then push_bit ((?t - ?n) * 8) ?v else mirror_bytes ?v ?n ?t ?v ?n)"
    using guard [OF n] guard [OF assms(2,3)] word_unat_eq_iff [of "dv_byte_count d" t]
    by (auto simp: convert_gdtf_dmx_value_def word_less_nat_alt)
  show ?thesis
  proof (cases "?t \<le> ?n")
    case True
    let ?w = "drop_bit ((?n - ?t) * 8) ?v"
    have "?w \<le> byte_max t" using byte_max_bound [OF assms(2,3)] drop_bit_bound [OF v True] by simp
    moreover have "be_bytes ?t ?w = take ?t (be_bytes ?n ?v)" by (rule convert_narrow_bytes [OF assms(2) True n(2)])
    moreover have "convert_gdtf_dmx_value \<lparr>dv_value = ?w, dv_byte_count = t, dv_conversion = dv_conversion d\<rparr> (dv_byte_count d)
        = Some ?v" if "?n \<le> ?t"
    proof -
      have "dv_byte_count d = t" using that True by (simp add: word_unat_eq_iff)
      then show ?thesis using guard [OF n] by (simp add: convert_gdtf_dmx_value_def)
    qed
    ultimately show ?thesis using conv True by (simp add: converted_bytes_def)
  next
    case False
    let ?w = "if dv_conversion d = Shift then push_bit ((?t - ?n) * 8) ?v else mirror_bytes ?v ?n ?t ?v ?n"
    have nonempty: "be_bytes ?n ?v \<noteq> []" using n(1) by (metis length_be_bytes list.size(3) not_one_le_zero)
    have bytes: "be_bytes ?t ?w = converted_bytes (dv_conversion d) (be_bytes ?n ?v) ?t"
      using convert_shift_bytes [OF n(1) _ assms(3) v] mirror_bytes_eq [OF n _ assms(3) v, of ?n ?v] False
        cycle_bytes_step [OF nonempty, of ?t] n(1)
      by (auto simp: converted_bytes_def cycle_bytes_def)
    have bound: "unat ?w < 2 ^ (8 * ?t)"
      using mirror_bytes_bound [OF n _ assms(3) v v] bound_append [OF v, of 0 "?t - ?n"] False assms(3) by simp
    have widened: "\<exists>bs. be_bytes ?t ?w = be_bytes ?n ?v @ bs"
      using bytes False cycle_bytes_step [OF nonempty, of ?t] n(1)
      by (auto simp: converted_bytes_def cycle_bytes_def)
    have "drop_bit ((?t - ?n) * 8) ?w = ?v"
    proof (rule be_bytes_inject)
      show "be_bytes ?n (drop_bit ((?t - ?n) * 8) ?w) = be_bytes ?n ?v"
        using convert_narrow_bytes [of ?n ?t ?w] widened n(1) False assms(3) by auto
      show "unat (drop_bit ((?t - ?n) * 8) ?w) < 2 ^ (8 * ?n)"
        using drop_bit_bound [OF bound] False by simp
    qed (use v n in simp_all)
    then have "convert_gdtf_dmx_value \<lparr>dv_value = ?w, dv_byte_count = t, dv_conversion = dv_conversion d\<rparr> (dv_byte_count d)
        = Some ?v"
      using guard [OF n] guard [OF assms(2,3)] False by (auto simp: convert_gdtf_dmx_value_def word_less_nat_alt)
    then show ?thesis using conv bytes bound byte_max_bound [OF assms(2,3)] False by simp
  qed
qed

theorem convert_gdtf_dmx_value_bytes_witness:
  "\<exists>w. convert_gdtf_dmx_value \<lparr>dv_value = 0xabcd, dv_byte_count = 2, dv_conversion = Mirror\<rparr> 3 = Some w
     \<and> be_bytes 3 w = [0xab, 0xcd, 0xab]"
proof -
  let ?d = "\<lparr>dv_value = 0xabcd, dv_byte_count = 2, dv_conversion = Mirror\<rparr>"
  have ok: "value_ok ?d" by (simp add: value_ok_def byte_max_eq)
  have bytes: "be_bytes 2 0xabcd = [0xab, 0xcd]"
    by code_simp
  have mirrored: "converted_bytes Mirror [0xab, 0xcd] 3 = [0xab, 0xcd, 0xab]"
    by (simp add: converted_bytes_def numeral_3_eq_3)
  from convert_gdtf_dmx_value_bytes [OF ok, of 3]
  obtain w where "convert_gdtf_dmx_value ?d 3 = Some w" "be_bytes 3 w = converted_bytes Mirror (be_bytes 2 0xabcd) 3"
    by auto
  then show ?thesis unfolding bytes mirrored by blast
qed

subsection \<open>The syntax of DMX values\<close>

lemma split_resolution_slash:
  "CHR ''/'' \<notin> set a \<Longrightarrow> split_resolution (a @ CHR ''/'' # b) = (a, b)"
  by (induction a) (auto simp: split_resolution_def split: if_splits)

lemma no_slash_digits: "\<forall>c\<in>set ds. isdigit_c c \<Longrightarrow> CHR ''/'' \<notin> set ds"
  by (auto simp: isdigit_c_def code_of_def)

text \<open>Writing a value and its width in the GDTF form (decimal value, slash, byte count, \<open>s\<close> for
  shifting, spaces around) and parsing it gives the value back, and a value that does not fit its
  width is refused.\<close>

theorem parse_gdtf_dmx_value_roundtrip:
  assumes "1 \<le> n" and "n \<le> 4" and "v \<le> ULONG_MAX"
    and "\<forall>c\<in>set before. isspace_c c" and "\<forall>c\<in>set after. isspace_c c"
  shows "parse_gdtf_dmx_value (before @ dec_string v @ CHR ''/'' # dec_string n @ (if shift then ''s'' else []) @ after) =
     (if v < 2 ^ (8 * n)
      then Some \<lparr>dv_value = of_nat v, dv_byte_count = of_nat n, dv_conversion = (if shift then Shift else Mirror)\<rparr>
      else None)"
proof -
  have digits: "\<forall>c\<in>set (dec_string k). isdigit_c c" for k by (rule dec_string_digits)
  let ?res = "dec_string n @ (if shift then ''s'' else [])"
  let ?text = "dec_string v @ CHR ''/'' # ?res"
  have first: "?text \<noteq> []" "\<not> isspace_c (hd ?text)"
    using digits [of v] by (auto simp: hd_append intro!: digit_not_space) 
  have last_text: "\<not> isspace_c (last ?text)"
  proof -
    have "isdigit_c (last (dec_string n))" using digits [of n] by simp
    moreover have "last ?text = (if shift then CHR ''s'' else last (dec_string n))" by simp
    ultimately show ?thesis by (simp add: digit_not_space) (simp add: isspace_c_def code_of_def)
  qed
  have trimmed: "trim_both (before @ ?text @ after) = ?text"
    by (rule trim_both_padded [OF assms(4,5) first last_text])
  have split: "split_resolution ?text = (dec_string v, ?res)"
    by (rule split_resolution_slash [OF no_slash_digits [OF digits]])
  have not_s: "\<not> (last (dec_string n) = CHR ''s'' \<or> last (dec_string n) = CHR ''S'')"
  proof -
    have "isdigit_c (last (dec_string n))" using digits [of n] by simp
    then show ?thesis by (auto simp: isdigit_c_def code_of_def)
  qed
  have res: "(last ?res = CHR ''s'' \<or> last ?res = CHR ''S'') = shift"
      "(if shift then butlast ?res else ?res) = dec_string n" "?res \<noteq> []"
    using not_s by (auto simp: butlast_append)
  have small: "n \<le> ULONG_MAX" using assms(2) by (simp add: ULONG_MAX_def)
  have max: "v > unat (byte_max (of_nat n)) \<longleftrightarrow> \<not> v < 2 ^ (8 * n)"
  proof -
    have "n = 1 \<or> n = 2 \<or> n = 3 \<or> n = 4" using assms(1,2) by linarith
    then show ?thesis by (elim disjE) (auto simp: byte_max_eq)
  qed
  have conv: "strtoul (dec_string k) = (k, [])" "c_str (dec_string k) = dec_string k" if "k \<le> ULONG_MAX" for k
    using strtoul_dec_string [OF that] c_str_digits [OF digits] by simp_all
  have result: "parse_gdtf_dmx_value (before @ ?text @ after) =
      (if v > unat (byte_max (of_nat n)) then None
       else Some \<lparr>dv_value = of_nat v, dv_byte_count = of_nat n, dv_conversion = (if shift then Shift else Mirror)\<rparr>)"
    unfolding parse_gdtf_dmx_value_def Let_def trimmed split prod.case res(1,2) conv [OF small] conv [OF assms(3)]
    using res(3) first(1) assms(1,2) by simp
  have eq: "before @ dec_string v @ CHR ''/'' # dec_string n @ (if shift then ''s'' else []) @ after = before @ ?text @ after"
    by simp
  show ?thesis unfolding eq result max by (cases "v < 2 ^ (8 * n)") (simp_all only: not_True_eq_False not_False_eq_True if_True if_False)
qed

theorem parse_gdtf_dmx_value_roundtrip_witness:
  "parse_gdtf_dmx_value ('' '' @ dec_string 300 @ CHR ''/'' # dec_string 2 @ ''s'' @ '' '') =
     Some \<lparr>dv_value = 300, dv_byte_count = 2, dv_conversion = Shift\<rparr>"
proof -
  have "\<forall>c\<in>set '' ''. isspace_c c" by (simp add: isspace_c_def code_of_def)
  moreover have "(300 :: nat) \<le> ULONG_MAX" by (simp add: ULONG_MAX_def)
  moreover have "(300 :: nat) < 2 ^ (8 * 2)" and "of_nat 300 = (300 :: u32)" and "of_nat 2 = (2 :: u8)" by simp_all
  ultimately show ?thesis
    using parse_gdtf_dmx_value_roundtrip [of 2 300 "'' ''" "'' ''" True] by (simp only: if_True append.assoc)
qed

subsection \<open>What a resolved link names\<close>

lemma match_node_found: "match_node link ns (Match n) = (if \<exists>m\<in>set ns. mn_path m = link then Ambiguous else Match n)"
  by (induction ns) auto

lemma match_node_Match: "match_node link ns No_match = Match n \<longleftrightarrow> filter (\<lambda>m. mn_path m = link) ns = [n]"
  by (induction ns) (auto simp: match_node_found filter_empty_conv)

text \<open>Resolving a condition succeeds only when exactly one node of the mode has the trimmed link as its
  path; the condition then is valid, names that node with its kind, channel, source program and byte
  count, and has an ordered range within the node's width whose ends are the converted ModeFrom and
  ModeTo (0/1 where they are blank). On failure the condition is marked invalid.\<close>

theorem resolve_mode_master_condition_sound:
  "case resolve_mode_master_condition source_link mode_from mode_to nodes of
     (c, Inl _) \<Rightarrow> mc_target_kind c = Invalid_target \<and> \<not> mc_valid c
   | (c, Inr _) \<Rightarrow> mc_valid c \<and> mc_from c \<le> mc_to c \<and> mc_source_link c = trim_both source_link
       \<and> (\<exists>n. filter (\<lambda>m. mn_path m = trim_both source_link) nodes = [n]
            \<and> mc_target_kind c = mn_kind n \<and> mc_target_id c = mn_id n \<and> mc_master_channel_id c = mn_channel_id n
            \<and> mc_master_program_id c = mn_source_program_id n \<and> mc_master_byte_count c = mn_byte_count n
            \<and> parse_and_convert_gdtf_dmx_value (if trim_both mode_from = [] then ''0/1'' else mode_from) (mn_byte_count n)
                = Some (mc_from c)
            \<and> parse_and_convert_gdtf_dmx_value (if trim_both mode_to = [] then ''0/1'' else mode_to) (mn_byte_count n)
                = Some (mc_to c))"
proof (cases "match_node (trim_both source_link) nodes No_match")
  case (Match n)
  then have "filter (\<lambda>m. mn_path m = trim_both source_link) nodes = [n]" by (simp add: match_node_Match)
  then show ?thesis
    by (simp add: resolve_mode_master_condition_def Let_def Match not_less split: option.split)
qed (simp_all add: resolve_mode_master_condition_def Let_def)

subsection \<open>What the graph check decides\<close>

text \<open>A function is grounded when its own condition is resolved and the chain of ChannelFunction
  dependencies that starts at it ends.\<close>

definition condition_resolved :: "activation list \<Rightarrow> nat \<Rightarrow> bool" where
  "condition_resolved fs i \<longleftrightarrow> i < length fs \<and> mc_valid (cf_mode_master (fs ! i))
     \<and> mc_target_kind (cf_mode_master (fs ! i)) \<noteq> Invalid_target"

definition depends_on :: "activation list \<Rightarrow> nat \<Rightarrow> bool" where
  "depends_on fs i \<longleftrightarrow> mc_target_kind (cf_mode_master (fs ! i)) = Channel_function"

inductive grounded :: "activation list \<Rightarrow> nat \<Rightarrow> bool" for fs where
  leaf: "condition_resolved fs i \<Longrightarrow> \<not> depends_on fs i \<Longrightarrow> grounded fs i"
| dependent: "condition_resolved fs i \<Longrightarrow> depends_on fs i \<Longrightarrow>
     index_of_function fs (mc_target_id (cf_mode_master (fs ! i))) = Some j \<Longrightarrow> grounded fs j \<Longrightarrow> grounded fs i"

inductive_cases grounded_cases: "grounded fs i"

lemma index_of_function_less: "index_of_function fs k = Some j \<Longrightarrow> j < length fs"
  by (auto simp: index_of_function_def dest!: map_of_SomeD set_zip_rightD)

definition marked :: "visit_mark \<Rightarrow> visit_mark list \<Rightarrow> nat set" where
  "marked m state = {i. i < length state \<and> state ! i = m}"

lemma marked_update [simp]:
  "i < length state \<Longrightarrow> marked m (state[i := m']) = (if m' = m then insert i (marked m state) else marked m state - {i})"
  by (auto simp: marked_def nth_list_update)

lemma visit_sound:
  "visit fs i state = Some (Inr state') \<Longrightarrow> length state = length fs \<Longrightarrow> marked Visited state \<subseteq> Collect (grounded fs) \<Longrightarrow>
     length state' = length fs \<and> marked Visited state' \<subseteq> Collect (grounded fs) \<and> grounded fs i"
proof (induction fs i state arbitrary: state' rule: visit.induct)
  case (1 fs i state)
  have i: "i < length fs" "state ! i \<noteq> Visiting" using "1.prems"(1,2) by (auto simp: visit.simps [of fs i] split: if_splits)
  show ?case
  proof (cases "state ! i = Visited")
    case True
    then have "state' = state" using "1.prems"(1,2) i by (simp add: visit.simps [of fs i])
    moreover have "i \<in> marked Visited state" using True i "1.prems"(2) by (simp add: marked_def)
    ultimately show ?thesis using "1.prems" by auto
  next
    case False
    let ?c = "cf_mode_master (fs ! i)"
    have res: "condition_resolved fs i"
      using "1.prems"(1,2) i False by (auto simp: visit.simps [of fs i] condition_resolved_def Let_def split: if_splits)
    show ?thesis
    proof (cases "depends_on fs i")
      case True
      then obtain j st where j: "index_of_function fs (mc_target_id ?c) = Some j"
          and v: "visit fs j (state[i := Visiting]) = Some (Inr st)" and st: "state' = st[i := Visited]"
        using "1.prems"(1,2) i False res
        by (auto simp: visit.simps [of fs i] condition_resolved_def depends_on_def Let_def
            split: if_splits option.splits sum.splits)
      have less: "marked Visited (state[i := Visiting]) \<subseteq> Collect (grounded fs)"
        using "1.prems"(2,3) i by auto
      have IH: "length st = length fs \<and> marked Visited st \<subseteq> Collect (grounded fs) \<and> grounded fs j"
        using "1.IH" [OF _ i(2) False refl refl _ _ j v] "1.prems"(2) i res True less
        by (simp add: condition_resolved_def depends_on_def)
      then have "grounded fs i" using grounded.dependent [OF res True j] by simp
      then show ?thesis using IH st i by auto
    next
      case leaf: False
      then have "state' = state[i := Visiting, i := Visited]"
        using "1.prems"(1,2) i False res
        by (simp add: visit.simps [of fs i] condition_resolved_def depends_on_def Let_def)
      moreover have "grounded fs i" by (rule grounded.leaf [OF res leaf])
      ultimately show ?thesis using "1.prems"(2,3) i by auto
    qed
  qed
qed

definition dependencies :: "activation list \<Rightarrow> (nat \<times> nat) set" where
  "dependencies fs = {(i, j). i < length fs \<and> depends_on fs i
     \<and> index_of_function fs (mc_target_id (cf_mode_master (fs ! i))) = Some j}"

lemma dependency_unique: "(i, j) \<in> dependencies fs \<Longrightarrow> (i, k) \<in> dependencies fs \<Longrightarrow> j = k"
  by (simp add: dependencies_def)

lemma grounded_no_cycle: "grounded fs i \<Longrightarrow> (i, i) \<notin> (dependencies fs)\<^sup>+"
proof (induction rule: grounded.induct)
  case (leaf i)
  then show ?case by (auto simp: dependencies_def dest: tranclD)
next
  case (dependent i j)
  have ij: "(i, j) \<in> dependencies fs" using dependent by (simp add: dependencies_def condition_resolved_def)
  show ?case
  proof
    assume "(i, i) \<in> (dependencies fs)\<^sup>+"
    then obtain k where "(i, k) \<in> dependencies fs" "(k, i) \<in> (dependencies fs)\<^sup>*" by (blast dest: tranclD)
    then have "(j, i) \<in> (dependencies fs)\<^sup>*" using dependency_unique [OF ij] by blast
    then have "(j, j) \<in> (dependencies fs)\<^sup>+" using ij by (rule rtrancl_into_trancl1)
    then show False using dependent.IH by simp
  qed
qed

lemma visit_complete:
  "grounded fs i \<Longrightarrow> length state = length fs \<Longrightarrow> \<forall>v\<in>marked Visiting state. (v, i) \<in> (dependencies fs)\<^sup>+ \<Longrightarrow>
     \<exists>state'. visit fs i state = Some (Inr state') \<and> length state' = length fs \<and> marked Visiting state' = marked Visiting state"
proof (induction arbitrary: state rule: grounded.induct)
  case (leaf i)
  have i: "i < length fs" using leaf.hyps by (simp add: condition_resolved_def)
  have "grounded fs i" using leaf.hyps by (rule grounded.leaf)
  then have new: "i \<notin> marked Visiting state" using leaf.prems(2) grounded_no_cycle by blast
  then have "state ! i \<noteq> Visiting" using i leaf.prems(1) by (simp add: marked_def)
  then show ?case
    using leaf i new by (auto simp: visit.simps [of fs i] condition_resolved_def depends_on_def Let_def)
next
  case (dependent i j)
  have i: "i < length fs" using dependent.hyps by (simp add: condition_resolved_def)
  have "grounded fs i" using dependent.hyps by (rule grounded.dependent)
  then have new: "i \<notin> marked Visiting state" using dependent.prems(2) grounded_no_cycle by blast
  then have not_visiting: "state ! i \<noteq> Visiting" using i dependent.prems(1) by (simp add: marked_def)
  show ?case
  proof (cases "state ! i = Visited")
    case True
    then show ?thesis using dependent.prems i by (simp add: visit.simps [of fs i])
  next
    case False
    have ij: "(i, j) \<in> dependencies fs"
      using dependent.hyps i by (simp add: dependencies_def)
    have "\<forall>v\<in>marked Visiting (state[i := Visiting]). (v, j) \<in> (dependencies fs)\<^sup>+"
      using dependent.prems ij i by (auto intro: trancl_into_trancl)
    then obtain st where "visit fs j (state[i := Visiting]) = Some (Inr st)" "length st = length fs"
        "marked Visiting st = insert i (marked Visiting state)"
      using dependent.IH [of "state[i := Visiting]"] dependent.prems(1) i by auto
    then show ?thesis
      using dependent.hyps dependent.prems(1) i not_visiting False new
      by (auto simp: visit.simps [of fs i] condition_resolved_def depends_on_def Let_def)
  qed
qed

lemma visit_defined:
  "i < length fs \<Longrightarrow> length state = length fs \<Longrightarrow> visit fs i state \<noteq> None"
proof (induction fs i state rule: visit.induct)
  case (1 fs i state)
  show ?case
  proof (cases "state ! i = Unvisited")
    case True
    then have neq: "state ! i \<noteq> Visiting" "state ! i \<noteq> Visited" by simp_all
    have "visit fs j (state[i := Visiting]) \<noteq> None"
      if "index_of_function fs (mc_target_id (cf_mode_master (fs ! i))) = Some j"
        "mc_target_kind (cf_mode_master (fs ! i)) = Channel_function" "mc_valid (cf_mode_master (fs ! i))" for j
      using "1.IH" [OF _ neq refl refl _ that(2,1)] "1.prems" that index_of_function_less [OF that(1)] by simp
    then show ?thesis
      using "1.prems" neq by (subst visit.simps) (auto simp: Let_def split: option.splits sum.splits)
  next
    case False
    then show ?thesis using "1.prems" by (subst visit.simps) (cases "state ! i"; simp)
  qed
qed

lemma visit_each_result:
  "\<forall>i\<in>set is. i < length fs \<Longrightarrow> length state = length fs \<Longrightarrow> marked Visiting state = {} \<Longrightarrow>
   marked Visited state \<subseteq> Collect (grounded fs) \<Longrightarrow>
     (\<exists>res. visit_each fs is state = Some res \<and> ((\<exists>state'. res = Inr state') \<longleftrightarrow> (\<forall>i\<in>set is. grounded fs i)))"
proof (induction "is" arbitrary: state)
  case (Cons i "is")
  obtain res where res: "visit fs i state = Some res"
    using visit_defined [of i fs state] Cons.prems by auto
  show ?case
  proof (cases res)
    case (Inl d)
    then have "\<not> grounded fs i" using visit_complete [of fs i state] Cons.prems res by auto
    then show ?thesis using res Inl by simp
  next
    case (Inr st)
    then have s: "length st = length fs \<and> marked Visited st \<subseteq> Collect (grounded fs) \<and> grounded fs i"
      using visit_sound [of fs i state st] res Cons.prems by simp
    then have "marked Visiting st = {}"
      using visit_complete [of fs i state] Cons.prems res Inr by auto
    then show ?thesis using Cons.IH [of st] Cons.prems(1) s res Inr by auto
  qed
qed simp

lemma all_grounded_iff:
  "(\<forall>i < length fs. grounded fs i) \<longleftrightarrow>
     (\<forall>i < length fs. condition_resolved fs i
        \<and> (depends_on fs i \<longrightarrow> index_of_function fs (mc_target_id (cf_mode_master (fs ! i))) \<noteq> None))
     \<and> acyclic (dependencies fs)"
proof (intro iffI conjI)
  assume all: "\<forall>i < length fs. grounded fs i"
  show "\<forall>i < length fs. condition_resolved fs i
        \<and> (depends_on fs i \<longrightarrow> index_of_function fs (mc_target_id (cf_mode_master (fs ! i))) \<noteq> None)"
    using all by (auto elim: grounded_cases)
  have "(i, i) \<notin> (dependencies fs)\<^sup>+" for i
  proof
    assume "(i, i) \<in> (dependencies fs)\<^sup>+"
    moreover from this have "i < length fs" by (auto simp: dependencies_def dest: tranclD)
    ultimately show False using all grounded_no_cycle by blast
  qed
  then show "acyclic (dependencies fs)" by (simp add: acyclic_def)
next
  assume a: "(\<forall>i < length fs. condition_resolved fs i
        \<and> (depends_on fs i \<longrightarrow> index_of_function fs (mc_target_id (cf_mode_master (fs ! i))) \<noteq> None))
     \<and> acyclic (dependencies fs)"
  have "dependencies fs \<subseteq> {..<length fs} \<times> {..<length fs}"
    using index_of_function_less by (auto simp: dependencies_def)
  then have "finite (dependencies fs)" by (rule finite_subset) simp
  then have wf: "wf ((dependencies fs)\<inverse>)" using a finite_acyclic_wf_converse by blast
  have "i < length fs \<longrightarrow> grounded fs i" for i
  proof (induction i rule: wf_induct_rule [OF wf])
    case (1 i)
    show ?case
    proof
      assume i: "i < length fs"
      show "grounded fs i"
      proof (cases "depends_on fs i")
        case True
        then obtain j where j: "index_of_function fs (mc_target_id (cf_mode_master (fs ! i))) = Some j"
          using a i by auto
        then have "(i, j) \<in> dependencies fs" using i True by (simp add: dependencies_def)
        then have "grounded fs j" using 1 index_of_function_less [OF j] by simp
        then show ?thesis using grounded.dependent True j a i by blast
      next
        case False
        then show ?thesis using grounded.leaf a i by blast
      qed
    qed
  qed
  then show "\<forall>i < length fs. grounded fs i" by blast
qed

text \<open>C25: the graph check always returns, and it accepts exactly the lists in which every function's
  condition is resolved, every ChannelFunction dependency names a function of the list, and the
  dependencies have no cycle.\<close>

theorem validate_mode_master_graph_exact:
  "\<exists>res. validate_mode_master_graph fs = Some res \<and>
     (res = Inr () \<longleftrightarrow>
        (\<forall>i < length fs. mc_valid (cf_mode_master (fs ! i)) \<and> mc_target_kind (cf_mode_master (fs ! i)) \<noteq> Invalid_target
           \<and> (mc_target_kind (cf_mode_master (fs ! i)) = Channel_function \<longrightarrow>
                mc_target_id (cf_mode_master (fs ! i)) \<in> cf_function_id ` set fs))
        \<and> acyclic (dependencies fs))"
proof -
  have "marked Visiting (replicate (length fs) Unvisited) = {}" "marked Visited (replicate (length fs) Unvisited) = {}"
    by (auto simp: marked_def)
  then obtain res where res: "visit_each fs [0..<length fs] (replicate (length fs) Unvisited) = Some res"
      "(\<exists>state'. res = Inr state') \<longleftrightarrow> (\<forall>i\<in>set [0..<length fs]. grounded fs i)"
    using visit_each_result [of "[0..<length fs]" fs "replicate (length fs) Unvisited"] by force
  have known: "index_of_function fs k \<noteq> None \<longleftrightarrow> k \<in> cf_function_id ` set fs" for k
  proof -
    have "fst ` set (zip (map cf_function_id fs) [0..<length fs]) = set (map fst (zip (map cf_function_id fs) [0..<length fs]))"
      by (simp only: set_map)
    also have "\<dots> = cf_function_id ` set fs" by (simp only: map_fst_zip length_map length_upt diff_zero set_map)
    finally show ?thesis unfolding index_of_function_def by (simp only: map_of_eq_None_iff set_rev not_not)
  qed
  have "validate_mode_master_graph fs = Some (case res of Inl d \<Rightarrow> Inl d | Inr _ \<Rightarrow> Inr ())"
    using res(1) by (simp add: validate_mode_master_graph_def split: sum.split)
  moreover have "(case res of Inl d \<Rightarrow> Inl d | Inr _ \<Rightarrow> Inr ()) = Inr () \<longleftrightarrow> (\<forall>i < length fs. grounded fs i)"
    using res(2) by (cases res) (simp_all add: Ball_def)
  ultimately show ?thesis
    using known by (simp add: all_grounded_iff condition_resolved_def depends_on_def)
qed

text \<open>A function that waits for itself, and one that waits for nothing.\<close>

definition self_cycle :: "activation list" where
  "self_cycle = [\<lparr>cf_function_id = 7, cf_source_id = 0, cf_dmx_from = 0, cf_dmx_to = 255,
     cf_mode_master = blank_condition\<lparr>mc_target_kind := Channel_function, mc_target_id := 7\<rparr>\<rparr>]"

definition unconditional :: "activation list" where
  "unconditional = [\<lparr>cf_function_id = 7, cf_source_id = 0, cf_dmx_from = 0, cf_dmx_to = 255,
     cf_mode_master = blank_condition\<rparr>]"

theorem validate_mode_master_graph_exact_witness:
  "validate_mode_master_graph unconditional = Some (Inr ()) \<and>
     validate_mode_master_graph self_cycle \<noteq> Some (Inr ())"
proof
  have "\<not> depends_on unconditional i" if "i < length unconditional" for i
    using that by (simp add: depends_on_def unconditional_def blank_condition_def)
  then have "dependencies unconditional = {}" by (auto simp: dependencies_def)
  then show "validate_mode_master_graph unconditional = Some (Inr ())"
    using validate_mode_master_graph_exact [of unconditional]
    by (auto simp: unconditional_def blank_condition_def acyclic_def)
  have "(0, 0) \<in> dependencies self_cycle"
    by (simp add: dependencies_def depends_on_def self_cycle_def index_of_function_def)
  then have "\<not> acyclic (dependencies self_cycle)" by (auto simp: acyclic_def)
  then show "validate_mode_master_graph self_cycle \<noteq> Some (Inr ())"
    using validate_mode_master_graph_exact [of self_cycle] by auto
qed

subsection \<open>What activation means\<close>

definition source_in :: "u32 list \<Rightarrow> activation \<Rightarrow> u32 \<Rightarrow> u32 \<Rightarrow> bool" where
  "source_in source_values f from to \<longleftrightarrow>
     (\<exists>v. source_value (cf_source_id f) source_values = Some v \<and> from \<le> v \<and> v \<le> to)"

definition in_own_range :: "activation list \<Rightarrow> u32 list \<Rightarrow> nat \<Rightarrow> bool" where
  "in_own_range fs source_values i \<longleftrightarrow> i < length fs \<and> mc_valid (cf_mode_master (fs ! i))
     \<and> source_in source_values (fs ! i) (cf_dmx_from (fs ! i)) (cf_dmx_to (fs ! i))"

text \<open>The function at position \<open>j\<close> is the first one with the id the condition names, and its source is
  within the condition's range.\<close>

definition master_in_range :: "activation list \<Rightarrow> u32 list \<Rightarrow> nat \<Rightarrow> int \<Rightarrow> nat \<Rightarrow> bool" where
  "master_in_range fs source_values i k j \<longleftrightarrow> find_index k fs = j \<and> j < length fs
     \<and> source_in source_values (fs ! j) (mc_from (cf_mode_master (fs ! i))) (mc_to (cf_mode_master (fs ! i)))"

inductive activated :: "activation list \<Rightarrow> u32 list \<Rightarrow> nat \<Rightarrow> bool" for fs source_values where
  independent: "in_own_range fs source_values i \<Longrightarrow> mc_target_kind (cf_mode_master (fs ! i)) = No_target \<Longrightarrow>
     activated fs source_values i"
| by_channel: "in_own_range fs source_values i \<Longrightarrow> mc_target_kind (cf_mode_master (fs ! i)) = Dmx_channel \<Longrightarrow>
     master_in_range fs source_values i (mc_master_program_id (cf_mode_master (fs ! i))) j \<Longrightarrow>
     activated fs source_values i"
| by_function: "in_own_range fs source_values i \<Longrightarrow> mc_target_kind (cf_mode_master (fs ! i)) = Channel_function \<Longrightarrow>
     master_in_range fs source_values i (mc_target_id (cf_mode_master (fs ! i))) j \<Longrightarrow>
     activated fs source_values j \<Longrightarrow> activated fs source_values i"

lemma source_in_cases:
  "source_in vs f from to \<longleftrightarrow> (case source_value (cf_source_id f) vs of None \<Rightarrow> False | Some v \<Rightarrow> \<not> (v < from \<or> v > to))"
  by (auto simp: source_in_def not_less split: option.split)

lemma master_in_range_ex:
  "(\<exists>j. master_in_range fs vs i k j \<and> P j) \<longleftrightarrow> find_index k fs < length fs
     \<and> source_in vs (fs ! find_index k fs) (mc_from (cf_mode_master (fs ! i))) (mc_to (cf_mode_master (fs ! i)))
     \<and> P (find_index k fs)"
  "Ex (master_in_range fs vs i k) \<longleftrightarrow> find_index k fs < length fs
     \<and> source_in vs (fs ! find_index k fs) (mc_from (cf_mode_master (fs ! i))) (mc_to (cf_mode_master (fs ! i)))"
  by (auto simp: master_in_range_def)

lemma activated_at_unfold:
  "activated_at fs vs i d \<longleftrightarrow> d \<le> length fs \<and> in_own_range fs vs i \<and>
     (case mc_target_kind (cf_mode_master (fs ! i)) of
        No_target \<Rightarrow> True
      | Invalid_target \<Rightarrow> False
      | Dmx_channel \<Rightarrow> \<exists>j. master_in_range fs vs i (mc_master_program_id (cf_mode_master (fs ! i))) j
      | Channel_function \<Rightarrow> \<exists>j. master_in_range fs vs i (mc_target_id (cf_mode_master (fs ! i))) j \<and> activated_at fs vs j (d + 1))"
  by (subst activated_at.simps)
     (auto simp: in_own_range_def master_in_range_ex source_in_cases Let_def
       split: option.splits target_kind.splits)

lemma activated_at_sound: "activated_at fs vs i d \<Longrightarrow> activated fs vs i"
proof (induction "Suc (length fs) - d" arbitrary: i d rule: less_induct)
  case less
  have own: "in_own_range fs vs i" and d: "d \<le> length fs" using less.prems by (simp_all add: activated_at_unfold)
  show ?case
  proof (cases "mc_target_kind (cf_mode_master (fs ! i))")
    case Channel_function
    then obtain j where "master_in_range fs vs i (mc_target_id (cf_mode_master (fs ! i))) j" "activated_at fs vs j (d + 1)"
      using less.prems by (auto simp: activated_at_unfold [of fs vs i])
    then show ?thesis using activated.by_function [OF own Channel_function] less.hyps [of "d + 1" j] d by simp
  next
    case Dmx_channel
    then show ?thesis using less.prems activated.by_channel [OF own] by (auto simp: activated_at_unfold)
  next
    case No_target
    then show ?thesis using activated.independent [OF own] by simp
  next
    case Invalid_target
    then show ?thesis using less.prems by (simp add: activated_at_unfold)
  qed
qed

text \<open>The positions a cascade visits. They are distinct, because each has at most one successor, so
  the depth limit of the evaluation is never what stops it.\<close>

inductive cascade :: "activation list \<Rightarrow> u32 list \<Rightarrow> nat \<Rightarrow> nat list \<Rightarrow> bool" for fs vs where
  stop: "activated fs vs i \<Longrightarrow> mc_target_kind (cf_mode_master (fs ! i)) \<noteq> Channel_function \<Longrightarrow> cascade fs vs i [i]"
| next_master: "in_own_range fs vs i \<Longrightarrow> mc_target_kind (cf_mode_master (fs ! i)) = Channel_function \<Longrightarrow>
     master_in_range fs vs i (mc_target_id (cf_mode_master (fs ! i))) j \<Longrightarrow> cascade fs vs j xs \<Longrightarrow> cascade fs vs i (i # xs)"

inductive_cases cascade_cases: "cascade fs vs i xs"
inductive_cases activated_cases: "activated fs vs i"

lemma activated_cascade: "activated fs vs i \<Longrightarrow> \<exists>xs. cascade fs vs i xs"
proof (induction rule: activated.induct)
  case (independent i)
  then have "activated fs vs i" by (rule activated.independent)
  then show ?case using cascade.stop independent.hyps(2) by fastforce
next
  case (by_channel i j)
  then have "activated fs vs i" by (rule activated.by_channel)
  then show ?case using cascade.stop by_channel.hyps(2) by fastforce
next
  case (by_function i j)
  then show ?case using cascade.next_master by blast
qed

lemma cascade_unique: "cascade fs vs i xs \<Longrightarrow> cascade fs vs i ys \<Longrightarrow> ys = xs"
proof (induction arbitrary: ys rule: cascade.induct)
  case (stop i)
  from stop.prems show ?case by (cases rule: cascade.cases) (use stop.hyps in simp_all)
next
  case (next_master i j xs)
  from next_master.prems show ?case
  proof (cases rule: cascade.cases)
    case (next_master j' xs')
    then have "j' = j" using next_master.hyps(3) by (simp add: master_in_range_def)
    then show ?thesis using next_master next_master.IH by simp
  qed (use next_master.hyps in simp)
qed

lemma cascade_suffix: "cascade fs vs i xs \<Longrightarrow> y \<in> set xs \<Longrightarrow> \<exists>ys. cascade fs vs y ys \<and> length ys \<le> length xs"
proof (induction rule: cascade.induct)
  case (next_master i j xs)
  show ?case
  proof (cases "y = i")
    case True
    then have "cascade fs vs y (i # xs)" using cascade.next_master next_master.hyps by blast
    then show ?thesis by blast
  next
    case False
    then have "y \<in> set xs" using next_master.prems by simp
    then show ?thesis using next_master.IH le_SucI by fastforce
  qed
qed (use cascade.stop in fastforce)

lemma cascade_distinct: "cascade fs vs i xs \<Longrightarrow> distinct xs"
proof (induction rule: cascade.induct)
  case (next_master i j xs)
  have "i \<notin> set xs"
  proof
    assume "i \<in> set xs"
    then obtain ys where ys: "cascade fs vs i ys" "length ys \<le> length xs"
      using cascade_suffix [OF next_master.hyps(4)] by blast
    have "cascade fs vs i (i # xs)" using cascade.next_master next_master.hyps by blast
    then have "ys = i # xs" using cascade_unique ys(1) by blast
    then show False using ys(2) by simp
  qed
  then show ?case using next_master.IH by simp
qed simp

lemma activated_in_range: "activated fs vs i \<Longrightarrow> i < length fs"
  by (auto elim: activated_cases simp: in_own_range_def)

lemma cascade_in_range: "cascade fs vs i xs \<Longrightarrow> \<forall>x\<in>set xs. x < length fs"
  by (induction rule: cascade.induct) (auto simp: activated_in_range in_own_range_def)

lemma cascade_activated_at: "cascade fs vs i xs \<Longrightarrow> d + length xs \<le> Suc (length fs) \<Longrightarrow> activated_at fs vs i d"
proof (induction arbitrary: d rule: cascade.induct)
  case (stop i)
  have d: "d \<le> length fs" using stop.prems by simp
  from stop.hyps(1) show ?case
    by (cases rule: activated.cases) (use stop.hyps(2) d in \<open>auto simp: activated_at_unfold [of fs vs i]\<close>)
next
  case (next_master i j xs)
  then have "activated_at fs vs j (d + 1)" by simp
  then show ?case using next_master by (auto simp: activated_at_unfold [of fs vs i])
qed

lemma activated_at_complete:
  assumes "activated fs vs i"
  shows "activated_at fs vs i 0"
proof -
  obtain xs where xs: "cascade fs vs i xs" using activated_cascade [OF assms] by blast
  have "card (set xs) \<le> card {..<length fs}" by (rule card_mono) (use cascade_in_range [OF xs] in auto)
  then have "length xs \<le> length fs" using distinct_card [OF cascade_distinct [OF xs]] by simp
  then show ?thesis by (intro cascade_activated_at [OF xs]) simp
qed

text \<open>A channel function is active exactly when some finite cascade says so: the first function with
  its id has its source in range and a valid condition, and that condition is absent, or names a
  channel whose source is in the condition's range, or names a function whose source is in that range
  and which is itself active. This holds for every list, also for cyclic or repeated ids: the depth
  limit of the evaluation never cuts a cascade short.\<close>

theorem is_channel_function_active_exact:
  "is_channel_function_active function_id fs source_values =
     activated fs source_values (find_index function_id fs)"
  using activated_at_sound activated_at_complete activated_in_range
  by (auto simp: is_channel_function_active_def Let_def)

end
