(* ===== verification/Fixture_Binding.thy ===== *)
theory Fixture_Binding
  imports Prelude "HOL-Library.Multiset"
begin

text \<open>
  Binding of patched fixtures to DMX channels (\<open>dmx/fixture_dmx_binding.{h,cpp}\<close>): from the MVR
  patch of every fixture and the one-based channel offsets of its GDTF mode, the zero-based DMX
  channel indices of every attribute, or the reason why the fixture stays unbound.

  The three flat members \<open>x_coarse_offset_1_based\<close>, \<open>x_fine_offset_1_based\<close> and
  \<open>x_ultra_fine_offset_1_based\<close> of an attribute \<open>x\<close> of \<open>FixtureControlOffsets\<close> are one field
  \<open>x_offset\<close> of the record type \<open>attribute_offset\<close>.  \<open>float\<close> values are only copied here: they are the
  type variable \<open>'f\<close>.  A directory lease is an option, \<open>valid()\<close> being a non-null pointer.  Reading the
  GDTF archive (\<open>resolve_fixture_control_offsets\<close>) is the parameter \<open>resolve\<close>, which returns the debug
  reason of a failure or the offsets.  \<open>int\<close> is the mathematical integer; \<open>channel_index_no_overflow\<close>
  bounds the indices that are computed.
\<close>

named_theorems binding_simps \<open>fields of the bindings\<close>

subsection \<open>Data\<close>

record fixture_patch =
  patch_uuid :: string
  mvr_universe :: int
  mvr_address :: int
  patch_dmx_mode :: string
  patch_gdtf_path :: string

record attribute_channel =
  coarse_index :: int
  fine_index :: int
  ultra_fine_index :: int

record gobo_slot =
  gobo_slot_index :: int
  image_path :: string

datatype gobo_range_behavior = GoboFixed | GoboIndex | GoboRotation | GoboShake

record gobo_range =
  range_dmx_from :: int
  range_dmx_to :: int
  range_mode_from_8bit :: int
  range_mode_to_8bit :: int
  range_slot_index :: int
  range_behavior :: gobo_range_behavior

record 'f gobo_rotation_range =
  rot_dmx_from :: int
  rot_dmx_to :: int
  rot_mode_from_8bit :: int
  rot_mode_to_8bit :: int
  rot_physical_from :: 'f
  rot_physical_to :: 'f
  is_stop_range :: bool
  is_rotation_channel_range :: bool

datatype gobo_shake_control = SameChannelSelect | DedicatedShakeChannel

record 'f gobo_shake_range =
  shake_dmx_from :: int
  shake_dmx_to :: int
  shake_mode_from_8bit :: int
  shake_mode_to_8bit :: int
  shake_physical_from :: 'f
  shake_physical_to :: 'f
  has_explicit_amplitude :: bool
  amplitude_from_degrees :: 'f
  amplitude_to_degrees :: 'f
  shake_slot_index :: int
  shake_control :: gobo_shake_control

record 'f gobo_wheel_details =
  supports_index :: bool
  supports_rotation :: bool
  supports_spin_rotation :: bool
  supports_shake :: bool
  has_index_physical_limits :: bool
  index_physical_min :: 'f
  index_physical_max :: 'f
  rotation_ranges :: "'f gobo_rotation_range list"
  shake_ranges :: "'f gobo_shake_range list"
  wheel_number :: int
  wheel_name :: string
  wheel_slots :: "gobo_slot list"
  wheel_ranges :: "gobo_range list"

record 'f gobo_wheel_binding =
  wheel_channel :: attribute_channel
  wheel_index_channel :: attribute_channel
  wheel_rotation_channel :: attribute_channel
  wheel_details :: "'f gobo_wheel_details"

record 'f control_binding =
  fixture_uuid :: string
  dmx_mode :: string
  gdtf_path :: string
  artnet_universe_id :: int
  dimmer :: attribute_channel
  pan :: attribute_channel
  tilt :: attribute_channel
  zoom :: attribute_channel
  cyan :: attribute_channel
  magenta :: attribute_channel
  yellow :: attribute_channel
  strobe :: attribute_channel
  prism :: attribute_channel
  prism_index :: attribute_channel
  prism_rotation :: attribute_channel
  color_wheel :: attribute_channel
  color_wheel_rotation :: attribute_channel
  animation_wheel :: attribute_channel
  animation_wheel_rotation :: attribute_channel
  gobo :: attribute_channel
  gobo_index :: attribute_channel
  gobo_rotation :: attribute_channel
  gobo_wheel_number :: int
  gobo_wheel_name :: string
  gobo_slots :: "gobo_slot list"
  gobo_ranges :: "gobo_range list"
  gobo_wheels :: "'f gobo_wheel_binding list"
  has_zoom_physical_limits :: bool
  zoom_physical_min_degrees :: 'f
  zoom_physical_max_degrees :: 'f
  binding_scale :: 'f

record unbound_reason =
  reason_uuid :: string
  reason_text :: string

record ('f, 'l) build_result =
  bindings :: "'f control_binding list"
  unbound :: "unbound_reason list"
  warnings :: "unbound_reason list"
  asset_cache_leases :: "'l option list"

record attribute_offset =
  coarse_offset :: int
  fine_offset :: int
  ultra_fine_offset :: int

record 'f gobo_wheel_offset =
  wheel_offset :: attribute_offset
  wheel_index_offset :: attribute_offset
  wheel_rotation_offset :: attribute_offset
  rotation_channel_priority :: int
  wheel_offset_details :: "'f gobo_wheel_details"

record ('f, 'l) control_offsets =
  asset_cache_lease :: "'l option"
  offset_warnings :: "unbound_reason list"
  dimmer_offset :: attribute_offset
  pan_offset :: attribute_offset
  tilt_offset :: attribute_offset
  zoom_offset :: attribute_offset
  cyan_offset :: attribute_offset
  magenta_offset :: attribute_offset
  yellow_offset :: attribute_offset
  strobe_offset :: attribute_offset
  prism_offset :: attribute_offset
  prism_index_offset :: attribute_offset
  prism_rotation_offset :: attribute_offset
  color_wheel_offset :: attribute_offset
  color_wheel_rotation_offset :: attribute_offset
  animation_wheel_offset :: attribute_offset
  animation_wheel_rotation_offset :: attribute_offset
  gobo_offset :: attribute_offset
  gobo_index_offset :: attribute_offset
  gobo_rotation_offset :: attribute_offset
  offset_gobo_wheel_number :: int
  offset_gobo_wheel_name :: string
  offset_gobo_slots :: "gobo_slot list"
  offset_gobo_ranges :: "gobo_range list"
  offset_gobo_wheels :: "'f gobo_wheel_offset list"
  offset_has_zoom_physical_limits :: bool
  offset_zoom_physical_min_degrees :: 'f
  offset_zoom_physical_max_degrees :: 'f

subsection \<open>Operations\<close>

text \<open>\<open>FixtureAttributeChannel()\<close>\<close>

definition no_channel :: attribute_channel where
  "no_channel = \<lparr>coarse_index = -1, fine_index = -1, ultra_fine_index = -1\<rparr>"

text \<open>\<open>FixtureControlOffsets::has_any\<close>\<close>

definition has_any :: "('f, 'l) control_offsets \<Rightarrow> bool" where
  "has_any ofs \<longleftrightarrow>
     coarse_offset (dimmer_offset ofs) > 0 \<or> coarse_offset (pan_offset ofs) > 0 \<or>
     coarse_offset (tilt_offset ofs) > 0 \<or> coarse_offset (zoom_offset ofs) > 0 \<or>
     coarse_offset (cyan_offset ofs) > 0 \<or> coarse_offset (magenta_offset ofs) > 0 \<or>
     coarse_offset (strobe_offset ofs) > 0 \<or> coarse_offset (prism_offset ofs) > 0 \<or>
     coarse_offset (prism_index_offset ofs) > 0 \<or> coarse_offset (prism_rotation_offset ofs) > 0 \<or>
     coarse_offset (color_wheel_offset ofs) > 0 \<or>
     coarse_offset (color_wheel_rotation_offset ofs) > 0 \<or>
     coarse_offset (animation_wheel_offset ofs) > 0 \<or>
     coarse_offset (animation_wheel_rotation_offset ofs) > 0 \<or>
     coarse_offset (gobo_offset ofs) > 0 \<or> coarse_offset (gobo_index_offset ofs) > 0 \<or>
     coarse_offset (gobo_rotation_offset ofs) > 0 \<or> coarse_offset (yellow_offset ofs) > 0 \<or>
     offset_gobo_wheels ofs \<noteq> []"

definition to_channel_index_0 :: "fixture_patch \<Rightarrow> int \<Rightarrow> int" where
  "to_channel_index_0 p offset_1_based =
     (if offset_1_based \<le> 0 then -1 else (mvr_address p - 1) + (offset_1_based - 1))"

definition is_valid_channel_index :: "int \<Rightarrow> bool" where
  "is_valid_channel_index i \<longleftrightarrow> i \<ge> 0 \<and> i < 512"

definition to_channel_binding :: "fixture_patch \<Rightarrow> attribute_offset \<Rightarrow> attribute_channel" where
  "to_channel_binding p ofs =
     \<lparr>coarse_index = to_channel_index_0 p (coarse_offset ofs),
      fine_index = to_channel_index_0 p (fine_offset ofs),
      ultra_fine_index = to_channel_index_0 p (ultra_fine_offset ofs)\<rparr>"

definition sanitize_channel_binding :: "attribute_channel \<Rightarrow> attribute_channel" where
  "sanitize_channel_binding ch =
     (let ch = (if fine_index ch \<ge> 0 \<and> \<not> is_valid_channel_index (fine_index ch)
                then ch\<lparr>fine_index := -1\<rparr> else ch)
      in if ultra_fine_index ch \<ge> 0 \<and> \<not> is_valid_channel_index (ultra_fine_index ch)
         then ch\<lparr>ultra_fine_index := -1\<rparr> else ch)"

definition collect_channel_indices :: "attribute_channel \<Rightarrow> int set \<Rightarrow> int set" where
  "collect_channel_indices ch out =
     (let out = (if is_valid_channel_index (coarse_index ch) then insert (coarse_index ch) out else out);
          out = (if is_valid_channel_index (fine_index ch) then insert (fine_index ch) out else out)
      in if is_valid_channel_index (ultra_fine_index ch) then insert (ultra_fine_index ch) out else out)"

definition collect_wheel_indices :: "'f gobo_wheel_binding \<Rightarrow> int set \<Rightarrow> int set" where
  "collect_wheel_indices w out =
     collect_channel_indices (wheel_rotation_channel w)
       (collect_channel_indices (wheel_index_channel w)
         (collect_channel_indices (wheel_channel w) out))"

definition reserve_gobo_wheel_channels_from_zoom ::
    "'f control_binding \<Rightarrow> 'f control_binding" where
  "reserve_gobo_wheel_channels_from_zoom b =
     (let gobo_indices = fold collect_wheel_indices (gobo_wheels b) {}
      in if gobo_indices = {} then b
         else if coarse_index (zoom b) \<in> gobo_indices then b\<lparr>zoom := no_channel\<rparr>
         else
           let b = (if fine_index (zoom b) \<in> gobo_indices
                    then b\<lparr>zoom := (zoom b)\<lparr>fine_index := -1\<rparr>\<rparr> else b)
           in if ultra_fine_index (zoom b) \<in> gobo_indices
              then b\<lparr>zoom := (zoom b)\<lparr>ultra_fine_index := -1\<rparr>\<rparr> else b)"

definition to_wheel_binding :: "fixture_patch \<Rightarrow> 'f gobo_wheel_offset \<Rightarrow> 'f gobo_wheel_binding" where
  "to_wheel_binding p w =
     \<lparr>wheel_channel = to_channel_binding p (wheel_offset w),
      wheel_index_channel = to_channel_binding p (wheel_index_offset w),
      wheel_rotation_channel = to_channel_binding p (wheel_rotation_offset w),
      wheel_details = wheel_offset_details w\<rparr>"

text \<open>The binding built from the offsets, up to the reservation of the gobo channels.\<close>

definition initial_binding ::
    "int \<Rightarrow> fixture_patch \<Rightarrow> ('f::one, 'l) control_offsets \<Rightarrow> 'f control_binding" where
  "initial_binding universe_offset p ofs =
     \<lparr>fixture_uuid = patch_uuid p, dmx_mode = patch_dmx_mode p, gdtf_path = patch_gdtf_path p,
      artnet_universe_id = mvr_universe p + universe_offset,
      dimmer = to_channel_binding p (dimmer_offset ofs),
      pan = to_channel_binding p (pan_offset ofs),
      tilt = to_channel_binding p (tilt_offset ofs),
      zoom = to_channel_binding p (zoom_offset ofs),
      cyan = to_channel_binding p (cyan_offset ofs),
      magenta = to_channel_binding p (magenta_offset ofs),
      yellow = to_channel_binding p (yellow_offset ofs),
      strobe = to_channel_binding p (strobe_offset ofs),
      prism = to_channel_binding p (prism_offset ofs),
      prism_index = to_channel_binding p (prism_index_offset ofs),
      prism_rotation = to_channel_binding p (prism_rotation_offset ofs),
      color_wheel = to_channel_binding p (color_wheel_offset ofs),
      color_wheel_rotation = to_channel_binding p (color_wheel_rotation_offset ofs),
      animation_wheel = to_channel_binding p (animation_wheel_offset ofs),
      animation_wheel_rotation = to_channel_binding p (animation_wheel_rotation_offset ofs),
      gobo = to_channel_binding p (gobo_offset ofs),
      gobo_index = to_channel_binding p (gobo_index_offset ofs),
      gobo_rotation = to_channel_binding p (gobo_rotation_offset ofs),
      gobo_wheel_number = offset_gobo_wheel_number ofs,
      gobo_wheel_name = offset_gobo_wheel_name ofs,
      gobo_slots = offset_gobo_slots ofs,
      gobo_ranges = offset_gobo_ranges ofs,
      gobo_wheels = map (to_wheel_binding p) (offset_gobo_wheels ofs),
      has_zoom_physical_limits = offset_has_zoom_physical_limits ofs,
      zoom_physical_min_degrees = offset_zoom_physical_min_degrees ofs,
      zoom_physical_max_degrees = offset_zoom_physical_max_degrees ofs,
      binding_scale = 1\<rparr>"

text \<open>The \<open>has_...\<close> flags: some attribute of the binding has a channel inside the universe.\<close>

definition has_usable_channel :: "'f control_binding \<Rightarrow> bool" where
  "has_usable_channel b \<longleftrightarrow>
     is_valid_channel_index (coarse_index (dimmer b)) \<or> is_valid_channel_index (coarse_index (pan b)) \<or>
     is_valid_channel_index (coarse_index (tilt b)) \<or> is_valid_channel_index (coarse_index (zoom b)) \<or>
     is_valid_channel_index (coarse_index (cyan b)) \<or> is_valid_channel_index (coarse_index (magenta b)) \<or>
     is_valid_channel_index (coarse_index (yellow b)) \<or> is_valid_channel_index (coarse_index (strobe b)) \<or>
     is_valid_channel_index (coarse_index (prism b)) \<or>
     is_valid_channel_index (coarse_index (prism_index b)) \<or>
     is_valid_channel_index (coarse_index (prism_rotation b)) \<or>
     is_valid_channel_index (coarse_index (color_wheel b)) \<or>
     is_valid_channel_index (coarse_index (color_wheel_rotation b)) \<or>
     is_valid_channel_index (coarse_index (animation_wheel b)) \<or>
     is_valid_channel_index (coarse_index (animation_wheel_rotation b)) \<or>
     is_valid_channel_index (coarse_index (gobo b)) \<or>
     list_ex (\<lambda>w. is_valid_channel_index (coarse_index (wheel_channel w))) (gobo_wheels b)"

definition sanitize_wheel :: "'f gobo_wheel_binding \<Rightarrow> 'f gobo_wheel_binding" where
  "sanitize_wheel w =
     w\<lparr>wheel_channel := sanitize_channel_binding (wheel_channel w),
       wheel_index_channel := sanitize_channel_binding (wheel_index_channel w),
       wheel_rotation_channel := sanitize_channel_binding (wheel_rotation_channel w)\<rparr>"

definition sanitize_binding :: "'f control_binding \<Rightarrow> 'f control_binding" where
  "sanitize_binding b =
     b\<lparr>dimmer := sanitize_channel_binding (dimmer b),
       pan := sanitize_channel_binding (pan b),
       tilt := sanitize_channel_binding (tilt b),
       zoom := sanitize_channel_binding (zoom b),
       cyan := sanitize_channel_binding (cyan b),
       magenta := sanitize_channel_binding (magenta b),
       yellow := sanitize_channel_binding (yellow b),
       strobe := sanitize_channel_binding (strobe b),
       prism := sanitize_channel_binding (prism b),
       prism_index := sanitize_channel_binding (prism_index b),
       prism_rotation := sanitize_channel_binding (prism_rotation b),
       color_wheel := sanitize_channel_binding (color_wheel b),
       color_wheel_rotation := sanitize_channel_binding (color_wheel_rotation b),
       animation_wheel := sanitize_channel_binding (animation_wheel b),
       animation_wheel_rotation := sanitize_channel_binding (animation_wheel_rotation b),
       gobo := sanitize_channel_binding (gobo b),
       gobo_index := sanitize_channel_binding (gobo_index b),
       gobo_rotation := sanitize_channel_binding (gobo_rotation b),
       gobo_wheels := map sanitize_wheel (gobo_wheels b)\<rparr>"

definition push_warning :: "string \<Rightarrow> unbound_reason \<Rightarrow> unbound_reason list \<Rightarrow> unbound_reason list" where
  "push_warning uuid warning out =
     (let warning = warning\<lparr>reason_uuid := uuid\<rparr>
      in if list_ex (\<lambda>existing. reason_text existing = reason_text warning
                       \<and> reason_uuid existing = reason_uuid warning) out
         then out else out @ [warning])"

definition push_unbound :: "fixture_patch \<Rightarrow> string \<Rightarrow> ('f, 'l) build_result \<Rightarrow> ('f, 'l) build_result" where
  "push_unbound p reason r =
     r\<lparr>unbound := unbound r @ [\<lparr>reason_uuid = patch_uuid p, reason_text = reason\<rparr>]\<rparr>"

type_synonym ('f, 'l) build_state =
  "('f, 'l) build_result \<times> (string \<rightharpoonup> 'f control_binding)"

text \<open>One iteration of the loop over the patches.\<close>

definition bind_patch ::
    "(string \<Rightarrow> string \<Rightarrow> string + ('f::one, 'l) control_offsets) \<Rightarrow> int \<Rightarrow> fixture_patch
      \<Rightarrow> ('f, 'l) build_state \<Rightarrow> ('f, 'l) build_state" where
  "bind_patch resolve universe_offset p st =
     (let (r, lookup) = st in
      if patch_uuid p = [] then (r, lookup)
      else if mvr_universe p \<le> 0 \<or> mvr_address p \<le> 0 \<or> mvr_address p > 512 then
        (push_unbound p ''missing or invalid MVR patch (universe/address)'' r, lookup)
      else if patch_dmx_mode p = [] then
        (push_unbound p ''missing DMX mode in MVR fixture'' r, lookup)
      else if patch_gdtf_path p = [] then
        (push_unbound p ''missing resolved GDTF path'' r, lookup)
      else case resolve (patch_gdtf_path p) (patch_dmx_mode p) of
        Inl debug_reason \<Rightarrow> (push_unbound p debug_reason r, lookup)
      | Inr ofs \<Rightarrow>
          (let r = (if asset_cache_lease ofs \<noteq> None
                    then r\<lparr>asset_cache_leases := asset_cache_leases r @ [asset_cache_lease ofs]\<rparr>
                    else r);
               r = r\<lparr>warnings := fold (push_warning (patch_uuid p)) (offset_warnings ofs) (warnings r)\<rparr>;
               b = reserve_gobo_wheel_channels_from_zoom (initial_binding universe_offset p ofs)
           in if \<not> has_usable_channel b then
                (push_unbound p ''resolved DMX channels are out of 0..511 range'' r, lookup)
              else
                let b = sanitize_binding b
                in (r\<lparr>bindings := bindings r @ [b]\<rparr>, lookup(fixture_uuid b \<mapsto> b))))"

definition empty_result :: "('f, 'l) build_result" where
  "empty_result = \<lparr>bindings = [], unbound = [], warnings = [], asset_cache_leases = []\<rparr>"

definition build_fixture_control_bindings ::
    "(string \<Rightarrow> string \<Rightarrow> string + ('f::one, 'l) control_offsets) \<Rightarrow> fixture_patch list \<Rightarrow> int
      \<Rightarrow> (string \<rightharpoonup> 'f control_binding) \<Rightarrow> ('f, 'l) build_state" where
  "build_fixture_control_bindings resolve patches universe_offset fixture_lookup =
     fold (bind_patch resolve universe_offset) patches (empty_result, Map.empty)"

text \<open>The deprecated alias of the same signature.\<close>

definition build_dimmer_bindings ::
    "(string \<Rightarrow> string \<Rightarrow> string + ('f::one, 'l) control_offsets) \<Rightarrow> fixture_patch list \<Rightarrow> int
      \<Rightarrow> (string \<rightharpoonup> 'f control_binding) \<Rightarrow> ('f, 'l) build_state" where
  "build_dimmer_bindings resolve patches universe_offset fixture_lookup =
     build_fixture_control_bindings resolve patches universe_offset fixture_lookup"

subsection \<open>One patch\<close>

text \<open>A patch that is bound, and the binding it gets.\<close>

definition binds_to ::
    "(string \<Rightarrow> string \<Rightarrow> string + ('f::one, 'l) control_offsets) \<Rightarrow> int \<Rightarrow> fixture_patch
      \<Rightarrow> 'f control_binding \<Rightarrow> bool" where
  "binds_to resolve universe_offset p b \<longleftrightarrow>
     patch_uuid p \<noteq> [] \<and> 0 < mvr_universe p \<and> 0 < mvr_address p \<and> mvr_address p \<le> 512 \<and>
     patch_dmx_mode p \<noteq> [] \<and> patch_gdtf_path p \<noteq> [] \<and>
     (case resolve (patch_gdtf_path p) (patch_dmx_mode p) of
        Inl _ \<Rightarrow> False
      | Inr ofs \<Rightarrow>
          (let raw = reserve_gobo_wheel_channels_from_zoom (initial_binding universe_offset p ofs)
           in has_usable_channel raw \<and> b = sanitize_binding raw))"

lemma bind_patch_skip: "patch_uuid p = [] \<Longrightarrow> bind_patch resolve uo p st = st"
  by (cases st) (simp add: bind_patch_def)

lemma bind_patch_cases:
  assumes "patch_uuid p \<noteq> []"
  obtains (unbound) reason r' where
      "bind_patch resolve uo p (r, lookup) = (push_unbound p reason r', lookup)"
      "bindings r' = bindings r" "unbound r' = unbound r"
  | (bound) b r' where
      "bind_patch resolve uo p (r, lookup)
         = (r'\<lparr>bindings := bindings r @ [b]\<rparr>, lookup(fixture_uuid b \<mapsto> b))"
      "binds_to resolve uo p b" "unbound r' = unbound r"
proof (cases "mvr_universe p \<le> 0 \<or> mvr_address p \<le> 0 \<or> mvr_address p > 512
              \<or> patch_dmx_mode p = [] \<or> patch_gdtf_path p = []")
  case True
  then consider "mvr_universe p \<le> 0 \<or> mvr_address p \<le> 0 \<or> mvr_address p > 512"
    | "\<not> (mvr_universe p \<le> 0 \<or> mvr_address p \<le> 0 \<or> mvr_address p > 512)" "patch_dmx_mode p = []"
    | "\<not> (mvr_universe p \<le> 0 \<or> mvr_address p \<le> 0 \<or> mvr_address p > 512)" "patch_dmx_mode p \<noteq> []"
      "patch_gdtf_path p = []" by blast
  then have "\<exists>reason. bind_patch resolve uo p (r, lookup) = (push_unbound p reason r, lookup)"
    using assms by cases (unfold bind_patch_def Let_def split_conv, simp_all only: if_True if_False, auto)
  then show ?thesis using unbound by blast
next
  case False
  then have ok: "\<not> (mvr_universe p \<le> 0 \<or> mvr_address p \<le> 0 \<or> mvr_address p > 512)"
      "patch_dmx_mode p \<noteq> []" "patch_gdtf_path p \<noteq> []" by auto
  show ?thesis
  proof (cases "resolve (patch_gdtf_path p) (patch_dmx_mode p)")
    case (Inl reason)
    have "bind_patch resolve uo p (r, lookup) = (push_unbound p reason r, lookup)"
      unfolding bind_patch_def by (simp only: Let_def Inl assms ok split_conv if_False sum.case)
    then show ?thesis using unbound by blast
  next
    case (Inr ofs)
    define r1 where "r1 = (if asset_cache_lease ofs \<noteq> None
        then r\<lparr>asset_cache_leases := asset_cache_leases r @ [asset_cache_lease ofs]\<rparr> else r)"
    define r2 where "r2 = r1\<lparr>warnings := fold (push_warning (patch_uuid p)) (offset_warnings ofs)
        (warnings r1)\<rparr>"
    define raw where "raw = reserve_gobo_wheel_channels_from_zoom (initial_binding uo p ofs)"
    have keep: "bindings r2 = bindings r" "unbound r2 = unbound r"
      by (simp_all add: r1_def r2_def)
    have eq: "bind_patch resolve uo p (r, lookup) =
        (if \<not> has_usable_channel raw
         then (push_unbound p ''resolved DMX channels are out of 0..511 range'' r2, lookup)
         else (r2\<lparr>bindings := bindings r @ [sanitize_binding raw]\<rparr>,
               lookup(fixture_uuid (sanitize_binding raw) \<mapsto> sanitize_binding raw)))"
      unfolding bind_patch_def keep(1) [symmetric] unfolding raw_def r2_def r1_def
      by (simp only: Let_def Inr assms ok split_conv if_False sum.case)
    show ?thesis
    proof (cases "has_usable_channel raw")
      case True
      then have "binds_to resolve uo p (sanitize_binding raw)"
        using ok assms by (auto simp: binds_to_def Inr raw_def)
      with eq True keep show ?thesis using bound by (simp only: not_True_eq_False if_False)
    next
      case False
      with eq keep show ?thesis using unbound by (simp only: not_False_eq_True if_True)
    qed
  qed
qed

lemma sanitize_binding_uuid [binding_simps]: "fixture_uuid (sanitize_binding b) = fixture_uuid b"
  by (simp add: sanitize_binding_def)

lemma reserve_cases:
  obtains ch where "reserve_gobo_wheel_channels_from_zoom b = b\<lparr>zoom := ch\<rparr>"
proof -
  have "reserve_gobo_wheel_channels_from_zoom b
      = b\<lparr>zoom := zoom (reserve_gobo_wheel_channels_from_zoom b)\<rparr>"
    by (simp add: reserve_gobo_wheel_channels_from_zoom_def Let_def)
  then show ?thesis using that by blast
qed

lemma binds_to_uuid:
  assumes "binds_to resolve uo p b"
  shows "fixture_uuid b = patch_uuid p"
proof -
  from assms obtain ofs where "resolve (patch_gdtf_path p) (patch_dmx_mode p) = Inr ofs"
    and "b = sanitize_binding (reserve_gobo_wheel_channels_from_zoom (initial_binding uo p ofs))"
    by (auto simp: binds_to_def Let_def split: sum.splits intro: that)
  moreover obtain ch where
    "reserve_gobo_wheel_channels_from_zoom (initial_binding uo p ofs)
       = (initial_binding uo p ofs)\<lparr>zoom := ch\<rparr>" by (rule reserve_cases)
  ultimately show ?thesis by (simp add: binding_simps initial_binding_def)
qed

subsection \<open>The whole patch list\<close>

lemma build_snoc:
  "build_fixture_control_bindings resolve (ps @ [p]) uo lk
     = bind_patch resolve uo p (build_fixture_control_bindings resolve ps uo lk)"
  by (simp add: build_fixture_control_bindings_def)

lemma build_from_patches:
  "set (bindings (fst (build_fixture_control_bindings resolve ps uo lk)))
     \<subseteq> {b. \<exists>p\<in>set ps. binds_to resolve uo p b}"
proof (induction ps rule: rev_induct)
  case Nil
  show ?case by (simp add: build_fixture_control_bindings_def empty_result_def)
next
  case (snoc p ps)
  obtain r l where st: "build_fixture_control_bindings resolve ps uo lk = (r, l)" by fastforce
  show ?case
  proof (cases "patch_uuid p = []")
    case True
    then show ?thesis using snoc by (auto simp: build_snoc bind_patch_skip)
  next
    case False
    then show ?thesis
    proof (cases rule: bind_patch_cases [where resolve = resolve and uo = uo and r = r and lookup = l])
      case (unbound reason r')
      then show ?thesis using snoc by (auto simp: build_snoc st push_unbound_def)
    next
      case (bound b r')
      then show ?thesis using snoc by (auto simp: build_snoc st)
    qed
  qed
qed

lemma subseq_snoc: "subseq xs ys \<Longrightarrow> subseq (xs @ [y]) (ys @ [y])"
  by simp

lemma subseq_snoc_skip: "subseq xs ys \<Longrightarrow> subseq xs (ys @ [y])"
  by (meson subseq_order.trans subseq_rev_drop_many subseq_order.refl list_emb_append2)

text \<open>Every patch with an identifier is accounted for exactly once, in patch order: it is
  either in the list of bindings or in the list of unbound fixtures; the lookup table holds the last
  binding of every identifier.\<close>

theorem bindings_partition_patches:
  "case build_fixture_control_bindings resolve patches universe_offset lookup0 of (r, lookup) \<Rightarrow>
     mset (map fixture_uuid (bindings r)) + mset (map reason_uuid (unbound r))
       = mset (filter (\<lambda>u. u \<noteq> []) (map patch_uuid patches)) \<and>
     subseq (map fixture_uuid (bindings r)) (map patch_uuid patches) \<and>
     subseq (map reason_uuid (unbound r)) (map patch_uuid patches) \<and>
     lookup = map_of (rev (map (\<lambda>b. (fixture_uuid b, b)) (bindings r)))"
proof (induction patches rule: rev_induct)
  case Nil
  show ?case by (simp add: build_fixture_control_bindings_def empty_result_def)
next
  case (snoc p ps)
  obtain r l where st: "build_fixture_control_bindings resolve ps universe_offset lookup0 = (r, l)"
    by fastforce
  note IH = snoc [unfolded st split_conv]
  show ?case
  proof (cases "patch_uuid p = []")
    case True
    then show ?thesis using IH by (simp add: build_snoc st bind_patch_skip subseq_snoc_skip)
  next
    case False
    then show ?thesis
    proof (cases rule: bind_patch_cases
        [where resolve = resolve and uo = universe_offset and r = r and lookup = l])
      case (unbound reason r')
      then show ?thesis using IH False
        by (simp add: build_snoc st push_unbound_def subseq_snoc_skip)
    next
      case (bound b r')
      note eq = bound(1) binds_to_uuid [OF bound(2)] bound(3)
      show ?thesis using IH False
        by (simp add: build_snoc st eq subseq_snoc_skip fun_upd_def fun_eq_iff)
    qed
  qed
qed

subsection \<open>Channels of a binding\<close>

text \<open>The channels inside the universe that a channel triple occupies.\<close>

definition channel_indices :: "attribute_channel \<Rightarrow> int set" where
  "channel_indices ch =
     {i. i \<in> {coarse_index ch, fine_index ch, ultra_fine_index ch} \<and> is_valid_channel_index i}"

definition wheel_channels :: "'f gobo_wheel_binding \<Rightarrow> attribute_channel list" where
  "wheel_channels w = [wheel_channel w, wheel_index_channel w, wheel_rotation_channel w]"

definition independent_channels :: "'f control_binding \<Rightarrow> attribute_channel list" where
  "independent_channels b =
     [dimmer b, pan b, tilt b, cyan b, magenta b, yellow b, strobe b, prism b, prism_index b,
      prism_rotation b, color_wheel b, color_wheel_rotation b, animation_wheel b,
      animation_wheel_rotation b, gobo b, gobo_index b, gobo_rotation b]
     @ concat (map wheel_channels (gobo_wheels b))"

definition wheel_offsets :: "'f gobo_wheel_offset \<Rightarrow> attribute_offset list" where
  "wheel_offsets w = [wheel_offset w, wheel_index_offset w, wheel_rotation_offset w]"

definition independent_offsets :: "('f, 'l) control_offsets \<Rightarrow> attribute_offset list" where
  "independent_offsets ofs =
     [dimmer_offset ofs, pan_offset ofs, tilt_offset ofs, cyan_offset ofs, magenta_offset ofs,
      yellow_offset ofs, strobe_offset ofs, prism_offset ofs, prism_index_offset ofs,
      prism_rotation_offset ofs, color_wheel_offset ofs, color_wheel_rotation_offset ofs,
      animation_wheel_offset ofs, animation_wheel_rotation_offset ofs, gobo_offset ofs,
      gobo_index_offset ofs, gobo_rotation_offset ofs]
     @ concat (map wheel_offsets (offset_gobo_wheels ofs))"

text \<open>What a triple of offsets should become: the byte of the patch's universe that carries it, or
  \<open>-1\<close> when there is none.\<close>

definition patched_index :: "fixture_patch \<Rightarrow> int \<Rightarrow> int" where
  "patched_index p k = (if 0 < k \<and> mvr_address p + k \<le> 513 then mvr_address p + k - 2 else -1)"

lemma collect_is_union [binding_simps]: "collect_channel_indices ch out = channel_indices ch \<union> out"
  by (auto simp: collect_channel_indices_def channel_indices_def Let_def)

lemma collect_wheels_is_union [binding_simps]:
  "fold collect_wheel_indices ws out
     = out \<union> (\<Union>w\<in>set ws. \<Union>ch\<in>set (wheel_channels w). channel_indices ch)"
  by (induction ws arbitrary: out)
     (auto simp: collect_wheel_indices_def binding_simps wheel_channels_def)

lemma sanitize_fields [binding_simps]:
  "coarse_index (sanitize_channel_binding ch) = coarse_index ch"
  "fine_index (sanitize_channel_binding ch)
     = (if fine_index ch \<ge> 512 then -1 else fine_index ch)"
  "ultra_fine_index (sanitize_channel_binding ch)
     = (if ultra_fine_index ch \<ge> 512 then -1 else ultra_fine_index ch)"
  by (auto simp: sanitize_channel_binding_def is_valid_channel_index_def Let_def)

lemma sanitize_indices [binding_simps]:
  "channel_indices (sanitize_channel_binding ch) = channel_indices ch"
  by (auto simp: channel_indices_def binding_simps is_valid_channel_index_def split: if_splits)

lemma reserve_zoom_disjoint:
  "channel_indices (zoom (reserve_gobo_wheel_channels_from_zoom b))
     \<inter> (\<Union>w\<in>set (gobo_wheels b). \<Union>ch\<in>set (wheel_channels w). channel_indices ch) = {}"
proof -
  define G where "G = (\<Union>w\<in>set (gobo_wheels b). \<Union>ch\<in>set (wheel_channels w). channel_indices ch)"
  have eq: "fold collect_wheel_indices (gobo_wheels b) {} = G" by (simp add: binding_simps G_def)
  have neg: "-1 \<notin> G" by (auto simp: G_def channel_indices_def is_valid_channel_index_def)
  show ?thesis
    unfolding G_def [symmetric] reserve_gobo_wheel_channels_from_zoom_def eq Let_def
    using neg by (auto simp: channel_indices_def no_channel_def is_valid_channel_index_def)
qed

lemma reserve_zoom_index_sources:
  "coarse_index (zoom (reserve_gobo_wheel_channels_from_zoom b)) \<in> {-1, coarse_index (zoom b)}"
  "fine_index (zoom (reserve_gobo_wheel_channels_from_zoom b)) \<in> {-1, fine_index (zoom b)}"
  "ultra_fine_index (zoom (reserve_gobo_wheel_channels_from_zoom b)) \<in> {-1, ultra_fine_index (zoom b)}"
  by (simp_all add: reserve_gobo_wheel_channels_from_zoom_def Let_def no_channel_def)

lemma sanitized_wheel_channels [binding_simps]:
  "wheel_channels (sanitize_wheel w) = map sanitize_channel_binding (wheel_channels w)"
  by (simp add: wheel_channels_def sanitize_wheel_def)

lemma to_wheel_binding_channels [binding_simps]:
  "wheel_channels (to_wheel_binding p w) = map (to_channel_binding p) (wheel_offsets w)"
  by (simp add: wheel_channels_def to_wheel_binding_def wheel_offsets_def)

lemma concat_map_wheel_channels [binding_simps]:
  "concat (map (wheel_channels \<circ> (sanitize_wheel \<circ> to_wheel_binding p)) ws)
     = map (sanitize_channel_binding \<circ> to_channel_binding p) (concat (map wheel_offsets ws))"
  by (induction ws) (simp_all add: binding_simps)

lemma independent_channels_built:
  "independent_channels (sanitize_binding ((initial_binding uo p ofs)\<lparr>zoom := ch\<rparr>))
     = map (sanitize_channel_binding \<circ> to_channel_binding p) (independent_offsets ofs)"
  by (simp add: independent_channels_def independent_offsets_def sanitize_binding_def
      initial_binding_def concat_map_wheel_channels)

lemma sanitized_index:
  assumes "0 < mvr_address p"
  shows "fine_index (sanitize_channel_binding (to_channel_binding p a)) = patched_index p (fine_offset a)"
    and "ultra_fine_index (sanitize_channel_binding (to_channel_binding p a))
           = patched_index p (ultra_fine_offset a)"
  using assms by (auto simp: binding_simps to_channel_binding_def to_channel_index_0_def patched_index_def)

lemma coarse_in_universe:
  assumes "0 < mvr_address p"
  shows "(if is_valid_channel_index (to_channel_index_0 p k) then to_channel_index_0 p k else -1)
           = patched_index p k"
  using assms by (auto simp: to_channel_index_0_def patched_index_def is_valid_channel_index_def)

lemma channel_index_no_overflow:
  assumes "0 < mvr_address p" and "mvr_address p \<le> 512" and "k \<le> 2147483647 - 510"
  shows "- 2147483648 \<le> to_channel_index_0 p k \<and> to_channel_index_0 p k \<le> 2147483647"
  using assms by (auto simp: to_channel_index_0_def)

lemma binds_to_shape:
  assumes "binds_to resolve uo p b"
  obtains ofs ch where "resolve (patch_gdtf_path p) (patch_dmx_mode p) = Inr ofs"
    and "reserve_gobo_wheel_channels_from_zoom (initial_binding uo p ofs)
           = (initial_binding uo p ofs)\<lparr>zoom := ch\<rparr>"
    and "b = sanitize_binding ((initial_binding uo p ofs)\<lparr>zoom := ch\<rparr>)"
    and "has_usable_channel ((initial_binding uo p ofs)\<lparr>zoom := ch\<rparr>)"
    and "0 < mvr_address p"
proof -
  from assms obtain ofs where ofs: "resolve (patch_gdtf_path p) (patch_dmx_mode p) = Inr ofs"
    and b: "b = sanitize_binding (reserve_gobo_wheel_channels_from_zoom (initial_binding uo p ofs))"
    and u: "has_usable_channel (reserve_gobo_wheel_channels_from_zoom (initial_binding uo p ofs))"
    and a: "0 < mvr_address p"
    by (auto simp: binds_to_def Let_def split: sum.splits intro: that)
  obtain ch where "reserve_gobo_wheel_channels_from_zoom (initial_binding uo p ofs)
      = (initial_binding uo p ofs)\<lparr>zoom := ch\<rparr>" by (rule reserve_cases)
  with ofs b u a that show ?thesis by metis
qed

lemma has_usable_channel_sanitize [binding_simps]:
  "has_usable_channel (sanitize_binding b) = has_usable_channel b"
  by (simp add: has_usable_channel_def sanitize_binding_def binding_simps list_ex_iff sanitize_wheel_def)

lemma bound_zoom_disjoint:
  assumes "binds_to resolve uo p b" and "w \<in> set (gobo_wheels b)" and "ch \<in> set (wheel_channels w)"
  shows "channel_indices (zoom b) \<inter> channel_indices ch = {}"
proof -
  from assms(1) obtain ofs z where "resolve (patch_gdtf_path p) (patch_dmx_mode p) = Inr ofs"
    and r: "reserve_gobo_wheel_channels_from_zoom (initial_binding uo p ofs)
      = (initial_binding uo p ofs)\<lparr>zoom := z\<rparr>"
    and b: "b = sanitize_binding ((initial_binding uo p ofs)\<lparr>zoom := z\<rparr>)"
    by (rule binds_to_shape)
  have wheels: "gobo_wheels b = map sanitize_wheel (gobo_wheels (initial_binding uo p ofs))"
    and zoom: "zoom b = sanitize_channel_binding z"
    by (simp_all add: b sanitize_binding_def)
  from assms(2,3) obtain w0 ch0 where "w0 \<in> set (gobo_wheels (initial_binding uo p ofs))"
    and "ch0 \<in> set (wheel_channels w0)" and "ch = sanitize_channel_binding ch0"
    by (auto simp: wheels binding_simps)
  moreover have "channel_indices z
      \<inter> (\<Union>w\<in>set (gobo_wheels (initial_binding uo p ofs)). \<Union>ch\<in>set (wheel_channels w). channel_indices ch)
      = {}"
    using reserve_zoom_disjoint [of "initial_binding uo p ofs"] unfolding r by simp
  ultimately show ?thesis by (auto simp: zoom binding_simps)
qed

lemma fst_build_bound:
  assumes "b \<in> set (bindings (fst (build_fixture_control_bindings resolve ps uo lk)))"
  obtains p where "p \<in> set ps" and "binds_to resolve uo p b"
  using assms build_from_patches [of resolve ps uo lk] by blast

text \<open>Every channel of every binding is the byte the patch and the offsets name: for
  the seventeen attributes other than zoom and for every gobo wheel, the fine and ultra-fine indices
  are exactly the byte of the universe their offset names, or \<open>-1\<close> when it names none, and so is
  the coarse index whenever it lies inside the universe.  A coarse index past the universe is kept as
  it is.\<close>

theorem binding_channels_exact:
  assumes "b \<in> set (bindings (fst (build_fixture_control_bindings resolve patches universe_offset lookup0)))"
  shows "\<exists>p\<in>set patches. \<exists>ofs. resolve (gdtf_path b) (dmx_mode b) = Inr ofs \<and>
     fixture_uuid b = patch_uuid p \<and> artnet_universe_id b = mvr_universe p + universe_offset \<and>
     map (\<lambda>ch. if is_valid_channel_index (coarse_index ch) then coarse_index ch else -1) (independent_channels b)
       = map (\<lambda>a. patched_index p (coarse_offset a)) (independent_offsets ofs) \<and>
     map fine_index (independent_channels b)
       = map (\<lambda>a. patched_index p (fine_offset a)) (independent_offsets ofs) \<and>
     map ultra_fine_index (independent_channels b)
       = map (\<lambda>a. patched_index p (ultra_fine_offset a)) (independent_offsets ofs)"
proof -
  from assms obtain p where p: "p \<in> set patches" "binds_to resolve universe_offset p b"
    by (rule fst_build_bound)
  from p(2) obtain ofs z where r: "resolve (patch_gdtf_path p) (patch_dmx_mode p) = Inr ofs"
    and b: "b = sanitize_binding ((initial_binding universe_offset p ofs)\<lparr>zoom := z\<rparr>)"
    and a: "0 < mvr_address p"
    by (rule binds_to_shape)
  have chans: "independent_channels b
      = map (sanitize_channel_binding \<circ> to_channel_binding p) (independent_offsets ofs)"
    unfolding b by (rule independent_channels_built)
  have "coarse_index (to_channel_binding p o') = to_channel_index_0 p (coarse_offset o')" for o'
    by (simp add: to_channel_binding_def)
  then have "map (\<lambda>ch. if is_valid_channel_index (coarse_index ch) then coarse_index ch else -1)
      (independent_channels b) = map (\<lambda>a. patched_index p (coarse_offset a)) (independent_offsets ofs)"
    by (simp only: chans map_map o_def sanitize_fields coarse_in_universe [OF a])
  moreover have "gdtf_path b = patch_gdtf_path p" "dmx_mode b = patch_dmx_mode p"
    "fixture_uuid b = patch_uuid p" "artnet_universe_id b = mvr_universe p + universe_offset"
    by (simp_all add: b sanitize_binding_def initial_binding_def)
  ultimately show ?thesis
    using p(1) r by (auto simp: chans sanitized_index [OF a] intro!: bexI [of _ p])
qed

text \<open>A fixture is bound only with a coarse channel inside its universe, and no byte of the
  zoom attribute is also a byte of one of the fixture's gobo wheels.\<close>

theorem zoom_independent_of_gobo_wheels:
  assumes "b \<in> set (bindings (fst (build_fixture_control_bindings resolve patches universe_offset lookup0)))"
  shows "has_usable_channel b \<and>
     (\<forall>w\<in>set (gobo_wheels b). \<forall>ch\<in>set (wheel_channels w).
        channel_indices (zoom b) \<inter> channel_indices ch = {}) \<and>
     fine_index (zoom b) \<in> {-1..511} \<and> ultra_fine_index (zoom b) \<in> {-1..511}"
proof -
  from assms obtain p where p: "binds_to resolve universe_offset p b" by (rule fst_build_bound)
  then obtain ofs z where "resolve (patch_gdtf_path p) (patch_dmx_mode p) = Inr ofs"
    and r: "reserve_gobo_wheel_channels_from_zoom (initial_binding universe_offset p ofs)
      = (initial_binding universe_offset p ofs)\<lparr>zoom := z\<rparr>"
    and b: "b = sanitize_binding ((initial_binding universe_offset p ofs)\<lparr>zoom := z\<rparr>)"
    and u: "has_usable_channel ((initial_binding universe_offset p ofs)\<lparr>zoom := z\<rparr>)"
    and a: "0 < mvr_address p"
    by (rule binds_to_shape)
  have "-1 \<le> to_channel_index_0 p k" for k using a by (simp add: to_channel_index_0_def)
  then have "-1 \<le> fine_index z" "-1 \<le> ultra_fine_index z"
    using reserve_zoom_index_sources [of "initial_binding universe_offset p ofs"] unfolding r
    by (auto simp: initial_binding_def to_channel_binding_def)
  moreover have "zoom b = sanitize_channel_binding z" by (simp add: b sanitize_binding_def)
  ultimately have "fine_index (zoom b) \<in> {-1..511}" "ultra_fine_index (zoom b) \<in> {-1..511}"
    by (auto simp: binding_simps)
  moreover have "has_usable_channel b" using u by (simp add: b binding_simps)
  ultimately show ?thesis using bound_zoom_disjoint [OF p] by blast
qed

text \<open>A dimmer on channel 1 of its fixture, with the fine byte of pan beyond the universe and a gobo
  wheel that shares the fine byte of zoom.\<close>

definition example_patch :: fixture_patch where
  "example_patch = \<lparr>patch_uuid = ''f'', mvr_universe = 2, mvr_address = 510,
     patch_dmx_mode = ''m'', patch_gdtf_path = ''g''\<rparr>"

definition absent_offset :: attribute_offset where
  "absent_offset = \<lparr>coarse_offset = -1, fine_offset = -1, ultra_fine_offset = -1\<rparr>"

definition example_wheel :: "int gobo_wheel_offset" where
  "example_wheel = \<lparr>wheel_offset = absent_offset\<lparr>coarse_offset := 3\<rparr>, wheel_index_offset = absent_offset,
     wheel_rotation_offset = absent_offset, rotation_channel_priority = -1,
     wheel_offset_details = \<lparr>supports_index = False, supports_rotation = False,
       supports_spin_rotation = False, supports_shake = False, has_index_physical_limits = False,
       index_physical_min = 0, index_physical_max = 0, rotation_ranges = [], shake_ranges = [],
       wheel_number = 1, wheel_name = ''w'', wheel_slots = [], wheel_ranges = []\<rparr>\<rparr>"

definition example_offsets :: "(int, unit) control_offsets" where
  "example_offsets = \<lparr>asset_cache_lease = None, offset_warnings = [],
     dimmer_offset = absent_offset\<lparr>coarse_offset := 1\<rparr>,
     pan_offset = absent_offset\<lparr>coarse_offset := 3, fine_offset := 4\<rparr>,
     tilt_offset = absent_offset, zoom_offset = absent_offset\<lparr>coarse_offset := 2, fine_offset := 3\<rparr>,
     cyan_offset = absent_offset, magenta_offset = absent_offset, yellow_offset = absent_offset,
     strobe_offset = absent_offset, prism_offset = absent_offset, prism_index_offset = absent_offset,
     prism_rotation_offset = absent_offset, color_wheel_offset = absent_offset,
     color_wheel_rotation_offset = absent_offset, animation_wheel_offset = absent_offset,
     animation_wheel_rotation_offset = absent_offset, gobo_offset = absent_offset,
     gobo_index_offset = absent_offset, gobo_rotation_offset = absent_offset,
     offset_gobo_wheel_number = 0, offset_gobo_wheel_name = [], offset_gobo_slots = [],
     offset_gobo_ranges = [], offset_gobo_wheels = [example_wheel],
     offset_has_zoom_physical_limits = False, offset_zoom_physical_min_degrees = -1,
     offset_zoom_physical_max_degrees = -1\<rparr>"

definition example_build :: "(int, unit) build_result" where
  "example_build = fst (build_fixture_control_bindings (\<lambda>_ _. Inr example_offsets) [example_patch] 0 Map.empty)"

lemmas example_defs = example_patch_def absent_offset_def example_wheel_def example_offsets_def

lemma example_build_binding:
  "bindings example_build = [sanitize_binding ((initial_binding 0 example_patch example_offsets)
     \<lparr>zoom := \<lparr>coarse_index = 510, fine_index = -1, ultra_fine_index = -1\<rparr>\<rparr>)]"
proof -
  have raw: "reserve_gobo_wheel_channels_from_zoom (initial_binding 0 example_patch example_offsets)
      = (initial_binding 0 example_patch example_offsets)
          \<lparr>zoom := \<lparr>coarse_index = 510, fine_index = -1, ultra_fine_index = -1\<rparr>\<rparr>"
    by (simp add: reserve_gobo_wheel_channels_from_zoom_def initial_binding_def example_defs
        to_channel_binding_def to_channel_index_0_def to_wheel_binding_def collect_wheel_indices_def
        collect_channel_indices_def is_valid_channel_index_def)
  have "has_usable_channel (reserve_gobo_wheel_channels_from_zoom
      (initial_binding 0 example_patch example_offsets))"
    unfolding raw by (simp add: has_usable_channel_def initial_binding_def example_defs
        to_channel_binding_def to_channel_index_0_def is_valid_channel_index_def)
  moreover have "patch_uuid example_patch \<noteq> []" "mvr_universe example_patch = 2"
    "mvr_address example_patch = 510" "patch_dmx_mode example_patch \<noteq> []"
    "patch_gdtf_path example_patch \<noteq> []" "offset_warnings example_offsets = []"
    "asset_cache_lease example_offsets = None"
    by (simp_all add: example_defs)
  ultimately show ?thesis
    unfolding example_build_def build_fixture_control_bindings_def bind_patch_def empty_result_def
    by (simp add: raw [symmetric] Let_def)
qed

lemma example_binding_in:
  "hd (bindings example_build) \<in> set (bindings (fst (build_fixture_control_bindings
     (\<lambda>_ _. Inr example_offsets) [example_patch] 0 Map.empty)))"
  using example_build_binding by (simp add: example_build_def)

theorem binding_channels_exact_witness:
  "map fine_index (independent_channels (hd (bindings example_build)))
     = map (\<lambda>a. patched_index example_patch (fine_offset a)) (independent_offsets example_offsets)"
  using binding_channels_exact [OF example_binding_in] by auto

theorem zoom_independent_of_gobo_wheels_witness:
  "has_usable_channel (hd (bindings example_build))"
  using zoom_independent_of_gobo_wheels [OF example_binding_in] by blast

text \<open>A fixture whose only channels are the index or rotation of a gobo is reported as out of range,
  although its offsets count as usable (\<open>has_any\<close>) and lie inside the universe.\<close>

lemma gobo_index_alone_is_unbound:
  "has_any (example_offsets\<lparr>dimmer_offset := absent_offset, pan_offset := absent_offset,
      zoom_offset := absent_offset, gobo_index_offset := absent_offset\<lparr>coarse_offset := 1\<rparr>,
      offset_gobo_wheels := []\<rparr>)"
  "bindings (fst (build_fixture_control_bindings (\<lambda>_ _. Inr (example_offsets\<lparr>dimmer_offset := absent_offset,
      pan_offset := absent_offset, zoom_offset := absent_offset,
      gobo_index_offset := absent_offset\<lparr>coarse_offset := 1\<rparr>, offset_gobo_wheels := []\<rparr>))
      [example_patch] 0 Map.empty)) = []"
  by (simp_all add: has_any_def example_defs build_fixture_control_bindings_def bind_patch_def
      reserve_gobo_wheel_channels_from_zoom_def initial_binding_def to_channel_binding_def
      to_channel_index_0_def has_usable_channel_def is_valid_channel_index_def empty_result_def
      push_unbound_def)

end
