(* ===== verification/Attribute_Classifier.thy ===== *)
theory Attribute_Classifier
  imports Text_Numbers
begin

text \<open>
  Classification of GDTF attribute names and parsing of channel offsets
  (\<open>dmx/gdtf_attribute_classifier.{h,cpp}\<close>): the role of an attribute, the byte of a multi-byte
  channel its name marks, the gobo wheel it belongs to, and the list of one-based channel offsets.
  \<open>static_cast<int>\<close> of a \<open>long\<close> is \<open>to_int\<close>: it keeps the low 32 bits.
\<close>

datatype attribute_role =
    Unknown_role | Dimmer | Pan | Tilt | Zoom | Cyan | Magenta | Yellow | Strobe | Prism | PrismIndex
  | PrismRotation | ColorWheel | ColorWheelRotation | AnimationWheel | AnimationWheelRotation
  | Gobo | GoboIndex | GoboRotation

record parsed_attribute =
  attr_role :: attribute_role
  is_fine :: bool
  byte_index :: int
  gobo_wheel_number :: int

definition blank_attribute :: parsed_attribute where
  "blank_attribute = \<lparr>attr_role = Unknown_role, is_fine = False, byte_index = 1, gobo_wheel_number = 0\<rparr>"

definition to_int :: "int \<Rightarrow> int" where
  "to_int v = sint (word_of_int v :: i32)"

subsection \<open>Names\<close>

definition parse_gobo_wheel_number :: "string \<Rightarrow> int" where
  "parse_gobo_wheel_number leaf =
     (if \<not> starts_with ''gobo'' leaf \<or> length leaf \<le> 4 then 0
      else
        let digits = takeWhile isdigit_c (drop 4 leaf)
        in if digits = [] then 0
           else
             let parsed = fst (strtol digits)
             in if parsed \<le> 0 then 0 else to_int parsed)"

definition has_explicit_fine_marker :: "string \<Rightarrow> bool" where
  "has_explicit_fine_marker lower \<longleftrightarrow> str_contains ''fine'' lower \<or> str_contains ''lsb'' lower"

definition is_separator :: "char \<Rightarrow> bool" where
  "is_separator c \<longleftrightarrow> c = CHR ''.'' \<or> c = CHR ''_'' \<or> c = CHR ''-'' \<or> c = CHR '' ''"

definition parse_compact_byte_index :: "string \<Rightarrow> string \<Rightarrow> int" where
  "parse_compact_byte_index lower role_token =
     (if \<not> starts_with role_token lower then -1
      else
        let rest = trim_both (drop (length role_token) lower)
        in if rest = [] then 1
           else
             let rest = (if is_separator (hd rest) then trim_both (tl rest) else rest)
             in if rest = [] then 1
                else
                  let digits = takeWhile isdigit_c rest
                  in if digits = [] then -1
                     else if trim_both (drop (length digits) rest) \<noteq> [] then -1
                     else
                       let parsed = fst (strtol digits)
                       in if parsed \<le> 0 then -1 else to_int parsed)"

definition last_attribute_segment :: "string \<Rightarrow> string" where
  "last_attribute_segment attribute =
     (if CHR ''.'' \<notin> set attribute then attribute
      else trim_both (rev (takeWhile (\<lambda>c. c \<noteq> CHR ''.'') (rev attribute))))"

text \<open>The loop that removes separators and the space after them.\<close>

lemma length_trim_both: "length (trim_both s) \<le> length s"
proof -
  have "length (trim_right (trim_left s)) \<le> length (trim_left s)"
    using length_dropWhile_le [of isspace_c "rev (trim_left s)"] by (simp add: trim_right_def)
  also have "\<dots> \<le> length s" by (simp add: trim_left_def length_dropWhile_le)
  finally show ?thesis by (simp add: trim_both_def)
qed

function skip_separators :: "string \<Rightarrow> string" where
  "skip_separators rest =
     (if rest \<noteq> [] \<and> is_separator (hd rest) then skip_separators (trim_both (tl rest)) else rest)"
  by pat_completeness auto
termination
proof (relation "measure length")
  fix rest :: string
  assume "rest \<noteq> [] \<and> is_separator (hd rest)"
  then show "(trim_both (tl rest), rest) \<in> measure length"
    using length_trim_both [of "tl rest"] by (cases rest) auto
qed simp

declare skip_separators.simps [simp del]

text \<open>\<^term>\<open>None\<close> when the attribute does not start with the role, otherwise the byte index.\<close>

definition starts_with_role_token :: "string \<Rightarrow> string \<Rightarrow> int option" where
  "starts_with_role_token attribute role_token =
     (if \<not> starts_with role_token attribute then None
      else
        let rest = skip_separators (trim_both (drop (length role_token) attribute))
        in if rest = [] then Some 1
           else if starts_with ''fine'' rest \<or> starts_with ''lsb'' rest \<or> starts_with ''coarse'' rest
                \<or> starts_with ''msb'' rest then Some 1
           else
             let compact_byte_index = parse_compact_byte_index attribute role_token
             in if compact_byte_index > 0 then Some compact_byte_index else None)"

definition token_contains_any :: "string \<Rightarrow> string list \<Rightarrow> bool" where
  "token_contains_any leaf tokens \<longleftrightarrow> list_ex (\<lambda>token. str_contains token leaf) tokens"

definition matches_gobo_select_with_embedded_motion :: "string \<Rightarrow> bool" where
  "matches_gobo_select_with_embedded_motion leaf \<longleftrightarrow>
     str_contains ''selectspin'' leaf \<or> str_contains ''selectshake'' leaf \<or>
     str_contains ''selecteffects'' leaf"

definition non_projector_tokens :: "string list" where
  "non_projector_tokens =
     [''spin'', ''shake'', ''audio'', ''random'', ''time'', ''mspeed'', ''speed'', ''reset'', ''rotate'']"

definition matches_gobo_attribute :: "string \<Rightarrow> bool" where
  "matches_gobo_attribute leaf =
     (if matches_gobo_select_with_embedded_motion leaf then True
      else if list_ex (\<lambda>token. str_contains token leaf) non_projector_tokens then False
      else if starts_with_role_token leaf ''gobo'' \<noteq> None then True
      else if starts_with_role_token leaf ''gobowheel'' \<noteq> None
           \<or> starts_with_role_token leaf ''goboindex'' \<noteq> None
           \<or> starts_with_role_token leaf ''goboselect'' \<noteq> None then True
      else str_contains ''wheel'' leaf
           \<and> (str_contains ''slot'' leaf \<or> str_contains ''index'' leaf
              \<or> str_contains ''select'' leaf \<or> str_contains ''pos'' leaf))"

definition matches_gobo_index_attribute :: "string \<Rightarrow> bool" where
  "matches_gobo_index_attribute leaf =
     (if \<not> str_contains ''gobo'' leaf then False
      else if str_contains ''rotate'' leaf \<or> str_contains ''spin'' leaf then False
      else str_contains ''pos'' leaf \<or> str_contains ''index'' leaf)"

definition matches_gobo_rotation_attribute :: "string \<Rightarrow> bool" where
  "matches_gobo_rotation_attribute leaf =
     (if \<not> str_contains ''gobo'' leaf then False
      else if matches_gobo_select_with_embedded_motion leaf then False
      else str_contains ''posrotate'' leaf \<or> str_contains ''posrot'' leaf \<or>
           str_contains ''wheelspin'' leaf \<or> str_contains ''wheelrotation'' leaf \<or>
           str_contains ''rotation'' leaf \<or> str_contains ''shake'' leaf \<or>
           str_contains ''shaking'' leaf \<or> str_contains ''spin'' leaf \<or>
           str_contains ''rotate'' leaf)"

subsection \<open>Roles\<close>

type_synonym name_descriptor = "attribute_role \<times> string list"

fun match_tokens :: "string \<Rightarrow> string list \<Rightarrow> int option" where
  "match_tokens leaf [] = None"
| "match_tokens leaf (token # tokens) =
     (case starts_with_role_token leaf token of
        Some candidate_byte_index \<Rightarrow> Some candidate_byte_index
      | None \<Rightarrow> match_tokens leaf tokens)"

definition match_descriptor_tokens :: "string \<Rightarrow> name_descriptor \<Rightarrow> int option" where
  "match_descriptor_tokens leaf descriptor = match_tokens leaf (snd descriptor)"

definition attribute_name_descriptors :: "name_descriptor list" where
  "attribute_name_descriptors =
     [(Dimmer, [''dimmer'', ''intensity'']),
      (Pan, [''pan'']),
      (Tilt, [''tilt'']),
      (Zoom, [''zoom'', ''digitalzoom'']),
      (Cyan, [''cyan'', ''coloradd_c'', ''coloradd_cyan'', ''coloradd_coarse'', ''colorsub_c'',
              ''colorsub_cyan'', ''colorsub_coarse'', ''colorrgb_c'', ''colorrgb_cyan'']),
      (Magenta, [''magenta'', ''coloradd_m'', ''coloradd_magenta'', ''colorsub_m'',
                 ''colorsub_magenta'', ''colorrgb_m'', ''colorrgb_magenta'']),
      (Yellow, [''yellow'', ''coloradd_y'', ''coloradd_yellow'', ''colorsub_y'',
                ''colorsub_yellow'', ''colorrgb_y'', ''colorrgb_yellow''])]"

fun parse_standard_with :: "name_descriptor list \<Rightarrow> string \<Rightarrow> parsed_attribute \<Rightarrow> parsed_attribute option" where
  "parse_standard_with [] leaf parsed = None"
| "parse_standard_with (d # ds) leaf parsed =
     (case match_descriptor_tokens leaf d of
        None \<Rightarrow> parse_standard_with ds leaf parsed
      | Some i \<Rightarrow> Some (parsed\<lparr>attr_role := fst d, byte_index := i\<rparr>))"

definition parse_standard_attribute :: "string \<Rightarrow> parsed_attribute \<Rightarrow> parsed_attribute option" where
  "parse_standard_attribute leaf parsed = parse_standard_with attribute_name_descriptors leaf parsed"

definition parse_wheel_and_prism_attributes :: "string \<Rightarrow> parsed_attribute \<Rightarrow> parsed_attribute" where
  "parse_wheel_and_prism_attributes leaf parsed =
     (if token_contains_any leaf [''prism''] then
        if token_contains_any leaf [''rotation'', ''rotate'', ''spin'']
        then parsed\<lparr>attr_role := PrismRotation, byte_index := 1\<rparr>
        else if token_contains_any leaf [''index'', ''pos'']
        then parsed\<lparr>attr_role := PrismIndex, byte_index := 1\<rparr>
        else parsed\<lparr>attr_role := Prism, byte_index := 1\<rparr>
      else if token_contains_any leaf [''animationwheel'', ''animwheel'', ''animationdisc'', ''animdisc''] then
        if token_contains_any leaf [''rotation'', ''rotate'', ''spin'']
        then parsed\<lparr>attr_role := AnimationWheelRotation, byte_index := 1\<rparr>
        else parsed\<lparr>attr_role := AnimationWheel, byte_index := 1\<rparr>
      else if token_contains_any leaf [''colorwheel'', ''colourwheel'', ''colwheel'', ''colorselect''] then
        if token_contains_any leaf [''rotation'', ''rotate'', ''spin'']
        then parsed\<lparr>attr_role := ColorWheelRotation, byte_index := 1\<rparr>
        else parsed\<lparr>attr_role := ColorWheel, byte_index := 1\<rparr>
      else if token_contains_any leaf [''strobe'', ''shutter'', ''strobe_shutter'']
      then parsed\<lparr>attr_role := Strobe, byte_index := 1\<rparr>
      else parsed)"

definition parse_gobo_attribute :: "string \<Rightarrow> parsed_attribute \<Rightarrow> parsed_attribute" where
  "parse_gobo_attribute leaf parsed =
     (let found = (\<lambda>role. parsed\<lparr>attr_role := role, byte_index := 1,
                              gobo_wheel_number := parse_gobo_wheel_number leaf\<rparr>)
      in if matches_gobo_rotation_attribute leaf then found GoboRotation
         else if matches_gobo_index_attribute leaf then found GoboIndex
         else if matches_gobo_attribute leaf then found Gobo
         else parsed)"

definition parse_attribute_name :: "string \<Rightarrow> parsed_attribute" where
  "parse_attribute_name raw_attribute =
     (let parsed = blank_attribute;
          lower = lower_string (trim_both raw_attribute)
      in if lower = [] then parsed
         else
           let leaf = last_attribute_segment lower;
               parsed = (case parse_standard_attribute leaf parsed of
                           Some p \<Rightarrow> p
                         | None \<Rightarrow> parse_wheel_and_prism_attributes leaf parsed);
               parsed = (if attr_role parsed = Unknown_role then parse_gobo_attribute leaf parsed else parsed)
           in if attr_role parsed = Unknown_role then parsed
              else if has_explicit_fine_marker lower \<or> byte_index parsed \<ge> 2
              then parsed\<lparr>is_fine := True\<rparr>
              else parsed)"

subsection \<open>Offsets\<close>

definition comma_for_semicolon :: "char \<Rightarrow> char" where
  "comma_for_semicolon c = (if c = CHR '';'' then CHR '','' else c)"

definition parse_offset_piece :: "string \<Rightarrow> int option" where
  "parse_offset_piece piece =
     (let piece = trim_both piece
      in if piece = [] then None
         else
           let (parsed, rest) = strtol (c_str piece)
           in if rest = c_str piece \<or> parsed \<le> 0 then None else Some (to_int parsed))"

text \<open>\<^term>\<open>None\<close> is the null pointer.\<close>

definition parse_offsets :: "string option \<Rightarrow> int list" where
  "parse_offsets raw_offset =
     (case raw_offset of
        None \<Rightarrow> []
      | Some text \<Rightarrow>
          List.map_filter parse_offset_piece
            (getline_split (CHR '','') (map comma_for_semicolon (trim_both (c_str text)))))"

subsection \<open>Parsing offsets\<close>

lemma to_int_id: "- INT_MAX - 1 \<le> v \<Longrightarrow> v \<le> INT_MAX \<Longrightarrow> to_int v = v"
  by (simp add: to_int_def INT_MAX_def signed_of_int signed_take_bit_int_eq_self)

lemma parse_offset_piece_padded:
  assumes "\<forall>c\<in>set a. isspace_c c" and "\<forall>c\<in>set b. isspace_c c" and "0 < n" and "int n \<le> INT_MAX"
  shows "parse_offset_piece (a @ dec_string n @ b) = Some (int n)"
proof -
  have trim: "trim_both (a @ dec_string n @ b) = dec_string n"
    by (rule trim_both_padded [OF assms(1,2)]) (simp_all add: dec_string_not_space)
  have "int n \<le> LONG_MAX" using assms(4) by (simp add: INT_MAX_def LONG_MAX_def)
  then show ?thesis
    using assms(3,4)
    by (simp add: parse_offset_piece_def Let_def trim c_str_digits dec_string_digits strtol_dec_string
        to_int_id INT_MAX_def)
qed

text \<open>An offset list as GDTF files write it: decimal numbers with a comma or a semicolon between
  them and space anywhere around the separators.\<close>

fun offset_tail :: "(string \<times> char \<times> string \<times> nat) list \<Rightarrow> string" where
  "offset_tail [] = []"
| "offset_tail ((a, s, b, n) # xs) = a @ s # b @ dec_string n @ offset_tail xs"

definition offset_item_ok :: "string \<times> char \<times> string \<times> nat \<Rightarrow> bool" where
  "offset_item_ok item \<longleftrightarrow>
     (case item of (a, s, b, n) \<Rightarrow>
        list_all isspace_c a \<and> s \<in> {CHR '','', CHR '';''} \<and> list_all isspace_c b \<and> 0 < n \<and> int n \<le> INT_MAX)"

lemma space_plain: "isspace_c c \<Longrightarrow> c \<noteq> CHR '','' \<and> comma_for_semicolon c = c \<and> code_of c \<noteq> 0"
  by (auto simp: isspace_c_def comma_for_semicolon_def code_of_def)

lemma digit_plain: "isdigit_c c \<Longrightarrow> c \<noteq> CHR '','' \<and> comma_for_semicolon c = c \<and> code_of c \<noteq> 0"
  by (auto simp: isdigit_c_def comma_for_semicolon_def code_of_def)

lemma plain_text:
  assumes "\<forall>c\<in>set s. isspace_c c \<or> isdigit_c c"
  shows "map comma_for_semicolon s = s" and "CHR '','' \<notin> set s"
  using assms space_plain digit_plain by (auto intro!: map_idI)

lemma getline_split_piece:
  assumes "d \<notin> set p"
  shows "getline_split d (p @ d # r) = p # getline_split d r"
proof -
  have "takeWhile (\<lambda>c. c \<noteq> d) (p @ d # r) = p" "dropWhile (\<lambda>c. c \<noteq> d) (p @ d # r) = d # r"
    using assms by (auto simp: takeWhile_append dropWhile_append dropWhile_eq_Nil_conv)
  then show ?thesis by (subst getline_split.simps) simp
qed

lemma getline_split_Nil [simp]: "getline_split d [] = []"
  by (subst getline_split.simps) simp

lemma getline_split_last:
  assumes "d \<notin> set p" and "p \<noteq> []" shows "getline_split d p = [p]"
proof -
  have "takeWhile (\<lambda>c. c \<noteq> d) p = p" "dropWhile (\<lambda>c. c \<noteq> d) p = []"
    using assms(1) by (auto simp: takeWhile_eq_all_conv dropWhile_eq_Nil_conv)
  with assms(2) show ?thesis
    by (subst getline_split.simps) (simp del: dropWhile_eq_Nil_conv takeWhile_eq_all_conv)
qed

lemma offset_pieces:
  assumes "\<forall>c\<in>set b. isspace_c c" and "0 < n" and "int n \<le> INT_MAX" and "list_all offset_item_ok xs"
  shows "List.map_filter parse_offset_piece
           (getline_split (CHR '','') (map comma_for_semicolon (b @ dec_string n @ offset_tail xs)))
         = map int (n # map (\<lambda>(a, s, b, n). n) xs)"
  using assms
proof (induction xs arbitrary: b n)
  case Nil
  have plain: "\<forall>c\<in>set (b @ dec_string n). isspace_c c \<or> isdigit_c c"
    using Nil dec_string_digits by auto
  have "parse_offset_piece (b @ dec_string n) = Some (int n)"
    using parse_offset_piece_padded [OF Nil(1), of "[]" n] Nil by simp
  then show ?case
    using plain_text [OF plain] by (simp add: getline_split_last List.map_filter_simps)
next
  case (Cons x xs)
  obtain a s b' n' where x: "x = (a, s, b', n')" by (cases x)
  have ok: "\<forall>c\<in>set a. isspace_c c" "s \<in> {CHR '','', CHR '';''}" "\<forall>c\<in>set b'. isspace_c c" "0 < n'"
      "int n' \<le> INT_MAX" and rest: "list_all offset_item_ok xs"
    using Cons.prems(4) by (simp_all add: x offset_item_ok_def list_all_iff)
  have plain: "\<forall>c\<in>set (b @ dec_string n @ a). isspace_c c \<or> isdigit_c c"
    using Cons.prems ok dec_string_digits by auto
  have s: "comma_for_semicolon s = CHR '',''" using ok(2) by (auto simp: comma_for_semicolon_def)
  have "map comma_for_semicolon (b @ dec_string n @ offset_tail (x # xs))
      = (b @ dec_string n @ a) @ CHR '','' # map comma_for_semicolon (b' @ dec_string n' @ offset_tail xs)"
    using plain_text(1) [OF plain] s by (simp add: x)
  moreover have "parse_offset_piece (b @ dec_string n @ a) = Some (int n)"
    by (rule parse_offset_piece_padded [OF Cons.prems(1) ok(1) Cons.prems(2,3)])
  ultimately show ?case
    using Cons.IH [OF ok(3-5) rest] getline_split_piece [OF plain_text(2) [OF plain]]
    by (simp only: List.map_filter_simps option.case) (simp add: x)
qed

lemma offset_tail_last:
  "s \<noteq> [] \<Longrightarrow> \<not> isspace_c (last s) \<Longrightarrow> \<not> isspace_c (last (s @ offset_tail xs))"
proof (induction xs arbitrary: s)
  case (Cons x xs)
  obtain a c b n where x: "x = (a, c, b, n)" by (cases x)
  have "\<not> isspace_c (last ((s @ a @ c # b @ dec_string n) @ offset_tail xs))"
    by (rule Cons.IH) (simp_all add: dec_string_not_space)
  then show ?case by (simp add: x)
qed simp

lemma offset_tail_c_str:
  assumes "list_all offset_item_ok xs"
  shows "\<forall>c\<in>set (offset_tail xs). code_of c \<noteq> 0"
  using assms
proof (induction xs)
  case (Cons x xs)
  obtain a s b n where x: "x = (a, s, b, n)" by (cases x)
  have "code_of s \<noteq> 0" using Cons.prems by (auto simp: x offset_item_ok_def code_of_def)
  then show ?case
    using Cons dec_string_digits [of n] space_plain digit_plain
    by (auto simp: x offset_item_ok_def list_all_iff)
qed simp

text \<open>A list of positive offsets, written in decimal with commas or semicolons between them
  and any white space around the numbers, is parsed back to the same list in the same order.\<close>

theorem parse_offsets_roundtrip:
  assumes "list_all isspace_c before" and "list_all isspace_c after"
    and "0 < n" and "int n \<le> INT_MAX" and "list_all offset_item_ok items"
  shows "parse_offsets (Some (before @ (dec_string n @ offset_tail items) @ after))
           = map int (n # map (\<lambda>(a, s, b, n). n) items)"
proof -
  have sp: "\<forall>c\<in>set before. isspace_c c" "\<forall>c\<in>set after. isspace_c c"
    using assms by (simp_all add: list_all_iff)
  have "\<forall>c\<in>set (before @ (dec_string n @ offset_tail items) @ after). code_of c \<noteq> 0"
    using sp dec_string_digits [of n] space_plain digit_plain offset_tail_c_str [OF assms(5)] by auto
  then have "c_str (before @ (dec_string n @ offset_tail items) @ after)
      = before @ (dec_string n @ offset_tail items) @ after"
    by (simp add: c_str_def takeWhile_eq_all_conv [THEN iffD2])
  moreover have "trim_both (before @ (dec_string n @ offset_tail items) @ after)
      = dec_string n @ offset_tail items"
    by (rule trim_both_padded [OF sp]) (simp_all add: dec_string_not_space offset_tail_last)
  ultimately show ?thesis
    using offset_pieces [of "[]" n items] assms by (simp add: parse_offsets_def)
qed

theorem parse_offsets_roundtrip_witness:
  "parse_offsets (Some ('' '' @ (dec_string 3 @ offset_tail [('' '', CHR '';'', [], 12)]) @ [])) = [3, 12]"
  using parse_offsets_roundtrip [of "'' ''" "[]" 3 "[('' '', CHR '';'', [], 12)]"]
  by (simp add: offset_item_ok_def INT_MAX_def isspace_c_def code_of_def)

text \<open>The sign is checked before the number is narrowed to 32 bits: too large an offset comes out
  negative.\<close>

lemma parse_offsets_narrowing: "parse_offsets (Some ''2147483648'') = [-2147483648]"
proof -
  have t: "trim_both ''2147483648'' = ''2147483648''"
    by (rule trim_both_fixed) (simp_all add: isspace_c_def code_of_def)
  have "takeWhile (\<lambda>c. c \<noteq> CHR '','') ''2147483648'' = ''2147483648''" by simp
  moreover have "c_str ''2147483648'' = ''2147483648''" by (simp add: c_str_def code_of_def)
  moreover have "strtol ''2147483648'' = (2147483648, [])"
    by (simp add: strtol_def trim_left_def isspace_c_def isdigit_c_def code_of_def sign_and_rest_def
        decimal_def digit_value_def LONG_MAX_def)
  moreover have "to_int 2147483648 = -2147483648" by (simp add: to_int_def)
  ultimately show ?thesis
    by (simp add: parse_offsets_def t comma_for_semicolon_def getline_split.simps
        parse_offset_piece_def List.map_filter_simps)
qed

subsection \<open>Classifying names\<close>

lemma starts_with_role_other:
  "\<not> starts_with token s \<Longrightarrow> starts_with_role_token s token = None"
  by (simp add: starts_with_role_token_def)

text \<open>A name that goes on with other letters after the token does not have the role.\<close>

lemma starts_with_role_longer:
  assumes "\<not> isspace_c c" and "\<not> isdigit_c c" and "\<not> is_separator c"
    and "\<not> starts_with ''fine'' (c # r)" and "\<not> starts_with ''lsb'' (c # r)"
    and "\<not> starts_with ''coarse'' (c # r)" and "\<not> starts_with ''msb'' (c # r)"
    and "\<not> isspace_c (last (c # r))"
  shows "starts_with_role_token (token @ c # r) token = None"
proof -
  have trim: "trim_both (c # r) = c # r" by (rule trim_both_fixed) (use assms in auto)
  have "parse_compact_byte_index (token @ c # r) token = -1"
    using assms(2,3) by (simp add: parse_compact_byte_index_def trim Let_def)
  moreover have "skip_separators (c # r) = c # r"
    using assms(3) by (subst skip_separators.simps) simp
  ultimately show ?thesis using assms(4-7) by (simp add: starts_with_role_token_def trim Let_def)
qed

lemma plain_separators: "\<not> isspace_c (CHR ''_'')" "\<not> isspace_c (CHR ''-'')"
  by (simp_all add: isspace_c_def code_of_def)

text \<open>A role token followed by a byte number, with at most one separator between them.\<close>

lemma numbered_rest:
  assumes "sep \<in> {[], ''_'', ''-''}" and "0 < n" and "int n \<le> INT_MAX"
  shows "starts_with_role_token (token @ sep @ dec_string n) token = Some (int n)"
proof -
  have trim: "trim_both (dec_string n) = dec_string n"
    by (rule trim_both_fixed) (simp_all add: dec_string_not_space)
  have trim_sep: "trim_both (sep @ dec_string n) = sep @ dec_string n"
    by (rule trim_both_fixed) (use assms(1) in \<open>auto simp: dec_string_not_space plain_separators\<close>)
  have hd_digit: "isdigit_c (hd (dec_string n))" using dec_string_digits [of n] hd_in_set [of "dec_string n"] by simp
  then have no_sep: "\<not> is_separator (hd (dec_string n))"
    by (auto simp: is_separator_def isdigit_c_def code_of_def)
  have take: "takeWhile isdigit_c (dec_string n) = dec_string n"
    using dec_string_digits by (simp add: takeWhile_eq_all_conv)
  have "int n \<le> LONG_MAX" using assms(3) by (simp add: INT_MAX_def LONG_MAX_def)
  then have tail: "fst (strtol (dec_string n)) = int n" "to_int (int n) = int n"
    using assms(3) by (simp_all add: strtol_dec_string to_int_id INT_MAX_def)
  have compact: "parse_compact_byte_index (token @ sep @ dec_string n) token = int n"
  proof (cases "sep = []")
    case True
    then show ?thesis
      using no_sep tail assms(2) by (simp add: parse_compact_byte_index_def Let_def trim take)
  next
    case False
    then obtain c where "sep = [c]" "is_separator c"
      using assms(1) by (auto simp: is_separator_def)
    then show ?thesis
      using trim_sep tail assms(2) by (simp add: parse_compact_byte_index_def Let_def trim take)
  qed
  have skip: "skip_separators (sep @ dec_string n) = dec_string n"
  proof (cases "sep = []")
    case True
    then show ?thesis using no_sep by (subst skip_separators.simps) simp
  next
    case False
    then obtain c where c: "sep = [c]" "is_separator c"
      using assms(1) by (auto simp: is_separator_def)
    have "skip_separators (dec_string n) = dec_string n"
      using no_sep by (subst skip_separators.simps) simp
    then show ?thesis using c by (subst skip_separators.simps) (simp add: trim)
  qed
  have "\<not> starts_with (d # ds) (dec_string n)" if "\<not> isdigit_c d" for d ds
    using that hd_digit by (cases "dec_string n") (auto simp: starts_with_def)
  then have words: "\<not> starts_with ''fine'' (dec_string n)" "\<not> starts_with ''lsb'' (dec_string n)"
      "\<not> starts_with ''coarse'' (dec_string n)" "\<not> starts_with ''msb'' (dec_string n)"
    by (simp_all add: isdigit_c_def code_of_def)
  show ?thesis
    using assms(2) by (simp add: starts_with_role_token_def Let_def trim_sep skip words compact)
qed

text \<open>The descriptors as one list of tokens, in the order they are tried.\<close>

definition role_tokens :: "(attribute_role \<times> string) list" where
  "role_tokens = concat (map (\<lambda>(r, ts). map (Pair r) ts) attribute_name_descriptors)"

text \<open>Why an earlier token does not match a name that starts with a later one: they differ, or the
  name goes on with a letter that starts no marker.\<close>

definition token_blocked :: "string \<Rightarrow> string \<Rightarrow> bool" where
  "token_blocked earlier later \<longleftrightarrow>
     list_ex (\<lambda>(c, d). c \<noteq> d) (zip earlier later) \<or>
     (length earlier < length later \<and> take (length earlier) later = earlier \<and>
      (let c = later ! length earlier
       in code_of c > 96 \<and> c \<noteq> CHR ''f'' \<and> c \<noteq> CHR ''l'' \<and> c \<noteq> CHR ''c'' \<and> c \<noteq> CHR ''m''))"

fun tokens_separated :: "(attribute_role \<times> string) list \<Rightarrow> bool" where
  "tokens_separated [] = True"
| "tokens_separated (p # ps) = (list_all (\<lambda>q. token_blocked (snd p) (snd q)) ps \<and> tokens_separated ps)"

definition token_plain :: "string \<Rightarrow> bool" where
  "token_plain tok \<longleftrightarrow> CHR ''.'' \<notin> set tok \<and> \<not> str_contains ''fine'' tok \<and> \<not> str_contains ''lsb'' tok"

lemma role_tokens_separated: "tokens_separated role_tokens" by code_simp

lemma role_tokens_plain: "list_all (\<lambda>q. token_plain (snd q)) role_tokens" by code_simp

lemma zip_differ_not_prefix: "list_ex (\<lambda>(c, d). c \<noteq> d) (zip u t) \<Longrightarrow> \<not> starts_with u (t @ x)"
proof (induction u arbitrary: t)
  case (Cons a u)
  then show ?case by (cases t) (auto simp: starts_with_def)
qed simp

lemma blocked_no_role:
  assumes "token_blocked u t" and "s \<noteq> []" and "\<not> isspace_c (last s)"
  shows "starts_with_role_token (t @ s) u = None"
proof (cases "list_ex (\<lambda>(c, d). c \<noteq> d) (zip u t)")
  case True
  then show ?thesis by (simp add: starts_with_role_other zip_differ_not_prefix)
next
  case False
  define c where "c = t ! length u"
  have u: "length u < length t" "take (length u) t = u" and c: "code_of c > 96" "c \<noteq> CHR ''f''"
      "c \<noteq> CHR ''l''" "c \<noteq> CHR ''c''" "c \<noteq> CHR ''m''"
    using assms(1) False by (simp_all add: token_blocked_def Let_def c_def)
  have t: "t @ s = u @ c # (drop (Suc (length u)) t @ s)"
    using id_take_nth_drop [OF u(1)] u(2) c_def by (metis append.assoc append_Cons)
  have "\<not> is_separator c" using c(1) by (auto simp: is_separator_def code_of_def)
  moreover have "\<not> isspace_c (last (c # (drop (Suc (length u)) t @ s)))" using assms(2,3) by simp
  ultimately show ?thesis
    unfolding t
    by (intro starts_with_role_longer) (use c in \<open>simp_all add: isspace_c_def isdigit_c_def starts_with_def\<close>)
qed

lemma match_tokens_append:
  "match_tokens leaf (xs @ ys) = (case match_tokens leaf xs of Some i \<Rightarrow> Some i | None \<Rightarrow> match_tokens leaf ys)"
  by (induction xs) (auto split: option.splits)

lemma match_tokens_None: "\<forall>u\<in>set us. starts_with_role_token leaf u = None \<Longrightarrow> match_tokens leaf us = None"
  by (induction us) simp_all

lemma parse_standard_first:
  assumes "concat (map (\<lambda>(r, ts). map (Pair r) ts) ds) = pre @ (role, tok) # post"
    and "\<forall>q\<in>set pre. starts_with_role_token leaf (snd q) = None"
    and "starts_with_role_token leaf tok = Some i"
  shows "parse_standard_with ds leaf p = Some (p\<lparr>attr_role := role, byte_index := i\<rparr>)"
  using assms(1,2)
proof (induction ds arbitrary: pre)
  case (Cons d ds)
  obtain r ts where d: "d = (r, ts)" by (cases d)
  show ?case
  proof (cases "length pre < length ts")
    case True
    have "map (Pair r) ts = take (length ts) (pre @ (role, tok) # post)"
      using arg_cong [OF Cons.prems(1), of "take (length ts)"] by (simp add: d)
    then have "map (Pair r) ts = pre @ (role, tok) # take (length ts - length pre - 1) post"
      using True by (simp add: take_Cons')
    then obtain us vs where "ts = us @ tok # vs" "map (Pair r) us = pre" "r = role"
      by (auto simp: map_eq_append_conv map_eq_Cons_conv)
    moreover have "match_tokens leaf us = None"
      using Cons.prems(2) calculation by (intro match_tokens_None) auto
    ultimately show ?thesis
      using assms(3) by (simp add: d match_descriptor_tokens_def match_tokens_append)
  next
    case False
    then have pre: "pre = map (Pair r) ts @ drop (length ts) pre"
      and rest: "concat (map (\<lambda>(r, ts). map (Pair r) ts) ds) = drop (length ts) pre @ (role, tok) # post"
      using arg_cong [OF Cons.prems(1), of "take (length ts)"] arg_cong [OF Cons.prems(1), of "drop (length ts)"]
      by (simp_all add: d)
    have "match_tokens leaf ts = None"
    proof (rule match_tokens_None, rule ballI)
      fix u assume "u \<in> set ts"
      then have "(r, u) \<in> set pre" by (subst pre) simp
      then show "starts_with_role_token leaf u = None" using Cons.prems(2) by force
    qed
    moreover have "parse_standard_with ds leaf p = Some (p\<lparr>attr_role := role, byte_index := i\<rparr>)"
      by (rule Cons.IH [OF rest]) (use Cons.prems(2) in \<open>auto dest: in_set_dropD\<close>)
    ultimately show ?thesis by (simp add: d match_descriptor_tokens_def)
  qed
qed simp

lemma separated_before:
  "tokens_separated (pre @ q # post) \<Longrightarrow> p \<in> set pre \<Longrightarrow> token_blocked (snd p) (snd q)"
  by (induction pre) auto

lemma str_contains_left:
  assumes "str_contains s (a @ b)" and "\<forall>c\<in>set s. c \<notin> set b" and "s \<noteq> []"
  shows "str_contains s a"
  using assms
proof (induction a)
  case Nil
  then have "sublist s b" by (simp add: str_contains_iff_sublist)
  then have "set s \<subseteq> set b" by (metis set_mono_sublist)
  then show ?case using Nil by (cases s) auto
next
  case (Cons c a)
  show ?case
  proof (cases "starts_with s (c # a @ b)")
    case True
    have "length s \<le> length (c # a)"
    proof (rule ccontr)
      assume "\<not> ?thesis"
      then have l: "length (c # a) < length s" by simp
      have "s = take (length s) ((c # a) @ b)" using True by (simp add: starts_with_def)
      then have "drop (length (c # a)) s = take (length s - length (c # a)) b"
        using l by (metis drop_take append_eq_conv_conj)
      moreover have "drop (length (c # a)) s \<noteq> []" using l by simp
      ultimately obtain x where "x \<in> set s" "x \<in> set b"
        by (metis in_set_dropD in_set_takeD list.set_sel(1))
      then show False using Cons.prems(2) by blast
    qed
    then have "starts_with s (c # a)" using True by (auto simp: starts_with_def take_Cons')
    then show ?thesis by simp
  next
    case False
    then show ?thesis using Cons by simp
  qed
qed

lemma numbered_name_plain:
  assumes "token_plain tok" and "sep \<in> {[], ''_'', ''-''}"
  shows "\<not> has_explicit_fine_marker (tok @ sep @ dec_string n)"
    and "last_attribute_segment (tok @ sep @ dec_string n) = tok @ sep @ dec_string n"
proof -
  have "\<not> isdigit_c c" if "c \<in> set ''fine'' \<union> set ''lsb'' \<union> {CHR ''.''}" for c
    using that by (auto simp: isdigit_c_def code_of_def)
  then have "c \<notin> set (dec_string n)" if "c \<in> set ''fine'' \<union> set ''lsb'' \<union> {CHR ''.''}" for c
    using that dec_string_digits [of n] by blast
  moreover have "c \<notin> set sep" if "c \<in> set ''fine'' \<union> set ''lsb'' \<union> {CHR ''.''}" for c
    using that assms(2) by auto
  ultimately have apart: "c \<notin> set (sep @ dec_string n)" if "c \<in> set ''fine'' \<union> set ''lsb'' \<union> {CHR ''.''}" for c
    using that by simp
  have "\<not> str_contains ''fine'' (tok @ sep @ dec_string n)" "\<not> str_contains ''lsb'' (tok @ sep @ dec_string n)"
    using assms(1) apart str_contains_left [of "''fine''" tok "sep @ dec_string n"]
      str_contains_left [of "''lsb''" tok "sep @ dec_string n"]
    unfolding token_plain_def by blast+
  then show "\<not> has_explicit_fine_marker (tok @ sep @ dec_string n)"
    by (simp add: has_explicit_fine_marker_def)
  have "CHR ''.'' \<notin> set (tok @ sep @ dec_string n)"
    using assms(1) apart [of "CHR ''.''"] by (simp add: token_plain_def)
  then show "last_attribute_segment (tok @ sep @ dec_string n) = tok @ sep @ dec_string n"
    by (simp only: last_attribute_segment_def if_True simp_thms)
qed

text \<open>Every listed attribute token, in any case and with space around it, followed by a byte
  number directly or after one separator, is classified with the role of the token and that byte, and
  is a fine byte exactly from the second byte on. No other token of the table intercepts it.\<close>

theorem numbered_attribute_classified:
  assumes "lower_string (trim_both raw) = token @ sep @ dec_string n"
    and "(role, tokens) \<in> set attribute_name_descriptors" and "token \<in> set tokens"
    and "sep \<in> {[], ''_'', ''-''}" and "0 < n" and "int n \<le> INT_MAX"
  shows "parse_attribute_name raw =
    \<lparr>attr_role = role, is_fine = (2 \<le> n), byte_index = int n, gobo_wheel_number = 0\<rparr>"
proof -
  have member: "(role, token) \<in> set role_tokens" using assms(2,3) by (force simp: role_tokens_def)
  then obtain pre post where split: "role_tokens = pre @ (role, token) # post" by (metis split_list)
  have plain: "token_plain token" using member role_tokens_plain by (auto simp: list_all_iff)
  have tail: "sep @ dec_string n \<noteq> []" "\<not> isspace_c (last (sep @ dec_string n))"
    by (simp_all add: dec_string_not_space)
  have "\<forall>q\<in>set pre. starts_with_role_token (token @ sep @ dec_string n) (snd q) = None"
  proof
    fix q assume "q \<in> set pre"
    then have "token_blocked (snd q) (snd (role, token))"
      by (rule separated_before [OF role_tokens_separated [unfolded split]])
    then show "starts_with_role_token (token @ sep @ dec_string n) (snd q) = None"
      using blocked_no_role [OF _ tail] by simp
  qed
  then have std: "parse_standard_attribute (token @ sep @ dec_string n) blank_attribute
      = Some (blank_attribute\<lparr>attr_role := role, byte_index := int n\<rparr>)"
    unfolding parse_standard_attribute_def
    by (intro parse_standard_first [OF split [unfolded role_tokens_def]] numbered_rest assms(4-6))
  have "role \<noteq> Unknown_role" using assms(2) by (auto simp: attribute_name_descriptors_def)
  then show ?thesis
    unfolding parse_attribute_name_def assms(1) Let_def numbered_name_plain(2) [OF plain assms(4)] std
    using numbered_name_plain(1) [OF plain assms(4)] by (simp add: blank_attribute_def)
qed

theorem numbered_attribute_classified_witness:
  "parse_attribute_name '' ColorAdd_C_2 '' =
     \<lparr>attr_role = Cyan, is_fine = True, byte_index = 2, gobo_wheel_number = 0\<rparr>"
proof -
  have two: "dec_string 2 = ''2''"
    by (subst dec_string.simps) code_simp
  have "trim_both ('' '' @ ''ColorAdd_C_2'' @ '' '') = ''ColorAdd_C_2''"
    by (rule trim_both_padded) (simp_all add: isspace_c_def code_of_def)
  then have "lower_string (trim_both '' ColorAdd_C_2 '') = ''coloradd_c'' @ ''_'' @ dec_string 2"
    unfolding two by (simp, code_simp)
  then show ?thesis
    using numbered_attribute_classified [of "'' ColorAdd_C_2 ''" "''coloradd_c''" "''_''" 2 Cyan]
    by (simp add: attribute_name_descriptors_def INT_MAX_def)
qed

subsection \<open>What every classification satisfies\<close>

lemma starts_with_role_positive: "starts_with_role_token s t = Some i \<Longrightarrow> 0 < i"
  by (auto simp: starts_with_role_token_def Let_def split: if_splits)

lemma match_tokens_positive: "match_tokens s ts = Some i \<Longrightarrow> 0 < i"
  by (induction ts) (auto simp: starts_with_role_positive split: option.splits)

lemma parse_standard_with_positive: "parse_standard_with ds s p = Some q \<Longrightarrow> 0 < byte_index q"
  by (induction ds) (auto simp: match_descriptor_tokens_def match_tokens_positive split: option.splits)

lemma byte_index_positive: "0 < byte_index (parse_attribute_name raw)"
proof -
  have one: "byte_index (parse_gobo_attribute s (parse_wheel_and_prism_attributes t blank_attribute)) = 1"
      "byte_index (parse_wheel_and_prism_attributes t blank_attribute) = 1" for s t
    by (simp_all add: parse_gobo_attribute_def parse_wheel_and_prism_attributes_def blank_attribute_def Let_def)
  have keep: "0 < byte_index p \<Longrightarrow> 0 < byte_index (parse_gobo_attribute s p)" for s p
    by (simp add: parse_gobo_attribute_def Let_def)
  show ?thesis
    using one keep parse_standard_with_positive
    by (auto simp: parse_attribute_name_def Let_def blank_attribute_def parse_standard_attribute_def
        split: option.split)
qed

end
