(* ===== verification/Scene_Types.thy ===== *)
theory Scene_Types
  imports Prelude Complex_Main
begin

text \<open>
  The compiled runtime scene (\<open>runtime/visual_runtime_types.h\<close>): everything the native runtime
  needs of the loaded show, as the compiler writes it and the codec transports it.

  A \<open>double\<close> or \<open>float\<close> is a real number; infinities and NaN are outside the model.  An enumeration
  with a fixed underlying type is the word of that type, because the decoder stores any value of it;
  its enumerators are named constants.  Field names carry a short prefix of their struct.
\<close>

type_synonym compiled_semantic = i32
type_synonym wheel_mode = i32
type_synonym gobo_selection_mode = i32
type_synonym contributor_operation = i32
type_synonym shutter_wave = i32
type_synonym gobo_semantic_kind = u8
type_synonym gobo_controlled_scope = u8
type_synonym master_target_kind = u8

definition kCompiledRuntimeSceneContractVersion :: i32 where
  "kCompiledRuntimeSceneContractVersion = 9"

record dmx_byte_source =
  bs_universe_id :: i32
  bs_address :: i32
  bs_byte_order :: i32

record color_cie =
  cie_x :: real
  cie_y :: real
  cie_Y :: real
  cie_valid :: bool

record spectral_point =
  sp_wavelength_nm :: real
  sp_energy :: real

record color_measurement =
  cm_physical_percent :: real
  cm_luminous_intensity :: real
  cm_transmission :: real
  cm_interpolation_to :: string
  cm_spectral_points :: "spectral_point list"
  cm_xyz_x :: real
  cm_xyz_y :: real
  cm_xyz_z :: real
  cm_has_spectrum_xyz :: bool

record emitter_resource =
  er_resource_id :: i32
  er_name :: string
  er_color :: color_cie
  er_dominant_wavelength_nm :: real
  er_has_dominant_wavelength :: bool
  er_measurements :: "color_measurement list"
  er_fallback_linear_r :: real
  er_fallback_linear_g :: real
  er_fallback_linear_b :: real
  er_valid :: bool

record filter_resource =
  fr_resource_id :: i32
  fr_name :: string
  fr_color :: color_cie
  fr_measurements :: "color_measurement list"
  fr_fallback_linear_r :: real
  fr_fallback_linear_g :: real
  fr_fallback_linear_b :: real
  fr_fallback_transmission :: real
  fr_valid :: bool

record wheel_palette_slot =
  ps_slot_index :: i32
  ps_srgb_red :: real
  ps_srgb_green :: real
  ps_srgb_blue :: real
  ps_linear_red :: real
  ps_linear_green :: real
  ps_linear_blue :: real
  ps_gain :: real
  ps_identity :: bool
  ps_media_file_name :: string
  ps_provenance :: string
  ps_name :: string
  ps_filter_resource_id :: i32
  ps_uniform_color_presentation :: bool

record wheel_palette =
  wp_wheel_renderer_id :: i32
  wp_fixture_id :: i32
  wp_name :: string
  wp_placement_offset_degrees :: real
  wp_slots :: "wheel_palette_slot list"

record wheel_channel_set =
  cs_dmx_from :: u32
  cs_dmx_to :: u32
  cs_wheel_slot_index :: i32
  cs_name :: string
  cs_physical_from :: real
  cs_physical_to :: real

record wheel_target_binding =
  wb_binding_id :: i32
  wb_fixture_id :: i32
  wb_beam_render_target_id :: i32
  wb_wheel_renderer_id :: i32
  wb_source_program_id :: i32
  wb_mode :: wheel_mode
  wb_snap :: bool
  wb_placement_offset_degrees :: real
  wb_channel_sets :: "wheel_channel_set list"

record gobo_asset =
  ga_gobo_asset_id :: i32
  ga_wheel_id :: i32
  ga_slot_index :: i32
  ga_source_media_reference :: string
  ga_extracted_media_path :: string
  ga_extraction_provenance :: string
  ga_source_width :: i32
  ga_source_height :: i32
  ga_open_slot :: bool
  ga_media_valid :: bool

record gobo_selection_binding =
  gs_binding_id :: i32
  gs_fixture_id :: i32
  gs_beam_render_target_id :: i32
  gs_wheel_id :: i32
  gs_wheel_instance_index :: i32
  gs_source_program_id :: i32
  gs_mode :: gobo_selection_mode
  gs_channel_sets :: "wheel_channel_set list"

record sub_physical_unit =
  su_physical_from :: real
  su_physical_to :: real
  su_physical_unit :: string
  su_present :: bool

record scene_activation =
  ac_target_kind :: master_target_kind
  ac_target_id :: i32
  ac_master_program_id :: i32
  ac_from :: u32
  ac_to :: u32
  ac_master_byte_count :: u8
  ac_source_link :: string
  ac_valid :: bool
  ac_master_channel_id :: i32

record gobo_motion_binding =
  gm_binding_id :: i32
  gm_fixture_id :: i32
  gm_beam_render_target_id :: i32
  gm_wheel_id :: i32
  gm_wheel_instance_index :: i32
  gm_source_program_id :: i32
  gm_semantic_kind :: gobo_semantic_kind
  gm_controlled_scope :: gobo_controlled_scope
  gm_physical_from :: real
  gm_physical_to :: real
  gm_physical_unit :: string
  gm_placement_offset :: sub_physical_unit
  gm_amplitude :: sub_physical_unit
  gm_channel_sets :: "wheel_channel_set list"
  gm_mode_master :: scene_activation
  gm_scalar_evaluable :: bool
  gm_rendered :: bool

record dmx_source_program =
  pr_program_id :: i32
  pr_semantic :: compiled_semantic
  pr_sources :: "dmx_byte_source list"
  pr_dmx_from :: u32
  pr_dmx_to :: u32
  pr_physical_from :: real
  pr_physical_to :: real
  pr_attribute_name :: string
  pr_function_name :: string
  pr_geometry_id :: i32
  pr_geometry_name :: string
  pr_emitter_resource_id :: i32
  pr_filter_resource_id :: i32
  pr_color_space_name :: string
  pr_parser_program_id :: i32
  pr_dmx_channel_id :: i32
  pr_activation :: scene_activation

record property_contributor =
  pc_source_program_id :: i32
  pc_weight :: real
  pc_operation :: contributor_operation

record component_property =
  cp_property_id :: i32
  cp_fixture_id :: i32
  cp_component_id :: i32
  cp_render_target_id :: i32
  cp_semantic :: compiled_semantic
  cp_contributors :: "property_contributor list"
  cp_geometry_id :: i32
  cp_geometry_name :: string

record color_input_binding =
  ci_source_program_id :: i32
  ci_semantic :: compiled_semantic
  ci_default_value :: real
  ci_use_normalized_value :: bool
  ci_emitter_resource_id :: i32
  ci_filter_resource_id :: i32

record color_target_program =
  ct_color_target_id :: i32
  ct_fixture_id :: i32
  ct_beam_render_target_id :: i32
  ct_geometry_id :: i32
  ct_geometry_name :: string
  ct_geometry_key :: string
  ct_inputs :: "color_input_binding list"
  ct_additive_source :: bool

record fixture_instance =
  fi_fixture_id :: i32
  fi_fixture_uuid :: string
  fi_fixture_type_name :: string
  fi_dmx_mode_name :: string
  fi_universe_id :: i32
  fi_start_address :: i32
  fi_luminous_flux :: real
  fi_beam_angle_default :: real
  fi_spot_multiplier :: real
  fi_beam_multiplier :: real

record shutter_binding =
  sb_fixture_id :: i32
  sb_beam_target_id :: i32
  sb_shutter_index :: i32
  sb_source_program_id :: i32
  sb_wave :: shutter_wave
  sb_duration :: real
  sb_duty :: real
  sb_offset :: real
  sb_dmx_from :: u32
  sb_dmx_to :: u32
  sb_physical_from :: real
  sb_physical_to :: real
  sb_status :: i32
  sb_channel_set_name :: string
  sb_gdtf_break :: i32
  sb_mode_from :: u32
  sb_mode_to :: u32
  sb_activation_function_id :: i32
  sb_mode_function_name :: string

record runtime_diagnostic =
  rd_code :: string
  rd_severity :: string
  rd_message :: string
  rd_subject :: string

text \<open>The counters the compiler reports, of which the codec carries none.\<close>

record scene_counts =
  mvr_fixture_patches :: i32
  gdtf_files_opened :: i32
  selected_modes_found :: i32
  dmxchannels_containers_found :: i32
  dmxchannel_records_found :: i32
  logical_channels_found :: i32
  channel_functions_found :: i32
  dimmer_program_count :: i32
  pan_program_count :: i32
  tilt_program_count :: i32
  zoom_program_count :: i32
  color_program_count :: i32
  wheel_palette_count :: i32
  wheel_binding_count :: i32

text \<open>\<open>'beam\<close> is the optical profile of a beam, which the codec does not look at.\<close>

record 'beam runtime_scene =
  contract_version :: i32
  scene_counters :: scene_counts
  fixtures :: "fixture_instance list"
  emitter_resources :: "emitter_resource list"
  filter_resources :: "filter_resource list"
  source_programs :: "dmx_source_program list"
  properties :: "component_property list"
  color_targets :: "color_target_program list"
  wheel_palettes :: "wheel_palette list"
  wheel_bindings :: "wheel_target_binding list"
  gobo_assets :: "gobo_asset list"
  gobo_bindings :: "gobo_selection_binding list"
  gobo_motion_bindings :: "gobo_motion_binding list"
  shutter_bindings :: "shutter_binding list"
  beam_profiles :: "'beam list"
  diagnostics :: "runtime_diagnostic list"

end
