(* ===== verification/Scene_Codec.thy ===== *)
theory Scene_Codec
  imports Scene_Types "HOL-Library.State_Monad"
begin

text \<open>
  The packed form of a compiled scene (\<open>runtime/compiled_runtime_scene_codec.{h,cpp}\<close>): a vector of
  32-bit integers that holds every record, and a table of floats the records refer to by index.

  The encoder threads the float table through a state monad; the order in which a record pushes its
  floats is the order of the initialiser list.  The decoder is a state monad over its cursor and its
  first failure; \<^term>\<open>None\<close> from the body of a record is a jump to \<open>done\<close>.  \<open>narrow\<close> is the
  conversion of a \<open>double\<close> to a \<open>float\<close>; all that the properties ask of it is that a \<open>float\<close> survives
  it (\<open>narrow (narrow x) = narrow x\<close>).
\<close>

subsection \<open>Default values of the records\<close>

definition blank_activation :: scene_activation where
  "blank_activation = \<lparr>ac_target_kind = 0, ac_target_id = 0, ac_master_program_id = 0, ac_from = 0,
     ac_to = 0, ac_master_byte_count = 1, ac_source_link = [], ac_valid = True, ac_master_channel_id = 0\<rparr>"

definition blank_sub_physical_unit :: sub_physical_unit where
  "blank_sub_physical_unit = \<lparr>su_physical_from = 0, su_physical_to = 1, su_physical_unit = ''None'',
     su_present = False\<rparr>"

definition blank_fixture :: fixture_instance where
  "blank_fixture = \<lparr>fi_fixture_id = 0, fi_fixture_uuid = [], fi_fixture_type_name = [],
     fi_dmx_mode_name = [], fi_universe_id = -1, fi_start_address = -1, fi_luminous_flux = 10000,
     fi_beam_angle_default = 25, fi_spot_multiplier = 1, fi_beam_multiplier = 20\<rparr>"

definition blank_program :: dmx_source_program where
  "blank_program = \<lparr>pr_program_id = 0, pr_semantic = 0, pr_sources = [], pr_dmx_from = 0, pr_dmx_to = 255,
     pr_physical_from = 0, pr_physical_to = 1, pr_attribute_name = [], pr_function_name = [],
     pr_geometry_id = 0, pr_geometry_name = [], pr_emitter_resource_id = 0, pr_filter_resource_id = 0,
     pr_color_space_name = [], pr_parser_program_id = 0, pr_dmx_channel_id = 0,
     pr_activation = blank_activation\<rparr>"

definition blank_property :: component_property where
  "blank_property = \<lparr>cp_property_id = 0, cp_fixture_id = 0, cp_component_id = 0, cp_render_target_id = 0,
     cp_semantic = 0, cp_contributors = [], cp_geometry_id = 0, cp_geometry_name = []\<rparr>"

definition blank_color_target :: color_target_program where
  "blank_color_target = \<lparr>ct_color_target_id = 0, ct_fixture_id = 0, ct_beam_render_target_id = 0,
     ct_geometry_id = 0, ct_geometry_name = [], ct_geometry_key = [], ct_inputs = [],
     ct_additive_source = False\<rparr>"

definition blank_color_input :: color_input_binding where
  "blank_color_input = \<lparr>ci_source_program_id = 0, ci_semantic = 0, ci_default_value = 0,
     ci_use_normalized_value = False, ci_emitter_resource_id = 0, ci_filter_resource_id = 0\<rparr>"

definition blank_palette :: wheel_palette where
  "blank_palette = \<lparr>wp_wheel_renderer_id = 0, wp_fixture_id = 0, wp_name = [],
     wp_placement_offset_degrees = 270, wp_slots = []\<rparr>"

definition blank_palette_slot :: wheel_palette_slot where
  "blank_palette_slot = \<lparr>ps_slot_index = 0, ps_srgb_red = 1, ps_srgb_green = 1, ps_srgb_blue = 1,
     ps_linear_red = 1, ps_linear_green = 1, ps_linear_blue = 1, ps_gain = 1, ps_identity = True,
     ps_media_file_name = [], ps_provenance = [], ps_name = [], ps_filter_resource_id = 0,
     ps_uniform_color_presentation = False\<rparr>"

definition blank_channel_set :: wheel_channel_set where
  "blank_channel_set = \<lparr>cs_dmx_from = 0, cs_dmx_to = 255, cs_wheel_slot_index = 0, cs_name = [],
     cs_physical_from = 0, cs_physical_to = 1\<rparr>"

definition blank_gobo_asset :: gobo_asset where
  "blank_gobo_asset = \<lparr>ga_gobo_asset_id = 0, ga_wheel_id = 0, ga_slot_index = 0,
     ga_source_media_reference = [], ga_extracted_media_path = [], ga_extraction_provenance = [],
     ga_source_width = 0, ga_source_height = 0, ga_open_slot = True, ga_media_valid = False\<rparr>"

definition blank_gobo_motion :: gobo_motion_binding where
  "blank_gobo_motion = \<lparr>gm_binding_id = 0, gm_fixture_id = 0, gm_beam_render_target_id = 0,
     gm_wheel_id = 0, gm_wheel_instance_index = 0, gm_source_program_id = 0, gm_semantic_kind = 0,
     gm_controlled_scope = 0, gm_physical_from = 0, gm_physical_to = 1, gm_physical_unit = [],
     gm_placement_offset = blank_sub_physical_unit, gm_amplitude = blank_sub_physical_unit,
     gm_channel_sets = [], gm_mode_master = blank_activation, gm_scalar_evaluable = False,
     gm_rendered = False\<rparr>"

definition blank_shutter :: shutter_binding where
  "blank_shutter = \<lparr>sb_fixture_id = 0, sb_beam_target_id = 0, sb_shutter_index = 1,
     sb_source_program_id = 0, sb_wave = -1, sb_duration = 0.025, sb_duty = 1, sb_offset = 1,
     sb_dmx_from = 0, sb_dmx_to = 255, sb_physical_from = 0, sb_physical_to = 1, sb_status = 0,
     sb_channel_set_name = [], sb_gdtf_break = 1, sb_mode_from = 0, sb_mode_to = -1,
     sb_activation_function_id = 0, sb_mode_function_name = []\<rparr>"

definition blank_scene :: "'beam runtime_scene" where
  "blank_scene = \<lparr>contract_version = kCompiledRuntimeSceneContractVersion,
     scene_counters = \<lparr>mvr_fixture_patches = 0, gdtf_files_opened = 0, selected_modes_found = 0,
       dmxchannels_containers_found = 0, dmxchannel_records_found = 0, logical_channels_found = 0,
       channel_functions_found = 0, dimmer_program_count = 0, pan_program_count = 0,
       tilt_program_count = 0, zoom_program_count = 0, color_program_count = 0,
       wheel_palette_count = 0, wheel_binding_count = 0\<rparr>,
     fixtures = [], emitter_resources = [], filter_resources = [], source_programs = [],
     properties = [], color_targets = [], wheel_palettes = [], wheel_bindings = [], gobo_assets = [],
     gobo_bindings = [], gobo_motion_bindings = [], shutter_bindings = [], beam_profiles = [],
     diagnostics = []\<rparr>"

subsection \<open>Encoding\<close>

type_synonym encoder = "(real list, i32 list) state"

definition push_float :: "(real \<Rightarrow> real) \<Rightarrow> real \<Rightarrow> (real list, i32) state" where
  "push_float narrow value = State (\<lambda>values. (of_nat (length values), values @ [narrow value]))"

definition bool_word :: "bool \<Rightarrow> i32" where
  "bool_word b = (if b then 1 else 0)"

text \<open>\<open>static_cast<int32_t>(v.size())\<close>\<close>

definition size_word :: "'a list \<Rightarrow> i32" where
  "size_word xs = of_nat (length xs)"

fun encode_all :: "('r \<Rightarrow> encoder) \<Rightarrow> 'r list \<Rightarrow> encoder" where
  "encode_all enc [] = State_Monad.return []"
| "encode_all enc (v # vs) =
     do { i \<leftarrow> enc v; is \<leftarrow> encode_all enc vs; State_Monad.return (i @ is) }"

definition encode_fixture :: "(real \<Rightarrow> real) \<Rightarrow> fixture_instance \<Rightarrow> encoder" where
  "encode_fixture narrow v =
     do { flux \<leftarrow> push_float narrow (fi_luminous_flux v);
          angle \<leftarrow> push_float narrow (fi_beam_angle_default v);
          State_Monad.return [fi_fixture_id v, fi_universe_id v, fi_start_address v, 0, flux, angle] }"

definition encode_source :: "dmx_byte_source \<Rightarrow> encoder" where
  "encode_source s = State_Monad.return [bs_universe_id s, bs_address s, bs_byte_order s]"

definition encode_program :: "(real \<Rightarrow> real) \<Rightarrow> dmx_source_program \<Rightarrow> encoder" where
  "encode_program narrow v =
     do { pf \<leftarrow> push_float narrow (pr_physical_from v);
          pt \<leftarrow> push_float narrow (pr_physical_to v);
          sources \<leftarrow> encode_all encode_source (pr_sources v);
          State_Monad.return
            ([pr_program_id v, pr_semantic v, size_word (pr_sources v), pr_dmx_from v, pr_dmx_to v, pf, pt,
              ucast (ac_target_kind (pr_activation v)), ac_master_program_id (pr_activation v),
              ac_from (pr_activation v), ac_to (pr_activation v), bool_word (ac_valid (pr_activation v)),
              ac_target_id (pr_activation v), ac_master_channel_id (pr_activation v)] @ sources) }"

definition encode_contributor :: "(real \<Rightarrow> real) \<Rightarrow> property_contributor \<Rightarrow> encoder" where
  "encode_contributor narrow c =
     do { weight \<leftarrow> push_float narrow (pc_weight c);
          State_Monad.return [pc_source_program_id c, weight, pc_operation c] }"

definition encode_property :: "(real \<Rightarrow> real) \<Rightarrow> component_property \<Rightarrow> encoder" where
  "encode_property narrow v =
     do { contributors \<leftarrow> encode_all (encode_contributor narrow) (cp_contributors v);
          State_Monad.return
            ([cp_property_id v, cp_fixture_id v, cp_component_id v, cp_render_target_id v, cp_semantic v,
              size_word (cp_contributors v)] @ contributors) }"

definition encode_color_input :: "(real \<Rightarrow> real) \<Rightarrow> color_input_binding \<Rightarrow> encoder" where
  "encode_color_input narrow x =
     do { def \<leftarrow> push_float narrow (ci_default_value x);
          State_Monad.return [ci_source_program_id x, ci_semantic x, def,
            bool_word (ci_use_normalized_value x), ci_emitter_resource_id x, ci_filter_resource_id x] }"

definition encode_color_target :: "(real \<Rightarrow> real) \<Rightarrow> color_target_program \<Rightarrow> encoder" where
  "encode_color_target narrow v =
     do { inputs \<leftarrow> encode_all (encode_color_input narrow) (ct_inputs v);
          State_Monad.return
            ([ct_color_target_id v, ct_fixture_id v, ct_beam_render_target_id v, ct_geometry_id v,
              bool_word (ct_additive_source v), size_word (ct_inputs v)] @ inputs) }"

definition encode_slot :: "(real \<Rightarrow> real) \<Rightarrow> wheel_palette_slot \<Rightarrow> encoder" where
  "encode_slot narrow s =
     do { sr \<leftarrow> push_float narrow (ps_srgb_red s);
          sg \<leftarrow> push_float narrow (ps_srgb_green s);
          sb \<leftarrow> push_float narrow (ps_srgb_blue s);
          lr \<leftarrow> push_float narrow (ps_linear_red s);
          lg \<leftarrow> push_float narrow (ps_linear_green s);
          lb \<leftarrow> push_float narrow (ps_linear_blue s);
          gain \<leftarrow> push_float narrow (ps_gain s);
          State_Monad.return
            [ps_slot_index s, sr, sg, sb, lr, lg, lb, gain, bool_word (ps_identity s)] }"

definition encode_palette :: "(real \<Rightarrow> real) \<Rightarrow> wheel_palette \<Rightarrow> encoder" where
  "encode_palette narrow v =
     do { offset \<leftarrow> push_float narrow (wp_placement_offset_degrees v);
          slots \<leftarrow> encode_all (encode_slot narrow) (wp_slots v);
          State_Monad.return
            ([wp_wheel_renderer_id v, wp_fixture_id v, offset, size_word (wp_slots v)] @ slots) }"

definition encode_channel_set :: "wheel_channel_set \<Rightarrow> encoder" where
  "encode_channel_set s = State_Monad.return [cs_dmx_from s, cs_dmx_to s, cs_wheel_slot_index s]"

definition encode_wheel_binding :: "(real \<Rightarrow> real) \<Rightarrow> wheel_target_binding \<Rightarrow> encoder" where
  "encode_wheel_binding narrow v =
     do { offset \<leftarrow> push_float narrow (wb_placement_offset_degrees v);
          sets \<leftarrow> encode_all encode_channel_set (wb_channel_sets v);
          State_Monad.return
            ([wb_binding_id v, wb_fixture_id v, wb_beam_render_target_id v, wb_wheel_renderer_id v,
              wb_source_program_id v, wb_mode v, bool_word (wb_snap v), offset,
              size_word (wb_channel_sets v)] @ sets) }"

definition encode_gobo_asset :: "gobo_asset \<Rightarrow> encoder" where
  "encode_gobo_asset v =
     State_Monad.return [ga_gobo_asset_id v, ga_wheel_id v, ga_slot_index v,
       bool_word (ga_open_slot v), bool_word (ga_media_valid v)]"

definition encode_gobo_binding :: "gobo_selection_binding \<Rightarrow> encoder" where
  "encode_gobo_binding v =
     do { sets \<leftarrow> encode_all encode_channel_set (gs_channel_sets v);
          State_Monad.return
            ([gs_binding_id v, gs_fixture_id v, gs_beam_render_target_id v, gs_wheel_id v,
              gs_wheel_instance_index v, gs_source_program_id v, gs_mode v,
              size_word (gs_channel_sets v)] @ sets) }"

definition encode_gobo_motion :: "(real \<Rightarrow> real) \<Rightarrow> gobo_motion_binding \<Rightarrow> encoder" where
  "encode_gobo_motion narrow v =
     do { pf \<leftarrow> push_float narrow (gm_physical_from v);
          pt \<leftarrow> push_float narrow (gm_physical_to v);
          State_Monad.return
            [gm_binding_id v, gm_fixture_id v, gm_beam_render_target_id v, gm_wheel_id v,
             gm_wheel_instance_index v, gm_source_program_id v, ucast (gm_semantic_kind v),
             ucast (gm_controlled_scope v), pf, pt, bool_word (gm_scalar_evaluable v),
             bool_word (gm_rendered v), bool_word (gm_physical_unit v = ''Angle'')] }"

definition encode_shutter :: "(real \<Rightarrow> real) \<Rightarrow> shutter_binding \<Rightarrow> encoder" where
  "encode_shutter narrow v =
     do { duration \<leftarrow> push_float narrow (sb_duration v);
          duty \<leftarrow> push_float narrow (sb_duty v);
          offset \<leftarrow> push_float narrow (sb_offset v);
          pf \<leftarrow> push_float narrow (sb_physical_from v);
          pt \<leftarrow> push_float narrow (sb_physical_to v);
          State_Monad.return
            [sb_fixture_id v, sb_beam_target_id v, sb_shutter_index v, sb_source_program_id v, sb_wave v,
             sb_status v, sb_dmx_from v, sb_dmx_to v, duration, duty, offset, pf, pt, sb_mode_from v,
             sb_mode_to v, sb_activation_function_id v] }"

definition encode_records :: "(real \<Rightarrow> real) \<Rightarrow> 'beam runtime_scene \<Rightarrow> encoder" where
  "encode_records narrow scene =
     do { a \<leftarrow> encode_all (encode_fixture narrow) (fixtures scene);
          b \<leftarrow> encode_all (encode_program narrow) (source_programs scene);
          c \<leftarrow> encode_all (encode_property narrow) (properties scene);
          d \<leftarrow> encode_all (encode_color_target narrow) (color_targets scene);
          e \<leftarrow> encode_all (encode_palette narrow) (wheel_palettes scene);
          f \<leftarrow> encode_all (encode_wheel_binding narrow) (wheel_bindings scene);
          g \<leftarrow> encode_all encode_gobo_asset (gobo_assets scene);
          h \<leftarrow> encode_all encode_gobo_binding (gobo_bindings scene);
          m \<leftarrow> encode_all (encode_gobo_motion narrow) (gobo_motion_bindings scene);
          s \<leftarrow> encode_all (encode_shutter narrow) (shutter_bindings scene);
          State_Monad.return (a @ b @ c @ d @ e @ f @ g @ h @ m @ s) }"

record packed_scene =
  packed_integers :: "i32 list"
  packed_floats :: "real list"

definition scene_header :: "'beam runtime_scene \<Rightarrow> i32 list" where
  "scene_header scene =
     [contract_version scene, size_word (fixtures scene), size_word (source_programs scene),
      size_word (properties scene), size_word (color_targets scene), size_word (wheel_palettes scene),
      size_word (wheel_bindings scene), size_word (gobo_assets scene), size_word (gobo_bindings scene),
      size_word (gobo_motion_bindings scene), size_word (shutter_bindings scene),
      size_word (diagnostics scene)]"

definition encode_compiled_runtime_scene :: "(real \<Rightarrow> real) \<Rightarrow> 'beam runtime_scene \<Rightarrow> packed_scene" where
  "encode_compiled_runtime_scene narrow scene =
     (let (is, fs) = run_state (encode_records narrow scene) []
      in \<lparr>packed_integers = scene_header scene @ is, packed_floats = fs\<rparr>)"

subsection \<open>The reader\<close>

record decoder =
  dec_cursor :: nat
  dec_valid :: bool
  dec_diagnostic :: string

definition fresh_decoder :: decoder where
  "fresh_decoder = \<lparr>dec_cursor = 0, dec_valid = True, dec_diagnostic = []\<rparr>"

text \<open>The first failure is kept.\<close>

definition dec_fail :: "string \<Rightarrow> decoder \<Rightarrow> decoder" where
  "dec_fail message d = (if dec_valid d then d\<lparr>dec_valid := False, dec_diagnostic := message\<rparr> else d)"

definition payload_ended :: string where
  "payload_ended = ''PVZ-PACKED-SCENE-TRUNCATED: integer payload ended before the declared records.''"

definition read :: "i32 list \<Rightarrow> (decoder, i32) state" where
  "read ints = State (\<lambda>d.
     if dec_cursor d \<ge> length ints then (0, dec_fail payload_ended d)
     else (ints ! dec_cursor d, d\<lparr>dec_cursor := dec_cursor d + 1\<rparr>))"

definition record_exceeds :: string where
  "record_exceeds = ''PVZ-PACKED-SCENE-TRUNCATED: declared record exceeds the integer payload.''"

definition require :: "i32 list \<Rightarrow> nat \<Rightarrow> (decoder, bool) state" where
  "require ints count = State (\<lambda>d.
     if \<not> dec_valid d \<or> count > length ints - dec_cursor d then (False, dec_fail record_exceeds d)
     else (True, d))"

definition count_invalid :: string where
  "count_invalid = ''PVZ-PACKED-SCENE-COUNT: record count is invalid.''"

definition valid_count :: "i32 list \<Rightarrow> i32 \<Rightarrow> (decoder, bool) state" where
  "valid_count ints count = State (\<lambda>d.
     if sint count < 0 \<or> nat (sint count) > length ints then (False, dec_fail count_invalid d)
     else (True, d))"

definition read_float :: "real list \<Rightarrow> i32 \<Rightarrow> real \<Rightarrow> real" where
  "read_float values index fallback =
     (if sint index \<ge> 0 \<and> nat (sint index) < length values then values ! nat (sint index) else fallback)"

text \<open>A loop that reads a fixed number of items.\<close>

fun read_items :: "nat \<Rightarrow> (decoder, 'r) state \<Rightarrow> (decoder, 'r list) state" where
  "read_items 0 item = State_Monad.return []"
| "read_items (Suc n) item =
     do { v \<leftarrow> item; vs \<leftarrow> read_items n item; State_Monad.return (v # vs) }"

text \<open>The items nested in a record: the count is checked, the space is required, then they are read.
  \<^term>\<open>None\<close> is a jump to \<open>done\<close>.\<close>

definition read_nested :: "i32 list \<Rightarrow> i32 \<Rightarrow> nat \<Rightarrow> (decoder, 'r) state \<Rightarrow> (decoder, 'r list option) state" where
  "read_nested ints count stride item =
     do { counted \<leftarrow> valid_count ints count;
          if \<not> counted then State_Monad.return None
          else do { ok \<leftarrow> require ints (nat (sint count) * stride);
                    if \<not> ok then State_Monad.return None
                    else do { vs \<leftarrow> read_items (nat (sint count)) item;
                              State_Monad.return (Some vs) } } }"

text \<open>The loop over the records of one kind: \<open>n < count && d.require(fixed)\<close>. The flag says that a
  body has jumped to \<open>done\<close>.\<close>

fun read_records ::
    "i32 list \<Rightarrow> nat \<Rightarrow> nat \<Rightarrow> (decoder, 'r option) state \<Rightarrow> (decoder, 'r list \<times> bool) state" where
  "read_records ints fixed 0 body = State_Monad.return ([], False)"
| "read_records ints fixed (Suc n) body =
     do { ok \<leftarrow> require ints fixed;
          if \<not> ok then State_Monad.return ([], False)
          else do { r \<leftarrow> body;
                    case r of
                      None \<Rightarrow> State_Monad.return ([], True)
                    | Some v \<Rightarrow> do { (vs, stop) \<leftarrow> read_records ints fixed n body;
                                     State_Monad.return (v # vs, stop) } } }"

subsection \<open>Decoding the records\<close>

definition kPackedSceneFixtureIntegers :: nat where "kPackedSceneFixtureIntegers = 6"
definition kPackedSceneV7SourceFixedIntegers :: nat where "kPackedSceneV7SourceFixedIntegers = 14"
definition kPackedSceneV6SourceFixedIntegers :: nat where "kPackedSceneV6SourceFixedIntegers = 8"
definition kPackedSceneGoboMotionIntegers :: nat where "kPackedSceneGoboMotionIntegers = 13"

definition decode_fixture :: "i32 list \<Rightarrow> real list \<Rightarrow> (decoder, fixture_instance option) state" where
  "decode_fixture ints floats =
     do { fixture \<leftarrow> read ints; universe \<leftarrow> read ints; address \<leftarrow> read ints; _ \<leftarrow> read ints;
          flux \<leftarrow> read ints; angle \<leftarrow> read ints;
          State_Monad.return (Some (blank_fixture\<lparr>fi_fixture_id := fixture, fi_universe_id := universe,
            fi_start_address := address,
            fi_luminous_flux := read_float floats flux (fi_luminous_flux blank_fixture),
            fi_beam_angle_default := read_float floats angle (fi_beam_angle_default blank_fixture)\<rparr>)) }"

definition decode_source :: "i32 list \<Rightarrow> (decoder, dmx_byte_source) state" where
  "decode_source ints =
     do { universe \<leftarrow> read ints; address \<leftarrow> read ints; order \<leftarrow> read ints;
          State_Monad.return \<lparr>bs_universe_id = universe, bs_address = address, bs_byte_order = order\<rparr> }"

definition decode_activation :: "i32 list \<Rightarrow> int \<Rightarrow> (decoder, scene_activation) state" where
  "decode_activation ints version =
     (if version \<ge> 7 then
        do { kind \<leftarrow> read ints; master \<leftarrow> read ints; from_value \<leftarrow> read ints; to_value \<leftarrow> read ints;
             valid \<leftarrow> read ints; target \<leftarrow> read ints; channel \<leftarrow> read ints;
             State_Monad.return (blank_activation\<lparr>ac_target_kind := ucast kind,
               ac_master_program_id := master, ac_from := from_value, ac_to := to_value,
               ac_valid := valid \<noteq> 0, ac_target_id := target, ac_master_channel_id := channel\<rparr>) }
      else do { _ \<leftarrow> read ints; State_Monad.return blank_activation })"

definition decode_program ::
    "i32 list \<Rightarrow> real list \<Rightarrow> int \<Rightarrow> (decoder, dmx_source_program option) state" where
  "decode_program ints floats version =
     do { program \<leftarrow> read ints; semantic \<leftarrow> read ints; sources \<leftarrow> read ints; from_value \<leftarrow> read ints;
          to_value \<leftarrow> read ints; pf \<leftarrow> read ints; pt \<leftarrow> read ints;
          activation \<leftarrow> decode_activation ints version;
          nested \<leftarrow> read_nested ints sources 3 (decode_source ints);
          State_Monad.return (map_option (\<lambda>ss. blank_program\<lparr>pr_program_id := program,
            pr_semantic := semantic, pr_dmx_from := from_value, pr_dmx_to := to_value,
            pr_activation := activation, pr_physical_from := read_float floats pf 0,
            pr_physical_to := read_float floats pt 1, pr_sources := ss\<rparr>) nested) }"

definition decode_contributor ::
    "i32 list \<Rightarrow> real list \<Rightarrow> (decoder, property_contributor) state" where
  "decode_contributor ints floats =
     do { program \<leftarrow> read ints; weight \<leftarrow> read ints; operation \<leftarrow> read ints;
          State_Monad.return \<lparr>pc_source_program_id = program, pc_weight = read_float floats weight 1,
            pc_operation = operation\<rparr> }"

definition decode_property ::
    "i32 list \<Rightarrow> real list \<Rightarrow> (decoder, component_property option) state" where
  "decode_property ints floats =
     do { prop \<leftarrow> read ints; fixture \<leftarrow> read ints; comp \<leftarrow> read ints; target \<leftarrow> read ints;
          semantic \<leftarrow> read ints; count \<leftarrow> read ints;
          nested \<leftarrow> read_nested ints count 3 (decode_contributor ints floats);
          State_Monad.return (map_option (\<lambda>cs. blank_property\<lparr>cp_property_id := prop,
            cp_fixture_id := fixture, cp_component_id := comp, cp_render_target_id := target,
            cp_semantic := semantic, cp_contributors := cs\<rparr>) nested) }"

definition decode_color_input ::
    "i32 list \<Rightarrow> real list \<Rightarrow> int \<Rightarrow> (decoder, color_input_binding) state" where
  "decode_color_input ints floats version =
     do { program \<leftarrow> read ints; semantic \<leftarrow> read ints; value \<leftarrow> read ints; normalized \<leftarrow> read ints;
          let a = blank_color_input\<lparr>ci_source_program_id := program, ci_semantic := semantic,
            ci_default_value := read_float floats value 0, ci_use_normalized_value := normalized \<noteq> 0\<rparr>;
          if version \<ge> 3 then
            do { emitter \<leftarrow> read ints; filter_id \<leftarrow> read ints;
                 State_Monad.return (a\<lparr>ci_emitter_resource_id := emitter,
                   ci_filter_resource_id := filter_id\<rparr>) }
          else State_Monad.return a }"

definition decode_color_target ::
    "i32 list \<Rightarrow> real list \<Rightarrow> int \<Rightarrow> (decoder, color_target_program option) state" where
  "decode_color_target ints floats version =
     do { target \<leftarrow> read ints; fixture \<leftarrow> read ints; beam \<leftarrow> read ints; geometry \<leftarrow> read ints;
          additive \<leftarrow> read ints; count \<leftarrow> read ints;
          nested \<leftarrow> read_nested ints count (if version \<ge> 3 then 6 else 4)
            (decode_color_input ints floats version);
          State_Monad.return (map_option (\<lambda>xs. blank_color_target\<lparr>ct_color_target_id := target,
            ct_fixture_id := fixture, ct_beam_render_target_id := beam, ct_geometry_id := geometry,
            ct_additive_source := additive \<noteq> 0, ct_inputs := xs\<rparr>) nested) }"

definition decode_slot ::
    "(real \<Rightarrow> real) \<Rightarrow> i32 list \<Rightarrow> real list \<Rightarrow> (decoder, wheel_palette_slot) state" where
  "decode_slot narrow ints floats =
     do { index \<leftarrow> read ints; sr \<leftarrow> read ints; sg \<leftarrow> read ints; sb \<leftarrow> read ints; lr \<leftarrow> read ints;
          lg \<leftarrow> read ints; lb \<leftarrow> read ints; gain \<leftarrow> read ints; identity \<leftarrow> read ints;
          State_Monad.return (blank_palette_slot\<lparr>ps_slot_index := index,
            ps_srgb_red := narrow (read_float floats sr 1), ps_srgb_green := narrow (read_float floats sg 1),
            ps_srgb_blue := narrow (read_float floats sb 1), ps_linear_red := narrow (read_float floats lr 1),
            ps_linear_green := narrow (read_float floats lg 1),
            ps_linear_blue := narrow (read_float floats lb 1), ps_gain := narrow (read_float floats gain 1),
            ps_identity := identity \<noteq> 0\<rparr>) }"

definition decode_palette ::
    "(real \<Rightarrow> real) \<Rightarrow> i32 list \<Rightarrow> real list \<Rightarrow> (decoder, wheel_palette option) state" where
  "decode_palette narrow ints floats =
     do { wheel \<leftarrow> read ints; fixture \<leftarrow> read ints; offset \<leftarrow> read ints; count \<leftarrow> read ints;
          nested \<leftarrow> read_nested ints count 9 (decode_slot narrow ints floats);
          State_Monad.return (map_option (\<lambda>ss. blank_palette\<lparr>wp_wheel_renderer_id := wheel,
            wp_fixture_id := fixture, wp_placement_offset_degrees := narrow (read_float floats offset 270),
            wp_slots := ss\<rparr>) nested) }"

definition decode_channel_set :: "i32 list \<Rightarrow> (decoder, wheel_channel_set) state" where
  "decode_channel_set ints =
     do { from_value \<leftarrow> read ints; to_value \<leftarrow> read ints; slot \<leftarrow> read ints;
          State_Monad.return (blank_channel_set\<lparr>cs_dmx_from := from_value, cs_dmx_to := to_value,
            cs_wheel_slot_index := slot\<rparr>) }"

definition decode_wheel_binding ::
    "(real \<Rightarrow> real) \<Rightarrow> i32 list \<Rightarrow> real list \<Rightarrow> (decoder, wheel_target_binding option) state" where
  "decode_wheel_binding narrow ints floats =
     do { bind_id \<leftarrow> read ints; fixture \<leftarrow> read ints; beam \<leftarrow> read ints; wheel \<leftarrow> read ints;
          program \<leftarrow> read ints; mode \<leftarrow> read ints; snap \<leftarrow> read ints; offset \<leftarrow> read ints; count \<leftarrow> read ints;
          nested \<leftarrow> read_nested ints count 3 (decode_channel_set ints);
          State_Monad.return (map_option (\<lambda>ss. \<lparr>wb_binding_id = bind_id, wb_fixture_id = fixture,
            wb_beam_render_target_id = beam, wb_wheel_renderer_id = wheel, wb_source_program_id = program,
            wb_mode = mode, wb_snap = (snap \<noteq> 0),
            wb_placement_offset_degrees = narrow (read_float floats offset 270), wb_channel_sets = ss\<rparr>) nested) }"

definition decode_gobo_asset :: "i32 list \<Rightarrow> (decoder, gobo_asset option) state" where
  "decode_gobo_asset ints =
     do { asset \<leftarrow> read ints; wheel \<leftarrow> read ints; slot \<leftarrow> read ints; opened \<leftarrow> read ints; media \<leftarrow> read ints;
          State_Monad.return (Some (blank_gobo_asset\<lparr>ga_gobo_asset_id := asset, ga_wheel_id := wheel,
            ga_slot_index := slot, ga_open_slot := opened \<noteq> 0, ga_media_valid := media \<noteq> 0\<rparr>)) }"

definition decode_gobo_binding :: "i32 list \<Rightarrow> (decoder, gobo_selection_binding option) state" where
  "decode_gobo_binding ints =
     do { bind_id \<leftarrow> read ints; fixture \<leftarrow> read ints; beam \<leftarrow> read ints; wheel \<leftarrow> read ints;
          instance_index \<leftarrow> read ints; program \<leftarrow> read ints; mode \<leftarrow> read ints; count \<leftarrow> read ints;
          nested \<leftarrow> read_nested ints count 3 (decode_channel_set ints);
          State_Monad.return (map_option (\<lambda>ss. \<lparr>gs_binding_id = bind_id, gs_fixture_id = fixture,
            gs_beam_render_target_id = beam, gs_wheel_id = wheel, gs_wheel_instance_index = instance_index,
            gs_source_program_id = program, gs_mode = mode, gs_channel_sets = ss\<rparr>) nested) }"

definition decode_gobo_motion ::
    "i32 list \<Rightarrow> real list \<Rightarrow> (decoder, gobo_motion_binding option) state" where
  "decode_gobo_motion ints floats =
     do { bind_id \<leftarrow> read ints; fixture \<leftarrow> read ints; beam \<leftarrow> read ints; wheel \<leftarrow> read ints;
          instance_index \<leftarrow> read ints; program \<leftarrow> read ints; kind \<leftarrow> read ints; controlled \<leftarrow> read ints;
          pf \<leftarrow> read ints; pt \<leftarrow> read ints; scalar \<leftarrow> read ints; rendered \<leftarrow> read ints; unit \<leftarrow> read ints;
          State_Monad.return (Some (blank_gobo_motion\<lparr>gm_binding_id := bind_id, gm_fixture_id := fixture,
            gm_beam_render_target_id := beam, gm_wheel_id := wheel, gm_wheel_instance_index := instance_index,
            gm_source_program_id := program, gm_semantic_kind := ucast kind,
            gm_controlled_scope := ucast controlled, gm_physical_from := read_float floats pf 0,
            gm_physical_to := read_float floats pt 1, gm_scalar_evaluable := scalar \<noteq> 0,
            gm_rendered := rendered \<noteq> 0,
            gm_physical_unit := (if unit = 1 then ''Angle'' else ''None'')\<rparr>)) }"

definition decode_shutter ::
    "i32 list \<Rightarrow> real list \<Rightarrow> int \<Rightarrow> (decoder, shutter_binding option) state" where
  "decode_shutter ints floats version =
     do { fixture \<leftarrow> read ints; beam \<leftarrow> read ints; index \<leftarrow> read ints; program \<leftarrow> read ints;
          wave \<leftarrow> read ints; status \<leftarrow> read ints; from_value \<leftarrow> read ints; to_value \<leftarrow> read ints;
          duration \<leftarrow> read ints; duty \<leftarrow> read ints; offset \<leftarrow> read ints; pf \<leftarrow> read ints; pt \<leftarrow> read ints;
          let v = blank_shutter\<lparr>sb_fixture_id := fixture, sb_beam_target_id := beam,
            sb_shutter_index := index, sb_source_program_id := program, sb_wave := wave,
            sb_status := status, sb_dmx_from := from_value, sb_dmx_to := to_value,
            sb_duration := read_float floats duration 0.025, sb_duty := read_float floats duty 1,
            sb_offset := read_float floats offset 1, sb_physical_from := read_float floats pf 0,
            sb_physical_to := read_float floats pt 1\<rparr>;
          if version \<ge> 9 then
            do { mode_from \<leftarrow> read ints; mode_to \<leftarrow> read ints; activation \<leftarrow> read ints;
                 State_Monad.return (Some (v\<lparr>sb_mode_from := mode_from, sb_mode_to := mode_to,
                   sb_activation_function_id := activation\<rparr>)) }
          else State_Monad.return (Some v) }"

subsection \<open>Decoding a scene\<close>

record scene_counts_read =
  fixture_count :: i32
  program_count :: i32
  property_count :: i32
  color_count :: i32
  palette_count :: i32
  wheel_count :: i32
  asset_count :: i32
  gobo_count :: i32
  motion_count :: i32
  shutter_count :: i32

text \<open>Counts that only some versions have; otherwise they stay zero.\<close>

definition versioned_counts :: "i32 list \<Rightarrow> bool \<Rightarrow> nat \<Rightarrow> (decoder, i32 list option) state" where
  "versioned_counts ints present n =
     (if present then
        do { ok \<leftarrow> require ints n;
             if \<not> ok then State_Monad.return None
             else do { cs \<leftarrow> read_items n (read ints); State_Monad.return (Some cs) } }
      else State_Monad.return (Some (replicate n 0)))"

definition decode_counts :: "i32 list \<Rightarrow> int \<Rightarrow> (decoder, scene_counts_read option) state" where
  "decode_counts ints version =
     do { fixture \<leftarrow> read ints; program \<leftarrow> read ints; prop \<leftarrow> read ints; color \<leftarrow> read ints;
          wheels \<leftarrow> versioned_counts ints (version \<ge> 2) 2;
          case wheels of None \<Rightarrow> State_Monad.return None | Some ws \<Rightarrow>
          do { gobos \<leftarrow> versioned_counts ints (version \<ge> 4) 2;
               case gobos of None \<Rightarrow> State_Monad.return None | Some gs \<Rightarrow>
               do { motions \<leftarrow> versioned_counts ints (version \<ge> 7) 1;
                    case motions of None \<Rightarrow> State_Monad.return None | Some ms \<Rightarrow>
                    do { shutters \<leftarrow> versioned_counts ints (version \<ge> 8) 1;
                         case shutters of None \<Rightarrow> State_Monad.return None | Some ss \<Rightarrow>
                         do { diagnostic_count \<leftarrow> versioned_counts ints True 1;
                              case diagnostic_count of None \<Rightarrow> State_Monad.return None | Some _ \<Rightarrow>
                              State_Monad.return (Some \<lparr>fixture_count = fixture, program_count = program,
                                property_count = prop, color_count = color, palette_count = ws ! 0,
                                wheel_count = ws ! 1, asset_count = gs ! 0, gobo_count = gs ! 1,
                                motion_count = ms ! 0, shutter_count = ss ! 0\<rparr>) } } } } }"

fun check_counts :: "i32 list \<Rightarrow> i32 list \<Rightarrow> (decoder, bool) state" where
  "check_counts ints [] = State_Monad.return True"
| "check_counts ints (c # cs) =
     do { ok \<leftarrow> valid_count ints c;
          if \<not> ok then State_Monad.return False else check_counts ints cs }"

text \<open>One of the ten loops; nothing happens after a jump to \<open>done\<close>.\<close>

type_synonym 'beam load_state = "decoder \<times> 'beam runtime_scene \<times> bool"

definition load ::
    "i32 list \<Rightarrow> i32 \<Rightarrow> nat \<Rightarrow> (decoder, 'r option) state
      \<Rightarrow> ('r list \<Rightarrow> 'beam runtime_scene \<Rightarrow> 'beam runtime_scene) \<Rightarrow> 'beam load_state \<Rightarrow> 'beam load_state" where
  "load ints count fixed body install st =
     (case st of (d, scene, stop) \<Rightarrow>
        if stop then st
        else let ((vs, stop), d) = run_state (read_records ints fixed (nat (sint count)) body) d
             in (d, install vs scene, stop))"

definition load_records ::
    "(real \<Rightarrow> real) \<Rightarrow> i32 list \<Rightarrow> real list \<Rightarrow> int \<Rightarrow> scene_counts_read \<Rightarrow> 'beam load_state \<Rightarrow> 'beam load_state" where
  "load_records narrow ints floats version c st =
     (let st = load ints (fixture_count c) kPackedSceneFixtureIntegers (decode_fixture ints floats)
                 (\<lambda>vs s. s\<lparr>fixtures := vs\<rparr>) st;
          st = load ints (program_count c)
                 (if version \<ge> 7 then kPackedSceneV7SourceFixedIntegers else kPackedSceneV6SourceFixedIntegers)
                 (decode_program ints floats version) (\<lambda>vs s. s\<lparr>source_programs := vs\<rparr>) st;
          st = load ints (property_count c) 6 (decode_property ints floats)
                 (\<lambda>vs s. s\<lparr>properties := vs\<rparr>) st;
          st = load ints (color_count c) 6 (decode_color_target ints floats version)
                 (\<lambda>vs s. s\<lparr>color_targets := vs\<rparr>) st;
          st = load ints (palette_count c) 4 (decode_palette narrow ints floats)
                 (\<lambda>vs s. s\<lparr>wheel_palettes := vs\<rparr>) st;
          st = load ints (wheel_count c) 9 (decode_wheel_binding narrow ints floats)
                 (\<lambda>vs s. s\<lparr>wheel_bindings := vs\<rparr>) st;
          st = load ints (asset_count c) 5 (decode_gobo_asset ints) (\<lambda>vs s. s\<lparr>gobo_assets := vs\<rparr>) st;
          st = load ints (gobo_count c) 8 (decode_gobo_binding ints) (\<lambda>vs s. s\<lparr>gobo_bindings := vs\<rparr>) st;
          st = load ints (motion_count c) kPackedSceneGoboMotionIntegers (decode_gobo_motion ints floats)
                 (\<lambda>vs s. s\<lparr>gobo_motion_bindings := vs\<rparr>) st
      in load ints (shutter_count c) (if version \<ge> 9 then 16 else 13) (decode_shutter ints floats version)
           (\<lambda>vs s. s\<lparr>shutter_bindings := vs\<rparr>) st)"

record 'beam decode_result =
  res_scene :: "'beam runtime_scene"
  res_consumed_integers :: nat
  res_valid :: bool
  res_diagnostic :: string

definition trailing_integers :: string where
  "trailing_integers =
     ''PVZ-PACKED-SCENE-TRAILING: decoder cursor did not land at the payload boundary.''"

definition unsupported_version :: string where
  "unsupported_version = ''PVZ-PACKED-SCENE-VERSION: unsupported compiled runtime scene version.''"

text \<open>The label \<open>done\<close>.\<close>

definition decode_done :: "decoder \<Rightarrow> 'beam runtime_scene \<Rightarrow> 'beam decode_result" where
  "decode_done d scene = \<lparr>res_scene = scene, res_consumed_integers = dec_cursor d,
     res_valid = dec_valid d, res_diagnostic = dec_diagnostic d\<rparr>"

definition decode_finish :: "i32 list \<Rightarrow> 'beam load_state \<Rightarrow> 'beam decode_result" where
  "decode_finish ints st =
     (case st of (d, scene, stop) \<Rightarrow>
        if \<not> stop \<and> dec_valid d \<and> dec_cursor d \<noteq> length ints
        then decode_done (dec_fail trailing_integers d) scene
        else decode_done d scene)"

definition decode_compiled_runtime_scene ::
    "(real \<Rightarrow> real) \<Rightarrow> i32 list \<Rightarrow> real list \<Rightarrow> 'beam decode_result" where
  "decode_compiled_runtime_scene narrow ints floats =
     (let (ok, d) = run_state (require ints 6) fresh_decoder
      in if \<not> ok then
           \<lparr>res_scene = blank_scene, res_consumed_integers = 0, res_valid = False,
            res_diagnostic = dec_diagnostic d\<rparr>
         else
           let (version, d) = run_state (read ints) d
           in if sint version < 1 \<or> sint version > sint kCompiledRuntimeSceneContractVersion then
                \<lparr>res_scene = blank_scene, res_consumed_integers = 0, res_valid = False,
                 res_diagnostic = unsupported_version\<rparr>
              else
                let scene = blank_scene\<lparr>contract_version := version\<rparr>;
                    (counts, d) = run_state (decode_counts ints (sint version)) d
                in case counts of
                     None \<Rightarrow> decode_done d scene
                   | Some c \<Rightarrow>
                       let (ok, d) = run_state (check_counts ints
                             [fixture_count c, program_count c, property_count c, color_count c,
                              palette_count c, wheel_count c, asset_count c, gobo_count c,
                              motion_count c, shutter_count c]) d
                       in if \<not> ok then decode_done d scene
                          else decode_finish ints
                                 (load_records narrow ints floats (sint version) c (d, scene, False)))"

end
