(* ===== verification/Codec_Roundtrip.thy ===== *)
theory Codec_Roundtrip
  imports Scene_Codec
begin

text \<open>
  Decoding what was encoded.  \<open>reads\<close> says what a reader does on a payload that starts with given
  integers; the locale \<open>record_codec\<close> is the contract between the encoder and the decoder of one kind
  of record, and is interpreted on every record of the scene.  The contract lifts to lists, to nested
  lists and to the loops over the records, and so to the whole scene.
\<close>

named_theorems reads_intros \<open>what the readers do\<close>

subsection \<open>Readers\<close>

definition reads :: "i32 list \<Rightarrow> (decoder, 'r) state \<Rightarrow> i32 list \<Rightarrow> 'r \<Rightarrow> bool" where
  "reads ints m xs r \<longleftrightarrow>
     (\<forall>(d :: decoder) ys. dec_valid d \<and> dec_cursor d \<le> length ints \<and> drop (dec_cursor d) ints = xs @ ys \<longrightarrow>
        run_state m d = (r, d\<lparr>dec_cursor := dec_cursor d + length xs\<rparr>))"

lemma readsI:
  assumes "\<And>(d :: decoder) ys. dec_valid d \<Longrightarrow> dec_cursor d \<le> length ints \<Longrightarrow> drop (dec_cursor d) ints = xs @ ys \<Longrightarrow>
      length ints = dec_cursor d + length xs + length ys \<Longrightarrow>
      run_state m d = (r, d\<lparr>dec_cursor := dec_cursor d + length xs\<rparr>)"
  shows "reads ints m xs r"
proof -
  have "length ints = dec_cursor d + length xs + length ys"
    if "dec_cursor d \<le> length ints" "drop (dec_cursor d) ints = xs @ ys" for d :: decoder and ys
    using that(1) arg_cong [OF that(2), of length] by simp
  then show ?thesis unfolding reads_def using assms by blast
qed

lemma reads_fits:
  assumes "length xs \<le> length ints \<Longrightarrow> reads ints m xs r" shows "reads ints m xs r"
proof (rule readsI)
  fix d :: decoder and ys
  assume a: "dec_valid d" "dec_cursor d \<le> length ints" "drop (dec_cursor d) ints = xs @ ys"
    "length ints = dec_cursor d + length xs + length ys"
  then have "reads ints m xs r" using assms by simp
  then show "run_state m d = (r, d\<lparr>dec_cursor := dec_cursor d + length xs\<rparr>)"
    using a(1-3) unfolding reads_def by blast
qed

lemma reads_return [reads_intros]: "r = s \<Longrightarrow> reads ints (State_Monad.return r) [] s"
  by (simp add: reads_def)

lemma reads_bind:
  assumes "reads ints m xs a" and "reads ints (k a) ys b"
  shows "reads ints (State_Monad.bind m k) (xs @ ys) b"
proof (rule readsI)
  fix d :: decoder and zs
  assume d: "dec_valid d" "dec_cursor d \<le> length ints" "drop (dec_cursor d) ints = (xs @ ys) @ zs"
    "length ints = dec_cursor d + length (xs @ ys) + length zs"
  let ?d = "d\<lparr>dec_cursor := dec_cursor d + length xs\<rparr>"
  have "run_state m d = (a, ?d)"
    using assms(1) d(1-3) unfolding reads_def by (metis append.assoc)
  moreover have "drop (dec_cursor ?d) ints = ys @ zs"
    using arg_cong [OF d(3), of "drop (length xs)"] by (simp add: add.commute)
  then have "run_state (k a) ?d = (b, ?d\<lparr>dec_cursor := dec_cursor ?d + length ys\<rparr>)"
    using assms(2) d(1,4) unfolding reads_def by simp
  ultimately show "run_state (State_Monad.bind m k) d = (b, d\<lparr>dec_cursor := dec_cursor d + length (xs @ ys)\<rparr>)"
    by (simp add: add.assoc)
qed

lemma reads_read: "reads ints (read ints) [x] x"
proof (rule readsI)
  fix d :: decoder and ys
  assume d: "dec_cursor d \<le> length ints" "drop (dec_cursor d) ints = [x] @ ys"
    "length ints = dec_cursor d + length [x] + length ys"
  have "ints ! dec_cursor d = hd (drop (dec_cursor d) ints)" using d(3) by (simp add: hd_drop_conv_nth)
  then show "run_state (read ints) d = (x, d\<lparr>dec_cursor := dec_cursor d + length [x]\<rparr>)"
    using d by (simp add: read_def)
qed

lemma reads_read_bind [reads_intros]:
  "reads ints (k x) xs r \<Longrightarrow> reads ints (State_Monad.bind (read ints) k) (x # xs) r"
  using reads_bind [OF reads_read, of ints k x xs r] by simp

lemma reads_require [reads_intros]:
  assumes "n \<le> length xs" and "reads ints (k True) xs r"
  shows "reads ints (State_Monad.bind (require ints n) k) xs r"
  using assms by (intro readsI) (simp add: require_def reads_def)

lemma reads_valid_count:
  assumes "0 \<le> sint c" and "nat (sint c) \<le> length xs" and "reads ints (k True) xs r"
  shows "reads ints (State_Monad.bind (valid_count ints c) k) xs r"
  using assms by (intro readsI) (simp add: valid_count_def reads_def)

lemma reads_append_Nil: "reads ints m xs r \<Longrightarrow> reads ints m (xs @ []) r"
  by simp

subsection \<open>Numbers on the wire\<close>

lemma sint_size_word: "length vs < 2147483648 \<Longrightarrow> sint (size_word vs) = int (length vs)"
  by (simp add: size_word_def signed_of_nat signed_take_bit_int_eq_self)

lemma run_push_float [simp]:
  "run_state (push_float narrow x) fs = (size_word fs, fs @ [narrow x])"
  by (simp add: push_float_def size_word_def)

lemma read_float_pushed [simp]:
  assumes "length fs < length floats" and "length floats < 2147483648"
  shows "read_float floats (size_word fs) d = floats ! length fs"
  using assms by (simp add: read_float_def sint_size_word)

lemma bool_word_nonzero [simp]: "(bool_word b \<noteq> 0) = b" "(bool_word b = 0) = (\<not> b)" "(bool_word b = 1) = b"
  by (simp_all add: bool_word_def)

lemma byte_through_int [simp]: "ucast (ucast (k :: u8) :: i32) = k"
  by transfer simp

subsection \<open>The contract of a record\<close>

text \<open>What a reader with the float table at hand does, for every table that extends \<open>fs\<close>.\<close>

definition reads_floats ::
    "(i32 list \<Rightarrow> real list \<Rightarrow> (decoder, 'r) state) \<Rightarrow> real list \<Rightarrow> i32 list \<Rightarrow> 'r \<Rightarrow> bool" where
  "reads_floats m fs is r \<longleftrightarrow>
     (\<forall>ints extra. length ints < 2147483648 \<longrightarrow> length (fs @ extra) < 2147483648 \<longrightarrow>
        reads ints (m ints (fs @ extra)) is r)"

lemma reads_floatsI:
  "(\<And>ints extra. length ints < 2147483648 \<Longrightarrow> length (fs @ extra) < 2147483648 \<Longrightarrow>
      reads ints (m ints (fs @ extra)) is r) \<Longrightarrow> reads_floats m fs is r"
  by (simp add: reads_floats_def)

lemma reads_floatsD:
  "reads_floats m fs is r \<Longrightarrow> length ints < 2147483648 \<Longrightarrow> length (fs @ extra) < 2147483648 \<Longrightarrow>
     reads ints (m ints (fs @ extra)) is r"
  by (simp add: reads_floats_def)

lemma reads_floats_longer: "reads_floats m fs is r \<Longrightarrow> reads_floats m (fs @ extra) is r"
  by (simp add: reads_floats_def)

lemma reads_floats_bind:
  assumes "reads_floats m fs xs a" and "reads_floats (k a) fs ys b"
  shows "reads_floats (\<lambda>ints floats. State_Monad.bind (m ints floats) (\<lambda>a. k a ints floats)) fs (xs @ ys) b"
  using assms by (auto simp: reads_floats_def intro!: reads_bind)

lemma reads_nested_mapped:
  assumes "reads_floats n fs is (Some x)" and "length ints < 2147483648"
    and "length (fs @ extra) < 2147483648" and "r = f x"
  shows "reads ints (do { nested \<leftarrow> n ints (fs @ extra); State_Monad.return (map_option f nested) }) is (Some r)"
  using reads_bind [OF reads_floatsD [OF assms(1-3)] reads_return [OF refl], of "map_option f"] assms(4)
  by simp

text \<open>Encoding a record appends floats to the table and yields integers, at least \<open>stride\<close> of them;
  reading these integers back with any table that extends the one written gives \<open>wire v\<close>.\<close>

locale record_codec =
  fixes enc :: "'r \<Rightarrow> encoder"
    and item :: "i32 list \<Rightarrow> real list \<Rightarrow> (decoder, 's) state"
    and wire :: "'r \<Rightarrow> 's"
    and stride :: nat
  assumes stride_pos: "0 < stride"
    and packs: "\<exists>is more. run_state (enc v) fs = (is, fs @ more) \<and> stride \<le> length is \<and>
      reads_floats item (fs @ more) is (wire v)"
begin

lemma packs_all:
  "\<exists>is more. run_state (encode_all enc vs) fs = (is, fs @ more) \<and> length vs * stride \<le> length is \<and>
     reads_floats (\<lambda>ints floats. read_items (length vs) (item ints floats)) (fs @ more) is (map wire vs)"
proof (induction vs arbitrary: fs)
  case Nil
  show ?case by (simp add: reads_return reads_floats_def)
next
  case (Cons v vs)
  obtain is1 more1 where one: "run_state (enc v) fs = (is1, fs @ more1)" "stride \<le> length is1"
    "reads_floats item (fs @ more1) is1 (wire v)"
    using packs by blast
  obtain is2 more2 where two: "run_state (encode_all enc vs) (fs @ more1) = (is2, (fs @ more1) @ more2)"
    "length vs * stride \<le> length is2"
    "reads_floats (\<lambda>ints floats. read_items (length vs) (item ints floats)) ((fs @ more1) @ more2) is2 (map wire vs)"
    using Cons.IH by blast
  have "reads_floats (\<lambda>ints floats. do { vs \<leftarrow> read_items (length vs) (item ints floats);
      State_Monad.return (wire v # vs) }) ((fs @ more1) @ more2) (is2 @ []) (wire v # map wire vs)"
    by (rule reads_floats_bind [OF two(3)]) (simp add: reads_floats_def reads_return)
  then have tail: "reads_floats (\<lambda>ints floats. do { vs \<leftarrow> read_items (length vs) (item ints floats);
      State_Monad.return (wire v # vs) }) ((fs @ more1) @ more2) is2 (wire v # map wire vs)" by simp
  have "reads_floats (\<lambda>ints floats. read_items (length (v # vs)) (item ints floats)) ((fs @ more1) @ more2)
      (is1 @ is2) (map wire (v # vs))"
    using reads_floats_bind [where k = "\<lambda>v ints floats. do { vs \<leftarrow> read_items (length vs) (item ints floats);
      State_Monad.return (v # vs) }", OF reads_floats_longer [OF one(3)] tail] by simp
  then show ?case using one(1,2) two(1,2) by auto
qed

lemma packs_nested:
  "\<exists>is more. run_state (encode_all enc vs) fs = (is, fs @ more) \<and>
     reads_floats (\<lambda>ints floats. read_nested ints (size_word vs) stride (item ints floats)) (fs @ more) is
       (Some (map wire vs))"
proof -
  obtain "is" more where enc: "run_state (encode_all enc vs) fs = (is, fs @ more)" "length vs * stride \<le> length is"
    and rd: "reads_floats (\<lambda>ints floats. read_items (length vs) (item ints floats)) (fs @ more) is (map wire vs)"
    using packs_all [of vs fs] by blast
  have "reads_floats (\<lambda>ints floats. read_nested ints (size_word vs) stride (item ints floats)) (fs @ more) is
       (Some (map wire vs))"
  proof (rule reads_floatsI, rule reads_fits)
    fix ints :: "i32 list" and extra
    assume len: "length ints < 2147483648" "length ((fs @ more) @ extra) < 2147483648"
      and fits: "length is \<le> length ints"
    have "length vs \<le> length vs * stride" using stride_pos by simp
    then have vs: "length vs \<le> length is" using enc(2) by linarith
    then have count: "sint (size_word vs) = int (length vs)" using fits len(1) by (intro sint_size_word) simp
    have "reads ints (do { vs \<leftarrow> read_items (length vs) (item ints ((fs @ more) @ extra));
        State_Monad.return (Some vs) }) (is @ []) (Some (map wire vs))"
      by (rule reads_bind [OF reads_floatsD [OF rd len]]) (simp add: reads_return)
    then have items: "reads ints (do { vs \<leftarrow> read_items (length vs) (item ints ((fs @ more) @ extra));
        State_Monad.return (Some vs) }) is (Some (map wire vs))" by simp
    show "reads ints (read_nested ints (size_word vs) stride (item ints ((fs @ more) @ extra))) is
        (Some (map wire vs))"
      unfolding read_nested_def count nat_int
      by (rule reads_valid_count) (use vs count enc(2) items in \<open>simp_all add: reads_require\<close>)
  qed
  with enc(1) show ?thesis by blast
qed

end

text \<open>A record of the scene: its body may jump to \<open>done\<close>, and never does on what was encoded.\<close>

locale scene_record = record_codec enc body "\<lambda>v. Some (wire v)" fixed
  for enc :: "'r \<Rightarrow> encoder"
    and body :: "i32 list \<Rightarrow> real list \<Rightarrow> (decoder, 's option) state"
    and wire :: "'r \<Rightarrow> 's"
    and fixed :: nat
begin

lemma records_read:
  "\<exists>is more. run_state (encode_all enc vs) fs = (is, fs @ more) \<and> length vs \<le> length is \<and>
     reads_floats (\<lambda>ints floats. read_records ints fixed (length vs) (body ints floats)) (fs @ more) is
       (map wire vs, False)"
proof (induction vs arbitrary: fs)
  case Nil
  show ?case by (simp add: reads_return reads_floats_def)
next
  case (Cons v vs)
  obtain is1 more1 where one: "run_state (enc v) fs = (is1, fs @ more1)" "fixed \<le> length is1"
    "reads_floats body (fs @ more1) is1 (Some (wire v))"
    using packs by blast
  obtain is2 more2 where two: "run_state (encode_all enc vs) (fs @ more1) = (is2, (fs @ more1) @ more2)"
    "length vs \<le> length is2"
    "reads_floats (\<lambda>ints floats. read_records ints fixed (length vs) (body ints floats)) ((fs @ more1) @ more2) is2
      (map wire vs, False)"
    using Cons.IH by blast
  define rest where "rest r ints floats = (case r of None \<Rightarrow> State_Monad.return ([], True)
      | Some v \<Rightarrow> do { (vs, stop) \<leftarrow> read_records ints fixed (length vs) (body ints floats);
                       State_Monad.return (v # vs, stop) })" for r ints floats
  have "reads_floats (rest (Some (wire v))) ((fs @ more1) @ more2) (is2 @ []) (map wire (v # vs), False)"
    unfolding rest_def option.case
    by (rule reads_floats_bind [OF two(3)]) (simp add: reads_floats_def reads_return)
  then have tail: "reads_floats (rest (Some (wire v))) ((fs @ more1) @ more2) is2 (map wire (v # vs), False)"
    by simp
  have "reads_floats (\<lambda>ints floats. read_records ints fixed (length (v # vs)) (body ints floats))
      ((fs @ more1) @ more2) (is1 @ is2) (map wire (v # vs), False)"
    using one(2) reads_floats_bind [where k = rest, OF reads_floats_longer [OF one(3)] tail]
    by (auto simp: reads_floats_def rest_def intro!: reads_require)
  moreover have "length (v # vs) \<le> length (is1 @ is2)" using one(2) two(2) stride_pos by simp
  ultimately show ?case using one(1) two(1) by auto
qed

end

subsection \<open>What survives the wire\<close>

definition wire_activation :: "scene_activation \<Rightarrow> scene_activation" where
  "wire_activation a = a\<lparr>ac_master_byte_count := 1, ac_source_link := []\<rparr>"

definition wire_fixture :: "(real \<Rightarrow> real) \<Rightarrow> fixture_instance \<Rightarrow> fixture_instance" where
  "wire_fixture narrow v = blank_fixture\<lparr>fi_fixture_id := fi_fixture_id v,
     fi_universe_id := fi_universe_id v, fi_start_address := fi_start_address v,
     fi_luminous_flux := narrow (fi_luminous_flux v),
     fi_beam_angle_default := narrow (fi_beam_angle_default v)\<rparr>"

definition wire_program :: "(real \<Rightarrow> real) \<Rightarrow> dmx_source_program \<Rightarrow> dmx_source_program" where
  "wire_program narrow v = blank_program\<lparr>pr_program_id := pr_program_id v, pr_semantic := pr_semantic v,
     pr_sources := pr_sources v, pr_dmx_from := pr_dmx_from v, pr_dmx_to := pr_dmx_to v,
     pr_physical_from := narrow (pr_physical_from v), pr_physical_to := narrow (pr_physical_to v),
     pr_activation := wire_activation (pr_activation v)\<rparr>"

definition wire_contributor :: "(real \<Rightarrow> real) \<Rightarrow> property_contributor \<Rightarrow> property_contributor" where
  "wire_contributor narrow c = c\<lparr>pc_weight := narrow (pc_weight c)\<rparr>"

definition wire_property :: "(real \<Rightarrow> real) \<Rightarrow> component_property \<Rightarrow> component_property" where
  "wire_property narrow v = v\<lparr>cp_contributors := map (wire_contributor narrow) (cp_contributors v),
     cp_geometry_id := 0, cp_geometry_name := []\<rparr>"

definition wire_color_input :: "(real \<Rightarrow> real) \<Rightarrow> color_input_binding \<Rightarrow> color_input_binding" where
  "wire_color_input narrow x = x\<lparr>ci_default_value := narrow (ci_default_value x)\<rparr>"

definition wire_color_target :: "(real \<Rightarrow> real) \<Rightarrow> color_target_program \<Rightarrow> color_target_program" where
  "wire_color_target narrow v = v\<lparr>ct_inputs := map (wire_color_input narrow) (ct_inputs v),
     ct_geometry_name := [], ct_geometry_key := []\<rparr>"

definition wire_slot :: "(real \<Rightarrow> real) \<Rightarrow> wheel_palette_slot \<Rightarrow> wheel_palette_slot" where
  "wire_slot narrow s = blank_palette_slot\<lparr>ps_slot_index := ps_slot_index s,
     ps_srgb_red := narrow (narrow (ps_srgb_red s)), ps_srgb_green := narrow (narrow (ps_srgb_green s)),
     ps_srgb_blue := narrow (narrow (ps_srgb_blue s)), ps_linear_red := narrow (narrow (ps_linear_red s)),
     ps_linear_green := narrow (narrow (ps_linear_green s)), ps_linear_blue := narrow (narrow (ps_linear_blue s)),
     ps_gain := narrow (narrow (ps_gain s)), ps_identity := ps_identity s\<rparr>"

definition wire_palette :: "(real \<Rightarrow> real) \<Rightarrow> wheel_palette \<Rightarrow> wheel_palette" where
  "wire_palette narrow v = v\<lparr>wp_name := [],
     wp_placement_offset_degrees := narrow (narrow (wp_placement_offset_degrees v)),
     wp_slots := map (wire_slot narrow) (wp_slots v)\<rparr>"

definition wire_channel_set :: "wheel_channel_set \<Rightarrow> wheel_channel_set" where
  "wire_channel_set s = s\<lparr>cs_name := [], cs_physical_from := 0, cs_physical_to := 1\<rparr>"

definition wire_wheel_binding :: "(real \<Rightarrow> real) \<Rightarrow> wheel_target_binding \<Rightarrow> wheel_target_binding" where
  "wire_wheel_binding narrow v = v\<lparr>
     wb_placement_offset_degrees := narrow (narrow (wb_placement_offset_degrees v)),
     wb_channel_sets := map wire_channel_set (wb_channel_sets v)\<rparr>"

definition wire_gobo_asset :: "gobo_asset \<Rightarrow> gobo_asset" where
  "wire_gobo_asset v = v\<lparr>ga_source_media_reference := [], ga_extracted_media_path := [],
     ga_extraction_provenance := [], ga_source_width := 0, ga_source_height := 0\<rparr>"

definition wire_gobo_binding :: "gobo_selection_binding \<Rightarrow> gobo_selection_binding" where
  "wire_gobo_binding v = v\<lparr>gs_channel_sets := map wire_channel_set (gs_channel_sets v)\<rparr>"

definition wire_gobo_motion :: "(real \<Rightarrow> real) \<Rightarrow> gobo_motion_binding \<Rightarrow> gobo_motion_binding" where
  "wire_gobo_motion narrow v = v\<lparr>gm_physical_from := narrow (gm_physical_from v),
     gm_physical_to := narrow (gm_physical_to v),
     gm_physical_unit := (if gm_physical_unit v = ''Angle'' then ''Angle'' else ''None''),
     gm_placement_offset := blank_sub_physical_unit, gm_amplitude := blank_sub_physical_unit,
     gm_channel_sets := [], gm_mode_master := blank_activation\<rparr>"

definition wire_shutter :: "(real \<Rightarrow> real) \<Rightarrow> shutter_binding \<Rightarrow> shutter_binding" where
  "wire_shutter narrow v = v\<lparr>sb_duration := narrow (sb_duration v), sb_duty := narrow (sb_duty v),
     sb_offset := narrow (sb_offset v), sb_physical_from := narrow (sb_physical_from v),
     sb_physical_to := narrow (sb_physical_to v), sb_channel_set_name := [], sb_gdtf_break := 1,
     sb_mode_function_name := []\<rparr>"

text \<open>The members of type \<open>float\<close> (placement offsets and palette colours) pass through \<open>double\<close> and are
  narrowed on both ways.  A whole scene: compile-time counters, names, resources and diagnostics stay behind.\<close>

definition wire_scene :: "(real \<Rightarrow> real) \<Rightarrow> 'beam runtime_scene \<Rightarrow> 'beam runtime_scene" where
  "wire_scene narrow scene = blank_scene\<lparr>
     fixtures := map (wire_fixture narrow) (fixtures scene),
     source_programs := map (wire_program narrow) (source_programs scene),
     properties := map (wire_property narrow) (properties scene),
     color_targets := map (wire_color_target narrow) (color_targets scene),
     wheel_palettes := map (wire_palette narrow) (wheel_palettes scene),
     wheel_bindings := map (wire_wheel_binding narrow) (wheel_bindings scene),
     gobo_assets := map wire_gobo_asset (gobo_assets scene),
     gobo_bindings := map wire_gobo_binding (gobo_bindings scene),
     gobo_motion_bindings := map (wire_gobo_motion narrow) (gobo_motion_bindings scene),
     shutter_bindings := map (wire_shutter narrow) (shutter_bindings scene)\<rparr>"

subsection \<open>Every record keeps the contract\<close>

interpretation source_codec: record_codec encode_source "\<lambda>ints floats. decode_source ints" "\<lambda>s. s" 3
  by unfold_locales (auto simp: encode_source_def decode_source_def intro!: reads_intros reads_floatsI)

interpretation contributor_codec:
  record_codec "encode_contributor narrow" decode_contributor "wire_contributor narrow" 3 for narrow
  by unfold_locales
    (auto simp: encode_contributor_def decode_contributor_def wire_contributor_def nth_append intro!: reads_intros reads_floatsI)

interpretation color_input_codec:
  record_codec "encode_color_input narrow" "\<lambda>ints floats. decode_color_input ints floats 9"
    "wire_color_input narrow" 6 for narrow
  by unfold_locales
    (auto simp: encode_color_input_def decode_color_input_def wire_color_input_def blank_color_input_def
      nth_append Let_def intro!: reads_intros reads_floatsI)

interpretation channel_set_codec:
  record_codec encode_channel_set "\<lambda>ints floats. decode_channel_set ints" wire_channel_set 3
  by unfold_locales
    (auto simp: encode_channel_set_def decode_channel_set_def wire_channel_set_def blank_channel_set_def
      intro!: reads_intros reads_floatsI)

interpretation fixture_codec:
  scene_record "encode_fixture narrow" decode_fixture "wire_fixture narrow" kPackedSceneFixtureIntegers for narrow
  by unfold_locales
    (auto simp: encode_fixture_def decode_fixture_def wire_fixture_def kPackedSceneFixtureIntegers_def
      nth_append intro!: reads_intros reads_floatsI)

interpretation gobo_asset_codec:
  scene_record encode_gobo_asset "\<lambda>ints floats. decode_gobo_asset ints" wire_gobo_asset 5
  by unfold_locales
    (auto simp: encode_gobo_asset_def decode_gobo_asset_def wire_gobo_asset_def blank_gobo_asset_def
      intro!: reads_intros reads_floatsI)

interpretation gobo_motion_codec:
  scene_record "encode_gobo_motion narrow" decode_gobo_motion "wire_gobo_motion narrow"
    kPackedSceneGoboMotionIntegers for narrow
  by unfold_locales
    (auto simp: encode_gobo_motion_def decode_gobo_motion_def wire_gobo_motion_def blank_gobo_motion_def
      kPackedSceneGoboMotionIntegers_def nth_append intro!: reads_intros reads_floatsI)

interpretation shutter_codec:
  scene_record "encode_shutter narrow" "\<lambda>ints floats. decode_shutter ints floats 9" "wire_shutter narrow" 16
  for narrow
  by unfold_locales
    (auto simp: encode_shutter_def decode_shutter_def wire_shutter_def blank_shutter_def nth_append Let_def
      intro!: reads_intros reads_floatsI)

interpretation gobo_binding_codec:
  scene_record "encode_gobo_binding" "\<lambda>ints floats. decode_gobo_binding ints" "wire_gobo_binding" 8
proof unfold_locales
  fix v :: gobo_selection_binding and fs
  obtain "is" more where enc: "run_state (encode_all encode_channel_set (gs_channel_sets v)) (fs) = (is, (fs) @ more)"
    and rd: "reads_floats (\<lambda>ints floats. read_nested ints (size_word (gs_channel_sets v)) 3
        (decode_channel_set ints)) ((fs) @ more) is (Some (map wire_channel_set (gs_channel_sets v)))"
    using channel_set_codec.packs_nested [of "gs_channel_sets v" "fs"] by blast
  show "\<exists>is more. run_state (encode_gobo_binding v) fs = (is, fs @ more) \<and> 8 \<le> length is \<and>
      reads_floats (\<lambda>ints floats. decode_gobo_binding ints) (fs @ more) is (Some (wire_gobo_binding v))"
    using enc by (auto simp: encode_gobo_binding_def decode_gobo_binding_def wire_gobo_binding_def nth_append Let_def
      intro!: reads_intros reads_floatsI reads_nested_mapped [OF rd, simplified])
qed simp

interpretation wheel_binding_codec:
  scene_record "encode_wheel_binding narrow" "decode_wheel_binding narrow" "wire_wheel_binding narrow" 9 for narrow
proof unfold_locales
  fix v :: wheel_target_binding and fs
  obtain "is" more where enc: "run_state (encode_all encode_channel_set (wb_channel_sets v)) (fs @ [narrow (wb_placement_offset_degrees v)]) = (is, (fs @ [narrow (wb_placement_offset_degrees v)]) @ more)"
    and rd: "reads_floats (\<lambda>ints floats. read_nested ints (size_word (wb_channel_sets v)) 3
        (decode_channel_set ints)) ((fs @ [narrow (wb_placement_offset_degrees v)]) @ more) is (Some (map wire_channel_set (wb_channel_sets v)))"
    using channel_set_codec.packs_nested [of "wb_channel_sets v" "fs @ [narrow (wb_placement_offset_degrees v)]"] by blast
  show "\<exists>is more. run_state (encode_wheel_binding narrow v) fs = (is, fs @ more) \<and> 9 \<le> length is \<and>
      reads_floats (decode_wheel_binding narrow) (fs @ more) is (Some (wire_wheel_binding narrow v))"
    using enc by (auto simp: encode_wheel_binding_def decode_wheel_binding_def wire_wheel_binding_def nth_append Let_def
      intro!: reads_intros reads_floatsI reads_nested_mapped [OF rd, simplified])
qed simp

interpretation slot_codec:
  record_codec "encode_slot narrow" "decode_slot narrow" "wire_slot narrow" 9 for narrow
  by unfold_locales
    (auto simp: encode_slot_def decode_slot_def wire_slot_def nth_append intro!: reads_intros reads_floatsI)

interpretation palette_codec:
  scene_record "encode_palette narrow" "decode_palette narrow" "wire_palette narrow" 4 for narrow
proof unfold_locales
  fix v :: wheel_palette and fs
  obtain "is" more where enc: "run_state (encode_all (encode_slot narrow) (wp_slots v)) (fs @ [narrow (wp_placement_offset_degrees v)]) = (is, (fs @ [narrow (wp_placement_offset_degrees v)]) @ more)"
    and rd: "reads_floats (\<lambda>ints floats. read_nested ints (size_word (wp_slots v)) 9
        (decode_slot narrow ints floats)) ((fs @ [narrow (wp_placement_offset_degrees v)]) @ more) is (Some (map (wire_slot narrow) (wp_slots v)))"
    using slot_codec.packs_nested [of narrow "wp_slots v" "fs @ [narrow (wp_placement_offset_degrees v)]"] by blast
  show "\<exists>is more. run_state (encode_palette narrow v) fs = (is, fs @ more) \<and> 4 \<le> length is \<and>
      reads_floats (decode_palette narrow) (fs @ more) is (Some (wire_palette narrow v))"
    using enc by (auto simp: encode_palette_def decode_palette_def wire_palette_def blank_palette_def nth_append Let_def
      intro!: reads_intros reads_floatsI reads_nested_mapped [OF rd, simplified])
qed simp

interpretation color_target_codec:
  scene_record "encode_color_target narrow" "\<lambda>ints floats. decode_color_target ints floats 9" "wire_color_target narrow" 6 for narrow
proof unfold_locales
  fix v :: color_target_program and fs
  obtain "is" more where enc: "run_state (encode_all (encode_color_input narrow) (ct_inputs v)) (fs) = (is, (fs) @ more)"
    and rd: "reads_floats (\<lambda>ints floats. read_nested ints (size_word (ct_inputs v)) 6
        (decode_color_input ints floats 9)) ((fs) @ more) is (Some (map (wire_color_input narrow) (ct_inputs v)))"
    using color_input_codec.packs_nested [of narrow "ct_inputs v" "fs"] by blast
  show "\<exists>is more. run_state (encode_color_target narrow v) fs = (is, fs @ more) \<and> 6 \<le> length is \<and>
      reads_floats (\<lambda>ints floats. decode_color_target ints floats 9) (fs @ more) is (Some (wire_color_target narrow v))"
    using enc by (auto simp: encode_color_target_def decode_color_target_def wire_color_target_def blank_color_target_def nth_append Let_def
      intro!: reads_intros reads_floatsI reads_nested_mapped [OF rd, simplified])
qed simp

interpretation property_codec:
  scene_record "encode_property narrow" "decode_property" "wire_property narrow" 6 for narrow
proof unfold_locales
  fix v :: component_property and fs
  obtain "is" more where enc: "run_state (encode_all (encode_contributor narrow) (cp_contributors v)) (fs) = (is, (fs) @ more)"
    and rd: "reads_floats (\<lambda>ints floats. read_nested ints (size_word (cp_contributors v)) 3
        (decode_contributor ints floats)) ((fs) @ more) is (Some (map (wire_contributor narrow) (cp_contributors v)))"
    using contributor_codec.packs_nested [of narrow "cp_contributors v" "fs"] by blast
  show "\<exists>is more. run_state (encode_property narrow v) fs = (is, fs @ more) \<and> 6 \<le> length is \<and>
      reads_floats (decode_property) (fs @ more) is (Some (wire_property narrow v))"
    using enc by (auto simp: encode_property_def decode_property_def wire_property_def blank_property_def nth_append Let_def
      intro!: reads_intros reads_floatsI reads_nested_mapped [OF rd, simplified])
qed simp

interpretation program_codec:
  scene_record "encode_program narrow" "\<lambda>ints floats. decode_program ints floats 9" "wire_program narrow" kPackedSceneV7SourceFixedIntegers for narrow
proof unfold_locales
  fix v :: dmx_source_program and fs
  obtain "is" more where enc: "run_state (encode_all encode_source (pr_sources v)) (fs @ [narrow (pr_physical_from v), narrow (pr_physical_to v)]) = (is, (fs @ [narrow (pr_physical_from v), narrow (pr_physical_to v)]) @ more)"
    and rd: "reads_floats (\<lambda>ints floats. read_nested ints (size_word (pr_sources v)) 3
        (decode_source ints)) ((fs @ [narrow (pr_physical_from v), narrow (pr_physical_to v)]) @ more) is (Some (map (\<lambda>s. s) (pr_sources v)))"
    using source_codec.packs_nested [of "pr_sources v" "fs @ [narrow (pr_physical_from v), narrow (pr_physical_to v)]"] by blast
  show "\<exists>is more. run_state (encode_program narrow v) fs = (is, fs @ more) \<and> kPackedSceneV7SourceFixedIntegers \<le> length is \<and>
      reads_floats (\<lambda>ints floats. decode_program ints floats 9) (fs @ more) is (Some (wire_program narrow v))"
    using enc by (auto simp: encode_program_def decode_program_def wire_program_def decode_activation_def wire_activation_def blank_activation_def
      kPackedSceneV7SourceFixedIntegers_def nth_append Let_def
      intro!: reads_intros reads_floatsI reads_nested_mapped [OF rd, simplified])
qed (simp add: kPackedSceneV7SourceFixedIntegers_def)

subsection \<open>The whole scene\<close>

definition ready :: "nat \<Rightarrow> decoder" where
  "ready n = \<lparr>dec_cursor = n, dec_valid = True, dec_diagnostic = []\<rparr>"

lemma reads_ready:
  assumes "reads ints m xs r" and "n \<le> length ints" and "drop n ints = xs @ ys"
  shows "run_state m (ready n) = (r, ready (n + length xs))"
  using assms by (simp add: reads_def ready_def)

lemma load_encoded:
  assumes rd: "reads_floats (\<lambda>ints floats. read_records ints fixed (length vs) (body ints floats)) fs is (ws, False)"
    and "length vs \<le> length is" and "length ints < 2147483648"
    and "length floats < 2147483648" and "floats = fs @ extra"
    and "ints = pre @ is @ ys" and "n = length pre"
  shows "load ints (size_word vs) fixed (body ints floats) install (ready n, s, False)
           = (ready (n + length is), install ws s, False)"
proof -
  have "length is \<le> length ints" using assms(6) by simp
  then have "nat (sint (size_word vs)) = length vs" using assms(2,3) by (simp add: sint_size_word)
  moreover have "run_state (read_records ints fixed (length vs) (body ints floats)) (ready n)
      = ((ws, False), ready (n + length is))"
    using reads_ready [OF reads_floatsD [OF rd assms(3), of extra]] assms by simp
  ultimately show ?thesis by (simp add: load_def)
qed

lemma reads_versioned_counts:
  assumes "present" and "n = length xs" and "reads ints (k (Some xs)) ys r"
  shows "reads ints (State_Monad.bind (versioned_counts ints present n) k) (xs @ ys) r"
proof -
  have "reads ints (read_items (length xs) (read ints)) xs xs"
    by (induction xs) (auto intro!: reads_intros reads_bind [where ys = "[]", simplified])
  then have "reads ints (do { cs \<leftarrow> read_items n (read ints); State_Monad.return (Some cs) }) xs (Some xs)"
    using reads_bind [where k = "\<lambda>cs. State_Monad.return (Some cs)", OF _ reads_return [OF refl],
        of ints "read_items n (read ints)" xs xs] assms(2) by simp
  then have "reads ints (versioned_counts ints present n) xs (Some xs)"
    using assms(1,2) by (simp add: versioned_counts_def reads_require)
  then show ?thesis using assms(3) by (rule reads_bind)
qed

lemma reads_versioned_pair [reads_intros]:
  "reads ints (k (Some [a, b])) xs r \<Longrightarrow>
     reads ints (State_Monad.bind (versioned_counts ints True 2) k) (a # b # xs) r"
  using reads_versioned_counts [of True 2 "[a, b]"] by simp

lemma reads_versioned_single [reads_intros]:
  "reads ints (k (Some [a])) xs r \<Longrightarrow>
     reads ints (State_Monad.bind (versioned_counts ints True (Suc 0)) k) (a # xs) r"
  using reads_versioned_counts [of True "Suc 0" "[a]"] by simp

lemma check_counts_all:
  assumes "\<forall>c\<in>set cs. 0 \<le> sint c \<and> nat (sint c) \<le> length ints"
  shows "run_state (check_counts ints cs) d = (True, d)"
  using assms by (induction cs) (simp_all add: valid_count_def)

text \<open>A step of the decoder restores records from integers and a table of floats: whatever surrounds
  them, it gets past the integers, and the scene has the records installed.\<close>

definition restores ::
    "(i32 list \<Rightarrow> real list \<Rightarrow> 'beam load_state \<Rightarrow> 'beam load_state) \<Rightarrow> ('beam runtime_scene \<Rightarrow> 'beam runtime_scene)
      \<Rightarrow> i32 list \<Rightarrow> real list \<Rightarrow> bool" where
  "restores step f is fs \<longleftrightarrow>
     (\<forall>pre ys extra s. length (pre @ is @ ys) < 2147483648 \<and> length (fs @ extra) < 2147483648 \<longrightarrow>
        step (pre @ is @ ys) (fs @ extra) (ready (length pre), s, False) = (ready (length (pre @ is)), f s, False))"

lemma restores_seq:
  assumes "restores step f is fs" and "restores step' f' is' (fs @ added)"
  shows "restores (\<lambda>ints floats st. step' ints floats (step ints floats st)) (\<lambda>s. f' (f s)) (is @ is') (fs @ added)"
  unfolding restores_def
proof (intro allI impI)
  fix pre ys extra s
  assume len: "length (pre @ (is @ is') @ ys) < 2147483648 \<and> length ((fs @ added) @ extra) < 2147483648"
  have "step (pre @ is @ is' @ ys) (fs @ added @ extra) (ready (length pre), s, False)
      = (ready (length (pre @ is)), f s, False)"
    using assms(1) [unfolded restores_def, rule_format, of pre "is' @ ys" "added @ extra" s] len by simp
  moreover have "step' ((pre @ is) @ is' @ ys) ((fs @ added) @ extra) (ready (length (pre @ is)), f s, False)
      = (ready (length ((pre @ is) @ is')), f' (f s), False)"
    using assms(2) [unfolded restores_def, rule_format, of "pre @ is" ys extra "f s"] len by simp
  ultimately show "step' (pre @ (is @ is') @ ys) ((fs @ added) @ extra)
      (step (pre @ (is @ is') @ ys) ((fs @ added) @ extra) (ready (length pre), s, False))
    = (ready (length (pre @ is @ is')), f' (f s), False)"
    by simp
qed

text \<open>A part of the encoder carries what a step restores; the lists it counts are no longer than its
  integers.\<close>

definition carries ::
    "nat list \<Rightarrow> encoder \<Rightarrow> (i32 list \<Rightarrow> real list \<Rightarrow> 'beam load_state \<Rightarrow> 'beam load_state)
      \<Rightarrow> ('beam runtime_scene \<Rightarrow> 'beam runtime_scene) \<Rightarrow> bool" where
  "carries ns enc step f \<longleftrightarrow>
     (\<forall>fs. \<exists>is more. run_state enc fs = (is, fs @ more) \<and> (\<forall>n\<in>set ns. n \<le> length is) \<and>
        restores step f is (fs @ more))"

lemma carries_seq:
  assumes "carries ns enc step f" and "carries ns' enc' step' f'"
  shows "carries (ns @ ns') (do { i \<leftarrow> enc; i' \<leftarrow> enc'; State_Monad.return (i @ i') })
    (\<lambda>ints floats st. step' ints floats (step ints floats st)) (\<lambda>s. f' (f s))"
  unfolding carries_def
proof
  fix fs
  obtain is1 more1 where one: "run_state enc fs = (is1, fs @ more1)" "\<forall>n\<in>set ns. n \<le> length is1"
    "restores step f is1 (fs @ more1)"
    using assms(1) unfolding carries_def by blast
  obtain is2 more2 where two: "run_state enc' (fs @ more1) = (is2, (fs @ more1) @ more2)" "\<forall>n\<in>set ns'. n \<le> length is2"
    "restores step' f' is2 ((fs @ more1) @ more2)"
    using assms(2) unfolding carries_def by blast
  have "run_state (do { i \<leftarrow> enc; i' \<leftarrow> enc'; State_Monad.return (i @ i') }) fs = (is1 @ is2, fs @ more1 @ more2)"
    using one(1) two(1) by simp
  moreover have "\<forall>n\<in>set (ns @ ns'). n \<le> length (is1 @ is2)" using one(2) two(2) by auto
  moreover have "restores (\<lambda>ints floats st. step' ints floats (step ints floats st)) (\<lambda>s. f' (f s)) (is1 @ is2) (fs @ more1 @ more2)"
    using restores_seq [OF one(3) two(3)] by simp
  ultimately show "\<exists>is more. run_state (do { i \<leftarrow> enc; i' \<leftarrow> enc'; State_Monad.return (i @ i') }) fs = (is, fs @ more) \<and>
      (\<forall>n\<in>set (ns @ ns'). n \<le> length is) \<and>
      restores (\<lambda>ints floats st. step' ints floats (step ints floats st)) (\<lambda>s. f' (f s)) is (fs @ more)"
    by blast
qed

context scene_record begin

lemma carried:
  "carries [length vs] (encode_all enc vs)
     (\<lambda>ints floats. load ints (size_word vs) fixed (body ints floats) install) (install (map wire vs))"
  unfolding carries_def
proof
  fix fs
  obtain "is" more where enc: "run_state (encode_all enc vs) fs = (is, fs @ more)" "length vs \<le> length is"
    and rd: "reads_floats (\<lambda>ints floats. read_records ints fixed (length vs) (body ints floats)) (fs @ more) is
      (map wire vs, False)"
    using records_read by blast
  have "restores (\<lambda>ints floats. load ints (size_word vs) fixed (body ints floats) install) (install (map wire vs)) is (fs @ more)"
    unfolding restores_def using load_encoded [OF rd enc(2) _ _ refl refl refl] by auto
  then show "\<exists>is more. run_state (encode_all enc vs) fs = (is, fs @ more) \<and> (\<forall>n\<in>set [length vs]. n \<le> length is) \<and>
      restores (\<lambda>ints floats. load ints (size_word vs) fixed (body ints floats) install) (install (map wire vs)) is (fs @ more)"
    using enc by auto
qed

end

definition counts_of :: "'beam runtime_scene \<Rightarrow> scene_counts_read" where
  "counts_of scene = \<lparr>fixture_count = size_word (fixtures scene),
    program_count = size_word (source_programs scene), property_count = size_word (properties scene),
    color_count = size_word (color_targets scene), palette_count = size_word (wheel_palettes scene),
    wheel_count = size_word (wheel_bindings scene), asset_count = size_word (gobo_assets scene),
    gobo_count = size_word (gobo_bindings scene), motion_count = size_word (gobo_motion_bindings scene),
    shutter_count = size_word (shutter_bindings scene)\<rparr>"

definition record_lengths :: "'beam runtime_scene \<Rightarrow> nat list" where
  "record_lengths scene = [length (fixtures scene), length (source_programs scene), length (properties scene),
     length (color_targets scene), length (wheel_palettes scene), length (wheel_bindings scene),
     length (gobo_assets scene), length (gobo_bindings scene), length (gobo_motion_bindings scene),
     length (shutter_bindings scene)]"

definition install_records ::
    "(real \<Rightarrow> real) \<Rightarrow> 'beam runtime_scene \<Rightarrow> 'beam runtime_scene \<Rightarrow> 'beam runtime_scene" where
  "install_records narrow scene s = s\<lparr>fixtures := map (wire_fixture narrow) (fixtures scene),
     source_programs := map (wire_program narrow) (source_programs scene),
     properties := map (wire_property narrow) (properties scene),
     color_targets := map (wire_color_target narrow) (color_targets scene),
     wheel_palettes := map (wire_palette narrow) (wheel_palettes scene),
     wheel_bindings := map (wire_wheel_binding narrow) (wheel_bindings scene),
     gobo_assets := map wire_gobo_asset (gobo_assets scene),
     gobo_bindings := map wire_gobo_binding (gobo_bindings scene),
     gobo_motion_bindings := map (wire_gobo_motion narrow) (gobo_motion_bindings scene),
     shutter_bindings := map (wire_shutter narrow) (shutter_bindings scene)\<rparr>"

lemma carries_cong:
  assumes "carries ns enc step f" and "\<And>fs. run_state enc' fs = run_state enc fs"
    and "step' = step" and "f' = f" and "ns' = ns"
  shows "carries ns' enc' step' f'"
  using assms by (simp add: carries_def)

lemma records_carried:
  "carries (record_lengths scene) (encode_records narrow scene)
     (\<lambda>ints floats. load_records narrow ints floats 9 (counts_of scene)) (install_records narrow scene)"
  by (rule carries_cong, rule carries_seq [OF fixture_codec.carried [of "fixtures scene" narrow "\<lambda>vs s. s\<lparr>fixtures := vs\<rparr>"]
      carries_seq [OF program_codec.carried [of "source_programs scene" narrow "\<lambda>vs s. s\<lparr>source_programs := vs\<rparr>"]
      carries_seq [OF property_codec.carried [of "properties scene" narrow "\<lambda>vs s. s\<lparr>properties := vs\<rparr>"]
      carries_seq [OF color_target_codec.carried [of "color_targets scene" narrow "\<lambda>vs s. s\<lparr>color_targets := vs\<rparr>"]
      carries_seq [OF palette_codec.carried [of "wheel_palettes scene" narrow "\<lambda>vs s. s\<lparr>wheel_palettes := vs\<rparr>"]
      carries_seq [OF wheel_binding_codec.carried [of "wheel_bindings scene" narrow "\<lambda>vs s. s\<lparr>wheel_bindings := vs\<rparr>"]
      carries_seq [OF gobo_asset_codec.carried [of "gobo_assets scene" "\<lambda>vs s. s\<lparr>gobo_assets := vs\<rparr>"]
      carries_seq [OF gobo_binding_codec.carried [of "gobo_bindings scene" "\<lambda>vs s. s\<lparr>gobo_bindings := vs\<rparr>"]
      carries_seq [OF gobo_motion_codec.carried [of "gobo_motion_bindings scene" narrow "\<lambda>vs s. s\<lparr>gobo_motion_bindings := vs\<rparr>"]
      shutter_codec.carried [of "shutter_bindings scene" narrow "\<lambda>vs s. s\<lparr>shutter_bindings := vs\<rparr>"]]]]]]]]]])
    (simp_all add: record_lengths_def encode_records_def load_records_def counts_of_def install_records_def
    Let_def fun_eq_iff case_prod_beta)

text \<open>C18: Decoding an encoded scene of the current version gives back every record the wire carries,
  in order: the scene with its floats narrowed and its setup-only members at their defaults.  The whole
  payload is consumed and no diagnostic is left, provided the payload has fewer than $2^{31}$
  integers and floats.\<close>

theorem decode_encode_scene:
  assumes "contract_version scene = kCompiledRuntimeSceneContractVersion"
    and "length (packed_integers (encode_compiled_runtime_scene narrow scene)) < 2147483648"
    and "length (packed_floats (encode_compiled_runtime_scene narrow scene)) < 2147483648"
  shows "decode_compiled_runtime_scene narrow (packed_integers (encode_compiled_runtime_scene narrow scene))
      (packed_floats (encode_compiled_runtime_scene narrow scene)) =
    \<lparr>res_scene = wire_scene narrow scene,
     res_consumed_integers = length (packed_integers (encode_compiled_runtime_scene narrow scene)),
     res_valid = True, res_diagnostic = []\<rparr>"
proof -
  obtain "is" floats where recs: "run_state (encode_records narrow scene) [] = (is, floats)"
    and counted: "\<forall>n\<in>set (record_lengths scene). n \<le> length is"
    and restored: "restores (\<lambda>ints floats. load_records narrow ints floats 9 (counts_of scene))
      (install_records narrow scene) is floats"
    using records_carried [of scene narrow] by (fastforce simp: carries_def)
  define ints where "ints = scene_header scene @ is"
  have packed: "encode_compiled_runtime_scene narrow scene = \<lparr>packed_integers = ints, packed_floats = floats\<rparr>"
    by (simp add: encode_compiled_runtime_scene_def recs ints_def)
  have len: "length ints < 2147483648" "length floats < 2147483648" using assms(2,3) by (simp_all add: packed)
  have version: "sint (contract_version scene) = 9"
    by (simp add: assms(1) kCompiledRuntimeSceneContractVersion_def)
  have space: "run_state (require ints 6) fresh_decoder = (True, ready 0)"
    by (simp add: require_def fresh_decoder_def ready_def ints_def scene_header_def)
  have first: "run_state (read ints) (ready 0) = (contract_version scene, ready 1)"
    by (simp add: read_def ready_def ints_def scene_header_def)
  have "reads ints (decode_counts ints 9) (tl (scene_header scene)) (Some (counts_of scene))"
    unfolding decode_counts_def scene_header_def counts_of_def list.sel by (auto intro!: reads_intros)
  then have "run_state (decode_counts ints 9) (ready 1) = (Some (counts_of scene), ready (1 + length (tl (scene_header scene))))"
    by (rule reads_ready) (simp_all add: ints_def scene_header_def)
  moreover have "1 + length (tl (scene_header scene)) = length (scene_header scene)" by (simp add: scene_header_def)
  ultimately have header: "run_state (decode_counts ints 9) (ready 1) = (Some (counts_of scene), ready (length (scene_header scene)))"
    by (simp only:)
  have checked: "run_state (check_counts ints [fixture_count (counts_of scene), program_count (counts_of scene),
      property_count (counts_of scene), color_count (counts_of scene), palette_count (counts_of scene),
      wheel_count (counts_of scene), asset_count (counts_of scene), gobo_count (counts_of scene),
      motion_count (counts_of scene), shutter_count (counts_of scene)]) (ready (length (scene_header scene)))
    = (True, ready (length (scene_header scene)))"
    by (rule check_counts_all)
      (use len(1) counted in \<open>simp add: counts_of_def record_lengths_def ints_def scene_header_def sint_size_word\<close>)
  have "load_records narrow ints floats 9 (counts_of scene)
      (ready (length (scene_header scene)), blank_scene\<lparr>contract_version := contract_version scene\<rparr>, False)
    = (ready (length ints), install_records narrow scene (blank_scene\<lparr>contract_version := contract_version scene\<rparr>), False)"
    using restored [unfolded restores_def, rule_format, of "scene_header scene" "[]" "[]"] len by (simp add: ints_def)
  then have loaded: "load_records narrow ints floats 9 (counts_of scene)
      (ready (length (scene_header scene)), blank_scene\<lparr>contract_version := contract_version scene\<rparr>, False)
    = (ready (length ints), wire_scene narrow scene, False)"
    by (simp add: install_records_def wire_scene_def blank_scene_def assms(1))
  show ?thesis
    unfolding packed packed_scene.simps decode_compiled_runtime_scene_def space first header Let_def split_conv version
      kCompiledRuntimeSceneContractVersion_def
    by (simp only: header checked loaded option.case split_conv if_False if_True not_True_eq_False HOL.simp_thms)
      (simp add: decode_finish_def decode_done_def ready_def)
qed

text \<open>A scene with one fixture and one two-byte dimmer program.\<close>

definition example_scene :: "unit runtime_scene" where
  "example_scene = blank_scene\<lparr>
     fixtures := [blank_fixture\<lparr>fi_fixture_id := 7, fi_universe_id := 1, fi_start_address := 1\<rparr>],
     source_programs := [blank_program\<lparr>pr_program_id := 3, pr_semantic := 3,
       pr_sources := [\<lparr>bs_universe_id = 1, bs_address = 0, bs_byte_order = 0\<rparr>,
                      \<lparr>bs_universe_id = 1, bs_address = 1, bs_byte_order = 1\<rparr>]\<rparr>]\<rparr>"

text \<open>Rounding to sixteen binary places stands for the narrowing to \<open>float\<close>.\<close>

definition round16 :: "real \<Rightarrow> real" where
  "round16 x = real_of_int (round (x * 65536)) / 65536"

theorem decode_encode_scene_witness:
  "res_scene (decode_compiled_runtime_scene round16
      (packed_integers (encode_compiled_runtime_scene round16 example_scene))
      (packed_floats (encode_compiled_runtime_scene round16 example_scene))) = wire_scene round16 example_scene"
proof -
  have "contract_version example_scene = kCompiledRuntimeSceneContractVersion"
    by (simp add: example_scene_def blank_scene_def)
  moreover have "length (packed_integers (encode_compiled_runtime_scene round16 example_scene)) < 2147483648"
    "length (packed_floats (encode_compiled_runtime_scene round16 example_scene)) < 2147483648"
    by (simp_all add: encode_compiled_runtime_scene_def encode_records_def example_scene_def blank_scene_def
        encode_fixture_def encode_program_def encode_source_def scene_header_def blank_fixture_def blank_program_def)
  ultimately show ?thesis using decode_encode_scene [of example_scene round16] by simp
qed

end
