(* ===== verification/Codec_Safety.thy ===== *)
theory Codec_Safety
  imports Scene_Codec
begin

text \<open>
  The decoder on arbitrary input.  A reader is \<open>exact\<close> when it consumes a fixed number of integers that
  are there; the body of a record is \<open>guarded\<close> when the integers required for it are enough for
  everything it reads unguarded.  Hence the check of \<open>require\<close> before every record is sufficient: the
  reader never runs past the payload.
\<close>

named_theorems guard_intros \<open>readers that stay inside what is required\<close>

definition exact :: "i32 list \<Rightarrow> nat \<Rightarrow> (decoder, 'r) state \<Rightarrow> bool" where
  "exact ints n m \<longleftrightarrow>
     (\<forall>d :: decoder. dec_valid d \<and> dec_cursor d + n \<le> length ints \<longrightarrow>
        snd (run_state m d) = d\<lparr>dec_cursor := dec_cursor d + n\<rparr>)"

definition dec_ok :: "i32 list \<Rightarrow> decoder \<Rightarrow> bool" where
  "dec_ok ints d \<longleftrightarrow> dec_cursor d \<le> length ints \<and>
     (if dec_valid d then dec_diagnostic d = [] else dec_diagnostic d \<in> {record_exceeds, count_invalid})"

definition guarded :: "i32 list \<Rightarrow> nat \<Rightarrow> (decoder, 'r option) state \<Rightarrow> bool" where
  "guarded ints n m \<longleftrightarrow>
     (\<forall>d :: decoder. dec_ok ints d \<and> dec_valid d \<and> dec_cursor d + n \<le> length ints \<longrightarrow>
        dec_ok ints (snd (run_state m d)) \<and>
        dec_valid (snd (run_state m d)) = (fst (run_state m d) \<noteq> None))"

lemma exact_return [guard_intros]: "exact ints 0 (State_Monad.return r)"
  by (simp add: exact_def)

lemma exact_read: "exact ints 1 (read ints)"
  by (simp add: exact_def read_def)

lemma exact_bind:
  assumes "exact ints n m" and "\<And>a. exact ints k (f a)" and "l = n + k"
  shows "exact ints l (State_Monad.bind m f)"
  unfolding exact_def
proof (intro allI impI)
  fix d :: decoder
  assume d: "dec_valid d \<and> dec_cursor d + l \<le> length ints"
  then have "snd (run_state m d) = d\<lparr>dec_cursor := dec_cursor d + n\<rparr>"
    using assms(1,3) by (simp add: exact_def)
  then obtain r where r: "run_state m d = (r, d\<lparr>dec_cursor := dec_cursor d + n\<rparr>)" by (metis prod.collapse)
  have "snd (run_state (f r) (d\<lparr>dec_cursor := dec_cursor d + n\<rparr>))
      = d\<lparr>dec_cursor := dec_cursor d + n + k\<rparr>"
    using assms(2) [of r] d assms(3) by (simp add: exact_def)
  then show "snd (run_state (State_Monad.bind m f) d) = d\<lparr>dec_cursor := dec_cursor d + l\<rparr>"
    using r assms(3) by (simp add: add.assoc)
qed

lemma exact_read_bind [guard_intros]:
  "(\<And>a. exact ints k (f a)) \<Longrightarrow> exact ints (Suc k) (State_Monad.bind (read ints) f)"
  by (rule exact_bind [OF exact_read]) simp_all

lemma exact_items: "exact ints k item \<Longrightarrow> exact ints (n * k) (read_items n item)"
proof (induction n)
  case (Suc n)
  have "exact ints (n * k) (do { vs \<leftarrow> read_items n item; State_Monad.return (v # vs) })" for v
    by (rule exact_bind [OF Suc.IH [OF Suc.prems] exact_return]) simp
  from exact_bind [OF Suc.prems this, of "k + n * k"] show ?case by simp
qed (simp add: exact_return)

lemma guarded_return [guard_intros]: "guarded ints 0 (State_Monad.return (Some r))"
  by (simp add: guarded_def)

lemma guarded_bind:
  assumes "exact ints n m" and "\<And>a. guarded ints k (f a)"
  shows "guarded ints (n + k) (State_Monad.bind m f)"
  unfolding guarded_def
proof (intro allI impI)
  fix d :: decoder
  assume d: "dec_ok ints d \<and> dec_valid d \<and> dec_cursor d + (n + k) \<le> length ints"
  then have "snd (run_state m d) = d\<lparr>dec_cursor := dec_cursor d + n\<rparr>"
    using assms(1) by (simp add: exact_def)
  then obtain r where r: "run_state m d = (r, d\<lparr>dec_cursor := dec_cursor d + n\<rparr>)" by (metis prod.collapse)
  moreover have ok: "dec_ok ints (d\<lparr>dec_cursor := dec_cursor d + n\<rparr>)" using d by (simp add: dec_ok_def)
  ultimately show "dec_ok ints (snd (run_state (State_Monad.bind m f) d)) \<and>
      dec_valid (snd (run_state (State_Monad.bind m f) d)) = (fst (run_state (State_Monad.bind m f) d) \<noteq> None)"
    using assms(2) [of r, unfolded guarded_def, rule_format, of "d\<lparr>dec_cursor := dec_cursor d + n\<rparr>"] d
      ok by simp
qed

lemma guarded_read_bind [guard_intros]:
  "(\<And>a. guarded ints k (f a)) \<Longrightarrow> guarded ints (Suc k) (State_Monad.bind (read ints) f)"
  using guarded_bind [OF exact_read, of ints k f] by simp

lemma guarded_nested [guard_intros]:
  assumes "exact ints stride item"
  shows "guarded ints 0 (do { nested \<leftarrow> read_nested ints count stride item;
           State_Monad.return (map_option f nested) })"
  unfolding guarded_def
proof (intro allI impI)
  fix d :: decoder
  assume d: "dec_ok ints d \<and> dec_valid d \<and> dec_cursor d + 0 \<le> length ints"
  show "dec_ok ints (snd (run_state (do { nested \<leftarrow> read_nested ints count stride item;
           State_Monad.return (map_option f nested) }) d)) \<and>
      dec_valid (snd (run_state (do { nested \<leftarrow> read_nested ints count stride item;
           State_Monad.return (map_option f nested) }) d)) =
      (fst (run_state (do { nested \<leftarrow> read_nested ints count stride item;
           State_Monad.return (map_option f nested) }) d) \<noteq> None)"
  proof (cases "(sint count < 0 \<or> nat (sint count) > length ints)
                \<or> nat (sint count) * stride > length ints - dec_cursor d")
    case True
    then show ?thesis
      using d by (auto simp: read_nested_def valid_count_def require_def dec_fail_def dec_ok_def)
  next
    case False
    define k where "k = nat (sint count)"
    have "snd (run_state (read_items k item) d) = d\<lparr>dec_cursor := dec_cursor d + k * stride\<rparr>"
      using exact_items [OF assms, of k] False d by (auto simp: exact_def k_def dec_ok_def)
    then obtain vs where "run_state (read_items k item) d = (vs, d\<lparr>dec_cursor := dec_cursor d + k * stride\<rparr>)"
      by (metis prod.collapse)
    moreover have "dec_cursor d + k * stride \<le> length ints"
      using False d by (simp add: k_def dec_ok_def not_less le_diff_conv2 add.commute)
    ultimately show ?thesis
      using d False by (simp add: read_nested_def valid_count_def require_def dec_ok_def k_def)
  qed
qed

lemma guarded_weaken: "guarded ints n m \<Longrightarrow> n \<le> k \<Longrightarrow> guarded ints k m"
  by (simp add: guarded_def)

subsection \<open>Every record is guarded by its fixed size\<close>

lemma exact_activation:
  "exact ints (if version \<ge> 7 then 7 else 1) (decode_activation ints version)"
  by (auto simp: decode_activation_def eval_nat_numeral intro!: guard_intros)

lemma items_exact:
  "exact ints 3 (decode_source ints)"
  "exact ints 3 (decode_contributor ints floats)"
  "exact ints (if version \<ge> 3 then 6 else 4) (decode_color_input ints floats version)"
  "exact ints 9 (decode_slot narrow ints floats)"
  "exact ints 3 (decode_channel_set ints)"
  by (auto simp: decode_source_def decode_contributor_def decode_color_input_def decode_slot_def
      decode_channel_set_def Let_def eval_nat_numeral intro!: guard_intros)

lemma guarded_program:
  "guarded ints (if version \<ge> 7 then kPackedSceneV7SourceFixedIntegers else kPackedSceneV6SourceFixedIntegers)
     (decode_program ints floats version)"
proof -
  have "guarded ints (Suc (Suc (Suc (Suc (Suc (Suc (Suc ((if version \<ge> 7 then 7 else 1) + 0))))))))
      (decode_program ints floats version)"
    unfolding decode_program_def
    by (intro guarded_read_bind guarded_bind [OF exact_activation] guarded_nested items_exact)
  then show ?thesis
    by (rule guarded_weaken)
      (simp add: kPackedSceneV7SourceFixedIntegers_def kPackedSceneV6SourceFixedIntegers_def)
qed

lemma guarded_bodies:
  "guarded ints kPackedSceneFixtureIntegers (decode_fixture ints floats)"
  "guarded ints 6 (decode_property ints floats)"
  "guarded ints 6 (decode_color_target ints floats version)"
  "guarded ints 4 (decode_palette narrow ints floats)"
  "guarded ints 9 (decode_wheel_binding narrow ints floats)"
  "guarded ints 5 (decode_gobo_asset ints)"
  "guarded ints 8 (decode_gobo_binding ints)"
  "guarded ints kPackedSceneGoboMotionIntegers (decode_gobo_motion ints floats)"
  unfolding decode_fixture_def decode_property_def decode_color_target_def decode_palette_def
    decode_wheel_binding_def decode_gobo_asset_def decode_gobo_binding_def decode_gobo_motion_def
    kPackedSceneFixtureIntegers_def kPackedSceneGoboMotionIntegers_def
  by (rule guarded_weaken, (rule guard_intros items_exact)+, simp)+

lemma guarded_shutter:
  "guarded ints (if version \<ge> 9 then 16 else 13) (decode_shutter ints floats version)"
  by (cases "version \<ge> 9")
    (auto simp: decode_shutter_def Let_def eval_nat_numeral intro!: guard_intros)

subsection \<open>The loops and the whole payload\<close>

lemma records_ok:
  assumes "guarded ints fixed body" and "dec_ok ints d"
  shows "dec_ok ints (snd (run_state (read_records ints fixed n body) d)) \<and>
    (snd (fst (run_state (read_records ints fixed n body) d)) \<longrightarrow>
       \<not> dec_valid (snd (run_state (read_records ints fixed n body) d)))"
  using assms(2)
proof (induction n arbitrary: d)
  case 0
  then show ?case by simp
next
  case (Suc n)
  show ?case
  proof (cases "\<not> dec_valid d \<or> fixed > length ints - dec_cursor d")
    case True
    then show ?thesis using Suc.prems by (auto simp: require_def dec_fail_def dec_ok_def)
  next
    case False
    then have enough: "dec_valid d" "dec_cursor d + fixed \<le> length ints"
      using Suc.prems by (auto simp: dec_ok_def)
    obtain r d' where r: "run_state body d = (r, d')" by fastforce
    then have ok: "dec_ok ints d'" "dec_valid d' = (r \<noteq> None)"
      using assms(1) Suc.prems enough by (auto simp: guarded_def)
    have req: "run_state (require ints fixed) d = (True, d)" using False by (simp add: require_def)
    show ?thesis
    proof (cases r)
      case None
      then show ?thesis using ok by (simp add: req r)
    next
      case (Some v)
      then show ?thesis using Suc.IH [OF ok(1)] by (simp add: req r split_beta)
    qed
  qed
qed

definition load_ok :: "i32 list \<Rightarrow> 'beam load_state \<Rightarrow> bool" where
  "load_ok ints st \<longleftrightarrow> (case st of (d, scene, stop) \<Rightarrow> dec_ok ints d \<and> (stop \<longrightarrow> \<not> dec_valid d))"

lemma load_ok_load:
  assumes "guarded ints fixed body" and "load_ok ints st"
  shows "load_ok ints (load ints count fixed body install st)"
  using records_ok [OF assms(1), of "fst st" "nat (sint count)"] assms(2)
  by (cases st) (auto simp: load_def load_ok_def split_beta)

lemma load_records_ok:
  "load_ok ints st \<Longrightarrow> load_ok ints (load_records narrow ints floats version c st)"
  unfolding load_records_def Let_def
  by (intro load_ok_load guarded_bodies guarded_program guarded_shutter)

lemma versioned_counts_ok:
  assumes "dec_ok ints d" and "dec_valid d"
  shows "dec_ok ints (snd (run_state (versioned_counts ints present n) d)) \<and>
    dec_valid (snd (run_state (versioned_counts ints present n) d))
      = (fst (run_state (versioned_counts ints present n) d) \<noteq> None)"
proof (cases "present \<and> n \<le> length ints - dec_cursor d")
  case True
  then have "snd (run_state (read_items n (read ints)) d) = d\<lparr>dec_cursor := dec_cursor d + n * 1\<rparr>"
    using exact_items [OF exact_read, of ints n] assms by (auto simp: exact_def dec_ok_def)
  then show ?thesis
    using True assms by (auto simp: versioned_counts_def require_def dec_ok_def split_beta)
next
  case False
  then show ?thesis
    using assms by (auto simp: versioned_counts_def require_def dec_ok_def dec_fail_def)
qed

lemma guarded_versioned_bind [guard_intros]:
  assumes "\<And>cs. guarded ints 0 (k (Some cs))" and "k None = State_Monad.return None"
  shows "guarded ints 0 (State_Monad.bind (versioned_counts ints present n) k)"
  unfolding guarded_def
proof (intro allI impI)
  fix d :: decoder
  assume d: "dec_ok ints d \<and> dec_valid d \<and> dec_cursor d + 0 \<le> length ints"
  obtain r d' where r: "run_state (versioned_counts ints present n) d = (r, d')" by fastforce
  then have ok: "dec_ok ints d'" "dec_valid d' = (r \<noteq> None)"
    using versioned_counts_ok [of ints d present n] d by auto
  have "dec_cursor d' \<le> length ints" using ok(1) by (simp add: dec_ok_def)
  then show "dec_ok ints (snd (run_state (State_Monad.bind (versioned_counts ints present n) k) d)) \<and>
      dec_valid (snd (run_state (State_Monad.bind (versioned_counts ints present n) k) d))
        = (fst (run_state (State_Monad.bind (versioned_counts ints present n) k) d) \<noteq> None)"
    using assms(1) [of "the r"] ok by (cases r) (auto simp: r assms(2) guarded_def)
qed

lemma guarded_counts: "guarded ints 4 (decode_counts ints version)"
  by (rule guarded_weaken, unfold decode_counts_def)
    ((rule guard_intros | simp)+)

lemma check_counts_ok:
  assumes "dec_ok ints d" and "dec_valid d"
  shows "dec_ok ints (snd (run_state (check_counts ints cs) d)) \<and>
    dec_valid (snd (run_state (check_counts ints cs) d)) = fst (run_state (check_counts ints cs) d)"
  using assms by (induction cs) (auto simp: valid_count_def dec_ok_def dec_fail_def)

definition outcome_ok :: "i32 list \<Rightarrow> 'beam decode_result \<Rightarrow> bool" where
  "outcome_ok ints r \<longleftrightarrow> res_consumed_integers r \<le> length ints \<and>
      (if res_valid r then res_consumed_integers r = length ints \<and> res_diagnostic r = []
       else res_diagnostic r \<in> {record_exceeds, count_invalid, trailing_integers, unsupported_version})"

lemma done_ok: "dec_ok ints d \<Longrightarrow> \<not> dec_valid d \<Longrightarrow> outcome_ok ints (decode_done d s)"
  by (auto simp: decode_done_def dec_ok_def outcome_ok_def)

lemma finish_ok: "load_ok ints st \<Longrightarrow> outcome_ok ints (decode_finish ints st)"
  by (cases st)
    (auto simp: decode_finish_def decode_done_def load_ok_def dec_ok_def dec_fail_def outcome_ok_def)

lemma decode_outcome_ok: "outcome_ok ints (decode_compiled_runtime_scene narrow ints floats)"
proof (cases "length ints < 6")
    case True
    then have "run_state (require ints 6) fresh_decoder = (False, dec_fail record_exceeds fresh_decoder)"
      by (simp add: require_def fresh_decoder_def)
    then show ?thesis
      by (simp add: decode_compiled_runtime_scene_def dec_fail_def fresh_decoder_def Let_def outcome_ok_def)
  next
    case False
    define d1 where "d1 = \<lparr>dec_cursor = 1, dec_valid = True, dec_diagnostic = []\<rparr>"
    have start: "run_state (require ints 6) fresh_decoder = (True, fresh_decoder)"
      "run_state (read ints) fresh_decoder = (ints ! 0, d1)"
      using False by (auto simp: require_def read_def fresh_decoder_def d1_def)
    obtain c d2 where c: "run_state (decode_counts ints (sint (ints ! 0))) d1 = (c, d2)" by fastforce
    have d1: "dec_ok ints d1" "dec_valid d1" "dec_cursor d1 + 4 \<le> length ints"
      using False by (simp_all add: d1_def dec_ok_def)
    then have d2: "dec_ok ints d2" "dec_valid d2 = (c \<noteq> None)"
      using guarded_counts [of ints "sint (ints ! 0)"] c by (auto simp: guarded_def)
    show ?thesis
    proof (cases c)
      case None
      then show ?thesis
        using d2 by (auto simp: decode_compiled_runtime_scene_def start c Let_def done_ok
            outcome_ok_def [of _ "\<lparr>res_scene = _, res_consumed_integers = _, res_valid = _, res_diagnostic = _\<rparr>"])
    next
      case (Some cnt)
      obtain ok d3 where chk: "run_state (check_counts ints [fixture_count cnt, program_count cnt,
          property_count cnt, color_count cnt, palette_count cnt, wheel_count cnt, asset_count cnt,
          gobo_count cnt, motion_count cnt, shutter_count cnt]) d2 = (ok, d3)" by fastforce
      then have d3: "dec_ok ints d3" "dec_valid d3 = ok"
        using check_counts_ok [of ints d2] d2 Some by (metis fst_conv option.distinct(1) snd_conv)+
      show ?thesis
        using d3 by (auto simp: decode_compiled_runtime_scene_def start c Some chk Let_def done_ok finish_ok
            load_records_ok load_ok_def [of _ "(_, _, _)"]
            outcome_ok_def [of _ "\<lparr>res_scene = _, res_consumed_integers = _, res_valid = _, res_diagnostic = _\<rparr>"]
            simp del: check_counts.simps)
    qed
qed

text \<open>C38: On any input the decoder stays inside the payload, and its verdict is exact: it accepts
  only when it has consumed every integer, and then leaves no diagnostic; every rejection carries one
  of four diagnostics, none of which is the reader running off the end.\<close>

theorem decode_stays_inside:
  "let r = decode_compiled_runtime_scene narrow ints floats
   in res_consumed_integers r \<le> length ints \<and>
      (if res_valid r then res_consumed_integers r = length ints \<and> res_diagnostic r = []
       else res_diagnostic r \<in> {record_exceeds, count_invalid, trailing_integers, unsupported_version})"
  using decode_outcome_ok [of ints narrow floats] by (simp only: outcome_ok_def Let_def)

end
