(* ===== verification/Dirty_Indices.thy ===== *)
theory Dirty_Indices
  imports Prelude
begin

text \<open>
  The reusable work list of the visual runtime (\<open>runtime/ordered_dirty_indices.h\<close>): indices are
  nominated once each and visited in ascending order.  The locale \<open>nomination_set\<close> is what its clients
  rely on: a set of integers below the installed size, and a visit that lists it in order.
\<close>

subsection \<open>The list\<close>

record dirty_indices =
  sorted_flag :: bool
  seen :: "bool list"
  indices :: "int list"

definition fresh_dirty :: dirty_indices where
  "fresh_dirty = \<lparr>sorted_flag = True, seen = [], indices = []\<rparr>"

definition dirty_install :: "nat \<Rightarrow> dirty_indices \<Rightarrow> dirty_indices" where
  "dirty_install n d = d\<lparr>seen := replicate n False, indices := []\<rparr>"

definition dirty_clear :: "dirty_indices \<Rightarrow> dirty_indices" where
  "dirty_clear d = \<lparr>sorted_flag = True,
     seen = fold (\<lambda>i s. s[nat i := False]) (indices d) (seen d), indices = []\<rparr>"

definition dirty_insert_one :: "int \<Rightarrow> dirty_indices \<Rightarrow> dirty_indices" where
  "dirty_insert_one i d =
     (if i \<ge> 0 \<and> nat i < length (seen d) \<and> \<not> seen d ! nat i
      then d\<lparr>seen := (seen d)[nat i := True], indices := indices d @ [i], sorted_flag := False\<rparr>
      else d)"

definition dirty_insert :: "int list \<Rightarrow> dirty_indices \<Rightarrow> dirty_indices" where
  "dirty_insert xs d = fold dirty_insert_one xs d"

text \<open>\<open>begin()\<close>: the indices the loop over the list visits, and the list afterwards.\<close>

definition dirty_begin :: "dirty_indices \<Rightarrow> dirty_indices" where
  "dirty_begin d = (if \<not> sorted_flag d then d\<lparr>indices := sort (indices d), sorted_flag := True\<rparr> else d)"

definition dirty_visit :: "dirty_indices \<Rightarrow> int list" where
  "dirty_visit d = indices (dirty_begin d)"

subsection \<open>Invariant and abstraction\<close>

definition dirty_ok :: "dirty_indices \<Rightarrow> bool" where
  "dirty_ok d \<longleftrightarrow>
     distinct (indices d) \<and> (sorted_flag d \<longrightarrow> sorted (indices d)) \<and>
     (\<forall>i\<in>set (indices d). 0 \<le> i \<and> nat i < length (seen d)) \<and>
     (\<forall>k < length (seen d). seen d ! k = (int k \<in> set (indices d)))"

definition nominated :: "dirty_indices \<Rightarrow> int set" where
  "nominated d = set (indices d)"

definition dirty_capacity :: "dirty_indices \<Rightarrow> nat" where
  "dirty_capacity d = length (seen d)"

lemma dirty_install_ok:
  "dirty_ok (dirty_install n d)"
  "nominated (dirty_install n d) = {}" "dirty_capacity (dirty_install n d) = n"
  by (simp_all add: dirty_ok_def dirty_install_def nominated_def dirty_capacity_def)

lemma length_fold_update: "length (fold (\<lambda>i s. s[nat i := False]) is s) = length s"
  by (induction "is" arbitrary: s) simp_all

lemma nth_fold_update:
  "k < length s \<Longrightarrow> fold (\<lambda>i s. s[nat i := False]) is s ! k = (s ! k \<and> k \<notin> nat ` set is)"
proof (induction "is" arbitrary: s)
  case (Cons i js)
  then show ?case by (cases "k = nat i") auto
qed simp

lemma dirty_clear_ok:
  assumes "dirty_ok d"
  shows "dirty_ok (dirty_clear d)" "nominated (dirty_clear d) = {}"
    "dirty_capacity (dirty_clear d) = dirty_capacity d"
proof -
  have "\<not> fold (\<lambda>i s. s[nat i := False]) (indices d) (seen d) ! k" if "k < length (seen d)" for k
  proof
    assume "fold (\<lambda>i s. s[nat i := False]) (indices d) (seen d) ! k"
    then have "int k \<in> set (indices d)" and "k \<notin> nat ` set (indices d)"
      using that assms by (auto simp: nth_fold_update dirty_ok_def)
    then show False by (metis image_eqI nat_int)
  qed
  then show "dirty_ok (dirty_clear d)"
    by (simp add: dirty_ok_def dirty_clear_def length_fold_update)
qed (simp_all add: nominated_def dirty_clear_def dirty_capacity_def length_fold_update)

lemma dirty_insert_one_ok:
  assumes "dirty_ok d"
  shows "dirty_ok (dirty_insert_one i d)"
    "nominated (dirty_insert_one i d) = nominated d \<union> ({i} \<inter> {0..<int (dirty_capacity d)})"
    "dirty_capacity (dirty_insert_one i d) = dirty_capacity d"
proof -
  have new: "i \<notin> set (indices d)" if "0 \<le> i" "nat i < length (seen d)" "\<not> seen d ! nat i"
    using that assms by (auto simp: dirty_ok_def)
  have old: "i \<in> set (indices d)" if "0 \<le> i" "nat i < length (seen d)" "seen d ! nat i"
    using that assms by (auto simp: dirty_ok_def)
  show "dirty_ok (dirty_insert_one i d)"
    using assms new by (auto simp: dirty_ok_def dirty_insert_one_def nth_list_update)
  show "nominated (dirty_insert_one i d) = nominated d \<union> ({i} \<inter> {0..<int (dirty_capacity d)})"
    using old by (auto simp: dirty_insert_one_def nominated_def dirty_capacity_def)
  show "dirty_capacity (dirty_insert_one i d) = dirty_capacity d"
    by (simp add: dirty_insert_one_def dirty_capacity_def)
qed

lemma dirty_insert_ok:
  assumes "dirty_ok d"
  shows "dirty_ok (dirty_insert xs d)"
    "nominated (dirty_insert xs d) = nominated d \<union> (set xs \<inter> {0..<int (dirty_capacity d)})"
    "dirty_capacity (dirty_insert xs d) = dirty_capacity d"
  unfolding dirty_insert_def using assms
  by (induction xs arbitrary: d) (simp_all add: dirty_insert_one_ok Un_assoc Int_Un_distrib2, blast)

lemma dirty_begin_ok:
  assumes "dirty_ok d"
  shows "dirty_ok (dirty_begin d)" "nominated (dirty_begin d) = nominated d"
    "dirty_capacity (dirty_begin d) = dirty_capacity d"
  using assms by (auto simp: dirty_begin_def dirty_ok_def nominated_def dirty_capacity_def)

lemma dirty_visit_ok:
  assumes "dirty_ok d"
  shows "dirty_visit d = sorted_list_of_set (nominated d)"
proof -
  have "sorted (dirty_visit d)" "distinct (dirty_visit d)" "set (dirty_visit d) = nominated d"
    using assms by (auto simp: dirty_visit_def dirty_begin_def dirty_ok_def nominated_def)
  then show ?thesis by (metis sorted_list_of_set.idem_if_sorted_distinct)
qed

subsection \<open>What a client relies on\<close>

locale nomination_set =
  fixes ok :: "'d \<Rightarrow> bool" and members :: "'d \<Rightarrow> int set" and capacity :: "'d \<Rightarrow> nat"
    and clear :: "'d \<Rightarrow> 'd" and insert_all :: "int list \<Rightarrow> 'd \<Rightarrow> 'd" and visit :: "'d \<Rightarrow> int list"
  assumes clear_laws: "ok d \<Longrightarrow> ok (clear d) \<and> members (clear d) = {} \<and> capacity (clear d) = capacity d"
    and insert_laws: "ok d \<Longrightarrow> ok (insert_all xs d) \<and>
      members (insert_all xs d) = members d \<union> (set xs \<inter> {0..<int (capacity d)}) \<and>
      capacity (insert_all xs d) = capacity d"
    and visit_law: "ok d \<Longrightarrow> visit d = sorted_list_of_set (members d)"
begin

lemma insert_many:
  "ok d \<Longrightarrow> ok (fold insert_all xss d) \<and>
     members (fold insert_all xss d) = members d \<union> (\<Union>(set ` set xss) \<inter> {0..<int (capacity d)}) \<and>
     capacity (fold insert_all xss d) = capacity d"
proof (induction xss arbitrary: d)
  case (Cons xs xss)
  then show ?case using Cons.IH [of "insert_all xs d"] insert_laws [of d xs] by auto
qed simp

lemma visit_after_nominations:
  assumes "ok d" and "\<Union>(set ` set xss) \<subseteq> {0..<int (capacity d)}"
  shows "visit (fold insert_all xss (clear d)) = sorted_list_of_set (\<Union>(set ` set xss))"
proof -
  have "members (fold insert_all xss (clear d)) = \<Union>(set ` set xss)"
    using insert_many [of "clear d" xss] clear_laws [OF assms(1)] assms(2) by auto
  then show ?thesis using insert_many [of "clear d" xss] clear_laws [OF assms(1)] by (simp add: visit_law)
qed

end

interpretation work_list: nomination_set dirty_ok nominated dirty_capacity dirty_clear dirty_insert dirty_visit
  by unfold_locales (simp_all add: dirty_clear_ok dirty_insert_ok dirty_visit_ok)

end
