(* ===== verification/Evaluation_Plan.thy ===== *)
theory Evaluation_Plan
  imports Dirty_Indices Scene_Types Text_Numbers
begin

text \<open>
  The evaluation plan of a universe (\<open>runtime/compiled_evaluation_plan.{h,cpp}\<close>): the graph from DMX
  offsets to the source programs that read them and on to the consumers of their values, compiled
  once, and the workspace of cached values and nominations that every update reuses.

  \<open>uint32_t\<close> handles are natural numbers and an \<open>int32_t\<close> that is \<open>-1\<close> or a handle is an option: a plan
  has far fewer than $2^{31}$ nodes.  The generation is a 64-bit word and wraps.  The bytes counters of
  the diagnostics are not modelled.  An index past a vector, which is undefined in the code, is
  \<^term>\<open>None\<close> where a query can show it; the queries are total on every built plan.
\<close>

subsection \<open>Data\<close>

record evaluated_value =
  ev_raw_value :: u32
  ev_normalized_value :: real
  ev_physical_value :: real
  ev_active_program_id :: i32
  ev_valid :: bool

definition blank_value :: evaluated_value where
  "blank_value = \<lparr>ev_raw_value = 0, ev_normalized_value = 0, ev_physical_value = 0,
     ev_active_program_id = 0, ev_valid = False\<rparr>"

datatype evaluation_domain =
  PropertyDomain | ColorDomain | WheelDomain | GoboSelectionDomain | GoboMotionDomain | ShutterDomain

record evaluation_consumer =
  con_domain :: evaluation_domain
  con_index :: nat
  con_target :: int

record evaluation_span =
  span_offset :: nat
  span_count :: nat

record offset_entry =
  entry_offset :: int
  entry_sources :: evaluation_span
  entry_color_fanout :: nat

record source_node =
  node_program :: dmx_source_program
  node_master :: "nat option"
  node_consumers :: evaluation_span
  node_activation_slot :: "nat option"

record workspace =
  ws_values :: "evaluated_value list"
  ws_invalid :: "bool list"
  ws_changed :: "u64 list"
  ws_activation_generations :: "u64 list"
  ws_activations :: "bool list"
  ws_changed_sources :: "nat list"
  ws_consumers :: dirty_indices
  ws_generation :: u64

record evaluation_plan =
  plan_sources :: "source_node list"
  plan_consumers :: "evaluation_consumer list"
  plan_source_by_id :: "i32 \<rightharpoonup> nat"
  plan_offsets :: "offset_entry list"
  plan_offset_sources :: "nat list"
  plan_source_consumers :: "nat list"
  plan_building_consumers :: "nat list list"
  plan_workspace :: workspace

definition empty_workspace :: workspace where
  "empty_workspace = \<lparr>ws_values = [], ws_invalid = [], ws_changed = [], ws_activation_generations = [],
     ws_activations = [], ws_changed_sources = [], ws_consumers = fresh_dirty, ws_generation = 0\<rparr>"

definition empty_plan :: evaluation_plan where
  "empty_plan = \<lparr>plan_sources = [], plan_consumers = [], plan_source_by_id = Map.empty, plan_offsets = [],
     plan_offset_sources = [], plan_source_consumers = [], plan_building_consumers = [],
     plan_workspace = empty_workspace\<rparr>"

subsection \<open>Installation\<close>

text \<open>\<open>emplace\<close> keeps the first program of an id.\<close>

definition add_source :: "dmx_source_program \<Rightarrow> evaluation_plan \<Rightarrow> evaluation_plan" where
  "add_source program p =
     (let k = length (plan_sources p) in
      p\<lparr>plan_source_by_id := (if pr_program_id program \<in> dom (plan_source_by_id p) then plan_source_by_id p
           else (plan_source_by_id p)(pr_program_id program \<mapsto> k)),
        plan_sources := plan_sources p @
          [\<lparr>node_program = program, node_master = None, node_consumers = \<lparr>span_offset = 0, span_count = 0\<rparr>,
            node_activation_slot = None\<rparr>]\<rparr>)"

text \<open>\<open>by_offset\<close>: for every offset the sources with a byte there, as they are pushed.\<close>

definition push_byte :: "nat \<Rightarrow> dmx_byte_source \<Rightarrow> nat list list \<Rightarrow> nat list list" where
  "push_byte i byte by_offset =
     (if sint (bs_address byte) \<ge> 0 \<and> sint (bs_address byte) < 512
      then by_offset[nat (sint (bs_address byte)) := by_offset ! nat (sint (bs_address byte)) @ [i]]
      else by_offset)"

definition push_bytes :: "nat \<Rightarrow> source_node \<Rightarrow> nat list list \<Rightarrow> nat list list" where
  "push_bytes i node by_offset = fold (push_byte i) (pr_sources (node_program node)) by_offset"

text \<open>The edge to the ModeMaster, or a warning when it has no installed program.\<close>

definition missing_master :: "dmx_source_program \<Rightarrow> runtime_diagnostic" where
  "missing_master program = \<lparr>rd_code = ''PVZ-EVALUATION-MISSING-MASTER'', rd_severity = ''warning'',
     rd_message = ''Evaluation source has no installed same-universe ModeMaster.'',
     rd_subject = int_string (sint (pr_program_id program))\<rparr>"

definition link_master ::
    "(i32 \<rightharpoonup> nat) \<Rightarrow> source_node \<Rightarrow> source_node \<times> runtime_diagnostic list" where
  "link_master by_id node =
     (let condition = pr_activation (node_program node)
      in if ac_target_kind condition \<noteq> 0 then
           case by_id (ac_master_program_id condition) of
             Some master \<Rightarrow> (node\<lparr>node_master := Some master\<rparr>, [])
           | None \<Rightarrow> (node, [missing_master (node_program node)])
         else (node, []))"

definition unmarked :: "nat list \<Rightarrow> nat" where
  "unmarked state = length (filter (\<lambda>m. m = 0) state)"

lemma unmarked_mark:
  assumes "c < length state" and "state ! c = 0"
  shows "unmarked (state[c := 1]) < unmarked state"
  using assms
proof (induction state arbitrary: c)
  case (Cons m ms)
  then show ?case by (cases c) (auto simp: unmarked_def)
qed simp

text \<open>The bounded walk along the masters of one node: it marks what it meets for the first time and
  stops at a node that is already marked.\<close>

function walk_masters ::
    "source_node list \<Rightarrow> nat option \<Rightarrow> nat list \<Rightarrow> nat list \<Rightarrow> nat option \<times> nat list \<times> nat list" where
  "walk_masters nodes cursor state path =
     (case cursor of
        None \<Rightarrow> (None, state, path)
      | Some c \<Rightarrow>
          if c < length state \<and> state ! c = 0
          then walk_masters nodes (node_master (nodes ! c)) (state[c := 1]) (path @ [c])
          else (Some c, state, path))"
  by pat_completeness auto

termination
  by (relation "measure (\<lambda>(nodes, cursor, state, path). unmarked state)") (simp_all add: unmarked_mark [unfolded One_nat_def])

declare walk_masters.simps [simp del]

definition cyclic_master :: "source_node \<Rightarrow> runtime_diagnostic" where
  "cyclic_master node = \<lparr>rd_code = ''PVZ-EVALUATION-CYCLIC-MASTER'', rd_severity = ''warning'',
     rd_message = ''Cyclic evaluation activation dependency remains inactive in the authoritative activation evaluator.'',
     rd_subject = int_string (sint (pr_program_id (node_program node)))\<rparr>"

text \<open>One iteration of the cycle check; a walk that ends at a node of its own path has met a cycle.\<close>

definition check_cycle ::
    "source_node list \<Rightarrow> nat \<Rightarrow> nat list \<times> runtime_diagnostic list \<Rightarrow> nat list \<times> runtime_diagnostic list" where
  "check_cycle nodes i acc =
     (case acc of (state, diags) \<Rightarrow>
        (case walk_masters nodes (Some i) state [] of (cursor, state, path) \<Rightarrow>
           (fold (\<lambda>index s. s[index := 2]) path state,
            diags @ (case cursor of
                       Some c \<Rightarrow> if state ! c = 1 then [cyclic_master (nodes ! c)] else []
                     | None \<Rightarrow> []))))"

text \<open>\<open>std::sort\<close> followed by \<open>erase(std::unique(...))\<close>.\<close>

definition sort_unique :: "nat list \<Rightarrow> nat list" where
  "sort_unique xs = remdups_adj (sort xs)"

text \<open>One iteration of the compaction of the offset lists.\<close>

definition add_offset :: "nat list list \<Rightarrow> nat \<Rightarrow> evaluation_plan \<Rightarrow> evaluation_plan" where
  "add_offset by_offset offset p =
     (let is = sort_unique (by_offset ! offset);
          p = (if is \<noteq> [] then
                 p\<lparr>plan_offsets := plan_offsets p @
                     [\<lparr>entry_offset = int offset,
                       entry_sources = \<lparr>span_offset = length (plan_offset_sources p), span_count = length is\<rparr>,
                       entry_color_fanout = 0\<rparr>]\<rparr>
               else p)
      in p\<lparr>plan_offset_sources := plan_offset_sources p @ is\<rparr>)"

definition install ::
    "dmx_source_program list \<Rightarrow> runtime_diagnostic list \<Rightarrow> evaluation_plan \<Rightarrow> evaluation_plan \<times> runtime_diagnostic list" where
  "install programs diagnostics0 p0 =
     (let p = fold add_source programs empty_plan;
          n = length (plan_sources p);
          by_offset = fold (\<lambda>i. push_bytes i (plan_sources p ! i)) [0..<n] (replicate 512 []);
          linked = map (link_master (plan_source_by_id p)) (plan_sources p);
          nodes = map fst linked;
          (state, diags) = fold (check_cycle nodes) [0..<n]
                             (replicate n 0, diagnostics0 @ concat (map snd linked));
          p = fold (add_offset by_offset) [0..<512] (p\<lparr>plan_sources := nodes\<rparr>)
      in (p\<lparr>plan_building_consumers := replicate n []\<rparr>, diags))"

definition source_index :: "i32 \<Rightarrow> evaluation_plan \<Rightarrow> nat" where
  "source_index program_id p =
     (case plan_source_by_id p program_id of None \<Rightarrow> 4294967295 | Some i \<Rightarrow> i)"

text \<open>The walk of a new consumer: from a source, and with activation dependencies up its masters, until
  a node is met again.\<close>

function climb ::
    "source_node list \<Rightarrow> bool \<Rightarrow> nat \<Rightarrow> nat option \<Rightarrow> nat list \<Rightarrow> nat list list \<Rightarrow> nat list list" where
  "climb nodes activation_dependencies consumer cursor path building =
     (case cursor of
        None \<Rightarrow> building
      | Some c \<Rightarrow>
          if c \<notin> set path \<and> c < length nodes then
            climb nodes activation_dependencies consumer
              (if activation_dependencies then node_master (nodes ! c) else None)
              (if activation_dependencies then path @ [c] else path)
              (building[c := building ! c @ [consumer]])
          else building)"
  by pat_completeness auto
termination
proof (relation "measure (\<lambda>(nodes, activation, consumer, cursor, path, building).
    case cursor of None \<Rightarrow> 0 | Some c \<Rightarrow> Suc (card ({..<length nodes} - set path)))")
  fix nodes :: "source_node list" and activation consumer cursor path and building :: "nat list list" and c
  assume "cursor = Some c" and c: "c \<notin> set path \<and> c < length nodes"
  have "{..<length nodes} - set (path @ [c]) \<subset> {..<length nodes} - set path" using c by auto
  then have "card ({..<length nodes} - set (path @ [c])) < card ({..<length nodes} - set path)"
    by (intro psubset_card_mono) auto
  then show "((nodes, activation, consumer, if activation then node_master (nodes ! c) else None,
      if activation then path @ [c] else path, building[c := building ! c @ [consumer]]),
      nodes, activation, consumer, cursor, path, building)
    \<in> measure (\<lambda>(nodes, activation, consumer, cursor, path, building).
        case cursor of None \<Rightarrow> 0 | Some c \<Rightarrow> Suc (card ({..<length nodes} - set path)))"
    using \<open>cursor = Some c\<close> by (auto split: option.split)
qed simp

declare climb.simps [simp del]

definition add_edge :: "bool \<Rightarrow> nat \<Rightarrow> nat \<Rightarrow> evaluation_plan \<Rightarrow> evaluation_plan" where
  "add_edge activation_dependencies consumer source p =
     (let p = (if activation_dependencies \<and> source < length (plan_sources p)
                  \<and> node_activation_slot (plan_sources p ! source) = None
               then p\<lparr>plan_sources := (plan_sources p)[source :=
                        (plan_sources p ! source)\<lparr>node_activation_slot :=
                           Some (length (ws_activations (plan_workspace p)))\<rparr>],
                      plan_workspace := (plan_workspace p)\<lparr>
                        ws_activations := ws_activations (plan_workspace p) @ [False],
                        ws_activation_generations := ws_activation_generations (plan_workspace p) @ [0]\<rparr>\<rparr>
               else p)
      in p\<lparr>plan_building_consumers :=
             climb (plan_sources p) activation_dependencies consumer
               (if source < length (plan_sources p) then Some source else None) []
               (plan_building_consumers p)\<rparr>)"

definition add_consumer ::
    "evaluation_domain \<Rightarrow> nat \<Rightarrow> int \<Rightarrow> nat list \<Rightarrow> bool \<Rightarrow> evaluation_plan \<Rightarrow> evaluation_plan" where
  "add_consumer domain index target sources activation_dependencies p =
     (let consumer = length (plan_consumers p);
          p = p\<lparr>plan_consumers := plan_consumers p @
                [\<lparr>con_domain = domain, con_index = index, con_target = target\<rparr>]\<rparr>
      in fold (add_edge activation_dependencies consumer) sources p)"

text \<open>The elements of a compacted vector a span names.\<close>

definition span_of :: "evaluation_span \<Rightarrow> 'a list \<Rightarrow> 'a list" where
  "span_of s xs = take (span_count s) (drop (span_offset s) xs)"

definition freeze_source :: "nat \<Rightarrow> evaluation_plan \<Rightarrow> evaluation_plan" where
  "freeze_source i p =
     (let edges = sort_unique (plan_building_consumers p ! i)
      in p\<lparr>plan_sources := (plan_sources p)[i := (plan_sources p ! i)\<lparr>node_consumers :=
             \<lparr>span_offset = length (plan_source_consumers p), span_count = length edges\<rparr>\<rparr>],
           plan_source_consumers := plan_source_consumers p @ edges\<rparr>)"

definition color_fanout :: "evaluation_plan \<Rightarrow> offset_entry \<Rightarrow> nat" where
  "color_fanout p e =
     sum_list (map (\<lambda>source. length (filter (\<lambda>k. con_domain (plan_consumers p ! k) = ColorDomain)
         (span_of (node_consumers (plan_sources p ! source)) (plan_source_consumers p))))
       (span_of (entry_sources e) (plan_offset_sources p)))"

definition finish_install :: "evaluation_plan \<Rightarrow> evaluation_plan" where
  "finish_install p0 =
     (let p = fold freeze_source [0..<length (plan_sources p0)] p0;
          n = length (plan_sources p);
          p = p\<lparr>plan_offsets := map (\<lambda>e. e\<lparr>entry_color_fanout := entry_color_fanout e + color_fanout p e\<rparr>)
                 (plan_offsets p)\<rparr>
      in p\<lparr>plan_building_consumers := [], plan_source_by_id := Map.empty,
           plan_workspace := (plan_workspace p)\<lparr>
             ws_values := take n (ws_values (plan_workspace p)) @
               replicate (n - length (ws_values (plan_workspace p))) blank_value,
             ws_invalid := replicate n True, ws_changed := replicate n 0,
             ws_consumers := dirty_install (length (plan_consumers p)) (ws_consumers (plan_workspace p))\<rparr>\<rparr>)"

subsection \<open>Updates and queries\<close>

text \<open>\<open>std::lower_bound\<close> on the entries, which are sorted by offset.\<close>

definition find_offset :: "int \<Rightarrow> evaluation_plan \<Rightarrow> offset_entry option" where
  "find_offset offset p =
     (case dropWhile (\<lambda>e. entry_offset e < offset) (plan_offsets p) of
        [] \<Rightarrow> None
      | e # _ \<Rightarrow> if entry_offset e = offset then Some e else None)"

definition mark_source :: "evaluation_plan \<Rightarrow> nat \<Rightarrow> workspace \<Rightarrow> workspace" where
  "mark_source p source ws =
     (if ws_changed ws ! source = ws_generation ws then ws
      else ws\<lparr>ws_changed := (ws_changed ws)[source := ws_generation ws],
              ws_invalid := (ws_invalid ws)[source := True],
              ws_changed_sources := ws_changed_sources ws @ [source],
              ws_consumers := dirty_insert
                (map int (span_of (node_consumers (plan_sources p ! source)) (plan_source_consumers p)))
                (ws_consumers ws)\<rparr>)"

definition mark_offset :: "evaluation_plan \<Rightarrow> int \<Rightarrow> workspace \<Rightarrow> workspace" where
  "mark_offset p offset ws =
     (if offset < 0 \<or> offset \<ge> 512 then ws
      else case find_offset offset p of
             None \<Rightarrow> ws
           | Some e \<Rightarrow> fold (mark_source p) (span_of (entry_sources e) (plan_offset_sources p)) ws)"

definition next_generation :: "workspace \<Rightarrow> workspace" where
  "next_generation ws =
     (let ws = ws\<lparr>ws_generation := ws_generation ws + 1\<rparr>
      in if ws_generation ws = 0
         then ws\<lparr>ws_changed := map (\<lambda>_. 0) (ws_changed ws),
                 ws_activation_generations := map (\<lambda>_. 0) (ws_activation_generations ws),
                 ws_generation := ws_generation ws + 1\<rparr>
         else ws)"

definition begin_update :: "int list \<Rightarrow> evaluation_plan \<Rightarrow> evaluation_plan" where
  "begin_update offsets p =
     (let ws = plan_workspace p;
          ws = ws\<lparr>ws_consumers := dirty_clear (ws_consumers ws), ws_changed_sources := []\<rparr>;
          ws = next_generation ws
      in p\<lparr>plan_workspace := fold (mark_offset p) offsets ws\<rparr>)"

definition changed_sources :: "evaluation_plan \<Rightarrow> nat list" where
  "changed_sources p = ws_changed_sources (plan_workspace p)"

definition dirty_consumers :: "evaluation_plan \<Rightarrow> int list" where
  "dirty_consumers p = dirty_visit (ws_consumers (plan_workspace p))"

definition consumer_at :: "nat \<Rightarrow> evaluation_plan \<Rightarrow> evaluation_consumer option" where
  "consumer_at i p = (if i < length (plan_consumers p) then Some (plan_consumers p ! i) else None)"

definition source_changed :: "nat \<Rightarrow> evaluation_plan \<Rightarrow> bool option" where
  "source_changed i p =
     (let ws = plan_workspace p
      in if i < length (ws_changed ws) then Some (ws_changed ws ! i = ws_generation ws) else None)"

definition needs_evaluation :: "nat \<Rightarrow> evaluation_plan \<Rightarrow> bool option" where
  "needs_evaluation i p =
     (let ws = plan_workspace p in if i < length (ws_invalid ws) then Some (ws_invalid ws ! i) else None)"

definition value_at :: "nat \<Rightarrow> evaluation_plan \<Rightarrow> evaluated_value option" where
  "value_at i p =
     (let ws = plan_workspace p in if i < length (ws_values ws) then Some (ws_values ws ! i) else None)"

definition store_value :: "nat \<Rightarrow> evaluated_value \<Rightarrow> evaluation_plan \<Rightarrow> evaluation_plan option" where
  "store_value i v p =
     (let ws = plan_workspace p
      in if i < length (ws_values ws) \<and> i < length (ws_invalid ws)
         then Some (p\<lparr>plan_workspace := ws\<lparr>ws_values := (ws_values ws)[i := v],
                                           ws_invalid := (ws_invalid ws)[i := False]\<rparr>\<rparr>)
         else None)"

definition activation_slot :: "nat \<Rightarrow> evaluation_plan \<Rightarrow> nat option" where
  "activation_slot i p =
     (if i < length (plan_sources p) then node_activation_slot (plan_sources p ! i) else None)"

definition activation_cached :: "nat \<Rightarrow> evaluation_plan \<Rightarrow> bool" where
  "activation_cached i p =
     (case activation_slot i p of
        None \<Rightarrow> False
      | Some slot \<Rightarrow> ws_activation_generations (plan_workspace p) ! slot = ws_generation (plan_workspace p))"

text \<open>A source without a slot has no activation to read or write.\<close>

definition activation_value :: "nat \<Rightarrow> evaluation_plan \<Rightarrow> bool option" where
  "activation_value i p = map_option (\<lambda>slot. ws_activations (plan_workspace p) ! slot) (activation_slot i p)"

definition store_activation :: "nat \<Rightarrow> bool \<Rightarrow> evaluation_plan \<Rightarrow> evaluation_plan option" where
  "store_activation i active p =
     map_option (\<lambda>slot. p\<lparr>plan_workspace := (plan_workspace p)\<lparr>
        ws_activations := (ws_activations (plan_workspace p))[slot := active],
        ws_activation_generations := (ws_activation_generations (plan_workspace p))
          [slot := ws_generation (plan_workspace p)]\<rparr>\<rparr>) (activation_slot i p)"

definition color_offset_fanout :: "int \<Rightarrow> evaluation_plan \<Rightarrow> nat" where
  "color_offset_fanout offset p =
     (case find_offset offset p of None \<Rightarrow> 0 | Some e \<Rightarrow> entry_color_fanout e)"

definition dependency_count :: "evaluation_plan \<Rightarrow> nat" where
  "dependency_count p = length (plan_offset_sources p) + length (plan_source_consumers p)
     + length (filter (\<lambda>s. node_master s \<noteq> None) (plan_sources p))"

definition source_count :: "evaluation_plan \<Rightarrow> nat" where
  "source_count p = length (plan_sources p)"

definition consumer_count :: "evaluation_plan \<Rightarrow> nat" where
  "consumer_count p = length (plan_consumers p)"

end
