(* ===== verification/Plan_Graph.thy ===== *)
theory Plan_Graph
  imports Evaluation_Plan
begin

text \<open>
  What the compiled graph of an evaluation plan contains: the sources that read an offset and the
  consumers that depend on a source, read off the programs and the calls that built the plan.
\<close>

subsection \<open>Lists without repetition, and spans of a concatenation\<close>

lemma set_sort_unique [simp]: "set (sort_unique xs) = set xs"
  by (simp add: sort_unique_def)

lemma span_of_concat:
  assumes "i < m"
  shows "span_of \<lparr>span_offset = length (concat (map f [0..<i])), span_count = length (f i)\<rparr>
           (concat (map f [0..<m])) = f i"
proof -
  have "[0..<m] = [0..<i] @ i # [Suc i..<m]"
    using assms upt_add_eq_append [of 0 i "m - i"] upt_conv_Cons [of i m] by simp
  then show ?thesis by (simp add: span_of_def)
qed

subsection \<open>The specification\<close>

text \<open>The first program with an id.\<close>

definition program_index :: "dmx_source_program list \<Rightarrow> i32 \<Rightarrow> nat option" where
  "program_index programs = map_of (zip (map pr_program_id programs) [0..<length programs])"

definition master_of :: "dmx_source_program list \<Rightarrow> nat \<Rightarrow> nat option" where
  "master_of programs i =
     (let a = pr_activation (programs ! i)
      in if i < length programs \<and> ac_target_kind a \<noteq> 0 then program_index programs (ac_master_program_id a) else None)"

definition master_edges :: "dmx_source_program list \<Rightarrow> (nat \<times> nat) set" where
  "master_edges programs = {(i, j). master_of programs i = Some j}"

definition reads_offset :: "dmx_source_program list \<Rightarrow> nat \<Rightarrow> int \<Rightarrow> bool" where
  "reads_offset programs i offset \<longleftrightarrow>
     i < length programs \<and> 0 \<le> offset \<and> offset < 512 \<and>
     (\<exists>byte\<in>set (pr_sources (programs ! i)). sint (bs_address byte) = offset)"

text \<open>A call of \<open>add_consumer\<close>, and the sources its consumer depends on: the ones it names and, with
  activation dependencies, their masters all the way up.\<close>

record consumer_call =
  call_domain :: evaluation_domain
  call_index :: nat
  call_target :: int
  call_sources :: "nat list"
  call_activation :: bool

definition depends_on_source :: "dmx_source_program list \<Rightarrow> consumer_call \<Rightarrow> nat \<Rightarrow> bool" where
  "depends_on_source programs call i \<longleftrightarrow>
     (\<exists>s\<in>set (call_sources call). s < length programs \<and>
        (s = i \<or> call_activation call \<and> (s, i) \<in> (master_edges programs)\<^sup>*))"

definition add_call :: "consumer_call \<Rightarrow> evaluation_plan \<Rightarrow> evaluation_plan" where
  "add_call call =
     add_consumer (call_domain call) (call_index call) (call_target call) (call_sources call) (call_activation call)"

definition build ::
    "dmx_source_program list \<Rightarrow> runtime_diagnostic list \<Rightarrow> consumer_call list \<Rightarrow> evaluation_plan" where
  "build programs diags calls = finish_install (fold add_call calls (fst (install programs diags empty_plan)))"

lemma dom_program_index: "dom (program_index programs) = pr_program_id ` set programs"
  by (simp add: program_index_def dom_map_of_conv_image_fst flip: set_map)

lemma program_index_snoc:
  "program_index (programs @ [program]) =
     (if pr_program_id program \<in> dom (program_index programs) then program_index programs
      else (program_index programs)(pr_program_id program \<mapsto> length programs))"
proof -
  have "program_index (programs @ [program])
      = [pr_program_id program \<mapsto> length programs] ++ program_index programs"
    by (simp add: program_index_def)
  then show ?thesis
    by (auto simp: fun_eq_iff map_add_def domIff split: option.split)
qed

lemma program_index_less: "program_index programs k = Some j \<Longrightarrow> j < length programs"
  by (auto simp: program_index_def dest!: map_of_SomeD set_zip_rightD)

lemma master_of_less: "master_of programs i = Some j \<Longrightarrow> i < length programs \<and> j < length programs"
  by (auto simp: master_of_def Let_def program_index_less split: if_splits)

subsection \<open>Sources and masters\<close>

definition fresh_node :: "dmx_source_program \<Rightarrow> source_node" where
  "fresh_node program = \<lparr>node_program = program, node_master = None,
     node_consumers = \<lparr>span_offset = 0, span_count = 0\<rparr>, node_activation_slot = None\<rparr>"

lemma add_sources:
  "fold add_source programs empty_plan =
     empty_plan\<lparr>plan_sources := map fresh_node programs, plan_source_by_id := program_index programs\<rparr>"
proof (induction programs rule: rev_induct)
  case Nil
  show ?case by (simp add: empty_plan_def program_index_def)
next
  case (snoc program programs)
  have step: "fold add_source (programs @ [program]) empty_plan = add_source program
      (empty_plan\<lparr>plan_sources := map fresh_node programs, plan_source_by_id := program_index programs\<rparr>)"
    by (simp add: snoc.IH)
  show ?case
    unfolding step
    by (simp add: program_index_snoc add_source_def Let_def fresh_node_def empty_plan_def)
qed

definition linked_node :: "dmx_source_program list \<Rightarrow> nat \<Rightarrow> source_node" where
  "linked_node programs i = (fresh_node (programs ! i))\<lparr>node_master := master_of programs i\<rparr>"

lemma link_masters:
  "map fst (map (link_master (program_index programs)) (map fresh_node programs))
     = map (linked_node programs) [0..<length programs]"
  by (rule nth_equalityI)
    (auto simp: link_master_def linked_node_def fresh_node_def master_of_def Let_def split: option.split)

subsection \<open>The offset table\<close>

lemma length_push_bytes [simp]: "length (push_bytes i node b) = length b"
proof -
  have "length (fold (push_byte i) bytes b) = length b" for bytes
    by (induction bytes arbitrary: b) (simp_all add: push_byte_def)
  then show ?thesis by (simp add: push_bytes_def)
qed

lemma set_push_bytes:
  assumes "length b = 512" and "k < 512"
  shows "set (push_bytes i node b ! k) = set (b ! k) \<union>
    {j. j = i \<and> (\<exists>byte\<in>set (pr_sources (node_program node)). sint (bs_address byte) = int k)}"
proof -
  have "set (fold (push_byte i) bytes b ! k) = set (b ! k) \<union>
      {j. j = i \<and> (\<exists>byte\<in>set bytes. sint (bs_address byte) = int k)}" for bytes
    using assms(1)
  proof (induction bytes arbitrary: b)
    case (Cons byte bytes)
    have len: "length (push_byte i byte b) = 512" using Cons.prems by (simp add: push_byte_def)
    have "set (push_byte i byte b ! k) = set (b ! k) \<union> {j. j = i \<and> sint (bs_address byte) = int k}"
      using Cons.prems assms(2) by (cases "nat (sint (bs_address byte)) = k") (auto simp: push_byte_def)
    then show ?case using Cons.IH [OF len] by auto
  qed simp
  then show ?thesis by (simp add: push_bytes_def)
qed

lemma by_offset_table:
  assumes "m \<le> length nodes"
  shows "length (fold (\<lambda>i. push_bytes i (nodes ! i)) [0..<m] (replicate 512 [])) = 512 \<and>
    (\<forall>k<512. set (fold (\<lambda>i. push_bytes i (nodes ! i)) [0..<m] (replicate 512 []) ! k) =
       {i. i < m \<and> (\<exists>byte\<in>set (pr_sources (node_program (nodes ! i))). sint (bs_address byte) = int k)})"
  using assms
proof (induction m)
  case (Suc m)
  then show ?case by (auto simp: set_push_bytes less_Suc_eq)
qed simp

definition offset_entry_of :: "(nat \<Rightarrow> nat list) \<Rightarrow> nat \<Rightarrow> offset_entry" where
  "offset_entry_of f k = \<lparr>entry_offset = int k,
     entry_sources = \<lparr>span_offset = length (concat (map f [0..<k])), span_count = length (f k)\<rparr>,
     entry_color_fanout = 0\<rparr>"

lemma add_offsets:
  assumes "plan_offsets p = []" and "plan_offset_sources p = []"
  shows "fold (add_offset by_offset) [0..<m] p = p\<lparr>
      plan_offsets := map (offset_entry_of (\<lambda>k. sort_unique (by_offset ! k)))
        (filter (\<lambda>k. sort_unique (by_offset ! k) \<noteq> []) [0..<m]),
      plan_offset_sources := concat (map (\<lambda>k. sort_unique (by_offset ! k)) [0..<m])\<rparr>"
proof (induction m)
  case 0
  show ?case using assms by simp
next
  case (Suc m)
  then show ?case by (simp add: add_offset_def Let_def offset_entry_of_def)
qed

lemma sort_unique_eq: "sort_unique xs = sorted_list_of_set (set xs)"
proof -
  have "distinct (remdups_adj ys)" if "sorted ys" for ys :: "nat list"
    using that by (induction ys rule: remdups_adj.induct) (auto simp: order_antisym)
  then have "sorted (sort_unique xs)" "distinct (sort_unique xs)" by (simp_all add: sort_unique_def)
  then show ?thesis by (metis sorted_list_of_set.idem_if_sorted_distinct set_sort_unique)
qed

text \<open>The sources that read offset \<open>k\<close>, in order.\<close>

definition readers :: "dmx_source_program list \<Rightarrow> nat \<Rightarrow> nat list" where
  "readers programs k = sorted_list_of_set {i. reads_offset programs i (int k)}"

lemma readers: "set (readers programs k) = {i. reads_offset programs i (int k)}" "distinct (readers programs k)"
proof -
  have "finite {i. reads_offset programs i (int k)}"
    by (rule finite_subset [of _ "{..<length programs}"]) (auto simp: reads_offset_def)
  then show "set (readers programs k) = {i. reads_offset programs i (int k)}" "distinct (readers programs k)"
    by (simp_all add: readers_def)
qed

lemma installed:
  "fst (install programs diags p0) = empty_plan\<lparr>
     plan_sources := map (linked_node programs) [0..<length programs],
     plan_source_by_id := program_index programs,
     plan_offsets := map (offset_entry_of (readers programs)) (filter (\<lambda>k. readers programs k \<noteq> []) [0..<512]),
     plan_offset_sources := concat (map (readers programs) [0..<512]),
     plan_building_consumers := replicate (length programs) []\<rparr>"
proof -
  let ?nodes = "map fresh_node programs" and ?n = "length programs"
  let ?table = "fold (\<lambda>i. push_bytes i (?nodes ! i)) [0..<?n] (replicate 512 [])"
  have sorted: "sort_unique (?table ! k) = readers programs k" if "k < 512" for k
  proof -
    have "set (?table ! k) = {i. reads_offset programs i (int k)}"
      using by_offset_table [of ?n ?nodes] that by (auto simp: reads_offset_def fresh_node_def)
    then show ?thesis by (simp add: sort_unique_eq readers_def)
  qed
  have entries: "map (offset_entry_of (\<lambda>k. sort_unique (?table ! k))) (filter (\<lambda>k. sort_unique (?table ! k) \<noteq> []) [0..<512])
      = map (offset_entry_of (readers programs)) (filter (\<lambda>k. readers programs k \<noteq> []) [0..<512])"
  proof -
    have prefix: "map (\<lambda>k. sort_unique (?table ! k)) [0..<k] = map (readers programs) [0..<k]" if "k \<le> 512" for k
      using that sorted by (intro map_cong) auto
    have "offset_entry_of (\<lambda>k. sort_unique (?table ! k)) k = offset_entry_of (readers programs) k" if "k < 512" for k
      using that unfolding offset_entry_of_def sorted [OF that] prefix [OF less_imp_le [OF that]] by simp
    moreover have "filter (\<lambda>k. sort_unique (?table ! k) \<noteq> []) [0..<512] = filter (\<lambda>k. readers programs k \<noteq> []) [0..<512]"
      using sorted by (intro filter_cong) auto
    ultimately show ?thesis by auto
  qed
  have concat: "concat (map (\<lambda>k. sort_unique (?table ! k)) [0..<512]) = concat (map (readers programs) [0..<512])"
    using sorted by (intro arg_cong [where f = concat] map_cong) auto
  have "fst (install programs diags p0) = (fold (add_offset ?table) [0..<512]
      (empty_plan\<lparr>plan_sources := map (linked_node programs) [0..<?n], plan_source_by_id := program_index programs\<rparr>))
        \<lparr>plan_building_consumers := replicate ?n []\<rparr>"
    unfolding install_def Let_def add_sources
    by (simp add: link_masters [simplified] case_prod_unfold)
      (simp add: empty_plan_def)
  also have "\<dots> = empty_plan\<lparr>
     plan_sources := map (linked_node programs) [0..<length programs],
     plan_source_by_id := program_index programs,
     plan_offsets := map (offset_entry_of (readers programs)) (filter (\<lambda>k. readers programs k \<noteq> []) [0..<512]),
     plan_offset_sources := concat (map (readers programs) [0..<512]),
     plan_building_consumers := replicate (length programs) []\<rparr>"
    by (subst add_offsets, unfold entries concat) (simp_all add: empty_plan_def)
  finally show ?thesis .
qed

subsection \<open>Consumers\<close>

lemma climb_plain:
  assumes "c < length nodes" and "length building = length nodes"
  shows "climb nodes False k (Some c) [] building = building[c := building ! c @ [k]]"
  using assms by (simp add: climb.simps)

lemma reach_step:
  "(c, i) \<in> (master_edges programs)\<^sup>* \<longleftrightarrow>
     i = c \<or> (\<exists>d. master_of programs c = Some d \<and> (d, i) \<in> (master_edges programs)\<^sup>*)"
  by (auto simp: master_edges_def elim: converse_rtranclE intro: converse_rtrancl_into_rtrancl)

lemma climb_masters:
  assumes "length nodes = length programs" and "length building = length programs"
    and "\<forall>c < length programs. node_master (nodes ! c) = master_of programs c"
    and "\<forall>c. cursor = Some c \<longrightarrow> c < length programs"
    and "\<forall>x\<in>set path. \<forall>j. master_of programs x = Some j \<longrightarrow> j \<in> set path \<or> cursor = Some j"
    and "i < length programs"
  shows "length (climb nodes True k cursor path building) = length programs \<and>
    set (climb nodes True k cursor path building ! i) = set (building ! i) \<union>
      {j. j = k \<and> i \<notin> set path \<and> (\<exists>c. cursor = Some c \<and> (c, i) \<in> (master_edges programs)\<^sup>*)}"
  using assms
proof (induction nodes True k cursor path building rule: climb.induct)
  case (1 nodes k cursor path building)
  show ?case
  proof (cases cursor)
    case None
    then show ?thesis using 1 by (simp add: climb.simps)
  next
    case (Some c)
    have c: "c < length nodes" using "1.prems" Some by simp
    show ?thesis
    proof (cases "c \<in> set path")
      case True
      have "x \<in> set path" if "(c, x) \<in> (master_edges programs)\<^sup>*" for x
        using that
      proof (induction rule: rtrancl_induct)
        case (step y z)
        then show ?case using "1.prems"(5) True Some by (auto simp: master_edges_def)
      qed (rule True)
      then show ?thesis using Some True "1.prems" by (auto simp: climb.simps)
    next
      case False
      let ?building = "building[c := building ! c @ [k]]"
      have step: "climb nodes True k cursor path building
          = climb nodes True k (node_master (nodes ! c)) (path @ [c]) ?building"
        using Some False c by (simp add: climb.simps [of nodes True k "Some c"])
      have master: "node_master (nodes ! c) = master_of programs c" using "1.prems" c by simp
      have "length (climb nodes True k cursor path building) = length programs \<and>
          set (climb nodes True k cursor path building ! i) = set (?building ! i) \<union>
            {j. j = k \<and> i \<notin> set (path @ [c]) \<and>
               (\<exists>d. master_of programs c = Some d \<and> (d, i) \<in> (master_edges programs)\<^sup>*)}"
        unfolding step master
        using "1.hyps" [OF Some _] False c "1.prems" master Some master_of_less by auto
      then show ?thesis
        using False c Some "1.prems" by (cases "i = c") (auto simp: reach_step [of c])
    qed
  qed
qed

text \<open>What every plan under construction satisfies: the nodes are the programs with their masters, the
  offset table is complete, and every activation slot belongs to one source.\<close>

definition nodes_ok :: "dmx_source_program list \<Rightarrow> evaluation_plan \<Rightarrow> bool" where
  "nodes_ok programs p \<longleftrightarrow>
     length (plan_sources p) = length programs \<and>
     (\<forall>i < length programs. node_program (plan_sources p ! i) = programs ! i \<and>
        node_master (plan_sources p ! i) = master_of programs i)"

definition slots_ok :: "evaluation_plan \<Rightarrow> bool" where
  "slots_ok p \<longleftrightarrow>
     length (ws_activation_generations (plan_workspace p)) = length (ws_activations (plan_workspace p)) \<and>
     (\<forall>i s. activation_slot i p = Some s \<longrightarrow> s < length (ws_activations (plan_workspace p))) \<and>
     (\<forall>i j s. activation_slot i p = Some s \<and> activation_slot j p = Some s \<longrightarrow> i = j)"

definition building_ok :: "dmx_source_program list \<Rightarrow> evaluation_plan \<Rightarrow> bool" where
  "building_ok programs p \<longleftrightarrow> nodes_ok programs p \<and> slots_ok p \<and>
     length (plan_building_consumers p) = length programs \<and> plan_source_consumers p = [] \<and>
     ws_values (plan_workspace p) = [] \<and> ws_generation (plan_workspace p) = 0 \<and>
     ws_changed_sources (plan_workspace p) = [] \<and>
     set (ws_activation_generations (plan_workspace p)) \<subseteq> {0}"

definition give_slot :: "nat \<Rightarrow> evaluation_plan \<Rightarrow> evaluation_plan" where
  "give_slot source p = p\<lparr>plan_sources := (plan_sources p)[source :=
       (plan_sources p ! source)\<lparr>node_activation_slot := Some (length (ws_activations (plan_workspace p)))\<rparr>],
     plan_workspace := (plan_workspace p)\<lparr>
       ws_activations := ws_activations (plan_workspace p) @ [False],
       ws_activation_generations := ws_activation_generations (plan_workspace p) @ [0]\<rparr>\<rparr>"

lemma activation_slot_other [simp]:
  "activation_slot i (p\<lparr>plan_building_consumers := b\<rparr>) = activation_slot i p"
  "activation_slot i (p\<lparr>plan_consumers := cs\<rparr>) = activation_slot i p"
  "activation_slot i (p\<lparr>plan_source_consumers := ks\<rparr>) = activation_slot i p"
  "activation_slot i (p\<lparr>plan_offsets := es\<rparr>) = activation_slot i p"
  "activation_slot i (p\<lparr>plan_source_by_id := ids\<rparr>) = activation_slot i p"
  "activation_slot i (p\<lparr>plan_workspace := ws\<rparr>) = activation_slot i p"
  by (simp_all add: activation_slot_def)

lemma activation_slot_give:
  assumes "source < length (plan_sources p)"
  shows "activation_slot i (give_slot source p) =
    (if i = source then Some (length (ws_activations (plan_workspace p))) else activation_slot i p)"
  using assms by (simp add: activation_slot_def give_slot_def)

lemma give_slot_ok:
  assumes "building_ok programs p" and "source < length (plan_sources p)"
  shows "building_ok programs (give_slot source p)"
proof -
  have "nodes_ok programs (give_slot source p)"
    using assms by (auto simp: building_ok_def nodes_ok_def give_slot_def nth_list_update)
  moreover have "slots_ok (give_slot source p)"
    using assms unfolding building_ok_def slots_ok_def activation_slot_give [OF assms(2)]
    by (auto simp: give_slot_def split: if_splits intro: less_SucI)
  ultimately show ?thesis using assms by (simp add: building_ok_def give_slot_def)
qed

definition edges_of :: "dmx_source_program list \<Rightarrow> bool \<Rightarrow> nat \<Rightarrow> nat \<Rightarrow> bool" where
  "edges_of programs a s i \<longleftrightarrow>
     s < length programs \<and> (s = i \<or> a \<and> (s, i) \<in> (master_edges programs)\<^sup>*)"

lemma climb_edges:
  assumes "building_ok programs p" and "i < length programs"
  shows "length (climb (plan_sources p) a k (if s < length (plan_sources p) then Some s else None) []
      (plan_building_consumers p)) = length programs \<and>
    set (climb (plan_sources p) a k (if s < length (plan_sources p) then Some s else None) []
      (plan_building_consumers p) ! i) = set (plan_building_consumers p ! i) \<union> {j. j = k \<and> edges_of programs a s i}"
proof (cases "s < length programs")
  case False
  then show ?thesis using assms by (simp add: building_ok_def nodes_ok_def climb.simps edges_of_def)
next
  case True
  show ?thesis
  proof (cases a)
    case True
    then show ?thesis
      using climb_masters [of "plan_sources p" programs "plan_building_consumers p" "Some s" "[]" i k]
        assms \<open>s < length programs\<close> by (auto simp: building_ok_def nodes_ok_def edges_of_def)
  next
    case False
    then show ?thesis using assms \<open>s < length programs\<close>
      by (cases "s = i") (auto simp: building_ok_def nodes_ok_def edges_of_def climb_plain)
  qed
qed

lemma add_edge_alt:
  "add_edge a k s p =
     (let p = (if a \<and> s < length (plan_sources p) \<and> node_activation_slot (plan_sources p ! s) = None
               then give_slot s p else p)
      in p\<lparr>plan_building_consumers := climb (plan_sources p) a k
            (if s < length (plan_sources p) then Some s else None) [] (plan_building_consumers p)\<rparr>)"
  by (simp add: add_edge_def give_slot_def)

lemma building_ok_set [simp]:
  "length b = length programs \<Longrightarrow> building_ok programs p \<Longrightarrow> building_ok programs (p\<lparr>plan_building_consumers := b\<rparr>)"
  by (simp add: building_ok_def nodes_ok_def slots_ok_def)

lemma length_climb [simp]: "length (climb nodes a k cursor path b) = length b"
proof (induction nodes a k cursor path b rule: climb.induct)
  case (1 nodes a k cursor path b)
  then show ?case by (cases cursor) (auto simp: climb.simps)
qed

text \<open>The fields that adding edges leaves alone.\<close>

definition kept :: "evaluation_plan \<Rightarrow> evaluation_plan \<Rightarrow> bool" where
  "kept p q \<longleftrightarrow> plan_offsets q = plan_offsets p \<and> plan_offset_sources q = plan_offset_sources p \<and>
     plan_consumers q = plan_consumers p \<and> ws_consumers (plan_workspace q) = ws_consumers (plan_workspace p)"

lemma add_edge_ok:
  assumes "building_ok programs p"
  shows "building_ok programs (add_edge a k s p) \<and> kept p (add_edge a k s p) \<and>
    (\<forall>i < length programs. set (plan_building_consumers (add_edge a k s p) ! i) =
       set (plan_building_consumers p ! i) \<union> {j. j = k \<and> edges_of programs a s i})"
proof -
  let ?q = "if a \<and> s < length (plan_sources p) \<and> node_activation_slot (plan_sources p ! s) = None
    then give_slot s p else p"
  have q: "building_ok programs ?q" using assms give_slot_ok by simp
  have same: "kept p ?q" "plan_building_consumers ?q = plan_building_consumers p"
    by (simp_all add: give_slot_def kept_def)
  have "length (plan_building_consumers ?q) = length programs" using q by (simp add: building_ok_def)
  then show ?thesis
    unfolding add_edge_alt Let_def using q same climb_edges [OF q, of _ a k s]
    by (simp add: kept_def)
qed

lemma add_edges_ok:
  assumes "building_ok programs p"
  shows "building_ok programs (fold (add_edge a k) ss p) \<and> kept p (fold (add_edge a k) ss p) \<and>
    (\<forall>i < length programs. set (plan_building_consumers (fold (add_edge a k) ss p) ! i) =
       set (plan_building_consumers p ! i) \<union> {j. j = k \<and> (\<exists>s\<in>set ss. edges_of programs a s i)})"
  using assms
proof (induction ss arbitrary: p)
  case (Cons s ss)
  show ?case
    using Cons.IH [of "add_edge a k s p"] add_edge_ok [OF Cons.prems, of a k s] by (auto simp: kept_def)
qed (simp add: kept_def)

definition consumer_of :: "consumer_call \<Rightarrow> evaluation_consumer" where
  "consumer_of call = \<lparr>con_domain = call_domain call, con_index = call_index call, con_target = call_target call\<rparr>"

lemma add_call_ok:
  assumes "building_ok programs p" and "length (plan_consumers p) = k"
  shows "building_ok programs (add_call call p) \<and>
    plan_consumers (add_call call p) = plan_consumers p @ [consumer_of call] \<and>
    plan_offsets (add_call call p) = plan_offsets p \<and> plan_offset_sources (add_call call p) = plan_offset_sources p \<and>
    ws_consumers (plan_workspace (add_call call p)) = ws_consumers (plan_workspace p) \<and>
    (\<forall>i < length programs. set (plan_building_consumers (add_call call p) ! i) =
       set (plan_building_consumers p ! i) \<union> {j. j = k \<and> depends_on_source programs call i})"
proof -
  let ?p = "p\<lparr>plan_consumers := plan_consumers p @ [consumer_of call]\<rparr>"
  have "building_ok programs ?p" using assms(1) by (simp add: building_ok_def nodes_ok_def slots_ok_def)
  moreover have "add_call call p = fold (add_edge (call_activation call) k) (call_sources call) ?p"
    by (simp add: add_call_def add_consumer_def Let_def consumer_of_def assms(2))
  moreover have "depends_on_source programs call i \<longleftrightarrow>
      (\<exists>s\<in>set (call_sources call). edges_of programs (call_activation call) s i)" for i
    by (simp add: depends_on_source_def edges_of_def)
  ultimately show ?thesis
    using add_edges_ok [of programs ?p "call_activation call" k "call_sources call"] by (simp add: kept_def)
qed

lemma add_calls_ok:
  assumes "building_ok programs p" and "plan_consumers p = []" and "\<forall>i < length programs. plan_building_consumers p ! i = []"
  shows "building_ok programs (fold add_call calls p) \<and>
    plan_consumers (fold add_call calls p) = map consumer_of calls \<and>
    plan_offsets (fold add_call calls p) = plan_offsets p \<and>
    plan_offset_sources (fold add_call calls p) = plan_offset_sources p \<and>
    ws_consumers (plan_workspace (fold add_call calls p)) = ws_consumers (plan_workspace p) \<and>
    (\<forall>i < length programs. set (plan_building_consumers (fold add_call calls p) ! i) =
       {k. k < length calls \<and> depends_on_source programs (calls ! k) i})"
proof (induction calls rule: rev_induct)
  case Nil
  then show ?case using assms by simp
next
  case (snoc call calls)
  let ?p = "fold add_call calls p"
  have "length (plan_consumers ?p) = length calls" using snoc by simp
  then show ?case
    using add_call_ok [of programs ?p "length calls" call] snoc
    by (auto simp: nth_append less_Suc_eq)
qed

subsection \<open>The frozen plan\<close>

lemma freeze_sources:
  assumes "m \<le> length (plan_sources p)" and "plan_source_consumers p = []"
  defines "es \<equiv> \<lambda>i. sort_unique (plan_building_consumers p ! i)"
  shows "fold freeze_source [0..<m] p = p\<lparr>
    plan_sources := map (\<lambda>i. (plan_sources p ! i)\<lparr>node_consumers :=
        \<lparr>span_offset = length (concat (map es [0..<i])), span_count = length (es i)\<rparr>\<rparr>) [0..<m]
      @ drop m (plan_sources p),
    plan_source_consumers := concat (map es [0..<m])\<rparr>"
  using assms(1)
proof (induction m)
  case 0
  show ?case using assms by simp
next
  case (Suc m)
  then have m: "m < length (plan_sources p)" by simp
  then have "drop m (plan_sources p) = plan_sources p ! m # drop (Suc m) (plan_sources p)"
    by (rule Cons_nth_drop_Suc [symmetric])
  then show ?case
    using Suc.IH m
    by (simp add: freeze_source_def Let_def nth_append list_update_append es_def)
qed

text \<open>The sources that read an offset of a frozen plan, as \<open>begin_update\<close> finds them.\<close>

definition offset_sources_of :: "evaluation_plan \<Rightarrow> int \<Rightarrow> nat list" where
  "offset_sources_of p offset =
     (case find_offset offset p of None \<Rightarrow> [] | Some e \<Rightarrow> span_of (entry_sources e) (plan_offset_sources p))"

lemma lower_bound:
  assumes "sorted_wrt (<) ks" and "\<forall>k. entry_offset (g k) = int k"
  shows "(case dropWhile (\<lambda>e. entry_offset e < offset) (map g ks) of [] \<Rightarrow> None
      | e # _ \<Rightarrow> if entry_offset e = offset then Some e else None)
    = (if offset \<ge> 0 \<and> nat offset \<in> set ks then Some (g (nat offset)) else None)"
  using assms(1)
proof (induction ks)
  case (Cons k ks)
  then show ?case using assms(2) by (auto split: if_splits)
qed simp

definition consumers_of :: "evaluation_plan \<Rightarrow> nat \<Rightarrow> nat list" where
  "consumers_of p i = span_of (node_consumers (plan_sources p ! i)) (plan_source_consumers p)"

text \<open>A plan that is ready to play.\<close>

definition plan_ready :: "dmx_source_program list \<Rightarrow> consumer_call list \<Rightarrow> evaluation_plan \<Rightarrow> bool" where
  "plan_ready programs calls p \<longleftrightarrow>
     nodes_ok programs p \<and> slots_ok p \<and> plan_consumers p = map consumer_of calls \<and>
     (\<forall>offset. set (offset_sources_of p offset) = {i. reads_offset programs i offset}) \<and>
     (\<forall>i < length programs. set (consumers_of p i) = {k. k < length calls \<and> depends_on_source programs (calls ! k) i})"

definition workspace_ready :: "evaluation_plan \<Rightarrow> workspace \<Rightarrow> bool" where
  "workspace_ready p ws \<longleftrightarrow>
     length (ws_values ws) = length (plan_sources p) \<and> length (ws_invalid ws) = length (plan_sources p) \<and>
     length (ws_changed ws) = length (plan_sources p) \<and>
     length (ws_activation_generations ws) = length (ws_activations ws) \<and>
     (\<forall>i s. activation_slot i p = Some s \<longrightarrow> s < length (ws_activations ws)) \<and>
     dirty_ok (ws_consumers ws) \<and> dirty_capacity (ws_consumers ws) = length (plan_consumers p) \<and>
     (\<forall>g\<in>set (ws_changed ws) \<union> set (ws_activation_generations ws). unat g \<le> unat (ws_generation ws))"

definition frozen :: "evaluation_plan \<Rightarrow> nat \<Rightarrow> source_node" where
  "frozen p i = (plan_sources p ! i)\<lparr>node_consumers :=
     \<lparr>span_offset = length (concat (map (\<lambda>i. sort_unique (plan_building_consumers p ! i)) [0..<i])),
      span_count = length (sort_unique (plan_building_consumers p ! i))\<rparr>\<rparr>"

lemma finished:
  assumes "building_ok programs p" and "q = finish_install p"
  shows "plan_sources q = map (frozen p) [0..<length programs]"
    "plan_source_consumers q = concat (map (\<lambda>i. sort_unique (plan_building_consumers p ! i)) [0..<length programs])"
    "plan_consumers q = plan_consumers p" "plan_offset_sources q = plan_offset_sources p"
    "\<exists>f. plan_offsets q = map (\<lambda>e. e\<lparr>entry_color_fanout := f e\<rparr>) (plan_offsets p)"
    "plan_workspace q = (plan_workspace p)\<lparr>ws_values := replicate (length programs) blank_value,
       ws_invalid := replicate (length programs) True, ws_changed := replicate (length programs) 0,
       ws_consumers := dirty_install (length (plan_consumers p)) (ws_consumers (plan_workspace p))\<rparr>"
proof -
  let ?n = "length programs"
  have len: "length (plan_sources p) = ?n" and none: "plan_source_consumers p = []" "ws_values (plan_workspace p) = []"
    using assms(1) by (simp_all add: building_ok_def nodes_ok_def)
  have freeze: "fold freeze_source [0..<?n] p = p\<lparr>plan_sources := map (frozen p) [0..<?n],
      plan_source_consumers := concat (map (\<lambda>i. sort_unique (plan_building_consumers p ! i)) [0..<?n])\<rparr>"
    using freeze_sources [of ?n p] len none by (simp add: frozen_def)
  show "plan_sources q = map (frozen p) [0..<?n]"
    "plan_source_consumers q = concat (map (\<lambda>i. sort_unique (plan_building_consumers p ! i)) [0..<?n])"
    "plan_consumers q = plan_consumers p" "plan_offset_sources q = plan_offset_sources p"
    "plan_workspace q = (plan_workspace p)\<lparr>ws_values := replicate ?n blank_value,
       ws_invalid := replicate ?n True, ws_changed := replicate ?n 0,
       ws_consumers := dirty_install (length (plan_consumers p)) (ws_consumers (plan_workspace p))\<rparr>"
    unfolding assms(2) finish_install_def Let_def len freeze using none by simp_all
  show "\<exists>f. plan_offsets q = map (\<lambda>e. e\<lparr>entry_color_fanout := f e\<rparr>) (plan_offsets p)"
    unfolding assms(2) finish_install_def Let_def len freeze
    by (rule exI [of _ "\<lambda>e. entry_color_fanout e + color_fanout (fold freeze_source [0..<?n] p) e"]) (simp add: freeze)
qed

lemma installed_ok: "building_ok programs (fst (install programs diags p0))"
proof -
  have "activation_slot i (fst (install programs diags p0)) = None" for i
    unfolding installed by (simp add: activation_slot_def linked_node_def fresh_node_def)
  then show ?thesis
    unfolding building_ok_def nodes_ok_def slots_ok_def
    by (simp add: installed linked_node_def fresh_node_def empty_plan_def empty_workspace_def)
qed

lemma offset_sources:
  assumes "plan_offsets p = map g (filter (\<lambda>k. readers programs k \<noteq> []) [0..<512])"
    and "\<forall>k. entry_offset (g k) = int k \<and> entry_sources (g k) = entry_sources (offset_entry_of (readers programs) k)"
    and "plan_offset_sources p = concat (map (readers programs) [0..<512])"
  shows "offset_sources_of p offset = (if 0 \<le> offset \<and> offset < 512 then readers programs (nat offset) else [])"
proof -
  have sorted: "sorted_wrt (<) (filter (\<lambda>k. readers programs k \<noteq> []) [0..<512])"
    by (simp add: sorted_wrt_filter sorted_wrt_upt)
  have "find_offset offset p =
      (if offset \<ge> 0 \<and> nat offset < 512 \<and> readers programs (nat offset) \<noteq> [] then Some (g (nat offset)) else None)"
    unfolding find_offset_def assms(1)
    by (subst lower_bound [OF sorted]) (use assms(2) in auto)
  then show ?thesis
    using assms(2) span_of_concat [of "nat offset" 512 "readers programs"]
    by (auto simp: offset_sources_of_def assms(3) offset_entry_of_def)
qed

lemma build_ready:
  "plan_ready programs calls (build programs diags calls) \<and>
   workspace_ready (build programs diags calls) (plan_workspace (build programs diags calls))"
proof -
  let ?n = "length programs"
  define p0 where "p0 = fst (install programs diags empty_plan)"
  define p where "p = fold add_call calls p0"
  define q where "q = finish_install p"
  have p0: "building_ok programs p0" unfolding p0_def by (rule installed_ok)
  have "plan_consumers p0 = []" "\<forall>i < ?n. plan_building_consumers p0 ! i = []"
    unfolding p0_def installed by (simp_all add: empty_plan_def)
  note p = add_calls_ok [OF p0 this, of calls, folded p_def]
  have ok: "building_ok programs p" using p by simp
  note q = finished [OF ok q_def]
  have len: "length (plan_sources q) = ?n" by (simp add: q(1))
  have slot: "activation_slot i q = activation_slot i p" for i
    using ok by (simp add: activation_slot_def q(1) frozen_def building_ok_def nodes_ok_def)
  have nodes: "nodes_ok programs q"
    using ok by (simp add: nodes_ok_def q(1) frozen_def building_ok_def)
  have slots: "slots_ok q" using ok slot by (simp add: slots_ok_def building_ok_def q(6))
  have consumers: "set (consumers_of q i) = {k. k < length calls \<and> depends_on_source programs (calls ! k) i}"
    if "i < ?n" for i
    using span_of_concat [OF that, of "\<lambda>i. sort_unique (plan_building_consumers p ! i)"] that p
    by (simp add: consumers_of_def q(1,2) frozen_def)
  obtain f where "plan_offsets q = map (\<lambda>e. e\<lparr>entry_color_fanout := f e\<rparr>) (plan_offsets p)" using q(5) by auto
  then have "plan_offsets q = map (\<lambda>k. (offset_entry_of (readers programs) k)
      \<lparr>entry_color_fanout := f (offset_entry_of (readers programs) k)\<rparr>) (filter (\<lambda>k. readers programs k \<noteq> []) [0..<512])"
    using p by (simp add: p0_def installed)
  then have "offset_sources_of q offset = (if 0 \<le> offset \<and> offset < 512 then readers programs (nat offset) else [])" for offset
    by (rule offset_sources) (use p q(4) in \<open>simp_all add: p0_def installed offset_entry_of_def\<close>)
  then have "set (offset_sources_of q offset) = {i. reads_offset programs i offset}" for offset
    by (auto simp: readers reads_offset_def)
  then have ready: "plan_ready programs calls q"
    using nodes slots consumers p q(3) by (simp add: plan_ready_def)
  have "workspace_ready q (plan_workspace q)"
    using ok slots p dirty_install_ok by (auto simp: workspace_ready_def q(3,6) len building_ok_def slots_ok_def)
  then show ?thesis using ready by (simp add: build_def q_def p_def p0_def)
qed

end
