(* ===== verification/Plan_Schedule.thy ===== *)
theory Plan_Schedule
  imports Plan_Graph Scene_Codec
begin

text \<open>
  What an update of an evaluation plan schedules, and the caches it keeps: the plan that is played
  behaves like a map of cached source values and a map of activation results, of which an update
  forgets exactly what its offsets make stale.
\<close>

subsection \<open>The next generation\<close>

lemma workspace_ready_unfold:
  assumes "workspace_ready p ws"
  shows "length (ws_values ws) = length (plan_sources p)" "length (ws_invalid ws) = length (plan_sources p)"
    "length (ws_changed ws) = length (plan_sources p)"
    "length (ws_activation_generations ws) = length (ws_activations ws)"
    "activation_slot i p = Some s \<Longrightarrow> s < length (ws_activations ws)"
  using assms by (auto simp: workspace_ready_def)

lemma next_generation_keeps [simp]:
  "ws_values (next_generation ws) = ws_values ws" "ws_invalid (next_generation ws) = ws_invalid ws"
  "ws_activations (next_generation ws) = ws_activations ws"
  "ws_changed_sources (next_generation ws) = ws_changed_sources ws"
  "ws_consumers (next_generation ws) = ws_consumers ws"
  by (simp_all add: next_generation_def Let_def)

lemma next_generation_ok:
  assumes "workspace_ready p ws"
  shows "workspace_ready p (next_generation ws)"
    "\<forall>g\<in>set (ws_changed (next_generation ws)) \<union> set (ws_activation_generations (next_generation ws)).
       g \<noteq> ws_generation (next_generation ws)"
proof -
  let ?new = "next_generation ws"
  have below: "unat g < unat (ws_generation ?new)"
    if "g \<in> set (ws_changed ?new) \<union> set (ws_activation_generations ?new)" for g
  proof (cases "ws_generation ws + 1 = 0")
    case True
    then show ?thesis using that by (auto simp: next_generation_def Let_def)
  next
    case False
    have "unat (ws_generation ws + 1) = Suc (unat (ws_generation ws))"
      using False by (metis add.commute unatSuc)
    then show ?thesis using that False assms
      by (auto simp: next_generation_def Let_def workspace_ready_def less_Suc_eq_le)
  qed
  then show "\<forall>g\<in>set (ws_changed ?new) \<union> set (ws_activation_generations ?new). g \<noteq> ws_generation ?new"
    by blast
  have "length (ws_changed ?new) = length (ws_changed ws)"
    "length (ws_activation_generations ?new) = length (ws_activation_generations ws)"
    by (simp_all add: next_generation_def Let_def)
  then show "workspace_ready p ?new"
    using assms less_imp_le [OF below] by (simp add: workspace_ready_def)
qed

subsection \<open>Marking sources\<close>

definition nominations :: "evaluation_plan \<Rightarrow> nat \<Rightarrow> int list" where
  "nominations p i = map int (consumers_of p i)"

text \<open>The workspace in the middle of an update that began with the workspace \<open>ws0\<close>.\<close>

definition marking :: "evaluation_plan \<Rightarrow> workspace \<Rightarrow> workspace \<Rightarrow> bool" where
  "marking p ws0 ws \<longleftrightarrow>
     workspace_ready p ws \<and> distinct (ws_changed_sources ws) \<and>
     set (ws_changed_sources ws) = {i. i < length (plan_sources p) \<and> ws_changed ws ! i = ws_generation ws} \<and>
     ws_consumers ws = fold dirty_insert (map (nominations p) (ws_changed_sources ws)) (dirty_clear (ws_consumers ws0)) \<and>
     (\<forall>i < length (plan_sources p). ws_invalid ws ! i = (ws_invalid ws0 ! i \<or> ws_changed ws ! i = ws_generation ws)) \<and>
     ws_values ws = ws_values ws0 \<and> ws_activations ws = ws_activations ws0 \<and>
     (\<forall>g\<in>set (ws_activation_generations ws). g \<noteq> ws_generation ws)"

lemma mark_source_ok:
  assumes "marking p ws0 ws" and "i < length (plan_sources p)"
  shows "marking p ws0 (mark_source p i ws) \<and>
    set (ws_changed_sources (mark_source p i ws)) = insert i (set (ws_changed_sources ws))"
proof (cases "ws_changed ws ! i = ws_generation ws")
  case True
  then show ?thesis using assms by (auto simp: mark_source_def marking_def)
next
  case False
  have ready: "workspace_ready p ws" using assms(1) by (simp add: marking_def)
  note len = workspace_ready_unfold [OF ready]
  have "workspace_ready p (mark_source p i ws)"
    using ready False dirty_insert_ok by (auto simp: mark_source_def workspace_ready_def dest!: set_update_subset_insert [THEN subsetD])
  moreover have "i \<notin> set (ws_changed_sources ws)" using assms(1) False by (simp add: marking_def)
  ultimately show ?thesis
    using assms False len
    by (auto simp: mark_source_def marking_def nth_list_update nominations_def consumers_of_def)
qed

lemma mark_sources_ok:
  assumes "marking p ws0 ws" and "\<forall>i\<in>set is. i < length (plan_sources p)"
  shows "marking p ws0 (fold (mark_source p) is ws) \<and>
    set (ws_changed_sources (fold (mark_source p) is ws)) = set is \<union> set (ws_changed_sources ws)"
  using assms by (induction "is" arbitrary: ws) (auto simp: mark_source_ok)

lemma reads_offset_bounds:
  "reads_offset programs i offset \<Longrightarrow> i < length programs \<and> 0 \<le> offset \<and> offset < 512"
  by (simp add: reads_offset_def)

lemma mark_offset_alt:
  "mark_offset p offset ws =
     (if offset < 0 \<or> offset \<ge> 512 then ws else fold (mark_source p) (offset_sources_of p offset) ws)"
  by (simp add: mark_offset_def offset_sources_of_def split: option.split)

lemma mark_offsets_ok:
  assumes "plan_ready programs calls p" and "marking p ws0 ws"
  shows "marking p ws0 (fold (mark_offset p) offsets ws) \<and>
    set (ws_changed_sources (fold (mark_offset p) offsets ws)) =
      {i. \<exists>offset\<in>set offsets. reads_offset programs i offset} \<union> set (ws_changed_sources ws)"
  using assms(2)
proof (induction offsets arbitrary: ws)
  case (Cons offset offsets)
  have sources: "set (offset_sources_of p offset) = {i. reads_offset programs i offset}"
    "length (plan_sources p) = length programs"
    using assms(1) by (simp_all add: plan_ready_def nodes_ok_def)
  have step: "marking p ws0 (mark_offset p offset ws) \<and>
      set (ws_changed_sources (mark_offset p offset ws)) = {i. reads_offset programs i offset} \<union> set (ws_changed_sources ws)"
    using mark_sources_ok [OF Cons.prems, of "offset_sources_of p offset"] Cons.prems sources
    by (auto simp: mark_offset_alt dest: reads_offset_bounds)
  show ?case using Cons.IH [of "mark_offset p offset ws"] step by auto
qed simp

subsection \<open>A plan in play\<close>

text \<open>The calls a client makes on an installed plan; a visit of the dirty consumers sorts them.\<close>

datatype plan_event = Update "int list" | Store nat evaluated_value | Activate nat bool | Visit

definition plan_step :: "plan_event \<Rightarrow> evaluation_plan \<Rightarrow> evaluation_plan option" where
  "plan_step e p =
     (case e of
        Update offsets \<Rightarrow> Some (begin_update offsets p)
      | Store i v \<Rightarrow> store_value i v p
      | Activate i a \<Rightarrow> store_activation i a p
      | Visit \<Rightarrow> Some (p\<lparr>plan_workspace :=
          (plan_workspace p)\<lparr>ws_consumers := dirty_begin (ws_consumers (plan_workspace p))\<rparr>\<rparr>))"

inductive plan_reachable :: "dmx_source_program list \<Rightarrow> consumer_call list \<Rightarrow> evaluation_plan \<Rightarrow> bool"
  for programs :: "dmx_source_program list" and calls :: "consumer_call list" where
  built: "plan_reachable programs calls (build programs diags calls)"
| step: "plan_reachable programs calls p \<Longrightarrow> plan_step e p = Some q \<Longrightarrow> plan_reachable programs calls q"

lemma find_offset_workspace [simp]: "find_offset offset (p\<lparr>plan_workspace := ws\<rparr>) = find_offset offset p"
  by (simp add: find_offset_def)

lemma workspace_irrelevant [simp]:
  "consumers_of (p\<lparr>plan_workspace := ws\<rparr>) = consumers_of p"
  "offset_sources_of (p\<lparr>plan_workspace := ws\<rparr>) = offset_sources_of p"
  "nodes_ok programs (p\<lparr>plan_workspace := ws\<rparr>) = nodes_ok programs p"
  "workspace_ready (p\<lparr>plan_workspace := ws\<rparr>) = workspace_ready p"
  by (simp_all add: fun_eq_iff consumers_of_def offset_sources_of_def nodes_ok_def workspace_ready_def
      split: option.split)

lemma plan_ready_workspace:
  assumes "plan_ready programs calls p" and "workspace_ready p ws"
  shows "plan_ready programs calls (p\<lparr>plan_workspace := ws\<rparr>)"
  using assms by (auto simp: plan_ready_def slots_ok_def workspace_ready_def)

lemma begin_update_marks:
  assumes "plan_ready programs calls p" and "workspace_ready p (plan_workspace p)"
  shows "\<exists>ws. begin_update offsets p = p\<lparr>plan_workspace := ws\<rparr> \<and> marking p (plan_workspace p) ws \<and>
    set (ws_changed_sources ws) = {i. \<exists>offset\<in>set offsets. reads_offset programs i offset}"
proof -
  let ?cleared = "(plan_workspace p)\<lparr>ws_consumers := dirty_clear (ws_consumers (plan_workspace p)), ws_changed_sources := []\<rparr>"
  let ?ws = "next_generation ?cleared"
  have ready: "workspace_ready p ?cleared"
    using assms(2) dirty_clear_ok by (auto simp: workspace_ready_def)
  note ws = next_generation_ok [OF ready]
  have len: "length (ws_changed ?ws) = length (plan_sources p)" using ws(1) by (rule workspace_ready_unfold)
  have "marking p (plan_workspace p) ?ws"
    using ws len by (auto simp: marking_def)
  note marked = mark_offsets_ok [OF assms(1) this, of offsets]
  then show ?thesis by (intro exI [of _ "fold (mark_offset p) offsets ?ws"]) (simp add: begin_update_def Let_def)
qed

definition store_slot :: "nat \<Rightarrow> bool \<Rightarrow> workspace \<Rightarrow> workspace" where
  "store_slot s a ws = ws\<lparr>ws_activations := (ws_activations ws)[s := a],
     ws_activation_generations := (ws_activation_generations ws)[s := ws_generation ws]\<rparr>"

lemma plan_step_ready:
  assumes "plan_ready programs calls p" and "workspace_ready p (plan_workspace p)" and "plan_step e p = Some q"
  shows "plan_ready programs calls q \<and> workspace_ready q (plan_workspace q)"
proof -
  have "\<exists>ws. q = p\<lparr>plan_workspace := ws\<rparr> \<and> workspace_ready p ws"
  proof (cases e)
    case (Update offsets)
    then show ?thesis using begin_update_marks [OF assms(1,2), of offsets] assms(3)
      by (auto simp: plan_step_def marking_def)
  next
    case (Store i v)
    then show ?thesis using assms(2,3)
      by (auto simp: plan_step_def store_value_def Let_def workspace_ready_def split: if_splits)
  next
    case (Activate i a)
    then obtain s where "activation_slot i p = Some s" and q: "q = p\<lparr>plan_workspace := store_slot s a (plan_workspace p)\<rparr>"
      using assms(3) by (auto simp: plan_step_def store_activation_def store_slot_def)
    then have "workspace_ready p (store_slot s a (plan_workspace p))"
      using assms(2) by (auto simp: workspace_ready_def store_slot_def dest!: set_update_subset_insert [THEN subsetD])
    then show ?thesis using q by blast
  next
    case Visit
    then show ?thesis using assms(2,3) dirty_begin_ok by (auto simp: plan_step_def workspace_ready_def)
  qed
  then show ?thesis using plan_ready_workspace [OF assms(1)] by auto
qed

lemma plan_reachable_ready:
  "plan_reachable programs calls p \<Longrightarrow> plan_ready programs calls p \<and> workspace_ready p (plan_workspace p)"
  by (induction rule: plan_reachable.induct) (auto simp: build_ready dest: plan_step_ready)

subsection \<open>What an update schedules\<close>

lemma scheduled_consumers:
  assumes "plan_ready programs calls p" and "marking p ws0 ws" and "dirty_ok (ws_consumers ws0)"
    and "dirty_capacity (ws_consumers ws0) = length calls"
  shows "dirty_visit (ws_consumers ws) = map int (filter (\<lambda>k. \<exists>i\<in>set (ws_changed_sources ws).
    depends_on_source programs (calls ! k) i) [0..<length calls])"
proof -
  let ?ks = "map int (filter (\<lambda>k. \<exists>i\<in>set (ws_changed_sources ws). depends_on_source programs (calls ! k) i) [0..<length calls])"
  have below: "i < length programs" if "i \<in> set (ws_changed_sources ws)" for i
    using that assms(1,2) by (auto simp: marking_def plan_ready_def nodes_ok_def)
  then have union: "\<Union> (set ` set (map (nominations p) (ws_changed_sources ws))) = set ?ks"
    using assms(1) by (auto simp: nominations_def plan_ready_def)
  have "set ?ks \<subseteq> {0..<int (dirty_capacity (ws_consumers ws0))}" using assms(4) by auto
  then have "dirty_visit (ws_consumers ws) = sorted_list_of_set (set ?ks)"
    using work_list.visit_after_nominations [OF assms(3), of "map (nominations p) (ws_changed_sources ws)"] assms(2) union
    by (simp add: marking_def)
  moreover have "sorted ?ks" "distinct ?ks"
    by (simp_all add: sorted_map sorted_wrt_filter distinct_map inj_on_def)
  ultimately show ?thesis by (metis sorted_list_of_set.idem_if_sorted_distinct)
qed

text \<open>C16: For a plan compiled from any programs and consumers and played in any way, an update with a
  list of offsets reports, once each, exactly the sources that read one of the offsets; its dirty
  consumers, in ascending order and once each, are exactly the consumers that depend on such a source,
  directly or, when they follow activation, through its chain of ModeMasters; a source needs decoding if it changed
  or was not decoded since it last did; and no cached value is touched.  Offsets outside a universe
  and duplicated offsets change nothing of that, and neither does a chain of masters that is a cycle.\<close>

theorem update_schedules_exactly:
  assumes "plan_reachable programs calls p" and "q = begin_update offsets p"
  shows "set (changed_sources q) = {i. \<exists>offset\<in>set offsets. reads_offset programs i offset} \<and>
    distinct (changed_sources q) \<and>
    dirty_consumers q = map int (filter (\<lambda>k. \<exists>i\<in>set (changed_sources q).
      depends_on_source programs (calls ! k) i) [0..<length calls]) \<and>
    (\<forall>i < length programs.
       source_changed i q = Some (i \<in> set (changed_sources q)) \<and>
       needs_evaluation i q = Some (needs_evaluation i p = Some True \<or> i \<in> set (changed_sources q)) \<and>
       value_at i q = value_at i p)"
proof -
  note ready = plan_reachable_ready [OF assms(1)]
  obtain ws where q: "q = p\<lparr>plan_workspace := ws\<rparr>" and m: "marking p (plan_workspace p) ws"
    and changed: "set (ws_changed_sources ws) = {i. \<exists>offset\<in>set offsets. reads_offset programs i offset}"
    using begin_update_marks ready unfolding assms(2) by blast
  have n: "length (plan_sources p) = length programs" "length (plan_consumers p) = length calls"
    using ready by (simp_all add: plan_ready_def nodes_ok_def)
  have lens: "length (ws_changed ws) = length programs" "length (ws_invalid ws) = length programs"
    "length (ws_invalid (plan_workspace p)) = length programs"
    using m ready n by (auto simp: marking_def workspace_ready_def)
  have "dirty_consumers q = map int (filter (\<lambda>k. \<exists>i\<in>set (ws_changed_sources ws).
      depends_on_source programs (calls ! k) i) [0..<length calls])"
    unfolding dirty_consumers_def q
    using scheduled_consumers [OF _ m, of programs calls] ready n by (simp add: workspace_ready_def)
  moreover have "distinct (ws_changed_sources ws) \<and> (\<forall>i < length programs.
       source_changed i q = Some (i \<in> set (ws_changed_sources ws)) \<and>
       needs_evaluation i q = Some (needs_evaluation i p = Some True \<or> i \<in> set (ws_changed_sources ws)) \<and>
       value_at i q = value_at i p)"
    using m n lens by (simp add: marking_def source_changed_def needs_evaluation_def value_at_def Let_def q)
  moreover have "changed_sources q = ws_changed_sources ws" by (simp add: changed_sources_def q)
  ultimately show ?thesis using changed by simp
qed

text \<open>A dimmer at offset 2 and a colour at offset 5 that the dimmer's program gates: both consumers
  follow a change of offset 2, the gated one through its master.\<close>

definition sample_programs :: "dmx_source_program list" where
  "sample_programs =
     [blank_program\<lparr>pr_program_id := 1, pr_sources := [\<lparr>bs_universe_id = 0, bs_address = 2, bs_byte_order = 0\<rparr>]\<rparr>,
      blank_program\<lparr>pr_program_id := 2, pr_sources := [\<lparr>bs_universe_id = 0, bs_address = 5, bs_byte_order = 0\<rparr>],
        pr_activation := blank_activation\<lparr>ac_target_kind := 1, ac_master_program_id := 1\<rparr>\<rparr>]"

definition sample_calls :: "consumer_call list" where
  "sample_calls =
     [\<lparr>call_domain = ColorDomain, call_index = 0, call_target = 7, call_sources = [1], call_activation = True\<rparr>,
      \<lparr>call_domain = PropertyDomain, call_index = 0, call_target = 8, call_sources = [0], call_activation = False\<rparr>,
      \<lparr>call_domain = PropertyDomain, call_index = 1, call_target = 9, call_sources = [1], call_activation = False\<rparr>]"

lemma update_schedules_exactly_witness:
  "set (changed_sources (begin_update [2, 700, 2] (build sample_programs [] sample_calls))) = {0} \<and>
   dirty_consumers (begin_update [2, 700, 2] (build sample_programs [] sample_calls)) = [0, 1]"
proof -
  let ?q = "begin_update [2, 700, 2] (build sample_programs [] sample_calls)"
  note update = update_schedules_exactly [OF plan_reachable.built [of sample_programs sample_calls "[]"] refl, of "[2, 700, 2]"]
  have reads: "reads_offset sample_programs i 2 \<longleftrightarrow> i = 0" "\<not> reads_offset sample_programs i 700" for i
    by (auto simp: reads_offset_def sample_programs_def blank_program_def less_Suc_eq)
  have changed: "set (changed_sources ?q) = {0}" using update by (simp add: reads)
  have "master_of sample_programs 1 = Some 0"
    by (simp add: master_of_def program_index_def sample_programs_def blank_program_def blank_activation_def)
  then have "(1, 0) \<in> (master_edges sample_programs)\<^sup>*" by (auto simp: master_edges_def)
  then have "depends_on_source sample_programs (sample_calls ! 0) 0" "depends_on_source sample_programs (sample_calls ! 1) 0"
    "\<not> depends_on_source sample_programs (sample_calls ! 2) 0"
    by (simp_all add: depends_on_source_def sample_calls_def sample_programs_def)
  moreover have "[0..<length sample_calls] = [0, 1, 2]" by (simp add: sample_calls_def upt_rec)
  ultimately have "map int (filter (\<lambda>k. \<exists>i\<in>set (changed_sources ?q). depends_on_source sample_programs (sample_calls ! k) i)
      [0..<length sample_calls]) = [0, 1]"
    unfolding changed by simp
  then show ?thesis using update changed by (metis (no_types, lifting))
qed

subsection \<open>The caches of a plan\<close>

text \<open>What the plan remembers: decoded values, activation results, and the sources of the update.\<close>

record plan_cache =
  cache_values :: "nat \<rightharpoonup> evaluated_value"
  cache_activations :: "nat \<rightharpoonup> bool"
  cache_changed :: "nat set"

definition cache_of :: "evaluation_plan \<Rightarrow> plan_cache" where
  "cache_of p = \<lparr>cache_values = (\<lambda>i. if needs_evaluation i p = Some False then value_at i p else None),
     cache_activations = (\<lambda>i. if activation_cached i p then activation_value i p else None),
     cache_changed = {i. source_changed i p = Some True}\<rparr>"

definition cache_step :: "dmx_source_program list \<Rightarrow> plan_event \<Rightarrow> plan_cache \<Rightarrow> plan_cache" where
  "cache_step programs e c =
     (case e of
        Update offsets \<Rightarrow>
          let changed = {i. \<exists>offset\<in>set offsets. reads_offset programs i offset}
          in \<lparr>cache_values = cache_values c |` (- changed), cache_activations = Map.empty, cache_changed = changed\<rparr>
      | Store i v \<Rightarrow> c\<lparr>cache_values := (cache_values c)(i \<mapsto> v)\<rparr>
      | Activate i a \<Rightarrow> c\<lparr>cache_activations := (cache_activations c)(i \<mapsto> a)\<rparr>
      | Visit \<Rightarrow> c)"

lemma activation_cached_workspace:
  "activation_cached i (p\<lparr>plan_workspace := ws\<rparr>) \<longleftrightarrow>
     (\<exists>s. activation_slot i p = Some s \<and> ws_activation_generations ws ! s = ws_generation ws)"
  by (simp add: activation_cached_def split: option.split)

lemma cache_update:
  assumes "plan_ready programs calls p" and "workspace_ready p (plan_workspace p)"
  shows "cache_of (begin_update offsets p) = cache_step programs (Update offsets) (cache_of p)"
proof -
  obtain ws where q: "begin_update offsets p = p\<lparr>plan_workspace := ws\<rparr>" and m: "marking p (plan_workspace p) ws"
    and changed: "set (ws_changed_sources ws) = {i. \<exists>offset\<in>set offsets. reads_offset programs i offset}"
    using begin_update_marks [OF assms] by blast
  have r: "workspace_ready p ws" using m by (simp add: marking_def)
  note len = workspace_ready_unfold [OF r] workspace_ready_unfold [OF assms(2)]
  have "\<not> activation_cached i (p\<lparr>plan_workspace := ws\<rparr>)" for i
    using m len(4,5) by (auto simp: activation_cached_workspace marking_def)
  moreover have "{i. source_changed i (p\<lparr>plan_workspace := ws\<rparr>) = Some True} = set (ws_changed_sources ws)"
    using m len(3) by (auto simp: source_changed_def marking_def Let_def)
  moreover have "(if needs_evaluation i (p\<lparr>plan_workspace := ws\<rparr>) = Some False then value_at i (p\<lparr>plan_workspace := ws\<rparr>) else None)
      = ((\<lambda>i. if needs_evaluation i p = Some False then value_at i p else None) |` (- set (ws_changed_sources ws))) i" for i
    using m len by (auto simp: needs_evaluation_def value_at_def marking_def Let_def restrict_map_def)
  ultimately show ?thesis
    unfolding q by (simp add: cache_of_def cache_step_def Let_def changed)
qed

lemma cache_step_refines:
  assumes "plan_ready programs calls p" and "workspace_ready p (plan_workspace p)" and "plan_step e p = Some q"
  shows "cache_of q = cache_step programs e (cache_of p)"
proof (cases e)
  case (Update offsets)
  then show ?thesis using cache_update [OF assms(1,2), of offsets] assms(3) by (auto simp: plan_step_def)
next
  case (Store i v)
  then show ?thesis using assms(3)
    by (auto simp: plan_step_def store_value_def cache_of_def cache_step_def needs_evaluation_def value_at_def
        activation_cached_def activation_value_def source_changed_def Let_def fun_eq_iff nth_list_update
        split: if_splits option.splits)
next
  case (Activate i a)
  then obtain s where s: "activation_slot i p = Some s" and q: "q = p\<lparr>plan_workspace := store_slot s a (plan_workspace p)\<rparr>"
    using assms(3) by (auto simp: plan_step_def store_activation_def store_slot_def)
  have less: "s < length (ws_activations (plan_workspace p))" "s < length (ws_activation_generations (plan_workspace p))"
    using workspace_ready_unfold [OF assms(2)] s by simp_all
  have other: "j = i" if "activation_slot j p = Some s" for j
    using that s assms(1) by (auto simp: plan_ready_def slots_ok_def)
  have "(if activation_cached j q then activation_value j q else None)
      = ((\<lambda>j. if activation_cached j p then activation_value j p else None)(i \<mapsto> a)) j" for j
  proof (cases "j = i")
    case True
    then show ?thesis using s less by (simp add: activation_cached_def activation_value_def q store_slot_def)
  next
    case False
    then have "activation_slot j p \<noteq> Some s" using other by blast
    then show ?thesis using False
      by (cases "activation_slot j p")
        (simp_all add: activation_cached_def activation_value_def q store_slot_def nth_list_update)
  qed
  then have "cache_activations (cache_of q) = (cache_activations (cache_of p))(i \<mapsto> a)"
    by (simp add: cache_of_def fun_eq_iff)
  moreover have "needs_evaluation j q = needs_evaluation j p" "value_at j q = value_at j p"
      "source_changed j q = source_changed j p" for j
    by (simp_all add: q store_slot_def needs_evaluation_def value_at_def source_changed_def Let_def)
  then have "cache_values (cache_of q) = cache_values (cache_of p)" "cache_changed (cache_of q) = cache_changed (cache_of p)"
    by (simp_all add: cache_of_def cong: if_cong)
  ultimately show ?thesis
    unfolding cache_step_def Activate by (intro plan_cache.equality) simp_all
next
  case Visit
  then show ?thesis using assms(3)
    by (auto simp: plan_step_def cache_of_def cache_step_def needs_evaluation_def value_at_def
        activation_cached_def activation_value_def source_changed_def Let_def split: option.splits)
qed

text \<open>The calls of a whole session; \<^term>\<open>None\<close> when one of them is outside the plan.\<close>

primrec plan_run :: "plan_event list \<Rightarrow> evaluation_plan \<Rightarrow> evaluation_plan option" where
  "plan_run [] p = Some p"
| "plan_run (e # es) p = (case plan_step e p of None \<Rightarrow> None | Some q \<Rightarrow> plan_run es q)"

lemma plan_run_total:
  assumes "plan_reachable programs calls p"
    and "\<forall>e\<in>set es. (case e of Store i v \<Rightarrow> i < length programs | Activate i a \<Rightarrow> False | _ \<Rightarrow> True)"
  shows "\<exists>q. plan_run es p = Some q"
  using assms
proof (induction es arbitrary: p)
  case (Cons e es)
  have "\<exists>q. plan_step e p = Some q"
    using Cons.prems plan_reachable_ready [OF Cons.prems(1)]
    by (cases e) (simp_all add: plan_step_def store_value_def Let_def workspace_ready_def plan_ready_def nodes_ok_def)
  then obtain q where q: "plan_step e p = Some q" by blast
  then show ?case using Cons.IH [OF plan_reachable.step [OF Cons.prems(1) q]] Cons.prems(2) by simp
qed simp

lemma plan_run_refines:
  assumes "plan_ready programs calls p" and "workspace_ready p (plan_workspace p)" and "plan_run es p = Some q"
  shows "cache_of q = fold (cache_step programs) es (cache_of p)"
  using assms
proof (induction es arbitrary: p)
  case (Cons e es)
  then obtain p' where "plan_step e p = Some p'" and "plan_run es p' = Some q" by (auto split: option.splits)
  then show ?case
    using Cons.IH [of p'] plan_step_ready [OF Cons.prems(1,2)] cache_step_refines [OF Cons.prems(1,2)] by simp
qed simp

lemma build_uncached: "needs_evaluation i (build programs diags calls) \<noteq> Some False"
proof -
  have ok: "building_ok programs (fold add_call calls (fst (install programs diags empty_plan)))"
    using add_calls_ok [OF installed_ok] by (simp add: installed empty_plan_def)
  show ?thesis using finished(6) [OF ok refl] by (simp add: needs_evaluation_def Let_def build_def)
qed

text \<open>C17: A compiled plan caches exactly like the obvious maps.  From the first update on, whatever is
  stored and updated after it: the values that need no decoding are those stored for their source and
  not touched by an offset of a later update, the cached activations are those stored since the last update, each
  the last one stored for its source, and the changed sources are those of the last update.  The
  generation stamps, their wrap-around and the shared activation slots are not observable.\<close>

theorem plan_caches_like_maps:
  assumes "plan_run (Update offsets # es) (build programs diags calls) = Some p"
  shows "cache_of p = fold (cache_step programs) (Update offsets # es)
    \<lparr>cache_values = Map.empty, cache_activations = Map.empty, cache_changed = {}\<rparr>"
proof -
  let ?b = "build programs diags calls"
  have "cache_of p = fold (cache_step programs) es (cache_step programs (Update offsets) (cache_of ?b))"
    using plan_run_refines [OF _ _ assms, of programs calls] build_ready by simp
  moreover note build_uncached [of _ programs diags calls]
  ultimately show ?thesis by (simp add: cache_step_def cache_of_def Let_def)
qed

lemma plan_caches_like_maps_witness:
  "\<exists>p. plan_run [Update [2], Store 0 blank_value, Update [5], Store 1 blank_value, Update [2, 5]]
       (build sample_programs [] sample_calls) = Some p \<and>
     cache_values (cache_of p) = Map.empty \<and> cache_changed (cache_of p) = {0, 1}"
proof -
  let ?b = "build sample_programs [] sample_calls"
  have "\<exists>p. plan_run [Update [2], Store 0 blank_value, Update [5], Store 1 blank_value, Update [2, 5]] ?b = Some p"
    by (rule plan_run_total [OF plan_reachable.built]) (simp add: sample_programs_def)
  then obtain p where p: "plan_run (Update [2] # [Store 0 blank_value, Update [5], Store 1 blank_value, Update [2, 5]]) ?b = Some p"
    by blast
  have reads: "{i. reads_offset sample_programs i 2} = {0}" "{i. reads_offset sample_programs i 5} = {1}"
    "{i. reads_offset sample_programs i 2 \<or> reads_offset sample_programs i 5} = {0, 1}"
    by (auto simp: reads_offset_def sample_programs_def blank_program_def less_Suc_eq)
  show ?thesis
    using plan_caches_like_maps [OF p] p
    by (intro exI [of _ p]) (simp add: cache_step_def Let_def reads fun_eq_iff restrict_map_def)
qed

end
