(* ===== verification/Xchange_Packet.thy ===== *)
theory Xchange_Packet
  imports Prelude
begin

text \<open>
  Packages and messages of MVR-xchange (\<open>mvrxchange/mvr_xchange_packet.cpp\<close>): the binary package header,
  the small JSON messages, and the regular expressions that read a field back.  A \<open>std::string\<close> is a
  list of characters, its bytes; the field names of the expressions are letters, so that a name stands for
  itself up to case.
\<close>

subsection \<open>Packages\<close>

definition kMvrPackageHeader :: u32 where "kMvrPackageHeader = 778682"
definition kMvrPackageVersion :: u32 where "kMvrPackageVersion = 1"
definition kMvrPackageTypeJson :: u32 where "kMvrPackageTypeJson = 0"
definition kMvrPackageTypeMvr :: u32 where "kMvrPackageTypeMvr = 1"

record xchange_packet =
  package_number :: u32
  package_count :: u32
  package_type :: u32
  payload :: string

definition append_u32 :: "string \<Rightarrow> u32 \<Rightarrow> string" where
  "append_u32 out v = out @ [char_of (unat (drop_bit 24 v AND 255)), char_of (unat (drop_bit 16 v AND 255)),
     char_of (unat (drop_bit 8 v AND 255)), char_of (unat (v AND 255))]"

definition append_u64 :: "string \<Rightarrow> u64 \<Rightarrow> string" where
  "append_u64 out v = fold (\<lambda>shift out. out @ [char_of (unat (drop_bit shift v AND 255))])
     [56, 48, 40, 32, 24, 16, 8, 0] out"

definition read_u32 :: "string \<Rightarrow> nat \<Rightarrow> u32" where
  "read_u32 data offset =
     push_bit 24 (of_nat (code_of (data ! offset))) OR push_bit 16 (of_nat (code_of (data ! (offset + 1)))) OR
     push_bit 8 (of_nat (code_of (data ! (offset + 2)))) OR of_nat (code_of (data ! (offset + 3)))"

definition read_u64 :: "string \<Rightarrow> nat \<Rightarrow> u64" where
  "read_u64 data offset =
     fold (\<lambda>i value. push_bit 8 value OR of_nat (code_of (data ! (offset + i)))) [0..<8] 0"

definition build_mvr_package :: "u32 \<Rightarrow> string \<Rightarrow> string" where
  "build_mvr_package t body =
     append_u64 (append_u32 (append_u32 (append_u32 (append_u32 (append_u32 [] kMvrPackageHeader)
       kMvrPackageVersion) 0) 1) t) (of_nat (length body)) @ body"

function parse_packages_from :: "string \<Rightarrow> nat \<Rightarrow> xchange_packet list" where
  "parse_packages_from data offset =
     (if offset + 28 \<le> length data then
        if read_u32 data offset \<noteq> kMvrPackageHeader \<or> read_u32 data (offset + 4) \<noteq> kMvrPackageVersion then []
        else let len = unat (read_u64 data (offset + 20)); start = offset + 28 in
          if len > length data - start then []
          else \<lparr>package_number = read_u32 data (offset + 8), package_count = read_u32 data (offset + 12),
                package_type = read_u32 data (offset + 16), payload = take len (drop start data)\<rparr>
               # parse_packages_from data (start + len)
      else [])"
  by pat_completeness auto
termination by (relation "measure (\<lambda>(data, offset). Suc (length data) - offset)") auto

declare parse_packages_from.simps [simp del]

definition parse_mvr_packages :: "string \<Rightarrow> xchange_packet list" where
  "parse_mvr_packages data = parse_packages_from data 0"

subsection \<open>Messages\<close>

definition json_escape :: "string \<Rightarrow> string" where
  "json_escape v = concat (map (\<lambda>c. if c = CHR 0x5C \<or> c = CHR 0x22 then [CHR 0x5C, c] else [c]) v)"

fun hex_digits :: "string \<Rightarrow> string option" where
  "hex_digits [] = Some []"
| "hex_digits (c # cs) =
     (if c = CHR ''{'' \<or> c = CHR ''}'' \<or> c = CHR ''-'' then hex_digits cs
      else if \<not> isxdigit_c c then None
      else map_option ((#) (tolower_c c)) (hex_digits cs))"

definition canonicalize_uuid :: "string \<Rightarrow> string" where
  "canonicalize_uuid v =
     (case hex_digits v of
        None \<Rightarrow> []
      | Some hex \<Rightarrow>
          if length hex \<noteq> 32 then []
          else take 8 hex @ ''-'' @ take 4 (drop 8 hex) @ ''-'' @ take 4 (drop 12 hex) @ ''-''
            @ take 4 (drop 16 hex) @ ''-'' @ take 12 (drop 20 hex))"

definition is_valid_uuid :: "string \<Rightarrow> bool" where
  "is_valid_uuid v \<longleftrightarrow> canonicalize_uuid v \<noteq> []"

definition build_join_message :: "string \<Rightarrow> string \<Rightarrow> string" where
  \<open>build_join_message station_name station_uuid =
     ''{"Type":"MVR_JOIN","Provider":"Peraviz","verMajor":1,"verMinor":6,"StationUUID":"''
     @ json_escape station_uuid @ ''","StationName":"'' @ json_escape station_name @ ''","Commits":[]}''\<close>

definition build_join_ret_message :: "string \<Rightarrow> string \<Rightarrow> bool \<Rightarrow> string \<Rightarrow> string" where
  \<open>build_join_ret_message station_name station_uuid ok message =
     ''{"Type":"MVR_JOIN_RET","OK":'' @ (if ok then ''true'' else ''false'')
     @ '',"Message":"'' @ json_escape message
     @ ''","Provider":"Peraviz","verMajor":1,"verMinor":6,"StationUUID":"'' @ json_escape station_uuid
     @ ''","StationName":"'' @ json_escape station_name @ ''","Commits":[]}''\<close>

definition build_request_message :: "string \<Rightarrow> string \<Rightarrow> string" where
  \<open>build_request_message station_uuid file_uuid =
     (let from_uuid = canonicalize_uuid station_uuid; requested = canonicalize_uuid file_uuid in
      ''{"Type":"MVR_REQUEST","FromStationUUID":"''
      @ json_escape (if from_uuid = [] then station_uuid else from_uuid) @ ''"''
      @ (if requested \<noteq> [] then '',"FileUUID":"'' @ json_escape requested @ ''"'' else [])
      @ ''}'')\<close>

subsection \<open>Reading a field\<close>

definition is_quote :: "char \<Rightarrow> bool" where
  "is_quote c \<longleftrightarrow> c = CHR 0x22 \<or> c = CHR 0x27"

text \<open>\<open>["']\<close>, the name regardless of case, and \<open>\s*:\s*\<close>, each with the text behind the match.\<close>

definition match_quote :: "string \<Rightarrow> string option" where
  "match_quote s = (case s of [] \<Rightarrow> None | c # r \<Rightarrow> if is_quote c then Some r else None)"

definition match_name :: "string \<Rightarrow> string \<Rightarrow> string option" where
  "match_name n s =
     (if length n \<le> length s \<and> lower_string (take (length n) s) = lower_string n
      then Some (drop (length n) s) else None)"

definition match_colon :: "string \<Rightarrow> string option" where
  "match_colon s =
     (case dropWhile isspace_c s of
        [] \<Rightarrow> None
      | c # r \<Rightarrow> if c = CHR '':'' then Some (dropWhile isspace_c r) else None)"

definition match_key :: "string \<Rightarrow> string \<Rightarrow> string option" where
  "match_key n s =
     Option.bind (match_quote s) (\<lambda>s. Option.bind (match_name n s) (\<lambda>s. Option.bind (match_quote s) match_colon))"

definition match_string :: "string \<Rightarrow> string option" where
  "match_string s =
     (case match_quote s of
        None \<Rightarrow> None
      | Some r \<Rightarrow> if dropWhile (\<lambda>c. \<not> is_quote c) r \<noteq> [] then Some (takeWhile (\<lambda>c. \<not> is_quote c) r) else None)"

definition match_number :: "string \<Rightarrow> string option" where
  "match_number s = (let ds = takeWhile isdigit_c s in if ds \<noteq> [] then Some ds else None)"

text \<open>\<open>std::regex_search\<close>: the first position where the expression matches.\<close>

fun regex_search :: "(string \<Rightarrow> string option) \<Rightarrow> string \<Rightarrow> string option" where
  "regex_search f [] = f []"
| "regex_search f (c # s) = (case f (c # s) of Some v \<Rightarrow> Some v | None \<Rightarrow> regex_search f s)"

fun json_string_value :: "string \<Rightarrow> string list \<Rightarrow> string" where
  "json_string_value t [] = []"
| "json_string_value t (n # ns) =
     (case regex_search (\<lambda>s. Option.bind (match_key n s) match_string) t of
        Some v \<Rightarrow> v
      | None \<Rightarrow>
          (case regex_search (\<lambda>s. Option.bind (match_key n s) match_number) t of
             Some v \<Rightarrow> v
           | None \<Rightarrow> json_string_value t ns))"

subsection \<open>Packages are read back\<close>

lemma low_byte: "(w :: 'a::len word) AND 255 = take_bit 8 w"
  by (simp add: take_bit_eq_mask mask_eq_exp_minus_1)

lemma join_bytes32:
  "push_bit 24 (drop_bit 24 v AND 255) OR push_bit 16 (drop_bit 16 v AND 255) OR
   push_bit 8 (drop_bit 8 v AND 255) OR (v AND 255) = (v :: u32)"
  unfolding low_byte
proof (rule bit_word_eqI)
  fix n :: nat assume "n < LENGTH(32)"
  then consider "n < 8" | "8 \<le> n" "n < 16" | "16 \<le> n" "n < 24" | "24 \<le> n" "n < 32" by fastforce
  then show "bit (push_bit 24 (take_bit 8 (drop_bit 24 v)) OR push_bit 16 (take_bit 8 (drop_bit 16 v)) OR
      push_bit 8 (take_bit 8 (drop_bit 8 v)) OR take_bit 8 v) n = bit v n"
    by cases (auto simp: bit_simps)
qed

lemma byte_code [simp]:
  "code_of (char_of (unat (w AND 255 :: 'a::len word))) = unat (w AND 255)"
proof -
  have "unat (w AND 255) \<le> unat (255 :: 'a word)" using word_and_le1 [of w 255] by (simp add: word_le_nat_alt)
  also have "\<dots> \<le> 255" by (metis unat_of_nat mod_less_eq_dividend of_nat_numeral)
  finally show ?thesis by (intro code_of_char_of) simp
qed

lemma read_appended_u32: "read_u32 (pre @ append_u32 [] v @ rest) (length pre) = v"
  using join_bytes32 [of v] by (simp add: read_u32_def append_u32_def nth_append)

lemma append_u32_eq: "append_u32 out v = out @ append_u32 [] v"
  by (simp add: append_u32_def)

lemma append_u64_eq: "append_u64 out v = out @ append_u64 [] v"
  by (simp add: append_u64_def)

lemma length_append_u [simp]: "length (append_u32 out v) = length out + 4" "length (append_u64 out w) = length out + 8"
  by (simp_all add: append_u32_def append_u64_def)

definition byte_at :: "u64 \<Rightarrow> nat \<Rightarrow> char" where
  "byte_at v k = char_of (unat (drop_bit k v AND 255))"

definition shift_in :: "char \<Rightarrow> u64 \<Rightarrow> u64" where
  "shift_in c value = push_bit 8 value OR of_nat (code_of c)"

lemma code_byte_at: "code_of (byte_at v k) = unat (take_bit 8 (drop_bit k v))"
  unfolding byte_at_def byte_code by (simp add: low_byte)

lemma shift_in_byte:
  assumes "m = k + 8"
  shows "shift_in (byte_at v k) (drop_bit m v) = drop_bit k v"
proof -
  have "push_bit 8 (drop_bit (k + 8) v) OR take_bit 8 (drop_bit k v) = drop_bit k v"
    by (rule bit_word_eqI) (auto simp: bit_simps not_le algebra_simps)
  then show ?thesis by (simp add: shift_in_def code_byte_at assms)
qed

lemma shift_in_first: "shift_in (byte_at v 56) 0 = drop_bit 56 v"
proof -
  have "take_bit 8 (drop_bit 56 v) = drop_bit 56 v"
    by (rule bit_word_eqI) (auto simp: bit_simps dest: bit_imp_le_length)
  then show ?thesis by (simp add: shift_in_def code_byte_at)
qed

lemma append_u64_bytes: "append_u64 [] v = map (byte_at v) [56, 48, 40, 32, 24, 16, 8, 0]"
  by (simp add: append_u64_def byte_at_def)

lemma read_u64_bytes:
  assumes "offset + 8 \<le> length data"
  shows "read_u64 data offset = fold shift_in (take 8 (drop offset data)) 0"
proof -
  have "take 8 (drop offset data) = map (\<lambda>i. data ! (offset + i)) [0..<8]"
    using assms by (intro nth_equalityI) simp_all
  then show ?thesis by (simp add: read_u64_def fold_map shift_in_def [abs_def] comp_def)
qed

lemma read_appended_u64: "read_u64 (pre @ append_u64 [] v @ rest) (length pre) = v"
proof -
  have "read_u64 (pre @ append_u64 [] v @ rest) (length pre) = fold shift_in (append_u64 [] v) 0"
    by (subst read_u64_bytes) simp_all
  also have "\<dots> = v"
    unfolding append_u64_bytes
    by (simp add: shift_in_first shift_in_byte [of 56 48] shift_in_byte [of 48 40] shift_in_byte [of 40 32]
        shift_in_byte [of 32 24] shift_in_byte [of 24 16] shift_in_byte [of 16 8] shift_in_byte [of 8 0])
  finally show ?thesis .
qed

definition package_header :: "u32 \<Rightarrow> u64 \<Rightarrow> string" where
  "package_header t n = append_u32 [] kMvrPackageHeader @ append_u32 [] kMvrPackageVersion @ append_u32 [] 0 @
     append_u32 [] 1 @ append_u32 [] t @ append_u64 [] n"

lemma build_mvr_package_header: "build_mvr_package t b = package_header t (of_nat (length b)) @ b"
  unfolding build_mvr_package_def package_header_def
  by (subst append_u64_eq, subst append_u32_eq, subst (2) append_u32_eq, subst (3) append_u32_eq,
      subst (4) append_u32_eq) simp

lemma length_package_header [simp]: "length (package_header t n) = 28"
  by (simp add: package_header_def)

lemma read_u32_at: "n = length pre \<Longrightarrow> read_u32 (pre @ append_u32 [] v @ rest) n = v"
  by (simp add: read_appended_u32)

lemma read_header:
  fixes t n
  assumes "data = pre @ package_header t n @ rest"
  shows "read_u32 data (length pre) = kMvrPackageHeader" "read_u32 data (length pre + 4) = kMvrPackageVersion"
    "read_u32 data (length pre + 8) = 0" "read_u32 data (length pre + 12) = 1"
    "read_u32 data (length pre + 16) = t" "read_u64 data (length pre + 20) = n"
proof -
  let ?h = "append_u32 [] kMvrPackageHeader" and ?v = "append_u32 [] kMvrPackageVersion"
    and ?z = "append_u32 [] 0" and ?o = "append_u32 [] 1" and ?t = "append_u32 [] t"
  have data: "data = pre @ ?h @ ?v @ ?z @ ?o @ ?t @ append_u64 [] n @ rest"
    by (simp add: assms package_header_def)
  show "read_u32 data (length pre) = kMvrPackageHeader" unfolding data by (rule read_appended_u32)
  show "read_u32 data (length pre + 4) = kMvrPackageVersion"
    using read_u32_at [of "length pre + 4" "pre @ ?h"] by (simp add: data)
  show "read_u32 data (length pre + 8) = 0"
    using read_u32_at [of "length pre + 8" "pre @ ?h @ ?v"] by (simp add: data)
  show "read_u32 data (length pre + 12) = 1"
    using read_u32_at [of "length pre + 12" "pre @ ?h @ ?v @ ?z"] by (simp add: data)
  show "read_u32 data (length pre + 16) = t"
    using read_u32_at [of "length pre + 16" "pre @ ?h @ ?v @ ?z @ ?o"] by (simp add: data)
  show "read_u64 data (length pre + 20) = n"
    using read_appended_u64 [of "pre @ ?h @ ?v @ ?z @ ?o @ ?t" n rest] by (simp add: data)
qed

lemma parse_header:
  assumes "data = pre @ package_header t n @ rest"
  shows "parse_packages_from data (length pre) =
    (if unat n > length rest then []
     else \<lparr>package_number = 0, package_count = 1, package_type = t, payload = take (unat n) rest\<rparr>
       # parse_packages_from data (length pre + 28 + unat n))"
proof -
  have "length data = length pre + 28 + length rest" "drop (length pre + 28) data = rest"
    by (simp_all add: assms)
  then show ?thesis
    using read_header [OF assms] by (subst parse_packages_from.simps) (simp add: Let_def)
qed

definition sent_packet :: "u32 \<times> string \<Rightarrow> xchange_packet" where
  "sent_packet p = \<lparr>package_number = 0, package_count = 1, package_type = fst p, payload = snd p\<rparr>"

definition sent_bytes :: "(u32 \<times> string) list \<Rightarrow> string" where
  "sent_bytes ps = concat (map (\<lambda>(t, b). build_mvr_package t b) ps)"

lemma sent_bytes_simps [simp]:
  "sent_bytes [] = []" "sent_bytes ((t, b) # ps) = build_mvr_package t b @ sent_bytes ps"
  by (simp_all add: sent_bytes_def)

lemma length_build_mvr_package [simp]: "length (build_mvr_package t b) = 28 + length b"
  by (simp add: build_mvr_package_header)

lemma parse_partial:
  assumes "strict_prefix part (build_mvr_package t b)" and "length b < 2 ^ 64"
  shows "parse_packages_from (pre @ part) (length pre) = []"
proof (cases "length part < 28")
  case True
  then show ?thesis by (subst parse_packages_from.simps) simp
next
  case False
  have n: "unat (of_nat (length b) :: u64) = length b"
    using assms(2) by (simp add: unat_of_nat take_bit_nat_eq_self)
  obtain more where more: "package_header t (of_nat (length b)) @ b = part @ more" "more \<noteq> []"
    using assms(1) by (auto simp: build_mvr_package_header strict_prefix_def prefix_def)
  then have "part = take (length part) (package_header t (of_nat (length b)) @ b)" by simp
  then obtain rest where rest: "part = package_header t (of_nat (length b)) @ rest"
    using False by (simp add: take_append)
  then have "length rest < length b"
    using more by (metis append_assoc append_eq_append_conv length_append less_add_same_cancel1 length_greater_0_conv same_append_eq)
  then show ?thesis using parse_header [of "pre @ part" pre t "of_nat (length b)" rest] n by (simp add: rest)
qed

lemma parse_sent:
  assumes "\<forall>(t, b)\<in>set ps. length b < 2 ^ 64"
    and "parse_packages_from (pre @ sent_bytes ps @ rest) (length (pre @ sent_bytes ps)) = qs"
  shows "parse_packages_from (pre @ sent_bytes ps @ rest) (length pre) = map sent_packet ps @ qs"
  using assms
proof (induction ps arbitrary: pre)
  case (Cons p ps)
  obtain t b where p: "p = (t, b)" by (cases p)
  have n: "unat (of_nat (length b) :: u64) = length b"
    using Cons.prems(1) p by (simp add: unat_of_nat take_bit_nat_eq_self)
  let ?pre = "pre @ build_mvr_package t b"
  have data: "pre @ sent_bytes (p # ps) @ rest = ?pre @ sent_bytes ps @ rest" by (simp add: p)
  have ih: "parse_packages_from (?pre @ sent_bytes ps @ rest) (length ?pre) = map sent_packet ps @ qs"
    using Cons.IH [of ?pre] Cons.prems data p by simp
  have "?pre @ sent_bytes ps @ rest = pre @ package_header t (of_nat (length b)) @ b @ sent_bytes ps @ rest"
    by (simp add: build_mvr_package_header)
  from parse_header [OF this] show ?case
    using ih n p by (simp add: sent_packet_def build_mvr_package_header add.assoc)
qed simp

text \<open>C30: Whatever packages a station sends in a row, and wherever the connection breaks inside the
  next one, the receiver gets exactly the complete packages, with their types and payloads and in order.\<close>

theorem mvr_packages_roundtrip:
  assumes "\<forall>(t, b)\<in>set ps. length b < 2 ^ 64"
    and "strict_prefix part (build_mvr_package t b)" and "length b < 2 ^ 64"
  shows "parse_mvr_packages (sent_bytes ps @ part) = map sent_packet ps"
  using parse_sent [of ps "[]" part] parse_partial [OF assms(2,3), of "sent_bytes ps"] assms(1)
  by (simp add: parse_mvr_packages_def)

lemma mvr_packages_roundtrip_witness:
  "parse_mvr_packages (sent_bytes [(0, ''{}''), (1, ''PK'')] @ take 29 (build_mvr_package 1 ''PK'')) =
    [sent_packet (0, ''{}''), sent_packet (1, ''PK'')]"
proof -
  have "take 29 (build_mvr_package 1 ''PK'') \<noteq> build_mvr_package 1 ''PK''"
    by (rule notI, drule arg_cong [where f = length]) simp
  then have "strict_prefix (take 29 (build_mvr_package 1 ''PK'')) (build_mvr_package 1 ''PK'')"
    by (metis strict_prefixI take_is_prefix)
  from mvr_packages_roundtrip [OF _ this, of "[(0, ''{}''), (1, ''PK'')]"]
  show ?thesis by simp
qed

end
