(* ===== verification/Xchange_Messages.thy ===== *)
theory Xchange_Messages
  imports Xchange_Packet
begin

text \<open>
  What a station reads out of the messages of another: the search for a field steps over every quoted
  text that is not its name, and the value it returns ends at the first quote of either kind.
\<close>

named_theorems message_simps \<open>searching the messages the stations build\<close>

subsection \<open>Searching\<close>

definition quote_free :: "string \<Rightarrow> bool" where
  "quote_free v \<longleftrightarrow> (\<forall>c\<in>set v. \<not> is_quote c)"

definition quoted :: "string \<Rightarrow> string" where
  "quoted v = CHR 0x22 # v @ [CHR 0x22]"

definition key_search :: "(string \<Rightarrow> string option) \<Rightarrow> string \<Rightarrow> string \<Rightarrow> string option" where
  "key_search g n = regex_search (\<lambda>s. Option.bind (match_key n s) g)"

lemma quote_free_simps [simp]:
  "quote_free []" "quote_free (c # v) \<longleftrightarrow> \<not> is_quote c \<and> quote_free v"
  "quote_free (v @ w) \<longleftrightarrow> quote_free v \<and> quote_free w"
  by (auto simp: quote_free_def)

lemma is_quote_code: "is_quote c \<longleftrightarrow> code_of c = 34 \<or> code_of c = 39"
proof -
  have eq: "c = d \<longleftrightarrow> code_of c = code_of d" for d by (simp add: code_of_def)
  show ?thesis unfolding is_quote_def eq by (simp add: code_of_def)
qed

lemma is_quote_tolower [simp]: "is_quote (tolower_c c) = is_quote c"
  by (auto simp: is_quote_code code_of_tolower)

lemma quote_free_lower [simp]: "quote_free (lower_string v) = quote_free v"
  by (simp add: quote_free_def lower_string_def)

lemma match_name_token:
  assumes "quote_free n" and "quote_free v" and "is_quote q"
  shows "Option.bind (match_name n (v @ q # s)) match_quote = (if lower_string v = lower_string n then Some s else None)"
proof -
  consider "length v = length n" | "length n < length v" | "length v < length n" by linarith
  then show ?thesis
  proof cases
    case 1
    then show ?thesis using assms(3) by (simp add: match_name_def match_quote_def)
  next
    case 2
    then have "lower_string v \<noteq> lower_string n" by (metis length_lower_string less_irrefl)
    moreover have "drop (length n) (v @ q # s) = v ! length n # drop (Suc (length n)) v @ q # s"
      using 2 by (simp add: Cons_nth_drop_Suc [symmetric])
    moreover have "\<not> is_quote (v ! length n)" using 2 assms(2) by (simp add: quote_free_def)
    ultimately show ?thesis by (simp add: match_name_def match_quote_def)
  next
    case 3
    then have "lower_string v \<noteq> lower_string n" by (metis length_lower_string less_irrefl)
    moreover have "lower_string (take (length n) (v @ q # s)) \<noteq> lower_string n" if "length n \<le> length (v @ q # s)"
    proof
      assume "lower_string (take (length n) (v @ q # s)) = lower_string n"
      moreover have "q \<in> set (take (length n) (v @ q # s))" using 3 by (cases "length n - length v") auto
      ultimately have "tolower_c q \<in> set (lower_string n)" by (metis imageI lower_string_def set_map)
      then show False using assms(1,3) quote_free_lower [of n] by (auto simp: quote_free_def)
    qed
    ultimately show ?thesis
      by (cases "length n \<le> length (v @ q # s)") (simp_all add: match_name_def del: take_append)
  qed
qed

lemma match_key_quoted:
  assumes "quote_free n" and "quote_free v"
  shows "match_key n (quoted v @ s) = (if lower_string v = lower_string n then match_colon s else None)"
proof -
  have "match_quote (quoted v @ s) = Some (v @ CHR 0x22 # s)" by (simp add: quoted_def match_quote_def is_quote_def)
  then show ?thesis
    using match_name_token [OF assms, of "CHR 0x22" s]
    by (cases "match_name n (v @ CHR 0x22 # s)") (auto simp: match_key_def is_quote_def split: if_splits)
qed

lemma key_search_Cons:
  "key_search g n (c # s) = (case Option.bind (match_key n (c # s)) g of Some x \<Rightarrow> Some x | None \<Rightarrow> key_search g n s)"
  unfolding key_search_def by (rule regex_search.simps)

lemma key_search_Nil [message_simps]: "key_search g n [] = None"
  by (simp add: key_search_def match_key_def match_quote_def)

lemma key_search_skip [message_simps]: "\<not> is_quote c \<Longrightarrow> key_search g n (c # s) = key_search g n s"
  by (simp add: key_search_def match_key_def match_quote_def)

lemma key_search_free [message_simps]: "quote_free v \<Longrightarrow> key_search g n (v @ s) = key_search g n s"
  by (induction v) (simp_all add: key_search_skip)

lemma key_search_quoted [message_simps]:
  assumes "quote_free n" and "quote_free v" and "n \<noteq> []" and "tolower_c c \<noteq> tolower_c (hd n)" and "\<not> is_quote c"
  shows "key_search g n (quoted v @ c # s) =
    (if lower_string v = lower_string n
     then (case Option.bind (match_colon (c # s)) g of Some x \<Rightarrow> Some x | None \<Rightarrow> key_search g n s)
     else key_search g n s)"
proof -
  have "match_key n (CHR 0x22 # c # s) = None"
    using assms(3,4) by (cases n) (simp_all add: match_key_def match_quote_def match_name_def lower_string_def is_quote_def)
  then have close: "key_search g n (CHR 0x22 # c # s) = key_search g n s"
    using key_search_skip [OF assms(5)] by (simp add: key_search_def)
  have "key_search g n (quoted v @ c # s) =
      (case Option.bind (match_key n (quoted v @ c # s)) g of Some x \<Rightarrow> Some x | None \<Rightarrow> key_search g n (v @ CHR 0x22 # c # s))"
    by (simp add: quoted_def key_search_Cons [of g n "CHR 0x22"])
  then show ?thesis
    using close key_search_free [OF assms(2), of g n "CHR 0x22 # c # s"]
    by (simp add: match_key_quoted [OF assms(1,2)] split: option.split)
qed

lemma json_string_value_search [message_simps]:
  "json_string_value t [] = []"
  "json_string_value t (n # ns) =
     (case key_search match_string n t of Some v \<Rightarrow> v
      | None \<Rightarrow> (case key_search match_number n t of Some v \<Rightarrow> v | None \<Rightarrow> json_string_value t ns))"
  unfolding key_search_def by (rule json_string_value.simps)+

declare json_string_value.simps [simp del] regex_search.simps [simp del]

lemma match_string_quoted [message_simps]:
  "match_string (quoted v @ s) = Some (takeWhile (\<lambda>c. \<not> is_quote c) v)"
proof -
  have "dropWhile (\<lambda>c. \<not> is_quote c) (v @ CHR 0x22 # s) \<noteq> []" by (induction v) (simp_all add: is_quote_def)
  moreover have "takeWhile (\<lambda>c. \<not> is_quote c) (v @ CHR 0x22 # s) = takeWhile (\<lambda>c. \<not> is_quote c) v"
    by (induction v) (simp_all add: is_quote_def)
  moreover have "match_quote (quoted v @ s) = Some (v @ CHR 0x22 # s)"
    by (simp add: quoted_def match_quote_def is_quote_def)
  ultimately show ?thesis by (simp add: match_string_def)
qed

lemma match_number_quoted [message_simps]: "match_number (quoted v @ s) = None"
  by (simp add: match_number_def quoted_def isdigit_c_def code_of_def)

lemma match_colon_simps [message_simps]:
  "match_colon (CHR '':'' # quoted v @ s) = Some (quoted v @ s)"
  "match_colon (CHR '','' # s) = None" "match_colon (CHR ''}'' # s) = None"
  by (simp_all add: match_colon_def isspace_c_def code_of_def quoted_def)

subsection \<open>Messages as sequences of quoted texts\<close>

lemma build_join_message_tokens:
  "build_join_message name uuid =
     ''{'' @ quoted ''Type'' @ '':'' @ quoted ''MVR_JOIN'' @ '','' @ quoted ''Provider'' @ '':'' @ quoted ''Peraviz'' @ '',''
     @ quoted ''verMajor'' @ '':1,'' @ quoted ''verMinor'' @ '':6,'' @ quoted ''StationUUID'' @ '':''
     @ quoted (json_escape uuid) @ '','' @ quoted ''StationName'' @ '':'' @ quoted (json_escape name) @ '',''
     @ quoted ''Commits'' @ '':[]}''"
  by (simp add: build_join_message_def quoted_def)

lemma build_join_ret_message_tokens:
  "build_join_ret_message name uuid True message =
     ''{'' @ quoted ''Type'' @ '':'' @ quoted ''MVR_JOIN_RET'' @ '','' @ quoted ''OK'' @ '':true,''
     @ quoted ''Message'' @ '':'' @ quoted (json_escape message) @ '','' @ quoted ''Provider'' @ '':'' @ quoted ''Peraviz'' @ '',''
     @ quoted ''verMajor'' @ '':1,'' @ quoted ''verMinor'' @ '':6,'' @ quoted ''StationUUID'' @ '':''
     @ quoted (json_escape uuid) @ '','' @ quoted ''StationName'' @ '':'' @ quoted (json_escape name) @ '',''
     @ quoted ''Commits'' @ '':[]}''"
  by (simp add: build_join_ret_message_def quoted_def)

lemma json_escape_free [simp]: "quote_free v \<Longrightarrow> quote_free (json_escape v)"
  by (induction v) (auto simp: json_escape_def is_quote_def)

lemma json_escape_plain [simp]: "quote_free v \<Longrightarrow> CHR 0x5C \<notin> set v \<Longrightarrow> json_escape v = v"
  by (induction v) (auto simp: json_escape_def is_quote_def)

lemma takeWhile_quote_free [simp]: "quote_free v \<Longrightarrow> takeWhile (\<lambda>c. \<not> is_quote c) v = v"
  by (simp add: quote_free_def)

lemma lower_string_simps [message_simps]: "lower_string (c # s) = tolower_c c # lower_string s" "lower_string [] = []"
  by (simp_all add: lower_string_def)

lemma escaped_name_read:
  "takeWhile (\<lambda>c. \<not> is_quote c) (json_escape v) = v \<longleftrightarrow> quote_free v \<and> CHR 0x5C \<notin> set v"
proof
  have free: "quote_free (takeWhile (\<lambda>c. \<not> is_quote c) w)" for w
    by (auto simp: quote_free_def dest: set_takeWhileD)
  have long: "length v < length (json_escape v)" if "CHR 0x5C \<in> set v"
  proof -
    have le: "length w \<le> length (json_escape w)" for w
      by (induction w) (auto simp: json_escape_def)
    obtain a b where "v = a @ CHR 0x5C # b" using \<open>CHR 0x5C \<in> set v\<close> by (meson split_list)
    then show ?thesis using le [of a] le [of b] by (simp add: json_escape_def)
  qed
  assume eq: "takeWhile (\<lambda>c. \<not> is_quote c) (json_escape v) = v"
  then have "quote_free v" using free by metis
  moreover have "CHR 0x5C \<notin> set v"
  proof
    assume "CHR 0x5C \<in> set v"
    then have "length v < length (json_escape v)" by (rule long)
    moreover have "takeWhile (\<lambda>c. \<not> is_quote c) (json_escape v) = json_escape v" using \<open>quote_free v\<close> by simp
    ultimately show False using eq by simp
  qed
  ultimately show "quote_free v \<and> CHR 0x5C \<notin> set v" ..
qed simp

lemma join_message_type:
  assumes "quote_free uuid"
  shows "json_string_value (build_join_message name uuid) [''Type''] = ''MVR_JOIN''"
  unfolding build_join_message_tokens
  by (simp add: message_simps tolower_c_def code_of_def is_quote_def char_of_def)

lemma join_message_uuid:
  assumes "quote_free uuid" and "CHR 0x5C \<notin> set uuid"
  shows "json_string_value (build_join_message name uuid) [''StationUUID''] = uuid"
  unfolding build_join_message_tokens using assms takeWhile_quote_free [OF assms(1), unfolded is_quote_def]
  by (simp add: message_simps tolower_c_def code_of_def is_quote_def char_of_def)

lemma join_message_name:
  assumes "quote_free uuid"
  shows "json_string_value (build_join_message name uuid) [''StationName''] = takeWhile (\<lambda>c. \<not> is_quote c) (json_escape name)"
  unfolding build_join_message_tokens using assms
  by (simp add: message_simps tolower_c_def code_of_def is_quote_def char_of_def)

lemma sublist_later: "sublist x ys \<Longrightarrow> sublist x (a @ ys)"
  by (metis append_assoc sublist_def)

lemma join_ret_message_fields:
  assumes "quote_free uuid" and "quote_free name" and "quote_free message"
  shows "json_string_value (build_join_ret_message name uuid True message) [''FileUUID'', ''FileUuid'', ''file_uuid'', ''uuid''] = []"
    "sublist ''Commits'' (build_join_ret_message name uuid True message)"
proof -
  let ?m = "build_join_ret_message name uuid True message"
  have "key_search g ''FileUUID'' ?m = None" for g
    unfolding build_join_ret_message_tokens using assms
    by (simp add: message_simps tolower_c_def code_of_def is_quote_def char_of_def)
  moreover have "key_search g ''FileUuid'' ?m = None" for g
    unfolding build_join_ret_message_tokens using assms
    by (simp add: message_simps tolower_c_def code_of_def is_quote_def char_of_def)
  moreover have "key_search g ''file_uuid'' ?m = None" for g
    unfolding build_join_ret_message_tokens using assms
    by (simp add: message_simps tolower_c_def code_of_def is_quote_def char_of_def)
  moreover have "key_search g ''uuid'' ?m = None" for g
    unfolding build_join_ret_message_tokens using assms
    by (simp add: message_simps tolower_c_def code_of_def is_quote_def char_of_def)
  ultimately show "json_string_value ?m [''FileUUID'', ''FileUuid'', ''file_uuid'', ''uuid''] = []"
    by (simp add: json_string_value_search)
  have here: "sublist ''Commits'' (quoted ''Commits'' @ s)" for s
    using sublist_appendI [of "''Commits''" "[CHR 0x22]" "CHR 0x22 # s"] by (simp add: quoted_def)
  show "sublist ''Commits'' ?m"
    unfolding build_join_ret_message_tokens by (rule here | rule sublist_later)+
qed

text \<open>A station that reads the join message of another gets its type and its UUID, and gets its name
  exactly when the name has no quote of either kind and no backslash: the escapes that the builder
  writes are not undone, and an apostrophe, which it does not escape, ends the name.\<close>

theorem join_message_read_back:
  assumes "quote_free uuid" and "CHR 0x5C \<notin> set uuid"
  shows "json_string_value (build_join_message name uuid) [''Type''] = ''MVR_JOIN'' \<and>
    json_string_value (build_join_message name uuid) [''StationUUID''] = uuid \<and>
    (json_string_value (build_join_message name uuid) [''StationName''] = name \<longleftrightarrow>
       quote_free name \<and> CHR 0x5C \<notin> set name)"
  using join_message_type [OF assms(1)] join_message_uuid [OF assms] join_message_name [OF assms(1)]
  by (simp add: escaped_name_read)

lemma join_message_read_back_witness:
  "json_string_value (build_join_message [CHR ''O'', CHR 0x27, CHR ''B''] ''0a'') [''StationUUID''] = ''0a'' \<and>
   json_string_value (build_join_message [CHR ''O'', CHR 0x27, CHR ''B''] ''0a'') [''StationName''] \<noteq> [CHR ''O'', CHR 0x27, CHR ''B'']"
proof -
  have "quote_free ''0a''" "CHR 0x5C \<notin> set ''0a''" "\<not> quote_free [CHR ''O'', CHR 0x27, CHR ''B'']"
    by (simp_all add: is_quote_def)
  then show ?thesis
    using join_message_read_back [of "''0a''" "[CHR ''O'', CHR 0x27, CHR ''B'']"] by blast
qed

subsection \<open>UUIDs\<close>

lemma hex_digits_chars:
  "hex_digits v = Some h \<Longrightarrow> \<forall>c\<in>set h. isxdigit_c c \<and> tolower_c c = c"
  by (induction v arbitrary: h) (auto simp: text_simps split: if_splits)

lemma hex_digits_plain:
  assumes "\<forall>c\<in>set h. isxdigit_c c \<and> tolower_c c = c"
  shows "hex_digits (h @ w) = map_option ((@) h) (hex_digits w)"
  using assms
proof (induction h)
  case (Cons c h)
  have "c \<noteq> CHR ''{'' \<and> c \<noteq> CHR ''}'' \<and> c \<noteq> CHR ''-''"
    using Cons.prems by (auto simp: isxdigit_c_def isdigit_c_def code_of_def)
  then show ?case using Cons by (simp add: option.map_comp comp_def)
qed (simp add: option.map_ident_strong)

lemma canonicalize_uuid_cases:
  assumes "canonicalize_uuid v \<noteq> []"
  obtains h where "hex_digits v = Some h" "length h = 32"
    "canonicalize_uuid v = take 8 h @ ''-'' @ take 4 (drop 8 h) @ ''-'' @ take 4 (drop 12 h) @ ''-''
      @ take 4 (drop 16 h) @ ''-'' @ take 12 (drop 20 h)"
  using assms by (auto simp: canonicalize_uuid_def split: option.splits if_splits)

lemma canonicalize_uuid_idem: "canonicalize_uuid (canonicalize_uuid v) = canonicalize_uuid v"
proof (cases "canonicalize_uuid v = []")
  case True
  then show ?thesis by (simp add: canonicalize_uuid_def)
next
  case False
  then obtain h where h: "hex_digits v = Some h" "length h = 32"
    and canon: "canonicalize_uuid v = take 8 h @ ''-'' @ take 4 (drop 8 h) @ ''-'' @ take 4 (drop 12 h) @ ''-''
      @ take 4 (drop 16 h) @ ''-'' @ take 12 (drop 20 h)"
    by (rule canonicalize_uuid_cases)
  have plain: "\<forall>c\<in>set (take k (drop n h)). isxdigit_c c \<and> tolower_c c = c" for k n
    using hex_digits_chars [OF h(1)] by (meson in_set_dropD in_set_takeD)
  have join: "take 8 h @ take 4 (drop 8 h) @ take 4 (drop 12 h) @ take 4 (drop 16 h) @ take 12 (drop 20 h) = h"
    using h(2) by (simp add: take_add [symmetric] drop_drop append_assoc [symmetric] del: append_assoc)
  have dash: "hex_digits (CHR ''-'' # w) = hex_digits w" for w by simp
  have "hex_digits (canonicalize_uuid v) = Some h"
    unfolding canon using plain [of 8 0] plain [of 4 8] plain [of 4 12] plain [of 4 16] plain [of 12 20] join
      hex_digits_plain [of "take 12 (drop 20 h)" "[]"]
    by (simp add: hex_digits_plain dash)
  then show ?thesis using h canon by (simp add: canonicalize_uuid_def)
qed

end
