(* ===== verification/Xchange_Service.thy ===== *)
theory Xchange_Service
  imports Prelude
begin

text \<open>
  Service instance names of MVR-xchange (\<open>mvrxchange/mvr_xchange_service_name.cpp\<close>) and the stations
  that discovery knows (\<open>mvr_xchange_discovery.cpp\<close>).  The mDNS library that receives and parses the
  records is outside the model: \<open>handle_mdns_record\<close> gets what it extracted.  The stations are a map,
  as the order of the code's hash table is not specified; the clock is an argument.
\<close>

subsection \<open>Service names\<close>

definition kMvrXchangeServiceType :: string where
  "kMvrXchangeServiceType = ''_mvrxchange._tcp.local.''"

definition kDefaultGroupName :: string where
  "kDefaultGroupName = ''Default''"

record parsed_service_name =
  psn_station_name :: string
  psn_group :: string
  psn_valid :: bool

definition trim_copy :: "string \<Rightarrow> string" where
  "trim_copy v = trim_both v"

definition remove_service_suffix :: "string \<Rightarrow> string" where
  "remove_service_suffix v =
     (let n = length kMvrXchangeServiceType;
          v = (if n \<le> length v \<and> drop (length v - n) v = kMvrXchangeServiceType
               then take (length v - n) v else v)
      in if v \<noteq> [] \<and> last v = CHR ''.'' then butlast v else v)"

definition normalize_group_name :: "string \<Rightarrow> string" where
  "normalize_group_name g = (let t = trim_copy g in if t = [] then kDefaultGroupName else t)"

text \<open>\<open>rfind\<close>: the text before and after the last occurrence.\<close>

definition split_last :: "char \<Rightarrow> string \<Rightarrow> (string \<times> string) option" where
  "split_last c s =
     (if c \<in> set s
      then let after = rev (takeWhile (\<lambda>d. d \<noteq> c) (rev s))
           in Some (take (length s - length after - 1) s, after)
      else None)"

definition parse_mvr_xchange_service_name :: "string \<Rightarrow> parsed_service_name" where
  "parse_mvr_xchange_service_name service =
     (let inst = trim_copy (remove_service_suffix service) in
      if inst = [] then \<lparr>psn_station_name = [], psn_group = [], psn_valid = False\<rparr>
      else case split_last (CHR ''@'') inst of
             None \<Rightarrow> \<lparr>psn_station_name = inst, psn_group = kDefaultGroupName, psn_valid = True\<rparr>
           | Some (before, after) \<Rightarrow>
               let station = trim_copy before
               in \<lparr>psn_station_name = station, psn_group = normalize_group_name after, psn_valid = station \<noteq> []\<rparr>)"

definition mvr_xchange_service_matches_group :: "string \<Rightarrow> string \<Rightarrow> bool" where
  "mvr_xchange_service_matches_group service g =
     (let parsed = parse_mvr_xchange_service_name service
      in psn_valid parsed \<and> psn_group parsed = normalize_group_name g)"

text \<open>The name a local station advertises (\<open>MvrXchangeLocalStation::start\<close>).\<close>

definition local_service_name :: "string \<Rightarrow> string \<Rightarrow> string" where
  "local_service_name station g =
     station @ ''@'' @ normalize_group_name g @ ''.'' @ kMvrXchangeServiceType"

lemma split_last_append:
  assumes "c \<notin> set after"
  shows "split_last c (before @ c # after) = Some (before, after)"
proof -
  have "takeWhile (\<lambda>d. d \<noteq> c) (rev after @ c # rev before) = rev after"
    using assms by (subst takeWhile_append2) auto
  then show ?thesis by (simp add: split_last_def)
qed

lemma remove_service_suffix_append:
  "remove_service_suffix (v @ ''.'' @ kMvrXchangeServiceType) = v"
  by (simp add: remove_service_suffix_def)

lemma normalize_group_trimmed:
  "normalize_group_name g \<noteq> [] \<and> \<not> isspace_c (hd (normalize_group_name g)) \<and> \<not> isspace_c (last (normalize_group_name g))"
  using trim_both_hd [of g] trim_both_last [of g]
  by (simp add: normalize_group_name_def trim_copy_def Let_def kDefaultGroupName_def isspace_c_def code_of_def)

lemma normalize_group_idem: "normalize_group_name (normalize_group_name g) = normalize_group_name g"
  using normalize_group_trimmed [of g] trim_both_fixed [of "normalize_group_name g"]
  by (simp add: normalize_group_name_def trim_copy_def Let_def)

lemma parse_local_service_name:
  assumes "station \<noteq> []" and "trim_copy station = station" and "CHR ''@'' \<notin> set (normalize_group_name g)"
  shows "parse_mvr_xchange_service_name (local_service_name station g) =
    \<lparr>psn_station_name = station, psn_group = normalize_group_name g, psn_valid = True\<rparr>"
proof -
  let ?inst = "station @ CHR ''@'' # normalize_group_name g"
  have "\<not> isspace_c (hd station)" using assms trim_both_hd [of station] by (simp add: trim_copy_def)
  then have "trim_copy ?inst = ?inst"
    unfolding trim_copy_def using assms(1) normalize_group_trimmed [of g]
    by (intro trim_both_fixed) simp_all
  moreover have "remove_service_suffix (local_service_name station g) = ?inst"
    using remove_service_suffix_append [of ?inst] by (simp add: local_service_name_def)
  ultimately show ?thesis
    using assms by (simp add: parse_mvr_xchange_service_name_def split_last_append normalize_group_idem Let_def)
qed

subsection \<open>Stations\<close>

record station_info =
  si_station_name :: string
  si_group :: string
  si_service_name :: string
  si_host :: string
  si_address :: string
  si_port :: u16
  si_last_seen_us :: u64
  si_txt :: "string \<rightharpoonup> string"

definition blank_station :: station_info where
  "blank_station = \<lparr>si_station_name = [], si_group = [], si_service_name = [], si_host = [], si_address = [],
     si_port = 0, si_last_seen_us = 0, si_txt = Map.empty\<rparr>"

record discovery_stats =
  ds_running :: bool
  ds_query_count :: u64
  ds_response_count :: u64
  ds_malformed_record_count :: u64
  ds_station_count :: u64

definition blank_discovery_stats :: discovery_stats where
  "blank_discovery_stats = \<lparr>ds_running = False, ds_query_count = 0, ds_response_count = 0,
     ds_malformed_record_count = 0, ds_station_count = 0\<rparr>"

record discovery =
  di_running :: bool
  di_group :: string
  di_bind_ip :: string
  di_last_error :: string
  di_stations :: "string \<rightharpoonup> station_info"
  di_stats :: discovery_stats

definition fresh_discovery :: discovery where
  "fresh_discovery = \<lparr>di_running = False, di_group = kDefaultGroupName, di_bind_ip = [], di_last_error = [],
     di_stations = Map.empty, di_stats = blank_discovery_stats\<rparr>"

definition discovery_start :: "string \<Rightarrow> string \<Rightarrow> discovery \<Rightarrow> discovery" where
  "discovery_start g bind_ip d =
     (if di_running d then d
      else d\<lparr>di_group := normalize_group_name g, di_bind_ip := bind_ip, di_last_error := [],
             di_stations := Map.empty, di_stats := blank_discovery_stats\<lparr>ds_running := True\<rparr>,
             di_running := True\<rparr>)"

definition discovery_stop :: "discovery \<Rightarrow> discovery" where
  "discovery_stop d = d\<lparr>di_running := False, di_stats := (di_stats d)\<lparr>ds_running := False\<rparr>\<rparr>"

definition get_stations :: "discovery \<Rightarrow> station_info set" where
  "get_stations d = ran (di_stations d)"

definition discovery_get_stats :: "discovery \<Rightarrow> discovery_stats" where
  "discovery_get_stats d = (di_stats d)\<lparr>ds_running := di_running d,
     ds_station_count := of_nat (card (dom (di_stations d)))\<rparr>"

text \<open>\<open>stations_[service_name]\<close> with the fields every refresh sets.\<close>

definition touch_station :: "u64 \<Rightarrow> string \<Rightarrow> parsed_service_name \<Rightarrow> discovery \<Rightarrow> station_info" where
  "touch_station now service parsed d =
     (case di_stations d service of Some s \<Rightarrow> s | None \<Rightarrow> blank_station)
       \<lparr>si_station_name := psn_station_name parsed, si_group := psn_group parsed,
        si_service_name := service, si_last_seen_us := now\<rparr>"

definition upsert_placeholder_station :: "u64 \<Rightarrow> string \<Rightarrow> discovery \<Rightarrow> discovery" where
  "upsert_placeholder_station now service d =
     (let parsed = parse_mvr_xchange_service_name service in
      if \<not> psn_valid parsed \<or> psn_group parsed \<noteq> di_group d
      then d\<lparr>di_stats := (di_stats d)\<lparr>ds_malformed_record_count := ds_malformed_record_count (di_stats d) + 1\<rparr>\<rparr>
      else d\<lparr>di_stations := (di_stations d)(service \<mapsto> touch_station now service parsed d)\<rparr>)"

definition upsert_service_endpoint :: "u64 \<Rightarrow> string \<Rightarrow> string \<Rightarrow> u16 \<Rightarrow> discovery \<Rightarrow> discovery" where
  "upsert_service_endpoint now service host port d =
     (let parsed = parse_mvr_xchange_service_name service in
      if \<not> psn_valid parsed \<or> psn_group parsed \<noteq> di_group d then d
      else d\<lparr>di_stations := (di_stations d)(service \<mapsto>
             (touch_station now service parsed d)\<lparr>si_host := host, si_port := port\<rparr>)\<rparr>)"

definition upsert_service_txt :: "u64 \<Rightarrow> string \<Rightarrow> (string \<rightharpoonup> string) \<Rightarrow> discovery \<Rightarrow> discovery" where
  "upsert_service_txt now service txt d =
     (let parsed = parse_mvr_xchange_service_name service in
      if \<not> psn_valid parsed \<or> psn_group parsed \<noteq> di_group d then d
      else d\<lparr>di_stations := (di_stations d)(service \<mapsto> (touch_station now service parsed d)\<lparr>si_txt := txt\<rparr>)\<rparr>)"

definition upsert_host_address :: "u64 \<Rightarrow> string \<Rightarrow> string \<Rightarrow> discovery \<Rightarrow> discovery" where
  "upsert_host_address now host address d =
     (if host = [] \<or> address = [] then d
      else d\<lparr>di_stations := (\<lambda>k. map_option
             (\<lambda>s. if si_host s = host then s\<lparr>si_address := address, si_last_seen_us := now\<rparr> else s)
             (di_stations d k))\<rparr>)"

text \<open>A record as the library extracted it; \<^term>\<open>AddressRecord None\<close> is one it could not parse.\<close>

datatype mdns_record =
  PointerRecord string
| ServiceRecord string u16
| TextRecord "(string \<times> string) list"
| AddressRecord "string option"
| OtherRecord

definition handle_mdns_record :: "u64 \<Rightarrow> string \<Rightarrow> mdns_record \<Rightarrow> discovery \<Rightarrow> discovery" where
  "handle_mdns_record now owner r d =
     (case r of
        PointerRecord target \<Rightarrow> upsert_placeholder_station now target d
      | ServiceRecord host port \<Rightarrow> upsert_service_endpoint now owner host port d
      | TextRecord entries \<Rightarrow> upsert_service_txt now owner (fold (\<lambda>(k, v) m. m(k \<mapsto> v)) entries Map.empty) d
      | AddressRecord (Some address) \<Rightarrow> upsert_host_address now owner address d
      | AddressRecord None \<Rightarrow> d
      | OtherRecord \<Rightarrow> d)"

text \<open>One round of the discovery loop: a query, and the records of the answer.\<close>

definition discovery_round :: "(u64 \<times> string \<times> mdns_record) list \<Rightarrow> discovery \<Rightarrow> discovery" where
  "discovery_round records d =
     (let d = d\<lparr>di_stats := (di_stats d)\<lparr>ds_query_count := ds_query_count (di_stats d) + 1\<rparr>\<rparr>;
          d = fold (\<lambda>(now, owner, r). handle_mdns_record now owner r) records d
      in if records \<noteq> []
         then d\<lparr>di_stats := (di_stats d)\<lparr>ds_response_count := ds_response_count (di_stats d) + of_nat (length records)\<rparr>\<rparr>
         else d)"

subsection \<open>What discovery knows\<close>

definition stations_ok :: "discovery \<Rightarrow> bool" where
  "stations_ok d \<longleftrightarrow> (\<forall>k s. di_stations d k = Some s \<longrightarrow>
     psn_valid (parse_mvr_xchange_service_name k) \<and> psn_group (parse_mvr_xchange_service_name k) = di_group d \<and>
     si_service_name s = k \<and> si_group s = di_group d \<and>
     si_station_name s = psn_station_name (parse_mvr_xchange_service_name k))"

lemma touch_station_fields:
  "si_service_name (touch_station now k parsed d) = k" "si_group (touch_station now k parsed d) = psn_group parsed"
  "si_station_name (touch_station now k parsed d) = psn_station_name parsed"
  by (simp_all add: touch_station_def)

lemma handle_mdns_record_ok:
  assumes "stations_ok d"
  shows "stations_ok (handle_mdns_record now owner r d)" "di_group (handle_mdns_record now owner r d) = di_group d"
  using assms
  by (auto simp: handle_mdns_record_def stations_ok_def upsert_placeholder_station_def upsert_service_endpoint_def
      upsert_service_txt_def upsert_host_address_def touch_station_fields Let_def
      split: mdns_record.split option.split if_splits)

lemma handle_mdns_records_ok:
  assumes "stations_ok d"
  shows "stations_ok (fold (\<lambda>(now, owner, r). handle_mdns_record now owner r) records d) \<and>
    di_group (fold (\<lambda>(now, owner, r). handle_mdns_record now owner r) records d) = di_group d"
  using assms by (induction records arbitrary: d) (auto simp: handle_mdns_record_ok)

lemma discovery_round_ok:
  assumes "stations_ok d"
  shows "stations_ok (discovery_round records d) \<and> di_group (discovery_round records d) = di_group d"
proof -
  have same: "stations_ok (d\<lparr>di_stats := st\<rparr>) = stations_ok d" for d st by (simp add: stations_ok_def)
  then show ?thesis
    using handle_mdns_records_ok [of "d\<lparr>di_stats := st\<rparr>" records for st] assms
    by (simp add: discovery_round_def Let_def)
qed

lemma discovery_rounds_ok:
  assumes "stations_ok d"
  shows "stations_ok (fold discovery_round rounds d) \<and> di_group (fold discovery_round rounds d) = di_group d"
  using assms by (induction rounds arbitrary: d) (auto simp: discovery_round_ok)

text \<open>The records of a station's answer, in the order \<open>build_mdns_response\<close> writes them.\<close>

definition station_records ::
    "u64 \<Rightarrow> string \<Rightarrow> string \<Rightarrow> u16 \<Rightarrow> (string \<times> string) list \<Rightarrow> string \<Rightarrow> (u64 \<times> string \<times> mdns_record) list" where
  "station_records now service host port txt address =
     [(now, kMvrXchangeServiceType, PointerRecord service), (now, service, ServiceRecord host port),
      (now, service, TextRecord txt), (now, host, AddressRecord (Some address))]"

text \<open>After any rounds of discovery for a group, every station it knows is valid, belongs to the
  group and is filed under its own service name; and one answer of a Peraviz station of the group, whatever
  was known before, leaves its name, group, host, port, TXT entries and address under the service name
  that the station advertises.\<close>

theorem discovery_finds_group_stations:
  assumes "d = fold discovery_round rounds (discovery_start g bind_ip fresh_discovery)"
    and "station \<noteq> []" and "trim_copy station = station" and "CHR ''@'' \<notin> set (normalize_group_name g)"
    and "host \<noteq> []" and "address \<noteq> []"
  shows "(\<forall>k s. di_stations d k = Some s \<longrightarrow>
      mvr_xchange_service_matches_group k g \<and> si_service_name s = k \<and>
      si_station_name s = psn_station_name (parse_mvr_xchange_service_name k)) \<and>
    di_stations (discovery_round (station_records now (local_service_name station g) host port txt address) d)
        (local_service_name station g) =
      Some \<lparr>si_station_name = station, si_group = normalize_group_name g,
        si_service_name = local_service_name station g, si_host = host, si_address = address, si_port = port,
        si_last_seen_us = now, si_txt = fold (\<lambda>(k, v) m. m(k \<mapsto> v)) txt Map.empty\<rparr>"
proof
  have start: "stations_ok (discovery_start g bind_ip fresh_discovery)"
    "di_group (discovery_start g bind_ip fresh_discovery) = normalize_group_name g"
    by (simp_all add: stations_ok_def discovery_start_def fresh_discovery_def)
  note ok = discovery_rounds_ok [OF start(1), of rounds, folded assms(1), unfolded start(2)]
  then show "\<forall>k s. di_stations d k = Some s \<longrightarrow>
      mvr_xchange_service_matches_group k g \<and> si_service_name s = k \<and>
      si_station_name s = psn_station_name (parse_mvr_xchange_service_name k)"
    by (simp add: stations_ok_def mvr_xchange_service_matches_group_def Let_def)
  note parsed = parse_local_service_name [OF assms(2-4)]
  show "di_stations (discovery_round (station_records now (local_service_name station g) host port txt address) d)
        (local_service_name station g) =
      Some \<lparr>si_station_name = station, si_group = normalize_group_name g,
        si_service_name = local_service_name station g, si_host = host, si_address = address, si_port = port,
        si_last_seen_us = now, si_txt = fold (\<lambda>(k, v) m. m(k \<mapsto> v)) txt Map.empty\<rparr>"
    using ok assms(5,6)
    by (simp add: discovery_round_def station_records_def handle_mdns_record_def upsert_placeholder_station_def
        upsert_service_endpoint_def upsert_service_txt_def upsert_host_address_def parsed touch_station_def
        split: option.split)
qed

lemma discovery_finds_group_stations_witness:
  "si_address (the (di_stations (discovery_round
      (station_records 5 (local_service_name ''Peraviz'' '' Hall 1 '') ''Peraviz-0.local.'' 4000 [(''a'', ''b'')] ''10.0.0.2'')
      (fold discovery_round [] (discovery_start '' Hall 1 '' [] fresh_discovery))) ''Peraviz@Hall 1._mvrxchange._tcp.local.''))
   = ''10.0.0.2''"
proof -
  have name: "local_service_name ''Peraviz'' '' Hall 1 '' = ''Peraviz@Hall 1._mvrxchange._tcp.local.''" by code_simp
  have "trim_copy ''Peraviz'' = ''Peraviz''" "CHR ''@'' \<notin> set (normalize_group_name '' Hall 1 '')" by code_simp+
  from discovery_finds_group_stations [OF refl _ this, of "''Peraviz-0.local.''" "''10.0.0.2''" "[]" "[]" 5 4000 "[(''a'', ''b'')]"]
  show ?thesis unfolding name by simp
qed

end
