(* ===== verification/Xchange_Transfer.thy ===== *)
theory Xchange_Transfer
  imports Xchange_Messages Xchange_Service
begin

text \<open>
  The transfer client of MVR-xchange (\<open>mvrxchange/mvr_xchange_transfer.{h,cpp}\<close>) and the station that
  answers it (\<open>handle_tcp_client\<close> of \<open>mvr_xchange_local_station.cpp\<close>).  What the operating system does is
  an argument: the result of connecting, the return values of \<open>send\<close>, the pieces \<open>recv\<close> returns, and how
  the file system answers.  The worker thread touches the client only under its mutex; it is the list
  of the updates it makes, in order, so that other calls can be interleaved with them.
\<close>

subsection \<open>State\<close>

record commit_info =
  ci_service_name :: string
  ci_station_name :: string
  ci_file_uuid :: string
  ci_timestamp :: string
  ci_message :: string
  ci_seen_us :: u64

record xchange_event =
  ev_type :: string
  ev_service_name :: string
  ev_station_name :: string
  ev_file_uuid :: string
  ev_path :: string
  ev_message :: string
  ev_size_bytes :: u64

record transfer_client =
  tc_busy :: bool
  tc_stations :: "string \<rightharpoonup> station_info"
  tc_commits :: "string \<rightharpoonup> commit_info"
  tc_events :: "xchange_event list"
  tc_last_error :: string
  tc_station_uuid :: string
  tc_current_station_uuid :: string
  tc_current_file_uuid :: string
  tc_last_received_file_path :: string
  tc_received_byte_count :: u64
  tc_event_count :: u64

definition hex_digit :: "nat \<Rightarrow> char" where
  "hex_digit d = (if d < 10 then char_of (48 + d) else char_of (87 + d))"

definition new_station_uuid :: "u64 \<Rightarrow> string" where
  "new_station_uuid now = ''00000000-0000-4000-8000-''
     @ map (\<lambda>k. hex_digit (unat (drop_bit (4 * k) now AND 15))) (rev [0..<12])"

definition new_transfer_client :: "u64 \<Rightarrow> transfer_client" where
  "new_transfer_client now = \<lparr>tc_busy = False, tc_stations = Map.empty, tc_commits = Map.empty, tc_events = [],
     tc_last_error = [], tc_station_uuid = new_station_uuid now, tc_current_station_uuid = [],
     tc_current_file_uuid = [], tc_last_received_file_path = [], tc_received_byte_count = 0, tc_event_count = 0\<rparr>"

definition push_event :: "xchange_event \<Rightarrow> transfer_client \<Rightarrow> transfer_client" where
  "push_event e c = c\<lparr>tc_events := tc_events c @ [e], tc_event_count := tc_event_count c + 1\<rparr>"

definition set_last_error :: "string \<Rightarrow> transfer_client \<Rightarrow> transfer_client" where
  "set_last_error m c = c\<lparr>tc_last_error := m\<rparr>"

definition poll_events :: "transfer_client \<Rightarrow> xchange_event list \<times> transfer_client" where
  "poll_events c = (tc_events c, c\<lparr>tc_events := []\<rparr>)"

definition set_stations :: "station_info list \<Rightarrow> transfer_client \<Rightarrow> transfer_client" where
  "set_stations ss c = fold (\<lambda>s c. c\<lparr>tc_stations := (tc_stations c)(si_service_name s \<mapsto> s)\<rparr>) ss c"

definition get_commits :: "transfer_client \<Rightarrow> commit_info set" where
  "get_commits c = ran (tc_commits c)"

record transfer_stats =
  ts_busy :: bool
  ts_commit_count :: u64
  ts_event_count :: u64
  ts_station_uuid :: string
  ts_current_station_uuid :: string
  ts_current_file_uuid :: string
  ts_last_received_file_path :: string
  ts_received_byte_count :: u64

definition transfer_get_stats :: "transfer_client \<Rightarrow> transfer_stats" where
  "transfer_get_stats c = \<lparr>ts_busy = tc_busy c, ts_commit_count = of_nat (card (dom (tc_commits c))),
     ts_event_count = tc_event_count c, ts_station_uuid = tc_station_uuid c,
     ts_current_station_uuid = tc_current_station_uuid c, ts_current_file_uuid = tc_current_file_uuid c,
     ts_last_received_file_path = tc_last_received_file_path c, ts_received_byte_count = tc_received_byte_count c\<rparr>"

subsection \<open>Commits\<close>

definition parse_commit_message :: "u64 \<Rightarrow> string \<Rightarrow> station_info \<Rightarrow> commit_info" where
  "parse_commit_message now m s = \<lparr>ci_service_name = si_service_name s, ci_station_name = si_station_name s,
     ci_file_uuid = canonicalize_uuid (json_string_value m [''FileUUID'', ''FileUuid'', ''file_uuid'', ''uuid'']),
     ci_timestamp = json_string_value m [''Timestamp'', ''CommitTime'', ''timestamp''],
     ci_message = json_string_value m [''Message'', ''Comment'', ''CommitMessage'', ''Name'', ''message''],
     ci_seen_us = now\<rparr>"

text \<open>The callback that \<open>start_local_station\<close> installs.\<close>

definition on_station_message :: "u64 \<Rightarrow> string \<Rightarrow> string \<Rightarrow> transfer_client \<Rightarrow> transfer_client" where
  "on_station_message now t m c =
     (if t = ''MVR_COMMIT'' then
        let sender = json_string_value m [''StationUUID''];
            station = blank_station\<lparr>si_service_name := sender, si_station_name := sender\<rparr>;
            commit = parse_commit_message now m station
        in if ci_file_uuid commit = [] then
             push_event \<lparr>ev_type = ''protocol_error'', ev_service_name = ci_service_name commit,
                 ev_station_name = ci_station_name commit, ev_file_uuid = [], ev_path = [],
                 ev_message = ''Received MVR_COMMIT without a valid FileUUID'', ev_size_bytes = 0\<rparr>
               (set_last_error ''Received MVR_COMMIT without a valid FileUUID'' c)
           else
             let commit = (if ci_service_name commit = []
                           then commit\<lparr>ci_service_name := ci_station_name commit\<rparr> else commit)
             in push_event \<lparr>ev_type = ''commit_available'', ev_service_name = ci_service_name commit,
                    ev_station_name = ci_station_name commit, ev_file_uuid = ci_file_uuid commit, ev_path = [],
                    ev_message = ci_message commit, ev_size_bytes = 0\<rparr>
                  (c\<lparr>tc_commits := (tc_commits c)(ci_service_name commit \<mapsto> commit)\<rparr>)
      else c)"

text \<open>One connection of the local station: what it sends back, and the messages it hands to the callback.\<close>

definition handle_tcp_client :: "string \<Rightarrow> string \<Rightarrow> string \<Rightarrow> string list \<times> (string \<times> string) list" where
  "handle_tcp_client station_name station_uuid data =
     (let ms = map (\<lambda>p. (json_string_value (payload p) [''Type''], payload p))
                 (filter (\<lambda>p. package_type p = kMvrPackageTypeJson) (parse_mvr_packages data))
      in (map (\<lambda>_. build_mvr_package kMvrPackageTypeJson (build_join_ret_message station_name station_uuid True []))
            (filter (\<lambda>(t, m). t = ''MVR_JOIN'') ms), ms))"

subsection \<open>Sockets and files\<close>

datatype dial_result = NotResolved | NotConnected | Connected

record network =
  net_dial :: "string \<Rightarrow> u16 \<Rightarrow> dial_result"
  net_send :: "nat \<Rightarrow> int"
  net_receive :: "string list"

definition connect_tcp :: "station_info \<Rightarrow> network \<Rightarrow> string option" where
  "connect_tcp s net =
     (let host = (if si_address s \<noteq> [] then si_address s else si_host s) in
      if host = [] \<or> si_port s = 0 then Some ''Station has no TCP endpoint''
      else case net_dial net host (si_port s) of
             NotResolved \<Rightarrow> Some ''Unable to resolve station address''
           | NotConnected \<Rightarrow> Some ''Unable to connect to station''
           | Connected \<Rightarrow> None)"

text \<open>\<open>send_all\<close>: the result of the \<open>k\<close>-th call of \<open>send\<close> is \<open>results k\<close>.\<close>

function send_all :: "(nat \<Rightarrow> int) \<Rightarrow> nat \<Rightarrow> nat \<Rightarrow> nat \<Rightarrow> bool" where
  "send_all results k sent goal =
     (if sent < goal then
        if results k \<le> 0 then False else send_all results (Suc k) (sent + nat (results k)) goal
      else True)"
  by pat_completeness auto
termination by (relation "measure (\<lambda>(results, k, sent, goal). goal - sent)") auto

declare send_all.simps [simp del]

text \<open>\<open>read_all\<close>: an empty piece is a \<open>recv\<close> that returned nothing.\<close>

definition read_all :: "string list \<Rightarrow> string" where
  "read_all pieces = concat (takeWhile (\<lambda>p. p \<noteq> []) pieces)"

definition looks_like_zip :: "string \<Rightarrow> bool" where
  "looks_like_zip p \<longleftrightarrow> length p \<ge> 4 \<and> p ! 0 = CHR ''P'' \<and> p ! 1 = CHR ''K''"

definition contains_general_scene_description :: "string \<Rightarrow> bool" where
  "contains_general_scene_description p \<longleftrightarrow> str_contains ''GeneralSceneDescription.xml'' p"

text \<open>The file system: the files, whether the part file can be created, how many bytes a write stores,
  and whether the final rename succeeds.\<close>

record disk =
  disk_files :: "string \<rightharpoonup> string"
  disk_creates :: bool
  disk_stores :: nat
  disk_renames :: bool

definition write_completed_mvr_file :: "string \<Rightarrow> string \<Rightarrow> disk \<Rightarrow> string option \<times> disk" where
  "write_completed_mvr_file target p d =
     (if target = [] then (Some ''Missing target path'', d)
      else if p = [] then (Some ''Received MVR payload is empty'', d)
      else if \<not> looks_like_zip p then (Some ''Received payload does not look like a ZIP/MVR file'', d)
      else if \<not> contains_general_scene_description p
        then (Some ''Received MVR archive is missing GeneralSceneDescription.xml'', d)
      else let part = target @ ''.part'' in
        if \<not> disk_creates d then (Some ''Unable to create temporary MVR file'', d)
        else let files = ((disk_files d)(part \<mapsto> take (disk_stores d) p))(target := None) in
          if disk_renames d
          then (None, d\<lparr>disk_files := (files(target := files part))(part := None)\<rparr>)
          else (Some ''Unable to finalize received MVR file'', d\<lparr>disk_files := files(part := None)\<rparr>))"

subsection \<open>The worker\<close>

record worker_job =
  job_station :: station_info
  job_file_uuid :: string
  job_target :: string
  job_request_file :: bool

definition job_event :: "worker_job \<Rightarrow> string \<Rightarrow> string \<Rightarrow> string \<Rightarrow> u64 \<Rightarrow> xchange_event" where
  "job_event j t path m n = \<lparr>ev_type = t, ev_service_name = si_service_name (job_station j),
     ev_station_name = si_station_name (job_station j), ev_file_uuid = job_file_uuid j, ev_path = path,
     ev_message = m, ev_size_bytes = n\<rparr>"

definition release :: "transfer_client \<Rightarrow> transfer_client" where
  "release c = c\<lparr>tc_busy := False\<rparr>"

definition fail_job :: "worker_job \<Rightarrow> string \<Rightarrow> (transfer_client \<Rightarrow> transfer_client) list" where
  "fail_job j e = [set_last_error e,
     push_event (job_event j (if job_request_file j then ''transfer_failed'' else ''join_failed'') (job_target j) e 0),
     release]"

definition job_message :: "worker_job \<Rightarrow> string \<Rightarrow> string" where
  "job_message j uuid =
     (if job_request_file j then build_request_message uuid (job_file_uuid j) else build_join_message ''Peraviz'' uuid)"

text \<open>A message of the answer to a join: one that speaks of commits is filed as the commit of the station.\<close>

definition commit_updates :: "worker_job \<Rightarrow> u64 \<Rightarrow> xchange_packet \<Rightarrow> (transfer_client \<Rightarrow> transfer_client) list" where
  "commit_updates j now p =
     (if package_type p \<noteq> kMvrPackageTypeJson then []
      else let commit = parse_commit_message now (payload p) (job_station j); service = si_service_name (job_station j) in
        if ci_file_uuid commit \<noteq> [] \<or> str_contains ''MVR_COMMIT'' (payload p) \<or> str_contains ''Commits'' (payload p)
        then [\<lambda>c. c\<lparr>tc_commits := (tc_commits c)(service \<mapsto> commit)\<rparr>,
              push_event \<lparr>ev_type = ''commit_available'', ev_service_name = service,
                ev_station_name = si_station_name (job_station j), ev_file_uuid = ci_file_uuid commit, ev_path = [],
                ev_message = ci_message commit, ev_size_bytes = 0\<rparr>]
        else [])"

definition gather_payload :: "xchange_packet \<Rightarrow> string \<Rightarrow> string" where
  "gather_payload p acc = (if package_type p = kMvrPackageTypeMvr then acc @ payload p else acc)"

text \<open>\<open>worker_main\<close>; \<open>clock\<close> gives the time at which the \<open>k\<close>-th package is parsed.  The error text of an
  \<open>MVR_REQUEST_RET\<close> is overwritten before anything shows it.\<close>

definition worker_main ::
    "(nat \<Rightarrow> u64) \<Rightarrow> network \<Rightarrow> string \<Rightarrow> worker_job \<Rightarrow> disk \<Rightarrow> (transfer_client \<Rightarrow> transfer_client) list \<times> disk" where
  "worker_main clock net uuid j d =
     (let started = push_event (job_event j (if job_request_file j then ''transfer_started'' else ''join_started'')
                                  (job_target j) [] 0)
      in case connect_tcp (job_station j) net of
           Some e \<Rightarrow> (started # fail_job j e, d)
         | None \<Rightarrow>
             if \<not> send_all (net_send net) 0 0 (length (build_mvr_package kMvrPackageTypeJson (job_message j uuid)))
             then (started # fail_job j ''Unable to send MVR-xchange message'', d)
             else let received = read_all (net_receive net); packets = parse_mvr_packages received in
               if received \<noteq> [] \<and> packets = []
               then (started # fail_job j ''Received malformed MVR-xchange package'', d)
               else if \<not> job_request_file j
               then (started # push_event (job_event j ''join_succeeded'' [] ''Joined'' 0)
                       # concat (map (\<lambda>(k, p). commit_updates j (clock k) p) (zip [0..<length packets] packets))
                       @ [release], d)
               else let gathered = fold gather_payload packets [];
                        body = (if gathered = [] \<and> looks_like_zip received then received else gathered)
                    in case write_completed_mvr_file (job_target j) body d of
                         (Some e, d') \<Rightarrow> (started # fail_job j e, d')
                       | (None, d') \<Rightarrow>
                           (started # [\<lambda>c. c\<lparr>tc_last_received_file_path := job_target j,
                                             tc_received_byte_count := of_nat (length body)\<rparr>,
                                       push_event (job_event j ''transfer_finished'' (job_target j) ''MVR received''
                                         (of_nat (length body))), release], d'))"

subsection \<open>Starting a transfer\<close>

text \<open>\<open>start_worker\<close>: whether it started, the client, and the job of the new worker.\<close>

definition start_worker ::
    "string \<Rightarrow> string \<Rightarrow> string \<Rightarrow> bool \<Rightarrow> transfer_client \<Rightarrow> bool \<times> transfer_client \<times> worker_job option" where
  "start_worker service file_uuid target request c =
     (if tc_busy c then (False, set_last_error ''MVR-xchange transfer is already busy'' c, None)
      else case tc_stations c service of
             None \<Rightarrow> (False, c\<lparr>tc_busy := False, tc_last_error := ''Unknown MVR-xchange station''\<rparr>, None)
           | Some s \<Rightarrow>
               let text = (case si_txt s ''StationUUID'' of Some t \<Rightarrow> t | None \<Rightarrow> []);
                   uuid = canonicalize_uuid (json_string_value text [''StationUUID'']);
                   uuid = (if uuid = [] then (case si_txt s ''StationUUID'' of Some t \<Rightarrow> canonicalize_uuid t | None \<Rightarrow> [])
                           else uuid)
               in (True, c\<lparr>tc_busy := True, tc_current_station_uuid := uuid, tc_current_file_uuid := file_uuid\<rparr>,
                   Some \<lparr>job_station = s, job_file_uuid = file_uuid, job_target = target, job_request_file = request\<rparr>))"

definition join_station :: "string \<Rightarrow> transfer_client \<Rightarrow> bool \<times> transfer_client \<times> worker_job option" where
  "join_station service c = start_worker service [] [] False c"

definition request_mvr :: "string \<Rightarrow> string \<Rightarrow> string \<Rightarrow> transfer_client \<Rightarrow> bool \<times> transfer_client \<times> worker_job option" where
  "request_mvr service file_uuid target c =
     (let uuid = canonicalize_uuid file_uuid in
      if uuid = [] then (False, set_last_error ''MVR request requires a valid FileUUID'' c, None)
      else start_worker service uuid target True c)"

definition request_latest_mvr :: "string \<Rightarrow> string \<Rightarrow> transfer_client \<Rightarrow> bool \<times> transfer_client \<times> worker_job option" where
  "request_latest_mvr service target c =
     (case tc_commits c service of
        None \<Rightarrow> (False, c\<lparr>tc_last_error := ''No MVR revision is available for the selected station''\<rparr>, None)
      | Some commit \<Rightarrow>
          if \<not> is_valid_uuid (ci_file_uuid commit)
          then (False, set_last_error ''Selected MVR revision has an invalid FileUUID'' c, None)
          else request_mvr service (ci_file_uuid commit) target c)"

definition run_updates :: "(transfer_client \<Rightarrow> transfer_client) list \<Rightarrow> transfer_client \<Rightarrow> transfer_client" where
  "run_updates us c = fold (\<lambda>u c. u c) us c"

subsection \<open>Transfers\<close>

lemma build_mvr_package_not_Nil [simp]: "build_mvr_package t b \<noteq> []" "[] \<noteq> build_mvr_package t b"
  by (metis length_build_mvr_package list.size(3) add_is_0 zero_neq_numeral)+

lemma send_all_delivers: "\<forall>k. 0 < results k \<Longrightarrow> send_all results k sent goal"
proof (induction results k sent goal rule: send_all.induct)
  case (1 results k sent goal)
  then show ?case by (subst send_all.simps) (simp add: linorder_not_le [symmetric])
qed

lemma read_all_pieces: "[] \<notin> set ps \<Longrightarrow> read_all ps = concat ps"
  by (metis (mono_tags, lifting) read_all_def takeWhile_eq_all_conv)

lemma run_updates_simps [simp]:
  "run_updates [] c = c" "run_updates (u # us) c = run_updates us (u c)"
  "run_updates (us @ vs) c = run_updates vs (run_updates us c)"
  by (simp_all add: run_updates_def)

lemma gather_sent:
  "fold gather_payload (map sent_packet (map (Pair kMvrPackageTypeMvr) parts)) acc = acc @ concat parts"
  by (induction parts arbitrary: acc) (simp_all add: gather_payload_def sent_packet_def)

lemma parse_sent_all:
  assumes "\<forall>(t, b)\<in>set ps. length b < 2 ^ 64"
  shows "parse_mvr_packages (sent_bytes ps) = map sent_packet ps"
proof -
  have "parse_packages_from (sent_bytes ps) (length (sent_bytes ps)) = []" by (subst parse_packages_from.simps) simp
  then show ?thesis using parse_sent [OF assms, of "[]" "[]" "[]"] by (simp add: parse_mvr_packages_def)
qed

lemma job_event_simps [simp]:
  "ev_type (job_event j t p m n) = t" "ev_message (job_event j t p m n) = m" "ev_size_bytes (job_event j t p m n) = n"
  "ev_path (job_event j t p m n) = p"
  by (simp_all add: job_event_def)

lemma fail_job_effect:
  "run_updates (fail_job j e) c = c\<lparr>tc_last_error := e,
     tc_events := tc_events c @ [job_event j (if job_request_file j then ''transfer_failed'' else ''join_failed'') (job_target j) e 0],
     tc_event_count := tc_event_count c + 1, tc_busy := False\<rparr>"
  by (simp add: fail_job_def set_last_error_def push_event_def release_def)

lemma write_completed_cases:
  assumes "write_completed_mvr_file target p d = (r, d')"
  shows "(r = None \<longrightarrow> target \<noteq> [] \<and> looks_like_zip p \<and> contains_general_scene_description p \<and>
      disk_files d' target = Some (take (disk_stores d) p)) \<and>
    (\<forall>f. f \<noteq> target \<and> f \<noteq> target @ ''.part'' \<longrightarrow> disk_files d' f = disk_files d f)"
  using assms by (auto simp: write_completed_mvr_file_def Let_def split: if_splits)

definition started_event :: "worker_job \<Rightarrow> xchange_event" where
  "started_event j = job_event j ''transfer_started'' (job_target j) [] 0"

text \<open>One outcome after the start, and a free client: success with an archive stored at the target, or
  a failure with the error the client shows.\<close>

definition one_outcome :: "worker_job \<Rightarrow> transfer_client \<Rightarrow> disk \<Rightarrow> transfer_client \<Rightarrow> disk \<Rightarrow> bool" where
  "one_outcome j c d c' d' \<longleftrightarrow>
     (\<exists>e. tc_events c' = tc_events c @ [started_event j, e] \<and> \<not> tc_busy c' \<and>
        (ev_type e = ''transfer_finished'' \<and>
           (\<exists>body. looks_like_zip body \<and> contains_general_scene_description body \<and>
              disk_files d' (job_target j) = Some (take (disk_stores d) body) \<and> ev_size_bytes e = of_nat (length body)) \<or>
         ev_type e = ''transfer_failed'' \<and> ev_message e = tc_last_error c')) \<and>
     (\<forall>f. f \<noteq> job_target j \<and> f \<noteq> job_target j @ ''.part'' \<longrightarrow> disk_files d' f = disk_files d f)"

lemma failed_outcome:
  assumes "job_request_file j" and "us = push_event (started_event j) # fail_job j e"
    and "\<forall>f. f \<noteq> job_target j \<and> f \<noteq> job_target j @ ''.part'' \<longrightarrow> disk_files d' f = disk_files d f"
  shows "one_outcome j c d (run_updates us c) d'"
  using assms by (simp add: one_outcome_def fail_job_effect push_event_def)

text \<open>The bytes a request hands to the file, and the updates of a request that wrote them.\<close>

definition reply_body :: "network \<Rightarrow> string" where
  "reply_body net =
     (let received = read_all (net_receive net); gathered = fold gather_payload (parse_mvr_packages received) []
      in if gathered = [] \<and> looks_like_zip received then received else gathered)"

definition finished_updates :: "worker_job \<Rightarrow> string \<Rightarrow> (transfer_client \<Rightarrow> transfer_client) list" where
  "finished_updates j body =
     [push_event (started_event j),
      \<lambda>c. c\<lparr>tc_last_received_file_path := job_target j, tc_received_byte_count := of_nat (length body)\<rparr>,
      push_event (job_event j ''transfer_finished'' (job_target j) ''MVR received'' (of_nat (length body))), release]"

lemma worker_request:
  assumes "job_request_file j" and "write_completed_mvr_file (job_target j) (reply_body net) d = (r, d2)"
  shows "worker_main clock net uuid j d =
    (case connect_tcp (job_station j) net of
       Some e \<Rightarrow> (push_event (started_event j) # fail_job j e, d)
     | None \<Rightarrow>
         if \<not> send_all (net_send net) 0 0 (length (build_mvr_package kMvrPackageTypeJson (job_message j uuid)))
         then (push_event (started_event j) # fail_job j ''Unable to send MVR-xchange message'', d)
         else if read_all (net_receive net) \<noteq> [] \<and> parse_mvr_packages (read_all (net_receive net)) = []
         then (push_event (started_event j) # fail_job j ''Received malformed MVR-xchange package'', d)
         else case r of
           Some e \<Rightarrow> (push_event (started_event j) # fail_job j e, d2)
         | None \<Rightarrow> (finished_updates j (reply_body net), d2))"
proof -
  let ?received = "read_all (net_receive net)"
  have body: "(if fold gather_payload (parse_mvr_packages ?received) [] = [] \<and> looks_like_zip ?received
      then ?received else fold gather_payload (parse_mvr_packages ?received) []) = reply_body net"
    by (simp add: reply_body_def Let_def)
  show ?thesis
    unfolding worker_main_def Let_def body assms(2)
    by (simp add: assms(1) started_event_def finished_updates_def split: option.split)
qed

lemma request_outcome:
  assumes "job_request_file j" and "worker_main clock net uuid j d = (us, d')"
  shows "one_outcome j c d (run_updates us c) d'"
proof -
  obtain r d2 where written: "write_completed_mvr_file (job_target j) (reply_body net) d = (r, d2)"
    by (cases "write_completed_mvr_file (job_target j) (reply_body net) d")
  note disk = write_completed_cases [OF written]
  consider e where "us = push_event (started_event j) # fail_job j e" "d' = d"
    | e where "us = push_event (started_event j) # fail_job j e" "d' = d2"
    | "r = None" "d' = d2" "us = finished_updates j (reply_body net)"
    using assms(2) unfolding worker_request [OF assms(1) written]
    by (auto split: option.splits if_splits)
  then show ?thesis
  proof cases
    case 1
    show ?thesis by (rule failed_outcome [OF assms(1) 1(1)]) (simp add: 1(2))
  next
    case 2
    show ?thesis by (rule failed_outcome [OF assms(1) 2(1)]) (simp add: 2(2) disk)
  next
    case 3
    have "tc_events (run_updates us c) = tc_events c @ [started_event j,
        job_event j ''transfer_finished'' (job_target j) ''MVR received'' (of_nat (length (reply_body net)))] \<and>
      \<not> tc_busy (run_updates us c)"
      unfolding 3(3) by (simp add: finished_updates_def push_event_def release_def)
    then show ?thesis
      unfolding one_outcome_def 3(2) using disk 3(1)
      by (intro conjI exI [of _ "job_event j ''transfer_finished'' (job_target j) ''MVR received'' (of_nat (length (reply_body net)))"]
          disjI1 exI [of _ "reply_body net"]) simp_all
  qed
qed

text \<open>The peer's answer: MVR packages, in whatever pieces.\<close>

definition answers_with :: "network \<Rightarrow> worker_job \<Rightarrow> string list \<Rightarrow> bool" where
  "answers_with net j parts \<longleftrightarrow>
     connect_tcp (job_station j) net = None \<and> (\<forall>k. 0 < net_send net k) \<and> [] \<notin> set (net_receive net) \<and>
     concat (net_receive net) = sent_bytes (map (Pair kMvrPackageTypeMvr) parts) \<and> (\<forall>b\<in>set parts. length b < 2 ^ 64)"

definition archive :: "string \<Rightarrow> bool" where
  "archive p \<longleftrightarrow> looks_like_zip p \<and> contains_general_scene_description p"

definition disk_takes :: "disk \<Rightarrow> string \<Rightarrow> bool" where
  "disk_takes d p \<longleftrightarrow> disk_creates d \<and> disk_renames d \<and> length p \<le> disk_stores d"

lemma request_delivers:
  assumes "job_request_file j" and "worker_main clock net uuid j d = (us, d')"
    and "answers_with net j parts" and "archive (concat parts)" and "job_target j \<noteq> []" and "disk_takes d (concat parts)"
  shows "disk_files d' (job_target j) = Some (concat parts) \<and>
    tc_events (run_updates us c) = tc_events c @ [started_event j,
      job_event j ''transfer_finished'' (job_target j) ''MVR received'' (of_nat (length (concat parts)))]"
proof -
  let ?body = "concat parts"
  have received: "read_all (net_receive net) = sent_bytes (map (Pair kMvrPackageTypeMvr) parts)"
    using assms(3) by (simp add: answers_with_def read_all_pieces)
  have "\<forall>(t, b)\<in>set (map (Pair kMvrPackageTypeMvr) parts). length b < 2 ^ 64"
    using assms(3) by (auto simp: answers_with_def)
  note packets = parse_sent_all [OF this, folded received]
  have ne: "?body \<noteq> []"
  proof
    assume "?body = []"
    then show False using assms(4) by (simp add: archive_def looks_like_zip_def del: concat_eq_Nil_conv)
  qed
  then have some: "parts \<noteq> []" by (cases parts) simp_all
  have sent: "send_all (net_send net) 0 0 n" for n using assms(3) by (simp add: answers_with_def send_all_delivers)
  have body: "reply_body net = ?body"
    using ne by (simp add: reply_body_def packets gather_sent [simplified] Let_def del: concat_eq_Nil_conv)
  have written: "write_completed_mvr_file (job_target j) ?body d =
      (None, d\<lparr>disk_files := ((((disk_files d)(job_target j @ ''.part'' \<mapsto> ?body))(job_target j := None))
        (job_target j \<mapsto> ?body))(job_target j @ ''.part'' := None)\<rparr>)"
    using assms(4-6) ne by (simp add: write_completed_mvr_file_def archive_def disk_takes_def)
  have "worker_main clock net uuid j d = (finished_updates j ?body, disk_done)" if "disk_done = snd (write_completed_mvr_file (job_target j) ?body d)" for disk_done
    using worker_request [OF assms(1) written [folded body]] assms(3) some that
    by (simp add: body answers_with_def packets sent written)
  then show ?thesis using assms(2) by (auto simp: finished_updates_def push_event_def release_def written)
qed


text \<open>A station that serves its file in two packages, and a disk that stores it.\<close>

definition sample_station :: station_info where
  "sample_station = blank_station\<lparr>si_station_name := ''Desk'', si_service_name := ''Desk@Default'',
     si_address := ''10.0.0.2'', si_port := 4000\<rparr>"

definition sample_network :: "string list \<Rightarrow> network" where
  "sample_network pieces = \<lparr>net_dial = (\<lambda>host port. Connected), net_send = (\<lambda>k. 100), net_receive = pieces\<rparr>"

definition sample_disk :: disk where
  "sample_disk = \<lparr>disk_files = Map.empty, disk_creates = True, disk_stores = 1000, disk_renames = True\<rparr>"


subsection \<open>Which revision a station has\<close>

lemma handle_join:
  assumes "quote_free uuid" and "length (build_join_message name uuid) < 2 ^ 64"
  shows "fst (handle_tcp_client station suuid (build_mvr_package kMvrPackageTypeJson (build_join_message name uuid)))
    = [build_mvr_package kMvrPackageTypeJson (build_join_ret_message station suuid True [])]"
proof -
  have "parse_mvr_packages (build_mvr_package kMvrPackageTypeJson (build_join_message name uuid))
      = [sent_packet (kMvrPackageTypeJson, build_join_message name uuid)]"
    using parse_sent_all [of "[(kMvrPackageTypeJson, build_join_message name uuid)]"] assms(2) by simp
  then show ?thesis
    using join_message_type [OF assms(1), of name]
    by (simp add: handle_tcp_client_def sent_packet_def)
qed

text \<open>C40: Which revision the client holds for a station is not what the station has.  Joining a Peraviz
  station, which lists no commits, replaces whatever revision was known by one without a file, announces
  it as available, and makes the next request for the latest file of the station fail; and a commit that a
  station pushes is filed under its UUID, so the revision of its service name, the one that is requested,
  stays what it was.\<close>

theorem revisions_of_stations_are_lost:
  assumes "quote_free name" and "quote_free suuid" and "quote_free (tc_station_uuid c)"
    and "\<not> job_request_file j" and "connect_tcp (job_station j) net = None" and "\<forall>k. 0 < net_send net k"
    and "net_receive net = fst (handle_tcp_client name suuid
      (build_mvr_package kMvrPackageTypeJson (job_message j (tc_station_uuid c))))"
    and "length (job_message j (tc_station_uuid c)) < 2 ^ 64"
    and "length (build_join_ret_message name suuid True []) < 2 ^ 64"
    and "worker_main clock net (tc_station_uuid c) j d = (us, d')" and "c' = run_updates us c"
    and "service = si_service_name (job_station j)" and "json_string_value m [''StationUUID''] \<noteq> service"
  shows "(\<exists>commit. tc_commits c' service = Some commit \<and> ci_file_uuid commit = [] \<and>
      ev_type (last (tc_events c')) = ''commit_available'' \<and> ev_file_uuid (last (tc_events c')) = [] \<and>
      fst (request_latest_mvr service target c') = False) \<and>
    tc_commits (on_station_message now ''MVR_COMMIT'' m c) service = tc_commits c service"
proof
  let ?reply = "build_join_ret_message name suuid True []"
  let ?p = "sent_packet (kMvrPackageTypeJson, ?reply)"
  let ?commit = "parse_commit_message (clock 0) ?reply (job_station j)"
  have pieces: "net_receive net = [build_mvr_package kMvrPackageTypeJson ?reply]"
    using assms(7,8) handle_join [OF assms(3), of "''Peraviz''" name suuid] assms(4) by (simp add: job_message_def)
  have received: "read_all (net_receive net) = build_mvr_package kMvrPackageTypeJson ?reply"
    by (simp add: pieces read_all_def)
  have packets: "parse_mvr_packages (build_mvr_package kMvrPackageTypeJson ?reply) = [?p]"
    using parse_sent_all [of "[(kMvrPackageTypeJson, ?reply)]"] assms(9) by simp
  note reply = join_ret_message_fields [OF assms(2,1), of "[]"]
  have none: "ci_file_uuid ?commit = []"
    using reply(1) by (simp add: parse_commit_message_def canonicalize_uuid_def)
  have updates: "commit_updates j (clock 0) ?p = [\<lambda>c. c\<lparr>tc_commits := (tc_commits c)(service \<mapsto> ?commit)\<rparr>,
      push_event \<lparr>ev_type = ''commit_available'', ev_service_name = service,
        ev_station_name = si_station_name (job_station j), ev_file_uuid = [], ev_path = [],
        ev_message = ci_message ?commit, ev_size_bytes = 0\<rparr>]"
    using reply(2) none assms(12)
    by (simp add: commit_updates_def sent_packet_def str_contains_iff_sublist Let_def)
  have "us = push_event (job_event j ''join_started'' (job_target j) [] 0)
      # push_event (job_event j ''join_succeeded'' [] ''Joined'' 0) # commit_updates j (clock 0) ?p @ [release]"
    using assms(4-6,10) send_all_delivers [OF assms(6)]
    by (simp add: worker_main_def received packets Let_def)
  then have "tc_commits c' service = Some ?commit" "ev_type (last (tc_events c')) = ''commit_available''"
    "ev_file_uuid (last (tc_events c')) = []"
    by (simp_all add: assms(11) updates push_event_def release_def)
  moreover have "fst (request_latest_mvr service target c') = False"
    using \<open>tc_commits c' service = Some ?commit\<close> none
    by (simp add: request_latest_mvr_def is_valid_uuid_def canonicalize_uuid_def)
  ultimately show "\<exists>commit. tc_commits c' service = Some commit \<and> ci_file_uuid commit = [] \<and>
      ev_type (last (tc_events c')) = ''commit_available'' \<and> ev_file_uuid (last (tc_events c')) = [] \<and>
      fst (request_latest_mvr service target c') = False"
    using none by blast
  show "tc_commits (on_station_message now ''MVR_COMMIT'' m c) service = tc_commits c service"
    using assms(13)
    by (simp add: on_station_message_def parse_commit_message_def blank_station_def push_event_def set_last_error_def Let_def)
qed

lemma revisions_of_stations_are_lost_witness:
  "\<exists>commit. tc_commits (run_updates (fst (worker_main (\<lambda>k. 7)
        (sample_network (fst (handle_tcp_client ''Peraviz'' ''1''
           (build_mvr_package kMvrPackageTypeJson (build_join_message ''Peraviz'' ''0''))))) ''0''
        \<lparr>job_station = sample_station, job_file_uuid = [], job_target = [], job_request_file = False\<rparr> sample_disk))
      ((new_transfer_client 0)\<lparr>tc_station_uuid := ''0'', tc_busy := True\<rparr>)) ''Desk@Default'' = Some commit \<and>
    ci_file_uuid commit = []"
proof -
  let ?c = "(new_transfer_client 0)\<lparr>tc_station_uuid := ''0'', tc_busy := True\<rparr>"
  let ?j = "\<lparr>job_station = sample_station, job_file_uuid = [], job_target = [], job_request_file = False\<rparr>"
  let ?net = "sample_network (fst (handle_tcp_client ''Peraviz'' ''1''
           (build_mvr_package kMvrPackageTypeJson (build_join_message ''Peraviz'' ''0''))))"
  have free: "quote_free ''Peraviz''" "quote_free ''1''" "quote_free (tc_station_uuid ?c)" by (simp_all add: is_quote_def)
  have dial: "connect_tcp (job_station ?j) ?net = None" "\<forall>k. 0 < net_send ?net k"
    by (simp_all add: connect_tcp_def sample_network_def sample_station_def blank_station_def)
  have answer: "net_receive ?net = fst (handle_tcp_client ''Peraviz'' ''1''
      (build_mvr_package kMvrPackageTypeJson (job_message ?j (tc_station_uuid ?c))))"
    by (simp add: sample_network_def job_message_def)
  have short: "length (job_message ?j (tc_station_uuid ?c)) < 2 ^ 64" "length (build_join_ret_message ''Peraviz'' ''1'' True []) < 2 ^ 64"
    by (simp_all add: job_message_def build_join_message_def build_join_ret_message_def json_escape_def)
  have other: "json_string_value [] [''StationUUID''] \<noteq> ''Desk@Default''"
    by (simp add: json_string_value_search key_search_Nil)
  have service: "''Desk@Default'' = si_service_name (job_station ?j)" by (simp add: sample_station_def)
  have "\<not> job_request_file ?j" by simp
  note lost = revisions_of_stations_are_lost [OF free this dial answer short
      surjective_pairing [of "worker_main (\<lambda>k. 7) ?net (tc_station_uuid ?c) ?j sample_disk"] refl service other]
  then show ?thesis by simp blast
qed

end
