(* ===== verification/Mesh_Stream.thy ===== *)
theory Mesh_Stream
  imports Complex_Main Prelude
begin

text \<open>
  The input stream the 3DS loader reads (\<open>std::ifstream\<close>) and the readers of \<open>mesh_3ds_loader.cpp\<close> on it.

  The bytes of the file are a parameter \<open>data\<close>; a stream is its read position and its fail bit. A read
  that meets the end of the file delivers what is left and sets the fail bit (with the end-of-file bit,
  so that \<open>good()\<close> is the absence of failure); a failed stream delivers nothing, ignores \<open>seekg\<close>, and
  its \<open>tellg\<close> is -1. Seeking past the end is allowed. Integers are read with the byte order of
  the little-endian hosts the program is built for, into variables that are zero before.
\<close>

record stream =
  st_pos :: nat
  st_failed :: bool

definition tellg :: "stream \<Rightarrow> int" where
  "tellg s = (if st_failed s then - 1 else int (st_pos s))"

definition seekg :: "int \<Rightarrow> stream \<Rightarrow> stream" where
  "seekg p s = (if st_failed s then s else s\<lparr>st_pos := nat p\<rparr>)"

definition read_bytes :: "u8 list \<Rightarrow> nat \<Rightarrow> stream \<Rightarrow> u8 list \<times> stream" where
  "read_bytes data n s =
     (if st_failed s then ([], s)
      else let got = take n (drop (st_pos s) data)
           in (got, \<lparr>st_pos = st_pos s + length got, st_failed = length got < n\<rparr>))"

definition le_word :: "u8 list \<Rightarrow> 'a::len word" where
  "le_word bs = foldr (\<lambda>b w. ucast b + 256 * w) bs 0"

definition read_stream_u16 :: "u8 list \<Rightarrow> stream \<Rightarrow> u16 \<times> stream" where
  "read_stream_u16 data s = (let (got, s) = read_bytes data 2 s in (le_word got, s))"

definition read_stream_u32 :: "u8 list \<Rightarrow> stream \<Rightarrow> u32 \<times> stream" where
  "read_stream_u32 data s = (let (got, s) = read_bytes data 4 s in (le_word got, s))"

text \<open>A \<open>float\<close> is its value, \<^term>\<open>None\<close> for an infinity or a NaN. Arithmetic on floats is exact here.\<close>

type_synonym float32 = "real option"

definition float_of_bits :: "u32 \<Rightarrow> float32" where
  "float_of_bits w =
     (let sgn = (if bit w 31 then - 1 else 1);
          e = unat (drop_bit 23 w AND 255);
          m = uint (w AND 8388607)
      in if e = 255 then None
         else if e = 0 then Some (sgn * real_of_int m / 2 ^ 149)
         else Some (sgn * real_of_int (8388608 + m) * 2 ^ e / 2 ^ 150))"

definition read_f32 :: "u8 list \<Rightarrow> stream \<Rightarrow> float32 \<times> stream" where
  "read_f32 data s = (let (bits, s) = read_stream_u32 data s in (float_of_bits bits, s))"

record chunk =
  chunk_id :: u16
  chunk_length :: u32

text \<open>\<open>read_chunk\<close>: \<^term>\<open>None\<close> is its result \<open>false\<close>.\<close>

definition read_chunk :: "u8 list \<Rightarrow> stream \<Rightarrow> chunk option \<times> stream" where
  "read_chunk data s =
     (let (i, s) = read_stream_u16 data s
      in if st_failed s then (None, s)
         else let (n, s) = read_stream_u32 data s
              in if st_failed s then (None, s) else (Some \<lparr>chunk_id = i, chunk_length = n\<rparr>, s))"

text \<open>The loop of \<open>read_cstring\<close>, which is also the one of the validator: the bytes before the terminator,
  and whether it came.\<close>

function scan_cstring :: "u8 list \<Rightarrow> int \<Rightarrow> stream \<Rightarrow> u8 list \<times> bool \<times> stream" where
  "scan_cstring data end_pos s =
     (if tellg s < end_pos
      then case read_bytes data 1 s of
             ([], s) \<Rightarrow> ([], False, s)
           | (ch # _, s) \<Rightarrow>
               if ch = 0 then ([], True, s)
               else let (out, found, s) = scan_cstring data end_pos s in (ch # out, found, s)
      else ([], False, s))"
  by pat_completeness auto

lemma read_bytes_pos:
  "read_bytes data n s = (got, s') \<Longrightarrow> st_pos s' = st_pos s + length got"
  by (auto simp: read_bytes_def Let_def split: if_splits)

lemma read_bytes_within:
  "read_bytes data n s = (got, s') \<Longrightarrow> got \<noteq> [] \<Longrightarrow> st_pos s' \<le> length data"
  by (auto simp: read_bytes_def Let_def split: if_splits)

termination scan_cstring
proof (relation "measure (\<lambda>(data, e, s). length data - st_pos s)")
  fix data :: "u8 list" and e s got s' ch x
  assume "(got, s') = read_bytes data 1 s" and "got = ch # x"
  then have "st_pos s' = st_pos s + Suc (length x)" "st_pos s' \<le> length data"
    using read_bytes_pos [of data 1 s got s'] read_bytes_within [of data 1 s got s'] by simp_all
  then show "((data, e, s'), data, e, s) \<in> measure (\<lambda>(data, e, s). length data - st_pos s)" by simp
qed simp

declare scan_cstring.simps [simp del]

definition read_cstring :: "u8 list \<Rightarrow> int \<Rightarrow> stream \<Rightarrow> string \<times> stream" where
  "read_cstring data end_pos s =
     (let (out, found, s) = scan_cstring data end_pos s in (map (\<lambda>b. char_of (unat b)) out, s))"

text \<open>The loop \<open>do \<dots> while\<close> that skips an object's name reads at least one byte.\<close>

function skip_name :: "u8 list \<Rightarrow> int \<Rightarrow> stream \<Rightarrow> stream" where
  "skip_name data end_pos s =
     (case read_bytes data 1 s of
        ([], s) \<Rightarrow> s
      | (ch # _, s) \<Rightarrow> if ch \<noteq> 0 \<and> tellg s < end_pos then skip_name data end_pos s else s)"
  by pat_completeness auto
termination
proof (relation "measure (\<lambda>(data, e, s). length data - st_pos s)")
  fix data :: "u8 list" and e s got s' ch x
  assume "(got, s') = read_bytes data 1 s" and "got = ch # x"
  then have "st_pos s' = st_pos s + Suc (length x)" "st_pos s' \<le> length data"
    using read_bytes_pos [of data 1 s got s'] read_bytes_within [of data 1 s got s'] by simp_all
  then show "((data, e, s'), data, e, s) \<in> measure (\<lambda>(data, e, s). length data - st_pos s)" by simp
qed simp

declare skip_name.simps [simp del]

subsection \<open>Reading inside the file\<close>

named_theorems stream_simps \<open>reads on a good stream that stay inside the file\<close>

definition good_at :: "nat \<Rightarrow> stream" where
  "good_at p = \<lparr>st_pos = p, st_failed = False\<rparr>"

definition bytes_at :: "u8 list \<Rightarrow> nat \<Rightarrow> nat \<Rightarrow> u8 list" where
  "bytes_at data p n = take n (drop p data)"

lemma good_at_simps [simp]: "st_pos (good_at p) = p" "\<not> st_failed (good_at p)" "good_at p = good_at q \<longleftrightarrow> p = q"
  by (simp_all add: good_at_def)

lemma tellg_good_at [simp]: "tellg (good_at p) = int p"
  by (simp add: tellg_def)

lemma seekg_at [simp]: "seekg q (good_at p) = good_at (nat q)"
  by (simp add: seekg_def good_at_def)

lemma stream_cases: obtains "st_failed s" | "s = good_at (st_pos s)"
  by (cases "st_failed s") (auto simp: good_at_def)

lemma read_bytes_at [stream_simps]:
  "p + n \<le> length data \<Longrightarrow> read_bytes data n (good_at p) = (bytes_at data p n, good_at (p + n))"
  by (simp add: read_bytes_def good_at_def bytes_at_def)

lemma length_bytes_at: "p + n \<le> length data \<Longrightarrow> length (bytes_at data p n) = n"
  by (simp add: bytes_at_def)

lemma read_stream_u16_at [stream_simps]:
  "p + 2 \<le> length data \<Longrightarrow> read_stream_u16 data (good_at p) = (le_word (bytes_at data p 2), good_at (p + 2))"
  by (simp add: read_stream_u16_def stream_simps)

lemma read_stream_u32_at [stream_simps]:
  "p + 4 \<le> length data \<Longrightarrow> read_stream_u32 data (good_at p) = (le_word (bytes_at data p 4), good_at (p + 4))"
  by (simp add: read_stream_u32_def stream_simps)

lemma read_f32_at [stream_simps]:
  "p + 4 \<le> length data \<Longrightarrow>
     read_f32 data (good_at p) = (float_of_bits (le_word (bytes_at data p 4)), good_at (p + 4))"
  by (simp add: read_f32_def stream_simps)

text \<open>A read that does not fail stayed inside.\<close>

lemma read_bytes_ok:
  assumes "read_bytes data n s = (got, s')" and "\<not> st_failed s'"
  shows "s = good_at (st_pos s) \<and> s' = good_at (st_pos s + n) \<and> got = bytes_at data (st_pos s) n \<and>
    (st_pos s + n \<le> length data \<or> n = 0)"
  using assms
  by (cases s) (auto simp: read_bytes_def Let_def good_at_def bytes_at_def split: if_splits)

lemma read_bytes_fails_on:
  "st_failed s \<Longrightarrow> read_bytes data n s = ([], s)"
  by (simp add: read_bytes_def)

lemma read_u16_failed [simp]: "st_failed s \<Longrightarrow> st_failed (snd (read_stream_u16 data s))"
  by (simp add: read_stream_u16_def read_bytes_fails_on)

lemma read_chunk_Some:
  assumes "read_chunk data s = (Some c, s')"
  shows "s = good_at (st_pos s) \<and> s' = good_at (st_pos s + 6) \<and> st_pos s + 6 \<le> length data \<and>
    c = \<lparr>chunk_id = le_word (bytes_at data (st_pos s) 2),
         chunk_length = le_word (bytes_at data (st_pos s + 2) 4)\<rparr>"
proof -
  obtain i s1 where one: "read_stream_u16 data s = (i, s1)" by fastforce
  obtain n s2 where two: "read_stream_u32 data s1 = (n, s2)" by fastforce
  have ok: "\<not> st_failed s1" "\<not> st_failed s2" and c: "c = \<lparr>chunk_id = i, chunk_length = n\<rparr>" "s' = s2"
    using assms by (auto simp: read_chunk_def one two split: if_splits)
  obtain g1 where g1: "read_bytes data 2 s = (g1, s1)" "i = le_word g1"
    using one by (auto simp: read_stream_u16_def split: prod.splits)
  obtain g2 where g2: "read_bytes data 4 s1 = (g2, s2)" "n = le_word g2"
    using two by (auto simp: read_stream_u32_def split: prod.splits)
  from read_bytes_ok [OF g1(1) ok(1)] have s: "s = good_at (st_pos s)" "s1 = good_at (st_pos s + 2)"
    "g1 = bytes_at data (st_pos s) 2" by auto
  from read_bytes_ok [OF g2(1) ok(2)] have "s2 = good_at (st_pos s1 + 4)" "g2 = bytes_at data (st_pos s1) 4"
    "st_pos s1 + 4 \<le> length data" by auto
  then have "s2 = good_at (st_pos s + 6)" "g2 = bytes_at data (st_pos s + 2) 4" "st_pos s + 6 \<le> length data"
    unfolding s(2) by simp_all
  then show ?thesis using s(1,3) c g1(2) g2(2) by simp
qed

lemma read_chunk_at:
  assumes "p + 6 \<le> length data"
  shows "read_chunk data (good_at p) =
    (Some \<lparr>chunk_id = le_word (bytes_at data p 2),
           chunk_length = le_word (bytes_at data (p + 2) 4)\<rparr>, good_at (p + 6))"
  using assms by (simp add: read_chunk_def stream_simps)

lemma scan_cstring_pos:
  "scan_cstring data e s = (out, found, s') \<Longrightarrow> st_pos s \<le> st_pos s'"
proof (induction data e s arbitrary: out found s' rule: scan_cstring.induct)
  case (1 data e s)
  show ?case
  proof (cases "tellg s < e")
    case True
    obtain got s1 where rd: "read_bytes data 1 s = (got, s1)" by fastforce
    have pos: "st_pos s1 = st_pos s + length got" using read_bytes_pos [OF rd] .
    show ?thesis
    proof (cases got)
      case Nil
      then show ?thesis using 1(2) True rd pos by (simp add: scan_cstring.simps [of data e s])
    next
      case (Cons ch x)
      then show ?thesis using 1(2) True rd pos 1(1) [OF True rd [symmetric] Cons]
        by (fastforce simp: scan_cstring.simps [of data e s] split: if_splits prod.splits)
    qed
  next
    case False
    then show ?thesis using 1(2) by (simp add: scan_cstring.simps [of data e s])
  qed
qed

text \<open>A terminator that was found lies before the end given: the scan stops behind it on a good stream.\<close>

lemma scan_cstring_found:
  assumes "scan_cstring data e (good_at p) = (out, True, s')"
  shows "s' = good_at (p + length out + 1) \<and> int (p + length out + 1) \<le> e \<and> p + length out + 1 \<le> length data"
  using assms
proof (induction data e "good_at p" arbitrary: p out s' rule: scan_cstring.induct)
  case (1 data e)
  from 1(2) have less: "int p < e" by (auto simp: scan_cstring.simps [of data e "good_at p"] split: if_splits)
  obtain got s1 where rd: "read_bytes data 1 (good_at p) = (got, s1)" by fastforce
  with 1(2) less have "got \<noteq> []" by (auto simp: scan_cstring.simps [of data e "good_at p"])
  with rd have p: "p + 1 \<le> length data" by (auto simp: read_bytes_def Let_def split: if_splits)
  obtain ch where got: "got = [ch]" and s1: "s1 = good_at (p + 1)"
    using rd p length_bytes_at [of p 1 data] by (auto simp: stream_simps length_Suc_conv)
  show ?case
  proof (cases "ch = 0")
    case True
    then show ?thesis using 1(2) less rd got s1 p by (auto simp: scan_cstring.simps [of data e "good_at p"])
  next
    case False
    then obtain out' where out': "scan_cstring data e (good_at (p + 1)) = (out', True, s')" "out = ch # out'"
      using 1(2) less rd got s1 by (auto simp: scan_cstring.simps [of data e "good_at p"] split: prod.splits)
    have "[ch] = ch # []" ..
    then have "s' = good_at (p + 1 + length out' + 1) \<and> int (p + 1 + length out' + 1) \<le> e \<and>
        p + 1 + length out' + 1 \<le> length data"
      using 1(1) [of "[ch]" "p + 1" ch "[]" out' s'] rd got s1 less False out'(1) by simp
    then show ?thesis using out'(2) by simp
  qed
qed

end
