(* ===== verification/Mesh_Validation.thy ===== *)
theory Mesh_Validation
  imports Mesh_Stream
begin

text \<open>
  \<open>validate_chunks\<close> of \<open>mesh_3ds_loader.cpp\<close>: the walk over the chunk tree of a 3DS file that runs before
  the geometry parser. The result \<^term>\<open>None\<close> is the code's \<open>false\<close>; an accepted stretch of the file
  gives the stream behind it. The recursion is the code's: over the chunks of a stretch and into the chunks
  that hold others, at most 64 deep.
\<close>

record tally =
  ta_vertex_count :: u16
  ta_maximum_index :: u32
  ta_has_faces :: bool

definition empty_tally :: tally where
  "empty_tally = \<lparr>ta_vertex_count = 0, ta_maximum_index = 0, ta_has_faces = False\<rparr>"

text \<open>Chunks that begin with a name, that have a counted array, and that hold chunks.\<close>

definition named :: "chunk \<Rightarrow> bool" where
  "named c \<longleftrightarrow> chunk_id c = 0x4000 \<or> chunk_id c = 0xA000 \<or> chunk_id c = 0xA300 \<or> chunk_id c = 0x4130"

definition counted :: "chunk \<Rightarrow> bool" where
  "counted c \<longleftrightarrow> chunk_id c = 0x4110 \<or> chunk_id c = 0x4120 \<or> chunk_id c = 0x4140 \<or> chunk_id c = 0x4130"

definition container :: "chunk \<Rightarrow> bool" where
  "container c \<longleftrightarrow> chunk_id c = 0x3D3D \<or> chunk_id c = 0x4000 \<or> chunk_id c = 0x4100 \<or>
     chunk_id c = 0xAFFF \<or> chunk_id c = 0xA020 \<or> chunk_id c = 0xA200"

definition stride :: "chunk \<Rightarrow> nat" where
  "stride c = (if chunk_id c = 0x4110 then 12 else if chunk_id c = 0x4130 then 2 else 8)"

definition check_name :: "u8 list \<Rightarrow> int \<Rightarrow> chunk \<Rightarrow> stream \<Rightarrow> stream option" where
  "check_name data next_pos c s =
     (if named c
      then let (out, terminated, s) = scan_cstring data next_pos s in if terminated then Some s else None
      else Some s)"

text \<open>The loop over the faces: the largest of the three vertex indices of each.\<close>

definition index_of :: "u8 list \<Rightarrow> nat \<Rightarrow> u16" where
  "index_of got k = le_word (take 2 (drop (2 * k) got))"

primrec scan_faces :: "u8 list \<Rightarrow> nat \<Rightarrow> u32 \<Rightarrow> stream \<Rightarrow> u32 \<times> stream" where
  "scan_faces data 0 m s = (m, s)"
| "scan_faces data (Suc n) m s =
     (let (got, s) = read_bytes data 8 s
      in scan_faces data n (max m (ucast (max (max (index_of got 0) (index_of got 1)) (index_of got 2)))) s)"

definition check_payload :: "u8 list \<Rightarrow> int \<Rightarrow> chunk \<Rightarrow> tally \<Rightarrow> stream \<Rightarrow> (tally \<times> stream) option" where
  "check_payload data next_pos c t s =
     (if counted c then
        let remaining = next_pos - tellg s
        in if remaining < 2 then None
           else let (count, s) = read_stream_u16 data s
             in if st_failed s then None
                else if remaining - 2 < int (unat count * stride c) then None
                else let t = (if chunk_id c = 0x4110 then t\<lparr>ta_vertex_count := count\<rparr> else t)
                  in if chunk_id c = 0x4120
                     then let (m, s) = scan_faces data (unat count) (ta_maximum_index t) s
                          in Some (t\<lparr>ta_maximum_index := m, ta_has_faces := (count > 0)\<rparr>, s)
                     else Some (t, seekg (tellg s + int (unat count * stride c)) s)
      else if container c then Some (t, s)
      else let payload = unat (chunk_length c) - 6
        in if ((chunk_id c = 0x0010 \<or> chunk_id c = 0x0013) \<and> payload < 12) \<or>
              ((chunk_id c = 0x0011 \<or> chunk_id c = 0x0012) \<and> payload < 3)
           then None else Some (t, s))"

definition nests :: "chunk \<Rightarrow> bool" where
  "nests c \<longleftrightarrow> chunk_id c = 0x4120 \<or> container c"

lemma scan_faces_pos: "scan_faces data n m s = (m', s') \<Longrightarrow> st_pos s \<le> st_pos s'"
proof (induction n arbitrary: m s)
  case (Suc n)
  obtain got s1 where rd: "read_bytes data 8 s = (got, s1)" by fastforce
  with Suc.prems have "st_pos s1 \<le> st_pos s'" by (auto intro: Suc.IH)
  with read_bytes_pos [OF rd] show ?case by simp
qed simp

lemma check_name_pos: "check_name data e c s = Some s' \<Longrightarrow> st_pos s \<le> st_pos s'"
  by (auto simp: check_name_def split: if_splits prod.splits dest: scan_cstring_pos)

lemma check_payload_pos:
  assumes "check_payload data e c t s = Some (t', s')"
  shows "st_pos s \<le> st_pos s'"
proof (cases "counted c")
  case True
  obtain count s1 where rd: "read_stream_u16 data s = (count, s1)" by fastforce
  then obtain got where "read_bytes data 2 s = (got, s1)" by (auto simp: read_stream_u16_def split: prod.splits)
  from read_bytes_pos [OF this] have "st_pos s \<le> st_pos s1" by simp
  moreover obtain m s2 where fs: "scan_faces data (unat count) (ta_maximum_index t) s1 = (m, s2)" by fastforce
  then have "st_pos s1 \<le> st_pos s2" by (rule scan_faces_pos)
  moreover have "s' = s2 \<or> \<not> st_failed s1 \<and> s' = seekg (tellg s1 + int (unat count * stride c)) s1"
    using assms True rd fs by (auto simp: check_payload_def Let_def split: if_splits)
  moreover have "0 \<le> uint count * int (stride c)" by simp
  ultimately show ?thesis by (auto simp: seekg_def tellg_def nat_add_distrib)
next
  case False
  with assms show ?thesis by (auto simp: check_payload_def Let_def split: if_splits)
qed

function validate_loop :: "u8 list \<Rightarrow> int \<Rightarrow> nat \<Rightarrow> tally \<Rightarrow> stream \<Rightarrow> stream option" where
  "validate_loop data end_pos depth t s =
     (if st_failed s \<or> tellg s \<ge> end_pos
      then if \<not> st_failed s \<and> tellg s = end_pos \<and>
              (\<not> ta_has_faces t \<or> ta_maximum_index t < ucast (ta_vertex_count t))
           then Some s else None
      else if end_pos - tellg s < 6 then None
      else case read_chunk data s of
             (None, s1) \<Rightarrow> None
           | (Some c, s1) \<Rightarrow>
               if chunk_length c < 6 \<or> uint (chunk_length c) > end_pos - tellg s then None
               else let next_pos = tellg s + uint (chunk_length c)
                 in case check_name data next_pos c s1 of
                      None \<Rightarrow> None
                    | Some s2 \<Rightarrow>
                        (case check_payload data next_pos c t s2 of
                           None \<Rightarrow> None
                         | Some (t', s3) \<Rightarrow>
                             if nests c
                             then if Suc depth > 64 then None
                                  else (case validate_loop data next_pos (Suc depth) empty_tally s3 of
                                          None \<Rightarrow> None
                                        | Some s4 \<Rightarrow> validate_loop data end_pos depth t' (seekg next_pos s4))
                             else validate_loop data end_pos depth t' (seekg next_pos s3)))"
  by pat_completeness auto

text \<open>Every chunk takes at least its six header bytes off the stretch, and the chunks inside it lie
  before its end.\<close>

definition stretch_left :: "u8 list \<times> int \<times> nat \<times> tally \<times> stream \<Rightarrow> nat" where
  "stretch_left = (\<lambda>(data, e, d, t, s). if st_failed s then 0 else nat (e - int (st_pos s)))"

lemma stretch_left_seekg:
  "tellg s < e \<Longrightarrow> \<not> st_failed s \<Longrightarrow> 6 \<le> n \<Longrightarrow>
     stretch_left (data, e, d, t, seekg (tellg s + n) s') < stretch_left (data', e, d', t', s)"
  by (auto simp: stretch_left_def seekg_def tellg_def)

lemma stretch_left_inside:
  assumes "tellg s < e" and "\<not> st_failed s" and "read_chunk data s = (Some c, s1)"
    and "uint (chunk_length c) \<le> e - tellg s"
    and "check_name data n c s1 = Some s2" and "check_payload data n c t s2 = Some (t', s3)"
    and "n = tellg s + uint (chunk_length c)"
  shows "stretch_left (data, n, d, u, s3) < stretch_left (data, e, d', u', s)"
proof -
  have "st_pos s1 = st_pos s + 6" using read_chunk_Some [OF assms(3)] by (metis good_at_simps(1))
  moreover have "st_pos s1 \<le> st_pos s2" and "st_pos s2 \<le> st_pos s3"
    using check_name_pos [OF assms(5)] check_payload_pos [OF assms(6)] .
  ultimately show ?thesis
    using assms(1,2,4,7) by (auto simp: stretch_left_def tellg_def)
qed

lemma chunk_length_at_least: "\<not> chunk_length c < 6 \<Longrightarrow> 6 \<le> uint (chunk_length c)"
  by (simp add: word_less_def)

termination validate_loop
  by (relation "measure stretch_left")
    (auto intro!: stretch_left_seekg stretch_left_inside chunk_length_at_least simp: not_le not_less)

declare validate_loop.simps [simp del]

definition validate_chunks :: "u8 list \<Rightarrow> int \<Rightarrow> nat \<Rightarrow> stream \<Rightarrow> stream option" where
  "validate_chunks data end_pos depth s =
     (if depth > 64 then None else validate_loop data end_pos depth empty_tally s)"

subsection \<open>What an accepted stretch guarantees\<close>

definition accepted :: "u8 list \<Rightarrow> nat \<Rightarrow> nat \<Rightarrow> bool" where
  "accepted data e p \<longleftrightarrow> (\<exists>d t s. validate_loop data (int e) d t (good_at p) = Some s)"

definition count_at :: "u8 list \<Rightarrow> nat \<Rightarrow> nat" where
  "count_at data q = unat (le_word (bytes_at data q 2) :: u16)"

definition payload_fits :: "u8 list \<Rightarrow> nat \<Rightarrow> chunk \<Rightarrow> nat \<Rightarrow> bool" where
  "payload_fits data n c q \<longleftrightarrow>
     (counted c \<longrightarrow> q + 2 + count_at data q * stride c \<le> n) \<and>
     (chunk_id c = 0x4120 \<longrightarrow> accepted data n (q + 2 + count_at data q * stride c)) \<and>
     (container c \<longrightarrow> accepted data n q) \<and>
     (chunk_id c = 0x0010 \<or> chunk_id c = 0x0013 \<longrightarrow> q + 12 \<le> n) \<and>
     (chunk_id c = 0x0011 \<or> chunk_id c = 0x0012 \<longrightarrow> q + 3 \<le> n)"

lemmas chunk_kinds = named_def counted_def container_def nests_def

lemma scan_faces_good:
  "q + 8 * n \<le> length data \<Longrightarrow> snd (scan_faces data n m (good_at q)) = good_at (q + 8 * n)"
  by (induction n arbitrary: m q) (simp_all add: stream_simps)

lemma check_name_good:
  assumes "check_name data (int n) c (good_at p) = Some s" and "p \<le> n"
  obtains q where "s = good_at q" and "p \<le> q" and "q \<le> n" and "\<not> named c \<Longrightarrow> q = p"
proof (cases "named c")
  case True
  with assms(1) obtain out where "scan_cstring data (int n) (good_at p) = (out, True, s)"
    by (auto simp: check_name_def split: prod.splits if_splits)
  from scan_cstring_found [OF this] show ?thesis using that [of "p + length out + 1"] True by simp
next
  case False
  with assms show ?thesis using that [of p] by (simp add: check_name_def)
qed

lemma check_payload_good:
  assumes "check_payload data (int n) c t (good_at q) = Some (t', s)" and "q \<le> n" and "n \<le> length data"
  shows "counted c \<Longrightarrow> q + 2 + count_at data q * stride c \<le> n \<and> s = good_at (q + 2 + count_at data q * stride c)"
    and "\<not> counted c \<Longrightarrow> s = good_at q"
proof -
  assume c: "counted c"
  have two: "q + 2 \<le> n" using assms(1) c by (auto simp: check_payload_def Let_def split: if_splits)
  then have "q + 2 \<le> length data" using assms(3) by simp
  note rd = read_stream_u16_at [OF this]
  have "int (count_at data q * stride c) \<le> int n - int q - 2"
    using assms(1) c two by (auto simp: check_payload_def rd count_at_def Let_def not_less split: if_splits)
  then have fits: "q + 2 + count_at data q * stride c \<le> n" using two by linarith
  have seek: "nat (int (q + 2) + int (count_at data q * stride c)) = q + 2 + count_at data q * stride c" by linarith
  then have "snd (scan_faces data (count_at data q) (ta_maximum_index t) (good_at (q + 2))) = good_at (q + 2 + 8 * count_at data q)"
    if "chunk_id c = 0x4120"
    using that assms(3) fits by (intro scan_faces_good) (simp add: stride_def)
  then show "q + 2 + count_at data q * stride c \<le> n \<and> s = good_at (q + 2 + count_at data q * stride c)"
    using fits assms(1) c two seek [unfolded count_at_def]
    by (auto simp: check_payload_def rd Let_def count_at_def stride_def simp del: of_nat_mult of_nat_add
        split: if_splits prod.splits)
next
  assume "\<not> counted c"
  then show "s = good_at q" using assms(1) by (auto simp: check_payload_def Let_def split: if_splits)
qed

lemma validate_loop_step:
  assumes "validate_loop data e d t s = Some s'" and "\<not> (st_failed s \<or> tellg s \<ge> e)"
  obtains c s1 s2 t' s3 s4 where "\<not> e - tellg s < 6" and "read_chunk data s = (Some c, s1)"
    and "\<not> (chunk_length c < 6 \<or> uint (chunk_length c) > e - tellg s)"
    and "check_name data (tellg s + uint (chunk_length c)) c s1 = Some s2"
    and "check_payload data (tellg s + uint (chunk_length c)) c t s2 = Some (t', s3)"
    and "nests c \<Longrightarrow> \<not> Suc d > 64 \<and>
      validate_loop data (tellg s + uint (chunk_length c)) (Suc d) empty_tally s3 = Some s4"
    and "\<not> nests c \<Longrightarrow> s4 = s3"
    and "validate_loop data e d t' (seekg (tellg s + uint (chunk_length c)) s4) = Some s'"
proof -
  obtain c s1 where rd: "read_chunk data s = (Some c, s1)" and six: "\<not> e - tellg s < 6"
    and len: "\<not> (chunk_length c < 6 \<or> uint (chunk_length c) > e - tellg s)"
    using assms by (auto simp: validate_loop.simps [of data e d t s] split: if_splits prod.splits option.splits)
  obtain s2 where nm: "check_name data (tellg s + uint (chunk_length c)) c s1 = Some s2"
    using assms rd len by (auto simp: validate_loop.simps [of data e d t s] Let_def split: if_splits option.splits)
  obtain t' s3 where pl: "check_payload data (tellg s + uint (chunk_length c)) c t s2 = Some (t', s3)"
    using assms rd len nm by (auto simp: validate_loop.simps [of data e d t s] Let_def split: if_splits option.splits)
  have "(if nests c then if Suc d > 64 then None
         else (case validate_loop data (tellg s + uint (chunk_length c)) (Suc d) empty_tally s3 of None \<Rightarrow> None
               | Some s4 \<Rightarrow> validate_loop data e d t' (seekg (tellg s + uint (chunk_length c)) s4))
         else validate_loop data e d t' (seekg (tellg s + uint (chunk_length c)) s3)) = Some s'"
    using assms rd len nm pl six by (simp add: validate_loop.simps [of data e d t s] Let_def)
  then show ?thesis using that [OF six rd len nm pl] by (auto split: if_splits option.splits)
qed

lemma validate_loop_end:
  "validate_loop data e d t s = Some s' \<Longrightarrow> \<not> st_failed s' \<and> tellg s' = e"
proof (induction data e d t s arbitrary: s' rule: validate_loop.induct)
  case (1 data e d t s)
  show ?case
  proof (cases "st_failed s \<or> e \<le> tellg s")
    case True
    with 1(4) show ?thesis by (auto simp: validate_loop.simps [of data e d t s] split: if_splits)
  next
    case False
    from validate_loop_step [OF 1(4) False] obtain c s1 s2 t' s3 s4 where six: "\<not> e - tellg s < 6"
      and rd: "read_chunk data s = (Some c, s1)"
      and len: "\<not> (chunk_length c < 6 \<or> uint (chunk_length c) > e - tellg s)"
      and nm: "check_name data (tellg s + uint (chunk_length c)) c s1 = Some s2"
      and pl: "check_payload data (tellg s + uint (chunk_length c)) c t s2 = Some (t', s3)"
      and inner: "nests c \<Longrightarrow> \<not> Suc d > 64 \<and>
        validate_loop data (tellg s + uint (chunk_length c)) (Suc d) empty_tally s3 = Some s4"
      and same: "\<not> nests c \<Longrightarrow> s4 = s3"
      and rest: "validate_loop data e d t' (seekg (tellg s + uint (chunk_length c)) s4) = Some s'"
      by blast
    show ?thesis
    proof (cases "nests c")
      case True
      with inner have deep: "\<not> Suc d > 64"
        "validate_loop data (tellg s + uint (chunk_length c)) (Suc d) empty_tally s3 = Some s4" by blast+
      show ?thesis
        by (rule 1(2) [OF False six rd [symmetric] refl len refl nm pl refl True deep rest])
    next
      case nn: False
      show ?thesis
        by (rule 1(3) [OF False six rd [symmetric] refl len refl nm pl refl nn rest [unfolded same [OF nn]]])
    qed
  qed
qed

lemma accepted_le: "accepted data e p \<Longrightarrow> p \<le> e"
  by (auto simp: accepted_def validate_loop.simps [of data "int e" _ _ "good_at p"] split: if_splits)

text \<open>The step: a chunk of an accepted stretch has its header, its name and its payload inside its
  length, the chunks it holds and the chunks after it form accepted stretches.\<close>

lemma accepted_chunk:
  assumes "accepted data e p" and "p < e" and "e \<le> length data"
  obtains c n q where "read_chunk data (good_at p) = (Some c, good_at (p + 6))"
    and "uint (chunk_length c - 6) = int n - int (p + 6)" and "p + 6 \<le> q" and "q \<le> n" and "n \<le> e"
    and "accepted data e n" and "check_name data (int n) c (good_at (p + 6)) = Some (good_at q)"
    and "payload_fits data n c q"
proof -
  obtain d t s where acc: "validate_loop data (int e) d t (good_at p) = Some s"
    using assms(1) by (auto simp: accepted_def)
  have "\<not> (st_failed (good_at p) \<or> tellg (good_at p) \<ge> int e)" using assms(2) by simp
  from validate_loop_step [OF acc this] obtain c s1 s2 t' s3 s4 where
    rd: "read_chunk data (good_at p) = (Some c, s1)"
    and len: "6 \<le> chunk_length c" "uint (chunk_length c) \<le> int e - int p"
    and nm': "check_name data (int p + uint (chunk_length c)) c s1 = Some s2"
    and pl': "check_payload data (int p + uint (chunk_length c)) c t s2 = Some (t', s3)"
    and inner: "nests c \<Longrightarrow> validate_loop data (int p + uint (chunk_length c)) (Suc d) empty_tally s3 = Some s4"
      "\<not> nests c \<Longrightarrow> s4 = s3"
    and rest: "validate_loop data (int e) d t' (seekg (int p + uint (chunk_length c)) s4) = Some s"
    by (metis not_le_imp_less not_less tellg_good_at)
  have s1: "s1 = good_at (p + 6)" using read_chunk_Some [OF rd] by simp
  define n where "n = p + nat (uint (chunk_length c))"
  have n: "int n = int p + uint (chunk_length c)" by (simp add: n_def)
  have six: "6 \<le> uint (chunk_length c)" using len(1) by (simp add: word_le_def)
  then have minus: "uint (chunk_length c - 6) = int n - int (p + 6)"
    using n len(1) by (simp add: uint_minus_simple_alt)
  note nm = nm' [folded n] and pl = pl' [folded n] and inner = inner [folded n] and rest = rest [folded n]
  have "p + 6 \<le> n" and "n \<le> e" using n six len(2) by linarith+
  obtain q where q: "s2 = good_at q" "p + 6 \<le> q" "q \<le> n" "\<not> named c \<Longrightarrow> q = p + 6"
    using check_name_good [OF nm [unfolded s1] \<open>p + 6 \<le> n\<close>] by metis
  have "n \<le> length data" using \<open>n \<le> e\<close> assms(3) by simp
  note good = check_payload_good [OF pl [unfolded q(1)] q(3) this]
  have "s4 = good_at n" if "nests c"
    using validate_loop_end [OF inner(1) [OF that]] by (cases s4 rule: stream_cases) (auto simp: tellg_def good_at_def)
  moreover have "\<not> st_failed s3" using good q by (cases "counted c") auto
  then have "seekg (int n) s3 = good_at n" by (cases s3) (simp add: seekg_def good_at_def)
  ultimately have "seekg (int n) s4 = good_at n" using inner(2) by (cases "nests c") auto
  with rest have rest: "accepted data e n" by (auto simp: accepted_def)
  have array: "accepted data n (q + 2 + count_at data q * stride c)" if "chunk_id c = 0x4120"
    using inner(1) good(1) that by (auto simp: accepted_def nests_def counted_def)
  have inside: "accepted data n q" if "container c"
  proof -
    have "\<not> counted c" and "nests c" using that by (auto simp: chunk_kinds)
    with inner(1) good(2) show ?thesis by (auto simp: accepted_def)
  qed
  have colour: "(if chunk_id c = 0x0010 \<or> chunk_id c = 0x0013 then 12 else 3) \<le> unat (chunk_length c) - 6 \<and> q = p + 6"
    if "chunk_id c \<in> {0x0010, 0x0013, 0x0011, 0x0012}"
    using pl q(4) that by (auto simp: check_payload_def chunk_kinds Let_def split: if_splits)
  have "int (unat (chunk_length c)) = int n - int p" using n by simp
  then have "unat (chunk_length c) - 6 = n - (p + 6)" by linarith
  with colour have "payload_fits data n c q"
    unfolding payload_fits_def using good(1) array inside \<open>p + 6 \<le> n\<close> by (auto split: if_splits)
  then show ?thesis
    by (rule that [OF rd [unfolded s1] minus q(2,3) \<open>n \<le> e\<close> rest nm [unfolded s1 q(1)]])
qed

end
