(* ===== verification/Mesh_Parser.thy ===== *)
theory Mesh_Parser
  imports Mesh_Validation
begin

text \<open>
  The geometry parser of \<open>mesh_3ds_loader.cpp\<close>: its loops over chunks, \<open>parse_material_block\<close>,
  \<open>parse_mesh_chunk\<close> and the walk of \<open>load_3ds\<close> over a file's root chunk, with the theorem that on a
  file the validator accepts no read fails.

  A colour is three floats; a short read of a colour component, which an accepted file rules out, leaves
  the component as it was.
\<close>

subsection \<open>The loops over chunks\<close>

text \<open>\<open>while (file.tellg() < end) { if (!read_chunk(file, chunk)) break; \<dots> file.seekg(next); }\<close>, the
  form all loops of the parser have. Those that also ask \<open>file.good()\<close> are the same loops: a failed
  stream makes \<open>read_chunk\<close> fail and leaves the state as it is.\<close>

function while_chunks ::
    "u8 list \<Rightarrow> int \<Rightarrow> (chunk \<Rightarrow> int \<Rightarrow> 'a \<Rightarrow> stream \<Rightarrow> 'a \<times> stream) \<Rightarrow> 'a \<Rightarrow> stream \<Rightarrow> 'a \<times> stream" where
  "while_chunks data end_pos body a s =
     (if tellg s < end_pos
      then case read_chunk data s of
             (None, s1) \<Rightarrow> (a, s1)
           | (Some c, s1) \<Rightarrow>
               let next_pos = tellg s1 + uint (chunk_length c - 6);
                   (a', s2) = body c next_pos a s1
               in while_chunks data end_pos body a' (seekg next_pos s2)
      else (a, s))"
  by pat_completeness auto

text \<open>Whatever a body does, the next chunk header is read behind the last one.\<close>

lemma next_header_later:
  assumes "read_chunk data s = (Some c, s1)"
  shows "\<not> st_failed s" and "st_pos s < nat (tellg s1 + uint n)" and "st_pos s < length data"
proof -
  from read_chunk_Some [OF assms] have s: "s = good_at (st_pos s)" "s1 = good_at (st_pos s + 6)"
    "st_pos s + 6 \<le> length data" by auto
  show "\<not> st_failed s" using s(1) by (metis good_at_simps(2))
  have "tellg s1 = int (st_pos s + 6)" using s(2) by (metis tellg_good_at)
  then show "st_pos s < nat (tellg s1 + uint n)" using uint_ge_0 [of n] by linarith
  show "st_pos s < length data" using s(3) by simp
qed

termination while_chunks
  by (relation "measure (\<lambda>(data, e, body, a, s). if st_failed s then 0 else Suc (length data) - st_pos s)")
    (auto dest!: sym [of "(_, _)" "read_chunk _ _"] dest: next_header_later simp: seekg_def
      intro!: diff_less_mono2 less_SucI)

declare while_chunks.simps [simp del]

subsection \<open>Materials\<close>

record material_info =
  mi_color :: "float32 list"
  mi_has_color :: bool

definition blank_material :: material_info where
  "blank_material = \<lparr>mi_color = [Some 1, Some 1, Some 1], mi_has_color = False\<rparr>"

type_synonym materials = "string \<Rightarrow> material_info option"

definition read_component :: "u8 list \<Rightarrow> float32 \<Rightarrow> stream \<Rightarrow> float32 \<times> stream" where
  "read_component data old s =
     (let (got, s) = read_bytes data 4 s
      in (if length got < 4 then old else float_of_bits (le_word got), s))"

definition color_body :: "u8 list \<Rightarrow> chunk \<Rightarrow> int \<Rightarrow> material_info \<Rightarrow> stream \<Rightarrow> material_info \<times> stream" where
  "color_body data c next_pos info s =
     (if chunk_id c = 0x0010 \<or> chunk_id c = 0x0013 then
        let (r, s) = read_component data (mi_color info ! 0) s;
            (g, s) = read_component data (mi_color info ! 1) s;
            (b, s) = read_component data (mi_color info ! 2) s
        in (info\<lparr>mi_color := [r, g, b], mi_has_color := True\<rparr>, s)
      else if chunk_id c = 0x0011 \<or> chunk_id c = 0x0012 then
        let (got, s) = read_bytes data 3 s;
            rgb = got @ replicate (3 - length got) 255
        in (info\<lparr>mi_color := map (\<lambda>b. Some (real (unat b) / 255)) rgb, mi_has_color := True\<rparr>, s)
      else (info, s))"

definition texture_body :: "u8 list \<Rightarrow> chunk \<Rightarrow> int \<Rightarrow> string \<Rightarrow> stream \<Rightarrow> string \<times> stream" where
  "texture_body data c next_pos texture s =
     (if chunk_id c = 0xA300
      then let (candidate, s) = read_cstring data next_pos s
           in (if candidate \<noteq> [] then candidate else texture, s)
      else (texture, s))"

record material_state =
  ms_name :: string
  ms_info :: material_info
  ms_texture :: string

definition material_body :: "u8 list \<Rightarrow> chunk \<Rightarrow> int \<Rightarrow> material_state \<Rightarrow> stream \<Rightarrow> material_state \<times> stream" where
  "material_body data c next_pos ms s =
     (if chunk_id c = 0xA000 then
        let (name, s) = read_cstring data next_pos s in (ms\<lparr>ms_name := name\<rparr>, s)
      else if chunk_id c = 0xA020 then
        let (info, s) = while_chunks data next_pos (color_body data) (ms_info ms) s in (ms\<lparr>ms_info := info\<rparr>, s)
      else if chunk_id c = 0xA200 then
        let (texture, s) = while_chunks data next_pos (texture_body data) (ms_texture ms) s
        in (ms\<lparr>ms_texture := texture\<rparr>, s)
      else (ms, s))"

definition parse_material_block ::
    "u8 list \<Rightarrow> int \<Rightarrow> materials \<Rightarrow> string \<Rightarrow> stream \<Rightarrow> (materials \<times> string) \<times> stream" where
  "parse_material_block data material_end materials texture s =
     (let (ms, s) = while_chunks data material_end (material_body data)
                      \<lparr>ms_name = [], ms_info = blank_material, ms_texture = texture\<rparr> s
      in ((if ms_name ms \<noteq> [] then materials(ms_name ms \<mapsto> ms_info ms) else materials, ms_texture ms), s))"

subsection \<open>Meshes\<close>

record raw_mesh =
  rm_vertices :: "float32 list"
  rm_indices :: "u32 list"
  rm_texcoords :: "float32 list"

text \<open>\<open>FaceColorAccum\<close>: colours weighted by the number of faces that have them.\<close>

record face_color =
  fc_color :: "float32 list"
  fc_weight :: real

definition floats_of :: "u8 list \<Rightarrow> float32 list" where
  "floats_of bs = map (\<lambda>i. float_of_bits (le_word (take 4 (drop (4 * i) bs)))) [0..<length bs div 4]"

definition read_vertices :: "u8 list \<Rightarrow> nat \<Rightarrow> stream \<Rightarrow> float32 list \<times> stream" where
  "read_vertices data count s =
     (let (got, s) = read_bytes data (count * 12) s
      in (floats_of (got @ replicate (count * 12 - length got) 0), s))"

primrec read_faces :: "u8 list \<Rightarrow> u32 \<Rightarrow> nat \<Rightarrow> stream \<Rightarrow> u32 list \<times> stream" where
  "read_faces data base 0 s = ([], s)"
| "read_faces data base (Suc n) s =
     (let (a, s) = read_stream_u16 data s; (b, s) = read_stream_u16 data s; (c, s) = read_stream_u16 data s;
          (flag, s) = read_stream_u16 data s; (faces, s) = read_faces data base n s
      in ([ucast a + base, ucast b + base, ucast c + base] @ faces, s))"

definition add_floats :: "float32 \<Rightarrow> float32 \<Rightarrow> float32" where
  "add_floats x y = (case (x, y) of (Some a, Some b) \<Rightarrow> Some (a + b) | _ \<Rightarrow> None)"

definition face_group_body ::
    "u8 list \<Rightarrow> materials \<Rightarrow> chunk \<Rightarrow> int \<Rightarrow> face_color \<Rightarrow> stream \<Rightarrow> face_color \<times> stream" where
  "face_group_body data materials c next_pos accum s =
     (if chunk_id c = 0x4130 then
        let (name, s) = read_cstring data next_pos s;
            (face_count, s) = read_stream_u16 data s
        in (case materials name of
              Some m \<Rightarrow>
                if mi_has_color m
                then (accum\<lparr>fc_color := map2 add_floats (fc_color accum)
                               (map (map_option (\<lambda>x. x * real (unat face_count))) (mi_color m)),
                            fc_weight := fc_weight accum + real (unat face_count)\<rparr>, s)
                else (accum, s)
            | None \<Rightarrow> (accum, s))
      else (accum, s))"

primrec read_uvs :: "u8 list \<Rightarrow> nat \<Rightarrow> nat \<Rightarrow> float32 list \<Rightarrow> stream \<Rightarrow> float32 list \<times> stream" where
  "read_uvs data vertex 0 tex s = (tex, s)"
| "read_uvs data vertex (Suc n) tex s =
     (let (u, s) = read_f32 data s; (v, s) = read_f32 data s
      in read_uvs data (Suc vertex) n
           (tex[vertex * 2 := u, vertex * 2 + 1 := map_option (\<lambda>x. 1 - x) v]) s)"

definition pad_floats :: "nat \<Rightarrow> float32 list \<Rightarrow> float32 list" where
  "pad_floats n xs = (if length xs < n then xs @ replicate (n - length xs) (Some 0) else xs)"

record object_state =
  os_mesh :: raw_mesh
  os_color :: face_color
  os_vertex_start :: nat
  os_vertex_count :: nat

definition mesh_body ::
    "u8 list \<Rightarrow> nat \<Rightarrow> materials \<Rightarrow> chunk \<Rightarrow> int \<Rightarrow> object_state \<Rightarrow> stream \<Rightarrow> object_state \<times> stream" where
  "mesh_body data vertex_base materials c next_pos st s =
     (let mesh = os_mesh st
      in if chunk_id c = 0x4110 then
           let (count, s) = read_stream_u16 data s;
               (vs, s) = read_vertices data (unat count) s
           in (st\<lparr>os_mesh := mesh\<lparr>rm_vertices := rm_vertices mesh @ vs\<rparr>,
                  os_vertex_start := length (rm_vertices mesh) div 3, os_vertex_count := unat count\<rparr>, s)
         else if chunk_id c = 0x4120 then
           let (count, s) = read_stream_u16 data s;
               (faces, s) = read_faces data (of_nat vertex_base) (unat count) s;
               (accum, s) = while_chunks data next_pos (face_group_body data materials) (os_color st) s
           in (st\<lparr>os_mesh := mesh\<lparr>rm_indices := rm_indices mesh @ faces\<rparr>, os_color := accum\<rparr>, s)
         else if chunk_id c = 0x4140 then
           let (count, s) = read_stream_u16 data s
           in if os_vertex_count st > 0 \<and> unat count = os_vertex_count st
              then let tex = pad_floats ((os_vertex_start st + os_vertex_count st) * 2) (rm_texcoords mesh);
                       (tex, s) = read_uvs data (os_vertex_start st) (unat count) tex s
                   in (st\<lparr>os_mesh := mesh\<lparr>rm_texcoords := tex\<rparr>\<rparr>, s)
              else (st, s)
         else (st, s))"

definition parse_mesh_chunk ::
    "u8 list \<Rightarrow> int \<Rightarrow> raw_mesh \<Rightarrow> nat \<Rightarrow> materials \<Rightarrow> face_color \<Rightarrow> stream \<Rightarrow> (raw_mesh \<times> face_color) \<times> stream" where
  "parse_mesh_chunk data mesh_end mesh vertex_base materials accum s =
     (let (st, s) = while_chunks data mesh_end (mesh_body data vertex_base materials)
                      \<lparr>os_mesh = mesh, os_color = accum, os_vertex_start = vertex_base, os_vertex_count = 0\<rparr> s
      in ((os_mesh st, os_color st), s))"

subsection \<open>The file\<close>

record parse_state =
  ps_mesh :: raw_mesh
  ps_color :: face_color
  ps_materials :: materials
  ps_texture :: string

definition blank_parse :: parse_state where
  "blank_parse = \<lparr>ps_mesh = \<lparr>rm_vertices = [], rm_indices = [], rm_texcoords = []\<rparr>,
     ps_color = \<lparr>fc_color = [Some 0, Some 0, Some 0], fc_weight = 0\<rparr>, ps_materials = (\<lambda>_. None), ps_texture = []\<rparr>"

definition object_body :: "u8 list \<Rightarrow> chunk \<Rightarrow> int \<Rightarrow> parse_state \<Rightarrow> stream \<Rightarrow> parse_state \<times> stream" where
  "object_body data c next_pos ps s =
     (if chunk_id c = 0x4100 then
        let ((mesh, accum), s) = parse_mesh_chunk data next_pos (ps_mesh ps)
              (length (rm_vertices (ps_mesh ps)) div 3) (ps_materials ps) (ps_color ps) s
        in (ps\<lparr>ps_mesh := mesh, ps_color := accum\<rparr>, s)
      else (ps, s))"

definition editor_body :: "u8 list \<Rightarrow> chunk \<Rightarrow> int \<Rightarrow> parse_state \<Rightarrow> stream \<Rightarrow> parse_state \<times> stream" where
  "editor_body data c next_pos ps s =
     (if chunk_id c = 0x4000 then
        while_chunks data next_pos (object_body data) ps (skip_name data next_pos s)
      else if chunk_id c = 0xAFFF then
        let ((materials, texture), s) = parse_material_block data next_pos (ps_materials ps) (ps_texture ps) s
        in (ps\<lparr>ps_materials := materials, ps_texture := texture\<rparr>, s)
      else (ps, s))"

definition root_body :: "u8 list \<Rightarrow> chunk \<Rightarrow> int \<Rightarrow> parse_state \<Rightarrow> stream \<Rightarrow> parse_state \<times> stream" where
  "root_body data c next_pos ps s =
     (if chunk_id c = 0x3D3D then while_chunks data next_pos (editor_body data) ps s else (ps, s))"

definition parse_root :: "u8 list \<Rightarrow> int \<Rightarrow> stream \<Rightarrow> parse_state \<times> stream" where
  "parse_root data root_end s = while_chunks data root_end (root_body data) blank_parse s"

subsection \<open>No read of the parser fails on an accepted file\<close>

text \<open>A body of a loop is fine when it leaves the stream good on every chunk of an accepted stretch.\<close>

definition fine_body :: "u8 list \<Rightarrow> (chunk \<Rightarrow> int \<Rightarrow> 'a \<Rightarrow> stream \<Rightarrow> 'a \<times> stream) \<Rightarrow> bool" where
  "fine_body data body \<longleftrightarrow>
     (\<forall>c p q n a. p \<le> q \<and> q \<le> n \<and> n \<le> length data \<and>
        check_name data (int n) c (good_at p) = Some (good_at q) \<and> payload_fits data n c q \<longrightarrow>
        \<not> st_failed (snd (body c (int n) a (good_at p))))"

lemma fine_bodyI:
  assumes "\<And>c p q n a. p \<le> q \<Longrightarrow> q \<le> n \<Longrightarrow> n \<le> length data \<Longrightarrow>
      check_name data (int n) c (good_at p) = Some (good_at q) \<Longrightarrow> payload_fits data n c q \<Longrightarrow>
      \<not> st_failed (snd (body c (int n) a (good_at p)))"
  shows "fine_body data body"
  using assms unfolding fine_body_def by blast

lemma while_chunks_inside:
  assumes "fine_body data body" and "accepted data e p" and "e \<le> length data"
  shows "snd (while_chunks data (int e) body a (good_at p)) = good_at e"
  using assms(2)
proof (induction "e - p" arbitrary: p a rule: less_induct)
  case less
  show ?case
  proof (cases "p < e")
    case False
    then have "p = e" using accepted_le [OF less.prems] by simp
    then show ?thesis by (simp add: while_chunks.simps [of data "int e"])
  next
    case True
    from accepted_chunk [OF less.prems True assms(3)] obtain c n q where
      rd: "read_chunk data (good_at p) = (Some c, good_at (p + 6))"
      and n: "uint (chunk_length c - 6) = int n - int (p + 6)" and q: "p + 6 \<le> q" "q \<le> n" "n \<le> e"
      and rest: "accepted data e n"
      and c: "check_name data (int n) c (good_at (p + 6)) = Some (good_at q)" "payload_fits data n c q"
      by blast
    obtain a' s2 where b: "body c (int n) a (good_at (p + 6)) = (a', s2)" by fastforce
    have "\<not> st_failed s2"
      using assms(1) [unfolded fine_body_def, rule_format, of "p + 6" q n c a] assms(3) q c b by simp
    then have "seekg (int n) s2 = good_at n" by (cases s2) (simp add: seekg_def good_at_def)
    moreover have "tellg (good_at (p + 6)) + uint (chunk_length c - 6) = int n" using n by simp
    ultimately have "while_chunks data (int e) body a (good_at p) = while_chunks data (int e) body a' (good_at n)"
      using rd b True by (simp add: while_chunks.simps [of data "int e" body a "good_at p"] Let_def)
    then show ?thesis using less.hyps [OF _ rest] q True by simp
  qed
qed

text \<open>The chunks a loop walks when the body of an outer loop enters one.\<close>

lemma enter_chunks:
  assumes "fine_body data body" and "accepted data n p" and "n \<le> length data"
  shows "\<not> st_failed (snd (while_chunks data (int n) body a (good_at p)))"
  using while_chunks_inside [OF assms, of a] by simp

lemma container_here:
  assumes "container c" and "\<not> named c" and "payload_fits data n c q"
    and "check_name data (int n) c (good_at p) = Some (good_at q)"
  shows "accepted data n p"
  using assms by (auto simp: payload_fits_def check_name_def)

lemma read_cstring_named:
  assumes "named c" and "check_name data (int n) c (good_at p) = Some (good_at q)"
  shows "snd (read_cstring data (int n) (good_at p)) = good_at q"
  using assms by (auto simp: check_name_def read_cstring_def split: prod.splits if_splits)

lemma skip_name_named:
  assumes "scan_cstring data (int n) (good_at p) = (out, True, s)"
  shows "skip_name data (int n) (good_at p) = s"
  using assms
proof (induction data "int n" "good_at p" arbitrary: p out rule: skip_name.induct)
  case (1 data)
  obtain got s1 where rd: "read_bytes data 1 (good_at p) = (got, s1)" by fastforce
  from 1(2) have less: "int p < int n" by (auto simp: scan_cstring.simps [of data "int n" "good_at p"] split: if_splits)
  with 1(2) rd have "got \<noteq> []" by (auto simp: scan_cstring.simps [of data "int n" "good_at p"])
  with rd have p: "p + 1 \<le> length data" by (auto simp: read_bytes_def Let_def split: if_splits)
  obtain ch where got: "got = [ch]" and s1: "s1 = good_at (p + 1)"
    using rd p length_bytes_at [of p 1 data] by (auto simp: stream_simps length_Suc_conv)
  show ?case
  proof (cases "ch = 0")
    case True
    then show ?thesis
      using 1(2) less rd got by (simp add: scan_cstring.simps [of data "int n" "good_at p"] skip_name.simps [of data "int n" "good_at p"])
  next
    case False
    then obtain out' where rest: "scan_cstring data (int n) (good_at (p + 1)) = (out', True, s)"
      using 1(2) less rd got s1 by (auto simp: scan_cstring.simps [of data "int n" "good_at p"] split: prod.splits)
    then have "int (p + 1) < int n"
      by (auto simp: scan_cstring.simps [of data "int n" "good_at (Suc p)"] split: if_splits)
    then show ?thesis
      using 1(1) [OF _ _ _ rest] rd got s1 False rest
      by (simp add: skip_name.simps [of data "int n" "good_at p"])
  qed
qed

text \<open>The bodies, from the inside out.\<close>

lemma read_component_good:
  "p + 4 \<le> length data \<Longrightarrow> snd (read_component data x (good_at p)) = good_at (p + 4)"
  by (simp add: read_component_def stream_simps)

lemma fine_color: "fine_body data (color_body data)"
proof (rule fine_bodyI)
  fix c p q n and info
  assume "p \<le> q" "q \<le> n" "n \<le> length data" and nm: "check_name data (int n) c (good_at p) = Some (good_at q)"
    and pl: "payload_fits data n c q"
  then have "chunk_id c = 0x0010 \<or> chunk_id c = 0x0013 \<Longrightarrow> p + 12 \<le> length data"
    and "chunk_id c = 0x0011 \<or> chunk_id c = 0x0012 \<Longrightarrow> p + 3 \<le> length data"
    by (auto simp: payload_fits_def check_name_def named_def)
  then show "\<not> st_failed (snd (color_body data c (int n) info (good_at p)))"
    by (auto simp: color_body_def read_component_def stream_simps Let_def)
qed

lemma fine_texture: "fine_body data (texture_body data)"
proof (rule fine_bodyI)
  fix c p q n and a
  assume "check_name data (int n) c (good_at p) = Some (good_at q)"
  then show "\<not> st_failed (snd (texture_body data c (int n) a (good_at p)))"
    using read_cstring_named [of c data n p q] by (auto simp: texture_body_def named_def split: prod.splits)
qed

lemma fine_material: "fine_body data (material_body data)"
proof (rule fine_bodyI)
  fix c p q n a
  assume n: "n \<le> length data" and nm: "check_name data (int n) c (good_at p) = Some (good_at q)"
    and pl: "payload_fits data n c q"
  have "chunk_id c = 0xA000 \<Longrightarrow> snd (read_cstring data (int n) (good_at p)) = good_at q"
    using read_cstring_named [OF _ nm] by (simp add: named_def)
  moreover have "chunk_id c = 0xA020 \<or> chunk_id c = 0xA200 \<Longrightarrow> accepted data n p"
    using container_here [OF _ _ pl nm] by (auto simp: container_def named_def)
  ultimately show "\<not> st_failed (snd (material_body data c (int n) a (good_at p)))"
    using enter_chunks [OF fine_color _ n] enter_chunks [OF fine_texture _ n]
    by (auto simp: material_body_def split: prod.splits) (metis snd_conv)+
qed

lemma fine_face_group: "fine_body data (face_group_body data materials)"
proof (rule fine_bodyI)
  fix c p q n a
  assume n: "q \<le> n" "n \<le> length data" and nm: "check_name data (int n) c (good_at p) = Some (good_at q)"
    and pl: "payload_fits data n c q"
  have "snd (read_cstring data (int n) (good_at p)) = good_at q" and "q + 2 \<le> length data"
    if "chunk_id c = 0x4130"
    using that read_cstring_named [OF _ nm] pl n by (auto simp: named_def payload_fits_def counted_def)
  then show "\<not> st_failed (snd (face_group_body data materials c (int n) a (good_at p)))"
    by (auto simp: face_group_body_def stream_simps split: prod.splits option.splits)
qed

lemma read_faces_good:
  "p + n * 8 \<le> length data \<Longrightarrow> snd (read_faces data base n (good_at p)) = good_at (p + n * 8)"
  by (induction n arbitrary: p) (simp_all add: stream_simps case_prod_beta)

lemma read_uvs_good:
  "p + n * 8 \<le> length data \<Longrightarrow> snd (read_uvs data v n tex (good_at p)) = good_at (p + n * 8)"
  by (induction n arbitrary: p v tex) (simp_all add: stream_simps case_prod_beta)

lemma fine_mesh: "fine_body data (mesh_body data base materials)"
proof (rule fine_bodyI)
  fix c p q n and st :: object_state
  assume n: "n \<le> length data" and nm: "check_name data (int n) c (good_at p) = Some (good_at q)"
    and pl: "payload_fits data n c q"
  have array: "q = p \<and> p + 2 + count_at data p * stride c \<le> length data"
    if "chunk_id c \<in> {0x4110, 0x4120, 0x4140}"
  proof -
    have "\<not> named c" and "counted c" using that by (auto simp: named_def counted_def)
    then show ?thesis using nm pl n by (simp add: check_name_def payload_fits_def)
  qed
  then have rd: "read_stream_u16 data (good_at p) = (le_word (bytes_at data p 2), good_at (p + 2))"
    if "chunk_id c \<in> {0x4110, 0x4120, 0x4140}"
    using that by (intro read_stream_u16_at) fastforce
  consider "chunk_id c = 0x4110" | "chunk_id c = 0x4120" | "chunk_id c = 0x4140"
    | "chunk_id c \<notin> {0x4110, 0x4120, 0x4140}" by auto
  then show "\<not> st_failed (snd (mesh_body data base materials c (int n) st (good_at p)))"
  proof cases
    case 1
    then show ?thesis
      using array rd by (simp add: mesh_body_def read_vertices_def stream_simps stride_def count_at_def Let_def)
  next
    case 2
    then have faces: "snd (read_faces data b (count_at data p) (good_at (p + 2))) = good_at (p + 2 + count_at data p * 8)" for b
      using array by (intro read_faces_good) (simp add: stride_def)
    have "accepted data n (p + 2 + count_at data p * 8)"
      using pl array 2 by (simp add: payload_fits_def stride_def)
    from enter_chunks [OF fine_face_group this n] faces show ?thesis
      using rd 2 by (auto simp: mesh_body_def count_at_def Let_def split: prod.splits) (metis snd_conv)
  next
    case 3
    then have uvs: "snd (read_uvs data v (count_at data p) tex (good_at (p + 2))) = good_at (p + 2 + count_at data p * 8)" for v tex
      using array by (intro read_uvs_good) (simp add: stride_def)
    then show ?thesis
      using rd 3 by (auto simp: mesh_body_def count_at_def Let_def split: prod.splits) (metis good_at_simps(2) snd_conv)
  next
    case 4
    then show ?thesis by (simp add: mesh_body_def)
  qed
qed

lemma fine_object: "fine_body data (object_body data)"
proof (rule fine_bodyI)
  fix c p q n a
  assume n: "n \<le> length data" and nm: "check_name data (int n) c (good_at p) = Some (good_at q)"
    and pl: "payload_fits data n c q"
  have "chunk_id c = 0x4100 \<Longrightarrow> accepted data n p"
    using container_here [OF _ _ pl nm] by (auto simp: container_def named_def)
  then show "\<not> st_failed (snd (object_body data c (int n) a (good_at p)))"
    using enter_chunks [OF fine_mesh _ n]
    by (auto simp: object_body_def parse_mesh_chunk_def Let_def split: prod.splits) (metis snd_conv)
qed

lemma fine_editor: "fine_body data (editor_body data)"
proof (rule fine_bodyI)
  fix c p q n a
  assume n: "n \<le> length data" and nm: "check_name data (int n) c (good_at p) = Some (good_at q)"
    and pl: "payload_fits data n c q"
  have "skip_name data (int n) (good_at p) = good_at q \<and> accepted data n q" if "chunk_id c = 0x4000"
    using that nm pl skip_name_named [of data n p]
    by (auto simp: check_name_def named_def payload_fits_def container_def split: prod.splits if_splits)
  moreover have "accepted data n p" if "chunk_id c = 0xAFFF"
    using container_here [OF _ _ pl nm] that by (auto simp: container_def named_def)
  ultimately show "\<not> st_failed (snd (editor_body data c (int n) a (good_at p)))"
    using enter_chunks [OF fine_object _ n] enter_chunks [OF fine_material _ n]
    by (auto simp: editor_body_def parse_material_block_def Let_def split: prod.splits) (metis snd_conv)
qed

lemma fine_root: "fine_body data (root_body data)"
proof (rule fine_bodyI)
  fix c p q n a
  assume n: "n \<le> length data" and nm: "check_name data (int n) c (good_at p) = Some (good_at q)"
    and pl: "payload_fits data n c q"
  have "chunk_id c = 0x3D3D \<Longrightarrow> accepted data n p"
    using container_here [OF _ _ pl nm] by (auto simp: container_def named_def)
  then show "\<not> st_failed (snd (root_body data c (int n) a (good_at p)))"
    using enter_chunks [OF fine_editor _ n] by (auto simp: root_body_def)
qed

text \<open>C15: On a file whose chunks the validator accepts, the geometry parser never reads past the end of
  the file: it ends with a good stream exactly behind the root chunk, whatever the nesting of the chunks.\<close>

theorem parser_stays_inside:
  assumes "validate_chunks data (int root_length) 0 (good_at 6) = Some s"
    and "root_length \<le> length data"
  shows "snd (parse_root data (int root_length) (good_at 6)) = good_at root_length"
proof -
  have "accepted data root_length 6"
    using assms(1) by (auto simp: accepted_def validate_chunks_def)
  from while_chunks_inside [OF fine_root this assms(2)] show ?thesis by (simp add: parse_root_def)
qed

text \<open>A file with one triangle.\<close>

definition triangle_file :: "u8 list" where
  "triangle_file = [77, 77, 86, 0, 0, 0, 61, 61, 80, 0, 0, 0, 0, 64, 74, 0, 0, 0, 65, 0,
     0, 65, 66, 0, 0, 0, 16, 65, 44, 0, 0, 0, 3, 0,
     0, 0, 0, 0, 0, 0, 0, 0, 0, 0, 0, 0, 0, 0, 128, 63, 0, 0, 0, 0, 0, 0, 0, 0, 0, 0, 0, 0, 0, 0, 128, 63, 0, 0, 0, 0,
     32, 65, 16, 0, 0, 0, 1, 0, 0, 0, 1, 0, 2, 0, 0, 0]"

lemma triangle_accepted: "validate_chunks triangle_file 86 0 (good_at 6) = Some (good_at 86)"
  by code_simp

theorem parser_stays_inside_witness: "snd (parse_root triangle_file 86 (good_at 6)) = good_at 86"
  using parser_stays_inside [of triangle_file 86 "good_at 86"] triangle_accepted by (simp add: triangle_file_def)

end
