(* ===== verification/Mesh_Loader.thy ===== *)
theory Mesh_Loader
  imports Mesh_Parser
begin

text \<open>
  The end of \<open>load_3ds\<close> (\<open>mesh_3ds_loader.cpp\<close>): the checks on the parsed geometry,
  \<open>ensure_godot_clockwise_winding\<close>, \<open>compute_normals\<close>, and the whole function with its error
  values. Arithmetic on vertices is exact; the search for a texture file is the parameter \<open>resolve\<close>.
\<close>

subsection \<open>Vectors\<close>

type_synonym vec3 = "real \<times> real \<times> real"

definition vsub :: "vec3 \<Rightarrow> vec3 \<Rightarrow> vec3" where
  "vsub a b = (case (a, b) of ((ax, ay, az), (ex, ey, ez)) \<Rightarrow> (ax - ex, ay - ey, az - ez))"

definition cross :: "vec3 \<Rightarrow> vec3 \<Rightarrow> vec3" where
  "cross u v = (case (u, v) of ((ux, uy, uz), (vx, vy, vz)) \<Rightarrow>
     (uy * vz - uz * vy, uz * vx - ux * vz, ux * vy - uy * vx))"

definition vdot :: "vec3 \<Rightarrow> vec3 \<Rightarrow> real" where
  "vdot a b = (case (a, b) of ((ax, ay, az), (ex, ey, ez)) \<Rightarrow> ax * ex + ay * ey + az * ez)"

definition vneg :: "vec3 \<Rightarrow> vec3" where
  "vneg a = (case a of (x, y, z) \<Rightarrow> (- x, - y, - z))"

definition vlength :: "vec3 \<Rightarrow> real" where
  "vlength v = sqrt (vdot v v)"

definition vertex :: "real list \<Rightarrow> nat \<Rightarrow> vec3" where
  "vertex vs i = (vs ! (i * 3), vs ! (i * 3 + 1), vs ! (i * 3 + 2))"

text \<open>The loops \<open>for (i = 0; i + 2 < indices.size(); i += 3)\<close>.\<close>

fun triangles :: "'a list \<Rightarrow> ('a \<times> 'a \<times> 'a) list" where
  "triangles (a # b # c # xs) = (a, b, c) # triangles xs"
| "triangles xs = []"

fun swap_winding :: "'a list \<Rightarrow> 'a list" where
  "swap_winding (a # b # c # xs) = a # c # b # swap_winding xs"
| "swap_winding xs = xs"

definition in_mesh :: "nat \<Rightarrow> u32 \<times> u32 \<times> u32 \<Rightarrow> bool" where
  "in_mesh n t = (case t of (a, b, c) \<Rightarrow> unat a < n \<and> unat b < n \<and> unat c < n)"

definition face_normal :: "real list \<Rightarrow> u32 \<times> u32 \<times> u32 \<Rightarrow> vec3" where
  "face_normal vs t = (case t of (a, b, c) \<Rightarrow>
     let v0 = vertex vs (unat a) in cross (vsub (vertex vs (unat b)) v0) (vsub (vertex vs (unat c)) v0))"

subsection \<open>Winding\<close>

definition centroid :: "real list \<Rightarrow> vec3" where
  "centroid vs =
     (let n = length vs div 3;
          (x, y, z) = fold (\<lambda>i (x, y, z). (x + vs ! (i * 3), y + vs ! (i * 3 + 1), z + vs ! (i * 3 + 2)))
                        [0..<n] (0, 0, 0);
          inv = 1 / real n
      in (x * inv, y * inv, z * inv))"

definition face_center :: "real list \<Rightarrow> u32 \<times> u32 \<times> u32 \<Rightarrow> vec3" where
  "face_center vs t = (case t of (a, b, c) \<Rightarrow>
     let (ax, ay, az) = vertex vs (unat a); (ex, ey, ez) = vertex vs (unat b); (cx, cy, cz) = vertex vs (unat c)
     in ((ax + ex + cx) / 3, (ay + ey + cy) / 3, (az + ez + cz) / 3))"

definition orient_step :: "real list \<Rightarrow> u32 \<times> u32 \<times> u32 \<Rightarrow> real \<times> real \<Rightarrow> real \<times> real" where
  "orient_step vs t acc = (case acc of (score, area_sum) \<Rightarrow>
     if \<not> in_mesh (length vs div 3) t then acc
     else let n = face_normal vs t; area = vlength n
       in if area \<le> 1 / 100000000 then acc
          else (score + vdot n (vsub (face_center vs t) (centroid vs)), area_sum + area))"

definition orientation :: "real list \<Rightarrow> u32 list \<Rightarrow> real \<times> real" where
  "orientation vs is = fold (orient_step vs) (triangles is) (0, 0)"

definition ensure_godot_clockwise_winding :: "real list \<Rightarrow> u32 list \<Rightarrow> u32 list" where
  "ensure_godot_clockwise_winding vs is =
     (if length is < 3 \<or> length vs < 3 then is
      else let (score, area_sum) = orientation vs is
        in if area_sum \<le> 1 / 100000000 \<or> \<bar>score\<bar> \<le> area_sum * (1 / 10000) then is
           else if score > 0 then swap_winding is else is)"

subsection \<open>Normals\<close>

definition add_at :: "nat \<Rightarrow> vec3 \<Rightarrow> real list \<Rightarrow> real list" where
  "add_at i n ns = (case n of (x, y, z) \<Rightarrow>
     ns[i * 3 := ns ! (i * 3) + x, i * 3 + 1 := ns ! (i * 3 + 1) + y, i * 3 + 2 := ns ! (i * 3 + 2) + z])"

definition normal_step :: "real list \<Rightarrow> u32 \<times> u32 \<times> u32 \<Rightarrow> real list \<Rightarrow> real list" where
  "normal_step vs t ns = (case t of (a, b, c) \<Rightarrow>
     if \<not> in_mesh (length vs div 3) t then ns
     else let n = vneg (face_normal vs t)
       in add_at (unat c) n (add_at (unat b) n (add_at (unat a) n ns)))"

definition unit_normal :: "vec3 \<Rightarrow> vec3" where
  "unit_normal n = (let len = vlength n
     in if len > 1 / 100000000 then (case n of (x, y, z) \<Rightarrow> (x / len, y / len, z / len)) else (0, 1, 0))"

definition compute_normals :: "real list \<Rightarrow> u32 list \<Rightarrow> real list" where
  "compute_normals vs is =
     (let n = length vs div 3;
          acc = fold (normal_step vs) (triangles is) (replicate (n * 3) 0)
      in concat (map (\<lambda>i. case unit_normal (vertex acc i) of (x, y, z) \<Rightarrow> [x, y, z]) [0..<n]))"

subsection \<open>Loading\<close>

record mesh_data =
  md_vertices :: "real list"
  md_indices :: "u32 list"
  md_normals :: "real list"
  md_texcoords :: "float32 list"
  md_texture_path :: string
  md_base_color :: "float32 list"
  md_has_base_color :: bool

definition renderable :: "real list \<Rightarrow> u32 \<times> u32 \<times> u32 \<Rightarrow> bool" where
  "renderable vs t = (case face_normal vs t of (x, y, z) \<Rightarrow> \<bar>x\<bar> + \<bar>y\<bar> + \<bar>z\<bar> > 0)"

definition fit_texcoords :: "nat \<Rightarrow> float32 list \<Rightarrow> float32 list" where
  "fit_texcoords n tex = (if tex = [] then [] else take (n * 2) (pad_floats (n * 2) tex))"

definition finish_mesh :: "(string \<Rightarrow> string option) \<Rightarrow> parse_state \<Rightarrow> string + mesh_data" where
  "finish_mesh resolve ps =
     (let mesh = ps_mesh ps; is = rm_indices mesh
      in if rm_vertices mesh = [] \<or> is = [] then Inl ''no_renderable_geometry''
         else if \<exists>v\<in>set (rm_vertices mesh). v = None then Inl ''invalid_3ds''
         else let vs = map the (rm_vertices mesh); n = length vs div 3
           in if \<exists>i\<in>set is. unat i \<ge> n then Inl ''invalid_3ds''
              else if \<not> (\<exists>t\<in>set (triangles is). renderable vs t) then Inl ''no_renderable_geometry''
              else let texture = (if ps_texture ps = [] then [] else case resolve (ps_texture ps) of Some p \<Rightarrow> p | None \<Rightarrow> []);
                       coloured = (fc_weight (ps_color ps) > 0);
                       wound = ensure_godot_clockwise_winding vs is
                in Inr \<lparr>md_vertices = vs, md_indices = wound, md_normals = compute_normals vs wound,
                        md_texcoords = fit_texcoords n (rm_texcoords mesh), md_texture_path = texture,
                        md_base_color = (if coloured then map (map_option (\<lambda>x. x / fc_weight (ps_color ps))) (fc_color (ps_color ps))
                                         else [Some 1, Some 1, Some 1]),
                        md_has_base_color = coloured\<rparr>)"

text \<open>What the file system says of the path: whether it exists and whether asking failed, and the bytes
  of the file when it opens.\<close>

record probe =
  pb_exists :: bool
  pb_error :: bool
  pb_content :: "u8 list option"

definition load_3ds :: "(string \<Rightarrow> string option) \<Rightarrow> probe \<Rightarrow> string + mesh_data" where
  "load_3ds resolve p =
     (if \<not> pb_exists p \<and> \<not> pb_error p then Inl ''file_missing''
      else case pb_content p of
             None \<Rightarrow> Inl ''file_open_failed''
           | Some data \<Rightarrow>
               (case read_chunk data (good_at 0) of
                  (None, s) \<Rightarrow> Inl ''invalid_3ds''
                | (Some header, s) \<Rightarrow>
                    if chunk_id header \<noteq> 0x4D4D \<or> chunk_length header < 6 \<or>
                       uint (chunk_length header) > int (length data) then Inl ''invalid_3ds''
                    else (case validate_chunks data (uint (chunk_length header)) 0 s of
                            None \<Rightarrow> Inl ''invalid_3ds''
                          | Some s \<Rightarrow>
                              finish_mesh resolve (fst (parse_root data (uint (chunk_length header)) (seekg 6 s))))))"

subsection \<open>What a loaded mesh satisfies\<close>

lemma while_chunks_keeps:
  assumes "\<And>c n a s. P a \<Longrightarrow> P (fst (body c n a s))" and "P a"
  shows "P (fst (while_chunks data e body a s))"
  using assms(2,1)
proof (induction data e body a s rule: while_chunks.induct)
  case (1 data e body a s)
  show ?case
  proof (cases "tellg s < e \<and> fst (read_chunk data s) \<noteq> None")
    case False
    then show ?thesis using 1(2) by (subst while_chunks.simps) (auto split: prod.splits option.splits)
  next
    case True
    then obtain c s1 where rd: "read_chunk data s = (Some c, s1)" by (cases "read_chunk data s") auto
    obtain a' s2 where b: "body c (tellg s1 + uint (chunk_length c - 6)) a s1 = (a', s2)" by fastforce
    have "P a'" using 1(3) [OF 1(2), of c "tellg s1 + uint (chunk_length c - 6)" s1] b by simp
    then show ?thesis
      using 1(1) [OF conjunct1 [OF True] rd [symmetric] refl refl refl b [symmetric] \<open>P a'\<close>] True rd b 1(3)
      by (subst while_chunks.simps) simp
  qed
qed

definition in_threes :: "raw_mesh \<Rightarrow> bool" where
  "in_threes m \<longleftrightarrow> 3 dvd length (rm_vertices m) \<and> 3 dvd length (rm_indices m)"

lemma length_read_bytes: "length (fst (read_bytes data n s)) \<le> n"
  by (simp add: read_bytes_def Let_def)

lemma length_read_vertices: "length (fst (read_vertices data count s)) = count * 3"
  using length_read_bytes [of data "count * 12" s]
  by (auto simp: read_vertices_def floats_of_def split: prod.splits)

lemma length_read_faces: "length (fst (read_faces data base n s)) = n * 3"
  by (induction n arbitrary: s) (simp_all add: case_prod_beta)

lemma mesh_body_threes:
  "in_threes (os_mesh st) \<Longrightarrow> in_threes (os_mesh (fst (mesh_body data base materials c n st s)))"
  using length_read_vertices length_read_faces
  by (auto simp: mesh_body_def in_threes_def Let_def case_prod_beta)

lemma object_body_threes:
  assumes "in_threes (ps_mesh ps)"
  shows "in_threes (ps_mesh (fst (object_body data c n ps s)))"
proof -
  have "in_threes (os_mesh (fst (while_chunks data n (mesh_body data base m) \<lparr>os_mesh = ps_mesh ps,
      os_color = x, os_vertex_start = base, os_vertex_count = 0\<rparr> s)))" for base m x
    by (rule while_chunks_keeps) (use assms in \<open>auto intro: mesh_body_threes\<close>)
  then show ?thesis
    using assms by (auto simp: object_body_def parse_mesh_chunk_def Let_def case_prod_beta)
qed

lemma parse_root_threes: "in_threes (ps_mesh (fst (parse_root data e s)))"
proof -
  have inner: "in_threes (ps_mesh (fst (while_chunks data n (object_body data) ps s)))"
    if "in_threes (ps_mesh ps)" for n ps s
    by (rule while_chunks_keeps) (use that in \<open>auto intro: object_body_threes\<close>)
  have "in_threes (ps_mesh (fst (editor_body data c n ps s)))" if "in_threes (ps_mesh ps)" for c n ps s
    using that inner by (auto simp: editor_body_def case_prod_beta)
  then have "in_threes (ps_mesh (fst (while_chunks data n (editor_body data) ps s)))"
    if "in_threes (ps_mesh ps)" for n ps s
    by (rule while_chunks_keeps) (use that in auto)
  then have "in_threes (ps_mesh (fst (root_body data c n ps s)))" if "in_threes (ps_mesh ps)" for c n ps s
    using that by (auto simp: root_body_def)
  then show ?thesis
    unfolding parse_root_def by (rule while_chunks_keeps) (auto simp: blank_parse_def in_threes_def)
qed

lemma swap_winding_keeps [simp]:
  "length (swap_winding is) = length is" "set (swap_winding is) = set is"
  by (induction "is" rule: swap_winding.induct) auto

lemma swap_winding_twice [simp]: "swap_winding (swap_winding is) = is"
  by (induction "is" rule: swap_winding.induct) auto

lemma wound_keeps:
  "length (ensure_godot_clockwise_winding vs is) = length is"
  "set (ensure_godot_clockwise_winding vs is) = set is"
  by (auto simp: ensure_godot_clockwise_winding_def Let_def case_prod_beta)

lemma unit_normal_unit: "vdot (unit_normal n) (unit_normal n) = 1"
proof (cases "vlength n > 1 / 100000000")
  case True
  obtain x y z where n: "n = (x, y, z)" by (cases n) auto
  define l where "l = vlength n"
  have l: "l > 0" using True by (simp add: l_def order_less_trans [OF _ True])
  moreover have "0 \<le> x * x + y * y + z * z" by simp
  ultimately have "l * l = x * x + y * y + z * z"
    by (simp add: l_def vlength_def vdot_def n)
  then have "x / l * (x / l) + y / l * (y / l) + z / l * (z / l) = 1"
    using l by (simp add: add_divide_distrib [symmetric] flip: \<open>l * l = _\<close>)
  then show ?thesis using True by (simp add: unit_normal_def vdot_def n l_def Let_def)
qed (simp add: unit_normal_def vdot_def)

lemma triples_list:
  fixes g :: "nat \<Rightarrow> vec3"
  shows "length (concat (map (\<lambda>i. case g i of (x, y, z) \<Rightarrow> [x, y, z]) [0..<n])) = n * 3"
    and "i < n \<Longrightarrow> vertex (concat (map (\<lambda>i. case g i of (x, y, z) \<Rightarrow> [x, y, z]) [0..<n])) i = g i"
proof (induction n)
  case (Suc n)
  { case 1 then show ?case using Suc by (simp split: prod.splits) }
  { case 2
    obtain x y z where "g n = (x, y, z)" by (cases "g n") auto
    then show ?case using 2 Suc by (cases "i = n") (auto simp: vertex_def nth_append) }
qed simp_all

definition mesh_ok :: "mesh_data \<Rightarrow> bool" where
  "mesh_ok m \<longleftrightarrow>
     (let n = length (md_vertices m) div 3
      in length (md_vertices m) = n * 3 \<and> 0 < n \<and>
         3 dvd length (md_indices m) \<and> md_indices m \<noteq> [] \<and> (\<forall>i\<in>set (md_indices m). unat i < n) \<and>
         length (md_normals m) = n * 3 \<and>
         (\<forall>i<n. vdot (vertex (md_normals m) i) (vertex (md_normals m) i) = 1) \<and>
         (md_texcoords m = [] \<or> length (md_texcoords m) = n * 2))"

lemma finish_mesh_ok:
  assumes "finish_mesh resolve ps = Inr m" and "in_threes (ps_mesh ps)"
  shows "mesh_ok m"
proof -
  define vs where "vs = map the (rm_vertices (ps_mesh ps))"
  define n where "n = length vs div 3"
  define w where "w = ensure_godot_clockwise_winding vs (rm_indices (ps_mesh ps))"
  have m: "md_vertices m = vs" "md_indices m = w" "md_normals m = compute_normals vs w"
    "md_texcoords m = fit_texcoords n (rm_texcoords (ps_mesh ps))"
    and ne: "vs \<noteq> []" "rm_indices (ps_mesh ps) \<noteq> []"
    and ix: "\<forall>i\<in>set (rm_indices (ps_mesh ps)). unat i < n"
    using assms(1) by (auto simp: finish_mesh_def Let_def vs_def n_def w_def not_le split: if_splits)
  have len: "length vs = n * 3" using assms(2) by (simp add: in_threes_def vs_def n_def)
  then have "0 < n" using ne(1) by (cases n) auto
  moreover have "length (compute_normals vs w) = n * 3"
    "\<forall>i<n. vdot (vertex (compute_normals vs w) i) (vertex (compute_normals vs w) i) = 1"
    by (simp_all add: compute_normals_def Let_def n_def [symmetric] triples_list unit_normal_unit)
  moreover have "length w = length (rm_indices (ps_mesh ps))" "set w = set (rm_indices (ps_mesh ps))"
    by (simp_all add: w_def wound_keeps)
  moreover have "fit_texcoords n (rm_texcoords (ps_mesh ps)) = [] \<or> length (fit_texcoords n (rm_texcoords (ps_mesh ps))) = n * 2"
    by (auto simp: fit_texcoords_def pad_floats_def)
  ultimately show ?thesis
    using ne ix assms(2) len unfolding mesh_ok_def m by (auto simp: in_threes_def Let_def)
qed


lemma triangle_parsed:
  "ps_mesh (fst (parse_root triangle_file 86 (good_at 6))) =
     \<lparr>rm_vertices = [Some 0, Some 0, Some 0, Some 1, Some 0, Some 0, Some 0, Some 1, Some 0],
       rm_indices = [0, 1, 2], rm_texcoords = []\<rparr>"
  by code_simp

lemma triangle_loads:
  "\<exists>m. load_3ds (\<lambda>_. None) \<lparr>pb_exists = True, pb_error = False, pb_content = Some triangle_file\<rparr> = Inr m"
proof -
  have "read_chunk triangle_file (good_at 0) = (Some \<lparr>chunk_id = 0x4D4D, chunk_length = 86\<rparr>, good_at 6)" by code_simp
  moreover have "length triangle_file = 86" by (simp add: triangle_file_def)
  ultimately show ?thesis
    using triangle_accepted triangle_parsed
    by (simp add: load_3ds_def finish_mesh_def renderable_def face_normal_def cross_def vsub_def vertex_def Let_def)
qed


subsection \<open>Winding\<close>

lemma face_normal_swap: "face_normal vs (a, c, b) = vneg (face_normal vs (a, b, c))"
  by (simp add: face_normal_def cross_def vsub_def vneg_def Let_def split: prod.splits)

lemma vlength_vneg [simp]: "vlength (vneg v) = vlength v"
  by (simp add: vlength_def vdot_def vneg_def split: prod.splits)

lemma vdot_vneg [simp]: "vdot (vneg v) w = - vdot v w"
  by (simp add: vdot_def vneg_def split: prod.splits)

lemma face_center_swap: "face_center vs (a, c, b) = face_center vs (a, b, c)"
  by (simp add: face_center_def vertex_def add.assoc add.commute)

lemma in_mesh_swap: "in_mesh n (a, c, b) \<longleftrightarrow> in_mesh n (a, b, c)"
  by (auto simp: in_mesh_def)

lemma triangles_swap: "triangles (swap_winding is) = map (\<lambda>(a, b, c). (a, c, b)) (triangles is)"
  by (induction "is" rule: swap_winding.induct) auto

lemma orient_step_swap:
  "orient_step vs (a, c, b) (- x, y) = (- fst (orient_step vs (a, b, c) (x, y)), snd (orient_step vs (a, b, c) (x, y)))"
  by (simp only: orient_step_def face_normal_swap [of vs a c b] face_center_swap [of vs a c b]
      in_mesh_swap [of _ a c b] vlength_vneg vdot_vneg Let_def split_conv)
    simp

lemma orient_fold_swap:
  "fold (orient_step vs) (map (\<lambda>(a, b, c). (a, c, b)) ts) (- x, y) =
     (- fst (fold (orient_step vs) ts (x, y)), snd (fold (orient_step vs) ts (x, y)))"
proof (induction ts arbitrary: x y)
  case (Cons t ts)
  obtain a b c where t: "t = (a, b, c)" by (cases t) auto
  show ?case using Cons.IH [of "fst (orient_step vs t (x, y))" "snd (orient_step vs t (x, y))"]
    by (simp add: t orient_step_swap)
qed simp

lemma orientation_swap:
  "orientation vs (swap_winding is) = (- fst (orientation vs is), snd (orientation vs is))"
  using orient_fold_swap [of vs "triangles is" 0 0] by (simp add: orientation_def triangles_swap)

lemma winding_final_at:
  fixes vs :: "real list" and "is" :: "u32 list"
  assumes w_def: "w = ensure_godot_clockwise_winding vs is"
  shows "(w = is \<or> w = swap_winding is) \<and> snd (orientation vs w) = snd (orientation vs is) \<and>
    (length is < 3 \<or> length vs < 3 \<or> snd (orientation vs w) \<le> 1 / 100000000 \<or>
       fst (orientation vs w) \<le> snd (orientation vs w) * (1 / 10000)) \<and>
    ensure_godot_clockwise_winding vs w = w"
proof (cases "w = is")
  case True
  have "swap_winding is = is \<Longrightarrow> fst (orientation vs is) = 0" using orientation_swap [of vs "is"] by (simp add: prod_eq_iff)
  then show ?thesis
    using True w_def by (auto simp: ensure_godot_clockwise_winding_def case_prod_beta Let_def split: if_splits)
next
  case False
  then have w: "w = swap_winding is" and pos: "fst (orientation vs is) > 0"
    and big: "\<not> snd (orientation vs is) \<le> 1 / 100000000"
    by (auto simp: w_def ensure_godot_clockwise_winding_def case_prod_beta Let_def split: if_splits)
  then have "- fst (orientation vs is) \<le> snd (orientation vs is) * (1 / 10000)" by simp
  moreover have "ensure_godot_clockwise_winding vs w = w"
    using pos by (simp add: ensure_godot_clockwise_winding_def case_prod_beta Let_def w orientation_swap)
  ultimately show ?thesis by (simp add: w orientation_swap)
qed

text \<open>Winding a mesh for the renderer turns every triangle or none, never moves its vertices or its
  area, and is final: the wound mesh is not counter-clockwise beyond the tolerance, and winding it
  again changes nothing.\<close>

theorem winding_is_final:
  "(ensure_godot_clockwise_winding vs is = is \<or> ensure_godot_clockwise_winding vs is = swap_winding is) \<and>
    snd (orientation vs (ensure_godot_clockwise_winding vs is)) = snd (orientation vs is) \<and>
    (length is < 3 \<or> length vs < 3 \<or> snd (orientation vs (ensure_godot_clockwise_winding vs is)) \<le> 1 / 100000000 \<or>
       fst (orientation vs (ensure_godot_clockwise_winding vs is))
         \<le> snd (orientation vs (ensure_godot_clockwise_winding vs is)) * (1 / 10000)) \<and>
    ensure_godot_clockwise_winding vs (ensure_godot_clockwise_winding vs is) = ensure_godot_clockwise_winding vs is"
proof -
  define w where w_def: "w = ensure_godot_clockwise_winding vs is"
  show ?thesis unfolding w_def [symmetric] by (rule winding_final_at [OF w_def])
qed

end
