(* ===== verification/Async_Pipeline.thy ===== *)
theory Async_Pipeline
  imports Prelude
begin

text \<open>
  \<open>AsyncPresentationPipeline\<close> (\<open>presentation/async_presentation_pipeline.cpp\<close>): the main thread submits
  universe frames and leases completed snapshots, one coordinator thread feeds the core and evaluates it.
  The threads share three input banks, two output banks and the atomics \<open>queued_input\<close> and
  \<open>ready_output\<close>, and no lock guards the banks.

  Every atomic operation and every access to a bank is a step of its thread, and the threads' steps
  interleave in any order (sequential consistency; the code orders the accesses with acquire and
  release). The program counters name where in \<open>flush_input\<close>, \<open>try_acquire\<close>, \<open>stop\<close> and
  \<open>run\<close> a thread is. What the core does with a frame and what it evaluates are the parameters
  \<open>core_submit\<close> and \<open>evaluate\<close> (\<^term>\<open>None\<close>: the evaluation throws). Sequence and
  generation numbers count from one and are unbounded; the code's have 64 bits.
\<close>

subsection \<open>State\<close>

datatype status = Free | Writing | Queued | Reading

record input_value =
  iv_id :: int
  iv_length :: nat
  iv_sequence :: nat
  iv_received_us :: u64
  iv_data :: "u8 list"

text \<open>Where the main thread is: between calls, in the scan of \<open>flush_input\<close> for a free bank, at its
  copy, its store of the status, its exchange of \<open>queued_input\<close>, at the release of the bank that was
  queued before, at its end; at the store of \<open>try_acquire\<close>; in \<open>stop\<close> before the join and after.\<close>

datatype main_pc = Idle | Scan nat | Copy nat | Enqueue nat | Swap nat | Retire nat | Finish
  | Lease nat | Join | Retired

text \<open>Where the coordinator is: waiting for work, having taken a queued bank, reading it, freeing it;
  looking for a free output bank, evaluating into it, storing its status, publishing it; ended by a stop or
  by an exception.\<close>

datatype run_pc = Wait | Taken nat | Read nat | Release nat | Find nat | Compute nat | Complete nat | Publish nat
  | Stopped | Failed

text \<open>The last five fields record the history: the producer's frames as of the bank last queued, the frame
  last given to the core for each universe, the snapshots completed and the snapshots leased, in order, and
  whether \<open>stop\<close> found the core with the scene of this session.\<close>

record ('c, 's) pipeline =
  in_status :: "status list"
  in_frames :: "input_value list list"
  in_generation :: "nat list"
  out_status :: "status list"
  out_snapshot :: "'s option list"
  queued_input :: "nat option"
  ready_output :: "nat option"
  latest :: "input_value list"
  consumed_sequences :: "nat list"
  producer_sequence :: nat
  producer_generation :: nat
  producer_dirty :: bool
  stopping :: bool
  initial_batch :: bool
  core :: 'c
  main_at :: main_pc
  run_at :: run_pc
  flushed :: "input_value list"
  given :: "input_value list"
  completed :: "'s list"
  leased :: "'s list"
  restored :: bool

definition pipeline_active :: "('c, 's) pipeline \<Rightarrow> bool" where
  "pipeline_active p \<longleftrightarrow> \<not> stopping p \<and> run_at p \<noteq> Failed"

text \<open>The constructor: \<open>held\<close> are the core's universes with their frames.\<close>

definition held_value :: "int \<times> u8 list \<Rightarrow> input_value" where
  "held_value h = \<lparr>iv_id = fst h, iv_length = length (snd h), iv_sequence = 1, iv_received_us = 0,
     iv_data = snd h @ replicate (512 - length (snd h)) 0\<rparr>"

definition blank_input :: input_value where
  "blank_input = \<lparr>iv_id = 0, iv_length = 0, iv_sequence = 0, iv_received_us = 0, iv_data = replicate 512 0\<rparr>"

definition pipeline_start :: "(int \<times> u8 list) list \<Rightarrow> 'c \<Rightarrow> ('c, 's) pipeline" where
  "pipeline_start held c =
     (let values = map held_value held
      in \<lparr>in_status = replicate 3 Free, in_frames = replicate 3 (map (\<lambda>_. blank_input) held), in_generation = replicate 3 0,
          out_status = replicate 2 Free, out_snapshot = replicate 2 None,
          queued_input = None, ready_output = None,
          latest = values, consumed_sequences = map (\<lambda>_. 1) held,
          producer_sequence = 1, producer_generation = 1, producer_dirty = False,
          stopping = False, initial_batch = True, core = c, main_at = Idle, run_at = Wait,
          flushed = values, given = values, completed = [], leased = [], restored = False\<rparr>)"

subsection \<open>The main thread\<close>

text \<open>\<open>submit\<close>: a frame of an unknown universe, without data or from a stopped pipeline is refused.\<close>

fun find_input :: "int \<Rightarrow> input_value list \<Rightarrow> nat option" where
  "find_input u [] = None"
| "find_input u (v # vs) = (if iv_id v = u then Some 0 else map_option Suc (find_input u vs))"

definition submit :: "int \<Rightarrow> u8 list option \<Rightarrow> int \<Rightarrow> u64 \<Rightarrow> ('c, 's) pipeline \<Rightarrow> bool \<times> ('c, 's) pipeline" where
  "submit universe data len received_us p =
     (case (if pipeline_active p \<and> len > 0 then data else None) of
        None \<Rightarrow> (False, p)
      | Some bytes \<Rightarrow>
          (case find_input universe (latest p) of
             None \<Rightarrow> (False, p)
           | Some i \<Rightarrow>
               let n = nat (min len 512); v = latest p ! i;
                   v' = v\<lparr>iv_length := n, iv_sequence := producer_sequence p + 1, iv_received_us := received_us,
                          iv_data := take n bytes @ drop n (iv_data v)\<rparr>
               in (True, p\<lparr>latest := (latest p)[i := v'], producer_sequence := producer_sequence p + 1,
                           producer_dirty := True\<rparr>)))"

text \<open>\<open>flush_input\<close>, step by step. The scan ends without a bank when all three are taken.\<close>

definition scan_step :: "('c, 's) pipeline \<Rightarrow> nat \<Rightarrow> ('c, 's) pipeline" where
  "scan_step p i =
     (if i < 3
      then if in_status p ! i = Free
           then p\<lparr>in_status := (in_status p)[i := Writing], main_at := Copy i\<rparr>
           else p\<lparr>main_at := Scan (Suc i)\<rparr>
      else p\<lparr>main_at := Idle\<rparr>)"

definition copy_step :: "('c, 's) pipeline \<Rightarrow> nat \<Rightarrow> ('c, 's) pipeline" where
  "copy_step p i = p\<lparr>in_frames := (in_frames p)[i := latest p],
     producer_generation := producer_generation p + 1,
     in_generation := (in_generation p)[i := producer_generation p + 1], main_at := Enqueue i\<rparr>"

definition swap_step :: "('c, 's) pipeline \<Rightarrow> nat \<Rightarrow> ('c, 's) pipeline" where
  "swap_step p i = p\<lparr>queued_input := Some i, flushed := in_frames p ! i,
     main_at := (case queued_input p of Some old \<Rightarrow> Retire old | None \<Rightarrow> Finish)\<rparr>"

text \<open>\<open>stop\<close> after the join: the core gets what the coordinator did not take, unless another scene was
  installed in it (\<open>same_schema\<close>).\<close>

definition restore :: "(int \<Rightarrow> u8 list \<Rightarrow> 'c \<Rightarrow> 'c) \<Rightarrow> input_value list \<Rightarrow> nat list \<Rightarrow> 'c \<Rightarrow> 'c" where
  "restore core_submit frames consumed c =
     fold (\<lambda>(v, n) c. if iv_length v > 0 \<and> iv_sequence v \<noteq> n then core_submit (iv_id v) (take (iv_length v) (iv_data v)) c else c)
       (zip frames consumed) c"

text \<open>The frames the core has been given last, after a batch of frames is offered to it.\<close>

definition given_after :: "input_value list \<Rightarrow> nat list \<Rightarrow> input_value list \<Rightarrow> input_value list" where
  "given_after frames consumed old =
     map (\<lambda>((v, n), o'). if iv_length v > 0 \<and> iv_sequence v \<noteq> n then v else o') (zip (zip frames consumed) old)"

definition consumed_after :: "input_value list \<Rightarrow> nat list \<Rightarrow> nat list" where
  "consumed_after frames consumed =
     map (\<lambda>(v, n). if iv_length v > 0 \<and> iv_sequence v \<noteq> n then iv_sequence v else n) (zip frames consumed)"

definition join_step :: "(int \<Rightarrow> u8 list \<Rightarrow> 'c \<Rightarrow> 'c) \<Rightarrow> bool \<Rightarrow> ('c, 's) pipeline \<Rightarrow> ('c, 's) pipeline" where
  "join_step core_submit same_schema p =
     (if same_schema
      then p\<lparr>core := restore core_submit (latest p) (consumed_sequences p) (core p),
             given := given_after (latest p) (consumed_sequences p) (given p), restored := True,
             ready_output := None, main_at := Retired\<rparr>
      else p\<lparr>ready_output := None, main_at := Retired\<rparr>)"

subsection \<open>The coordinator\<close>

definition take_step :: "('c, 's) pipeline \<Rightarrow> ('c, 's) pipeline" where
  "take_step p = p\<lparr>queued_input := None, initial_batch := False,
     run_at := (case queued_input p of Some i \<Rightarrow> Taken i | None \<Rightarrow> Find 0)\<rparr>"

definition read_step :: "(int \<Rightarrow> u8 list \<Rightarrow> 'c \<Rightarrow> 'c) \<Rightarrow> ('c, 's) pipeline \<Rightarrow> nat \<Rightarrow> ('c, 's) pipeline" where
  "read_step core_submit p i =
     (let frames = in_frames p ! i
      in p\<lparr>core := restore core_submit frames (consumed_sequences p) (core p),
           given := given_after frames (consumed_sequences p) (given p),
           consumed_sequences := consumed_after frames (consumed_sequences p), run_at := Release i\<rparr>)"

definition find_step :: "('c, 's) pipeline \<Rightarrow> nat \<Rightarrow> ('c, 's) pipeline" where
  "find_step p i =
     (if i < 2
      then if out_status p ! i = Free
           then p\<lparr>out_status := (out_status p)[i := Writing], run_at := Compute i\<rparr>
           else p\<lparr>run_at := Find (Suc i)\<rparr>
      else p\<lparr>run_at := Find 0\<rparr>)"

definition compute_step :: "('c \<Rightarrow> ('c \<times> 's) option) \<Rightarrow> ('c, 's) pipeline \<Rightarrow> nat \<Rightarrow> ('c, 's) pipeline" where
  "compute_step evaluate p i =
     (case evaluate (core p) of
        None \<Rightarrow> p\<lparr>run_at := Failed\<rparr>
      | Some (c, snap) \<Rightarrow> p\<lparr>core := c, out_snapshot := (out_snapshot p)[i := Some snap],
                             completed := completed p @ [snap], run_at := Complete i\<rparr>)"

subsection \<open>Steps\<close>

text \<open>A caller releases only snapshots it holds.\<close>

inductive main_step ::
    "(int \<Rightarrow> u8 list \<Rightarrow> 'c \<Rightarrow> 'c) \<Rightarrow> ('c, 's) pipeline \<Rightarrow> ('c, 's) pipeline \<Rightarrow> bool" for core_submit where
  submitting: "main_at p = Idle \<Longrightarrow> main_step core_submit p (snd (submit u data len rx p))"
| flush: "main_at p = Idle \<Longrightarrow> producer_dirty p \<Longrightarrow> pipeline_active p \<Longrightarrow> main_step core_submit p (p\<lparr>main_at := Scan 0\<rparr>)"
| scan: "main_at p = Scan i \<Longrightarrow> main_step core_submit p (scan_step p i)"
| copy: "main_at p = Copy i \<Longrightarrow> main_step core_submit p (copy_step p i)"
| enqueue: "main_at p = Enqueue i \<Longrightarrow>
    main_step core_submit p (p\<lparr>in_status := (in_status p)[i := Queued], main_at := Swap i\<rparr>)"
| swap: "main_at p = Swap i \<Longrightarrow> main_step core_submit p (swap_step p i)"
| retire: "main_at p = Retire i \<Longrightarrow>
    main_step core_submit p (p\<lparr>in_status := (in_status p)[i := Free], main_at := Finish\<rparr>)"
| finish: "main_at p = Finish \<Longrightarrow> main_step core_submit p (p\<lparr>producer_dirty := False, main_at := Idle\<rparr>)"
| acquire: "main_at p = Idle \<Longrightarrow> pipeline_active p \<Longrightarrow> ready_output p = Some i \<Longrightarrow>
    main_step core_submit p (p\<lparr>ready_output := None, main_at := Lease i\<rparr>)"
| lease: "main_at p = Lease i \<Longrightarrow>
    main_step core_submit p (p\<lparr>out_status := (out_status p)[i := Reading],
      leased := leased p @ [the (out_snapshot p ! i)], main_at := Idle\<rparr>)"
| release: "main_at p = Idle \<Longrightarrow> i < 2 \<Longrightarrow> out_status p ! i = Reading \<Longrightarrow>
    main_step core_submit p (p\<lparr>out_status := (out_status p)[i := Free]\<rparr>)"
| stop: "main_at p = Idle \<Longrightarrow> main_step core_submit p (p\<lparr>stopping := True, main_at := Join\<rparr>)"
| joined: "main_at p = Join \<Longrightarrow> run_at p \<in> {Stopped, Failed} \<Longrightarrow> main_step core_submit p (join_step core_submit same_schema p)"

inductive run_step ::
    "(int \<Rightarrow> u8 list \<Rightarrow> 'c \<Rightarrow> 'c) \<Rightarrow> ('c \<Rightarrow> ('c \<times> 's) option) \<Rightarrow> ('c, 's) pipeline \<Rightarrow> ('c, 's) pipeline \<Rightarrow> bool"
    for core_submit evaluate where
  take_input: "run_at p = Wait \<Longrightarrow> initial_batch p \<or> queued_input p \<noteq> None \<Longrightarrow> run_step core_submit evaluate p (take_step p)"
| mark: "run_at p = Taken i \<Longrightarrow>
    run_step core_submit evaluate p (p\<lparr>in_status := (in_status p)[i := Reading], run_at := Read i\<rparr>)"
| read: "run_at p = Read i \<Longrightarrow> run_step core_submit evaluate p (read_step core_submit p i)"
| free: "run_at p = Release i \<Longrightarrow>
    run_step core_submit evaluate p (p\<lparr>in_status := (in_status p)[i := Free], run_at := Find 0\<rparr>)"
| find_output: "run_at p = Find i \<Longrightarrow> run_step core_submit evaluate p (find_step p i)"
| compute: "run_at p = Compute i \<Longrightarrow> run_step core_submit evaluate p (compute_step evaluate p i)"
| complete: "run_at p = Complete i \<Longrightarrow>
    run_step core_submit evaluate p (p\<lparr>out_status := (out_status p)[i := Queued], run_at := Publish i\<rparr>)"
| publish: "run_at p = Publish i \<Longrightarrow> ready_output p = None \<Longrightarrow>
    run_step core_submit evaluate p (p\<lparr>ready_output := Some i, run_at := Wait\<rparr>)"
| quit: "run_at p \<in> {Wait, Find i, Compute i, Publish i} \<Longrightarrow> stopping p \<Longrightarrow>
    run_step core_submit evaluate p (p\<lparr>run_at := Stopped\<rparr>)"

inductive reaches ::
    "(int \<Rightarrow> u8 list \<Rightarrow> 'c \<Rightarrow> 'c) \<Rightarrow> ('c \<Rightarrow> ('c \<times> 's) option) \<Rightarrow> ('c, 's) pipeline \<Rightarrow> ('c, 's) pipeline \<Rightarrow> bool"
    for core_submit evaluate p where
  here: "reaches core_submit evaluate p p"
| by_main: "reaches core_submit evaluate p q \<Longrightarrow> main_step core_submit q r \<Longrightarrow> reaches core_submit evaluate p r"
| by_run: "reaches core_submit evaluate p q \<Longrightarrow> run_step core_submit evaluate q r \<Longrightarrow> reaches core_submit evaluate p r"

lemmas pipeline_steps = scan_step_def copy_step_def swap_step_def join_step_def take_step_def read_step_def
  find_step_def compute_step_def

end
