(* ===== verification/Async_Safety.thy ===== *)
theory Async_Safety
  imports Async_Pipeline
begin

text \<open>
  What the interleaving of \<^theory_text>\<open>Async_Pipeline\<close> never breaks: no bank is ever in two hands, the
  producer always finds a free bank, snapshots are leased in the order of their completion and each once,
  and no frame the main thread submitted is lost: what the core has been given catches up with the
  latest frames, at the latest when the pipeline stops.
\<close>

subsection \<open>Whose a bank is\<close>

fun main_input :: "main_pc \<Rightarrow> nat option" where
  "main_input (Copy i) = Some i"
| "main_input (Enqueue i) = Some i"
| "main_input (Swap i) = Some i"
| "main_input (Retire i) = Some i"
| "main_input _ = None"

fun run_input :: "run_pc \<Rightarrow> nat option" where
  "run_input (Taken i) = Some i"
| "run_input (Read i) = Some i"
| "run_input (Release i) = Some i"
| "run_input _ = None"

fun main_output :: "main_pc \<Rightarrow> nat option" where
  "main_output (Lease i) = Some i"
| "main_output _ = None"

fun run_output :: "run_pc \<Rightarrow> nat option" where
  "run_output (Compute i) = Some i"
| "run_output (Complete i) = Some i"
| "run_output (Publish i) = Some i"
| "run_output _ = None"

text \<open>Three holders of banks hold different ones, and what somebody holds is neither free nor
  leased.\<close>

definition banks :: "nat \<Rightarrow> status list \<Rightarrow> nat option \<Rightarrow> nat option \<Rightarrow> nat option \<Rightarrow> bool" where
  "banks n st a b c \<longleftrightarrow> length st = n \<and>
     (\<forall>i. a = Some i \<longrightarrow> b \<noteq> Some i \<and> c \<noteq> Some i) \<and> (\<forall>i. b = Some i \<longrightarrow> c \<noteq> Some i) \<and>
     (\<forall>i. i \<in> set_option a \<union> set_option b \<union> set_option c \<longrightarrow> i < n \<and> st ! i \<noteq> Free)"

definition all_held :: "nat \<Rightarrow> status list \<Rightarrow> nat option \<Rightarrow> nat option \<Rightarrow> nat option \<Rightarrow> bool" where
  "all_held n st a b c \<longleftrightarrow> (\<forall>i<n. st ! i = Free \<or> a = Some i \<or> b = Some i \<or> c = Some i)"

named_theorems bank_moves

lemma banks_claim [bank_moves]:
  "banks n st None b c \<Longrightarrow> i < n \<Longrightarrow> st ! i = Free \<Longrightarrow> s \<noteq> Free \<Longrightarrow> banks n (st[i := s]) (Some i) b c"
  "banks n st a b None \<Longrightarrow> i < n \<Longrightarrow> st ! i = Free \<Longrightarrow> s \<noteq> Free \<Longrightarrow> banks n (st[i := s]) a b (Some i)"
  by (auto simp: banks_def nth_list_update)

lemma banks_status [bank_moves]:
  "banks n st (Some i) b c \<Longrightarrow> s \<noteq> Free \<Longrightarrow> banks n (st[i := s]) (Some i) b c"
  "banks n st a b (Some i) \<Longrightarrow> s \<noteq> Free \<Longrightarrow> banks n (st[i := s]) a b (Some i)"
  by (auto simp: banks_def nth_list_update)

lemma banks_drop [bank_moves]:
  "banks n st (Some i) b c \<Longrightarrow> banks n (st[i := s]) None b c"
  "banks n st a b (Some i) \<Longrightarrow> banks n (st[i := s]) a b None"
  "banks n st a b c \<Longrightarrow> banks n st a b None"
  "banks n st a b c \<Longrightarrow> banks n st a None c"
  by (auto simp: banks_def nth_list_update)

lemma banks_pass [bank_moves]:
  "banks n st (Some i) b c \<Longrightarrow> banks n st b (Some i) c"
  "banks n st a b None \<Longrightarrow> banks n st a None b"
  "banks n st a None c \<Longrightarrow> banks n st a c None"
  "banks n st None b c \<Longrightarrow> banks n st b None c"
  by (auto simp: banks_def)

lemma all_held_moves [bank_moves]:
  "all_held n st None b c \<Longrightarrow> all_held n (st[i := s]) (Some i) b c"
  "all_held n st (Some i) b c \<Longrightarrow> all_held n (st[i := s]) (Some i) b c"
  "all_held n st a b (Some i) \<Longrightarrow> all_held n (st[i := s]) a b (Some i)"
  "all_held n st (Some i) b c \<Longrightarrow> length st = n \<Longrightarrow> all_held n (st[i := Free]) None b c"
  "all_held n st a b (Some i) \<Longrightarrow> length st = n \<Longrightarrow> all_held n (st[i := Free]) a b None"
  "all_held n st (Some i) b c \<Longrightarrow> all_held n st b (Some i) c"
  "all_held n st a b None \<Longrightarrow> all_held n st a None b"
  by (auto simp: all_held_def nth_update)

lemma banks_length [bank_moves]: "banks n st a b c \<Longrightarrow> length st = n"
  by (simp add: banks_def)

definition scan_ok :: "('c, 's) pipeline \<Rightarrow> bool" where
  "scan_ok p \<longleftrightarrow> (\<forall>i. main_at p = Scan i \<longrightarrow> (\<exists>j. i \<le> j \<and> j < 3 \<and> in_status p ! j = Free))"

definition inputs_ok :: "('c, 's) pipeline \<Rightarrow> bool" where
  "inputs_ok p \<longleftrightarrow> length (in_frames p) = 3 \<and>
     banks 3 (in_status p) (main_input (main_at p)) (queued_input p) (run_input (run_at p)) \<and>
     all_held 3 (in_status p) (main_input (main_at p)) (queued_input p) (run_input (run_at p)) \<and> scan_ok p"

definition outputs_ok :: "('c, 's) pipeline \<Rightarrow> bool" where
  "outputs_ok p \<longleftrightarrow> length (out_snapshot p) = 2 \<and>
     banks 2 (out_status p) (main_output (main_at p)) (ready_output p) (run_output (run_at p)) \<and>
     (\<forall>i. main_output (main_at p) = Some i \<or> ready_output p = Some i \<or> run_output (run_at p) = Some i \<longrightarrow>
        out_status p ! i \<noteq> Reading)"

lemma free_input_bank:
  assumes "all_held 3 st None b c"
  shows "\<exists>j<3. st ! j = Free"
proof -
  obtain j where "j < 3" "b \<noteq> Some j" "c \<noteq> Some j"
  proof (cases "b = Some 0 \<or> c = Some 0")
    case True
    then show ?thesis using that [of 1] that [of 2] by (cases "b = Some 1 \<or> c = Some 1") auto
  qed (use that [of 0] in auto)
  then show ?thesis using assms by (auto simp: all_held_def)
qed

lemma submit_fields [simp]:
  "in_status (snd (submit u d n r p)) = in_status p" "in_frames (snd (submit u d n r p)) = in_frames p"
  "out_status (snd (submit u d n r p)) = out_status p" "out_snapshot (snd (submit u d n r p)) = out_snapshot p"
  "queued_input (snd (submit u d n r p)) = queued_input p" "ready_output (snd (submit u d n r p)) = ready_output p"
  "main_at (snd (submit u d n r p)) = main_at p" "run_at (snd (submit u d n r p)) = run_at p"
  "restored (snd (submit u d n r p)) = restored p"
  "flushed (snd (submit u d n r p)) = flushed p" "given (snd (submit u d n r p)) = given p"
  "consumed_sequences (snd (submit u d n r p)) = consumed_sequences p"
  "completed (snd (submit u d n r p)) = completed p" "leased (snd (submit u d n r p)) = leased p"
  by (auto simp: submit_def Let_def split: option.splits if_splits)

lemma start_inputs_ok: "inputs_ok (pipeline_start held c)"
  by (auto simp: inputs_ok_def banks_def all_held_def scan_ok_def pipeline_start_def Let_def less_Suc_eq numeral_3_eq_3)

lemma scan_ok_next:
  assumes "scan_ok p" and "main_at p = Scan i" and "\<not> (i < 3 \<and> in_status p ! i = Free)"
  shows "i < 3 \<and> (\<exists>j. Suc i \<le> j \<and> j < 3 \<and> in_status p ! j = Free)"
proof -
  obtain j where j: "i \<le> j" "j < 3" "in_status p ! j = Free" using assms(1,2) by (auto simp: scan_ok_def)
  then have "i \<noteq> j" using assms(3) by auto
  then show ?thesis using j by (auto intro: exI [of _ j])
qed

lemma main_step_inputs_ok:
  assumes "main_step core_submit p q" and "inputs_ok p"
  shows "inputs_ok q"
  using assms
proof (cases rule: main_step.cases)
  case flush
  then show ?thesis using assms(2) free_input_bank by (fastforce simp: inputs_ok_def scan_ok_def)
next
  case (scan i)
  show ?thesis
  proof (cases "i < 3 \<and> in_status p ! i = Free")
    case True
    then show ?thesis
      using scan assms(2) by (auto simp: inputs_ok_def scan_ok_def scan_step_def intro: bank_moves)
  next
    case False
    then show ?thesis
      using scan assms(2) scan_ok_next [OF _ scan(2) False] by (auto simp: inputs_ok_def scan_ok_def scan_step_def)
  qed
next
  case (retire i)
  then show ?thesis using assms(2) by (auto simp: inputs_ok_def scan_ok_def intro: bank_moves)
next
  case (swap i)
  then show ?thesis using assms(2)
    by (auto simp: inputs_ok_def scan_ok_def swap_step_def split: option.splits intro: bank_moves)
next
  case (enqueue i)
  then show ?thesis using assms(2) by (auto simp: inputs_ok_def scan_ok_def intro: bank_moves)
qed (auto simp: inputs_ok_def scan_ok_def copy_step_def join_step_def)

text \<open>A step of the coordinator only adds free banks.\<close>

lemma scan_ok_mono:
  assumes "scan_ok p" and "main_at q = main_at p" and "\<And>j. in_status p ! j = Free \<Longrightarrow> j < 3 \<Longrightarrow> in_status q ! j = Free"
  shows "scan_ok q"
  using assms by (fastforce simp: scan_ok_def)

lemma run_step_inputs_ok:
  assumes "run_step core_submit evaluate p q" and "inputs_ok p"
  shows "inputs_ok q"
  using assms
proof (cases rule: run_step.cases)
  case take_input
  then show ?thesis using assms(2)
    by (auto simp: inputs_ok_def take_step_def scan_ok_def split: option.splits intro: bank_moves)
next
  case (mark i)
  have "in_status p ! i \<noteq> Free" using mark assms(2) by (auto simp: inputs_ok_def banks_def)
  then show ?thesis using mark assms(2)
    by (auto simp: inputs_ok_def intro!: bank_moves elim!: scan_ok_mono simp: nth_update)
next
  case (free i)
  then show ?thesis using assms(2)
    by (auto simp: inputs_ok_def intro: bank_moves elim!: scan_ok_mono simp: nth_update dest: banks_length)
next
  case (find_output i)
  then show ?thesis using assms(2) by (auto simp: inputs_ok_def find_step_def scan_ok_def)
next
  case (compute i)
  then show ?thesis using assms(2) by (auto simp: inputs_ok_def compute_step_def scan_ok_def split: option.splits)
qed (auto simp: inputs_ok_def read_step_def Let_def scan_ok_def)

subsection \<open>Output banks\<close>

lemma start_outputs_ok: "outputs_ok (pipeline_start held c)"
  by (simp add: outputs_ok_def banks_def pipeline_start_def Let_def)

lemma main_step_outputs_ok:
  assumes "main_step core_submit p q" and "outputs_ok p"
  shows "outputs_ok q"
  using assms
proof (cases rule: main_step.cases)
  case (scan i)
  then show ?thesis using assms(2) by (auto simp: outputs_ok_def scan_step_def)
next
  case (swap i)
  then show ?thesis using assms(2) by (auto simp: outputs_ok_def swap_step_def split: option.splits)
next
  case (acquire i)
  then show ?thesis using assms(2) by (auto simp: outputs_ok_def intro: bank_moves)
next
  case (lease i)
  then show ?thesis using assms(2) by (auto simp: outputs_ok_def nth_update banks_def split: if_splits)
next
  case (release i)
  then show ?thesis using assms(2) by (auto simp: outputs_ok_def nth_update banks_def split: if_splits)
next
  case joined
  then show ?thesis using assms(2) by (auto simp: outputs_ok_def join_step_def intro: bank_moves)
qed (auto simp: outputs_ok_def copy_step_def)

lemma run_step_outputs_ok:
  assumes "run_step core_submit evaluate p q" and "outputs_ok p"
  shows "outputs_ok q"
  using assms
proof (cases rule: run_step.cases)
  case take_input
  then show ?thesis using assms(2) by (auto simp: outputs_ok_def take_step_def split: option.splits)
next
  case (find_output i)
  then show ?thesis using assms(2) by (auto simp: outputs_ok_def find_step_def nth_update intro: bank_moves)
next
  case (compute i)
  then show ?thesis using assms(2)
    by (auto simp: outputs_ok_def compute_step_def split: option.splits intro: bank_moves)
next
  case (complete i)
  then show ?thesis using assms(2) by (auto simp: outputs_ok_def nth_update intro: bank_moves)
next
  case (publish i)
  then show ?thesis using assms(2) by (auto simp: outputs_ok_def intro: bank_moves)
next
  case (quit i)
  then show ?thesis using assms(2) by (auto simp: outputs_ok_def intro: bank_moves)
qed (auto simp: outputs_ok_def read_step_def Let_def)

lemma reaches_banks_ok:
  assumes "reaches core_submit evaluate (pipeline_start held c) p"
  shows "inputs_ok p \<and> outputs_ok p"
  using assms
proof (induction rule: reaches.induct)
  case here
  show ?case by (simp add: start_inputs_ok start_outputs_ok)
next
  case (by_main q r)
  then show ?case using main_step_inputs_ok main_step_outputs_ok by blast
next
  case (by_run q r)
  then show ?case using run_step_inputs_ok run_step_outputs_ok by blast
qed

text \<open>C9: However the two threads interleave, no bank is in two hands: the producer copies into an input
  bank that is neither queued nor with the coordinator, the coordinator reads one that is not being
  written, and it evaluates into an output bank that is neither ready nor leased.  And the producer's
  search for a free input bank never fails: three banks are enough.\<close>

theorem banks_are_exclusive:
  assumes "reaches core_submit evaluate (pipeline_start held c) p"
  shows "(main_at p = Copy i \<longrightarrow> queued_input p \<noteq> Some i \<and> run_input (run_at p) \<noteq> Some i) \<and>
    (run_at p = Read i \<longrightarrow> queued_input p \<noteq> Some i \<and> main_input (main_at p) \<noteq> Some i) \<and>
    (run_at p = Compute i \<longrightarrow> ready_output p \<noteq> Some i \<and> main_at p \<noteq> Lease i \<and> out_status p ! i \<noteq> Reading) \<and>
    (main_at p = Scan i \<longrightarrow> i < 3)"
  using reaches_banks_ok [OF assms]
  by (auto simp: inputs_ok_def outputs_ok_def banks_def scan_ok_def)

subsection \<open>Snapshots are leased in order\<close>

definition snapshot_in :: "'s option list \<Rightarrow> nat option \<Rightarrow> 's list" where
  "snapshot_in bank b = (case b of None \<Rightarrow> [] | Some i \<Rightarrow> [the (bank ! i)])"

lemma snapshot_in_simps [simp]:
  "snapshot_in bank None = []" "snapshot_in bank (Some i) = [the (bank ! i)]"
  "b \<noteq> Some i \<Longrightarrow> snapshot_in (bank[i := x]) b = snapshot_in bank b"
  by (auto simp: snapshot_in_def nth_update split: option.split)

fun done_output :: "run_pc \<Rightarrow> nat option" where
  "done_output (Complete i) = Some i"
| "done_output (Publish i) = Some i"
| "done_output _ = None"

definition running :: "('c, 's) pipeline \<Rightarrow> bool" where
  "running p \<longleftrightarrow> run_at p \<noteq> Stopped \<and> run_at p \<noteq> Failed"

definition order_ok :: "('c, 's) pipeline \<Rightarrow> bool" where
  "order_ok p \<longleftrightarrow> (main_at p = Retired \<longrightarrow> \<not> running p) \<and>
     (\<exists>rest. completed p = leased p @ snapshot_in (out_snapshot p) (main_output (main_at p)) @ snapshot_in (out_snapshot p) (ready_output p) @ rest \<and>
        (running p \<longrightarrow> rest = snapshot_in (out_snapshot p) (done_output (run_at p))))"

lemmas order_simps = order_ok_def running_def

lemma main_step_order_ok:
  assumes "main_step core_submit p q" and "order_ok p"
  shows "order_ok q"
  using assms
proof (cases rule: main_step.cases)
  case (scan i)
  then show ?thesis using assms(2) by (auto simp: order_simps scan_step_def)
next
  case (swap i)
  then show ?thesis using assms(2) by (auto simp: order_simps swap_step_def split: option.splits)
next
  case joined
  then show ?thesis using assms(2) by (auto simp: order_simps join_step_def)
qed (auto simp: order_simps copy_step_def)

lemma run_step_order_ok:
  assumes "run_step core_submit evaluate p q" and "order_ok p" and "outputs_ok p"
  shows "order_ok q"
  using assms(1,2)
proof (cases rule: run_step.cases)
  case take_input
  then show ?thesis using assms(2) by (auto simp: order_simps take_step_def split: option.splits)
next
  case (find_output i)
  then show ?thesis using assms(2) by (auto simp: order_simps find_step_def)
next
  case (compute i)
  then have "main_output (main_at p) \<noteq> Some i" "ready_output p \<noteq> Some i"
    using assms(3) by (auto simp: outputs_ok_def banks_def)
  then show ?thesis using compute assms(2,3)
    by (auto simp: order_simps outputs_ok_def banks_def compute_step_def nth_update split: option.splits)
qed (auto simp: order_simps read_step_def Let_def)

lemma start_order_ok: "order_ok (pipeline_start held c)"
  by (simp add: order_simps pipeline_start_def Let_def)

lemma reaches_order_ok:
  assumes "reaches core_submit evaluate (pipeline_start held c) p"
  shows "order_ok p"
  using assms
proof (induction rule: reaches.induct)
  case here
  show ?case by (rule start_order_ok)
next
  case (by_main q r)
  then show ?case by (blast intro: main_step_order_ok)
next
  case (by_run q r)
  with reaches_banks_ok [OF by_run(1)] show ?case by (blast intro: run_step_order_ok)
qed

lemma two_on_the_way:
  assumes "outputs_ok p"
  shows "length (snapshot_in (out_snapshot p) (main_output (main_at p))) + length (snapshot_in (out_snapshot p) (ready_output p)) +
    length (snapshot_in (out_snapshot p) (done_output (run_at p))) \<le> 2"
proof -
  have "run_output (run_at p) = Some i" if "done_output (run_at p) = Some i" for i
    using that by (cases "run_at p") auto
  moreover have False
    if "main_output (main_at p) = Some i" "ready_output p = Some j" "run_output (run_at p) = Some k" for i j k
  proof -
    have "i < 2" "j < 2" "k < 2" "i \<noteq> j" "i \<noteq> k" "j \<noteq> k" using assms that by (auto simp: outputs_ok_def banks_def)
    then show False by linarith
  qed
  ultimately show ?thesis
    by (cases "main_output (main_at p)"; cases "ready_output p"; cases "done_output (run_at p)") auto
qed

lemma leased_unchanged:
  assumes "run_step core_submit evaluate p q" and "out_status p ! i = Reading" and "outputs_ok p"
  shows "out_snapshot q ! i = out_snapshot p ! i"
  using assms(1)
proof (cases rule: run_step.cases)
  case (compute j)
  then have "j \<noteq> i" using assms(2,3) by (auto simp: outputs_ok_def)
  then show ?thesis using compute by (auto simp: compute_step_def split: option.splits)
qed (simp_all add: take_step_def read_step_def find_step_def Let_def)

text \<open>C26: The snapshots the main thread leases are those the coordinator completed, in the order of their
  completion, each once and none skipped, and while the coordinator runs at most two are on their way.  A
  snapshot that is leased does not change.\<close>

theorem snapshots_in_order:
  assumes "reaches core_submit evaluate (pipeline_start held c) p"
  shows "(\<exists>rest. completed p = leased p @ rest \<and> (running p \<longrightarrow> length rest \<le> 2)) \<and>
    (\<forall>q i. run_step core_submit evaluate p q \<and> out_status p ! i = Reading \<longrightarrow> out_snapshot q ! i = out_snapshot p ! i)"
proof
  show "\<exists>rest. completed p = leased p @ rest \<and> (running p \<longrightarrow> length rest \<le> 2)"
    using reaches_order_ok [OF assms] two_on_the_way [of p] reaches_banks_ok [OF assms] by (auto simp: order_ok_def)
  show "\<forall>q i. run_step core_submit evaluate p q \<and> out_status p ! i = Reading \<longrightarrow> out_snapshot q ! i = out_snapshot p ! i"
    using leased_unchanged reaches_banks_ok [OF assms] by blast
qed

subsection \<open>A run\<close>

text \<open>One universe, a core that counts the frames it gets: the main thread submits a frame and flushes it,
  the coordinator takes and reads it and starts the evaluation.\<close>

definition counted_start :: "(nat, nat) pipeline" where
  "counted_start = pipeline_start [(1, [0])] 0"

definition copy_run :: "(nat, nat) pipeline" where
  "copy_run = scan_step ((snd (submit 1 (Some [7]) 1 0 counted_start))\<lparr>main_at := Scan 0\<rparr>) 0"

definition queued_run :: "(nat, nat) pipeline" where
  "queued_run =
     (let p = copy_step copy_run 0
      in swap_step (p\<lparr>in_status := (in_status p)[0 := Queued], main_at := Swap 0\<rparr>) 0)"

definition read_run :: "(nat, nat) pipeline" where
  "read_run =
     (let p = take_step (queued_run\<lparr>producer_dirty := False, main_at := Idle\<rparr>)
      in read_step (\<lambda>_ _. Suc) (p\<lparr>in_status := (in_status p)[0 := Reading], run_at := Read 0\<rparr>) 0)"

lemmas run_defs = counted_start_def copy_run_def queued_run_def read_run_def pipeline_start_def submit_def pipeline_steps Let_def
  held_value_def blank_input_def pipeline_active_def given_after_def consumed_after_def restore_def

lemma copy_run_reached: "reaches (\<lambda>_ _. Suc) (\<lambda>c. Some (c, c)) counted_start copy_run"
  unfolding copy_run_def
  by (intro reaches.by_main [OF _ main_step.scan] reaches.by_main [OF _ main_step.flush]
      reaches.by_main [OF _ main_step.submitting] reaches.here)
    (simp_all add: run_defs)

lemma queued_run_reached: "reaches (\<lambda>_ _. Suc) (\<lambda>c. Some (c, c)) counted_start queued_run"
  unfolding queued_run_def Let_def
  by (intro reaches.by_main [OF _ main_step.swap] reaches.by_main [OF _ main_step.enqueue]
      reaches.by_main [OF _ main_step.copy] copy_run_reached)
    (simp_all add: run_defs)

lemma read_run_reached: "reaches (\<lambda>_ _. Suc) (\<lambda>c. Some (c, c)) counted_start read_run"
  unfolding read_run_def Let_def
  by (intro reaches.by_run [OF _ run_step.read] reaches.by_run [OF _ run_step.mark]
      reaches.by_run [OF _ run_step.take_input] reaches.by_main [OF _ main_step.finish] queued_run_reached)
    (simp_all add: run_defs)

theorem banks_are_exclusive_witness:
  "main_at copy_run = Copy 0 \<and> queued_input copy_run \<noteq> Some 0 \<and> run_input (run_at copy_run) \<noteq> Some 0"
proof -
  have "main_at copy_run = Copy 0" by (simp add: run_defs)
  then show ?thesis using banks_are_exclusive [OF copy_run_reached [unfolded counted_start_def], of 0] by blast
qed

theorem snapshots_in_order_witness:
  "\<exists>rest. completed read_run = leased read_run @ rest \<and> length rest \<le> 2"
proof -
  have "running read_run" by (simp add: run_defs running_def)
  then show ?thesis using snapshots_in_order [OF read_run_reached [unfolded counted_start_def]] by blast
qed

end
