(* ===== verification/Async_Delivery.thy ===== *)
theory Async_Delivery
  imports Async_Safety
begin

text \<open>
  No frame is lost on the way through the banks of the asynchronous pipeline: the core catches up with
  the frames the main thread submitted last. Sequence numbers name the frames of a universe, and every
  copy the threads make is a copy of the producer's list.
\<close>

subsection \<open>Offering frames to the core\<close>

definition no_newer :: "input_value list \<Rightarrow> input_value list \<Rightarrow> bool" where
  "no_newer = list_all2 (\<lambda>f g. iv_sequence f \<le> iv_sequence g)"

text \<open>Two copies agree where they have the same sequence number.\<close>

definition agree :: "input_value list \<Rightarrow> input_value list \<Rightarrow> bool" where
  "agree = list_all2 (\<lambda>f g. iv_sequence f = iv_sequence g \<longrightarrow> f = g)"

definition proper :: "nat \<Rightarrow> input_value list \<Rightarrow> bool" where
  "proper top_seq fs \<longleftrightarrow> (\<forall>f\<in>set fs. iv_sequence f \<le> top_seq \<and> (iv_length f = 0 \<longrightarrow> iv_sequence f \<le> 1))"

definition started :: "input_value list \<Rightarrow> bool" where
  "started fs \<longleftrightarrow> (\<forall>f\<in>set fs. 1 \<le> iv_sequence f)"

lemma no_newer_refl [simp]: "no_newer fs fs"
  by (simp add: no_newer_def list_all2_same)

lemma no_newer_trans: "no_newer fs gs \<Longrightarrow> no_newer gs hs \<Longrightarrow> no_newer fs hs"
  unfolding no_newer_def list_all2_conv_all_nth using order_trans by fastforce

lemma catch_up:
  assumes "no_newer gs fs" and "agree gs fs" and "proper n fs" and "started gs"
  shows "given_after fs (map iv_sequence gs) gs = fs"
    and "consumed_after fs (map iv_sequence gs) = map iv_sequence fs"
  using assms unfolding no_newer_def agree_def
proof (induction gs arbitrary: fs)
  case (Cons g gs)
  { case 1 then show ?case using Cons
      by (cases fs) (auto simp: given_after_def proper_def started_def) }
  { case 2 then show ?case using Cons
      by (cases fs) (auto simp: consumed_after_def proper_def started_def) }
qed (simp_all add: given_after_def consumed_after_def)

subsection \<open>The copies\<close>

definition copies :: "('c, 's) pipeline \<Rightarrow> input_value list set" where
  "copies p = {latest p, flushed p, given p} \<union> set (in_frames p)"

definition copies_ok :: "('c, 's) pipeline \<Rightarrow> bool" where
  "copies_ok p \<longleftrightarrow> (\<forall>fs\<in>copies p. proper (producer_sequence p) fs) \<and> (\<forall>fs\<in>copies p. \<forall>gs\<in>copies p. agree fs gs) \<and>
     consumed_sequences p = map iv_sequence (given p) \<and> started (given p) \<and>
     no_newer (given p) (flushed p) \<and> no_newer (flushed p) (latest p) \<and>
     map iv_id (flushed p) = map iv_id (latest p)"

text \<open>What the pipeline still holds for the core: a queued bank has the frames last flushed; so has the bank
  the coordinator is at when none is queued; and otherwise the core has them.\<close>

definition flow_ok :: "('c, 's) pipeline \<Rightarrow> bool" where
  "flow_ok p \<longleftrightarrow>
     (\<forall>b. main_at p = Enqueue b \<or> main_at p = Swap b \<longrightarrow> in_frames p ! b = latest p) \<and>
     ((\<exists>b. main_at p = Retire b) \<or> main_at p = Finish \<or> \<not> producer_dirty p \<longrightarrow> flushed p = latest p) \<and>
     (\<forall>b. queued_input p = Some b \<longrightarrow> in_frames p ! b = flushed p) \<and>
     (\<forall>b. run_at p = Taken b \<or> run_at p = Read b \<longrightarrow>
        no_newer (given p) (in_frames p ! b) \<and> no_newer (in_frames p ! b) (flushed p) \<and>
        (queued_input p = None \<longrightarrow> in_frames p ! b = flushed p)) \<and>
     (queued_input p = None \<and> (\<forall>b. run_at p \<noteq> Taken b \<and> run_at p \<noteq> Read b) \<and> main_at p \<noteq> Retired \<longrightarrow> given p = flushed p)"

lemma copies_mono:
  assumes "copies_ok p" and "copies q \<subseteq> copies p" and "producer_sequence q = producer_sequence p"
    and "consumed_sequences q = map iv_sequence (given q)" and "started (given q)"
    and "no_newer (given q) (flushed q)" and "no_newer (flushed q) (latest q)"
    and "map iv_id (flushed q) = map iv_id (latest q)"
  shows "copies_ok q"
proof -
  have "\<forall>fs\<in>copies p. proper (producer_sequence p) fs" and "\<forall>fs\<in>copies p. \<forall>gs\<in>copies p. agree fs gs"
    using assms(1) by (auto simp: copies_ok_def)
  then have "\<forall>fs\<in>copies q. proper (producer_sequence q) fs" and "\<forall>fs\<in>copies q. \<forall>gs\<in>copies q. agree fs gs"
    using assms(2,3) by auto
  then show ?thesis using assms(4-) by (simp add: copies_ok_def)
qed

text \<open>A frame with a new number is no copy of an old one.\<close>

lemma find_input_nth:
  "find_input u fs = Some i \<Longrightarrow> i < length fs \<and> iv_id (fs ! i) = u"
  by (induction fs arbitrary: i) (auto split: if_splits)

lemma agree_sym: "agree fs gs \<Longrightarrow> agree gs fs"
  by (auto simp: agree_def list_all2_conv_all_nth)

lemma agree_new:
  assumes "agree fs gs" and "i < length gs" and "\<forall>f\<in>set fs. iv_sequence f < iv_sequence v"
  shows "agree fs (gs[i := v])"
  using assms by (auto simp: agree_def list_all2_conv_all_nth nth_list_update) (metis nat_less_le nth_mem)

lemma submit_copies_ok:
  assumes "copies_ok p"
  shows "copies_ok (snd (submit u data len rx p))"
proof (cases "fst (submit u data len rx p)")
  case False
  then have "snd (submit u data len rx p) = p"
    by (auto simp: submit_def Let_def split: option.splits if_splits)
  then show ?thesis using assms by simp
next
  case True
  then obtain bytes i where len: "len > 0" and i: "find_input u (latest p) = Some i" and "data = Some bytes" "pipeline_active p"
    by (auto simp: submit_def split: option.splits if_splits)
  define v where "v = (latest p ! i)\<lparr>iv_length := nat (min len 512), iv_sequence := producer_sequence p + 1,
    iv_received_us := rx, iv_data := take (nat (min len 512)) bytes @ drop (nat (min len 512)) (iv_data (latest p ! i))\<rparr>"
  have q: "snd (submit u data len rx p) = p\<lparr>latest := (latest p)[i := v],
      producer_sequence := producer_sequence p + 1, producer_dirty := True\<rparr>"
    using len i \<open>data = Some bytes\<close> \<open>pipeline_active p\<close> by (simp add: submit_def v_def Let_def)
  have old: "\<forall>fs\<in>copies p. proper (producer_sequence p) fs" and ag: "\<forall>fs\<in>copies p. \<forall>gs\<in>copies p. agree fs gs"
    and nn: "no_newer (flushed p) (latest p)" and ids: "map iv_id (flushed p) = map iv_id (latest p)"
    and rest: "consumed_sequences p = map iv_sequence (given p)" "started (given p)" "no_newer (given p) (flushed p)"
    using assms by (auto simp: copies_ok_def)
  have il: "i < length (latest p)" using find_input_nth [OF i] by simp
  have sub: "copies (snd (submit u data len rx p)) \<subseteq> insert ((latest p)[i := v]) (copies p)"
    by (auto simp: q copies_def)
  have newer: "\<forall>f\<in>set fs. iv_sequence f < iv_sequence v" if "fs \<in> copies p" for fs
    using old that by (auto simp: proper_def v_def less_Suc_eq_le)
  have lp: "latest p \<in> copies p" by (simp add: copies_def)
  have agnew: "agree fs ((latest p)[i := v])" if "fs \<in> copies p" for fs
    using agree_new [OF _ il newer [OF that]] ag that lp by blast
  have "agree ((latest p)[i := v]) ((latest p)[i := v])" by (simp add: agree_def list_all2_same)
  then have "\<forall>fs\<in>copies (snd (submit u data len rx p)). \<forall>gs\<in>copies (snd (submit u data len rx p)). agree fs gs"
    using sub ag agnew agree_sym by blast
  moreover have "proper (Suc (producer_sequence p)) ((latest p)[i := v])"
    using old lp len by (auto simp: proper_def v_def dest!: set_update_subset_insert [THEN subsetD] intro: le_SucI)
  then have "\<forall>fs\<in>copies (snd (submit u data len rx p)). proper (Suc (producer_sequence p)) fs"
    using sub old by (fastforce simp: proper_def)
  moreover have "no_newer (flushed p) ((latest p)[i := v])"
    using nn newer [of "flushed p"] il by (auto simp: no_newer_def list_all2_conv_all_nth nth_list_update copies_def less_imp_le)
  moreover have "map iv_id ((latest p)[i := v]) = map iv_id (latest p)"
    using il by (auto simp: v_def map_update list_update_id intro: nth_equalityI simp: nth_list_update)
  ultimately show ?thesis using rest ids by (simp add: copies_ok_def q)
qed

subsection \<open>Every step keeps the copies in order\<close>

definition delivery_ok :: "('c, 's) pipeline \<Rightarrow> bool" where
  "delivery_ok p \<longleftrightarrow>
     (if main_at p = Retired then \<not> running p \<and> (restored p \<longrightarrow> given p = latest p) else copies_ok p \<and> flow_ok p \<and> \<not> restored p)"

lemma start_delivery_ok: "delivery_ok (pipeline_start held c)"
  by (auto simp: delivery_ok_def copies_ok_def flow_ok_def copies_def pipeline_start_def Let_def proper_def started_def
      held_value_def blank_input_def agree_def no_newer_def list_all2_conv_all_nth)

lemma join_step_fields [simp]:
  "main_at (join_step s b p) = Retired" "restored (join_step s b p) \<longleftrightarrow> b \<or> restored p"
  "latest (join_step s b p) = latest p" "running (join_step s b p) = running p"
  "run_at (join_step s b p) = run_at p"
  by (simp_all add: join_step_def running_def)

lemma submit_flow_ok:
  assumes "flow_ok p" and "main_at p = Idle"
  shows "flow_ok (snd (submit u data len rx p))"
  using assms by (auto simp: flow_ok_def submit_def Let_def split: option.splits)

lemma bank_copied:
  assumes "inputs_ok p" and "main_input (main_at p) = Some i \<or> queued_input p = Some i \<or> run_input (run_at p) = Some i"
  shows "i < 3 \<and> in_frames p ! i \<in> copies p"
  using assms by (auto simp: inputs_ok_def banks_def copies_def)

lemma main_step_copies_ok:
  assumes "main_step core_submit p q" and "copies_ok p" and "flow_ok p" and "inputs_ok p" and "main_at q \<noteq> Retired"
  shows "copies_ok q"
  using assms(1)
proof (cases rule: main_step.cases)
  case (submitting u data len rx)
  then show ?thesis using submit_copies_ok [OF assms(2)] by simp
next
  case (copy i)
  show ?thesis unfolding copy
    by (rule copies_mono [OF assms(2)])
      (use assms(2) in \<open>auto simp: copies_ok_def copies_def copy_step_def dest!: set_update_subset_insert [THEN subsetD]\<close>)
next
  case (swap i)
  then have i: "in_frames p ! i = latest p" using assms(3) by (simp add: flow_ok_def)
  have older: "no_newer (given p) (latest p)" using assms(2) by (auto simp: copies_ok_def intro: no_newer_trans)
  show ?thesis unfolding swap
    by (rule copies_mono [OF assms(2)])
      (use assms(2) i older in \<open>auto simp: copies_ok_def copies_def swap_step_def\<close>)
next
  case (scan i)
  show ?thesis unfolding scan
    by (rule copies_mono [OF assms(2)]) (use assms(2) in \<open>auto simp: copies_ok_def copies_def scan_step_def\<close>)
next
  case joined
  then show ?thesis using assms(5) by simp
qed (rule copies_mono [OF assms(2)]; use assms(2) in \<open>auto simp: copies_ok_def copies_def\<close>)+

lemma main_step_flow_ok:
  assumes "main_step core_submit p q" and "copies_ok p" and "flow_ok p" and "inputs_ok p" and "main_at q \<noteq> Retired"
  shows "flow_ok q"
  using assms(1)
proof (cases rule: main_step.cases)
  case (submitting u data len rx)
  then show ?thesis using submit_flow_ok [OF assms(3)] by simp
next
  case (copy i)
  then have "queued_input p \<noteq> Some i" "run_input (run_at p) \<noteq> Some i" "i < length (in_frames p)"
    using assms(4) by (auto simp: inputs_ok_def banks_def)
  then show ?thesis using copy assms(3) by (auto simp: flow_ok_def copy_step_def nth_update)
next
  case (swap i)
  then have i: "in_frames p ! i = latest p" using assms(3) by (auto simp: flow_ok_def)
  have "no_newer (flushed p) (latest p)" using assms(2) by (simp add: copies_ok_def)
  then show ?thesis using swap i assms(3)
    by (auto simp: flow_ok_def swap_step_def split: option.splits intro: no_newer_trans)
next
  case (scan i)
  then show ?thesis using assms(3) by (auto simp: flow_ok_def scan_step_def)
next
  case joined
  then show ?thesis using assms(5) by simp
qed (use assms(3) in \<open>auto simp: flow_ok_def\<close>)

lemma read_step_given:
  assumes "run_at p = Read i" and "copies_ok p" and "flow_ok p" and "inputs_ok p"
  shows "given (read_step core_submit p i) = in_frames p ! i"
    and "consumed_sequences (read_step core_submit p i) = map iv_sequence (in_frames p ! i)"
proof -
  have "in_frames p ! i \<in> copies p" using bank_copied [OF assms(4)] assms(1) by simp
  then have "agree (given p) (in_frames p ! i)" "proper (producer_sequence p) (in_frames p ! i)"
    using assms(2) by (auto simp: copies_ok_def copies_def)
  moreover have "no_newer (given p) (in_frames p ! i)" using assms(1,3) by (auto simp: flow_ok_def)
  moreover have "consumed_sequences p = map iv_sequence (given p)" "started (given p)"
    using assms(2) by (simp_all add: copies_ok_def)
  ultimately show "given (read_step core_submit p i) = in_frames p ! i"
    and "consumed_sequences (read_step core_submit p i) = map iv_sequence (in_frames p ! i)"
    by (simp_all add: read_step_def catch_up Let_def)
qed

lemma started_newer: "started gs \<Longrightarrow> no_newer gs fs \<Longrightarrow> started fs"
  unfolding started_def no_newer_def list_all2_conv_all_nth by (metis in_set_conv_nth order_trans)

lemma read_step_fields [simp]:
  "latest (read_step s p i) = latest p" "flushed (read_step s p i) = flushed p"
  "in_frames (read_step s p i) = in_frames p" "producer_sequence (read_step s p i) = producer_sequence p"
  "producer_dirty (read_step s p i) = producer_dirty p"
  "main_at (read_step s p i) = main_at p" "queued_input (read_step s p i) = queued_input p"
  "run_at (read_step s p i) = Release i"
  by (simp_all add: read_step_def Let_def)

lemma read_step_ok:
  assumes "run_at p = Read i" and "copies_ok p" and "flow_ok p" and "inputs_ok p"
  shows "copies_ok (read_step core_submit p i)" and "flow_ok (read_step core_submit p i)"
proof -
  note given = read_step_given [OF assms]
  have i: "in_frames p ! i \<in> copies p" "no_newer (given p) (in_frames p ! i)" "no_newer (in_frames p ! i) (flushed p)"
    using bank_copied [OF assms(4)] assms(1,3) by (auto simp: flow_ok_def)
  show "copies_ok (read_step core_submit p i)"
    by (rule copies_mono [OF assms(2)])
      (use assms(2) i started_newer in \<open>auto simp: copies_ok_def copies_def given\<close>)
  show "flow_ok (read_step core_submit p i)" using assms(1,3) by (auto simp: flow_ok_def given)
qed

lemma run_step_copies_ok:
  assumes "run_step core_submit evaluate p q" and "copies_ok p" and "flow_ok p" and "inputs_ok p"
  shows "copies_ok q"
  using assms(1)
proof (cases rule: run_step.cases)
  case (read i)
  then show ?thesis using read_step_ok assms(2-) by blast
qed (use assms(2) in \<open>auto simp: copies_ok_def copies_def take_step_def find_step_def compute_step_def split: option.splits\<close>)

lemma run_step_flow_ok:
  assumes "run_step core_submit evaluate p q" and "copies_ok p" and "flow_ok p" and "inputs_ok p"
  shows "flow_ok q"
  using assms(1)
proof (cases rule: run_step.cases)
  case take_input
  have "no_newer (given p) (flushed p)" using assms(2) by (simp add: copies_ok_def)
  then show ?thesis using take_input assms(3) by (auto simp: flow_ok_def take_step_def split: option.splits)
next
  case (read i)
  then show ?thesis using read_step_ok assms(2-) by blast
next
  case (find_output i)
  then show ?thesis using assms(3) by (auto simp: flow_ok_def find_step_def)
next
  case (compute i)
  then show ?thesis using assms(3) by (auto simp: flow_ok_def compute_step_def split: option.splits)
qed (use assms(3) in \<open>auto simp: flow_ok_def\<close>)

lemma join_delivers:
  assumes "copies_ok p"
  shows "given (join_step core_submit True p) = latest p"
proof -
  have "no_newer (given p) (latest p)" using assms by (auto simp: copies_ok_def intro: no_newer_trans)
  then show ?thesis using assms
    by (auto simp: join_step_def copies_ok_def copies_def intro!: catch_up(1) [where n = "producer_sequence p"])
qed

lemma reaches_delivery_ok:
  assumes "reaches core_submit evaluate (pipeline_start held c) p"
  shows "delivery_ok p"
  using assms
proof (induction rule: reaches.induct)
  case here
  show ?case by (rule start_delivery_ok)
next
  case (by_main q r)
  have "main_at q \<noteq> Retired" using by_main(2) by (auto elim: main_step.cases)
  then have q: "copies_ok q" "flow_ok q" "inputs_ok q" "\<not> restored q"
    using by_main(3) reaches_banks_ok [OF by_main(1)] by (simp_all add: delivery_ok_def)
  show ?case
  proof (cases "main_at r = Retired")
    case True
    then obtain same where r: "r = join_step core_submit same q" "run_at q \<in> {Stopped, Failed}"
      using by_main(2)
      by (auto elim!: main_step.cases simp: scan_step_def copy_step_def swap_step_def split: if_splits option.splits)
    then have "given r = latest r" if "same" using that join_delivers [OF q(1)] by simp
    then show ?thesis using r q(4) by (auto simp: delivery_ok_def running_def)
  next
    case False
    then have "\<not> restored r"
      using by_main(2) q(4)
      by (auto elim!: main_step.cases simp: scan_step_def copy_step_def swap_step_def split: if_splits option.splits)
    then show ?thesis using False q main_step_copies_ok [OF by_main(2)] main_step_flow_ok [OF by_main(2)]
      by (simp add: delivery_ok_def)
  qed
next
  case (by_run q r)
  have "main_at q \<noteq> Retired"
    using by_run(2,3) by (auto elim!: run_step.cases simp: delivery_ok_def running_def)
  moreover have "main_at r = main_at q \<and> restored r = restored q"
    using by_run(2)
    by (auto elim!: run_step.cases simp: take_step_def read_step_def find_step_def compute_step_def Let_def split: option.splits if_splits)
  ultimately show ?case
    using by_run(3) reaches_banks_ok [OF by_run(1)] run_step_copies_ok [OF by_run(2)] run_step_flow_ok [OF by_run(2)]
    by (simp add: delivery_ok_def)
qed



end
