(* ===== verification/Dense_State.thy ===== *)
theory Dense_State
  imports Complex_Main Prelude
begin

text \<open>
  \<open>DensePresentationState\<close> (\<open>presentation/dense_presentation_state.cpp\<close>): the values that the renderer needs
  of every physical output, updated by the rows of a visual frame, with the list of outputs that changed
  since the last snapshot.

  A \<open>float\<close> that comes from outside is a \<open>sample\<close>, \<^term>\<open>None\<close> when it is infinite or not a number; the state
  holds real numbers. Indices and counters are natural numbers. Reading past the end of a buffer is
  \<^term>\<open>None\<close>. A process-wide counter hands out generations; what it hands out is the argument \<open>fresh\<close>.
\<close>

subsection \<open>Data\<close>

type_synonym sample = "real option"

datatype render_field = Dimmer | Red | Green | Blue | BeamEnergy | SpotEnergy | BeamIntensity
  | MaterialEnergy | HalfAngle | FullAngle | ColorGain | Visible

type_synonym render_values = "render_field \<Rightarrow> real"

definition VisualChangeDimmer :: u32 where "VisualChangeDimmer = 2"
definition VisualChangeColor :: u32 where "VisualChangeColor = 4"
definition VisualChangeZoom :: u32 where "VisualChangeZoom = 8"
definition VisualChangeMaterial :: u32 where "VisualChangeMaterial = 256"
definition VisualChangeBeamTopology :: u32 where "VisualChangeBeamTopology = 512"

lemmas change_defs = VisualChangeDimmer_def VisualChangeColor_def VisualChangeZoom_def VisualChangeMaterial_def
  VisualChangeBeamTopology_def

record output_binding =
  canonical_id :: i32
  projected_scale :: sample

record target_binding =
  target_section :: i32
  target_id :: i32
  output_index :: nat

record output_state =
  os_dimmer :: real
  os_beam_energy :: real
  os_spot_energy :: real
  os_beam_intensity :: real
  os_material_energy :: real
  os_red :: real
  os_green :: real
  os_blue :: real
  os_gain :: real
  os_half_angle :: real
  os_full_angle :: real
  os_mask :: u32
  os_committed :: bool
  os_previous :: render_values

definition blank_output :: output_state where
  "blank_output = \<lparr>os_dimmer = 0, os_beam_energy = 0, os_spot_energy = 0, os_beam_intensity = 0,
     os_material_energy = 0, os_red = 1, os_green = 1, os_blue = 1, os_gain = 1,
     os_half_angle = 125 / 10, os_full_angle = 25, os_mask = 0, os_committed = False, os_previous = (\<lambda>_. 0)\<rparr>"

record prepared_output =
  po_index :: nat
  po_mask :: u32
  po_values :: render_values

record dense =
  generation :: u64
  bindings :: "output_binding list"
  states :: "output_state list"
  dirty :: "nat list"
  prepared :: "prepared_output list"
  routes :: "u64 \<Rightarrow> nat list option"
  representatives :: "int list"
  group_masks :: "u32 list"
  prepared_groups :: "prepared_output list"
  dynamic_candidates :: nat
  high_water :: nat
  candidates :: nat
  unresolved_rows :: nat
  trace_enabled :: bool

definition fresh_dense :: dense where
  "fresh_dense = \<lparr>generation = 0, bindings = [], states = [], dirty = [], prepared = [], routes = (\<lambda>_. None),
     representatives = [], group_masks = [], prepared_groups = [], dynamic_candidates = 0, high_water = 0,
     candidates = 0, unresolved_rows = 0, trace_enabled = False\<rparr>"

subsection \<open>Setup\<close>

definition target_key :: "i32 \<Rightarrow> i32 \<Rightarrow> u64" where
  "target_key sect target = push_bit 32 (ucast sect) OR ucast target"

definition dense_clear :: "u64 \<Rightarrow> dense \<Rightarrow> dense" where
  "dense_clear fresh ds = fresh_dense\<lparr>generation := fresh, trace_enabled := trace_enabled ds\<rparr>"

fun outputs_valid :: "output_binding list \<Rightarrow> i32 set \<Rightarrow> bool" where
  "outputs_valid [] ids \<longleftrightarrow> True"
| "outputs_valid (b # bs) ids \<longleftrightarrow>
     sint (canonical_id b) > 0 \<and> canonical_id b \<notin> ids \<and>
     (case projected_scale b of None \<Rightarrow> False | Some x \<Rightarrow> 0 \<le> x) \<and> outputs_valid bs (insert (canonical_id b) ids)"

definition lit_section :: "i32 \<Rightarrow> bool" where
  "lit_section sect \<longleftrightarrow> sect = 2 \<or> sect = 3 \<or> sect = 4"

fun add_routes :: "nat \<Rightarrow> target_binding list \<Rightarrow> (u64 \<Rightarrow> nat list option) \<Rightarrow> (u64 \<Rightarrow> nat list option) option" where
  "add_routes n [] rs = Some rs"
| "add_routes n (t # ts) rs =
     (if output_index t \<ge> n \<or> sint (target_id t) \<le> 0 \<or> \<not> lit_section (target_section t) then None
      else let key = target_key (target_section t) (target_id t);
               indices = (case rs key of None \<Rightarrow> [] | Some is \<Rightarrow> is);
               indices' = (if output_index t \<in> set indices then indices else indices @ [output_index t])
           in add_routes n ts (rs(key \<mapsto> indices')))"

definition dense_install :: "u64 \<Rightarrow> output_binding list \<Rightarrow> target_binding list \<Rightarrow> dense \<Rightarrow> bool \<times> dense" where
  "dense_install fresh outputs targets ds =
     (if \<not> outputs_valid outputs {} then (False, ds)
      else case add_routes (length outputs) targets (\<lambda>_. None) of
             None \<Rightarrow> (False, ds)
           | Some rs \<Rightarrow> (True, (dense_clear fresh ds)\<lparr>bindings := outputs, states := replicate (length outputs) blank_output,
                                               routes := rs\<rparr>))"

definition note_high_water :: "dense \<Rightarrow> dense" where
  "note_high_water ds = (if trace_enabled ds then ds\<lparr>high_water := max (high_water ds) (length (dirty ds))\<rparr> else ds)"

definition count_candidate :: "dense \<Rightarrow> dense" where
  "count_candidate ds = (if trace_enabled ds then ds\<lparr>candidates := candidates ds + 1\<rparr> else ds)"

text \<open>An output joins the dirty list when its mask leaves zero.\<close>

definition touch :: "nat \<Rightarrow> dense \<Rightarrow> dense" where
  "touch i ds = (if os_mask (states ds ! i) = 0 then ds\<lparr>dirty := dirty ds @ [i]\<rparr> else ds)"

definition invalidate_output :: "nat \<Rightarrow> dense \<Rightarrow> dense" where
  "invalidate_output i ds =
     (let s = states ds ! i; ds = touch i ds
      in count_candidate (ds\<lparr>states := (states ds)[i := s\<lparr>os_mask := os_mask s OR VisualChangeBeamTopology,
                                                          os_committed := False\<rparr>]\<rparr>))"

definition invalidate_renderer :: "dense \<Rightarrow> dense" where
  "invalidate_renderer ds = note_high_water (fold invalidate_output [0..<length (states ds)] ds)"

definition group_valid :: "dense \<Rightarrow> int list \<Rightarrow> nat \<Rightarrow> bool" where
  "group_valid ds reps i \<longleftrightarrow>
     (let r = reps ! i
      in - 1 \<le> r \<and> r < int (length (states ds)) \<and>
         (r \<ge> 0 \<longrightarrow> reps ! nat r = r \<and> projected_scale (bindings ds ! i) = projected_scale (bindings ds ! nat r)))"

definition install_groups :: "int list \<Rightarrow> dense \<Rightarrow> bool \<times> dense" where
  "install_groups reps ds =
     (if length reps \<noteq> length (states ds) \<or> \<not> list_all (group_valid ds reps) [0..<length reps] then (False, ds)
      else (True, invalidate_renderer (ds\<lparr>representatives := reps, group_masks := replicate (length (states ds)) 0\<rparr>)))"

text \<open>A loop whose body may leave the bounds of an array.\<close>

fun each :: "('a \<Rightarrow> 's \<Rightarrow> 's option) \<Rightarrow> 'a list \<Rightarrow> 's \<Rightarrow> 's option" where
  "each step [] s = Some s"
| "each step (x # xs) s = (case step x s of None \<Rightarrow> None | Some s \<Rightarrow> each step xs s)"

subsection \<open>Updates\<close>

text \<open>The loop over \<open>std::isfinite(v[i])\<close>: it stops at the first that is not finite.\<close>

fun finite_samples :: "nat \<Rightarrow> sample list \<Rightarrow> real list option option" where
  "finite_samples 0 v = Some (Some [])"
| "finite_samples (Suc n) [] = None"
| "finite_samples (Suc n) (None # v) = Some None"
| "finite_samples (Suc n) (Some x # v) = map_option (map_option ((#) x)) (finite_samples n v)"

definition section_stride :: "i32 \<Rightarrow> nat" where
  "section_stride sect = (if sect = 2 then 5 else if sect = 3 then 4 else 3)"

definition domain_bit :: "i32 \<Rightarrow> u32" where
  "domain_bit sect = (if sect = 2 then VisualChangeDimmer else if sect = 3 then VisualChangeColor else VisualChangeZoom)"

definition store_fields :: "i32 \<Rightarrow> real list \<Rightarrow> output_state \<Rightarrow> output_state" where
  "store_fields sect v s =
     (if sect = 2 then s\<lparr>os_dimmer := v ! 0, os_beam_energy := v ! 1, os_spot_energy := v ! 2,
                         os_beam_intensity := v ! 3, os_material_energy := v ! 4\<rparr>
      else if sect = 3 then s\<lparr>os_red := v ! 0, os_green := v ! 1, os_blue := v ! 2, os_gain := max (v ! 3) 0\<rparr>
      else s\<lparr>os_half_angle := v ! 0, os_full_angle := v ! 1\<rparr>)"

definition update_output :: "nat \<Rightarrow> i32 \<Rightarrow> u32 \<Rightarrow> real list \<Rightarrow> dense \<Rightarrow> dense" where
  "update_output i sect msk v ds =
     (let s = store_fields sect v (states ds ! i); ds = touch i (count_candidate ds)
      in note_high_water (ds\<lparr>states := (states ds)[i := s\<lparr>os_mask := os_mask s OR (msk OR domain_bit sect)\<rparr>]\<rparr>))"

definition dense_update :: "u64 \<Rightarrow> nat \<Rightarrow> i32 \<Rightarrow> u32 \<Rightarrow> sample list option \<Rightarrow> dense \<Rightarrow> (bool \<times> dense) option" where
  "dense_update gen i sect msk values ds =
     (case values of
        None \<Rightarrow> Some (False, ds)
      | Some v \<Rightarrow>
          if gen \<noteq> generation ds \<or> i \<ge> length (states ds) \<or> \<not> lit_section sect then Some (False, ds)
          else case finite_samples (section_stride sect) v of
                 None \<Rightarrow> None
               | Some None \<Rightarrow> Some (False, ds)
               | Some (Some xs) \<Rightarrow> Some (True, update_output i sect msk xs ds))"

fun update_all :: "u64 \<Rightarrow> nat list \<Rightarrow> i32 \<Rightarrow> u32 \<Rightarrow> sample list option \<Rightarrow> bool \<times> dense \<Rightarrow> (bool \<times> dense) option" where
  "update_all gen [] sect msk values (res, ds) = Some (res, ds)"
| "update_all gen (i # is) sect msk values (res, ds) =
     (case dense_update gen i sect msk values ds of
        None \<Rightarrow> None
      | Some (ok, ds') \<Rightarrow> update_all gen is sect msk values (ok \<and> res, ds'))"

definition update_target :: "u64 \<Rightarrow> i32 \<Rightarrow> i32 \<Rightarrow> u32 \<Rightarrow> sample list option \<Rightarrow> dense \<Rightarrow> (bool \<times> dense) option" where
  "update_target gen sect target msk values ds =
     (if gen \<noteq> generation ds then Some (False, ds)
      else case routes ds (target_key sect target) of
             None \<Rightarrow> Some (False, ds)
           | Some is \<Rightarrow> update_all gen is sect msk values (True, ds))"

text \<open>\<open>compose_sections\<close>: five descriptors a section, type, rows, offsets of its integers and floats and one that is
  not used here; three integers a row and as many floats as the section needs. Sections of other types are skipped.\<close>

fun sections_valid :: "i32 list \<Rightarrow> i32 list \<Rightarrow> sample list \<Rightarrow> bool" where
  "sections_valid (sect # rows # io # fo # rest # d) ints v \<longleftrightarrow>
     (lit_section sect \<longrightarrow>
        0 \<le> sint rows \<and> 0 \<le> sint io \<and> 0 \<le> sint fo \<and>
        nat (sint io) + nat (sint rows) * 3 \<le> length ints \<and>
        nat (sint fo) + nat (sint rows) * section_stride sect \<le> length v \<and>
        None \<notin> set (take (nat (sint rows) * section_stride sect) (drop (nat (sint fo)) v))) \<and>
     sections_valid d ints v"
| "sections_valid _ ints v \<longleftrightarrow> True"

definition int_at :: "i32 list \<Rightarrow> nat \<Rightarrow> i32 option" where
  "int_at ints k = (if k < length ints then Some (ints ! k) else None)"

definition apply_row :: "u64 \<Rightarrow> i32 \<Rightarrow> nat \<Rightarrow> nat \<Rightarrow> i32 list \<Rightarrow> sample list \<Rightarrow> nat \<Rightarrow> dense \<Rightarrow> dense option" where
  "apply_row gen sect io fo ints v row ds =
     (case (int_at ints (io + row * 3 + 1), int_at ints (io + row * 3 + 2)) of
        (Some target, Some msk) \<Rightarrow>
          (case update_target gen sect target msk (Some (drop (fo + row * section_stride sect) v)) ds of
             None \<Rightarrow> None
           | Some (ok, ds) \<Rightarrow> Some (if ok then ds else ds\<lparr>unresolved_rows := unresolved_rows ds + 1\<rparr>))
      | _ \<Rightarrow> None)"

fun apply_sections :: "u64 \<Rightarrow> i32 list \<Rightarrow> i32 list \<Rightarrow> sample list \<Rightarrow> dense \<Rightarrow> dense option" where
  "apply_sections gen (sect # rows # io # fo # rest # d) ints v ds =
     (case (if lit_section sect
            then each (apply_row gen sect (nat (sint io)) (nat (sint fo)) ints v) [0..<nat (sint rows)] ds
            else Some ds) of
        None \<Rightarrow> None
      | Some ds \<Rightarrow> apply_sections gen d ints v ds)"
| "apply_sections gen _ ints v ds = Some ds"

definition compose_sections ::
    "u64 \<Rightarrow> i32 list \<Rightarrow> i32 list \<Rightarrow> sample list \<Rightarrow> dense \<Rightarrow> (bool \<times> dense) option" where
  "compose_sections gen d ints v ds =
     (if gen \<noteq> generation ds \<or> length d mod 5 \<noteq> 0 \<or> \<not> sections_valid d ints v then Some (False, ds)
      else map_option (\<lambda>ds. (True, ds)) (apply_sections gen d ints v (ds\<lparr>unresolved_rows := 0\<rparr>)))"

subsection \<open>Snapshots\<close>

definition clamp :: "real \<Rightarrow> real \<Rightarrow> real \<Rightarrow> real" where
  "clamp x low high = (if x < low then low else if high < x then high else x)"

definition approximately :: "real \<Rightarrow> real \<Rightarrow> bool" where
  "approximately a b \<longleftrightarrow> a = b \<or> \<bar>a - b\<bar> < max (1 / 100000) (1 / 100000 * \<bar>a\<bar>)"

definition visual_gain :: "real \<Rightarrow> real" where
  "visual_gain gain = (if gain \<le> 1 / 1000000 then 0 else 1 / 4 + 3 / 4 * clamp gain 0 1 powr (10 / 22))"

definition scale_of :: "output_binding \<Rightarrow> real" where
  "scale_of b = (case projected_scale b of None \<Rightarrow> 0 | Some x \<Rightarrow> x)"

fun values_of :: "output_state \<Rightarrow> real \<Rightarrow> render_values" where
  "values_of s scale Dimmer = os_dimmer s"
| "values_of s scale Red = os_red s"
| "values_of s scale Green = os_green s"
| "values_of s scale Blue = os_blue s"
| "values_of s scale BeamEnergy = os_beam_energy s * os_gain s * scale"
| "values_of s scale SpotEnergy = os_spot_energy s * os_gain s * scale"
| "values_of s scale BeamIntensity = clamp (clamp (os_beam_intensity s * visual_gain (os_gain s)) 0 50 * scale) 0 50"
| "values_of s scale MaterialEnergy = os_material_energy s * os_gain s"
| "values_of s scale HalfAngle = os_half_angle s"
| "values_of s scale FullAngle = os_full_angle s"
| "values_of s scale ColorGain = os_gain s"
| "values_of s scale Visible =
     (if os_dimmer s > 1 / 10000 \<and> scale > 0 \<and> clamp (os_beam_intensity s * visual_gain (os_gain s)) 0 50 > 1 / 1000000
      then 1 else 0)"

text \<open>\<open>states_.at\<close> throws when the index is out of range.\<close>

definition render_values_at :: "nat \<Rightarrow> dense \<Rightarrow> render_values option" where
  "render_values_at i ds =
     (if i < length (states ds) then Some (values_of (states ds ! i) (scale_of (bindings ds ! i))) else None)"

definition masked :: "u32 \<Rightarrow> u32 \<Rightarrow> bool" where
  "masked m b \<longleftrightarrow> m AND b \<noteq> 0"

definition changed_mask :: "output_state \<Rightarrow> render_values \<Rightarrow> u32" where
  "changed_mask s v =
     (let p = os_previous s; m = os_mask s
      in if \<not> os_committed s \<or> masked m VisualChangeBeamTopology
         then m OR VisualChangeDimmer OR VisualChangeColor OR VisualChangeMaterial
         else (if masked m VisualChangeDimmer \<and>
                  (\<not> approximately (p Dimmer) (v Dimmer) \<or> \<not> approximately (p BeamIntensity) (v BeamIntensity) \<or>
                   p BeamEnergy \<noteq> v BeamEnergy \<or> p SpotEnergy \<noteq> v SpotEnergy \<or> p MaterialEnergy \<noteq> v MaterialEnergy)
               then VisualChangeDimmer else 0) OR
              (if masked m VisualChangeColor \<and>
                  (p Red \<noteq> v Red \<or> p Green \<noteq> v Green \<or> p Blue \<noteq> v Blue \<or> \<not> approximately (p ColorGain) (v ColorGain))
               then VisualChangeColor else 0) OR
              (if masked m VisualChangeMaterial then VisualChangeMaterial else 0) OR
              (if masked m VisualChangeZoom \<and> (p HalfAngle \<noteq> v HalfAngle \<or> p FullAngle \<noteq> v FullAngle)
               then VisualChangeZoom else 0))"

definition effective_mask :: "nat \<Rightarrow> render_values \<Rightarrow> dense \<Rightarrow> (u32 \<times> dense) option" where
  "effective_mask i v ds =
     (if i < length (states ds)
      then let s = states ds ! i; m = changed_mask s v
           in Some (m, if m \<noteq> 0 then ds\<lparr>states := (states ds)[i := s\<lparr>os_previous := v, os_committed := True\<rparr>]\<rparr> else ds)
      else None)"

definition dynamic_mask :: u32 where
  "dynamic_mask = VisualChangeDimmer OR VisualChangeColor OR VisualChangeMaterial"

definition grouped :: "nat \<Rightarrow> dense \<Rightarrow> bool" where
  "grouped i ds \<longleftrightarrow> representatives ds \<noteq> [] \<and> representatives ds ! i \<ge> 0"

definition count_dynamic :: "u32 \<Rightarrow> dense \<Rightarrow> dense" where
  "count_dynamic m ds =
     (if masked m dynamic_mask then ds\<lparr>dynamic_candidates := dynamic_candidates ds + 1\<rparr> else ds)"

definition mark_group :: "nat \<Rightarrow> u32 \<Rightarrow> dense \<Rightarrow> dense" where
  "mark_group i m ds =
     (if grouped i ds \<and> masked m dynamic_mask
      then let r = nat (representatives ds ! i)
           in ds\<lparr>group_masks := (group_masks ds)[r := group_masks ds ! r OR (m AND dynamic_mask)]\<rparr>
      else ds)"

definition push_prepared :: "nat \<Rightarrow> u32 \<Rightarrow> render_values \<Rightarrow> dense \<Rightarrow> dense" where
  "push_prepared i m v ds =
     (if m \<noteq> 0 then ds\<lparr>prepared := prepared ds @ [\<lparr>po_index = i, po_mask = m, po_values = v\<rparr>]\<rparr> else ds)"

definition prepare_output :: "nat \<Rightarrow> dense \<Rightarrow> dense option" where
  "prepare_output i ds =
     (case render_values_at i ds of
        None \<Rightarrow> None
      | Some v \<Rightarrow>
          (case effective_mask i v ds of
             None \<Rightarrow> None
           | Some (m, ds) \<Rightarrow>
               Some (push_prepared i (if grouped i ds then m AND NOT dynamic_mask else m) v
                       (mark_group i m (count_dynamic m ds)))))"

definition prepare_group :: "nat \<Rightarrow> dense \<Rightarrow> dense option" where
  "prepare_group i ds =
     (if \<not> grouped i ds then Some ds
      else let r = nat (representatives ds ! i); m = group_masks ds ! r
           in if m = 0 then Some ds
              else case render_values_at r ds of
                     None \<Rightarrow> None
                   | Some v \<Rightarrow> Some (ds\<lparr>prepared_groups := prepared_groups ds @ [\<lparr>po_index = r, po_mask = m, po_values = v\<rparr>],
                                         group_masks := (group_masks ds)[r := 0]\<rparr>))"

definition prepare_snapshot :: "dense \<Rightarrow> dense option" where
  "prepare_snapshot ds =
     (let ds = (note_high_water ds)\<lparr>prepared := [], prepared_groups := [], dynamic_candidates := 0\<rparr>
      in case each prepare_output (dirty ds) ds of
           None \<Rightarrow> None
         | Some ds \<Rightarrow> each prepare_group (dirty ds) ds)"

definition finish_snapshot :: "u64 \<Rightarrow> dense \<Rightarrow> dense" where
  "finish_snapshot gen ds =
     (if gen \<noteq> generation ds then ds
      else ds\<lparr>states := fold (\<lambda>i ss. ss[i := (ss ! i)\<lparr>os_mask := 0\<rparr>]) (dirty ds) (states ds),
              dirty := [], prepared := [], candidates := 0, prepared_groups := []\<rparr>)"

end
