(* ===== verification/Render_Projection.thy ===== *)
theory Render_Projection
  imports Dense_State
begin

text \<open>
  \<open>RenderGroupProjection\<close> (\<open>presentation/render_group_projection.cpp\<close>): the renderer draws rows, each of one
  physical output or of a group whose light adds up. The sums of a group are kept up to date by
  the differences of the members that changed, and only rows that look different are published.

  Sums are real numbers; the conversion of a \<open>double\<close> to a \<open>float\<close> is the parameter \<open>narrow\<close>.
\<close>

datatype presentation_class = Individual | Aggregated | Instanced

record member_contribution =
  mc_values :: render_values
  mc_energy :: real
  mc_red :: real
  mc_green :: real
  mc_blue :: real
  mc_intensity :: real
  mc_valid :: bool

record render_row =
  rr_energy :: real
  rr_red :: real
  rr_green :: real
  rr_blue :: real
  rr_intensity :: real
  rr_representative :: nat
  rr_mask :: u32
  rr_presentation :: presentation_class
  rr_previous :: render_values
  rr_committed :: bool

record prepared_row =
  pw_index :: nat
  pw_mask :: u32
  pw_values :: render_values

record projection =
  physical_to_row :: "nat list"
  dirty_rows :: "nat list"
  members :: "member_contribution list"
  rows :: "render_row list"
  prepared_rows :: "prepared_row list"

definition blank_member :: member_contribution where
  "blank_member = \<lparr>mc_values = (\<lambda>_. 0), mc_energy = 0, mc_red = 0, mc_green = 0, mc_blue = 0, mc_intensity = 0, mc_valid = False\<rparr>"

definition blank_row :: render_row where
  "blank_row = \<lparr>rr_energy = 0, rr_red = 0, rr_green = 0, rr_blue = 0, rr_intensity = 0, rr_representative = 0, rr_mask = 0,
     rr_presentation = Individual, rr_previous = (\<lambda>_. 0), rr_committed = False\<rparr>"

definition empty_projection :: projection where
  "empty_projection = \<lparr>physical_to_row = [], dirty_rows = [], members = [], rows = [], prepared_rows = []\<rparr>"

subsection \<open>Setup\<close>

definition class_fits :: "nat list \<Rightarrow> presentation_class list \<Rightarrow> nat \<Rightarrow> bool" where
  "class_fits mapping classes r \<longleftrightarrow>
     count_list mapping r \<noteq> 0 \<and> (classes ! r = Individual \<or> classes ! r = Aggregated) \<and>
     \<not> (classes ! r = Individual \<and> count_list mapping r \<noteq> 1)"

definition install_projection :: "nat list \<Rightarrow> presentation_class list \<Rightarrow> projection \<Rightarrow> bool \<times> projection" where
  "install_projection mapping classes p =
     (if \<not> list_all (\<lambda>r. r < length classes) mapping \<or> \<not> list_all (class_fits mapping classes) [0..<length classes]
      then (False, p)
      else (True, \<lparr>physical_to_row = mapping, dirty_rows = [], members = replicate (length mapping) blank_member,
                   rows = fold (\<lambda>i rs. rs[mapping ! i := (rs ! (mapping ! i))\<lparr>rr_representative := i\<rparr>])
                     (rev [0..<length mapping]) (map (\<lambda>c. blank_row\<lparr>rr_presentation := c\<rparr>) classes),
                   prepared_rows = []\<rparr>))"

definition invalidate_rows :: "projection \<Rightarrow> projection" where
  "invalidate_rows p = p\<lparr>rows := map (\<lambda>r. r\<lparr>rr_committed := False\<rparr>) (rows p)\<rparr>"

subsection \<open>Contributions\<close>

definition to_linear :: "real \<Rightarrow> real" where
  "to_linear c = (let c = clamp c 0 1 in if c \<le> 4045 / 100000 then c / (1292 / 100) else ((c + 55 / 1000) / (1055 / 1000)) powr (24 / 10))"

definition encoded :: "(real \<Rightarrow> real) \<Rightarrow> real \<Rightarrow> real" where
  "encoded narrow c =
     (let c = clamp c 0 1
      in narrow (if c \<le> 31308 / 10000000 then 1292 / 100 * c else 1055 / 1000 * c powr (10 / 24) - 55 / 1000))"

definition contribution :: "render_values \<Rightarrow> member_contribution" where
  "contribution v =
     (let energy = max 0 (v BeamEnergy)
      in \<lparr>mc_values = v, mc_energy = energy, mc_red = to_linear (v Red) * energy, mc_green = to_linear (v Green) * energy,
          mc_blue = to_linear (v Blue) * energy, mc_intensity = max 0 (v BeamIntensity), mc_valid = True\<rparr>)"

definition exchange_member :: "member_contribution \<Rightarrow> member_contribution \<Rightarrow> render_row \<Rightarrow> render_row" where
  "exchange_member old new row =
     (if rr_presentation row = Aggregated
      then row\<lparr>rr_energy := rr_energy row + (mc_energy new - mc_energy old), rr_red := rr_red row + (mc_red new - mc_red old),
               rr_green := rr_green row + (mc_green new - mc_green old), rr_blue := rr_blue row + (mc_blue new - mc_blue old),
               rr_intensity := rr_intensity row + (mc_intensity new - mc_intensity old)\<rparr>
      else row)"

subsection \<open>Preparation\<close>

text \<open>One dirty output: skipped when its values are those of the last time and the renderer has them.\<close>

definition member_settled :: "member_contribution \<Rightarrow> render_row \<Rightarrow> render_values \<Rightarrow> u32 \<Rightarrow> bool" where
  "member_settled old row v pending \<longleftrightarrow>
     mc_valid old \<and> mc_values old = v \<and> rr_committed row \<and> \<not> masked pending VisualChangeBeamTopology"

definition row_mask :: "member_contribution \<Rightarrow> render_row \<Rightarrow> u32 \<Rightarrow> u32" where
  "row_mask old row pending =
     rr_mask row OR (pending OR VisualChangeDimmer OR VisualChangeColor OR VisualChangeMaterial) OR
     (if \<not> mc_valid old \<or> \<not> rr_committed row then VisualChangeBeamTopology OR VisualChangeZoom else 0)"

definition project_member :: "dense \<Rightarrow> nat \<Rightarrow> projection \<Rightarrow> projection option" where
  "project_member ds i p =
     (if i \<ge> length (members p) then Some p
      else case render_values_at i ds of
             None \<Rightarrow> None
           | Some v \<Rightarrow>
               let old = members p ! i; r = physical_to_row p ! i; row = rows p ! r; pending = os_mask (states ds ! i)
               in Some (if member_settled old row v pending then p
                        else p\<lparr>dirty_rows := (if rr_mask row = 0 then dirty_rows p @ [r] else dirty_rows p),
                               rows := (rows p)[r := exchange_member old (contribution v)
                                                        (row\<lparr>rr_mask := row_mask old row pending\<rparr>)],
                               members := (members p)[i := contribution v]\<rparr>))"

text \<open>The values of a group: its sums, the held colour while it is dark, the angles of its representative.\<close>

definition lit_up :: "render_row \<Rightarrow> bool" where
  "lit_up row \<longleftrightarrow> max (rr_energy row) 0 > 1 / 1000000000000"

definition group_color :: "(real \<Rightarrow> real) \<Rightarrow> render_row \<Rightarrow> render_field \<Rightarrow> real \<Rightarrow> real" where
  "group_color narrow row channel light =
     (if lit_up row then encoded narrow (light / max (rr_energy row) 0)
      else if rr_committed row then rr_previous row channel else 1)"

fun group_values :: "(real \<Rightarrow> real) \<Rightarrow> render_row \<Rightarrow> render_values \<Rightarrow> render_values" where
  "group_values narrow row v Red = group_color narrow row Red (rr_red row)"
| "group_values narrow row v Green = group_color narrow row Green (rr_green row)"
| "group_values narrow row v Blue = group_color narrow row Blue (rr_blue row)"
| "group_values narrow row v BeamEnergy = narrow (max (rr_energy row) 0)"
| "group_values narrow row v SpotEnergy = narrow (max (rr_energy row) 0)"
| "group_values narrow row v BeamIntensity = narrow (clamp (rr_intensity row) 0 50)"
| "group_values narrow row v Dimmer = (if narrow (clamp (rr_intensity row) 0 50) > 1 / 1000000 then 1 else 0)"
| "group_values narrow row v Visible = (if narrow (clamp (rr_intensity row) 0 50) > 1 / 1000000 then 1 else 0)"
| "group_values narrow row v MaterialEnergy = 0"
| "group_values narrow row v ColorGain = 1"
| "group_values narrow row v HalfAngle = v HalfAngle"
| "group_values narrow row v FullAngle = v FullAngle"

definition row_values :: "(real \<Rightarrow> real) \<Rightarrow> render_row \<Rightarrow> render_values \<Rightarrow> render_values" where
  "row_values narrow row v = (if rr_presentation row = Aggregated then group_values narrow row v else v)"

definition emit_row :: "(real \<Rightarrow> real) \<Rightarrow> dense \<Rightarrow> nat \<Rightarrow> projection \<Rightarrow> projection option" where
  "emit_row narrow ds r p =
     (let row = rows p ! r
      in case render_values_at (rr_representative row) ds of
           None \<Rightarrow> None
         | Some v \<Rightarrow>
             let v = row_values narrow row v
             in Some (if \<not> rr_committed row \<or> rr_previous row \<noteq> v \<or> masked (rr_mask row) VisualChangeBeamTopology
                      then p\<lparr>prepared_rows := prepared_rows p @ [\<lparr>pw_index = r, pw_mask = rr_mask row, pw_values = v\<rparr>],
                             rows := (rows p)[r := row\<lparr>rr_previous := v, rr_committed := True, rr_mask := 0\<rparr>]\<rparr>
                      else p\<lparr>rows := (rows p)[r := row\<lparr>rr_mask := 0\<rparr>]\<rparr>))"

definition prepare_rows :: "(real \<Rightarrow> real) \<Rightarrow> dense \<Rightarrow> projection \<Rightarrow> projection option" where
  "prepare_rows narrow ds p =
     (case each (project_member ds) (dirty ds) (p\<lparr>prepared_rows := [], dirty_rows := []\<rparr>) of
        None \<Rightarrow> None
      | Some p \<Rightarrow> each (emit_row narrow ds) (dirty_rows p) p)"

subsection \<open>A frame\<close>

text \<open>\<open>DirectPresentationPipeline::consume\<close> with the frame the runtime evaluated; then the rows are published
  and the snapshot finished.\<close>

definition consume_presentation ::
    "(real \<Rightarrow> real) \<Rightarrow> u64 \<Rightarrow> bool \<Rightarrow> i32 list \<Rightarrow> i32 list \<Rightarrow> sample list \<Rightarrow> dense \<times> projection \<Rightarrow>
      (bool \<times> dense \<times> projection) option" where
  "consume_presentation narrow gen same_schema d ints v = (\<lambda>(ds, p).
     if gen \<noteq> generation ds \<or> \<not> same_schema \<or> length (members p) \<noteq> length (bindings ds) then Some (False, ds, p)
     else case compose_sections gen d ints v ds of
            None \<Rightarrow> None
          | Some (False, ds) \<Rightarrow> Some (False, ds, p)
          | Some (True, ds) \<Rightarrow> map_option (\<lambda>p. (True, ds, p)) (prepare_rows narrow ds p))"

subsection \<open>A presentation session\<close>

text \<open>What \<open>presentation_state_godot.cpp\<close> does with both: \<open>install\<close> and \<open>install_render_rows\<close>; a frame, whose
  rows are published before the snapshot is finished; \<open>invalidate_renderer\<close>, after which the renderer has nothing
  (\<open>Replace\<close>); and a replay of the physical state alone (\<open>Replay\<close>). The third component is what the
  renderer shows of each row.\<close>

datatype event = Frame u64 bool "i32 list" "i32 list" "sample list" | Replace | Replay

definition show_rows :: "prepared_row list \<Rightarrow> (nat \<Rightarrow> render_values option) \<Rightarrow> nat \<Rightarrow> render_values option" where
  "show_rows ws shown = fold (\<lambda>w m. m(pw_index w \<mapsto> pw_values w)) ws shown"

definition session_start ::
    "u64 \<Rightarrow> output_binding list \<Rightarrow> target_binding list \<Rightarrow> nat list \<Rightarrow> presentation_class list \<Rightarrow>
      (dense \<times> projection \<times> (nat \<Rightarrow> render_values option)) option" where
  "session_start fresh outputs targets mapping classes =
     (case dense_install fresh outputs targets fresh_dense of
        (False, ds) \<Rightarrow> None
      | (True, ds) \<Rightarrow>
          if length mapping \<noteq> length (bindings ds) then None
          else case install_projection mapping classes empty_projection of
                 (False, p) \<Rightarrow> None
               | (True, p) \<Rightarrow> Some (invalidate_renderer ds, p, (\<lambda>_. None)))"

fun session_step ::
    "(real \<Rightarrow> real) \<Rightarrow> event \<Rightarrow> dense \<times> projection \<times> (nat \<Rightarrow> render_values option) \<Rightarrow>
      (dense \<times> projection \<times> (nat \<Rightarrow> render_values option)) option" where
  "session_step narrow (Frame gen same d ints v) (ds, p, shown) =
     (case consume_presentation narrow gen same d ints v (ds, p) of
        None \<Rightarrow> None
      | Some (False, ds, p) \<Rightarrow> Some (ds, p, shown)
      | Some (True, ds, p) \<Rightarrow> Some (finish_snapshot gen ds, p, show_rows (prepared_rows p) shown))"
| "session_step narrow Replace (ds, p, shown) = Some (invalidate_renderer ds, invalidate_rows p, (\<lambda>_. None))"
| "session_step narrow Replay (ds, p, shown) = Some (invalidate_renderer ds, p, shown)"

end
