(* ===== verification/Dense_Refinement.thy ===== *)
theory Dense_Refinement
  imports Dense_State
begin

text \<open>
  What \<^theory_text>\<open>Dense_State\<close> guarantees: the dirty list holds each output with a pending mask exactly once, an
  accepted frame is read inside its buffers, and every output ends with the last row that was routed to it.
\<close>

subsection \<open>Invariant\<close>

definition routes_ok :: "dense \<Rightarrow> bool" where
  "routes_ok ds \<longleftrightarrow> (\<forall>k is. routes ds k = Some is \<longrightarrow> distinct is \<and> (\<forall>i\<in>set is. i < length (states ds)))"

definition dirty_ok :: "dense \<Rightarrow> bool" where
  "dirty_ok ds \<longleftrightarrow> length (states ds) = length (bindings ds) \<and> distinct (dirty ds) \<and>
     set (dirty ds) = {i. i < length (states ds) \<and> os_mask (states ds ! i) \<noteq> 0}"

definition groups_ok :: "dense \<Rightarrow> bool" where
  "groups_ok ds \<longleftrightarrow> representatives ds = [] \<or>
     length (representatives ds) = length (states ds) \<and> length (group_masks ds) = length (states ds) \<and>
     (\<forall>i<length (states ds). - 1 \<le> representatives ds ! i \<and> representatives ds ! i < int (length (states ds)))"

definition groups_clean :: "dense \<Rightarrow> bool" where
  "groups_clean ds \<longleftrightarrow> (\<forall>m\<in>set (group_masks ds). m = 0)"

definition dense_ok :: "dense \<Rightarrow> bool" where
  "dense_ok ds \<longleftrightarrow> dirty_ok ds \<and> routes_ok ds \<and> groups_ok ds \<and> groups_clean ds"

lemma routes_okD:
  assumes "dense_ok ds" and "routes ds k = Some is"
  shows "distinct is" and "set is \<subseteq> {..<length (states ds)}"
  using assms by (auto simp: dense_ok_def routes_ok_def)

lemma dense_ok_length: "dense_ok ds \<Longrightarrow> length (bindings ds) = length (states ds)"
  by (simp add: dense_ok_def dirty_ok_def)

named_theorems dense_frame \<open>fields that an operation leaves alone\<close>

lemma note_high_water_fields [dense_frame]:
  "generation (note_high_water ds) = generation ds" "bindings (note_high_water ds) = bindings ds"
  "states (note_high_water ds) = states ds" "dirty (note_high_water ds) = dirty ds"
  "routes (note_high_water ds) = routes ds" "representatives (note_high_water ds) = representatives ds"
  "group_masks (note_high_water ds) = group_masks ds" "prepared (note_high_water ds) = prepared ds"
  "unresolved_rows (note_high_water ds) = unresolved_rows ds"
  by (simp_all add: note_high_water_def)

lemma count_candidate_fields [dense_frame]:
  "generation (count_candidate ds) = generation ds" "bindings (count_candidate ds) = bindings ds"
  "states (count_candidate ds) = states ds" "dirty (count_candidate ds) = dirty ds"
  "routes (count_candidate ds) = routes ds" "representatives (count_candidate ds) = representatives ds"
  "group_masks (count_candidate ds) = group_masks ds" "unresolved_rows (count_candidate ds) = unresolved_rows ds"
  by (simp_all add: count_candidate_def)

lemma touch_fields [dense_frame]:
  "generation (touch i ds) = generation ds" "bindings (touch i ds) = bindings ds"
  "states (touch i ds) = states ds" "routes (touch i ds) = routes ds"
  "representatives (touch i ds) = representatives ds" "group_masks (touch i ds) = group_masks ds"
  "unresolved_rows (touch i ds) = unresolved_rows ds"
  "dirty (touch i ds) = (if os_mask (states ds ! i) = 0 then dirty ds @ [i] else dirty ds)"
  by (simp_all add: touch_def)

lemma or_eq_0: "(a :: 'a::len word) OR b = 0 \<longleftrightarrow> a = 0 \<and> b = 0"
  by (auto simp: bit_eq_iff bit_or_iff)

lemma domain_bit_nonzero [simp]: "domain_bit sect \<noteq> 0"
  by (simp add: domain_bit_def change_defs)

text \<open>The one way an output changes between snapshots: it is on the list, and its mask is not zero.\<close>

lemma dirty_ok_store:
  assumes "dirty_ok ds" and "i < length (states ds)" and "os_mask s \<noteq> 0"
    and "states ds' = (states ds)[i := s]" and "bindings ds' = bindings ds"
    and "dirty ds' = (if os_mask (states ds ! i) = 0 then dirty ds @ [i] else dirty ds)"
  shows "dirty_ok ds'"
  using assms unfolding dirty_ok_def by (auto simp: nth_list_update split: if_splits)

lemma update_output_fields [dense_frame]:
  "generation (update_output i sect m v ds) = generation ds" "bindings (update_output i sect m v ds) = bindings ds"
  "routes (update_output i sect m v ds) = routes ds" "representatives (update_output i sect m v ds) = representatives ds"
  "group_masks (update_output i sect m v ds) = group_masks ds"
  "unresolved_rows (update_output i sect m v ds) = unresolved_rows ds"
  "length (states (update_output i sect m v ds)) = length (states ds)"
  by (simp_all add: update_output_def Let_def dense_frame)

lemma store_fields_mask [simp]: "os_mask (store_fields sect v s) = os_mask s"
  by (simp add: store_fields_def)

definition with_row :: "i32 \<Rightarrow> u32 \<Rightarrow> real list \<Rightarrow> output_state \<Rightarrow> output_state" where
  "with_row sect m v s = (store_fields sect v s)\<lparr>os_mask := os_mask s OR (m OR domain_bit sect)\<rparr>"

lemma update_output_states:
  "states (update_output i sect m v ds) = (states ds)[i := with_row sect m v (states ds ! i)]"
  by (simp add: update_output_def Let_def dense_frame with_row_def)

lemma update_output_dirty_ok:
  assumes "dirty_ok ds" and "i < length (states ds)"
  shows "dirty_ok (update_output i sect m v ds)"
  by (rule dirty_ok_store [OF assms, where s = "with_row sect m v (states ds ! i)"])
    (simp_all add: update_output_states dense_frame with_row_def or_eq_0, simp add: update_output_def Let_def dense_frame)

lemma dense_ok_same:
  assumes "dense_ok ds" and "dirty_ok ds'" and "length (states ds') = length (states ds)" and "routes ds' = routes ds"
    and "representatives ds' = representatives ds" and "group_masks ds' = group_masks ds"
  shows "dense_ok ds'"
  using assms by (simp add: dense_ok_def routes_ok_def groups_ok_def groups_clean_def)

lemma update_output_ok:
  assumes "dense_ok ds" and "i < length (states ds)"
  shows "dense_ok (update_output i sect m v ds)"
proof (rule dense_ok_same [OF assms(1)])
  show "dirty_ok (update_output i sect m v ds)"
    using assms by (intro update_output_dirty_ok) (simp_all add: dense_ok_def)
qed (simp_all add: dense_frame)

lemma note_high_water_ok [simp]: "dense_ok (note_high_water ds) = dense_ok ds"
  by (simp add: dense_ok_def dirty_ok_def routes_ok_def groups_ok_def groups_clean_def dense_frame)

lemma unresolved_rows_ok [simp]: "dense_ok (ds\<lparr>unresolved_rows := n\<rparr>) = dense_ok ds"
  by (simp add: dense_ok_def dirty_ok_def routes_ok_def groups_ok_def groups_clean_def)

subsection \<open>Renderer invalidation\<close>

lemma invalidate_output_fields [dense_frame]:
  "generation (invalidate_output i ds) = generation ds" "bindings (invalidate_output i ds) = bindings ds"
  "routes (invalidate_output i ds) = routes ds" "representatives (invalidate_output i ds) = representatives ds"
  "group_masks (invalidate_output i ds) = group_masks ds"
  "length (states (invalidate_output i ds)) = length (states ds)"
  by (simp_all add: invalidate_output_def Let_def dense_frame)

lemma invalidate_output_states:
  "states (invalidate_output i ds) =
     (states ds)[i := (states ds ! i)\<lparr>os_mask := os_mask (states ds ! i) OR VisualChangeBeamTopology, os_committed := False\<rparr>]"
  by (simp add: invalidate_output_def Let_def dense_frame)

lemma invalidate_output_ok:
  assumes "dense_ok ds" and "i < length (states ds)"
  shows "dense_ok (invalidate_output i ds)"
proof -
  have "dirty_ok (invalidate_output i ds)"
    by (rule dirty_ok_store [where ds = ds and i = i])
      (use assms in \<open>simp_all add: dense_ok_def invalidate_output_states dense_frame or_eq_0 change_defs\<close>,
        simp add: invalidate_output_def Let_def dense_frame)
  then show ?thesis by (intro dense_ok_same [OF assms(1)]) (simp_all add: dense_frame)
qed

lemma invalidate_outputs:
  assumes "dense_ok ds" and "set is \<subseteq> {..<length (states ds)}"
  shows "dense_ok (fold invalidate_output is ds) \<and> length (states (fold invalidate_output is ds)) = length (states ds) \<and>
    bindings (fold invalidate_output is ds) = bindings ds \<and> generation (fold invalidate_output is ds) = generation ds \<and>
    (\<forall>j. os_mask (states ds ! j) \<noteq> 0 \<or> j \<in> set is \<longrightarrow> os_mask (states (fold invalidate_output is ds) ! j) \<noteq> 0) \<and>
    (\<forall>j x. values_of (states (fold invalidate_output is ds) ! j) x = values_of (states ds ! j) x)"
  using assms
proof (induction "is" arbitrary: ds)
  case (Cons i "is")
  have i: "i < length (states ds)" using Cons.prems(2) by simp
  have same: "values_of (states (invalidate_output i ds) ! j) x = values_of (states ds ! j) x" for j x
  proof
    show "values_of (states (invalidate_output i ds) ! j) x f = values_of (states ds ! j) x f" for f
      using i by (cases f) (auto simp: invalidate_output_states nth_list_update)
  qed
  have kept: "os_mask (states ds ! j) \<noteq> 0 \<or> j = i \<Longrightarrow> os_mask (states (invalidate_output i ds) ! j) \<noteq> 0" for j
    using i by (auto simp: invalidate_output_states nth_list_update or_eq_0 change_defs)
  show ?case
    using Cons.IH [of "invalidate_output i ds"] Cons.prems invalidate_output_ok [OF Cons.prems(1) i] same kept
    by (auto simp: dense_frame)
qed simp

lemma invalidate_renderer_ok:
  assumes "dense_ok ds"
  shows "dense_ok (invalidate_renderer ds)" and "set (dirty (invalidate_renderer ds)) = {..<length (states ds)}"
    and "bindings (invalidate_renderer ds) = bindings ds" "length (states (invalidate_renderer ds)) = length (states ds)"
    and "render_values_at i (invalidate_renderer ds) = render_values_at i ds"
    and "generation (invalidate_renderer ds) = generation ds"
proof -
  define ds' where "ds' = fold invalidate_output [0..<length (states ds)] ds"
  have "set [0..<length (states ds)] \<subseteq> {..<length (states ds)}" by auto
  note inv = invalidate_outputs [OF assms this, folded ds'_def]
  have inv: "dense_ok ds'" "length (states ds') = length (states ds)" "bindings ds' = bindings ds"
    "generation ds' = generation ds" "\<And>j. j < length (states ds) \<Longrightarrow> os_mask (states ds' ! j) \<noteq> 0"
    "\<And>j x. values_of (states ds' ! j) x = values_of (states ds ! j) x"
    using inv by auto
  have r: "invalidate_renderer ds = note_high_water ds'" by (simp add: invalidate_renderer_def ds'_def)
  show "dense_ok (invalidate_renderer ds)" by (simp add: r inv(1))
  show "length (states (invalidate_renderer ds)) = length (states ds)" by (simp add: r dense_frame inv(2))
  show "bindings (invalidate_renderer ds) = bindings ds" by (simp add: r dense_frame inv(3))
  show "generation (invalidate_renderer ds) = generation ds" by (simp add: r dense_frame inv(4))
  have "dirty_ok ds'" using inv(1) by (simp add: dense_ok_def)
  then show "set (dirty (invalidate_renderer ds)) = {..<length (states ds)}"
    using inv(2,5) by (auto simp: dirty_ok_def r dense_frame)
  show "render_values_at i (invalidate_renderer ds) = render_values_at i ds"
    by (simp add: render_values_at_def r dense_frame inv(2,3,6))
qed

subsection \<open>Setup\<close>

lemma add_routes_ok:
  assumes "add_routes n ts rs = Some rs'" and "\<forall>k is. rs k = Some is \<longrightarrow> distinct is \<and> (\<forall>i\<in>set is. i < n)"
  shows "\<forall>k is. rs' k = Some is \<longrightarrow> distinct is \<and> (\<forall>i\<in>set is. i < n)"
  using assms
proof (induction ts arbitrary: rs)
  case (Cons t ts)
  define key where "key = target_key (target_section t) (target_id t)"
  define old where "old = (case rs key of None \<Rightarrow> [] | Some is \<Rightarrow> is)"
  define new where "new = (if output_index t \<in> set old then old else old @ [output_index t])"
  have step: "add_routes n ts (rs(key \<mapsto> new)) = Some rs'" "output_index t < n"
    using Cons.prems(1) by (auto simp: key_def old_def new_def Let_def split: if_splits)
  have "distinct old \<and> (\<forall>i\<in>set old. i < n)" using Cons.prems(2) by (cases "rs key") (simp_all add: old_def)
  then have "distinct new \<and> (\<forall>i\<in>set new. i < n)" using step(2) by (simp add: new_def)
  with Cons.prems(2) have "\<forall>k is. (rs(key \<mapsto> new)) k = Some is \<longrightarrow> distinct is \<and> (\<forall>i\<in>set is. i < n)" by simp
  with step(1) show ?case by (rule Cons.IH)
qed simp

lemma fresh_dense_ok: "dense_ok fresh_dense" "dense_ok (dense_clear fresh ds)"
  by (simp_all add: dense_ok_def dirty_ok_def routes_ok_def groups_ok_def groups_clean_def dense_clear_def fresh_dense_def)

lemma dense_install_ok:
  assumes "dense_ok ds"
  shows "dense_ok (snd (dense_install fresh outputs targets ds))"
proof (cases "add_routes (length outputs) targets (\<lambda>_. None)")
  case (Some rs)
  have r: "\<forall>k is. rs k = Some is \<longrightarrow> distinct is \<and> (\<forall>i\<in>set is. i < length outputs)"
    by (rule add_routes_ok [OF Some]) simp
  define ds' where "ds' = (dense_clear fresh ds)\<lparr>bindings := outputs,
    states := replicate (length outputs) blank_output, routes := rs\<rparr>"
  have "dirty_ok ds'" "groups_ok ds'" "groups_clean ds'"
    by (simp_all add: ds'_def dirty_ok_def groups_ok_def groups_clean_def dense_clear_def fresh_dense_def blank_output_def)
  moreover have "routes_ok ds'" using r by (simp add: ds'_def routes_ok_def)
  ultimately show ?thesis using assms Some by (simp add: dense_install_def dense_ok_def ds'_def)
qed (use assms in \<open>simp add: dense_install_def\<close>)

lemma install_groups_ok:
  assumes "dense_ok ds"
  shows "dense_ok (snd (install_groups reps ds))"
proof -
  define ds' where "ds' = ds\<lparr>representatives := reps, group_masks := replicate (length (states ds)) 0\<rparr>"
  have "dense_ok ds'" if "length reps = length (states ds)" "list_all (group_valid ds reps) [0..<length reps]"
  proof -
    have "dirty_ok ds" "routes_ok ds" using assms by (simp_all add: dense_ok_def)
    then have "dirty_ok ds'" "routes_ok ds'" by (simp_all add: ds'_def dirty_ok_def routes_ok_def)
    moreover have "groups_ok ds'" "groups_clean ds'"
      using that by (auto simp: ds'_def groups_ok_def groups_clean_def list_all_iff group_valid_def Let_def)
    ultimately show ?thesis by (simp add: dense_ok_def)
  qed
  then show ?thesis using assms invalidate_renderer_ok(1) [of ds'] by (simp add: install_groups_def ds'_def)
qed

text \<open>Section and target determine the key.\<close>

lemma target_key_inject: "target_key s t = target_key s' t' \<longleftrightarrow> s = s' \<and> t = t'"
proof
  assume eq: "target_key s t = target_key s' t'"
  have low: "ucast (target_key a b) = b" for a b :: i32
    by (rule bit_word_eqI) (auto simp: target_key_def bit_simps)
  have high: "ucast (drop_bit 32 (target_key a b)) = a" for a b :: i32
    by (rule bit_word_eqI) (auto simp: target_key_def bit_simps dest: bit_imp_le_length)
  show "s = s' \<and> t = t'" using low [of s t] low [of s' t'] high [of s t] high [of s' t'] eq by metis
qed simp

subsection \<open>Snapshots\<close>

definition snapshot_ok :: "dense \<Rightarrow> bool" where
  "snapshot_ok ds \<longleftrightarrow> dirty_ok ds \<and> routes_ok ds \<and> groups_ok ds"

definition same_frame :: "dense \<Rightarrow> dense \<Rightarrow> bool" where
  "same_frame ds ds' \<longleftrightarrow> generation ds' = generation ds \<and> bindings ds' = bindings ds \<and> dirty ds' = dirty ds \<and>
     routes ds' = routes ds \<and> representatives ds' = representatives ds \<and>
     length (group_masks ds') = length (group_masks ds) \<and> map os_mask (states ds') = map os_mask (states ds)"

lemma same_frame_length: "same_frame ds ds' \<Longrightarrow> length (states ds') = length (states ds)"
  unfolding same_frame_def by (metis length_map)

lemma same_frame_mask: "same_frame ds ds' \<Longrightarrow> i < length (states ds) \<Longrightarrow> os_mask (states ds' ! i) = os_mask (states ds ! i)"
  using same_frame_length [of ds ds'] unfolding same_frame_def by (metis nth_map)

lemma same_frame_ok:
  assumes "same_frame ds ds'" and "snapshot_ok ds"
  shows "snapshot_ok ds'"
proof -
  note len = same_frame_length [OF assms(1)]
  have "{i. i < length (states ds') \<and> os_mask (states ds' ! i) \<noteq> 0} =
      {i. i < length (states ds) \<and> os_mask (states ds ! i) \<noteq> 0}"
    using same_frame_mask [OF assms(1)] by (auto simp: len)
  then have "dirty_ok ds'" using assms len by (simp add: same_frame_def snapshot_ok_def dirty_ok_def)
  moreover have "routes_ok ds'" using assms len by (simp add: same_frame_def snapshot_ok_def routes_ok_def)
  moreover have "groups_ok ds'" using assms len by (simp add: same_frame_def snapshot_ok_def groups_ok_def)
  ultimately show ?thesis by (simp add: snapshot_ok_def)
qed

lemma same_frame_trans: "same_frame a b \<Longrightarrow> same_frame b c \<Longrightarrow> same_frame a c"
  by (simp add: same_frame_def)

lemma map_update_same: "f x = f (xs ! i) \<Longrightarrow> map f (xs[i := x]) = map f xs"
  by (rule nth_equalityI) (auto simp: nth_update)

lemma prepare_frames:
  "same_frame ds (count_dynamic m ds)" "same_frame ds (mark_group i m ds)" "same_frame ds (push_prepared i m v ds)"
  "effective_mask i v ds = Some (m, ds') \<Longrightarrow> same_frame ds ds'"
  by (auto simp: same_frame_def count_dynamic_def mark_group_def push_prepared_def effective_mask_def Let_def
      map_update_same split: if_splits)

lemma prepare_output_ok:
  assumes "i < length (states ds)"
  shows "\<exists>ds'. prepare_output i ds = Some ds' \<and> same_frame ds ds' \<and>
    (\<forall>r. group_masks ds' ! r \<noteq> group_masks ds ! r \<longrightarrow> grouped i ds \<and> nat (representatives ds ! i) = r)"
proof -
  obtain v where v: "render_values_at i ds = Some v" using assms by (simp add: render_values_at_def)
  obtain m ds1 where m: "effective_mask i v ds = Some (m, ds1)" using assms by (auto simp: effective_mask_def Let_def)
  have gm: "group_masks ds1 = group_masks ds" "representatives ds1 = representatives ds"
    using m by (auto simp: effective_mask_def Let_def split: if_splits)
  define ds2 where "ds2 = mark_group i m (count_dynamic m ds1)"
  define ds3 where "ds3 = push_prepared i (if grouped i ds1 then m AND NOT dynamic_mask else m) v ds2"
  have "prepare_output i ds = Some ds3" by (simp add: prepare_output_def v m ds2_def ds3_def)
  moreover have "same_frame ds ds3"
    unfolding ds3_def ds2_def using prepare_frames(1-3) prepare_frames(4) [OF m] by (meson same_frame_trans)
  moreover have "group_masks ds3 ! r = group_masks ds ! r" if "\<not> (grouped i ds \<and> nat (representatives ds ! i) = r)" for r
    using that gm by (auto simp: ds3_def ds2_def push_prepared_def mark_group_def count_dynamic_def grouped_def Let_def)
  ultimately show ?thesis by blast
qed

lemma same_frame_grouped:
  "same_frame ds ds' \<Longrightarrow> grouped i ds' = grouped i ds" "same_frame ds ds' \<Longrightarrow> representatives ds' = representatives ds"
  by (simp_all add: same_frame_def grouped_def)

lemma prepare_outputs_ok:
  assumes "\<forall>i\<in>set is. i < length (states ds)"
  shows "\<exists>ds'. each prepare_output is ds = Some ds' \<and> same_frame ds ds' \<and>
    (\<forall>r. group_masks ds' ! r \<noteq> group_masks ds ! r \<longrightarrow> (\<exists>i\<in>set is. grouped i ds \<and> nat (representatives ds ! i) = r))"
  using assms
proof (induction "is" arbitrary: ds)
  case (Cons i "is")
  obtain ds1 where ds1: "prepare_output i ds = Some ds1" "same_frame ds ds1"
    "\<And>r. group_masks ds1 ! r \<noteq> group_masks ds ! r \<Longrightarrow> grouped i ds \<and> nat (representatives ds ! i) = r"
    using prepare_output_ok [of i ds] Cons.prems by auto
  have "\<forall>i\<in>set is. i < length (states ds1)" using Cons.prems same_frame_length [OF ds1(2)] by simp
  from Cons.IH [OF this] obtain ds2 where ds2: "each prepare_output is ds1 = Some ds2" "same_frame ds1 ds2"
    "\<And>r. group_masks ds2 ! r \<noteq> group_masks ds1 ! r \<Longrightarrow> \<exists>i\<in>set is. grouped i ds \<and> nat (representatives ds ! i) = r"
    by (auto simp: same_frame_grouped [OF ds1(2)])
  have "\<exists>j\<in>set (i # is). grouped j ds \<and> nat (representatives ds ! j) = r" if "group_masks ds2 ! r \<noteq> group_masks ds ! r" for r
    using that ds1(3) [of r] ds2(3) [of r] by (cases "group_masks ds1 ! r = group_masks ds ! r") auto
  then show ?case using ds1(1) ds2(1) same_frame_trans [OF ds1(2) ds2(2)] by simp
qed (simp add: same_frame_def)

lemma prepare_groups_ok:
  assumes "snapshot_ok ds" and "\<forall>i\<in>set is. i < length (states ds)"
    and "\<And>r. r < length (group_masks ds) \<Longrightarrow> group_masks ds ! r \<noteq> 0 \<Longrightarrow>
      \<exists>i\<in>set is. grouped i ds \<and> nat (representatives ds ! i) = r"
  shows "\<exists>ds'. each prepare_group is ds = Some ds' \<and> same_frame ds ds' \<and> groups_clean ds'"
  using assms
proof (induction "is" arbitrary: ds)
  case Nil
  then have "\<forall>m\<in>set (group_masks ds). m = 0" by (metis in_set_conv_nth empty_iff empty_set)
  then show ?case by (simp add: same_frame_def groups_clean_def)
next
  case (Cons i "is")
  define r where "r = nat (representatives ds ! i)"
  show ?case
  proof (cases "grouped i ds \<and> group_masks ds ! r \<noteq> 0")
    case True
    have "r < length (states ds) \<and> r < length (group_masks ds)"
      using True Cons.prems(1,2) by (auto simp: snapshot_ok_def groups_ok_def grouped_def r_def)
    then obtain v where v: "render_values_at r ds = Some v" and r: "r < length (group_masks ds)"
      by (auto simp: render_values_at_def)
    define ds1 where "ds1 = ds\<lparr>prepared_groups := prepared_groups ds @ [\<lparr>po_index = r, po_mask = group_masks ds ! r, po_values = v\<rparr>],
        group_masks := (group_masks ds)[r := 0]\<rparr>"
    have step: "prepare_group i ds = Some ds1" using True v by (simp add: prepare_group_def ds1_def r_def Let_def)
    have sf: "same_frame ds ds1" by (simp add: same_frame_def ds1_def)
    have "\<exists>ds'. each prepare_group is ds1 = Some ds' \<and> same_frame ds1 ds' \<and> groups_clean ds'"
    proof (rule Cons.IH)
      show "snapshot_ok ds1" by (rule same_frame_ok [OF sf Cons.prems(1)])
      show "\<forall>i\<in>set is. i < length (states ds1)" using Cons.prems(2) by (simp add: ds1_def)
      fix q
      assume "q < length (group_masks ds1)" and "group_masks ds1 ! q \<noteq> 0"
      then have "q \<noteq> r" "q < length (group_masks ds)" "group_masks ds ! q \<noteq> 0" by (auto simp: ds1_def nth_update r split: if_splits)
      with Cons.prems(3) [of q] show "\<exists>i\<in>set is. grouped i ds1 \<and> nat (representatives ds1 ! i) = q"
        by (auto simp: r_def same_frame_grouped [OF sf])
    qed
    then show ?thesis using step same_frame_trans [OF sf] by auto
  next
    case False
    have "\<exists>ds'. each prepare_group is ds = Some ds' \<and> same_frame ds ds' \<and> groups_clean ds'"
    proof (rule Cons.IH [OF Cons.prems(1)])
      show "\<forall>i\<in>set is. i < length (states ds)" using Cons.prems(2) by simp
      fix q
      assume "q < length (group_masks ds)" and "group_masks ds ! q \<noteq> 0"
      with Cons.prems(3) [of q] False show "\<exists>i\<in>set is. grouped i ds \<and> nat (representatives ds ! i) = q"
        by (auto simp: r_def)
    qed
    moreover have "prepare_group i ds = Some ds" using False by (auto simp: prepare_group_def r_def Let_def)
    ultimately show ?thesis by simp
  qed
qed

lemma prepare_snapshot_ok:
  assumes "dense_ok ds"
  shows "\<exists>ds'. prepare_snapshot ds = Some ds' \<and> dense_ok ds' \<and> dirty ds' = dirty ds"
proof -
  define ds0 where "ds0 = (note_high_water ds)\<lparr>prepared := [], prepared_groups := [], dynamic_candidates := 0\<rparr>"
  have ok0: "snapshot_ok ds0" and clean: "groups_clean ds0" and d0: "dirty ds0 = dirty ds"
    using assms by (auto simp: ds0_def dense_ok_def snapshot_ok_def dirty_ok_def routes_ok_def groups_ok_def groups_clean_def dense_frame)
  then have all: "\<forall>i\<in>set (dirty ds). i < length (states ds0)" by (auto simp: snapshot_ok_def dirty_ok_def)
  from prepare_outputs_ok [OF this] obtain ds1 where ds1: "each prepare_output (dirty ds) ds0 = Some ds1" "same_frame ds0 ds1"
    "\<And>r. group_masks ds1 ! r \<noteq> group_masks ds0 ! r \<Longrightarrow> \<exists>i\<in>set (dirty ds). grouped i ds0 \<and> nat (representatives ds0 ! i) = r"
    by blast
  have lgm: "length (group_masks ds1) = length (group_masks ds0)" using ds1(2) by (simp add: same_frame_def)
  have "\<exists>i\<in>set (dirty ds). grouped i ds1 \<and> nat (representatives ds1 ! i) = r"
    if "r < length (group_masks ds1)" "group_masks ds1 ! r \<noteq> 0" for r
  proof -
    have "group_masks ds0 ! r = 0" using clean that(1) by (simp add: groups_clean_def lgm)
    then show ?thesis using ds1(3) [of r] that(2) by (simp add: same_frame_grouped [OF ds1(2)])
  qed
  moreover have "\<forall>i\<in>set (dirty ds). i < length (states ds1)" using all by (simp add: same_frame_length [OF ds1(2)])
  ultimately obtain ds2 where ds2: "each prepare_group (dirty ds) ds1 = Some ds2" "same_frame ds1 ds2" "groups_clean ds2"
    using prepare_groups_ok [OF same_frame_ok [OF ds1(2) ok0], of "dirty ds"] by blast
  have sf: "same_frame ds0 ds2" by (rule same_frame_trans [OF ds1(2) ds2(2)])
  then have "dense_ok ds2" using same_frame_ok [OF sf ok0] ds2(3) by (simp add: dense_ok_def snapshot_ok_def)
  moreover have "dirty ds2 = dirty ds" using sf d0 by (simp add: same_frame_def)
  moreover have "prepare_snapshot ds = Some ds2"
    using ds1 ds2(1) d0 by (simp add: prepare_snapshot_def ds0_def [symmetric] Let_def same_frame_def)
  ultimately show ?thesis by blast
qed

lemma cleared_masks:
  "length (fold (\<lambda>i ss. ss[i := (ss ! i)\<lparr>os_mask := 0\<rparr>]) is ss) = length ss \<and>
   (\<forall>j<length ss. fold (\<lambda>i ss. ss[i := (ss ! i)\<lparr>os_mask := 0\<rparr>]) is ss ! j =
      (if j \<in> set is then (ss ! j)\<lparr>os_mask := 0\<rparr> else ss ! j))"
  by (induction "is" arbitrary: ss) (auto simp: nth_update)

lemma finish_snapshot_ok:
  assumes "dense_ok ds"
  shows "dense_ok (finish_snapshot gen ds)" and "bindings (finish_snapshot gen ds) = bindings ds"
    and "length (states (finish_snapshot gen ds)) = length (states ds)"
    and "render_values_at i (finish_snapshot gen ds) = render_values_at i ds"
    and "gen = generation ds \<Longrightarrow> dirty (finish_snapshot gen ds) = []"
    and "generation (finish_snapshot gen ds) = generation ds"
proof -
  note masks = cleared_masks [of "dirty ds" "states ds"]
  have d: "set (dirty ds) = {i. i < length (states ds) \<and> os_mask (states ds ! i) \<noteq> 0}"
    using assms by (simp add: dense_ok_def dirty_ok_def)
  show "dense_ok (finish_snapshot gen ds)"
  proof (cases "gen = generation ds")
    case True
    have "os_mask (fold (\<lambda>i ss. ss[i := (ss ! i)\<lparr>os_mask := 0\<rparr>]) (dirty ds) (states ds) ! j) = 0" if "j < length (states ds)" for j
      using masks d that by auto
    then have "dirty_ok (finish_snapshot gen ds)"
      using assms True masks by (auto simp: finish_snapshot_def dirty_ok_def dense_ok_def)
    then show ?thesis using True masks by (intro dense_ok_same [OF assms]) (simp_all add: finish_snapshot_def)
  qed (use assms in \<open>simp add: finish_snapshot_def\<close>)
  show "bindings (finish_snapshot gen ds) = bindings ds" by (simp add: finish_snapshot_def)
  show "generation (finish_snapshot gen ds) = generation ds" by (simp add: finish_snapshot_def)
  show "length (states (finish_snapshot gen ds)) = length (states ds)" using masks by (simp add: finish_snapshot_def)
  have "values_of (s\<lparr>os_mask := 0\<rparr>) x = values_of s x" for s x
  proof
    show "values_of (s\<lparr>os_mask := 0\<rparr>) x f = values_of s x f" for f by (cases f) simp_all
  qed
  then show "render_values_at i (finish_snapshot gen ds) = render_values_at i ds"
    using masks by (simp add: render_values_at_def finish_snapshot_def)
  show "gen = generation ds \<Longrightarrow> dirty (finish_snapshot gen ds) = []" by (simp add: finish_snapshot_def)
qed

subsection \<open>Rows of a frame\<close>

type_synonym frame_row = "i32 \<times> i32 \<times> u32 \<times> real list"

definition row_at :: "i32 \<Rightarrow> nat \<Rightarrow> nat \<Rightarrow> i32 list \<Rightarrow> sample list \<Rightarrow> nat \<Rightarrow> frame_row" where
  "row_at sect io fo ints v row =
     (sect, ints ! (io + row * 3 + 1), ints ! (io + row * 3 + 2),
      map the (take (section_stride sect) (drop (fo + row * section_stride sect) v)))"

fun frame_rows :: "i32 list \<Rightarrow> i32 list \<Rightarrow> sample list \<Rightarrow> frame_row list" where
  "frame_rows (sect # rows # io # fo # rest # d) ints v =
     (if lit_section sect then map (row_at sect (nat (sint io)) (nat (sint fo)) ints v) [0..<nat (sint rows)] else []) @
     frame_rows d ints v"
| "frame_rows _ ints v = []"

definition row_effect :: "frame_row \<Rightarrow> dense \<Rightarrow> dense" where
  "row_effect = (\<lambda>(sect, target, m, x) ds.
     case routes ds (target_key sect target) of
       None \<Rightarrow> ds\<lparr>unresolved_rows := unresolved_rows ds + 1\<rparr>
     | Some is \<Rightarrow> fold (\<lambda>i. update_output i sect m x) is ds)"

lemma finite_samples_Some:
  "n \<le> length v \<Longrightarrow> None \<notin> set (take n v) \<Longrightarrow> finite_samples n v = Some (Some (map the (take n v)))"
proof (induction n arbitrary: v)
  case (Suc n)
  then obtain x v' where "v = Some x # v'" by (cases v; cases "hd v") auto
  then show ?case using Suc by simp
qed simp

lemma update_all_applies:
  assumes "set is \<subseteq> {..<length (states ds)}" and "gen = generation ds" and "lit_section sect"
    and "finite_samples (section_stride sect) v = Some (Some x)"
  shows "update_all gen is sect m (Some v) (True, ds) = Some (True, fold (\<lambda>i. update_output i sect m x) is ds)"
  using assms
proof (induction "is" arbitrary: ds)
  case (Cons i "is")
  then show ?case using Cons.IH [of "update_output i sect m x ds"] by (simp add: dense_update_def dense_frame)
qed simp

lemma row_effect_fields [dense_frame]:
  "generation (row_effect r ds) = generation ds" "bindings (row_effect r ds) = bindings ds"
  "routes (row_effect r ds) = routes ds" "length (states (row_effect r ds)) = length (states ds)"
proof -
  have "generation (fold (\<lambda>i. update_output i sect m x) is ds) = generation ds \<and>
      bindings (fold (\<lambda>i. update_output i sect m x) is ds) = bindings ds \<and>
      routes (fold (\<lambda>i. update_output i sect m x) is ds) = routes ds \<and>
      length (states (fold (\<lambda>i. update_output i sect m x) is ds)) = length (states ds)" for "is" sect m x ds
    by (induction "is" arbitrary: ds) (simp_all add: dense_frame)
  then show "generation (row_effect r ds) = generation ds" "bindings (row_effect r ds) = bindings ds"
    "routes (row_effect r ds) = routes ds" "length (states (row_effect r ds)) = length (states ds)"
    by (simp_all add: row_effect_def split: prod.split option.split)
qed

lemma update_outputs_ok:
  "dense_ok ds \<Longrightarrow> set is \<subseteq> {..<length (states ds)} \<Longrightarrow> dense_ok (fold (\<lambda>i. update_output i sect m x) is ds)"
  by (induction "is" arbitrary: ds) (simp_all add: update_output_ok dense_frame)

lemma row_effect_ok: "dense_ok ds \<Longrightarrow> dense_ok (row_effect r ds)"
proof (cases "routes ds (target_key (fst r) (fst (snd r)))")
  case None
  assume "dense_ok ds"
  then show ?thesis using None by (simp add: row_effect_def case_prod_beta)
next
  case (Some "is")
  assume ok: "dense_ok ds"
  note routes_okD(2) [OF ok Some]
  then show ?thesis using ok Some update_outputs_ok by (simp add: row_effect_def case_prod_beta)
qed

lemma rows_ok: "dense_ok ds \<Longrightarrow> dense_ok (fold row_effect rs ds)"
  by (induction rs arbitrary: ds) (simp_all add: row_effect_ok)

lemma rows_fields [dense_frame]:
  "generation (fold row_effect rs ds) = generation ds" "bindings (fold row_effect rs ds) = bindings ds"
  "routes (fold row_effect rs ds) = routes ds" "length (states (fold row_effect rs ds)) = length (states ds)"
  by (induction rs arbitrary: ds) (simp_all add: dense_frame)

lemma apply_row_effect:
  assumes "dense_ok ds" and "gen = generation ds" and "lit_section sect" and "row < n"
    and "io + n * 3 \<le> length ints" and "fo + n * section_stride sect \<le> length v"
    and "None \<notin> set (take (n * section_stride sect) (drop fo v))"
  shows "apply_row gen sect io fo ints v row ds = Some (row_effect (row_at sect io fo ints v row) ds)"
proof -
  let ?k = "section_stride sect"
  have le: "row * ?k + ?k \<le> n * ?k" using mult_le_mono1 [of "Suc row" n ?k] assms(4) by simp
  have "take ?k (drop (fo + row * ?k) v) = take ?k (drop (row * ?k) (take (n * ?k) (drop fo v)))"
    using le by (simp add: drop_take min_def add.commute)
  then have "None \<notin> set (take ?k (drop (fo + row * ?k) v))"
    using assms(7) by (metis in_set_dropD in_set_takeD)
  moreover have "?k \<le> length (drop (fo + row * ?k) v)" using assms(6) le by simp
  ultimately have v: "finite_samples ?k (drop (fo + row * ?k) v) = Some (Some (map the (take ?k (drop (fo + row * ?k) v))))"
    by (rule finite_samples_Some [rotated])
  have ints: "int_at ints (io + row * 3 + 1) = Some (ints ! (io + row * 3 + 1))"
    "int_at ints (io + row * 3 + 2) = Some (ints ! (io + row * 3 + 2))"
    using assms(4,5) by (auto simp: int_at_def)
  show ?thesis
  proof (cases "routes ds (target_key sect (ints ! (io + row * 3 + 1)))")
    case None
    then show ?thesis using assms(2) ints by (simp add: apply_row_def update_target_def row_effect_def row_at_def)
  next
    case (Some "is")
    note routes_okD(2) [OF assms(1) Some]
    from update_all_applies [OF this assms(2,3) v] show ?thesis using Some assms(2) ints
      by (simp add: apply_row_def update_target_def row_effect_def row_at_def)
  qed
qed

lemma each_row_effect:
  assumes "dense_ok ds" and "gen = generation ds" and "lit_section sect" and "set rs \<subseteq> {..<n}"
    and "io + n * 3 \<le> length ints" and "fo + n * section_stride sect \<le> length v"
    and "None \<notin> set (take (n * section_stride sect) (drop fo v))"
  shows "each (apply_row gen sect io fo ints v) rs ds = Some (fold row_effect (map (row_at sect io fo ints v) rs) ds)"
  using assms(1,2,4)
proof (induction rs arbitrary: ds)
  case (Cons r rs)
  have "r < n" using Cons.prems(3) by simp
  then show ?case
    using Cons.IH [of "row_effect (row_at sect io fo ints v r) ds"] Cons.prems apply_row_effect [OF Cons.prems(1,2) assms(3) _ assms(5-7)]
    by (simp add: row_effect_ok dense_frame)
qed simp

lemma apply_sections_effect:
  assumes "sections_valid d ints v" and "dense_ok ds" and "gen = generation ds"
  shows "apply_sections gen d ints v ds = Some (fold row_effect (frame_rows d ints v) ds)"
  using assms
proof (induction d ints v arbitrary: ds rule: frame_rows.induct)
  case (1 sect rows io fo rest d ints v)
  define rs where "rs = (if lit_section sect
    then map (row_at sect (nat (sint io)) (nat (sint fo)) ints v) [0..<nat (sint rows)] else [])"
  have "(if lit_section sect
         then each (apply_row gen sect (nat (sint io)) (nat (sint fo)) ints v) [0..<nat (sint rows)] ds
         else Some ds) = Some (fold row_effect rs ds)"
    using each_row_effect [OF 1(3,4), of sect "[0..<nat (sint rows)]" "nat (sint rows)" "nat (sint io)" ints
        "nat (sint fo)" v] 1(2) by (simp add: rs_def subset_iff)
  moreover have "apply_sections gen d ints v (fold row_effect rs ds) = Some (fold row_effect (frame_rows d ints v) (fold row_effect rs ds))"
    by (rule 1(1)) (use 1(2-4) in \<open>simp_all add: rows_ok dense_frame\<close>)
  ultimately show ?case by (simp add: rs_def)
qed simp_all

lemma compose_sections_effect:
  assumes "dense_ok ds"
  shows "compose_sections gen d ints v ds =
    Some (if gen \<noteq> generation ds \<or> length d mod 5 \<noteq> 0 \<or> \<not> sections_valid d ints v then (False, ds)
          else (True, fold row_effect (frame_rows d ints v) (ds\<lparr>unresolved_rows := 0\<rparr>)))"
proof -
  have "dense_ok (ds\<lparr>unresolved_rows := 0\<rparr>)" using assms by simp
  then show ?thesis by (simp add: compose_sections_def apply_sections_effect)
qed

lemma compose_sections_ok:
  assumes "dense_ok ds" and "compose_sections gen d ints v ds = Some (ok, ds')"
  shows "dense_ok ds'" and "bindings ds' = bindings ds" "length (states ds') = length (states ds)"
    and "generation ds' = generation ds"
proof -
  have clean: "dense_ok (ds\<lparr>unresolved_rows := 0\<rparr>)" using assms(1) by simp
  show "dense_ok ds'" and "bindings ds' = bindings ds" "length (states ds') = length (states ds)"
    and "generation ds' = generation ds"
    using assms(2) compose_sections_effect [OF assms(1)] rows_ok [OF clean] assms(1) by (auto simp: dense_frame split: if_splits)
qed

subsection \<open>The last row wins\<close>

definition routed :: "dense \<Rightarrow> nat \<Rightarrow> frame_row \<Rightarrow> bool" where
  "routed ds i = (\<lambda>(sect, target, m, x). \<exists>is. routes ds (target_key sect target) = Some is \<and> i \<in> set is)"

definition unrouted :: "dense \<Rightarrow> frame_row \<Rightarrow> bool" where
  "unrouted ds = (\<lambda>(sect, target, m, x). routes ds (target_key sect target) = None)"

definition stored :: "frame_row \<Rightarrow> output_state \<Rightarrow> output_state" where
  "stored = (\<lambda>(sect, target, m, x). with_row sect m x)"

lemma update_outputs_states:
  assumes "distinct is" and "set is \<subseteq> {..<length (states ds)}" and "i < length (states ds)"
  shows "states (fold (\<lambda>i. update_output i sect m x) is ds) ! i =
    (if i \<in> set is then with_row sect m x (states ds ! i) else states ds ! i)"
  using assms
proof (induction "is" arbitrary: ds)
  case (Cons j "is")
  then show ?case using Cons.IH [of "update_output j sect m x ds"]
    by (auto simp: dense_frame update_output_states nth_list_update)
qed simp

lemma row_effect_states:
  assumes "dense_ok ds" and "i < length (states ds)"
  shows "states (row_effect r ds) ! i = (if routed ds i r then stored r (states ds ! i) else states ds ! i)"
proof (cases "routes ds (target_key (fst r) (fst (snd r)))")
  case (Some "is")
  from update_outputs_states [OF routes_okD [OF assms(1) Some] assms(2)] Some show ?thesis
    by (simp add: row_effect_def routed_def stored_def case_prod_beta)
qed (simp add: row_effect_def routed_def case_prod_beta)

lemma routed_row_effect [simp]: "routed (row_effect r ds) = routed ds"
  by (simp add: routed_def dense_frame fun_eq_iff)

lemma rows_states:
  assumes "dense_ok ds" and "i < length (states ds)"
  shows "states (fold row_effect rs ds) ! i = fold stored (filter (routed ds i) rs) (states ds ! i)"
  using assms
proof (induction rs arbitrary: ds)
  case (Cons r rs)
  then show ?case using Cons.IH [of "row_effect r ds"] row_effect_ok [of ds r]
    by (simp add: row_effect_states dense_frame)
qed simp

lemma rows_unresolved:
  "unresolved_rows (fold row_effect rs ds) = unresolved_rows ds + length (filter (unrouted ds) rs)"
proof (induction rs arbitrary: ds)
  case (Cons r rs)
  have "unresolved_rows (fold (\<lambda>i. update_output i sect m x) is ds) = unresolved_rows ds" for "is" sect m x
    by (induction "is" arbitrary: ds) (simp_all add: dense_frame)
  moreover have "unrouted (row_effect r ds) = unrouted ds" by (simp add: unrouted_def dense_frame fun_eq_iff)
  ultimately show ?case using Cons.IH [of "row_effect r ds"]
    by (auto simp: row_effect_def unrouted_def split: prod.splits option.splits)
qed simp

definition held_fields :: "i32 \<Rightarrow> output_state \<Rightarrow> real list" where
  "held_fields sect s =
     (if sect = 2 then [os_dimmer s, os_beam_energy s, os_spot_energy s, os_beam_intensity s, os_material_energy s]
      else if sect = 3 then [os_red s, os_green s, os_blue s, os_gain s] else [os_half_angle s, os_full_angle s])"

definition row_fields :: "frame_row \<Rightarrow> real list" where
  "row_fields = (\<lambda>(sect, target, m, x).
     if sect = 2 then [x ! 0, x ! 1, x ! 2, x ! 3, x ! 4]
     else if sect = 3 then [x ! 0, x ! 1, x ! 2, max (x ! 3) 0] else [x ! 0, x ! 1])"

lemma held_fields_stored:
  "lit_section sect \<Longrightarrow> lit_section (fst r) \<Longrightarrow>
     held_fields sect (stored r s) = (if fst r = sect then row_fields r else held_fields sect s)"
  by (auto simp: lit_section_def held_fields_def row_fields_def stored_def with_row_def store_fields_def split: prod.splits)

lemma held_fields_rows:
  assumes "lit_section sect" and "\<forall>r\<in>set rs. lit_section (fst r)"
  shows "held_fields sect (fold stored rs s) =
    (case rev (filter (\<lambda>r. fst r = sect) rs) of [] \<Rightarrow> held_fields sect s | r # _ \<Rightarrow> row_fields r)"
  using assms(2)
proof (induction rs rule: rev_induct)
  case (snoc r rs)
  then show ?case using assms(1) by (simp add: held_fields_stored)
qed simp

lemma frame_rows_lit: "\<forall>r\<in>set (frame_rows d ints v). lit_section (fst r)"
  by (induction d ints v rule: frame_rows.induct) (auto simp: row_at_def)

lemma stored_mask: "os_mask (fold stored rs s) = 0 \<longleftrightarrow> rs = [] \<and> os_mask s = 0"
proof (induction rs rule: rev_induct)
  case (snoc r rs)
  then show ?case by (simp add: stored_def with_row_def or_eq_0 split: prod.split)
qed simp


definition one_output :: dense where
  "one_output = snd (dense_install 7 [\<lparr>canonical_id = 1, projected_scale = Some 1\<rparr>]
     [\<lparr>target_section = 2, target_id = 5, output_index = 0\<rparr>] fresh_dense)"


end
