(* ===== verification/Projection_Refinement.thy ===== *)
theory Projection_Refinement
  imports Render_Projection Dense_Refinement
begin

text \<open>
  The incremental projection against a projection from scratch: whatever frames arrive and however often the
  renderer is replaced, what the renderer shows after a frame is what adding up all members of each row
  anew would give.
\<close>

subsection \<open>Projection from scratch\<close>

definition output_values :: "dense \<Rightarrow> nat \<Rightarrow> render_values" where
  "output_values ds i = values_of (states ds ! i) (scale_of (bindings ds ! i))"

definition row_members :: "projection \<Rightarrow> nat \<Rightarrow> nat list" where
  "row_members p r = filter (\<lambda>i. physical_to_row p ! i = r) [0..<length (physical_to_row p)]"

definition gather :: "(nat \<Rightarrow> member_contribution) \<Rightarrow> nat list \<Rightarrow> render_row \<Rightarrow> render_row" where
  "gather m is row = row\<lparr>rr_energy := (\<Sum>i\<leftarrow>is. mc_energy (m i)), rr_red := (\<Sum>i\<leftarrow>is. mc_red (m i)),
     rr_green := (\<Sum>i\<leftarrow>is. mc_green (m i)), rr_blue := (\<Sum>i\<leftarrow>is. mc_blue (m i)), rr_intensity := (\<Sum>i\<leftarrow>is. mc_intensity (m i))\<rparr>"

text \<open>\<open>held\<close> is what the row shows; a dark group keeps its colour.\<close>

definition recomputed :: "(real \<Rightarrow> real) \<Rightarrow> dense \<Rightarrow> projection \<Rightarrow> nat \<Rightarrow> render_values \<Rightarrow> render_values" where
  "recomputed narrow ds p r held =
     (let is = row_members p r; v = output_values ds (hd is)
      in if rr_presentation (rows p ! r) = Aggregated
         then group_values narrow (gather (\<lambda>i. contribution (output_values ds i)) is
                (blank_row\<lparr>rr_previous := held, rr_committed := True\<rparr>)) v
         else v)"

subsection \<open>Invariants\<close>

definition structure_ok :: "projection \<Rightarrow> bool" where
  "structure_ok p \<longleftrightarrow> length (members p) = length (physical_to_row p) \<and>
     (\<forall>i<length (physical_to_row p). physical_to_row p ! i < length (rows p)) \<and>
     (\<forall>r<length (rows p). row_members p r \<noteq> [] \<and> rr_representative (rows p ! r) = hd (row_members p r))"

definition sums_ok :: "projection \<Rightarrow> bool" where
  "sums_ok p \<longleftrightarrow> (\<forall>r<length (rows p). rr_presentation (rows p ! r) = Aggregated \<longrightarrow>
     rows p ! r = gather ((!) (members p)) (row_members p r) (rows p ! r))"

definition valid_ok :: "projection \<Rightarrow> bool" where
  "valid_ok p \<longleftrightarrow> (\<forall>m\<in>set (members p). mc_valid m \<longrightarrow> m = contribution (mc_values m))"

text \<open>What a row shows is what its sums and its representative give.\<close>

definition row_shown :: "(real \<Rightarrow> real) \<Rightarrow> projection \<Rightarrow> nat \<Rightarrow> bool" where
  "row_shown narrow p r \<longleftrightarrow> rr_committed (rows p ! r) \<longrightarrow>
     rr_previous (rows p ! r) = row_values narrow (rows p ! r) (mc_values (members p ! rr_representative (rows p ! r)))"

definition displayed :: "projection \<Rightarrow> (nat \<Rightarrow> render_values option) \<Rightarrow> bool" where
  "displayed p shown \<longleftrightarrow> (\<forall>r<length (rows p). rr_committed (rows p ! r) \<longrightarrow> shown r = Some (rr_previous (rows p ! r)))"

definition members_ok :: "dense \<Rightarrow> projection \<Rightarrow> nat set \<Rightarrow> bool" where
  "members_ok ds p stale \<longleftrightarrow> length (states ds) = length (members p) \<and>
     (\<forall>i<length (members p). i \<notin> stale \<longrightarrow> members p ! i = contribution (output_values ds i) \<and>
        (rr_mask (rows p ! (physical_to_row p ! i)) \<noteq> 0 \<or> rr_committed (rows p ! (physical_to_row p ! i))))"

definition rows_ok_mid :: "(real \<Rightarrow> real) \<Rightarrow> projection \<Rightarrow> nat set \<Rightarrow> bool" where
  "rows_ok_mid narrow p pending \<longleftrightarrow> pending = {r. r < length (rows p) \<and> rr_mask (rows p ! r) \<noteq> 0} \<and>
     (\<forall>r<length (rows p). rr_mask (rows p ! r) = 0 \<longrightarrow> row_shown narrow p r)"

lemma gather_gather [simp]: "gather m is (gather m is row) = gather m is row"
  by (simp add: gather_def)

lemma row_members_set: "i \<in> set (row_members p r) \<longleftrightarrow> i < length (physical_to_row p) \<and> physical_to_row p ! i = r"
  by (auto simp: row_members_def)

lemma row_members_distinct: "distinct (row_members p r)"
  by (simp add: row_members_def)

lemma structure_okD:
  assumes "structure_ok p"
  shows "i < length (members p) \<Longrightarrow> physical_to_row p ! i < length (rows p)"
    and "r < length (rows p) \<Longrightarrow> rr_representative (rows p ! r) < length (members p)"
    and "r < length (rows p) \<Longrightarrow> physical_to_row p ! rr_representative (rows p ! r) = r"
proof -
  show "i < length (members p) \<Longrightarrow> physical_to_row p ! i < length (rows p)" using assms by (simp add: structure_ok_def)
  have "rr_representative (rows p ! r) \<in> set (row_members p r)" if "r < length (rows p)"
    using assms that by (auto simp: structure_ok_def)
  then show "r < length (rows p) \<Longrightarrow> rr_representative (rows p ! r) < length (members p)"
    and "r < length (rows p) \<Longrightarrow> physical_to_row p ! rr_representative (rows p ! r) = r"
    using assms by (auto simp: row_members_set structure_ok_def)
qed

subsection \<open>Replacing one member\<close>

lemma sum_list_keep:
  fixes g h :: "nat \<Rightarrow> real"
  assumes "i \<notin> set is" and "\<And>j. j \<noteq> i \<Longrightarrow> h j = g j"
  shows "(\<Sum>j\<leftarrow>is. h j) = (\<Sum>j\<leftarrow>is. g j)"
proof -
  have "map h is = map g is" using assms by (metis map_eq_conv)
  then show ?thesis by (rule arg_cong)
qed

lemma sum_list_replace:
  fixes g h :: "nat \<Rightarrow> real"
  assumes "distinct is" and "i \<in> set is" and "\<And>j. j \<noteq> i \<Longrightarrow> h j = g j"
  shows "(\<Sum>j\<leftarrow>is. h j) = (\<Sum>j\<leftarrow>is. g j) + (h i - g i)"
  using assms(1,2)
proof (induction "is")
  case (Cons k "is")
  then show ?case using assms(3) sum_list_keep [of i "is" h g] by (cases "k = i") auto
qed simp

lemma gather_exchange:
  assumes "i \<in> set (row_members p r)" and "i < length (members p)" and "rr_presentation row = Aggregated"
    and "row = gather ((!) (members p)) (row_members p r) row"
  shows "exchange_member (members p ! i) c (row\<lparr>rr_mask := m\<rparr>) =
    gather ((!) ((members p)[i := c])) (row_members p r) (row\<lparr>rr_mask := m\<rparr>)"
proof -
  have at: "(\<Sum>j\<leftarrow>row_members p r. f ((members p)[i := c] ! j)) =
      (\<Sum>j\<leftarrow>row_members p r. f (members p ! j)) + (f c - f (members p ! i))" for f :: "member_contribution \<Rightarrow> real"
    using sum_list_replace [OF row_members_distinct assms(1), of "\<lambda>j. f ((members p)[i := c] ! j)" "\<lambda>j. f (members p ! j)"] assms(2)
    by simp
  have "rr_energy row = (\<Sum>j\<leftarrow>row_members p r. mc_energy (members p ! j))"
    "rr_red row = (\<Sum>j\<leftarrow>row_members p r. mc_red (members p ! j))"
    "rr_green row = (\<Sum>j\<leftarrow>row_members p r. mc_green (members p ! j))"
    "rr_blue row = (\<Sum>j\<leftarrow>row_members p r. mc_blue (members p ! j))"
    "rr_intensity row = (\<Sum>j\<leftarrow>row_members p r. mc_intensity (members p ! j))"
    by (subst assms(4), simp add: gather_def)+
  then show ?thesis using assms(3) by (simp add: exchange_member_def gather_def at)
qed

lemma gather_keep:
  assumes "i \<notin> set is"
  shows "gather ((!) (xs[i := c])) is row = gather ((!) xs) is row"
proof -
  have "(\<Sum>j\<leftarrow>is. f (xs[i := c] ! j)) = (\<Sum>j\<leftarrow>is. f (xs ! j))" for f :: "member_contribution \<Rightarrow> real"
    using sum_list_keep [OF assms, of "\<lambda>j. f (xs[i := c] ! j)" "\<lambda>j. f (xs ! j)"] by simp
  then show ?thesis by (simp add: gather_def)
qed

subsection \<open>The loop over the dirty outputs\<close>

definition mid_ok :: "(real \<Rightarrow> real) \<Rightarrow> dense \<Rightarrow> projection \<Rightarrow> nat set \<Rightarrow> bool" where
  "mid_ok narrow ds p stale \<longleftrightarrow> structure_ok p \<and> sums_ok p \<and> valid_ok p \<and> members_ok ds p stale \<and>
     distinct (dirty_rows p) \<and> rows_ok_mid narrow p (set (dirty_rows p))"

lemma row_mask_nonzero: "row_mask old row pending \<noteq> 0"
  by (simp add: row_mask_def or_eq_0 change_defs)

lemma contribution_values [simp]: "mc_values (contribution v) = v" "mc_valid (contribution v)"
  by (simp_all add: contribution_def Let_def)

lemma exchange_member_fields [simp]:
  "rr_representative (exchange_member a b row) = rr_representative row"
  "rr_mask (exchange_member a b row) = rr_mask row" "rr_presentation (exchange_member a b row) = rr_presentation row"
  "rr_previous (exchange_member a b row) = rr_previous row" "rr_committed (exchange_member a b row) = rr_committed row"
  by (simp_all add: exchange_member_def)

text \<open>Storing the new contribution \<open>c\<close> of member \<open>i\<close>.\<close>

definition store_member :: "nat \<Rightarrow> member_contribution \<Rightarrow> u32 \<Rightarrow> projection \<Rightarrow> projection" where
  "store_member i c m p =
     (let r = physical_to_row p ! i; row = rows p ! r
      in p\<lparr>dirty_rows := (if rr_mask row = 0 then dirty_rows p @ [r] else dirty_rows p),
           rows := (rows p)[r := exchange_member (members p ! i) c (row\<lparr>rr_mask := m\<rparr>)],
           members := (members p)[i := c]\<rparr>)"

lemma store_member_fields [simp]:
  "physical_to_row (store_member i c m p) = physical_to_row p" "row_members (store_member i c m p) = row_members p"
  "members (store_member i c m p) = (members p)[i := c]" "prepared_rows (store_member i c m p) = prepared_rows p"
  "length (rows (store_member i c m p)) = length (rows p)"
  by (simp_all add: store_member_def Let_def row_members_def fun_eq_iff)

lemma store_member_row:
  assumes "r < length (rows p)"
  shows "rows (store_member i c m p) ! r =
    (if r = physical_to_row p ! i then exchange_member (members p ! i) c ((rows p ! r)\<lparr>rr_mask := m\<rparr>) else rows p ! r)"
  using assms by (simp add: store_member_def Let_def)

lemma store_member_structure: "structure_ok p \<Longrightarrow> structure_ok (store_member i c m p)"
  unfolding structure_ok_def by (simp add: store_member_row)

lemma store_member_sums:
  assumes "structure_ok p" and "sums_ok p" and "i < length (members p)"
  shows "sums_ok (store_member i c m p)"
  unfolding sums_ok_def
proof (intro allI impI)
  fix r
  assume r: "r < length (rows (store_member i c m p))" and agg: "rr_presentation (rows (store_member i c m p) ! r) = Aggregated"
  have i: "i < length (physical_to_row p)" using assms(1,3) by (simp add: structure_ok_def)
  have row: "rows p ! r = gather ((!) (members p)) (row_members p r) (rows p ! r)"
    using assms(2) r agg by (auto simp: sums_ok_def store_member_row split: if_splits)
  show "rows (store_member i c m p) ! r =
      gather ((!) (members (store_member i c m p))) (row_members (store_member i c m p) r) (rows (store_member i c m p) ! r)"
  proof (cases "r = physical_to_row p ! i")
    case True
    then have "i \<in> set (row_members p r)" using i by (simp add: row_members_set)
    moreover have "rr_presentation (rows p ! r) = Aggregated" using agg True r by (simp add: store_member_row)
    ultimately have e: "exchange_member (members p ! i) c ((rows p ! r)\<lparr>rr_mask := m\<rparr>) =
        gather ((!) ((members p)[i := c])) (row_members p r) ((rows p ! r)\<lparr>rr_mask := m\<rparr>)"
      using assms(3) row by (intro gather_exchange)
    show ?thesis using True r by (simp add: store_member_row e [unfolded True])
  next
    case False
    then have "i \<notin> set (row_members p r)" by (simp add: row_members_set)
    then show ?thesis using False r row by (simp add: store_member_row gather_keep)
  qed
qed

lemma store_member_rows:
  assumes "structure_ok p" and "i < length (members p)" and "m \<noteq> 0"
    and "distinct (dirty_rows p)" and "rows_ok_mid narrow p (set (dirty_rows p))"
  shows "distinct (dirty_rows (store_member i c m p)) \<and>
    rows_ok_mid narrow (store_member i c m p) (set (dirty_rows (store_member i c m p)))"
proof -
  let ?q = "store_member i c m p" and ?r = "physical_to_row p ! i"
  have r: "?r < length (rows p)" using structure_okD(1) [OF assms(1,2)] .
  have d: "dirty_rows ?q = (if rr_mask (rows p ! ?r) = 0 then dirty_rows p @ [?r] else dirty_rows p)"
    by (simp add: store_member_def Let_def)
  have pend: "set (dirty_rows p) = {r. r < length (rows p) \<and> rr_mask (rows p ! r) \<noteq> 0}"
    using assms(5) by (simp add: rows_ok_mid_def)
  have mask: "rr_mask (rows ?q ! q) = (if q = ?r then m else rr_mask (rows p ! q))" if "q < length (rows p)" for q
    using that by (simp add: store_member_row)
  have "{q. q < length (rows p) \<and> rr_mask (rows ?q ! q) \<noteq> 0} = insert ?r (set (dirty_rows p))"
    using r assms(3) by (auto simp: pend mask split: if_splits)
  then have "set (dirty_rows ?q) = {q. q < length (rows ?q) \<and> rr_mask (rows ?q ! q) \<noteq> 0}"
    using r by (auto simp: d pend)
  moreover have "row_shown narrow ?q q" if q: "q < length (rows p)" "rr_mask (rows ?q ! q) = 0" for q
  proof -
    have ne: "q \<noteq> ?r" using q assms(3) mask by auto
    then have "row_shown narrow p q" using assms(5) q mask by (simp add: rows_ok_mid_def)
    moreover have "rr_representative (rows p ! q) \<noteq> i" using structure_okD(3) [OF assms(1) q(1)] ne by auto
    ultimately show ?thesis using ne q(1) by (simp add: row_shown_def store_member_row)
  qed
  moreover have "distinct (dirty_rows ?q)" using assms(4) by (auto simp: d pend)
  ultimately show ?thesis by (simp add: rows_ok_mid_def)
qed

lemma project_member_step:
  assumes "i < length (members p)" and "length (states ds) = length (members p)"
  shows "project_member ds i p =
    Some (if member_settled (members p ! i) (rows p ! (physical_to_row p ! i)) (output_values ds i) (os_mask (states ds ! i)) then p
          else store_member i (contribution (output_values ds i))
                 (row_mask (members p ! i) (rows p ! (physical_to_row p ! i)) (os_mask (states ds ! i))) p)"
  using assms by (simp add: project_member_def render_values_at_def output_values_def store_member_def Let_def)

lemma project_member_ok:
  assumes "mid_ok narrow ds p stale" and "i < length (members p)"
  shows "\<exists>p'. project_member ds i p = Some p' \<and> mid_ok narrow ds p' (stale - {i}) \<and> length (members p') = length (members p) \<and>
    prepared_rows p' = prepared_rows p \<and> length (rows p') = length (rows p) \<and>
    (\<forall>r<length (rows p). rr_committed (rows p' ! r) = rr_committed (rows p ! r) \<and> rr_previous (rows p' ! r) = rr_previous (rows p ! r))"
proof -
  let ?v = "output_values ds i" and ?r = "physical_to_row p ! i"
  have len: "length (states ds) = length (members p)" using assms(1) by (simp add: mid_ok_def members_ok_def)
  note step = project_member_step [OF assms(2) len]
  show ?thesis
  proof (cases "member_settled (members p ! i) (rows p ! ?r) ?v (os_mask (states ds ! i))")
    case True
    then have "mc_valid (members p ! i)" "mc_values (members p ! i) = ?v" "rr_committed (rows p ! ?r)"
      by (simp_all add: member_settled_def)
    moreover from this have "members p ! i = contribution ?v"
      using assms by (metis mid_ok_def valid_ok_def nth_mem)
    ultimately have "members_ok ds p (stale - {i})" using assms(1) by (auto simp: mid_ok_def members_ok_def)
    then show ?thesis using assms(1) True step by (simp add: mid_ok_def)
  next
    case False
    define m where "m = row_mask (members p ! i) (rows p ! ?r) (os_mask (states ds ! i))"
    define q where "q = store_member i (contribution ?v) m p"
    have m: "m \<noteq> 0" by (simp add: m_def row_mask_nonzero)
    have st: "structure_ok p" using assms(1) by (simp add: mid_ok_def)
    have mask: "rr_mask (rows q ! r) \<noteq> 0 \<or> rr_committed (rows q ! r)"
      if "r = ?r \<or> rr_mask (rows p ! r) \<noteq> 0 \<or> rr_committed (rows p ! r)" "r < length (rows p)" for r
      using that m by (auto simp: q_def store_member_row)
    have "members_ok ds q (stale - {i})"
      unfolding members_ok_def
    proof (intro conjI allI impI)
      show "length (states ds) = length (members q)" by (simp add: q_def len)
      fix j
      assume j: "j < length (members q)" "j \<notin> stale - {i}"
      then have jl: "j < length (members p)" by (simp add: q_def)
      show "members q ! j = contribution (output_values ds j)"
        using assms(1) j jl by (cases "j = i") (auto simp: q_def mid_ok_def members_ok_def)
      have "physical_to_row p ! j = ?r \<or> rr_mask (rows p ! (physical_to_row p ! j)) \<noteq> 0 \<or> rr_committed (rows p ! (physical_to_row p ! j))"
        using assms(1) j jl by (cases "j = i") (auto simp: mid_ok_def members_ok_def)
      then show "rr_mask (rows q ! (physical_to_row q ! j)) \<noteq> 0 \<or> rr_committed (rows q ! (physical_to_row q ! j))"
        using mask structure_okD(1) [OF st jl] by (simp add: q_def)
    qed
    moreover have "valid_ok q" using assms(1)
      by (auto simp: q_def mid_ok_def valid_ok_def dest!: set_update_subset_insert [THEN subsetD])
    moreover have "structure_ok q" "sums_ok q"
      unfolding q_def using assms st by (auto simp: mid_ok_def intro: store_member_structure store_member_sums)
    moreover have "distinct (dirty_rows q) \<and> rows_ok_mid narrow q (set (dirty_rows q))"
      unfolding q_def using assms by (intro store_member_rows [OF st assms(2) m]) (simp_all add: mid_ok_def)
    moreover have "project_member ds i p = Some q" using step False by (simp add: q_def m_def)
    ultimately show ?thesis by (auto simp: mid_ok_def q_def store_member_row)
  qed
qed

lemma project_members_ok:
  assumes "mid_ok narrow ds p stale" and "\<forall>i\<in>set is. i < length (members p)"
  shows "\<exists>p'. each (project_member ds) is p = Some p' \<and> mid_ok narrow ds p' (stale - set is) \<and> length (members p') = length (members p) \<and>
    prepared_rows p' = prepared_rows p \<and> length (rows p') = length (rows p) \<and>
    (\<forall>r<length (rows p). rr_committed (rows p' ! r) = rr_committed (rows p ! r) \<and> rr_previous (rows p' ! r) = rr_previous (rows p ! r))"
  using assms
proof (induction "is" arbitrary: p stale)
  case (Cons i "is")
  obtain p1 where p1: "project_member ds i p = Some p1" "mid_ok narrow ds p1 (stale - {i})" "length (members p1) = length (members p)"
    "prepared_rows p1 = prepared_rows p" "length (rows p1) = length (rows p)"
    "\<forall>r<length (rows p). rr_committed (rows p1 ! r) = rr_committed (rows p ! r) \<and> rr_previous (rows p1 ! r) = rr_previous (rows p ! r)"
    using project_member_ok [OF Cons.prems(1)] Cons.prems(2) by (metis list.set_intros(1))
  have "\<forall>i\<in>set is. i < length (members p1)" using Cons.prems(2) p1(3) by simp
  from Cons.IH [OF p1(2) this] p1 show ?case by (auto simp: Diff_insert2 [symmetric])
qed auto

subsection \<open>The loop over the dirty rows\<close>

definition end_ok :: "(real \<Rightarrow> real) \<Rightarrow> dense \<Rightarrow> (nat \<Rightarrow> render_values option) \<Rightarrow> projection \<Rightarrow> nat set \<Rightarrow> bool" where
  "end_ok narrow ds base p pending \<longleftrightarrow> structure_ok p \<and> sums_ok p \<and> valid_ok p \<and> length (states ds) = length (members p) \<and>
     (\<forall>i<length (members p). members p ! i = contribution (output_values ds i)) \<and> rows_ok_mid narrow p pending \<and>
     (\<forall>r<length (rows p). r \<in> pending \<or> rr_committed (rows p ! r)) \<and> displayed p (show_rows (prepared_rows p) base)"

lemma lit_up_fields:
  "lit_up (row\<lparr>rr_previous := v\<rparr>) = lit_up row" "lit_up (row\<lparr>rr_committed := c\<rparr>) = lit_up row"
  "lit_up (row\<lparr>rr_mask := m\<rparr>) = lit_up row"
  by (simp_all add: lit_up_def)

lemma row_values_held [simp]:
  "row_values narrow (row\<lparr>rr_previous := row_values narrow row v, rr_committed := True\<rparr>) v = row_values narrow row v"
proof
  show "row_values narrow (row\<lparr>rr_previous := row_values narrow row v, rr_committed := True\<rparr>) v f =
      row_values narrow row v f" for f
    by (cases f) (simp_all add: row_values_def group_color_def lit_up_fields)
qed

lemma row_values_mask [simp]: "row_values narrow (row\<lparr>rr_mask := m\<rparr>) v = row_values narrow row v"
proof
  show "row_values narrow (row\<lparr>rr_mask := m\<rparr>) v f = row_values narrow row v f" for f
    by (cases f) (simp_all add: row_values_def group_color_def lit_up_fields)
qed

lemma show_rows_append: "show_rows (ws @ [w]) base = (show_rows ws base)(pw_index w \<mapsto> pw_values w)"
  by (simp add: show_rows_def)

text \<open>A row is settled: its mask is cleared and it shows \<open>v\<close>.\<close>

definition settle_row :: "nat \<Rightarrow> render_values \<Rightarrow> prepared_row list \<Rightarrow> projection \<Rightarrow> projection" where
  "settle_row r v ws p =
     p\<lparr>prepared_rows := prepared_rows p @ ws, rows := (rows p)[r := (rows p ! r)\<lparr>rr_previous := v, rr_committed := True, rr_mask := 0\<rparr>]\<rparr>"

lemma settle_row_fields [simp]:
  "physical_to_row (settle_row r v ws p) = physical_to_row p" "members (settle_row r v ws p) = members p"
  "row_members (settle_row r v ws p) = row_members p" "length (rows (settle_row r v ws p)) = length (rows p)"
  "prepared_rows (settle_row r v ws p) = prepared_rows p @ ws"
  by (simp_all add: settle_row_def row_members_def fun_eq_iff)

lemma settle_row_at:
  "q < length (rows p) \<Longrightarrow> rows (settle_row r v ws p) ! q =
     (if q = r then (rows p ! q)\<lparr>rr_previous := v, rr_committed := True, rr_mask := 0\<rparr> else rows p ! q)"
  by (simp add: settle_row_def)

lemma emit_row_step:
  assumes "end_ok narrow ds base p pending" and "r < length (rows p)"
  defines "v \<equiv> row_values narrow (rows p ! r) (output_values ds (rr_representative (rows p ! r)))"
  shows "\<exists>ws. emit_row narrow ds r p = Some (settle_row r v ws p) \<and>
    (ws = [] \<and> rr_committed (rows p ! r) \<and> rr_previous (rows p ! r) = v \<or> (\<exists>m. ws = [\<lparr>pw_index = r, pw_mask = m, pw_values = v\<rparr>]))"
proof -
  have "rr_representative (rows p ! r) < length (states ds)"
    using structure_okD(2) assms(1,2) by (simp add: end_ok_def)
  then have rv: "render_values_at (rr_representative (rows p ! r)) ds = Some (output_values ds (rr_representative (rows p ! r)))"
    by (simp add: render_values_at_def output_values_def)
  have e: "emit_row narrow ds r p =
      Some (if \<not> rr_committed (rows p ! r) \<or> rr_previous (rows p ! r) \<noteq> v \<or> masked (rr_mask (rows p ! r)) VisualChangeBeamTopology
            then settle_row r v [\<lparr>pw_index = r, pw_mask = rr_mask (rows p ! r), pw_values = v\<rparr>] p
            else p\<lparr>rows := (rows p)[r := (rows p ! r)\<lparr>rr_mask := 0\<rparr>]\<rparr>)"
    by (simp add: emit_row_def rv Let_def v_def [symmetric] settle_row_def)
  show ?thesis
  proof (cases "\<not> rr_committed (rows p ! r) \<or> rr_previous (rows p ! r) \<noteq> v \<or> masked (rr_mask (rows p ! r)) VisualChangeBeamTopology")
    case True
    then show ?thesis using e by auto
  next
    case False
    have "(rows p ! r)\<lparr>rr_previous := v, rr_committed := True, rr_mask := 0\<rparr> = (rows p ! r)\<lparr>rr_mask := 0\<rparr>"
      using False by (cases "rows p ! r") simp
    then have "p\<lparr>rows := (rows p)[r := (rows p ! r)\<lparr>rr_mask := 0\<rparr>]\<rparr> = settle_row r v [] p"
      by (simp add: settle_row_def)
    then show ?thesis using e False by (intro exI [of _ "[]"]) simp
  qed
qed

lemma settle_row_sums:
  assumes "sums_ok p"
  shows "sums_ok (settle_row r v ws p)"
  unfolding sums_ok_def
proof (intro allI impI)
  fix q
  assume q: "q < length (rows (settle_row r v ws p))" and agg: "rr_presentation (rows (settle_row r v ws p) ! q) = Aggregated"
  then have row: "rows p ! q = gather ((!) (members p)) (row_members p q) (rows p ! q)"
    using assms by (auto simp: sums_ok_def settle_row_at split: if_splits)
  have "(rows p ! q)\<lparr>rr_previous := v, rr_committed := True, rr_mask := 0\<rparr> =
      gather ((!) (members p)) (row_members p q) ((rows p ! q)\<lparr>rr_previous := v, rr_committed := True, rr_mask := 0\<rparr>)"
    by (subst (1) row) (simp add: gather_def)
  then show "rows (settle_row r v ws p) ! q = gather ((!) (members (settle_row r v ws p))) (row_members (settle_row r v ws p) q)
      (rows (settle_row r v ws p) ! q)"
    using q row by (cases "q = r") (simp_all add: settle_row_at)
qed

lemma emit_row_ok:
  assumes "end_ok narrow ds base p pending" and "r < length (rows p)" and "r \<in> pending"
  shows "\<exists>p'. emit_row narrow ds r p = Some p' \<and> end_ok narrow ds base p' (pending - {r}) \<and> length (rows p') = length (rows p)"
proof -
  define v where "v = row_values narrow (rows p ! r) (output_values ds (rr_representative (rows p ! r)))"
  obtain ws where ws: "emit_row narrow ds r p = Some (settle_row r v ws p)"
    "ws = [] \<and> rr_committed (rows p ! r) \<and> rr_previous (rows p ! r) = v \<or> (\<exists>m. ws = [\<lparr>pw_index = r, pw_mask = m, pw_values = v\<rparr>])"
    using emit_row_step [OF assms(1,2)] by (auto simp: v_def)
  let ?q = "settle_row r v ws p"
  have st: "structure_ok p" "sums_ok p" using assms(1) by (simp_all add: end_ok_def)
  have rep: "rr_representative (rows p ! r) < length (members p)" by (rule structure_okD(2) [OF st(1) assms(2)])
  have "rows_ok_mid narrow ?q (pending - {r})"
    unfolding rows_ok_mid_def
  proof (intro conjI allI impI)
    show "pending - {r} = {q. q < length (rows ?q) \<and> rr_mask (rows ?q ! q) \<noteq> 0}"
      using assms(1) by (auto simp: end_ok_def rows_ok_mid_def settle_row_at split: if_splits)
    fix q
    assume q: "q < length (rows ?q)" "rr_mask (rows ?q ! q) = 0"
    show "row_shown narrow ?q q"
    proof (cases "q = r")
      case True
      then show ?thesis using q rep assms(1,2) by (simp add: row_shown_def settle_row_at end_ok_def v_def)
    next
      case False
      then have "row_shown narrow p q" using assms(1) q by (simp add: end_ok_def rows_ok_mid_def settle_row_at)
      then show ?thesis using q False by (simp add: row_shown_def settle_row_at)
    qed
  qed
  moreover have "structure_ok ?q" using st(1) by (simp add: structure_ok_def settle_row_at)
  moreover have "displayed ?q (show_rows (prepared_rows ?q) base)"
    using ws(2) assms(1) by (auto simp: displayed_def end_ok_def settle_row_at show_rows_append split: if_splits)
  ultimately have "end_ok narrow ds base ?q (pending - {r})"
    using assms(1) settle_row_sums [OF st(2)] by (auto simp: end_ok_def valid_ok_def settle_row_at)
  then show ?thesis using ws(1) by simp
qed

lemma emit_rows_ok:
  assumes "end_ok narrow ds base p (set rs)" and "distinct rs"
  shows "\<exists>p'. each (emit_row narrow ds) rs p = Some p' \<and> end_ok narrow ds base p' {} \<and> length (rows p') = length (rows p)"
  using assms
proof (induction rs arbitrary: p)
  case (Cons r rs)
  have r: "r < length (rows p)" using Cons.prems(1) by (auto simp: end_ok_def rows_ok_mid_def)
  obtain p1 where p1: "emit_row narrow ds r p = Some p1" "end_ok narrow ds base p1 (set (r # rs) - {r})"
    "length (rows p1) = length (rows p)"
    using emit_row_ok [OF Cons.prems(1) r] by (metis list.set_intros(1))
  have "set (r # rs) - {r} = set rs" using Cons.prems(2) by auto
  then show ?case using Cons.IH [of p1] Cons.prems(2) p1 by auto
qed simp

subsection \<open>Preparing a frame\<close>

definition session_ok :: "(real \<Rightarrow> real) \<Rightarrow> dense \<Rightarrow> projection \<Rightarrow> (nat \<Rightarrow> render_values option) \<Rightarrow> bool" where
  "session_ok narrow ds p shown \<longleftrightarrow> dense_ok ds \<and> displayed p shown \<and>
     mid_ok narrow ds (p\<lparr>prepared_rows := [], dirty_rows := []\<rparr>) (set (dirty ds))"

lemma prepare_rows_ok:
  assumes "session_ok narrow ds p shown"
  shows "\<exists>p'. prepare_rows narrow ds p = Some p' \<and> end_ok narrow ds shown p' {}"
proof -
  define p0 where "p0 = p\<lparr>prepared_rows := [], dirty_rows := []\<rparr>"
  have mid: "mid_ok narrow ds p0 (set (dirty ds))" using assms by (simp add: session_ok_def p0_def)
  have "\<forall>i\<in>set (dirty ds). i < length (members p0)"
    using assms mid by (auto simp: session_ok_def dense_ok_def dirty_ok_def mid_ok_def members_ok_def)
  from project_members_ok [OF mid this] obtain p1 where p1: "each (project_member ds) (dirty ds) p0 = Some p1"
    "mid_ok narrow ds p1 {}" "prepared_rows p1 = []" "length (rows p1) = length (rows p0)"
    "\<forall>r<length (rows p0). rr_committed (rows p1 ! r) = rr_committed (rows p0 ! r) \<and> rr_previous (rows p1 ! r) = rr_previous (rows p0 ! r)"
    by (auto simp: p0_def)
  have "displayed p1 shown" using assms p1(4,5) by (simp add: session_ok_def displayed_def p0_def)
  moreover have "r \<in> set (dirty_rows p1) \<or> rr_committed (rows p1 ! r)" if r: "r < length (rows p1)" for r
  proof -
    have st: "structure_ok p1" using p1(2) by (simp add: mid_ok_def)
    show ?thesis using p1(2) structure_okD(2,3) [OF st r] r by (auto simp: mid_ok_def members_ok_def rows_ok_mid_def)
  qed
  ultimately have "end_ok narrow ds shown p1 (set (dirty_rows p1))"
    using p1(2,3) by (auto simp: end_ok_def mid_ok_def members_ok_def show_rows_def)
  moreover have "distinct (dirty_rows p1)" using p1(2) by (simp add: mid_ok_def)
  ultimately obtain p2 where "each (emit_row narrow ds) (dirty_rows p1) p1 = Some p2" "end_ok narrow ds shown p2 {}"
    using emit_rows_ok by blast
  then show ?thesis using p1(1) by (simp add: prepare_rows_def p0_def)
qed

lemma end_session_ok:
  assumes "end_ok narrow ds shown p {}" and "dense_ok ds'" and "length (states ds') = length (states ds)"
    and "\<And>i. i < length (members p) \<Longrightarrow> output_values ds' i = output_values ds i"
  shows "session_ok narrow ds' p (show_rows (prepared_rows p) shown)"
proof -
  have "structure_ok (p\<lparr>prepared_rows := [], dirty_rows := []\<rparr>)" "sums_ok (p\<lparr>prepared_rows := [], dirty_rows := []\<rparr>)"
    "valid_ok (p\<lparr>prepared_rows := [], dirty_rows := []\<rparr>)"
    using assms(1) by (simp_all add: end_ok_def structure_ok_def sums_ok_def valid_ok_def row_members_def)
  moreover have "rows_ok_mid narrow (p\<lparr>prepared_rows := [], dirty_rows := []\<rparr>) {}"
    using assms(1) by (simp add: end_ok_def rows_ok_mid_def row_shown_def)
  moreover have "members_ok ds' (p\<lparr>prepared_rows := [], dirty_rows := []\<rparr>) (set (dirty ds'))"
    using assms structure_okD(1) by (auto simp: end_ok_def members_ok_def)
  ultimately show ?thesis using assms(1,2) by (simp add: session_ok_def mid_ok_def end_ok_def)
qed

text \<open>After a frame every row shows what projecting from scratch gives.\<close>

lemma gather_cong: "(\<And>i. i \<in> set is \<Longrightarrow> f i = g i) \<Longrightarrow> gather f is row = gather g is row"
  unfolding gather_def by (simp cong: map_cong)

lemma lit_up_cong: "rr_energy a = rr_energy b \<Longrightarrow> lit_up a = lit_up b"
  by (simp only: lit_up_def)

lemma group_values_gather:
  "group_values narrow (gather m is (blank_row\<lparr>rr_previous := rr_previous row, rr_committed := True\<rparr>)) v =
     group_values narrow (gather m is (row\<lparr>rr_committed := True\<rparr>)) v"
proof
  let ?a = "gather m is (blank_row\<lparr>rr_previous := rr_previous row, rr_committed := True\<rparr>)"
  let ?b = "gather m is (row\<lparr>rr_committed := True\<rparr>)"
  have sums: "rr_energy ?a = rr_energy ?b" "rr_red ?a = rr_red ?b" "rr_green ?a = rr_green ?b" "rr_blue ?a = rr_blue ?b"
    "rr_intensity ?a = rr_intensity ?b" "rr_previous ?a = rr_previous ?b" "rr_committed ?a = rr_committed ?b"
    by (simp_all add: gather_def)
  show "group_values narrow ?a v f = group_values narrow ?b v f" for f
    by (cases f) (simp_all only: group_values.simps group_color_def lit_up_cong [OF sums(1)] sums)
qed

lemma end_recomputed:
  assumes "end_ok narrow ds shown p {}" and "r < length (rows p)"
  shows "\<exists>held. show_rows (prepared_rows p) shown r = Some held \<and> held = recomputed narrow ds p r held"
proof -
  let ?row = "rows p ! r"
  have st: "structure_ok p" using assms(1) by (simp add: end_ok_def)
  have hd: "rr_representative ?row = hd (row_members p r)" using st assms(2) by (simp add: structure_ok_def)
  have committed: "rr_committed ?row" using assms by (auto simp: end_ok_def)
  have "row_shown narrow p r" using assms by (auto simp: end_ok_def rows_ok_mid_def)
  moreover have "members p ! rr_representative ?row = contribution (output_values ds (rr_representative ?row))"
    using assms(1) structure_okD(2) [OF st assms(2)] by (simp add: end_ok_def)
  ultimately have prev: "rr_previous ?row = row_values narrow ?row (output_values ds (hd (row_members p r)))"
    using committed by (simp add: row_shown_def hd)
  have "rr_previous ?row = recomputed narrow ds p r (rr_previous ?row)"
  proof (cases "rr_presentation ?row = Aggregated")
    case True
    have "?row = gather ((!) (members p)) (row_members p r) ?row" using assms True by (simp add: end_ok_def sums_ok_def)
    also have "\<dots> = gather (\<lambda>i. contribution (output_values ds i)) (row_members p r) ?row"
      by (rule gather_cong) (use assms(1) in \<open>auto simp: end_ok_def row_members_set structure_ok_def\<close>)
    finally have g: "?row = gather (\<lambda>i. contribution (output_values ds i)) (row_members p r) ?row" .
    have c: "?row\<lparr>rr_committed := True\<rparr> = ?row" using committed by (cases ?row) simp
    have "group_values narrow ?row v = group_values narrow (gather (\<lambda>i. contribution (output_values ds i)) (row_members p r)
        (blank_row\<lparr>rr_previous := rr_previous ?row, rr_committed := True\<rparr>)) v" for v
      unfolding group_values_gather by (subst c, subst g [symmetric], rule refl)
    note this [of "output_values ds (hd (row_members p r))"]
    then show ?thesis using True prev by (simp add: recomputed_def row_values_def Let_def)
  next
    case False
    then show ?thesis using prev by (simp add: recomputed_def row_values_def Let_def)
  qed
  moreover have "show_rows (prepared_rows p) shown r = Some (rr_previous ?row)"
    using assms committed by (simp add: end_ok_def displayed_def)
  ultimately show ?thesis by blast
qed

subsection \<open>Every event keeps the session in order\<close>

lemma output_values_cong: "states a ! i = states b ! i \<Longrightarrow> bindings a = bindings b \<Longrightarrow> output_values a i = output_values b i"
  by (simp add: output_values_def)

lemma compose_keeps:
  assumes "dense_ok ds" and "compose_sections gen d ints v ds = Some (ok, ds')"
  shows "\<forall>i<length (states ds). i \<notin> set (dirty ds') \<longrightarrow> i \<notin> set (dirty ds) \<and> output_values ds' i = output_values ds i"
proof (cases ok)
  case True
  define rs where "rs = frame_rows d ints v"
  define ds0 where "ds0 = ds\<lparr>unresolved_rows := 0\<rparr>"
  have ds': "ds' = fold row_effect rs ds0"
    using assms(2) compose_sections_effect [OF assms(1)] True by (auto simp: rs_def ds0_def split: if_splits)
  have ok0: "dense_ok ds0" using assms(1) by (simp add: ds0_def)
  have same: "states ds' ! i = fold stored (filter (routed ds0 i) rs) (states ds ! i)" if "i < length (states ds)" for i
    using rows_states [OF ok0, of i rs] that by (simp add: ds') (simp add: ds0_def)
  have len: "length (states ds') = length (states ds)" and b: "bindings ds' = bindings ds"
    using compose_sections_ok [OF assms] by simp_all
  have d: "i \<in> set (dirty x) \<longleftrightarrow> i < length (states x) \<and> os_mask (states x ! i) \<noteq> 0" if "dense_ok x" for x i
    using that by (auto simp: dense_ok_def dirty_ok_def)
  show ?thesis
  proof (intro allI impI)
    fix i
    assume i: "i < length (states ds)" "i \<notin> set (dirty ds')"
    then have "filter (routed ds0 i) rs = [] \<and> os_mask (states ds ! i) = 0"
      using same [of i] d [OF compose_sections_ok(1) [OF assms]] by (simp add: len stored_mask)
    then show "i \<notin> set (dirty ds) \<and> output_values ds' i = output_values ds i"
      using same [of i] i d [OF assms(1)] b by (auto intro: output_values_cong)
  qed
next
  case False
  then show ?thesis using assms(2) compose_sections_effect [OF assms(1)] by (auto split: if_splits)
qed

lemma mid_ok_stale:
  assumes "mid_ok narrow ds p stale" and "length (states ds') = length (states ds)"
    and "\<And>i. i < length (states ds) \<Longrightarrow> i \<notin> stale' \<Longrightarrow> i \<notin> stale \<and> output_values ds' i = output_values ds i"
  shows "mid_ok narrow ds' p stale'"
  using assms by (auto simp: mid_ok_def members_ok_def)

lemma render_values_output: "render_values_at i ds = (if i < length (states ds) then Some (output_values ds i) else None)"
  by (simp add: render_values_at_def output_values_def)

lemma output_values_same:
  assumes "\<And>i. render_values_at i ds' = render_values_at i ds" and "length (states ds') = length (states ds)"
    and "i < length (states ds)"
  shows "output_values ds' i = output_values ds i"
  using assms(1) [of i] assms(2,3) by (simp add: render_values_output)

lemma consume_ok:
  assumes "session_ok narrow ds p shown"
  shows "\<exists>ok ds' p'. consume_presentation narrow gen same d ints v (ds, p) = Some (ok, ds', p') \<and>
    (if ok then dense_ok ds' \<and> generation ds' = gen \<and> end_ok narrow ds' shown p' {} else session_ok narrow ds' p' shown)"
proof -
  have ok: "dense_ok ds" and mid: "mid_ok narrow ds (p\<lparr>prepared_rows := [], dirty_rows := []\<rparr>) (set (dirty ds))" and "displayed p shown"
    using assms by (simp_all add: session_ok_def)
  obtain acc ds' where c: "compose_sections gen d ints v ds = Some (acc, ds')"
    using compose_sections_effect [OF ok] by (cases "gen \<noteq> generation ds \<or> length d mod 5 \<noteq> 0 \<or> \<not> sections_valid d ints v") auto
  note ok' = compose_sections_ok [OF ok c]
  have "mid_ok narrow ds' (p\<lparr>prepared_rows := [], dirty_rows := []\<rparr>) (set (dirty ds'))"
    by (rule mid_ok_stale [OF mid ok'(3)]) (use compose_keeps [OF ok c] in blast)+
  then have s': "session_ok narrow ds' p shown" using ok'(1) \<open>displayed p shown\<close> by (simp add: session_ok_def)
  from prepare_rows_ok [OF this] obtain p' where "prepare_rows narrow ds' p = Some p'" "end_ok narrow ds' shown p' {}" by blast
  then show ?thesis using assms c s' ok'(1,4) by (cases acc) (auto simp: consume_presentation_def)
qed

lemma invalidate_rows_fields [simp]:
  "physical_to_row (invalidate_rows p) = physical_to_row p" "members (invalidate_rows p) = members p"
  "length (rows (invalidate_rows p)) = length (rows p)" "row_members (invalidate_rows p) = row_members p"
  "r < length (rows p) \<Longrightarrow> rows (invalidate_rows p) ! r = (rows p ! r)\<lparr>rr_committed := False\<rparr>"
  by (simp_all add: invalidate_rows_def row_members_def fun_eq_iff)

lemma gather_uncommitted: "row = gather m is row \<Longrightarrow> row\<lparr>rr_committed := c\<rparr> = gather m is (row\<lparr>rr_committed := c\<rparr>)"
proof -
  have "gather m is (row\<lparr>rr_committed := c\<rparr>) = (gather m is row)\<lparr>rr_committed := c\<rparr>" by (simp add: gather_def)
  then show "row = gather m is row \<Longrightarrow> row\<lparr>rr_committed := c\<rparr> = gather m is (row\<lparr>rr_committed := c\<rparr>)" by simp
qed

lemma invalidate_rows_ok:
  assumes "mid_ok narrow ds p stale" and "dirty_rows p = []" and "{..<length (members p)} \<subseteq> stale"
  shows "mid_ok narrow ds (invalidate_rows p) stale"
proof -
  have "structure_ok (invalidate_rows p)" "valid_ok (invalidate_rows p)"
    using assms(1) by (simp_all add: mid_ok_def structure_ok_def valid_ok_def)
  moreover have "sums_ok (invalidate_rows p)"
    using assms(1) gather_uncommitted by (simp add: mid_ok_def sums_ok_def)
  moreover have "members_ok ds (invalidate_rows p) stale"
    using assms(1,3) by (auto simp: mid_ok_def members_ok_def)
  moreover have "dirty_rows (invalidate_rows p) = []" using assms(2) by (simp add: invalidate_rows_def)
  moreover have "rows_ok_mid narrow (invalidate_rows p) {}"
    using assms(1,2) by (simp add: mid_ok_def rows_ok_mid_def row_shown_def)
  ultimately show ?thesis by (simp add: mid_ok_def)
qed

lemma invalidate_session_ok:
  assumes "session_ok narrow ds p shown" and "p' = p \<and> shown' = shown \<or> p' = invalidate_rows p \<and> shown' = (\<lambda>_. None)"
  shows "session_ok narrow (invalidate_renderer ds) p' shown'"
proof -
  note inv = invalidate_renderer_ok [of ds]
  have ok: "dense_ok ds" and mid: "mid_ok narrow ds (p\<lparr>prepared_rows := [], dirty_rows := []\<rparr>) (set (dirty ds))"
    using assms(1) by (simp_all add: session_ok_def)
  have stale: "mid_ok narrow (invalidate_renderer ds) (p\<lparr>prepared_rows := [], dirty_rows := []\<rparr>) (set (dirty (invalidate_renderer ds)))"
    by (rule mid_ok_stale [OF mid inv(4) [OF ok]]) (simp_all add: inv(2) [OF ok])
  have "length (states ds) = length (members p)" using mid by (simp add: mid_ok_def members_ok_def)
  then have "mid_ok narrow (invalidate_renderer ds) (invalidate_rows (p\<lparr>prepared_rows := [], dirty_rows := []\<rparr>))
      (set (dirty (invalidate_renderer ds)))"
    by (intro invalidate_rows_ok [OF stale]) (simp_all add: inv(2) [OF ok])
  moreover have "invalidate_rows (p\<lparr>prepared_rows := [], dirty_rows := []\<rparr>) = (invalidate_rows p)\<lparr>prepared_rows := [], dirty_rows := []\<rparr>"
    by (simp add: invalidate_rows_def)
  moreover have "displayed (invalidate_rows p) (\<lambda>_. None)" by (simp add: displayed_def)
  ultimately show ?thesis using assms stale inv(1) [OF ok] by (auto simp: session_ok_def)
qed

lemma session_step_ok:
  assumes "session_ok narrow ds p shown"
  shows "\<exists>ds' p' shown'. session_step narrow e (ds, p, shown) = Some (ds', p', shown') \<and> session_ok narrow ds' p' shown'"
proof (cases e)
  case (Frame gen same d ints v)
  obtain ok ds' p' where c: "consume_presentation narrow gen same d ints v (ds, p) = Some (ok, ds', p')"
    "if ok then dense_ok ds' \<and> generation ds' = gen \<and> end_ok narrow ds' shown p' {} else session_ok narrow ds' p' shown"
    using consume_ok [OF assms] by blast
  show ?thesis
  proof (cases ok)
    case True
    then have d: "dense_ok ds'" and e: "end_ok narrow ds' shown p' {}" using c(2) by simp_all
    have "session_ok narrow (finish_snapshot gen ds') p' (show_rows (prepared_rows p') shown)"
      by (rule end_session_ok [OF e finish_snapshot_ok(1,3) [OF d]])
        (use e in \<open>auto intro: output_values_same [OF finish_snapshot_ok(4,3) [OF d]] simp: end_ok_def\<close>)
    then show ?thesis using Frame c(1) True by simp
  qed (use Frame c in simp)
next
  case Replace
  then show ?thesis using invalidate_session_ok [OF assms] by simp
next
  case Replay
  then show ?thesis using invalidate_session_ok [OF assms] by simp
qed

lemma session_ok_events:
  assumes "session_ok narrow ds p shown"
  shows "\<exists>ds' p' shown'. each (session_step narrow) events (ds, p, shown) = Some (ds', p', shown') \<and> session_ok narrow ds' p' shown'"
  using assms
proof (induction events arbitrary: ds p shown)
  case (Cons e es)
  obtain ds1 p1 shown1 where "session_step narrow e (ds, p, shown) = Some (ds1, p1, shown1)" "session_ok narrow ds1 p1 shown1"
    using session_step_ok [OF Cons.prems] by blast
  then show ?case using Cons.IH by simp
qed simp

subsection \<open>Setup\<close>

lemma assign_length:
  "length (fold (\<lambda>i rs. rs[m ! i := (rs ! (m ! i))\<lparr>rr_representative := i\<rparr>]) is base) = length base"
  by (induction "is" arbitrary: base) simp_all

lemma assign_representatives:
  assumes "r < length base"
  shows "fold (\<lambda>i rs. rs[m ! i := (rs ! (m ! i))\<lparr>rr_representative := i\<rparr>]) (rev is) base ! r =
    (base ! r)\<lparr>rr_representative := (case filter (\<lambda>i. m ! i = r) is of [] \<Rightarrow> rr_representative (base ! r) | i # _ \<Rightarrow> i)\<rparr>"
proof (induction "is")
  case (Cons i "is")
  then show ?case using assms by (cases "m ! i = r") (simp_all add: assign_length)
qed simp

lemma session_start_ok:
  assumes "session_start fresh outputs targets mapping classes = Some (ds, p, shown)"
  shows "session_ok narrow ds p shown"
proof -
  obtain ds0 where ds0: "dense_install fresh outputs targets fresh_dense = (True, ds0)" "length mapping = length (bindings ds0)"
    and p: "install_projection mapping classes empty_projection = (True, p)" and e: "ds = invalidate_renderer ds0" "shown = (\<lambda>_. None)"
    using assms by (auto simp: session_start_def split: prod.splits if_splits bool.splits)
  have ok: "dense_ok ds0" using dense_install_ok [OF fresh_dense_ok(1), of fresh outputs targets] ds0(1) by simp
  note inv = invalidate_renderer_ok [OF ok]
  define base where "base = map (\<lambda>c. blank_row\<lparr>rr_presentation := c\<rparr>) classes"
  have maps: "\<forall>i<length mapping. mapping ! i < length classes" and
    counts: "\<forall>r<length classes. count_list mapping r \<noteq> 0"
    using p by (auto simp: install_projection_def list_all_iff class_fits_def all_set_conv_all_nth split: if_splits)
  have pm: "physical_to_row p = mapping" "members p = replicate (length mapping) blank_member"
    and rows: "rows p = fold (\<lambda>i rs. rs[mapping ! i := (rs ! (mapping ! i))\<lparr>rr_representative := i\<rparr>]) (rev [0..<length mapping]) base"
    using p by (auto simp: install_projection_def base_def split: if_splits)
  have len: "length (rows p) = length classes"
    by (simp add: rows assign_length base_def)
  have ne: "row_members p r \<noteq> []" if "r < length classes" for r
  proof -
    have "r \<in> set mapping" using counts that by (auto simp: count_list_0_iff)
    then show ?thesis by (auto simp: row_members_def pm filter_empty_conv in_set_conv_nth)
  qed
  have row: "rows p ! r = blank_row\<lparr>rr_presentation := classes ! r, rr_representative := hd (row_members p r)\<rparr>"
    if "r < length classes" for r
  proof -
    have "row_members p r \<noteq> []" by (rule ne [OF that])
    then obtain i is' where "filter (\<lambda>i. mapping ! i = r) [0..<length mapping] = i # is'"
      by (auto simp: row_members_def pm neq_Nil_conv)
    then show ?thesis
      using assign_representatives [of r base mapping "[0..<length mapping]"] that
      by (simp add: rows row_members_def pm) (simp add: base_def)
  qed
  have "structure_ok p"
    using ne maps by (auto simp: structure_ok_def len row pm)
  moreover have zero: "(\<Sum>i\<leftarrow>row_members p r. f (members p ! i)) = 0" if "f blank_member = (0::real)" for f r
  proof -
    have "map (\<lambda>i. f (members p ! i)) (row_members p r) = map (\<lambda>_. 0) (row_members p r)"
      using that by (auto simp: row_members_def pm)
    then show ?thesis by (simp only: sum_list_0)
  qed
  then have "sums_ok p" by (simp add: sums_ok_def len row gather_def blank_member_def blank_row_def)
  moreover have "valid_ok p" by (auto simp: valid_ok_def pm blank_member_def)
  moreover have "rows_ok_mid narrow p {}" by (auto simp: rows_ok_mid_def len row blank_row_def row_shown_def)
  moreover have "length (states ds0) = length mapping" using ok ds0(2) by (simp add: dense_ok_length)
  then have "members_ok ds p (set (dirty ds))" using inv(2,4) by (auto simp: members_ok_def e pm)
  moreover have "p\<lparr>prepared_rows := [], dirty_rows := []\<rparr> = p"
    using p by (auto simp: install_projection_def split: if_splits)
  moreover have "dirty_rows p = []" using p by (auto simp: install_projection_def split: if_splits)
  moreover have "displayed p shown" by (simp add: displayed_def len row blank_row_def)
  ultimately show ?thesis using inv(1) by (simp add: session_ok_def mid_ok_def e)
qed

text \<open>C8: The sums that the projection keeps up to date by differences are never off: set up a session, let any frames
  arrive, be it rejected or of a stale generation, replace or replay the renderer at any time, and no step leaves the bounds of an
  array; and after any further frame that is accepted, every row of the renderer shows what adding up the
  contributions of all its physical outputs anew would give (a dark group keeps its colour), although only the
  rows that changed were published.\<close>

theorem projection_is_recomputed:
  assumes "session_start fresh outputs targets mapping classes = Some s"
  shows "\<exists>ds p shown. each (session_step narrow) events s = Some (ds, p, shown) \<and>
    (\<forall>gen same d ints v. \<exists>accepted ds' p'. consume_presentation narrow gen same d ints v (ds, p) = Some (accepted, ds', p') \<and>
       (accepted \<longrightarrow> (\<forall>r<length (rows p'). \<exists>held. show_rows (prepared_rows p') shown r = Some held \<and>
          held = recomputed narrow ds' p' r held)))"
proof -
  obtain ds0 p0 shown0 where s: "s = (ds0, p0, shown0)" by (cases s) auto
  have "session_ok narrow ds0 p0 shown0" using assms unfolding s by (rule session_start_ok)
  from session_ok_events [OF this, of events] obtain ds p shown
    where run: "each (session_step narrow) events s = Some (ds, p, shown)" and ok: "session_ok narrow ds p shown"
    by (auto simp: s)
  have "\<exists>accepted ds' p'. consume_presentation narrow gen same d ints v (ds, p) = Some (accepted, ds', p') \<and>
       (accepted \<longrightarrow> (\<forall>r<length (rows p'). \<exists>held. show_rows (prepared_rows p') shown r = Some held \<and>
          held = recomputed narrow ds' p' r held))" for gen same d ints v
  proof -
    obtain acc ds' p' where c: "consume_presentation narrow gen same d ints v (ds, p) = Some (acc, ds', p')"
      and e: "if acc then dense_ok ds' \<and> generation ds' = gen \<and> end_ok narrow ds' shown p' {} else session_ok narrow ds' p' shown"
      using consume_ok [OF ok] by blast
    have "acc \<longrightarrow> (\<forall>r<length (rows p'). \<exists>held. show_rows (prepared_rows p') shown r = Some held \<and>
        held = recomputed narrow ds' p' r held)"
      using e end_recomputed by simp
    with c show ?thesis by blast
  qed
  with run show ?thesis by blast
qed

text \<open>Two outputs in one group, a frame with a dimmer row for the first.\<close>

definition pair_frame :: event where
  "pair_frame = Frame 7 True [2, 1, 0, 0, 0] [9, 5, 0] [Some 1, Some 3, Some 3, Some 1, Some 0]"

theorem projection_is_recomputed_witness:
  "\<exists>s ds p shown. session_start 7 [\<lparr>canonical_id = 1, projected_scale = Some 1\<rparr>, \<lparr>canonical_id = 2, projected_scale = Some 1\<rparr>]
       [\<lparr>target_section = 2, target_id = 5, output_index = 0\<rparr>] [0, 0] [Aggregated] = Some s \<and>
     each (session_step (\<lambda>x. x)) [pair_frame, Replace] s = Some (ds, p, shown)"
proof -
  obtain s where s: "session_start 7 [\<lparr>canonical_id = 1, projected_scale = Some 1\<rparr>, \<lparr>canonical_id = 2, projected_scale = Some 1\<rparr>]
      [\<lparr>target_section = 2, target_id = 5, output_index = 0\<rparr>] [0, 0] [Aggregated] = Some s"
    by (auto simp: session_start_def dense_install_def install_projection_def class_fits_def lit_section_def dense_clear_def)
  from projection_is_recomputed [OF s, of "\<lambda>x. x" "[pair_frame, Replace]"] s show ?thesis by blast
qed

end
