(* ===== verification/Worker_Pool.thy ===== *)
theory Worker_Pool
  imports Prelude
begin

text \<open>
  \<open>NativeWorkerPool\<close> (\<open>runtime/native_worker_pool.cpp\<close>): a batch of \<open>n\<close> items is cut into ranges, one for each
  participating thread; a barrier waits for all threads, and if a range has thrown, the whole batch
  runs again on the calling thread. The theorems: the ranges partition the batch, \<open>run\<close> returns
  after at most three steps of each thread, and its result is that of the serial loop.

  The mutex makes what a thread does under it one step; the callback runs between two such steps.
  Item \<open>j\<close> of a batch has the result \<open>g j\<close>; a range that throws leaves anything in its own items. Clocks and
  the costs derived from them are left out: whether a batch is worth the threads is the outcome \<open>cheaper\<close> of their
  comparison.
\<close>

subsection \<open>Ranges\<close>

definition range_begin :: "nat \<Rightarrow> nat \<Rightarrow> nat \<Rightarrow> nat" where
  "range_begin n used i = n * i div used"

definition range_items :: "nat \<Rightarrow> nat \<Rightarrow> nat \<Rightarrow> nat set" where
  "range_items n used i = {range_begin n used i ..< range_begin n used (i + 1)}"

text \<open>\<open>worthwhile\<close> counts its decisions; \<open>run\<close> chooses the threads that take part.\<close>

definition worthwhile :: "nat \<Rightarrow> bool \<Rightarrow> bool \<Rightarrow> nat \<Rightarrow> nat \<Rightarrow> u64 \<Rightarrow> bool \<times> u64" where
  "worthwhile threads force cheaper n minimum decisions =
     (if threads < 2 \<or> n < 2 then (False, decisions)
      else if force then (True, decisions)
      else if n \<ge> minimum then ((decisions + 1) mod 32 = 0 \<or> cheaper, decisions + 1)
      else (False, decisions))"

definition participants_for :: "nat \<Rightarrow> bool \<Rightarrow> nat \<Rightarrow> nat \<Rightarrow> nat" where
  "participants_for threads force n minimum = min threads (if force then n else max 2 (n div max 1 minimum))"

lemma range_begin_mono: "i \<le> j \<Longrightarrow> range_begin n used i \<le> range_begin n used j"
  by (simp add: range_begin_def div_le_mono)

lemma range_ends: "range_begin n used 0 = 0" "used > 0 \<Longrightarrow> range_begin n used used = n"
  by (simp_all add: range_begin_def)

lemma range_items_disjoint:
  assumes "i \<noteq> j"
  shows "range_items n used i \<inter> range_items n used j = {}"
proof -
  have "range_begin n used (a + 1) \<le> range_begin n used b" if "a < b" for a b
    using that by (intro range_begin_mono) simp
  then show ?thesis using assms by (fastforce simp: range_items_def neq_iff)
qed

lemma range_items_cover:
  assumes "used > 0" and "j < n"
  shows "\<exists>i<used. j \<in> range_items n used i"
proof -
  have ex: "j < range_begin n used (used - 1 + 1)" using assms range_ends(2) [of used n] by simp
  define i where "i = (LEAST i. j < range_begin n used (i + 1))"
  have i: "j < range_begin n used (i + 1)" "i \<le> used - 1"
    unfolding i_def
    by (rule LeastI [where P = "\<lambda>i. j < range_begin n used (i + 1)", OF ex],
        rule Least_le [where P = "\<lambda>i. j < range_begin n used (i + 1)", OF ex])
  have "range_begin n used i \<le> j"
  proof (cases i)
    case (Suc k)
    then have "\<not> j < range_begin n used (k + 1)" using not_less_Least [of k "\<lambda>i. j < range_begin n used (i + 1)"] by (simp add: i_def)
    then show ?thesis using Suc by simp
  qed (simp add: range_ends)
  then show ?thesis using i assms(1) by (intro exI [of _ i]) (auto simp: range_items_def)
qed

lemma range_items_below:
  assumes "i < used"
  shows "range_items n used i \<subseteq> {..<n}"
proof -
  have "range_begin n used (i + 1) \<le> n"
    using range_begin_mono [of "i + 1" used n used] range_ends(2) [of used n] assms by simp
  then show ?thesis by (auto simp: range_items_def)
qed

subsection \<open>State\<close>

text \<open>A worker waits having observed an epoch, or runs with the epoch and the batch it copied under the mutex, or is
  about to report; the caller of \<open>run\<close> is ready, blocked at the barrier, or about to retry.\<close>

datatype worker_pc = Waiting u64 | Running u64 nat nat | Reporting u64

datatype caller_pc = Ready | Blocked | Retry

text \<open>The last field records the batch that the last call owes its caller, none when the call has thrown.\<close>

record 'r pool =
  pool_epoch :: u64
  pool_count :: nat
  pool_participants :: nat
  pool_completed :: nat
  pool_workers :: "worker_pc list"
  pool_failures :: "bool list"
  pool_output :: "nat \<Rightarrow> 'r option"
  pool_caller :: caller_pc
  pool_request :: "nat \<times> (nat \<Rightarrow> 'r)"

definition pool_start :: "nat \<Rightarrow> 'r pool" where
  "pool_start threads = \<lparr>pool_epoch = 0, pool_count = 0, pool_participants = 0, pool_completed = 0,
     pool_workers = replicate threads (Waiting 0), pool_failures = replicate threads False,
     pool_output = (\<lambda>_. None), pool_caller = Ready, pool_request = (0, \<lambda>_. undefined)\<rparr>"

definition serial :: "(nat \<Rightarrow> 'r) \<Rightarrow> nat \<Rightarrow> nat \<Rightarrow> 'r option" where
  "serial g n j = (if j < n then Some (g j) else None)"

definition write_items :: "nat set \<Rightarrow> (nat \<Rightarrow> 'r) \<Rightarrow> (nat \<Rightarrow> 'r option) \<Rightarrow> nat \<Rightarrow> 'r option" where
  "write_items items g out j = (if j \<in> items then Some (g j) else out j)"

subsection \<open>Steps\<close>

text \<open>\<open>run\<close> up to the barrier: alone, or with the threads.\<close>

definition dispatch :: "nat \<Rightarrow> nat \<Rightarrow> (nat \<Rightarrow> 'r) \<Rightarrow> 'r pool \<Rightarrow> 'r pool" where
  "dispatch n used g p = p\<lparr>pool_count := n, pool_participants := used, pool_completed := 0,
     pool_epoch := pool_epoch p + 1, pool_output := (\<lambda>_. None), pool_caller := Blocked, pool_request := (n, g)\<rparr>"

inductive call_step :: "'r pool \<Rightarrow> 'r pool \<Rightarrow> bool" where
  alone: "pool_caller p = Ready \<Longrightarrow> \<not> fst (worthwhile (length (pool_workers p)) force cheaper n minimum decisions) \<Longrightarrow>
    call_step p (p\<lparr>pool_output := serial g n, pool_request := (n, g)\<rparr>)"
| threads: "pool_caller p = Ready \<Longrightarrow> fst (worthwhile (length (pool_workers p)) force cheaper n minimum decisions) \<Longrightarrow>
    call_step p (dispatch n (participants_for (length (pool_workers p)) force n minimum) g p)"

text \<open>The threads, the barrier and the retry, which may throw to the caller of \<open>run\<close>.\<close>

inductive batch_step :: "'r pool \<Rightarrow> 'r pool \<Rightarrow> bool" where
  wake: "i < length (pool_workers p) \<Longrightarrow> pool_workers p ! i = Waiting seen \<Longrightarrow> pool_epoch p \<noteq> seen \<Longrightarrow>
    batch_step p (p\<lparr>pool_workers := (pool_workers p)[i := Running (pool_epoch p) (pool_count p) (pool_participants p)]\<rparr>)"
| finish: "i < length (pool_workers p) \<Longrightarrow> pool_workers p ! i = Running seen n used \<Longrightarrow> i < used \<Longrightarrow>
    batch_step p (p\<lparr>pool_workers := (pool_workers p)[i := Reporting seen], pool_failures := (pool_failures p)[i := False],
      pool_output := write_items (range_items n used i) (snd (pool_request p)) (pool_output p)\<rparr>)"
| throw: "i < length (pool_workers p) \<Longrightarrow> pool_workers p ! i = Running seen n used \<Longrightarrow> i < used \<Longrightarrow>
    \<forall>j. j \<notin> range_items n used i \<longrightarrow> out j = pool_output p j \<Longrightarrow>
    batch_step p (p\<lparr>pool_workers := (pool_workers p)[i := Reporting seen], pool_failures := (pool_failures p)[i := True],
      pool_output := out\<rparr>)"
| idle: "i < length (pool_workers p) \<Longrightarrow> pool_workers p ! i = Running seen n used \<Longrightarrow> \<not> i < used \<Longrightarrow>
    batch_step p (p\<lparr>pool_workers := (pool_workers p)[i := Reporting seen], pool_failures := (pool_failures p)[i := False]\<rparr>)"
| report: "i < length (pool_workers p) \<Longrightarrow> pool_workers p ! i = Reporting seen \<Longrightarrow>
    batch_step p (p\<lparr>pool_workers := (pool_workers p)[i := Waiting seen], pool_completed := pool_completed p + 1\<rparr>)"
| barrier: "pool_caller p = Blocked \<Longrightarrow> pool_completed p = length (pool_workers p) \<Longrightarrow>
    batch_step p (p\<lparr>pool_caller := (if \<exists>i<pool_participants p. pool_failures p ! i then Retry else Ready)\<rparr>)"
| retry: "pool_caller p = Retry \<Longrightarrow>
    batch_step p (p\<lparr>pool_caller := Ready,
      pool_output := (\<lambda>j. if j < pool_count p then Some (snd (pool_request p) j) else pool_output p j)\<rparr>)"
| rethrow: "pool_caller p = Retry \<Longrightarrow>
    batch_step p (p\<lparr>pool_caller := Ready, pool_output := out, pool_request := (0, snd (pool_request p))\<rparr>)"

inductive pool_reaches :: "'r pool \<Rightarrow> 'r pool \<Rightarrow> bool" for p where
  here: "pool_reaches p p"
| called: "pool_reaches p q \<Longrightarrow> call_step q r \<Longrightarrow> pool_reaches p r"
| stepped: "pool_reaches p q \<Longrightarrow> batch_step q r \<Longrightarrow> pool_reaches p r"

subsection \<open>Invariant\<close>

text \<open>The batch a worker has still to take: it observed the epoch before.\<close>

definition worker_ok :: "'r pool \<Rightarrow> worker_pc \<Rightarrow> bool" where
  "worker_ok p w \<longleftrightarrow> w \<in> {Waiting (pool_epoch p - 1), Running (pool_epoch p) (pool_count p) (pool_participants p), Reporting (pool_epoch p), Waiting (pool_epoch p)}"

definition done_here :: "'r pool \<Rightarrow> worker_pc \<Rightarrow> bool" where
  "done_here p w \<longleftrightarrow> w = Reporting (pool_epoch p) \<or> w = Waiting (pool_epoch p)"

definition blocked_ok :: "'r pool \<Rightarrow> bool" where
  "blocked_ok p \<longleftrightarrow> 0 < pool_participants p \<and> pool_participants p \<le> length (pool_workers p) \<and>
     fst (pool_request p) = pool_count p \<and> (\<forall>w\<in>set (pool_workers p). worker_ok p w) \<and>
     pool_completed p = length (filter ((=) (Waiting (pool_epoch p))) (pool_workers p)) \<and>
     (\<forall>i<pool_participants p. done_here p (pool_workers p ! i) \<longrightarrow> pool_failures p ! i \<or>
        (\<forall>j\<in>range_items (pool_count p) (pool_participants p) i. pool_output p j = Some (snd (pool_request p) j)))"

definition all_waiting :: "'r pool \<Rightarrow> bool" where
  "all_waiting p \<longleftrightarrow> (\<forall>w\<in>set (pool_workers p). w = Waiting (pool_epoch p))"

definition answered :: "'r pool \<Rightarrow> bool" where
  "answered p \<longleftrightarrow> (\<forall>j<fst (pool_request p). pool_output p j = Some (snd (pool_request p) j))"

definition pool_ok :: "nat \<Rightarrow> 'r pool \<Rightarrow> bool" where
  "pool_ok threads p \<longleftrightarrow> length (pool_workers p) = threads \<and> length (pool_failures p) = threads \<and>
     (case pool_caller p of
        Ready \<Rightarrow> all_waiting p \<and> answered p
      | Blocked \<Rightarrow> blocked_ok p
      | Retry \<Rightarrow> all_waiting p \<and> fst (pool_request p) = pool_count p)"

lemma worthwhile_threads:
  "fst (worthwhile threads force cheaper n minimum decisions) \<Longrightarrow>
     0 < participants_for threads force n minimum \<and> participants_for threads force n minimum \<le> threads"
  by (auto simp: worthwhile_def participants_for_def split: if_splits)

lemma epoch_moves: "(e :: u64) + 1 \<noteq> e"
  by simp

lemma call_step_ok:
  assumes "call_step p q" and "pool_ok threads p"
  shows "pool_ok threads q"
  using assms
proof (cases rule: call_step.cases)
  case (alone force cheaper n minimum decisions g)
  then show ?thesis using assms(2) by (simp add: pool_ok_def all_waiting_def answered_def serial_def)
next
  case (threads force cheaper n minimum decisions g)
  have "w = Waiting (pool_epoch p)" if "w \<in> set (pool_workers p)" for w
    using assms(2) threads(2) that by (simp add: pool_ok_def all_waiting_def)
  then have "filter ((=) (Waiting (pool_epoch p + 1))) (pool_workers p) = []"
    and "\<forall>w\<in>set (pool_workers p). worker_ok q w" and "\<forall>w\<in>set (pool_workers p). \<not> done_here q w"
    by (fastforce simp: filter_empty_conv worker_ok_def done_here_def threads(1) dispatch_def)+
  then show ?thesis using assms(2) threads worthwhile_threads [OF threads(3)]
    by (simp add: pool_ok_def blocked_ok_def dispatch_def)
qed

lemma length_filter_update:
  "i < length xs \<Longrightarrow>
     length (filter P (xs[i := x])) + (if P (xs ! i) then 1 else 0) = length (filter P xs) + (if P x then 1 else 0)"
proof (induction xs arbitrary: i)
  case (Cons y ys)
  then show ?case by (cases i) auto
qed simp

lemma busy_worker:
  assumes "pool_ok threads p" and "i < length (pool_workers p)" and "pool_workers p ! i \<noteq> Waiting (pool_epoch p)"
  shows "pool_caller p = Blocked \<and> blocked_ok p \<and> worker_ok p (pool_workers p ! i)"
proof -
  have "\<not> all_waiting p" using assms(2,3) by (auto simp: all_waiting_def)
  then have "pool_caller p = Blocked \<and> blocked_ok p" using assms(1) by (cases "pool_caller p") (simp_all add: pool_ok_def)
  then show ?thesis using assms(2) by (simp add: blocked_ok_def)
qed

text \<open>A worker that moves to \<open>w\<close> keeps the barrier's invariant when what it owes at \<open>w\<close> is paid.\<close>

lemma worker_move_ok:
  assumes "pool_ok threads p" and "i < length (pool_workers p)" and "pool_workers p ! i \<noteq> Waiting (pool_epoch p)"
    and q: "q = p\<lparr>pool_workers := (pool_workers p)[i := w], pool_failures := fs, pool_output := out, pool_completed := c\<rparr>"
    and "length fs = threads" and "worker_ok p w" and "c = pool_completed p + (if w = Waiting (pool_epoch p) then 1 else 0)"
    and "\<And>k. k \<noteq> i \<Longrightarrow> fs ! k = pool_failures p ! k"
    and "\<And>k j. k \<noteq> i \<Longrightarrow> j \<in> range_items (pool_count p) (pool_participants p) k \<Longrightarrow> out j = pool_output p j"
    and "done_here p w \<Longrightarrow> i < pool_participants p \<Longrightarrow> fs ! i \<or>
      (\<forall>j\<in>range_items (pool_count p) (pool_participants p) i. out j = Some (snd (pool_request p) j))"
  shows "pool_ok threads q"
proof -
  have b: "pool_caller p = Blocked" "blocked_ok p" using busy_worker [OF assms(1-3)] by simp_all
  have same: "worker_ok q = worker_ok p" "done_here q = done_here p" by (simp_all add: fun_eq_iff worker_ok_def done_here_def q)
  have "c = length (filter ((=) (Waiting (pool_epoch p))) ((pool_workers p)[i := w]))"
    using length_filter_update [OF assms(2), of "(=) (Waiting (pool_epoch p))" w] assms(3,7) b(2)
    by (auto simp: blocked_ok_def split: if_splits)
  moreover have "\<forall>v\<in>set ((pool_workers p)[i := w]). worker_ok p v"
    using b(2) assms(6) by (auto simp: blocked_ok_def dest!: set_update_subset_insert [THEN subsetD])
  moreover have "fs ! k \<or> (\<forall>j\<in>range_items (pool_count p) (pool_participants p) k. out j = Some (snd (pool_request p) j))"
    if k: "k < pool_participants p" "done_here p ((pool_workers p)[i := w] ! k)" for k
  proof (cases "k = i")
    case True
    then show ?thesis using assms(2,10) k by simp
  next
    case False
    then have "pool_failures p ! k \<or> (\<forall>j\<in>range_items (pool_count p) (pool_participants p) k. pool_output p j = Some (snd (pool_request p) j))"
      using b(2) k by (simp add: blocked_ok_def)
    then show ?thesis using assms(8) [OF False] assms(9) [OF False] by auto
  qed
  ultimately have "blocked_ok q" using b(2) by (simp add: blocked_ok_def same) (simp add: q)
  then show ?thesis using assms(1,5) b(1) by (simp add: pool_ok_def q)
qed

lemma other_range:
  assumes "j \<in> range_items n used k" and "k \<noteq> i"
  shows "j \<notin> range_items n used i"
  using range_items_disjoint [OF assms(2), of n used] assms(1) by blast

lemma running_batch:
  assumes "pool_ok threads p" and "i < length (pool_workers p)" and "pool_workers p ! i = Running seen n used"
  shows "seen = pool_epoch p" and "n = pool_count p" and "used = pool_participants p"
  using busy_worker [OF assms(1,2)] assms(3) by (simp_all add: worker_ok_def)

lemma caller_moves [simp]:
  "all_waiting (p\<lparr>pool_caller := c\<rparr>) = all_waiting p" "answered (p\<lparr>pool_caller := c\<rparr>) = answered p"
  by (simp_all add: all_waiting_def answered_def)

lemma length_filter_all: "length (filter P xs) = length xs \<Longrightarrow> x \<in> set xs \<Longrightarrow> P x"
  using length_filter_less [of x xs P] by auto

lemma batch_step_ok:
  assumes "batch_step p q" and "pool_ok threads p"
  shows "pool_ok threads q"
  using assms(1)
proof (cases rule: batch_step.cases)
  case (wake i seen)
  show ?thesis
    by (rule worker_move_ok [OF assms(2) wake(2), where w = "Running (pool_epoch p) (pool_count p) (pool_participants p)"
          and fs = "pool_failures p" and out = "pool_output p" and c = "pool_completed p"])
      (use wake assms(2) in \<open>auto simp: worker_ok_def done_here_def pool_ok_def\<close>)
next
  case (finish i seen n used)
  note run = running_batch [OF assms(2) finish(2,3)]
  show ?thesis
    by (rule worker_move_ok [OF assms(2) finish(2), where w = "Reporting seen" and fs = "(pool_failures p)[i := False]"
          and out = "write_items (range_items n used i) (snd (pool_request p)) (pool_output p)" and c = "pool_completed p"])
      (use finish assms(2) run in \<open>auto simp: worker_ok_def pool_ok_def write_items_def dest: other_range\<close>)
next
  case (throw i seen n used out)
  note run = running_batch [OF assms(2) throw(2,3)]
  show ?thesis
    by (rule worker_move_ok [OF assms(2) throw(2), where w = "Reporting seen" and fs = "(pool_failures p)[i := True]"
          and out = out and c = "pool_completed p"])
      (use throw assms(2) run in \<open>auto simp: worker_ok_def pool_ok_def dest: other_range\<close>)
next
  case (idle i seen n used)
  note run = running_batch [OF assms(2) idle(2,3)]
  show ?thesis
    by (rule worker_move_ok [OF assms(2) idle(2), where w = "Reporting seen" and fs = "(pool_failures p)[i := False]"
          and out = "pool_output p" and c = "pool_completed p"])
      (use idle assms(2) run in \<open>auto simp: worker_ok_def pool_ok_def\<close>)
next
  case (report i seen)
  have "blocked_ok p" and seen: "seen = pool_epoch p"
    using busy_worker [OF assms(2) report(2)] report(3) by (simp_all add: worker_ok_def)
  then have "i < pool_participants p \<Longrightarrow> pool_failures p ! i \<or>
      (\<forall>j\<in>range_items (pool_count p) (pool_participants p) i. pool_output p j = Some (snd (pool_request p) j))"
    using report(3) seen by (simp add: blocked_ok_def done_here_def)
  then show ?thesis
    by (intro worker_move_ok [OF assms(2) report(2), where w = "Waiting (pool_epoch p)"
          and fs = "pool_failures p" and out = "pool_output p" and c = "pool_completed p + 1"])
      (use report assms(2) seen in \<open>auto simp: worker_ok_def pool_ok_def\<close>)
next
  case barrier
  have b: "blocked_ok p" using assms(2) barrier(2) by (simp add: pool_ok_def)
  then have "length (filter ((=) (Waiting (pool_epoch p))) (pool_workers p)) = length (pool_workers p)"
    using barrier(3) by (simp add: blocked_ok_def)
  then have w: "\<forall>w\<in>set (pool_workers p). w = Waiting (pool_epoch p)" using length_filter_all by fastforce
  have "answered p" if "\<not> (\<exists>i<pool_participants p. pool_failures p ! i)"
    unfolding answered_def
  proof (intro allI impI)
    fix j
    assume "j < fst (pool_request p)"
    then have "j < pool_count p" using b by (simp add: blocked_ok_def)
    then obtain i where i: "i < pool_participants p" "j \<in> range_items (pool_count p) (pool_participants p) i"
      using range_items_cover b by (metis blocked_ok_def)
    then have "done_here p (pool_workers p ! i)" using w b by (auto simp: done_here_def blocked_ok_def)
    then show "pool_output p j = Some (snd (pool_request p) j)" using b i that by (auto simp: blocked_ok_def)
  qed
  moreover have "all_waiting p" using w by (simp add: all_waiting_def)
  ultimately show ?thesis using assms(2) b unfolding barrier(1)
    by (cases "\<exists>i<pool_participants p. pool_failures p ! i") (simp_all add: pool_ok_def blocked_ok_def)
next
  case retry
  then show ?thesis using assms(2) by (simp add: pool_ok_def all_waiting_def answered_def)
next
  case (rethrow out)
  then show ?thesis using assms(2) by (simp add: pool_ok_def all_waiting_def answered_def)
qed

lemma pool_reaches_ok:
  assumes "pool_reaches (pool_start threads) p"
  shows "pool_ok threads p"
  using assms
proof (induction rule: pool_reaches.induct)
  case here
  show ?case by (simp add: pool_ok_def pool_start_def all_waiting_def answered_def)
qed (auto intro: call_step_ok batch_step_ok)

subsection \<open>Every batch ends\<close>

fun worker_rank :: "u64 \<Rightarrow> worker_pc \<Rightarrow> nat" where
  "worker_rank e (Waiting seen) = (if seen = e then 0 else 3)"
| "worker_rank e (Running seen n used) = 2"
| "worker_rank e (Reporting seen) = 1"

definition pool_rank :: "'r pool \<Rightarrow> nat" where
  "pool_rank p = (\<Sum>w\<leftarrow>pool_workers p. worker_rank (pool_epoch p) w) +
     (case pool_caller p of Ready \<Rightarrow> 0 | Retry \<Rightarrow> 1 | Blocked \<Rightarrow> 2)"

lemma sum_list_update:
  fixes f :: "'a \<Rightarrow> nat"
  shows "i < length xs \<Longrightarrow> (\<Sum>y\<leftarrow>xs[i := x]. f y) + f (xs ! i) = (\<Sum>y\<leftarrow>xs. f y) + f x"
proof (induction xs arbitrary: i)
  case (Cons y ys)
  then show ?case by (cases i) (auto simp: algebra_simps)
qed simp

lemma worker_move_rank:
  assumes "i < length (pool_workers p)" and "worker_rank (pool_epoch p) w < worker_rank (pool_epoch p) (pool_workers p ! i)"
    and "pool_workers q = (pool_workers p)[i := w]" and "pool_epoch q = pool_epoch p" and "pool_caller q = pool_caller p"
  shows "pool_rank q < pool_rank p"
  using sum_list_update [OF assms(1), of "worker_rank (pool_epoch p)" w] assms(2-) by (simp add: pool_rank_def)

lemma batch_step_rank:
  assumes "batch_step p q" and "pool_ok threads p"
  shows "pool_rank q < pool_rank p"
  using assms(1)
proof (cases rule: batch_step.cases)
  case (wake i seen)
  then show ?thesis by (intro worker_move_rank [where i = i]) simp_all
next
  case (finish i seen n used)
  then show ?thesis by (intro worker_move_rank [where i = i]) simp_all
next
  case (throw i seen n used out)
  then show ?thesis by (intro worker_move_rank [where i = i]) simp_all
next
  case (idle i seen n used)
  then show ?thesis by (intro worker_move_rank [where i = i]) simp_all
next
  case (report i seen)
  moreover have "seen = pool_epoch p" using busy_worker [OF assms(2) report(2)] report(3) by (simp add: worker_ok_def)
  ultimately show ?thesis by (intro worker_move_rank [where i = i]) simp_all
qed (simp_all add: pool_rank_def)

lemma pool_rank_bound: "pool_rank p \<le> 3 * length (pool_workers p) + 2"
proof -
  have "worker_rank e w \<le> 3" for e w by (cases w) simp_all
  then have "(\<Sum>w\<leftarrow>ws. worker_rank e w) \<le> 3 * length ws" for ws e
    by (induction ws) (simp_all add: add_mono)
  from this [of "pool_epoch p" "pool_workers p"] show ?thesis by (simp add: pool_rank_def split: caller_pc.split)
qed

lemma batch_steps_bound:
  "pool_ok threads p \<Longrightarrow> (batch_step ^^ k) p q \<Longrightarrow> k + pool_rank q \<le> pool_rank p \<and> pool_ok threads q"
proof (induction k arbitrary: q)
  case (Suc k)
  then obtain r where r: "(batch_step ^^ k) p r" "batch_step r q" by auto
  then show ?case using Suc.IH [OF Suc.prems(1) r(1)] batch_step_rank [OF r(2)] batch_step_ok [OF r(2)] by force
qed simp

lemma batch_progress:
  assumes "pool_ok threads p"
  shows "pool_caller p = Ready \<longleftrightarrow> \<not> (\<exists>q. batch_step p q)"
proof
  assume ready: "pool_caller p = Ready"
  then have w: "\<forall>i<length (pool_workers p). pool_workers p ! i = Waiting (pool_epoch p)"
    using assms by (simp add: pool_ok_def all_waiting_def)
  show "\<not> (\<exists>q. batch_step p q)"
  proof
    assume "\<exists>q. batch_step p q"
    then obtain q where "batch_step p q" ..
    then show False using ready w by (cases rule: batch_step.cases) auto
  qed
next
  assume stuck: "\<not> (\<exists>q. batch_step p q)"
  show "pool_caller p = Ready"
  proof (cases "pool_caller p")
    case Retry
    then show ?thesis using stuck batch_step.retry by blast
  next
    case Blocked
    then have b: "blocked_ok p" using assms by (simp add: pool_ok_def)
    have "w = Waiting (pool_epoch p)" if "w \<in> set (pool_workers p)" for w
    proof (rule ccontr)
      assume ne: "w \<noteq> Waiting (pool_epoch p)"
      obtain i where i: "i < length (pool_workers p)" "pool_workers p ! i = w" using \<open>w \<in> set (pool_workers p)\<close> by (auto simp: in_set_conv_nth)
      have "worker_ok p w" using b that by (simp add: blocked_ok_def)
      then consider "w = Waiting (pool_epoch p - 1)" | "w = Running (pool_epoch p) (pool_count p) (pool_participants p)" | "w = Reporting (pool_epoch p)"
        using ne by (auto simp: worker_ok_def)
      then show False
      proof cases
        case 1
        then show False using stuck batch_step.wake [OF i(1), of "pool_epoch p - 1"] i(2) by auto
      next
        case 2
        then show False using stuck batch_step.finish [OF i(1)] batch_step.idle [OF i(1)] i(2) by metis
      next
        case 3
        then show False using stuck batch_step.report [OF i(1)] i(2) by blast
      qed
    qed
    then have "filter ((=) (Waiting (pool_epoch p))) (pool_workers p) = pool_workers p" by (auto intro!: filter_True)
    then have "pool_completed p = length (pool_workers p)" using b by (simp add: blocked_ok_def)
    then show ?thesis using stuck batch_step.barrier [OF Blocked] by blast
  qed simp
qed

lemma reaches_steps: "pool_reaches s p \<Longrightarrow> (batch_step ^^ k) p q \<Longrightarrow> pool_reaches s q"
  by (induction k arbitrary: q) (auto intro: pool_reaches.stepped)

text \<open>C20: A call of \<open>run\<close> always returns, in whatever order the threads move and whichever ranges throw: at most
  three steps of each thread and two of the caller follow, and as long as the call has not returned somebody
  can move, so no thread waits for ever.\<close>

theorem run_returns:
  assumes "pool_reaches (pool_start threads) p" and "(batch_step ^^ k) p q"
  shows "k \<le> 3 * threads + 2 \<and> (pool_caller q = Ready \<longleftrightarrow> \<not> (\<exists>r. batch_step q r))"
proof -
  have "length (pool_workers p) = threads" using pool_reaches_ok [OF assms(1)] by (simp add: pool_ok_def)
  then have "k \<le> 3 * threads + 2"
    using batch_steps_bound [OF pool_reaches_ok [OF assms(1)] assms(2)] pool_rank_bound [of p] by simp
  then show ?thesis using batch_progress [OF pool_reaches_ok [OF reaches_steps [OF assms]]] by blast
qed

text \<open>C10: When \<open>run\<close> has returned, every item of the batch has the result that the serial loop gives it,
  whether the batch ran alone or on the threads and whichever ranges threw and were retried.\<close>

theorem pool_equals_serial:
  assumes "pool_reaches (pool_start threads) p" and "pool_caller p = Ready" and "j < fst (pool_request p)"
  shows "pool_output p j = serial (snd (pool_request p)) (fst (pool_request p)) j"
  using pool_reaches_ok [OF assms(1)] assms(2,3) by (simp add: pool_ok_def answered_def serial_def)

subsection \<open>A batch of four on two threads\<close>

definition squares :: "nat \<Rightarrow> nat" where
  "squares j = j * j"

definition pair_dispatched :: "nat pool" where
  "pair_dispatched = dispatch 4 2 squares (pool_start 2)"

lemma pair_dispatched_reached: "pool_reaches (pool_start 2) pair_dispatched"
proof -
  have "call_step (pool_start 2) (dispatch 4 (participants_for 2 True 4 1) squares (pool_start 2))"
    using call_step.threads [of "pool_start 2" True False 4 1 0 squares] by (simp add: pool_start_def worthwhile_def)
  then show ?thesis
    by (intro pool_reaches.called [OF pool_reaches.here]) (simp add: pair_dispatched_def participants_for_def)
qed

theorem run_returns_witness: "\<exists>r. batch_step pair_dispatched r"
proof -
  have "(batch_step ^^ 0) pair_dispatched pair_dispatched" by simp
  from run_returns [OF pair_dispatched_reached this] show ?thesis by (simp add: pair_dispatched_def dispatch_def)
qed

theorem pool_equals_serial_witness:
  "\<exists>p :: nat pool. pool_caller p = Ready \<and> pool_output p 2 = Some (squares 2)"
proof -
  define p where "p = (pool_start 2)\<lparr>pool_output := serial squares 4, pool_request := (4, squares)\<rparr>"
  have "call_step (pool_start 2) p"
    using call_step.alone [of "pool_start 2" False False 4 64 0 squares] by (simp add: pool_start_def worthwhile_def p_def)
  then have r: "pool_reaches (pool_start 2) p" by (rule pool_reaches.called [OF pool_reaches.here])
  have "pool_caller p = Ready" "2 < fst (pool_request p)" by (simp_all add: p_def pool_start_def)
  moreover from pool_equals_serial [OF r this] have "pool_output p 2 = Some (squares 2)" by (simp add: p_def serial_def)
  ultimately show ?thesis by blast
qed

end
