(* ===== verification/Archive_Paths.thy ===== *)
theory Archive_Paths
  imports Prelude
begin

text \<open>
  The paths of \<open>ZipArchive\<close> (\<open>archive/zip_archive.cpp\<close>): \<open>normalize_path\<close>, through which every name goes that is
  looked up, listed or written, and the index of an archive's entries. The names stored in the archive, which
  libzip returns, are the argument \<open>raw_names\<close>.
\<close>

subsection \<open>Normalisation\<close>

definition forward_slashes :: "string \<Rightarrow> string" where
  "forward_slashes s = map (\<lambda>c. if c = CHR 0x5C then CHR ''/'' else c) s"

fun strip_dot_slashes :: "string \<Rightarrow> string" where
  "strip_dot_slashes (c # d # s) = (if c = CHR ''.'' \<and> d = CHR ''/'' then strip_dot_slashes s else c # d # s)"
| "strip_dot_slashes s = s"

text \<open>The parts that \<open>std::getline\<close> reads up to each slash; nothing is read after a final one.\<close>

function getline_parts :: "string \<Rightarrow> string list" where
  "getline_parts s =
     (if s = [] then []
      else takeWhile (\<lambda>c. c \<noteq> CHR ''/'') s # getline_parts (tl (dropWhile (\<lambda>c. c \<noteq> CHR ''/'') s)))"
  by pat_completeness auto
termination
proof (relation "measure length")
  fix s :: string
  assume "s \<noteq> []"
  then show "(tl (dropWhile (\<lambda>c. c \<noteq> CHR ''/'') s), s) \<in> measure length"
    using length_dropWhile_le [of "\<lambda>c. c \<noteq> CHR ''/''" s] by (cases s) (auto simp: less_Suc_eq_le)
qed simp

declare getline_parts.simps [simp del]

definition append_part :: "string \<Rightarrow> string \<Rightarrow> string" where
  "append_part result part = (if result = [] then part else result @ ''/'' @ part)"

fun join_parts :: "string list \<Rightarrow> string \<Rightarrow> string option" where
  "join_parts [] result = Some result"
| "join_parts (part # parts) result =
     (if part = ''..'' then None
      else if part = [] \<or> part = ''.'' then join_parts parts result
      else join_parts parts (append_part result part))"

definition normalize_path :: "string \<Rightarrow> string" where
  "normalize_path archive_path =
     (let normalized = strip_dot_slashes (forward_slashes archive_path)
      in if normalized = [] \<or> hd normalized = CHR ''/'' \<or> CHR '':'' \<in> set normalized then []
         else case join_parts (getline_parts normalized) [] of
                None \<Rightarrow> []
              | Some result \<Rightarrow> if result \<noteq> [] \<and> last normalized = CHR ''/'' then result @ ''/'' else result)"

definition is_directory_entry :: "string \<Rightarrow> bool" where
  "is_directory_entry s \<longleftrightarrow> s \<noteq> [] \<and> last s = CHR ''/''"

subsection \<open>Index\<close>

definition lower_ascii :: "string \<Rightarrow> string" where
  "lower_ascii s = lower_string s"

record archive_index =
  ix_entries :: "string \<Rightarrow> string option"
  ix_folded :: "string \<Rightarrow> string option"
  ix_ambiguous :: "string set"

definition empty_index :: archive_index where
  "empty_index = \<lparr>ix_entries = (\<lambda>_. None), ix_folded = (\<lambda>_. None), ix_ambiguous = {}\<rparr>"

definition index_entry :: "string option \<Rightarrow> archive_index \<Rightarrow> archive_index" where
  "index_entry raw ix =
     (case raw of
        None \<Rightarrow> ix
      | Some raw \<Rightarrow>
          let normalized = normalize_path raw; folded = lower_ascii normalized
          in if normalized = [] \<or> is_directory_entry normalized then ix
             else if folded \<in> ix_ambiguous ix then ix
             else case ix_folded ix folded of
                    Some prior \<Rightarrow> ix\<lparr>ix_entries := (ix_entries ix)(prior := None), ix_folded := (ix_folded ix)(folded := None),
                                     ix_ambiguous := insert folded (ix_ambiguous ix)\<rparr>
                  | None \<Rightarrow> ix\<lparr>ix_entries := (ix_entries ix)(normalized \<mapsto> raw), ix_folded := (ix_folded ix)(folded \<mapsto> normalized)\<rparr>)"

definition build_index :: "string option list \<Rightarrow> archive_index" where
  "build_index raw_names = fold index_entry raw_names empty_index"

text \<open>\<open>entries_.at\<close> throws when the key is missing.\<close>

definition find_entry_name :: "archive_index \<Rightarrow> string \<Rightarrow> string option" where
  "find_entry_name ix archive_path =
     (let target = normalize_path archive_path
      in case ix_entries ix target of
           Some raw \<Rightarrow> Some raw
         | None \<Rightarrow> (case ix_folded ix (lower_ascii target) of None \<Rightarrow> Some [] | Some name \<Rightarrow> ix_entries ix name))"

subsection \<open>The segments of a normalised path\<close>

abbreviation no_slash :: "char \<Rightarrow> bool" where
  "no_slash \<equiv> \<lambda>c. c \<noteq> CHR ''/''"

definition kept :: "string \<Rightarrow> bool" where
  "kept part \<longleftrightarrow> part \<noteq> [] \<and> part \<noteq> ''.''"

definition path_of :: "string list \<Rightarrow> string" where
  "path_of parts = foldl append_part [] parts"

lemma getline_parts_Nil [simp]: "getline_parts [] = []"
  by (simp add: getline_parts.simps)

lemma getline_parts_slash:
  assumes "CHR ''/'' \<notin> set p"
  shows "getline_parts (p @ CHR ''/'' # s) = p # getline_parts s"
proof -
  have "takeWhile no_slash (p @ CHR ''/'' # s) = p" "dropWhile no_slash (p @ CHR ''/'' # s) = CHR ''/'' # s"
    using assms by (auto simp: takeWhile_append dropWhile_append)
  then show ?thesis by (subst getline_parts.simps) simp
qed

lemma getline_parts_last:
  assumes "CHR ''/'' \<notin> set p" "p \<noteq> []"
  shows "getline_parts p = [p]"
proof -
  have tw: "takeWhile no_slash p = p" and dw: "dropWhile no_slash p = []"
    using assms by (auto simp: takeWhile_eq_all_conv)
  show ?thesis using assms(2) by (subst getline_parts.simps) (simp only: tw dw list.sel getline_parts_Nil if_False)
qed

lemma getline_parts_chars: "p \<in> set (getline_parts s) \<Longrightarrow> set p \<subseteq> set s - {CHR ''/''}"
proof (induction s arbitrary: p rule: getline_parts.induct)
  case (1 s)
  let ?rest = "tl (dropWhile no_slash s)"
  show ?case
  proof (cases "s = []")
    case False
    have rest: "set ?rest \<subseteq> set s"
      by (metis dropWhile_eq_drop list.set_sel(2) set_drop_subset subset_iff tl_Nil)
    from 1(2) False have "p = takeWhile no_slash s \<or> p \<in> set (getline_parts ?rest)"
      by (subst (asm) getline_parts.simps) auto
    then show ?thesis using 1(1)[OF False] rest by (auto dest: set_takeWhileD)
  qed (use 1(2) in simp)
qed

lemma join_parts_eq:
  "join_parts parts result =
     (if ''..'' \<in> set parts then None else Some (foldl append_part result (filter kept parts)))"
  by (induction parts arbitrary: result) (auto simp: kept_def)

lemma foldl_append_part:
  "r \<noteq> [] \<Longrightarrow> foldl append_part r parts = r @ concat (map (\<lambda>p. CHR ''/'' # p) parts)"
  by (induction parts arbitrary: r) (auto simp: append_part_def)

lemma path_of_Cons:
  "p \<noteq> [] \<Longrightarrow> path_of (p # parts) = p @ concat (map (\<lambda>p. CHR ''/'' # p) parts)"
  by (simp add: path_of_def append_part_def foldl_append_part)

lemma path_of_Nil [simp]: "path_of [] = []"
  by (simp add: path_of_def)

lemma path_of_eq_Nil [simp]: "[] \<notin> set parts \<Longrightarrow> path_of parts = [] \<longleftrightarrow> parts = []"
  by (cases parts) (auto simp: path_of_Cons)

lemma getline_joined:
  assumes "CHR ''/'' \<notin> set p" "p \<noteq> []" "\<forall>q \<in> set parts. CHR ''/'' \<notin> set q \<and> q \<noteq> []"
  shows "getline_parts (p @ concat (map (\<lambda>p. CHR ''/'' # p) parts)) = p # parts"
    "getline_parts (p @ concat (map (\<lambda>p. CHR ''/'' # p) parts) @ ''/'') = p # parts"
  using assms
  by (induction parts arbitrary: p) (auto simp: getline_parts_last getline_parts_slash)

lemma getline_path_of:
  assumes "\<forall>q \<in> set parts. CHR ''/'' \<notin> set q \<and> q \<noteq> []"
  shows "getline_parts (path_of parts) = parts"
    "parts \<noteq> [] \<Longrightarrow> getline_parts (path_of parts @ ''/'') = parts"
  using assms getline_joined by (cases parts; simp add: path_of_Cons)+

lemma path_of_set: "set (path_of parts) \<subseteq> insert (CHR ''/'') (\<Union> (set ` set parts))"
proof -
  have "set (foldl append_part r parts) \<subseteq> insert (CHR ''/'') (set r \<union> \<Union> (set ` set parts))" for r
    by (induction parts arbitrary: r) (fastforce simp: append_part_def split: if_splits)+
  from this[of "[]"] show ?thesis by (simp add: path_of_def)
qed

lemma strip_dot_slashes_keep: "\<not> (\<exists>t. s = ''./'' @ t) \<Longrightarrow> strip_dot_slashes s = s"
  by (cases s rule: strip_dot_slashes.cases) auto

lemma set_strip_dot_slashes: "set (strip_dot_slashes s) \<subseteq> set s"
  by (induction s rule: strip_dot_slashes.induct) auto

lemma forward_slashes_no_backslash: "CHR 0x5C \<notin> set (forward_slashes s)"
  by (auto simp: forward_slashes_def)

lemma forward_slashes_keep: "CHR 0x5C \<notin> set s \<Longrightarrow> forward_slashes s = s"
  unfolding forward_slashes_def by (rule map_idI) auto

definition rejected :: "string \<Rightarrow> bool" where
  "rejected n \<longleftrightarrow> n = [] \<or> hd n = CHR ''/'' \<or> CHR '':'' \<in> set n \<or> ''..'' \<in> set (getline_parts n)"

lemma normalize_path_eq:
  "normalize_path s =
     (let n = strip_dot_slashes (forward_slashes s); parts = filter kept (getline_parts n)
      in if rejected n \<or> parts = [] then []
         else path_of parts @ (if last n = CHR ''/'' then ''/'' else []))"
proof -
  have "[] \<notin> set (filter kept ps)" for ps by (auto simp: kept_def)
  from path_of_eq_Nil[OF this] show ?thesis
    unfolding normalize_path_def Let_def rejected_def join_parts_eq path_of_def[symmetric]
    by (simp del: filter_empty_conv)
qed

lemma normalize_path_Nil:
  "normalize_path s = [] \<longleftrightarrow>
     (let n = strip_dot_slashes (forward_slashes s) in rejected n \<or> filter kept (getline_parts n) = [])"
proof -
  have "[] \<notin> set (filter kept ps)" for ps by (auto simp: kept_def)
  from path_of_eq_Nil[OF this] show ?thesis
    unfolding normalize_path_eq Let_def by (simp del: filter_empty_conv)
qed

lemma normalized_segments:
  assumes "normalize_path s \<noteq> []"
  obtains ps d where "ps \<noteq> []" "d = [] \<or> d = ''/''" "normalize_path s = path_of ps @ d"
    "ps = filter kept (getline_parts (strip_dot_slashes (forward_slashes s)))"
    "\<forall>p \<in> set ps. p \<noteq> [] \<and> p \<noteq> ''.'' \<and> p \<noteq> ''..'' \<and> set p \<inter> {CHR ''/'', CHR '':'', CHR 0x5C} = {}"
    "\<not> rejected (strip_dot_slashes (forward_slashes s))"
    "getline_parts (normalize_path s) = ps"
proof -
  let ?n = "strip_dot_slashes (forward_slashes s)"
  let ?ps = "filter kept (getline_parts ?n)"
  let ?d = "if last ?n = CHR ''/'' then ''/'' else []"
  have eq: "normalize_path s = path_of ?ps @ ?d" and ne: "?ps \<noteq> []" and ok: "\<not> rejected ?n"
    using assms unfolding normalize_path_eq Let_def by (auto split: if_splits simp del: filter_empty_conv)
  have chars: "\<forall>p \<in> set ?ps. p \<noteq> [] \<and> p \<noteq> ''.'' \<and> p \<noteq> ''..'' \<and> set p \<inter> {CHR ''/'', CHR '':'', CHR 0x5C} = {}"
  proof
    fix p assume p: "p \<in> set ?ps"
    then have in_n: "set p \<subseteq> set ?n - {CHR ''/''}" using getline_parts_chars by auto
    have "CHR 0x5C \<notin> set ?n" using set_strip_dot_slashes forward_slashes_no_backslash by blast
    with in_n p ok show "p \<noteq> [] \<and> p \<noteq> ''.'' \<and> p \<noteq> ''..'' \<and> set p \<inter> {CHR ''/'', CHR '':'', CHR 0x5C} = {}"
      by (auto simp: rejected_def kept_def)
  qed
  then have "\<forall>q \<in> set ?ps. CHR ''/'' \<notin> set q \<and> q \<noteq> []" by blast
  from getline_path_of[OF this] ne eq have "getline_parts (normalize_path s) = ?ps"
    by (simp del: filter_empty_conv)
  with eq ne ok chars show ?thesis by (intro that[of ?ps ?d]) (auto simp del: filter_empty_conv)
qed

lemma last_path_of: "\<lbrakk>ps \<noteq> []; \<forall>p \<in> set ps. p \<noteq> [] \<and> CHR ''/'' \<notin> set p\<rbrakk> \<Longrightarrow> last (path_of ps) \<noteq> CHR ''/''"
proof -
  have "\<lbrakk>p \<noteq> []; CHR ''/'' \<notin> set p; \<forall>q \<in> set ps. q \<noteq> [] \<and> CHR ''/'' \<notin> set q\<rbrakk> \<Longrightarrow>
    last (p @ concat (map (\<lambda>p. CHR ''/'' # p) ps)) \<noteq> CHR ''/''" for p :: string and ps
    by (induction ps arbitrary: p) (auto simp: last_append dest: last_in_set)
  then show "\<lbrakk>ps \<noteq> []; \<forall>p \<in> set ps. p \<noteq> [] \<and> CHR ''/'' \<notin> set p\<rbrakk> \<Longrightarrow> last (path_of ps) \<noteq> CHR ''/''"
    by (cases ps) (auto simp: path_of_Cons)
qed

lemma normalize_path_idem: "normalize_path (normalize_path s) = normalize_path s"
proof (cases "normalize_path s = []")
  case True
  then show ?thesis by (simp add: normalize_path_def forward_slashes_def)
next
  case False
  then obtain ps d where ps: "ps \<noteq> []" "d = [] \<or> d = ''/''" "normalize_path s = path_of ps @ d"
    "\<forall>p \<in> set ps. p \<noteq> [] \<and> p \<noteq> ''.'' \<and> p \<noteq> ''..'' \<and> set p \<inter> {CHR ''/'', CHR '':'', CHR 0x5C} = {}"
    "getline_parts (normalize_path s) = ps" by (rule normalized_segments)
  let ?r = "path_of ps @ d"
  have nonnil: "\<forall>p \<in> set ps. p \<noteq> [] \<and> CHR ''/'' \<notin> set p" using ps(4) by blast
  from ps(1) obtain p qs where p: "ps = p # qs" by (cases ps) auto
  have pre: "?r = p @ concat (map (\<lambda>p. CHR ''/'' # p) qs) @ d" using nonnil p by (simp add: path_of_Cons)
  have "set ?r \<inter> {CHR '':'', CHR 0x5C} = {}"
    using path_of_set[of ps] ps(2,4) by fastforce
  then have chars: "CHR '':'' \<notin> set ?r" "CHR 0x5C \<notin> set ?r" by auto
  have "\<not> (\<exists>t. ?r = ''./'' @ t)"
  proof
    assume "\<exists>t. ?r = ''./'' @ t"
    then obtain t where t: "p @ concat (map (\<lambda>p. CHR ''/'' # p) qs) @ d = ''./'' @ t" using pre by auto
    have "p \<noteq> []" "CHR ''/'' \<notin> set p" "p \<noteq> ''.''" using ps(4) p by auto
    with t show False by (cases p; cases "tl p") auto
  qed
  then have n: "strip_dot_slashes (forward_slashes ?r) = ?r"
    using chars(2) by (simp add: forward_slashes_keep strip_dot_slashes_keep)
  have hd: "hd ?r \<noteq> CHR ''/''" "?r \<noteq> []" using pre nonnil p by (cases p; auto)+
  have parts: "getline_parts ?r = ps" using ps(3,5) by simp
  have keep: "filter kept ps = ps" using ps(4) by (simp add: filter_id_conv kept_def)
  have notrej: "\<not> rejected ?r" using hd chars ps(4) by (auto simp: rejected_def parts)
  have "normalize_path ?r = path_of ps @ (if last ?r = CHR ''/'' then ''/'' else [])"
    unfolding normalize_path_eq Let_def n parts keep using notrej ps(1) by simp
  also have "\<dots> = ?r" using ps(2) last_path_of[OF ps(1) nonnil] by auto
  finally show ?thesis by (simp only: ps(3))
qed

text \<open>C35: A normalised archive path cannot leave the directory it is resolved against, whatever name an archive
  contains: it has no backslash and no drive colon, none of its segments is empty (so it is relative), a dot or a
  pair of dots, and normalising it again changes nothing. A name that is not rejected keeps exactly its segments
  other than the empty ones and the dots, in their order.\<close>

theorem normalized_paths_stay_inside:
  "set (normalize_path s) \<inter> {CHR 0x5C, CHR '':''} = {} \<and>
   set (getline_parts (normalize_path s)) \<inter> {[], ''.'', ''..''} = {} \<and>
   normalize_path (normalize_path s) = normalize_path s \<and>
   (let n = strip_dot_slashes (forward_slashes s)
    in getline_parts (normalize_path s) =
      (if n = [] \<or> hd n = CHR ''/'' \<or> CHR '':'' \<in> set n \<or> ''..'' \<in> set (getline_parts n) then []
       else filter (\<lambda>p. p \<noteq> [] \<and> p \<noteq> ''.'') (getline_parts n)))"
proof (cases "normalize_path s = []")
  case True
  then show ?thesis using normalize_path_Nil[of s] normalize_path_idem[of s]
    unfolding Let_def True rejected_def kept_def[abs_def] getline_parts_Nil
    by (simp del: filter_empty_conv) (elim disjE; simp del: filter_empty_conv)
next
  case False
  then obtain ps d where ps: "ps \<noteq> []" "d = [] \<or> d = ''/''" "normalize_path s = path_of ps @ d"
    "ps = filter kept (getline_parts (strip_dot_slashes (forward_slashes s)))"
    "\<forall>p \<in> set ps. p \<noteq> [] \<and> p \<noteq> ''.'' \<and> p \<noteq> ''..'' \<and> set p \<inter> {CHR ''/'', CHR '':'', CHR 0x5C} = {}"
    "\<not> rejected (strip_dot_slashes (forward_slashes s))"
    "getline_parts (normalize_path s) = ps" by (rule normalized_segments)
  have "set (path_of ps @ d) \<inter> {CHR 0x5C, CHR '':''} = {}" using path_of_set[of ps] ps(2,5) by fastforce
  then have chars: "set (normalize_path s) \<inter> {CHR 0x5C, CHR '':''} = {}" by (simp only: ps(3))
  have segs: "set (getline_parts (normalize_path s)) \<inter> {[], ''.'', ''..''} = {}" using ps(5,7) by auto
  show ?thesis unfolding Let_def
    using chars segs normalize_path_idem[of s] ps(4,6,7) by (simp add: rejected_def kept_def[abs_def])
qed

subsection \<open>What the index finds\<close>

definition folded_name :: "string \<Rightarrow> string" where
  "folded_name raw = lower_ascii (normalize_path raw)"

definition file_entries :: "string option list \<Rightarrow> string list" where
  "file_entries raws =
     filter (\<lambda>raw. normalize_path raw \<noteq> [] \<and> \<not> is_directory_entry (normalize_path raw))
       (concat (map (\<lambda>raw. case raw of None \<Rightarrow> [] | Some name \<Rightarrow> [name]) raws))"

definition same_file :: "string option list \<Rightarrow> string \<Rightarrow> string list" where
  "same_file raws folded = filter (\<lambda>raw. folded_name raw = folded) (file_entries raws)"

definition index_ok :: "string option list \<Rightarrow> archive_index \<Rightarrow> bool" where
  "index_ok raws ix \<longleftrightarrow>
     (\<forall>n raw. ix_entries ix n = Some raw \<longleftrightarrow> same_file raws (lower_ascii n) = [raw] \<and> normalize_path raw = n) \<and>
     (\<forall>f n. ix_folded ix f = Some n \<longleftrightarrow> (\<exists>raw. same_file raws f = [raw] \<and> normalize_path raw = n)) \<and>
     ix_ambiguous ix = {f. 2 \<le> length (same_file raws f)}"

lemma same_file_folded: "same_file raws f = x # xs \<Longrightarrow> lower_ascii (normalize_path x) = f"
  by (auto simp: same_file_def filter_eq_Cons_iff folded_name_def)

lemma file_entries_snoc:
  "file_entries (raws @ [raw]) = file_entries raws @
     (case raw of None \<Rightarrow> [] | Some name \<Rightarrow>
        if normalize_path name = [] \<or> is_directory_entry (normalize_path name) then [] else [name])"
  by (auto simp: file_entries_def split: option.splits)

lemma same_file_snoc:
  "same_file (raws @ [raw]) f = same_file raws f @
     (case raw of None \<Rightarrow> [] | Some name \<Rightarrow>
        if normalize_path name = [] \<or> is_directory_entry (normalize_path name) \<or> folded_name name \<noteq> f then [] else [name])"
  by (auto simp: same_file_def file_entries_snoc split: option.splits)

lemma index_entry_ok:
  assumes "index_ok raws ix"
  shows "index_ok (raws @ [raw]) (index_entry raw ix)"
proof (cases "raw = None \<or> (\<exists>name. raw = Some name \<and> (normalize_path name = [] \<or> is_directory_entry (normalize_path name)))")
  case True
  then have "index_entry raw ix = ix" "same_file (raws @ [raw]) f = same_file raws f" for f
    by (auto simp: index_entry_def same_file_snoc Let_def)
  then show ?thesis using assms by (simp add: index_ok_def)
next
  case False
  then obtain name where raw: "raw = Some name" "normalize_path name \<noteq> []"
    "\<not> is_directory_entry (normalize_path name)" by auto
  let ?n = "normalize_path name" let ?f = "lower_ascii ?n"
  have same: "same_file (raws @ [raw]) f = same_file raws f @ (if f = ?f then [name] else [])" for f
    using raw by (auto simp: same_file_snoc folded_name_def)
  note ok = assms[unfolded index_ok_def]
  consider (none) "same_file raws ?f = []" | (one) r where "same_file raws ?f = [r]"
    | (many) "2 \<le> length (same_file raws ?f)"
    by (cases "same_file raws ?f"; cases "tl (same_file raws ?f)") auto
  then show ?thesis
  proof cases
    case none
    then have "?f \<notin> ix_ambiguous ix" "ix_folded ix ?f = None"
      using ok by (auto simp: not_Some_eq[symmetric] simp del: not_Some_eq)
    then have ix: "index_entry raw ix = ix\<lparr>ix_entries := (ix_entries ix)(?n \<mapsto> name), ix_folded := (ix_folded ix)(?f \<mapsto> ?n)\<rparr>"
      using raw by (simp add: index_entry_def Let_def)
    show ?thesis unfolding ix index_ok_def same using ok none by auto
  next
    case (one r)
    then have r: "lower_ascii (normalize_path r) = ?f" by (rule same_file_folded)
    have "?f \<notin> ix_ambiguous ix" "ix_folded ix ?f = Some (normalize_path r)" using ok one by auto
    then have ix: "index_entry raw ix = ix\<lparr>ix_entries := (ix_entries ix)(normalize_path r := None),
        ix_folded := (ix_folded ix)(?f := None), ix_ambiguous := insert ?f (ix_ambiguous ix)\<rparr>"
      using raw by (simp add: index_entry_def Let_def)
    show ?thesis unfolding ix index_ok_def same using ok one r by auto
  next
    case many
    then have "?f \<in> ix_ambiguous ix" using ok by auto
    then have ix: "index_entry raw ix = ix" using raw by (simp add: index_entry_def Let_def)
    show ?thesis unfolding ix index_ok_def same using ok many by auto
  qed
qed

lemma build_index_ok: "index_ok raws (build_index raws)"
proof (induction raws rule: rev_induct)
  case Nil
  show ?case by (simp add: build_index_def empty_index_def index_ok_def same_file_def file_entries_def)
next
  case (snoc raw raws)
  then show ?case using index_entry_ok by (simp add: build_index_def)
qed

text \<open>C37: Looking a path up in the index of an archive never throws, and it is decided by the archive's file
  entries alone: the stored name of the entry is returned when exactly one of them has the path's normal form up to
  ASCII case, and nothing is found when there is none or more than one, also when one of several matches exactly.\<close>

theorem find_entry_name_exact:
  "find_entry_name (build_index raws) path =
     Some (case [raw \<leftarrow> concat (map (\<lambda>raw. case raw of None \<Rightarrow> [] | Some name \<Rightarrow> [name]) raws).
                  normalize_path raw \<noteq> [] \<and> \<not> is_directory_entry (normalize_path raw) \<and>
                  lower_ascii (normalize_path raw) = lower_ascii (normalize_path path)] of
             [raw] \<Rightarrow> raw | _ \<Rightarrow> [])"
proof -
  let ?ix = "build_index raws" let ?t = "normalize_path path"
  have same: "[raw \<leftarrow> concat (map (\<lambda>raw. case raw of None \<Rightarrow> [] | Some name \<Rightarrow> [name]) raws).
                  normalize_path raw \<noteq> [] \<and> \<not> is_directory_entry (normalize_path raw) \<and>
                  lower_ascii (normalize_path raw) = lower_ascii ?t] = same_file raws (lower_ascii ?t)"
    by (simp add: same_file_def file_entries_def folded_name_def conj_ac)
  note ok = build_index_ok[of raws, unfolded index_ok_def]
  show ?thesis unfolding same
  proof (cases "\<exists>raw. same_file raws (lower_ascii ?t) = [raw]")
    case True
    then obtain raw where raw: "same_file raws (lower_ascii ?t) = [raw]" by blast
    then have fold: "lower_ascii (normalize_path raw) = lower_ascii ?t" by (rule same_file_folded)
    have "ix_folded ?ix (lower_ascii ?t) = Some (normalize_path raw)" "ix_entries ?ix (normalize_path raw) = Some raw"
      using ok raw fold by auto
    moreover have "ix_entries ?ix ?t = Some raw \<or> ix_entries ?ix ?t = None"
      using ok raw by (cases "ix_entries ?ix ?t") auto
    ultimately show "find_entry_name ?ix path = Some (case same_file raws (lower_ascii ?t) of [raw] \<Rightarrow> raw | _ \<Rightarrow> [])"
      using raw by (auto simp: find_entry_name_def Let_def)
  next
    case False
    then have "ix_entries ?ix ?t = None" "ix_folded ?ix (lower_ascii ?t) = None"
      using ok by (auto simp: not_Some_eq[symmetric] simp del: not_Some_eq)
    then show "find_entry_name ?ix path = Some (case same_file raws (lower_ascii ?t) of [raw] \<Rightarrow> raw | _ \<Rightarrow> [])"
      using False by (auto simp: find_entry_name_def Let_def split: list.splits)
  qed
qed

end
