(* ===== verification/Runtime_Sources.thy ===== *)
theory Runtime_Sources
  imports Plan_Schedule Dense_State
begin

text \<open>
  The input side of a universe in \<open>PeravizVisualRuntimeCore\<close> (\<open>runtime/peraviz_visual_runtime.cpp\<close>,
  \<open>runtime/visual_runtime_evaluation.cpp\<close>, \<open>runtime/visual_runtime_plan.cpp\<close>): the latest frame, the comparison with
  the bytes seen before, the update of the evaluation plan, and the decoding of DMX sources and component
  properties through the plan's cache. The theorem: whatever frames arrive and whatever is evaluated after them, the
  cached evaluation of a property is its value on the latest frame.

  This is the serial path: no worker pool is attached, so no source is decoded ahead. Floating-point numbers are reals;
  the conversion of a \<open>double\<close> to a \<open>float\<close> is the parameter \<open>narrow\<close>. An access outside the 512 remembered bytes
  is \<^term>\<open>None\<close>. Statistics are left out.
\<close>

subsection \<open>Decoding a source\<close>

record source_mapping =
  mp_maximum :: u32
  mp_inverse_maximum :: real
  mp_span :: real
  mp_physical_from :: real
  mp_physical_to :: real

record installed_source =
  in_program :: dmx_source_program
  in_diagnosed_byte_count :: bool
  in_diagnosed_missing_byte :: bool

text \<open>The bytes of an installed program are in the order of their significance.\<close>

definition installed_program :: "dmx_source_program \<Rightarrow> installed_source" where
  "installed_program program =
     \<lparr>in_program = program\<lparr>pr_sources := sort_key (\<lambda>s. sint (bs_byte_order s)) (pr_sources program)\<rparr>,
      in_diagnosed_byte_count = False, in_diagnosed_missing_byte = False\<rparr>"

definition max_raw_value_for_source_count :: "nat \<Rightarrow> u32" where
  "max_raw_value_for_source_count n = fold (\<lambda>index m. push_bit 8 m OR 255) [0..<min n 4] 0"

text \<open>Programs with equal definitions share one mapping; it is a function of the definition.\<close>

definition mapping_of :: "dmx_source_program \<Rightarrow> source_mapping" where
  "mapping_of program =
     (let maximum = max_raw_value_for_source_count (length (pr_sources program))
      in \<lparr>mp_maximum = maximum, mp_inverse_maximum = (if maximum > 0 then 1 / real (unat maximum) else 0),
          mp_span = (if pr_dmx_to program > pr_dmx_from program then real (unat (pr_dmx_to program - pr_dmx_from program))
                     else real (unat maximum)),
          mp_physical_from = pr_physical_from program, mp_physical_to = pr_physical_to program\<rparr>)"

definition byte_count_warning :: "dmx_source_program \<Rightarrow> runtime_diagnostic" where
  "byte_count_warning program = \<lparr>rd_code = ''PVZ-RUNTIME-UNSUPPORTED-BYTE-COUNT'', rd_severity = ''warning'',
     rd_message = ''Compiled DMX source byte count must be between one and four.'',
     rd_subject = int_string (sint (pr_program_id program))\<rparr>"

definition missing_byte_warning :: "dmx_source_program \<Rightarrow> runtime_diagnostic" where
  "missing_byte_warning program = \<lparr>rd_code = ''PVZ-RUNTIME-INVALID-BYTE'', rd_severity = ''warning'',
     rd_message = ''Compiled DMX byte address is outside the submitted frame.'',
     rd_subject = int_string (sint (pr_program_id program))\<rparr>"

definition byte_at :: "u8 list \<Rightarrow> int \<Rightarrow> u8" where
  "byte_at frame offset = (if 0 \<le> offset \<and> offset < int (length frame) then frame ! nat offset else 0)"

fun read_bytes_raw ::
    "u8 list \<Rightarrow> dmx_byte_source list \<Rightarrow> u32 \<Rightarrow> installed_source \<times> runtime_diagnostic list \<Rightarrow>
      u32 \<times> installed_source \<times> runtime_diagnostic list" where
  "read_bytes_raw frame [] raw acc = (raw, acc)"
| "read_bytes_raw frame (s # ss) raw (source, diags) =
     (let valid = 0 \<le> sint (bs_address s) \<and> sint (bs_address s) < int (length frame);
          acc = (if \<not> valid \<and> \<not> in_diagnosed_missing_byte source
                 then (source\<lparr>in_diagnosed_missing_byte := True\<rparr>, diags @ [missing_byte_warning (in_program source)])
                 else (source, diags))
      in read_bytes_raw frame ss (push_bit 8 raw OR ucast (byte_at frame (sint (bs_address s)))) acc)"

definition read_raw_value ::
    "u8 list \<Rightarrow> installed_source \<Rightarrow> runtime_diagnostic list \<Rightarrow> u32 \<times> installed_source \<times> runtime_diagnostic list" where
  "read_raw_value frame source diags =
     (let bytes = pr_sources (in_program source)
      in if bytes = [] \<or> length bytes > 4
         then (0, if in_diagnosed_byte_count source then (source, diags)
                  else (source\<lparr>in_diagnosed_byte_count := True\<rparr>, diags @ [byte_count_warning (in_program source)]))
         else read_bytes_raw frame bytes 0 (source, diags))"

definition local_value :: "dmx_source_program \<Rightarrow> u32 \<Rightarrow> real" where
  "local_value program raw =
     (let m = mapping_of program
      in if mp_span m > 0 then clamp ((real (unat raw) - real (unat (pr_dmx_from program))) / mp_span m) 0 1
         else real (unat raw) * mp_inverse_maximum m)"

definition evaluated :: "(real \<Rightarrow> real) \<Rightarrow> dmx_source_program \<Rightarrow> u32 \<Rightarrow> evaluated_value" where
  "evaluated narrow program raw =
     (let m = mapping_of program; loc = local_value program raw
      in \<lparr>ev_raw_value = raw, ev_normalized_value = narrow loc,
          ev_physical_value = narrow (mp_physical_from m + (mp_physical_to m - mp_physical_from m) * loc),
          ev_active_program_id = pr_program_id program, ev_valid = True\<rparr>)"

definition evaluate_source_program ::
    "(real \<Rightarrow> real) \<Rightarrow> u8 list \<Rightarrow> installed_source \<Rightarrow> runtime_diagnostic list \<Rightarrow>
      evaluated_value \<times> installed_source \<times> runtime_diagnostic list" where
  "evaluate_source_program narrow frame source diags =
     (let (raw, acc) = read_raw_value frame source diags in (evaluated narrow (in_program source) raw, acc))"

subsection \<open>A universe\<close>

record universe_state =
  un_plan :: evaluation_plan
  un_bindings :: "installed_source list"
  un_interest :: "int list"
  un_last :: "u8 list"
  un_latest :: "u8 list"
  un_pending :: bool
  un_has_last :: bool
  un_changed :: "int list"
  un_diagnostics :: "runtime_diagnostic list"

definition submit_frame :: "u8 list \<Rightarrow> universe_state \<Rightarrow> universe_state" where
  "submit_frame bytes un = un\<lparr>un_latest := take 512 bytes, un_pending := True\<rparr>"

text \<open>The comparison of the bytes of interest with those seen before.\<close>

fun scan_interest :: "u8 list \<Rightarrow> bool \<Rightarrow> int list \<Rightarrow> int list \<times> u8 list \<Rightarrow> (int list \<times> u8 list) option" where
  "scan_interest frame known [] acc = Some acc"
| "scan_interest frame known (offset # offsets) (changed, bytes) =
     (if offset < 0 \<or> offset \<ge> 512 then None
      else scan_interest frame known offsets
             (if \<not> known \<or> bytes ! nat offset \<noteq> byte_at frame offset
              then (changed @ [offset], bytes[nat offset := byte_at frame offset]) else (changed, bytes)))"

text \<open>The start of the loop over the universes: whether there is anything to evaluate.\<close>

definition take_frame :: "universe_state \<Rightarrow> (bool \<times> universe_state) option" where
  "take_frame un =
     (if \<not> un_pending un then Some (False, un)
      else case scan_interest (un_latest un) (un_has_last un) (un_interest un) ([], un_last un) of
             None \<Rightarrow> None
           | Some (changed, bytes) \<Rightarrow>
               let un = un\<lparr>un_pending := False, un_changed := changed, un_last := bytes, un_has_last := True\<rparr>
               in if changed = [] then Some (False, un)
                  else Some (True, un\<lparr>un_plan := begin_update changed (un_plan un)\<rparr>))"

definition evaluate_cached_source ::
    "(real \<Rightarrow> real) \<Rightarrow> nat \<Rightarrow> universe_state \<Rightarrow> (evaluated_value \<times> universe_state) option" where
  "evaluate_cached_source narrow i un =
     (case needs_evaluation i (un_plan un) of
        None \<Rightarrow> None
      | Some False \<Rightarrow> map_option (\<lambda>v. (v, un)) (value_at i (un_plan un))
      | Some True \<Rightarrow>
          if i < length (un_bindings un)
          then let (v, source, diags) = evaluate_source_program narrow (un_latest un) (un_bindings un ! i) (un_diagnostics un)
               in map_option (\<lambda>p. (v, un\<lparr>un_plan := p, un_bindings := (un_bindings un)[i := source],
                                          un_diagnostics := diags\<rparr>)) (store_value i v (un_plan un))
          else None)"

subsection \<open>Properties\<close>

datatype semantic_parameter =
  SemUnknown | SemPan | SemTilt | SemDimmer | SemZoom
  | SemAddRed | SemAddGreen | SemAddBlue | SemAddWhite | SemAddAmber | SemAddLime
  | SemSubCyan | SemSubMagenta | SemSubYellow | SemCyan | SemMagenta | SemYellow
  | SemGoboSelect | SemGoboIndex | SemGoboRotation | SemPrismSelect | SemPrismRotation | SemStrobe

record property_program =
  pg_property :: component_property
  pg_parameter :: semantic_parameter
  pg_sources :: "nat list"
  pg_range_selector :: bool

definition in_range :: "dmx_source_program \<Rightarrow> u32 \<Rightarrow> bool" where
  "in_range program raw \<longleftrightarrow> pr_dmx_from program \<le> raw \<and> raw \<le> pr_dmx_to program"

fun select_source ::
    "(real \<Rightarrow> real) \<Rightarrow> nat list \<Rightarrow> evaluated_value \<Rightarrow> universe_state \<Rightarrow> (evaluated_value \<times> universe_state) option" where
  "select_source narrow [] selected un = Some (selected, un)"
| "select_source narrow (i # is) selected un =
     (case evaluate_cached_source narrow i un of
        None \<Rightarrow> None
      | Some (v, un) \<Rightarrow>
          select_source narrow is
            (if \<not> ev_valid selected \<and> in_range (in_program (un_bindings un ! i)) (ev_raw_value v) then v else selected) un)"

text \<open>The first valid value, the weighted sums and the weight.\<close>

definition weigh :: "evaluated_value \<Rightarrow> real \<Rightarrow> evaluated_value \<times> real \<times> real \<times> real \<Rightarrow> evaluated_value \<times> real \<times> real \<times> real" where
  "weigh v contribution = (\<lambda>(result, normalized, physical, weight).
     if \<not> ev_valid v then (result, normalized, physical, weight)
     else (if ev_valid result then result
           else result\<lparr>ev_raw_value := ev_raw_value v, ev_active_program_id := ev_active_program_id v, ev_valid := True\<rparr>,
           normalized + ev_normalized_value v * contribution, physical + ev_physical_value v * contribution,
           weight + contribution))"

fun weigh_sources ::
    "(real \<Rightarrow> real) \<Rightarrow> (nat \<times> real) list \<Rightarrow> evaluated_value \<times> real \<times> real \<times> real \<Rightarrow> universe_state \<Rightarrow>
      ((evaluated_value \<times> real \<times> real \<times> real) \<times> universe_state) option" where
  "weigh_sources narrow [] acc un = Some (acc, un)"
| "weigh_sources narrow ((i, w) # is) acc un =
     (case evaluate_cached_source narrow i un of
        None \<Rightarrow> None
      | Some (v, un) \<Rightarrow> weigh_sources narrow is (weigh v w acc) un)"

definition weighted :: "(real \<Rightarrow> real) \<Rightarrow> evaluated_value \<times> real \<times> real \<times> real \<Rightarrow> evaluated_value" where
  "weighted narrow = (\<lambda>(result, normalized, physical, weight).
     if weight = 0 \<or> \<not> ev_valid result then blank_value
     else result\<lparr>ev_normalized_value := narrow (normalized / weight), ev_physical_value := narrow (physical / weight)\<rparr>)"

definition weights_of :: "property_program \<Rightarrow> (nat \<times> real) list" where
  "weights_of property = zip (pg_sources property) (map pc_weight (cp_contributors (pg_property property)))"

definition evaluate_property_value ::
    "(real \<Rightarrow> real) \<Rightarrow> property_program \<Rightarrow> universe_state \<Rightarrow> (evaluated_value \<times> universe_state) option" where
  "evaluate_property_value narrow property un =
     (if length (pg_sources property) > 1 \<and> pg_range_selector property
      then select_source narrow (pg_sources property) blank_value un
      else map_option (\<lambda>(acc, un). (weighted narrow acc, un))
             (weigh_sources narrow (weights_of property) (blank_value, 0, 0, 0) un))"

subsection \<open>Values on a frame\<close>

text \<open>What a source and a property are on a frame, given as a function from addresses to bytes.\<close>

definition raw_of :: "(int \<Rightarrow> u8) \<Rightarrow> dmx_source_program \<Rightarrow> u32" where
  "raw_of f program =
     (let bytes = pr_sources program
      in if bytes = [] \<or> length bytes > 4 then 0
         else fold (\<lambda>s raw. push_bit 8 raw OR ucast (f (sint (bs_address s)))) bytes 0)"

definition current_value :: "(real \<Rightarrow> real) \<Rightarrow> (int \<Rightarrow> u8) \<Rightarrow> dmx_source_program \<Rightarrow> evaluated_value" where
  "current_value narrow f program = evaluated narrow program (raw_of f program)"

definition weighted_mean :: "(real \<Rightarrow> real) \<Rightarrow> (evaluated_value \<times> real) list \<Rightarrow> evaluated_value" where
  "weighted_mean narrow vs =
     (let total = (\<Sum>(v, w)\<leftarrow>vs. w)
      in if vs = [] \<or> total = 0 then blank_value
         else \<lparr>ev_raw_value = ev_raw_value (fst (hd vs)),
               ev_normalized_value = narrow ((\<Sum>(v, w)\<leftarrow>vs. ev_normalized_value v * w) / total),
               ev_physical_value = narrow ((\<Sum>(v, w)\<leftarrow>vs. ev_physical_value v * w) / total),
               ev_active_program_id = ev_active_program_id (fst (hd vs)), ev_valid = True\<rparr>)"

definition property_value ::
    "(real \<Rightarrow> real) \<Rightarrow> (int \<Rightarrow> u8) \<Rightarrow> dmx_source_program list \<Rightarrow> property_program \<Rightarrow> evaluated_value" where
  "property_value narrow f programs property =
     (if length (pg_sources property) > 1 \<and> pg_range_selector property
      then case find (\<lambda>i. in_range (programs ! i) (raw_of f (programs ! i))) (pg_sources property) of
             None \<Rightarrow> blank_value | Some i \<Rightarrow> current_value narrow f (programs ! i)
      else weighted_mean narrow (map (\<lambda>(i, w). (current_value narrow f (programs ! i), w)) (weights_of property)))"

lemma read_bytes_raw:
  "\<exists>source' diags'. read_bytes_raw frame bytes raw (source, diags) =
     (fold (\<lambda>s raw. push_bit 8 raw OR ucast (byte_at frame (sint (bs_address s)))) bytes raw, source', diags') \<and>
     in_program source' = in_program source"
proof (induction bytes arbitrary: raw source diags)
  case (Cons s ss)
  show ?case
    using Cons.IH [of _ "source\<lparr>in_diagnosed_missing_byte := True\<rparr>"] Cons.IH [of _ source]
    by (auto simp: Let_def)
qed simp

lemma evaluate_source_program:
  "\<exists>source' diags'. evaluate_source_program narrow frame source diags =
     (current_value narrow (byte_at frame) (in_program source), source', diags') \<and> in_program source' = in_program source"
  using read_bytes_raw [of frame "pr_sources (in_program source)" 0 source diags]
  by (auto simp: evaluate_source_program_def read_raw_value_def current_value_def raw_of_def Let_def)

lemma raw_of_cong:
  "(\<And>s. s \<in> set (pr_sources program) \<Longrightarrow> f (sint (bs_address s)) = g (sint (bs_address s))) \<Longrightarrow>
     raw_of f program = raw_of g program"
  unfolding raw_of_def Let_def by (auto intro!: fold_cong)

lemma current_value_fields [simp]:
  "ev_valid (current_value narrow f program)" "ev_raw_value (current_value narrow f program) = raw_of f program"
  by (simp_all add: current_value_def evaluated_def Let_def)

subsection \<open>The invariant of the cache\<close>

text \<open>A source whose bytes are all of interest.\<close>

definition covered :: "int list \<Rightarrow> dmx_source_program \<Rightarrow> bool" where
  "covered interest program \<longleftrightarrow> (\<forall>s\<in>set (pr_sources program). sint (bs_address s) \<in> set interest)"

definition remembered :: "universe_state \<Rightarrow> int \<Rightarrow> u8" where
  "remembered un offset = un_last un ! nat offset"

definition universe_ok ::
    "(real \<Rightarrow> real) \<Rightarrow> dmx_source_program list \<Rightarrow> consumer_call list \<Rightarrow> universe_state \<Rightarrow> bool" where
  "universe_ok narrow programs calls un \<longleftrightarrow>
     plan_ready programs calls (un_plan un) \<and> workspace_ready (un_plan un) (plan_workspace (un_plan un)) \<and>
     map in_program (un_bindings un) = programs \<and> length (un_last un) = 512 \<and> set (un_interest un) \<subseteq> {0..<512} \<and>
     (\<not> un_pending un \<and> un_has_last un \<longrightarrow> (\<forall>o'\<in>set (un_interest un). remembered un o' = byte_at (un_latest un) o')) \<and>
     (\<forall>i v. i < length programs \<and> covered (un_interest un) (programs ! i) \<and> cache_values (cache_of (un_plan un)) i = Some v \<longrightarrow>
        un_has_last un \<and> v = current_value narrow (remembered un) (programs ! i))"

lemma scan_interest_None:
  "length bytes = 512 \<Longrightarrow> scan_interest frame known offsets (changed, bytes) = None \<longleftrightarrow> (\<exists>o'\<in>set offsets. o' < 0 \<or> 512 \<le> o')"
  by (induction offsets arbitrary: changed bytes) auto

text \<open>After the scan every byte of interest is that of the frame, and the others are as before.\<close>

definition differs :: "u8 list \<Rightarrow> bool \<Rightarrow> u8 list \<Rightarrow> int \<Rightarrow> bool" where
  "differs frame known bytes offset \<longleftrightarrow> \<not> known \<or> bytes ! nat offset \<noteq> byte_at frame offset"

lemma scan_interest_Some:
  assumes "scan_interest frame known offsets (changed, bytes) = Some (changed', bytes')" and "length bytes = 512"
  shows "length bytes' = 512 \<and> set offsets \<subseteq> {0..<512} \<and>
    (\<forall>k. 0 \<le> k \<longrightarrow> bytes' ! nat k = (if k \<in> set offsets then byte_at frame k else bytes ! nat k)) \<and>
    set changed' = set changed \<union> {k \<in> set offsets. differs frame known bytes k}"
  using assms
proof (induction offsets arbitrary: changed bytes)
  case (Cons j js)
  from Cons.prems have j: "0 \<le> j" "j < 512" by (auto split: if_splits)
  let ?new = "differs frame known bytes j"
  define c where "c = (if ?new then changed @ [j] else changed)"
  define b where "b = (if ?new then bytes[nat j := byte_at frame j] else bytes)"
  have run: "scan_interest frame known js (c, b) = Some (changed', bytes')"
    using Cons.prems j by (auto simp: c_def b_def differs_def split: if_splits)
  have len: "length b = 512" using Cons.prems(2) by (simp add: b_def)
  have b: "b ! nat k = (if k = j then byte_at frame j else bytes ! nat k)" if "0 \<le> k" for k
    using that j Cons.prems(2) by (auto simp: b_def differs_def nth_list_update)
  have ih: "length bytes' = 512" "set js \<subseteq> {0..<512}"
    "\<And>k. 0 \<le> k \<Longrightarrow> bytes' ! nat k = (if k \<in> set js then byte_at frame k else b ! nat k)"
    "set changed' = set c \<union> {k \<in> set js. differs frame known b k}"
    using Cons.IH [OF run len] by blast+
  have "differs frame known b k = differs frame known bytes k" if "k \<in> set js" "k \<noteq> j" for k
    using that ih(2) b [of k] by (auto simp: differs_def)
  moreover have "differs frame known b j \<Longrightarrow> ?new" using b [OF j(1)] by (simp add: differs_def)
  moreover have "set c = set changed \<union> (if ?new then {j} else {})" by (simp add: c_def)
  ultimately have "set changed' = set changed \<union> {k \<in> set (j # js). differs frame known bytes k}"
    unfolding ih(4) by auto
  then show ?case using ih(1-3) b j by auto
qed simp

lemma submit_frame_ok: "universe_ok narrow programs calls un \<Longrightarrow> universe_ok narrow programs calls (submit_frame bytes un)"
  by (simp add: universe_ok_def submit_frame_def remembered_def [abs_def])

lemma universe_okD:
  assumes "universe_ok narrow programs calls un"
  shows "plan_ready programs calls (un_plan un)" "workspace_ready (un_plan un) (plan_workspace (un_plan un))"
    "map in_program (un_bindings un) = programs" "length (un_last un) = 512" "set (un_interest un) \<subseteq> {0..<512}"
    "\<And>i v. i < length programs \<Longrightarrow> covered (un_interest un) (programs ! i) \<Longrightarrow>
       cache_values (cache_of (un_plan un)) i = Some v \<Longrightarrow>
       un_has_last un \<and> v = current_value narrow (remembered un) (programs ! i)"
  using assms by (simp_all add: universe_ok_def)

text \<open>A source that keeps its cached value reads no changed byte, so its value is the same.\<close>

lemma current_value_keep:
  assumes "covered interest program" and "\<And>k. k \<in> set interest \<Longrightarrow> \<exists>s\<in>set (pr_sources program). sint (bs_address s) = k \<Longrightarrow> f k = g k"
  shows "current_value narrow f program = current_value narrow g program"
  unfolding current_value_def using assms by (intro arg_cong [where f = "evaluated narrow program"] raw_of_cong) (auto simp: covered_def)

lemma take_frame_ok:
  assumes ok: "universe_ok narrow programs calls un" and pending: "un_pending un"
  shows "\<exists>evaluate un'. take_frame un = Some (evaluate, un') \<and> universe_ok narrow programs calls un' \<and>
    \<not> un_pending un' \<and> un_has_last un' \<and> un_latest un' = un_latest un \<and> un_interest un' = un_interest un"
proof -
  note d = universe_okD [OF ok]
  have "scan_interest (un_latest un) (un_has_last un) (un_interest un) ([], un_last un) \<noteq> None"
    unfolding scan_interest_None [OF d(4)] using d(5) by (auto simp: subset_iff)
  then obtain changed bytes where scan: "scan_interest (un_latest un) (un_has_last un) (un_interest un) ([], un_last un) = Some (changed, bytes)"
    by auto
  note s = scan_interest_Some [OF scan d(4), THEN conjunct2, THEN conjunct2, THEN conjunct1, rule_format]
    and len = scan_interest_Some [OF scan d(4), THEN conjunct1]
  have changed: "set changed = {k \<in> set (un_interest un). differs (un_latest un) (un_has_last un) (un_last un) k}"
    using scan_interest_Some [OF scan d(4)] by simp
  define un1 where "un1 = un\<lparr>un_pending := False, un_changed := changed, un_last := bytes, un_has_last := True\<rparr>"
  define un2 where "un2 = un1\<lparr>un_plan := begin_update changed (un_plan un)\<rparr>"
  have bytes: "bytes ! nat k = byte_at (un_latest un) k" if "k \<in> set (un_interest un)" for k
  proof -
    have "0 \<le> k" using that d(5) by auto
    then show ?thesis using s [of k] that by simp
  qed
  have same: "current_value narrow (\<lambda>k. bytes ! nat k) (programs ! i) = current_value narrow (remembered un) (programs ! i)"
    if "un_has_last un" "covered (un_interest un) (programs ! i)" "i < length programs" "\<forall>k\<in>set changed. \<not> reads_offset programs i k" for i
  proof (rule current_value_keep [OF that(2)])
    fix k assume k: "k \<in> set (un_interest un)" "\<exists>b\<in>set (pr_sources (programs ! i)). sint (bs_address b) = k"
    have range: "0 \<le> k" "k < 512" using k(1) d(5) by auto
    then have "k \<notin> set changed" using that(3,4) k(2) by (auto simp: reads_offset_def)
    then show "bytes ! nat k = remembered un k" using changed k(1) bytes [OF k(1)] by (simp add: differs_def remembered_def)
  qed
  have ready: "plan_ready programs calls (un_plan un2) \<and> workspace_ready (un_plan un2) (plan_workspace (un_plan un2))"
    using plan_step_ready [OF d(1,2), of "Update changed"] by (simp add: plan_step_def un2_def)
  have cache: "cache_values (cache_of (un_plan un2)) = cache_values (cache_of (un_plan un)) |`
      (- {i. \<exists>k\<in>set changed. reads_offset programs i k})"
    using cache_update [OF d(1,2), of changed] by (simp add: un2_def cache_step_def Let_def)
  have rem: "remembered un2 = (\<lambda>k. bytes ! nat k)" "remembered un1 = (\<lambda>k. bytes ! nat k)"
    by (simp_all add: remembered_def [abs_def] un2_def un1_def)
  have ok2: "universe_ok narrow programs calls un2"
    unfolding universe_ok_def rem
  proof (intro conjI allI impI)
    fix i v
    assume i: "i < length programs \<and> covered (un_interest un2) (programs ! i) \<and> cache_values (cache_of (un_plan un2)) i = Some v"
    then have "cache_values (cache_of (un_plan un)) i = Some v" and "\<forall>k\<in>set changed. \<not> reads_offset programs i k"
      unfolding cache by (auto simp: restrict_map_def split: if_splits)
    then show "v = current_value narrow (\<lambda>k. bytes ! nat k) (programs ! i)"
      using d(6) [of i v] i same [of i] by (simp add: un2_def un1_def)
  qed (use ready d len bytes in \<open>auto simp: un2_def un1_def\<close>)
  show ?thesis
  proof (cases "changed = []")
    case True
    have "universe_ok narrow programs calls un1"
      unfolding universe_ok_def rem
    proof (intro conjI allI impI)
      fix i v
      assume "i < length programs \<and> covered (un_interest un1) (programs ! i) \<and> cache_values (cache_of (un_plan un1)) i = Some v"
      then show "v = current_value narrow (\<lambda>k. bytes ! nat k) (programs ! i)"
        using d(6) [of i v] same [of i] True by (simp add: un1_def)
    qed (use d len bytes in \<open>auto simp: un1_def\<close>)
    then show ?thesis using True scan pending by (auto simp: take_frame_def un1_def Let_def)
  next
    case False
    then show ?thesis using ok2 scan pending by (auto simp: take_frame_def un2_def un1_def Let_def)
  qed
qed

lemma evaluate_cached_source_ok:
  assumes ok: "universe_ok narrow programs calls un" and fresh: "\<not> un_pending un" "un_has_last un" and i: "i < length programs"
  shows "\<exists>v un'. evaluate_cached_source narrow i un = Some (v, un') \<and> universe_ok narrow programs calls un' \<and>
    \<not> un_pending un' \<and> un_has_last un' \<and> un_latest un' = un_latest un \<and> un_interest un' = un_interest un \<and>
    (covered (un_interest un) (programs ! i) \<longrightarrow> v = current_value narrow (byte_at (un_latest un)) (programs ! i))"
proof -
  note d = universe_okD [OF ok]
  have now: "current_value narrow (remembered un) (programs ! j) = current_value narrow (byte_at (un_latest un)) (programs ! j)"
    if "covered (un_interest un) (programs ! j)" for j
    using ok fresh by (intro current_value_keep [OF that]) (simp add: universe_ok_def)
  have n: "length (plan_sources (un_plan un)) = length programs" using d(1) by (simp add: plan_ready_def nodes_ok_def)
  have lens: "length (ws_invalid (plan_workspace (un_plan un))) = length programs" "length (ws_values (plan_workspace (un_plan un))) = length programs"
    using d(2) n by (simp_all add: workspace_ready_def)
  show ?thesis
  proof (cases "needs_evaluation i (un_plan un) = Some False")
    case True
    obtain v where v: "value_at i (un_plan un) = Some v" using lens(2) i by (simp add: value_at_def Let_def)
    then have "cache_values (cache_of (un_plan un)) i = Some v" using True by (simp add: cache_of_def)
    then have "covered (un_interest un) (programs ! i) \<longrightarrow> v = current_value narrow (byte_at (un_latest un)) (programs ! i)"
      using d(6) [OF i] now by simp
    then show ?thesis using True v ok fresh by (simp add: evaluate_cached_source_def)
  next
    case False
    then have need: "needs_evaluation i (un_plan un) = Some True" using lens(1) i by (auto simp: needs_evaluation_def Let_def)
    have b: "length (un_bindings un) = length programs" "in_program (un_bindings un ! i) = programs ! i"
      using d(3) i by (auto simp flip: d(3))
    obtain source diags where ev: "evaluate_source_program narrow (un_latest un) (un_bindings un ! i) (un_diagnostics un)
        = (current_value narrow (byte_at (un_latest un)) (programs ! i), source, diags)" and src: "in_program source = programs ! i"
      using evaluate_source_program [of narrow "un_latest un" "un_bindings un ! i" "un_diagnostics un"] b(2) by auto
    let ?v = "current_value narrow (byte_at (un_latest un)) (programs ! i)"
    obtain q where q: "store_value i ?v (un_plan un) = Some q" using lens i by (simp add: store_value_def Let_def)
    then have step: "plan_step (Store i ?v) (un_plan un) = Some q" by (simp add: plan_step_def)
    have cache: "cache_values (cache_of q) = (cache_values (cache_of (un_plan un)))(i \<mapsto> ?v)"
      using cache_step_refines [OF d(1,2) step] by (simp add: cache_step_def)
    define un' where "un' = un\<lparr>un_plan := q, un_bindings := (un_bindings un)[i := source], un_diagnostics := diags\<rparr>"
    have rem: "remembered un' = remembered un" by (simp add: remembered_def [abs_def] un'_def)
    have "map in_program ((un_bindings un)[i := source]) = programs"
      using d(3) src i by (simp add: map_update)
    then have "universe_ok narrow programs calls un'"
      unfolding universe_ok_def rem
      using ok fresh now plan_step_ready [OF d(1,2) step] cache d(6)
      by (auto simp: un'_def universe_ok_def split: if_splits)
    then show ?thesis using need b(1) i ev q fresh by (simp add: evaluate_cached_source_def un'_def)
  qed
qed

subsection \<open>Properties on the latest frame\<close>

text \<open>A universe that has taken the frame.\<close>

definition settled ::
    "(real \<Rightarrow> real) \<Rightarrow> dmx_source_program list \<Rightarrow> consumer_call list \<Rightarrow> u8 list \<Rightarrow> int list \<Rightarrow> universe_state \<Rightarrow> bool" where
  "settled narrow programs calls frame interest un \<longleftrightarrow>
     universe_ok narrow programs calls un \<and> \<not> un_pending un \<and> un_has_last un \<and> un_latest un = frame \<and> un_interest un = interest"

definition source_good :: "int list \<Rightarrow> dmx_source_program list \<Rightarrow> nat \<Rightarrow> bool" where
  "source_good interest programs i \<longleftrightarrow> i < length programs \<and> covered interest (programs ! i)"

definition property_good :: "int list \<Rightarrow> dmx_source_program list \<Rightarrow> property_program \<Rightarrow> bool" where
  "property_good interest programs property \<longleftrightarrow> (\<forall>i\<in>set (pg_sources property). source_good interest programs i)"

lemma settled_source:
  assumes "settled narrow programs calls frame interest un" and "source_good interest programs i"
  shows "\<exists>un'. evaluate_cached_source narrow i un = Some (current_value narrow (byte_at frame) (programs ! i), un') \<and>
    settled narrow programs calls frame interest un'"
  using evaluate_cached_source_ok [of narrow programs calls un i] assms by (auto simp: settled_def source_good_def)

lemma settled_program:
  assumes "settled narrow programs calls frame interest un" and "i < length programs"
  shows "in_program (un_bindings un ! i) = programs ! i"
proof -
  have "map in_program (un_bindings un) = programs" using assms(1) by (simp add: settled_def universe_ok_def)
  then show ?thesis using assms(2) by auto
qed

lemma select_source_ok:
  assumes "settled narrow programs calls frame interest un" and "\<forall>i\<in>set is. source_good interest programs i"
  shows "\<exists>un'. select_source narrow is selected un =
      Some (if ev_valid selected then selected
            else case find (\<lambda>i. in_range (programs ! i) (raw_of (byte_at frame) (programs ! i))) is of
                   None \<Rightarrow> selected | Some i \<Rightarrow> current_value narrow (byte_at frame) (programs ! i), un') \<and>
    settled narrow programs calls frame interest un'"
  using assms
proof (induction "is" arbitrary: selected un)
  case (Cons i js)
  obtain un1 where un1: "evaluate_cached_source narrow i un = Some (current_value narrow (byte_at frame) (programs ! i), un1)"
    "settled narrow programs calls frame interest un1"
    using settled_source [OF Cons.prems(1), of i] Cons.prems(2) by auto
  have "in_program (un_bindings un1 ! i) = programs ! i"
    using settled_program [OF un1(2)] Cons.prems(2) by (simp add: source_good_def)
  then show ?case
    using Cons.IH [OF un1(2), of selected] Cons.IH [OF un1(2), of "current_value narrow (byte_at frame) (programs ! i)"] Cons.prems(2)
    by (cases "ev_valid selected"; cases "in_range (programs ! i) (raw_of (byte_at frame) (programs ! i))") (simp_all add: un1(1))
qed simp

lemma weigh_sources_ok:
  assumes "settled narrow programs calls frame interest un" and "\<forall>(i, w)\<in>set ws. source_good interest programs i"
  shows "\<exists>un'. weigh_sources narrow ws acc un =
      Some (fold (\<lambda>(i, w). weigh (current_value narrow (byte_at frame) (programs ! i)) w) ws acc, un') \<and>
    settled narrow programs calls frame interest un'"
  using assms
proof (induction ws arbitrary: acc un)
  case (Cons x xs)
  obtain i w where x: "x = (i, w)" by force
  obtain un1 where un1: "evaluate_cached_source narrow i un = Some (current_value narrow (byte_at frame) (programs ! i), un1)"
    "settled narrow programs calls frame interest un1"
    using settled_source [OF Cons.prems(1), of i] Cons.prems(2) x by auto
  then show ?case using Cons.IH [OF un1(2)] Cons.prems(2) by (simp add: x)
qed simp

lemma weigh_fold:
  assumes "\<forall>(v, w)\<in>set vs. ev_valid v" and "ev_valid result"
  shows "fold (\<lambda>(v, w). weigh v w) vs (result, a, b, c) =
    (result, a + (\<Sum>(v, w)\<leftarrow>vs. ev_normalized_value v * w), b + (\<Sum>(v, w)\<leftarrow>vs. ev_physical_value v * w), c + (\<Sum>(v, w)\<leftarrow>vs. w))"
  using assms
proof (induction vs arbitrary: a b c)
  case (Cons x xs)
  then show ?case by (cases x) (simp add: weigh_def)
qed simp

lemma weighted_fold:
  assumes "\<forall>(v, w)\<in>set vs. ev_valid v"
  shows "weighted narrow (fold (\<lambda>(v, w). weigh v w) vs (blank_value, 0, 0, 0)) = weighted_mean narrow vs"
proof (cases vs)
  case Nil
  then show ?thesis by (simp add: weighted_def weighted_mean_def blank_value_def)
next
  case (Cons x xs)
  obtain v w where x: "x = (v, w)" by force
  have valid: "ev_valid v" "\<forall>(v, w)\<in>set xs. ev_valid v" using assms Cons x by auto
  define r where "r = blank_value\<lparr>ev_raw_value := ev_raw_value v, ev_active_program_id := ev_active_program_id v, ev_valid := True\<rparr>"
  have "weigh v w (blank_value, 0, 0, 0) = (r, ev_normalized_value v * w, ev_physical_value v * w, w)"
    using valid(1) by (simp add: weigh_def blank_value_def r_def)
  moreover have "ev_valid r" by (simp add: r_def)
  ultimately show ?thesis
    using weigh_fold [OF valid(2), of r]
    by (simp add: Cons x weighted_def weighted_mean_def Let_def) (simp add: r_def blank_value_def)
qed

lemma evaluate_property_ok:
  assumes "settled narrow programs calls frame interest un" and "property_good interest programs property"
  shows "\<exists>un'. evaluate_property_value narrow property un = Some (property_value narrow (byte_at frame) programs property, un') \<and>
    settled narrow programs calls frame interest un'"
proof (cases "length (pg_sources property) > 1 \<and> pg_range_selector property")
  case True
  then show ?thesis
    using select_source_ok [OF assms(1), of "pg_sources property" blank_value] assms(2)
    by (auto simp: evaluate_property_value_def property_value_def property_good_def blank_value_def)
next
  case False
  have "\<forall>(i, w)\<in>set (weights_of property). source_good interest programs i"
    using assms(2) by (auto simp: property_good_def weights_of_def dest: set_zip_leftD)
  then obtain un' where un': "weigh_sources narrow (weights_of property) (blank_value, 0, 0, 0) un =
      Some (fold (\<lambda>(i, w). weigh (current_value narrow (byte_at frame) (programs ! i)) w) (weights_of property) (blank_value, 0, 0, 0), un')"
    "settled narrow programs calls frame interest un'"
    using weigh_sources_ok [OF assms(1)] by blast
  define vs where "vs = map (\<lambda>(i, w). (current_value narrow (byte_at frame) (programs ! i), w)) (weights_of property)"
  have "fold (\<lambda>(i, w). weigh (current_value narrow (byte_at frame) (programs ! i)) w) (weights_of property) = fold (\<lambda>(v, w). weigh v w) vs"
    by (simp add: vs_def fold_map comp_def case_prod_beta')
  moreover have "\<forall>(v, w)\<in>set vs. ev_valid v" by (auto simp: vs_def)
  moreover have "property_value narrow (byte_at frame) programs property = weighted_mean narrow vs"
    unfolding property_value_def vs_def if_not_P [OF False] ..
  ultimately show ?thesis using un' False weighted_fold [of vs narrow] by (auto simp: evaluate_property_value_def)
qed

subsection \<open>A session of a universe\<close>

datatype universe_event = Arrive "u8 list" | Consume "property_program list"

fun evaluate_all :: "(real \<Rightarrow> real) \<Rightarrow> property_program list \<Rightarrow> universe_state \<Rightarrow> universe_state option" where
  "evaluate_all narrow [] un = Some un"
| "evaluate_all narrow (p # ps) un =
     (case evaluate_property_value narrow p un of None \<Rightarrow> None | Some (v, un) \<Rightarrow> evaluate_all narrow ps un)"

fun universe_step :: "(real \<Rightarrow> real) \<Rightarrow> universe_event \<Rightarrow> universe_state \<Rightarrow> universe_state option" where
  "universe_step narrow (Arrive bytes) un = Some (submit_frame bytes un)"
| "universe_step narrow (Consume progs) un =
     (case take_frame un of
        None \<Rightarrow> None
      | Some (evaluate, un) \<Rightarrow> if evaluate then evaluate_all narrow progs un else Some un)"

fun universe_run :: "(real \<Rightarrow> real) \<Rightarrow> universe_event list \<Rightarrow> universe_state \<Rightarrow> universe_state option" where
  "universe_run narrow [] un = Some un"
| "universe_run narrow (e # es) un = (case universe_step narrow e un of None \<Rightarrow> None | Some un \<Rightarrow> universe_run narrow es un)"

definition installed_universe ::
    "dmx_source_program list \<Rightarrow> runtime_diagnostic list \<Rightarrow> consumer_call list \<Rightarrow> int list \<Rightarrow> universe_state" where
  "installed_universe programs diags calls interest =
     (let sources = map installed_program programs
      in \<lparr>un_plan = build (map in_program sources) diags calls, un_bindings = sources, un_interest = interest,
          un_last = replicate 512 0, un_latest = [], un_pending = False, un_has_last = False, un_changed = [],
          un_diagnostics = diags\<rparr>)"

lemma installed_universe_ok:
  assumes "set interest \<subseteq> {0..<512}"
  shows "universe_ok narrow (map (\<lambda>p. in_program (installed_program p)) programs) calls (installed_universe programs diags calls interest)"
proof -
  let ?ps = "map in_program (map installed_program programs)"
  have "cache_values (cache_of (build ?ps diags calls)) = Map.empty"
    by (simp only: cache_of_def plan_cache.select_convs build_uncached if_False)
  then show ?thesis using build_ready [of ?ps calls diags] assms
    by (simp add: universe_ok_def installed_universe_def Let_def comp_def)
qed

lemma evaluate_all_ok:
  assumes "settled narrow programs calls frame interest un" and "\<forall>p\<in>set ps. property_good interest programs p"
  shows "\<exists>un'. evaluate_all narrow ps un = Some un' \<and> settled narrow programs calls frame interest un'"
  using assms
proof (induction ps arbitrary: un)
  case (Cons p ps)
  then obtain un1 v where un1: "evaluate_property_value narrow p un = Some (v, un1)" "settled narrow programs calls frame interest un1"
    using evaluate_property_ok [of narrow programs calls frame interest un p] by auto
  then show ?case using Cons.IH [OF un1(2)] Cons.prems(2) by simp
qed simp

lemma universe_step_ok:
  assumes "universe_ok narrow programs calls un" and "un_interest un = interest"
    and "\<forall>ps. e = Consume ps \<longrightarrow> (\<forall>p\<in>set ps. property_good interest programs p)"
  shows "\<exists>un'. universe_step narrow e un = Some un' \<and> universe_ok narrow programs calls un' \<and> un_interest un' = interest \<and>
    (un_pending un \<longrightarrow> e \<in> range Consume \<longrightarrow> settled narrow programs calls (un_latest un) interest un')"
proof (cases e)
  case (Arrive bytes)
  then show ?thesis using submit_frame_ok [OF assms(1), of bytes] assms(2) by (auto simp: submit_frame_def)
next
  case (Consume ps)
  show ?thesis
  proof (cases "un_pending un")
    case False
    then show ?thesis using assms Consume by (simp add: take_frame_def)
  next
    case True
    obtain ev un1 where t: "take_frame un = Some (ev, un1)" and s: "settled narrow programs calls (un_latest un) interest un1"
      using take_frame_ok [OF assms(1) True] assms(2) by (auto simp: settled_def)
    obtain un2 where "evaluate_all narrow ps un1 = Some un2" "settled narrow programs calls (un_latest un) interest un2"
      using evaluate_all_ok [OF s] assms(3) Consume by auto
    then show ?thesis using t s Consume by (cases ev) (auto simp: settled_def)
  qed
qed

lemma universe_run_ok:
  assumes "universe_ok narrow programs calls un" and "un_interest un = interest"
    and "\<forall>ps. Consume ps \<in> set es \<longrightarrow> (\<forall>p\<in>set ps. property_good interest programs p)"
  shows "\<exists>un'. universe_run narrow es un = Some un' \<and> universe_ok narrow programs calls un' \<and> un_interest un' = interest"
  using assms
proof (induction es arbitrary: un)
  case (Cons e es)
  obtain un1 where "universe_step narrow e un = Some un1" "universe_ok narrow programs calls un1" "un_interest un1 = interest"
    using universe_step_ok [OF Cons.prems(1,2), of e] Cons.prems(3) by auto
  then show ?case using Cons.IH [of un1] Cons.prems(3) by simp
qed simp

lemma universe_run_append:
  "universe_run narrow (es @ fs) un = (case universe_run narrow es un of None \<Rightarrow> None | Some un \<Rightarrow> universe_run narrow fs un)"
  by (induction es arbitrary: un) (auto split: option.splits)


definition dimmer_source :: dmx_source_program where
  "dimmer_source = blank_program\<lparr>pr_program_id := 1,
     pr_sources := [\<lparr>bs_universe_id = 0, bs_address = 2, bs_byte_order = 0\<rparr>]\<rparr>"

definition dimmer_property :: property_program where
  "dimmer_property = \<lparr>pg_property = blank_property\<lparr>cp_contributors :=
       [\<lparr>pc_source_program_id = 1, pc_weight = 1, pc_operation = 0\<rparr>]\<rparr>, pg_parameter = SemDimmer, pg_sources = [0], pg_range_selector = False\<rparr>"




end
