(* ===== verification/Runtime_Components.thy ===== *)
theory Runtime_Components
  imports Runtime_Sources "HOL-Library.AList"
begin

text \<open>
  The mechanical and light properties of fixtures in \<open>PeravizVisualRuntimeCore\<close>
  (\<open>runtime/peraviz_visual_runtime.cpp\<close>): dimmer, zoom, pan and tilt are evaluated, written into the state of their
  component, cooked into what the renderer needs, and merged with the state held before; a row is published when the merge
  finds a change. The theorem says which values of a fade are published.
\<close>

subsection \<open>Parameters\<close>

definition VisualChangeNone :: u32 where "VisualChangeNone = 0"
definition VisualChangeTransform :: u32 where "VisualChangeTransform = 1"
definition VisualChangeGobo :: u32 where "VisualChangeGobo = 16"
definition VisualChangeGoboRotation :: u32 where "VisualChangeGoboRotation = 32"
definition VisualChangePrism :: u32 where "VisualChangePrism = 64"
definition VisualChangeStrobe :: u32 where "VisualChangeStrobe = 128"

lemmas visual_change_defs = change_defs VisualChangeNone_def VisualChangeTransform_def VisualChangeGobo_def
  VisualChangeGoboRotation_def VisualChangePrism_def VisualChangeStrobe_def

definition semantic_parameter_for_compiled :: "compiled_semantic \<Rightarrow> semantic_parameter" where
  "semantic_parameter_for_compiled semantic =
     (if semantic = 1 then SemPan else if semantic = 2 then SemTilt else if semantic = 3 then SemDimmer
      else if semantic = 4 then SemZoom else if semantic = 12 then SemAddRed else if semantic = 13 then SemAddGreen
      else if semantic = 14 then SemAddBlue else if semantic = 15 then SemAddWhite else if semantic = 16 then SemAddAmber
      else if semantic = 17 then SemAddLime else if semantic = 18 then SemSubCyan else if semantic = 19 then SemSubMagenta
      else if semantic = 20 then SemSubYellow else SemUnknown)"

fun visual_mask_for_parameter :: "semantic_parameter \<Rightarrow> u32" where
  "visual_mask_for_parameter SemDimmer = VisualChangeDimmer OR VisualChangeMaterial"
| "visual_mask_for_parameter SemPan = VisualChangeTransform"
| "visual_mask_for_parameter SemTilt = VisualChangeTransform"
| "visual_mask_for_parameter SemZoom = VisualChangeZoom"
| "visual_mask_for_parameter SemGoboSelect = VisualChangeGobo OR VisualChangeBeamTopology"
| "visual_mask_for_parameter SemGoboIndex = VisualChangeGobo OR VisualChangeBeamTopology"
| "visual_mask_for_parameter SemGoboRotation = VisualChangeGoboRotation"
| "visual_mask_for_parameter SemPrismSelect = VisualChangePrism"
| "visual_mask_for_parameter SemPrismRotation = VisualChangePrism"
| "visual_mask_for_parameter SemStrobe = VisualChangeStrobe"
| "visual_mask_for_parameter SemUnknown = VisualChangeNone"
| "visual_mask_for_parameter _ = VisualChangeColor"

subsection \<open>Component states\<close>

record component_state =
  co_pan :: real
  co_tilt :: real
  co_dimmer :: real
  co_zoom :: real
  co_zoom_normalized :: real
  co_has_zoom_physical :: bool
  co_beam_energy :: real
  co_spot_energy :: real
  co_beam_half_angle :: real
  co_beam_angle :: real
  co_beam_intensity :: real
  co_material_energy :: real
  co_initialized :: bool

definition blank_component :: component_state where
  "blank_component = \<lparr>co_pan = 0, co_tilt = 0, co_dimmer = 0, co_zoom = 0, co_zoom_normalized = 0,
     co_has_zoom_physical = False, co_beam_energy = 0, co_spot_energy = 0, co_beam_half_angle = 125 / 10,
     co_beam_angle = 25, co_beam_intensity = 0, co_material_energy = 0, co_initialized = False\<rparr>"

record render_params =
  rp_luminous_flux :: real
  rp_beam_angle_default :: real
  rp_zoom_min_deg :: real
  rp_zoom_max_deg :: real
  rp_spot_multiplier :: real
  rp_beam_multiplier :: real
  rp_has_zoom :: bool

definition default_render_params :: render_params where
  "default_render_params = \<lparr>rp_luminous_flux = 10000, rp_beam_angle_default = 25, rp_zoom_min_deg = - 1,
     rp_zoom_max_deg = - 1, rp_spot_multiplier = 1, rp_beam_multiplier = 20, rp_has_zoom = False\<rparr>"

definition apply_semantic_value :: "semantic_parameter \<Rightarrow> real \<Rightarrow> component_state \<Rightarrow> component_state" where
  "apply_semantic_value parameter x state =
     (case parameter of
        SemPan \<Rightarrow> state\<lparr>co_pan := x\<rparr> | SemTilt \<Rightarrow> state\<lparr>co_tilt := x\<rparr>
      | SemDimmer \<Rightarrow> state\<lparr>co_dimmer := x\<rparr> | SemZoom \<Rightarrow> state\<lparr>co_zoom := x\<rparr> | _ \<Rightarrow> state)"

definition beam_angle_of :: "render_params \<Rightarrow> component_state \<Rightarrow> real" where
  "beam_angle_of params state =
     (if \<not> rp_has_zoom params then clamp (rp_beam_angle_default params) (1 / 10) 90
      else if co_has_zoom_physical state then clamp (co_zoom state) 0 90
      else let low = (if rp_zoom_min_deg params \<ge> 0 then rp_zoom_min_deg params else 4);
               high = (if rp_zoom_max_deg params \<ge> 0 then rp_zoom_max_deg params else 90)
           in clamp (low + (high - low) * co_zoom_normalized state) 0 90)"

definition cook_render_state :: "(real \<Rightarrow> real) \<Rightarrow> render_params \<Rightarrow> component_state \<Rightarrow> component_state" where
  "cook_render_state narrow params state =
     (let angle = beam_angle_of params state; energy = max (rp_luminous_flux params) 0 * co_dimmer state * (2 / 100)
      in state\<lparr>co_beam_energy := narrow energy, co_spot_energy := narrow (energy * rp_spot_multiplier params),
               co_beam_half_angle := narrow (angle * (1 / 2)), co_beam_angle := narrow angle,
               co_beam_intensity := narrow (clamp (co_dimmer state * rp_beam_multiplier params) 0 50),
               co_material_energy := narrow (co_dimmer state * 4)\<rparr>)"

definition kDefaultEpsilon :: real where "kDefaultEpsilon = 1 / 10000"
definition kAngleEpsilon :: real where "kAngleEpsilon = 1 / 100"

definition nearly_equal :: "real \<Rightarrow> real \<Rightarrow> real \<Rightarrow> bool" where
  "nearly_equal a b epsilon \<longleftrightarrow> \<bar>a - b\<bar> \<le> epsilon"

subsection \<open>Merging\<close>

record component_core =
  cc_params :: "i32 \<Rightarrow> render_params option"
  cc_transforms :: "i32 \<Rightarrow> component_state option"
  cc_properties :: "i32 \<Rightarrow> component_state option"
  cc_installed_masks :: "i32 \<Rightarrow> u32 option"

definition held_state :: "i32 \<Rightarrow> (i32 \<Rightarrow> component_state option) \<Rightarrow> component_state" where
  "held_state key store = (case store key of None \<Rightarrow> blank_component | Some state \<Rightarrow> state)"

definition property_change :: "component_state \<Rightarrow> component_state \<Rightarrow> u32 \<Rightarrow> u32" where
  "property_change previous state installed =
     (if \<not> co_initialized previous then installed
      else (if \<not> nearly_equal (co_dimmer previous) (co_dimmer state) kDefaultEpsilon
            then installed AND visual_mask_for_parameter SemDimmer else 0) OR
           (if co_has_zoom_physical previous \<noteq> co_has_zoom_physical state \<or>
               \<not> nearly_equal (co_zoom previous) (co_zoom state) kAngleEpsilon \<or>
               \<not> nearly_equal (co_zoom_normalized previous) (co_zoom_normalized state) kDefaultEpsilon \<or>
               \<not> nearly_equal (co_beam_angle previous) (co_beam_angle state) kAngleEpsilon
            then installed AND visual_mask_for_parameter SemZoom else 0)) AND installed"

definition merge_property_state :: "i32 \<Rightarrow> component_state \<Rightarrow> u32 \<Rightarrow> component_core \<Rightarrow> u32 \<times> component_core" where
  "merge_property_state key state installed core =
     (property_change (held_state key (cc_properties core)) state installed,
      core\<lparr>cc_properties := (cc_properties core)(key \<mapsto> state\<lparr>co_initialized := True\<rparr>)\<rparr>)"

definition transform_change :: "i32 \<Rightarrow> component_state \<Rightarrow> component_core \<Rightarrow> u32" where
  "transform_change fixture state core =
     (let previous = held_state fixture (cc_transforms core)
      in if \<not> co_initialized previous
         then (case cc_installed_masks core fixture of None \<Rightarrow> VisualChangeNone | Some m \<Rightarrow> m) AND VisualChangeTransform
         else if \<not> nearly_equal (co_pan previous) (co_pan state) kDefaultEpsilon \<or>
                 \<not> nearly_equal (co_tilt previous) (co_tilt state) kDefaultEpsilon
              then VisualChangeTransform else 0)"

definition merge_transform_state :: "i32 \<Rightarrow> component_state \<Rightarrow> component_core \<Rightarrow> u32 \<times> component_core" where
  "merge_transform_state fixture state core =
     (transform_change fixture state core,
      core\<lparr>cc_transforms := (cc_transforms core)(fixture \<mapsto> state\<lparr>co_initialized := True\<rparr>)\<rparr>)"

subsection \<open>Evaluating the dirty properties\<close>

record cooked_color =
  ck_srgb_red :: real
  ck_srgb_green :: real
  ck_srgb_blue :: real
  ck_gain :: real
  ck_linear_red :: real
  ck_linear_green :: real
  ck_linear_blue :: real
  ck_valid :: bool
  ck_initialized :: bool

definition blank_color :: cooked_color where
  "blank_color = \<lparr>ck_srgb_red = 1, ck_srgb_green = 1, ck_srgb_blue = 1, ck_gain = 1, ck_linear_red = 1,
     ck_linear_green = 1, ck_linear_blue = 1, ck_valid = True, ck_initialized = False\<rparr>"

record pending_row =
  vr_fixture_id :: i32
  vr_render_target_id :: i32
  vr_changed_visual_mask :: u32
  vr_state :: component_state
  vr_color :: cooked_color
  vr_wheel_id :: i32
  vr_slot_a :: i32
  vr_slot_b :: i32
  vr_normalized_phase :: real
  vr_split_fraction :: real
  vr_boundary_angle_degrees :: real
  vr_wheel_mode :: wheel_mode
  vr_revision :: i32
  vr_wheel_row :: bool

definition plain_row :: "i32 \<Rightarrow> i32 \<Rightarrow> u32 \<Rightarrow> component_state \<Rightarrow> cooked_color \<Rightarrow> pending_row" where
  "plain_row fixture target m state color = \<lparr>vr_fixture_id = fixture, vr_render_target_id = target,
     vr_changed_visual_mask = m, vr_state = state, vr_color = color, vr_wheel_id = 0, vr_slot_a = 0, vr_slot_b = 0,
     vr_normalized_phase = 0, vr_split_fraction = 0, vr_boundary_angle_degrees = 0, vr_wheel_mode = 0,
     vr_revision = 0, vr_wheel_row = False\<rparr>"

definition params_of :: "i32 \<Rightarrow> component_core \<Rightarrow> render_params" where
  "params_of fixture core = (case cc_params core fixture of None \<Rightarrow> default_render_params | Some params \<Rightarrow> params)"

text \<open>A dimmer or a zoom with its value.\<close>

definition publish_property ::
    "(real \<Rightarrow> real) \<Rightarrow> property_program \<Rightarrow> evaluated_value \<Rightarrow> component_core \<times> pending_row list \<Rightarrow> component_core \<times> pending_row list" where
  "publish_property narrow program v = (\<lambda>(core, rows).
     let key = cp_property_id (pg_property program); fixture = cp_fixture_id (pg_property program);
         state = apply_semantic_value (pg_parameter program)
                   (if pg_parameter program = SemDimmer then ev_normalized_value v else ev_physical_value v)
                   (held_state key (cc_properties core));
         state = (if pg_parameter program = SemZoom
                  then state\<lparr>co_zoom_normalized := ev_normalized_value v, co_has_zoom_physical := True\<rparr> else state);
         state = cook_render_state narrow (params_of fixture core) state;
         (m, core) = merge_property_state key state (visual_mask_for_parameter (pg_parameter program)) core
     in if m = VisualChangeNone then (core, rows)
        else (core, rows @ [plain_row fixture (cp_render_target_id (pg_property program)) m state blank_color]))"

text \<open>Pan and tilt are collected for each fixture.\<close>

definition collect_transform ::
    "property_program \<Rightarrow> evaluated_value \<Rightarrow> component_core \<Rightarrow> (i32 \<times> component_state) list \<Rightarrow> (i32 \<times> component_state) list" where
  "collect_transform program v core pending =
     (let fixture = cp_fixture_id (pg_property program);
          state = (case map_of pending fixture of None \<Rightarrow> blank_component | Some state \<Rightarrow> state);
          state = (if \<not> co_initialized state then (case cc_transforms core fixture of None \<Rightarrow> state | Some held \<Rightarrow> held) else state);
          state = apply_semantic_value (pg_parameter program) (ev_physical_value v) state
      in AList.update fixture state pending)"

definition evaluate_property ::
    "(real \<Rightarrow> real) \<Rightarrow> property_program list \<Rightarrow> int \<Rightarrow>
      universe_state \<times> component_core \<times> pending_row list \<times> (i32 \<times> component_state) list \<Rightarrow>
      (universe_state \<times> component_core \<times> pending_row list \<times> (i32 \<times> component_state) list) option" where
  "evaluate_property narrow programs index = (\<lambda>(un, core, rows, pending).
     if index < 0 \<or> index \<ge> int (length programs) then Some (un, core, rows, pending)
     else let program = programs ! nat index
          in case evaluate_property_value narrow program un of
               None \<Rightarrow> None
             | Some (v, un) \<Rightarrow>
                 Some (if \<not> ev_valid v then (un, core, rows, pending)
                       else if pg_parameter program = SemDimmer \<or> pg_parameter program = SemZoom
                       then let (core, rows) = publish_property narrow program v (core, rows) in (un, core, rows, pending)
                       else (un, core, rows, collect_transform program v core pending)))"

definition publish_transform ::
    "(real \<Rightarrow> real) \<Rightarrow> i32 \<times> component_state \<Rightarrow> component_core \<times> pending_row list \<Rightarrow> component_core \<times> pending_row list" where
  "publish_transform narrow = (\<lambda>(fixture, state) (core, rows).
     let state = cook_render_state narrow (params_of fixture core) state;
         (m, core) = merge_transform_state fixture state core
     in if m = VisualChangeNone then (core, rows) else (core, rows @ [plain_row fixture 0 m state blank_color]))"

subsection \<open>A universe\<close>

text \<open>The work list of the properties, in the order in which the plan visits its dirty consumers.\<close>

definition property_indices :: "universe_state \<Rightarrow> int list" where
  "property_indices un =
     map (\<lambda>c. int (con_index c)) (filter (\<lambda>c. con_domain c = PropertyDomain)
       (map (\<lambda>k. plan_consumers (un_plan un) ! nat k) (dirty_consumers (un_plan un))))"

fun evaluate_indices ::
    "(real \<Rightarrow> real) \<Rightarrow> property_program list \<Rightarrow> int list \<Rightarrow>
      universe_state \<times> component_core \<times> pending_row list \<times> (i32 \<times> component_state) list \<Rightarrow>
      (universe_state \<times> component_core \<times> pending_row list \<times> (i32 \<times> component_state) list) option" where
  "evaluate_indices narrow programs [] acc = Some acc"
| "evaluate_indices narrow programs (i # is) acc =
     (case evaluate_property narrow programs i acc of None \<Rightarrow> None | Some acc \<Rightarrow> evaluate_indices narrow programs is acc)"

text \<open>The properties of a universe in \<open>consume_latest_visual_frame\<close>. The collected transforms are in an unordered map:
  \<open>arrange\<close> is the order in which it is traversed.\<close>

definition consume_properties ::
    "(real \<Rightarrow> real) \<Rightarrow> ((i32 \<times> component_state) list \<Rightarrow> (i32 \<times> component_state) list) \<Rightarrow> property_program list \<Rightarrow>
      universe_state \<times> component_core \<times> pending_row list \<Rightarrow> (universe_state \<times> component_core \<times> pending_row list) option" where
  "consume_properties narrow arrange programs = (\<lambda>(un, core, rows).
     case take_frame un of
       None \<Rightarrow> None
     | Some (False, un) \<Rightarrow> Some (un, core, rows)
     | Some (True, un) \<Rightarrow>
         map_option (\<lambda>(un, core, rows, pending). (un, fold (publish_transform narrow) (arrange pending) (core, rows)))
           (evaluate_indices narrow programs (property_indices un) (un, core, rows, [])))"

subsection \<open>What is published of a fade\<close>

text \<open>The rows of one property for a sequence of values, frame by frame.\<close>

fun publish_values :: "(real \<Rightarrow> real) \<Rightarrow> property_program \<Rightarrow> evaluated_value list \<Rightarrow> component_core \<Rightarrow> pending_row list list" where
  "publish_values narrow program [] core = []"
| "publish_values narrow program (v # vs) core =
     (let (core, rows) = publish_property narrow program v (core, []) in rows # publish_values narrow program vs core)"

definition dimmer_change :: "real option \<Rightarrow> real \<Rightarrow> bool" where
  "dimmer_change before x \<longleftrightarrow> (case before of None \<Rightarrow> True | Some y \<Rightarrow> \<bar>y - x\<bar> > kDefaultEpsilon)"

definition shown_dimmer :: "component_core \<Rightarrow> property_program \<Rightarrow> real option" where
  "shown_dimmer core program =
     (let held = held_state (cp_property_id (pg_property program)) (cc_properties core)
      in if co_initialized held then Some (co_dimmer held) else None)"

lemma dimmer_masks [simp]:
  "visual_mask_for_parameter SemDimmer AND visual_mask_for_parameter SemZoom = 0"
  "visual_mask_for_parameter SemDimmer \<noteq> 0" "VisualChangeDimmer OR VisualChangeMaterial = 258"
  by (simp_all add: visual_change_defs)

lemma cook_render_state_keeps [simp]:
  "co_dimmer (cook_render_state narrow params s) = co_dimmer s" "co_initialized (cook_render_state narrow params s) = co_initialized s"
  by (simp_all add: cook_render_state_def Let_def)

lemma property_change_dimmer:
  "property_change previous state (visual_mask_for_parameter SemDimmer) =
     (if dimmer_change (if co_initialized previous then Some (co_dimmer previous) else None) (co_dimmer state)
      then visual_mask_for_parameter SemDimmer else 0)"
  by (simp add: property_change_def dimmer_change_def nearly_equal_def visual_change_defs)

lemma publish_dimmer:
  assumes "pg_parameter program = SemDimmer"
  shows "\<exists>state core'. publish_property narrow program v (core, rows) =
      (core', rows @ (if dimmer_change (shown_dimmer core program) (ev_normalized_value v)
         then [plain_row (cp_fixture_id (pg_property program)) (cp_render_target_id (pg_property program)) 258 state blank_color] else [])) \<and>
    co_dimmer state = ev_normalized_value v \<and> shown_dimmer core' program = Some (ev_normalized_value v)"
proof -
  define key where "key = cp_property_id (pg_property program)"
  define fixture where "fixture = cp_fixture_id (pg_property program)"
  define state where "state = cook_render_state narrow (params_of fixture core)
    (apply_semantic_value SemDimmer (ev_normalized_value v) (held_state key (cc_properties core)))"
  define core' where "core' = core\<lparr>cc_properties := (cc_properties core)(key \<mapsto> state\<lparr>co_initialized := True\<rparr>)\<rparr>"
  have state: "co_dimmer state = ev_normalized_value v" by (simp add: state_def apply_semantic_value_def)
  have merge: "merge_property_state key state (visual_mask_for_parameter SemDimmer) core =
      (if dimmer_change (shown_dimmer core program) (ev_normalized_value v) then 258 else 0, core')"
    unfolding merge_property_state_def property_change_dimmer state
    by (simp add: shown_dimmer_def core'_def key_def Let_def)
  have "publish_property narrow program v (core, rows) =
      (let (m, core) = merge_property_state key state (visual_mask_for_parameter SemDimmer) core
       in if m = VisualChangeNone then (core, rows)
          else (core, rows @ [plain_row fixture (cp_render_target_id (pg_property program)) m state blank_color]))"
    unfolding publish_property_def prod.case Let_def key_def [symmetric] fixture_def [symmetric] assms if_True
    by (simp add: state_def del: visual_mask_for_parameter.simps split: prod.split)
  then have "publish_property narrow program v (core, rows) =
      (core', rows @ (if dimmer_change (shown_dimmer core program) (ev_normalized_value v)
         then [plain_row fixture (cp_render_target_id (pg_property program)) 258 state blank_color] else []))"
    unfolding merge by (simp add: VisualChangeNone_def)
  moreover have "shown_dimmer core' program = Some (ev_normalized_value v)"
    by (simp add: shown_dimmer_def core'_def key_def held_state_def state)
  ultimately show ?thesis using state unfolding fixture_def by blast
qed

definition row_summary :: "pending_row \<Rightarrow> i32 \<times> i32 \<times> u32 \<times> real" where
  "row_summary r = (vr_fixture_id r, vr_render_target_id r, vr_changed_visual_mask r, co_dimmer (vr_state r))"

lemma dimmer_rows_from:
  assumes "pg_parameter program = SemDimmer"
  shows "map (map row_summary) (publish_values narrow program vs core) =
    map (\<lambda>(before, x). if dimmer_change before x
           then [(cp_fixture_id (pg_property program), cp_render_target_id (pg_property program), 258, x)] else [])
      (zip (shown_dimmer core program # map (Some \<circ> ev_normalized_value) vs) (map ev_normalized_value vs))"
proof (induction vs arbitrary: core)
  case (Cons v vs)
  obtain state core' where p: "publish_property narrow program v (core, []) =
      (core', if dimmer_change (shown_dimmer core program) (ev_normalized_value v)
         then [plain_row (cp_fixture_id (pg_property program)) (cp_render_target_id (pg_property program)) 258 state blank_color] else [])"
    "co_dimmer state = ev_normalized_value v" "shown_dimmer core' program = Some (ev_normalized_value v)"
    using publish_dimmer [OF assms, of narrow v core "[]"] by auto
  show ?case using Cons.IH [of core'] by (auto simp: p row_summary_def plain_row_def)
qed simp

text \<open>Of the values a dimmer takes, frame by frame, a row is published for the first, and for each that differs by
  more than 0.0001 from the value of the frame before - which is not the value last published, because the state is
  overwritten whether or not a row is published.\<close>

theorem dimmer_rows_published:
  assumes "pg_parameter program = SemDimmer" and "cc_properties core (cp_property_id (pg_property program)) = None"
  shows "map (map row_summary) (publish_values narrow program vs core) =
    map (\<lambda>(before, x). if case before of None \<Rightarrow> True | Some y \<Rightarrow> \<bar>y - x\<bar> > 1 / 10000
           then [(cp_fixture_id (pg_property program), cp_render_target_id (pg_property program),
                  VisualChangeDimmer OR VisualChangeMaterial, x)] else [])
      (zip (None # map (Some \<circ> ev_normalized_value) vs) (map ev_normalized_value vs))"
proof -
  have "shown_dimmer core program = None"
    using assms(2) by (simp add: shown_dimmer_def held_state_def blank_component_def)
  then show ?thesis using dimmer_rows_from [OF assms(1), of narrow vs core]
    by (simp only: dimmer_change_def kDefaultEpsilon_def dimmer_masks)
qed

subsection \<open>A slow fade\<close>

definition normalized_on :: "(real \<Rightarrow> real) \<Rightarrow> dmx_source_program list \<Rightarrow> property_program \<Rightarrow> u8 list \<Rightarrow> real" where
  "normalized_on narrow programs program frame = ev_normalized_value (property_value narrow (byte_at frame) programs program)"

definition single_source :: "property_program \<Rightarrow> nat \<Rightarrow> bool" where
  "single_source program i \<longleftrightarrow> pg_sources program = [i] \<and> map pc_weight (cp_contributors (pg_property program)) = [1]"

lemma normalized_on_single:
  "single_source program i \<Longrightarrow> normalized_on narrow programs program frame =
     narrow (narrow (local_value (programs ! i) (raw_of (byte_at frame) (programs ! i))))"
  by (simp add: normalized_on_def single_source_def property_value_def weights_of_def weighted_mean_def Let_def)
    (simp add: current_value_def evaluated_def Let_def)

definition sixteen_bit :: "dmx_source_program \<Rightarrow> bool" where
  "sixteen_bit program \<longleftrightarrow> length (pr_sources program) = 2 \<and> pr_dmx_from program = 0 \<and> pr_dmx_to program = 65535"

lemma local_value_sixteen:
  assumes "sixteen_bit program" and "raw \<le> 65535"
  shows "local_value program raw = real (unat raw) / 65535"
proof -
  have "unat raw \<le> 65535" using assms(2) by (simp add: word_le_nat_alt)
  then have "real (unat raw) \<le> 65535" by (metis of_nat_le_iff of_nat_numeral)
  moreover have "mp_span (mapping_of program) = 65535" using assms(1) by (simp add: mapping_of_def sixteen_bit_def Let_def)
  ultimately show ?thesis using assms(1) by (simp add: local_value_def Let_def sixteen_bit_def clamp_def del: of_nat_unat)
qed

lemma sixteen_raw:
  assumes "sixteen_bit program"
  shows "unat (raw_of f program) = 256 * unat (f (sint (bs_address (pr_sources program ! 0)))) +
    unat (f (sint (bs_address (pr_sources program ! 1))))"
proof -
  obtain hi lo where s: "pr_sources program = [hi, lo]"
    using assms by (auto simp: sixteen_bit_def numeral_2_eq_2 length_Suc_conv)
  let ?h = "f (sint (bs_address hi))" and ?l = "f (sint (bs_address lo))"
  have b: "unat (ucast ?h :: u32) = unat ?h" "unat (ucast ?l :: u32) = unat ?l" "unat ?h < 256" "unat ?l < 256"
    using unsigned_less [of ?h] unsigned_less [of ?l] by (simp_all add: unat_ucast_widen)
  then show ?thesis using unat_or_push_bit [of "ucast ?l :: u32" 8 "ucast ?h"] by (simp add: raw_of_def s)
qed

lemma sixteen_value:
  assumes "sixteen_bit program"
  shows "local_value program (raw_of f program) = real (unat (raw_of f program)) / 65535" and "unat (raw_of f program) \<le> 65535"
proof -
  have byte: "unat (w :: u8) \<le> 255" for w using unsigned_less [of w, where ?'a = nat] by simp
  show "unat (raw_of f program) \<le> 65535"
    using byte [of "f (sint (bs_address (pr_sources program ! 0)))"] byte [of "f (sint (bs_address (pr_sources program ! 1)))"]
    unfolding sixteen_raw [OF assms] by linarith
  then show "local_value program (raw_of f program) = real (unat (raw_of f program)) / 65535"
    by (intro local_value_sixteen [OF assms]) (simp add: word_le_nat_alt)
qed

text \<open>Rounding to a \<open>float\<close>, for numbers between 0 and 1.\<close>

definition rounds :: "(real \<Rightarrow> real) \<Rightarrow> bool" where
  "rounds narrow \<longleftrightarrow> (\<forall>x. 0 \<le> x \<and> x \<le> 1 \<longrightarrow> 0 \<le> narrow x \<and> narrow x \<le> 1 \<and> \<bar>narrow x - x\<bar> \<le> 1 / 2 ^ 24)"

lemma rounds_near:
  assumes "rounds narrow" and "0 \<le> x" "x \<le> 1" "0 \<le> y" "y \<le> 1" and "\<bar>x - y\<bar> \<le> 6 / 65535"
  shows "\<bar>narrow (narrow x) - narrow (narrow y)\<bar> \<le> 1 / 10000"
proof -
  have c: "1 / 2 ^ 24 = (1 / 16777216 :: real)" by simp
  have x: "0 \<le> narrow x" "narrow x \<le> 1" "\<bar>narrow x - x\<bar> \<le> 1 / 2 ^ 24" using assms(1,2,3) by (auto simp: rounds_def)
  have y: "0 \<le> narrow y" "narrow y \<le> 1" "\<bar>narrow y - y\<bar> \<le> 1 / 2 ^ 24" using assms(1,4,5) by (auto simp: rounds_def)
  have "\<bar>narrow (narrow x) - narrow x\<bar> \<le> 1 / 2 ^ 24" "\<bar>narrow (narrow y) - narrow y\<bar> \<le> 1 / 2 ^ 24"
    using assms(1) x y by (auto simp: rounds_def)
  then show ?thesis using x(3) y(3) assms(6) unfolding c abs_le_iff by linarith
qed

definition raw_steps :: "dmx_source_program \<Rightarrow> u8 list list \<Rightarrow> (nat \<times> nat) list" where
  "raw_steps program frames =
     (let raws = map (\<lambda>frame. unat (raw_of (byte_at frame) program)) frames in zip raws (tl raws))"

text \<open>C31: A slow fade of a 16-bit dimmer is never shown. Wherever the fade goes, if the channel moves by at most six of
  its 65536 values from one evaluated frame to the next, one row is published: that of the first frame.\<close>

theorem slow_fade_is_lost:
  assumes "rounds narrow" and "pg_parameter program = SemDimmer" and "single_source program i" and "sixteen_bit (programs ! i)"
    and "cc_properties core (cp_property_id (pg_property program)) = None"
    and "\<forall>(r, s)\<in>set (raw_steps (programs ! i) (frame # frames)). r \<le> s + 6 \<and> s \<le> r + 6"
  shows "map (map row_summary) (publish_values narrow program
      (map (\<lambda>f. property_value narrow (byte_at f) programs program) (frame # frames)) core) =
    [(cp_fixture_id (pg_property program), cp_render_target_id (pg_property program), VisualChangeDimmer OR VisualChangeMaterial,
      normalized_on narrow programs program frame)] # replicate (length frames) []"
proof -
  let ?n = "normalized_on narrow programs program"
  let ?row = "\<lambda>x. [(cp_fixture_id (pg_property program), cp_render_target_id (pg_property program), 258 :: u32, x)]"
  have step: "\<not> dimmer_change (Some (?n f)) (?n g)"
    if "unat (raw_of (byte_at f) (programs ! i)) \<le> unat (raw_of (byte_at g) (programs ! i)) + 6"
      "unat (raw_of (byte_at g) (programs ! i)) \<le> unat (raw_of (byte_at f) (programs ! i)) + 6" for f g
  proof -
    define r where "r = unat (raw_of (byte_at f) (programs ! i))"
    define s where "s = unat (raw_of (byte_at g) (programs ! i))"
    have "r \<le> 65535" "s \<le> 65535" "r \<le> s + 6" "s \<le> r + 6"
      using that sixteen_value(2) [OF assms(4)] by (simp_all add: r_def s_def)
    then have "real r \<le> 65535" "real s \<le> 65535" "real r \<le> real s + 6" "real s \<le> real r + 6" by linarith+
    then have "\<bar>real r / 65535 - real s / 65535\<bar> \<le> 6 / 65535" "real r / 65535 \<le> 1" "real s / 65535 \<le> 1"
      by (simp_all add: abs_le_iff field_simps)
    then have "\<bar>?n f - ?n g\<bar> \<le> 1 / 10000"
      unfolding normalized_on_single [OF assms(3)] sixteen_value(1) [OF assms(4)] r_def [symmetric] s_def [symmetric]
      by (intro rounds_near [OF assms(1)]) simp_all
    then show ?thesis by (simp add: dimmer_change_def kDefaultEpsilon_def)
  qed
  have later: "map (\<lambda>(before, x). if dimmer_change before x then ?row x else []) (zip (map (Some \<circ> ?n) (f # fs)) (map ?n fs)) =
      replicate (length fs) []"
    if "\<forall>(r, s)\<in>set (raw_steps (programs ! i) (f # fs)). r \<le> s + 6 \<and> s \<le> r + 6" for f fs
    using that
  proof (induction fs arbitrary: f)
    case (Cons g gs)
    then have "\<not> dimmer_change (Some (?n f)) (?n g)" by (intro step) (auto simp: raw_steps_def)
    moreover have "\<forall>(r, s)\<in>set (raw_steps (programs ! i) (g # gs)). r \<le> s + 6 \<and> s \<le> r + 6"
      using Cons.prems by (simp add: raw_steps_def)
    ultimately show ?case using Cons.IH [of g] by simp
  qed simp
  have "shown_dimmer core program = None"
    using assms(5) by (simp add: shown_dimmer_def held_state_def blank_component_def)
  then show ?thesis
    using dimmer_rows_from [OF assms(2), of narrow "map (\<lambda>f. property_value narrow (byte_at f) programs program) (frame # frames)" core]
      later [OF assms(6)]
    by (simp add: comp_def normalized_on_def [symmetric]) (simp add: dimmer_change_def)
qed

subsection \<open>An example\<close>

definition fine_source :: dmx_source_program where
  "fine_source = blank_program\<lparr>pr_program_id := 1, pr_dmx_from := 0, pr_dmx_to := 65535,
     pr_sources := [\<lparr>bs_universe_id = 0, bs_address = 0, bs_byte_order = 0\<rparr>, \<lparr>bs_universe_id = 0, bs_address = 1, bs_byte_order = 1\<rparr>]\<rparr>"

definition fine_dimmer :: property_program where
  "fine_dimmer = \<lparr>pg_property = blank_property\<lparr>cp_property_id := 3, cp_fixture_id := 7, cp_render_target_id := 9,
       cp_contributors := [\<lparr>pc_source_program_id = 1, pc_weight = 1, pc_operation = 0\<rparr>]\<rparr>,
     pg_parameter = SemDimmer, pg_sources = [0], pg_range_selector = False\<rparr>"

definition empty_core :: component_core where
  "empty_core = \<lparr>cc_params = Map.empty, cc_transforms = Map.empty, cc_properties = Map.empty, cc_installed_masks = Map.empty\<rparr>"

definition fade_frame :: "nat \<Rightarrow> u8 list" where
  "fade_frame k = [word_of_nat (6 * k div 256), word_of_nat (6 * k mod 256)]"

lemma fade_frame_raw:
  assumes "k \<le> 10922"
  shows "unat (raw_of (byte_at (fade_frame k)) fine_source) = 6 * k"
proof -
  have s: "sixteen_bit fine_source" by (simp add: sixteen_bit_def fine_source_def)
  have "6 * k div 256 < 256" using assms by (simp add: less_mult_imp_div_less)
  then have "unat (word_of_nat (6 * k div 256) :: u8) = 6 * k div 256" "unat (word_of_nat (6 * k mod 256) :: u8) = 6 * k mod 256"
    by (simp_all add: unat_of_nat)
  then have "unat (raw_of (byte_at (fade_frame k)) fine_source) = 256 * (6 * k div 256) + 6 * k mod 256"
    unfolding sixteen_raw [OF s] by (simp only: fine_source_def byte_at_def fade_frame_def) simp
  then show ?thesis by (metis mult_div_mod_eq)
qed

lemma fade_steps:
  assumes "n \<le> 10922"
  shows "\<forall>(r, s)\<in>set (raw_steps fine_source (fade_frame 0 # map fade_frame [1..<Suc n])). r \<le> s + 6 \<and> s \<le> r + 6"
proof -
  have "map (\<lambda>f. unat (raw_of (byte_at f) fine_source)) (map fade_frame [0..<Suc n]) = map (\<lambda>k. 6 * k) [0..<Suc n]"
    unfolding map_map using assms by (intro map_cong [OF refl]) (auto simp: fade_frame_raw)
  moreover have "fade_frame 0 # map fade_frame [1..<Suc n] = map fade_frame [0..<Suc n]"
    by (simp add: upt_conv_Cons del: upt_Suc)
  ultimately have "raw_steps fine_source (fade_frame 0 # map fade_frame [1..<Suc n]) = (let raws = map (\<lambda>k. 6 * k) [0..<Suc n] in zip raws (tl raws))"
    unfolding raw_steps_def by (simp only:)
  then show ?thesis unfolding Let_def by (auto simp: set_zip nth_tl simp del: upt_Suc)
qed

lemma slow_fade_is_lost_witness:
  "\<exists>frames. length frames = 10922 \<and>
    map (map row_summary) (publish_values id fine_dimmer
      (map (\<lambda>f. property_value id (byte_at f) [fine_source] fine_dimmer) ([0, 0] # frames)) empty_core) =
    [(7, 9, VisualChangeDimmer OR VisualChangeMaterial, 0)] # replicate (length frames) [] \<and>
    normalized_on id [fine_source] fine_dimmer (last frames) > 99 / 100"
proof -
  define n :: nat where "n = 10922"
  have n: "1 \<le> n" by (simp add: n_def)
  define frames where "frames = map fade_frame [1..<Suc n]"
  have s: "sixteen_bit fine_source" by (simp add: sixteen_bit_def fine_source_def)
  have single: "single_source fine_dimmer 0" by (simp add: single_source_def fine_dimmer_def)
  have norm: "normalized_on id [fine_source] fine_dimmer (fade_frame k) = real (6 * k) / 65535" if "k \<le> n" for k
    using fade_frame_raw [of k] that
    by (simp only: normalized_on_single [OF single] n_def nth_Cons_0 sixteen_value(1) [OF s] id_apply)
  have first: "fade_frame 0 = [0, 0]" by (simp add: fade_frame_def)
  have "rounds id" by (simp add: rounds_def)
  moreover have "pg_parameter fine_dimmer = SemDimmer" by (simp add: fine_dimmer_def)
  moreover have "sixteen_bit ([fine_source] ! 0)" using s by simp
  moreover have "cc_properties empty_core (cp_property_id (pg_property fine_dimmer)) = None" by (simp add: empty_core_def)
  moreover have "\<forall>(r, s)\<in>set (raw_steps ([fine_source] ! 0) ([0, 0] # frames)). r \<le> s + 6 \<and> s \<le> r + 6"
    using fade_steps [of n] by (simp add: frames_def first n_def del: upt_Suc)
  ultimately have "map (map row_summary) (publish_values id fine_dimmer
      (map (\<lambda>f. property_value id (byte_at f) [fine_source] fine_dimmer) ([0, 0] # frames)) empty_core) =
    [(cp_fixture_id (pg_property fine_dimmer), cp_render_target_id (pg_property fine_dimmer),
      VisualChangeDimmer OR VisualChangeMaterial, normalized_on id [fine_source] fine_dimmer [0, 0])] # replicate (length frames) []"
    by (rule slow_fade_is_lost [OF _ _ single])
  moreover have "normalized_on id [fine_source] fine_dimmer [0, 0] = 0" using norm [of 0] first by simp
  moreover have "last frames = fade_frame n" using n by (simp add: frames_def)
  moreover have "length frames = 10922" by (simp add: frames_def n_def)
  moreover have "normalized_on id [fine_source] fine_dimmer (fade_frame n) > 99 / 100" using norm [of n] by (simp add: n_def)
  ultimately show ?thesis by (intro exI [of _ frames]) (simp add: fine_dimmer_def)
qed

end
