(* ===== verification/Frame_Schema.thy ===== *)
theory Frame_Schema
  imports Runtime_Components
begin

text \<open>
  The sections of a visual frame (\<open>runtime/visual_frame_schema.cpp\<close>): the schema of a scene, the packed buffers of a
  frame, and the validation of the one against the other. An accepted frame is one whose rows lie inside the buffers, in
  ranges that do not overlap, and the validator says yes to exactly these.
\<close>

subsection \<open>Schemas and frames\<close>

definition GeometryTransform :: i32 where "GeometryTransform = 1"
definition EmitterIntensity :: i32 where "EmitterIntensity = 2"
definition EmitterColor :: i32 where "EmitterColor = 3"
definition BeamOptics :: i32 where "BeamOptics = 4"
definition WheelSelection :: i32 where "WheelSelection = 5"
definition WheelMotion :: i32 where "WheelMotion = 6"
definition TemporalOutput :: i32 where "TemporalOutput = 8"
definition GoboSelection :: i32 where "GoboSelection = 14"
definition GoboRotation :: i32 where "GoboRotation = 15"
definition ShutterState :: i32 where "ShutterState = 16"

lemmas section_types = GeometryTransform_def EmitterIntensity_def EmitterColor_def BeamOptics_def WheelSelection_def
  WheelMotion_def TemporalOutput_def GoboSelection_def GoboRotation_def ShutterState_def

record section_schema =
  ss_section_type :: i32
  ss_row_stride_ints :: i32
  ss_row_stride_floats :: i32
  ss_flags :: i32

record frame_schema =
  fs_protocol_major :: i32
  fs_protocol_minor :: i32
  fs_schema_generation :: i32
  fs_sections :: "section_schema list"

record schema_capabilities =
  has_transform :: bool
  has_intensity :: bool
  has_color :: bool
  has_optics :: bool
  has_wheel_selection :: bool
  has_wheel_motion :: bool
  has_temporal :: bool
  has_gobo_selection :: bool
  has_gobo_rotation :: bool
  has_shutter :: bool

record sectioned_frame =
  sf_protocol_major :: i32
  sf_protocol_minor :: i32
  sf_schema_generation :: i32
  sf_descriptors :: "i32 list"
  sf_integers :: "i32 list"
  sf_floats :: "real list"

definition no_capabilities :: schema_capabilities where
  "no_capabilities = \<lparr>has_transform = False, has_intensity = False, has_color = False, has_optics = False,
     has_wheel_selection = False, has_wheel_motion = False, has_temporal = False, has_gobo_selection = False,
     has_gobo_rotation = False, has_shutter = False\<rparr>"

definition new_frame :: "i32 \<Rightarrow> sectioned_frame" where
  "new_frame gen = \<lparr>sf_protocol_major = 2, sf_protocol_minor = 6, sf_schema_generation = gen,
     sf_descriptors = [], sf_integers = [], sf_floats = []\<rparr>"

definition add_section :: "i32 \<Rightarrow> i32 \<Rightarrow> i32 \<Rightarrow> section_schema" where
  "add_section kind ints floats = \<lparr>ss_section_type = kind, ss_row_stride_ints = ints, ss_row_stride_floats = floats, ss_flags = 0\<rparr>"

definition make_visual_frame_schema :: "i32 \<Rightarrow> schema_capabilities \<Rightarrow> frame_schema" where
  "make_visual_frame_schema gen caps =
     \<lparr>fs_protocol_major = 2, fs_protocol_minor = 6, fs_schema_generation = gen, fs_sections =
        (if has_transform caps then [add_section GeometryTransform 4 2] else []) @
        (if has_intensity caps then [add_section EmitterIntensity 3 5] else []) @
        (if has_color caps then [add_section EmitterColor 3 4] else []) @
        (if has_optics caps then [add_section BeamOptics 3 3] else []) @
        (if has_wheel_selection caps then [add_section WheelSelection 8 8] else []) @
        (if has_wheel_motion caps then [add_section WheelMotion 6 4] else []) @
        (if has_temporal caps then [add_section TemporalOutput 4 2] else []) @
        (if has_gobo_selection caps then [add_section GoboSelection 9 1] else []) @
        (if has_gobo_rotation caps then [add_section GoboRotation 7 3] else []) @
        (if has_shutter caps then [add_section ShutterState 10 7] else [])\<rparr>"

definition make_default_visual_frame_schema :: "i32 \<Rightarrow> frame_schema" where
  "make_default_visual_frame_schema gen = make_visual_frame_schema gen
     (no_capabilities\<lparr>has_transform := True, has_intensity := True, has_color := True, has_optics := True,
        has_wheel_selection := True, has_wheel_motion := True, has_temporal := True, has_gobo_selection := True,
        has_gobo_rotation := True\<rparr>)"

subsection \<open>Validation\<close>

text \<open>The end of the rows, where they fit. A product of two \<open>int32_t\<close> does not overflow an \<open>int64_t\<close>.\<close>

definition range_fits :: "i32 \<Rightarrow> i32 \<Rightarrow> i32 \<Rightarrow> nat \<Rightarrow> int option" where
  "range_fits offset row_count stride cells =
     (if sint offset < 0 \<or> sint row_count < 0 \<or> sint stride \<le> 0 then None
      else let product = sint row_count * sint stride
           in if product > 2147483647 then None
              else let e = sint offset + product in if e \<ge> 0 \<and> e \<le> int cells then Some e else None)"

definition ranges_overlap :: "int \<times> int \<Rightarrow> int \<times> int \<Rightarrow> bool" where
  "ranges_overlap a b \<longleftrightarrow> fst a < snd b \<and> fst b < snd a"

text \<open>The loop over the descriptors: the types, the ranges of the integers and those of the floats seen so far.\<close>

fun validate_descriptors ::
    "(i32 \<Rightarrow> section_schema option) \<Rightarrow> nat \<Rightarrow> nat \<Rightarrow> i32 list \<Rightarrow> i32 set \<times> (int \<times> int) list \<times> (int \<times> int) list \<Rightarrow> string option" where
  "validate_descriptors installed ints floats (kind # row_count # int_offset # float_offset # flags # ds) (kinds, irs, frs) =
     (if kind \<in> kinds then Some ''Visual frame contains a duplicate section type.''
      else case installed kind of
        None \<Rightarrow> Some ''Visual frame contains a section type that is not installed in this schema.''
      | Some s \<Rightarrow>
          if flags AND 1 \<noteq> 0 \<and> ss_section_type s \<noteq> kind
          then Some ''Visual frame contains an unsupported mandatory section.''
          else case (range_fits int_offset row_count (ss_row_stride_ints s) ints,
                     range_fits float_offset row_count (ss_row_stride_floats s) floats) of
            (Some int_end, Some float_end) \<Rightarrow>
              if \<exists>r\<in>set irs. ranges_overlap (sint int_offset, int_end) r
              then Some ''Visual frame integer payload regions overlap.''
              else if \<exists>r\<in>set frs. ranges_overlap (sint float_offset, float_end) r
              then Some ''Visual frame float payload regions overlap.''
              else validate_descriptors installed ints floats ds
                     (insert kind kinds, irs @ [(sint int_offset, int_end)], frs @ [(sint float_offset, float_end)])
          | _ \<Rightarrow> Some ''Visual frame section rows overrun a packed payload buffer.'')"
| "validate_descriptors installed ints floats _ acc = None"

definition sections_by_type :: "section_schema list \<Rightarrow> i32 \<Rightarrow> section_schema option" where
  "sections_by_type sections = fold (\<lambda>s m. m(ss_section_type s \<mapsto> s)) sections Map.empty"

text \<open>The message of a rejection, or \<^term>\<open>None\<close>.\<close>

definition validate_sectioned_visual_frame :: "frame_schema \<Rightarrow> sectioned_frame \<Rightarrow> string option" where
  "validate_sectioned_visual_frame schema frame =
     (if sf_protocol_major frame \<noteq> fs_protocol_major schema \<or> sf_protocol_minor frame \<noteq> fs_protocol_minor schema
      then Some ''Visual frame protocol version does not match the installed schema.''
      else if sf_schema_generation frame \<noteq> fs_schema_generation schema
      then Some ''Visual frame schema generation is stale.''
      else if length (sf_descriptors frame) mod 5 \<noteq> 0
      then Some ''Visual frame descriptor buffer has a malformed stride.''
      else if \<exists>s\<in>set (fs_sections schema). sint (ss_row_stride_ints s) \<le> 0 \<or> sint (ss_row_stride_floats s) \<le> 0
      then Some ''Installed schema contains an invalid row stride.''
      else validate_descriptors (sections_by_type (fs_sections schema)) (length (sf_integers frame)) (length (sf_floats frame))
             (sf_descriptors frame) ({}, [], []))"

subsection \<open>What is accepted\<close>

text \<open>The descriptors of a frame: type, rows, and where its integers and floats begin.\<close>

type_synonym descriptor = "i32 \<times> i32 \<times> i32 \<times> i32"

fun descriptors_of :: "i32 list \<Rightarrow> descriptor list" where
  "descriptors_of (kind # rows # ints # floats # flags # ds) = (kind, rows, ints, floats) # descriptors_of ds"
| "descriptors_of _ = []"

definition int_range :: "(i32 \<Rightarrow> section_schema option) \<Rightarrow> descriptor \<Rightarrow> int \<times> int" where
  "int_range installed = (\<lambda>(kind, rows, ints, floats).
     (sint ints, sint ints + sint rows * sint (ss_row_stride_ints (the (installed kind)))))"

definition float_range :: "(i32 \<Rightarrow> section_schema option) \<Rightarrow> descriptor \<Rightarrow> int \<times> int" where
  "float_range installed = (\<lambda>(kind, rows, ints, floats).
     (sint floats, sint floats + sint rows * sint (ss_row_stride_floats (the (installed kind)))))"

definition placed :: "(i32 \<Rightarrow> section_schema option) \<Rightarrow> nat \<Rightarrow> nat \<Rightarrow> descriptor \<Rightarrow> bool" where
  "placed installed ints floats d \<longleftrightarrow> (case d of (kind, rows, io, fo) \<Rightarrow>
     installed kind \<noteq> None \<and> 0 \<le> sint rows \<and> 0 \<le> sint io \<and> 0 \<le> sint fo \<and>
     sint rows * sint (ss_row_stride_ints (the (installed kind))) < 2 ^ 31 \<and>
     sint rows * sint (ss_row_stride_floats (the (installed kind))) < 2 ^ 31 \<and>
     snd (int_range installed d) \<le> int ints \<and> snd (float_range installed d) \<le> int floats)"

definition well_formed_frame :: "frame_schema \<Rightarrow> sectioned_frame \<Rightarrow> bool" where
  "well_formed_frame schema frame \<longleftrightarrow>
     (let installed = sections_by_type (fs_sections schema); ds = descriptors_of (sf_descriptors frame)
      in sf_protocol_major frame = fs_protocol_major schema \<and> sf_protocol_minor frame = fs_protocol_minor schema \<and>
         sf_schema_generation frame = fs_schema_generation schema \<and> length (sf_descriptors frame) mod 5 = 0 \<and>
         (\<forall>s\<in>set (fs_sections schema). 0 < sint (ss_row_stride_ints s) \<and> 0 < sint (ss_row_stride_floats s)) \<and>
         distinct (map fst ds) \<and>
         (\<forall>d\<in>set ds. placed installed (length (sf_integers frame)) (length (sf_floats frame)) d) \<and>
         sorted_wrt (\<lambda>a b. \<not> ranges_overlap (int_range installed a) (int_range installed b)) ds \<and>
         sorted_wrt (\<lambda>a b. \<not> ranges_overlap (float_range installed a) (float_range installed b)) ds)"

lemma ranges_overlap_sym: "ranges_overlap a b = ranges_overlap b a"
  by (auto simp: ranges_overlap_def)

lemma sections_by_type_from:
  "\<forall>kind s. m kind = Some s \<longrightarrow> ss_section_type s = kind \<Longrightarrow>
     fold (\<lambda>s m. m(ss_section_type s \<mapsto> s)) sections m kind = Some s \<Longrightarrow>
     ss_section_type s = kind \<and> (s \<in> set sections \<or> m kind = Some s)"
proof (induction sections arbitrary: m)
  case (Cons x xs)
  have "\<forall>kind s. (m(ss_section_type x \<mapsto> x)) kind = Some s \<longrightarrow> ss_section_type s = kind" using Cons.prems(1) by auto
  from Cons.IH [OF this] Cons.prems(2) show ?case by (auto split: if_splits)
qed simp

lemma sections_by_type_entry:
  "sections_by_type sections kind = Some s \<Longrightarrow> ss_section_type s = kind \<and> s \<in> set sections"
  using sections_by_type_from [of Map.empty sections kind s] by (simp add: sections_by_type_def)

lemma range_fits_iff:
  "0 < sint stride \<Longrightarrow> range_fits offset rows stride cells =
     (if 0 \<le> sint offset \<and> 0 \<le> sint rows \<and> sint rows * sint stride < 2 ^ 31 \<and> sint offset + sint rows * sint stride \<le> int cells
      then Some (sint offset + sint rows * sint stride) else None)"
  by (auto simp: range_fits_def Let_def)

lemma validate_descriptors_iff:
  assumes "\<And>kind s. installed kind = Some s \<Longrightarrow> ss_section_type s = kind \<and> 0 < sint (ss_row_stride_ints s) \<and> 0 < sint (ss_row_stride_floats s)"
  shows "validate_descriptors installed ints floats ds (kinds, irs, frs) = None \<longleftrightarrow>
    distinct (map fst (descriptors_of ds)) \<and> fst ` set (descriptors_of ds) \<inter> kinds = {} \<and>
    (\<forall>d\<in>set (descriptors_of ds). placed installed ints floats d \<and>
       (\<forall>r\<in>set irs. \<not> ranges_overlap (int_range installed d) r) \<and> (\<forall>r\<in>set frs. \<not> ranges_overlap (float_range installed d) r)) \<and>
    sorted_wrt (\<lambda>a b. \<not> ranges_overlap (int_range installed a) (int_range installed b)) (descriptors_of ds) \<and>
    sorted_wrt (\<lambda>a b. \<not> ranges_overlap (float_range installed a) (float_range installed b)) (descriptors_of ds)"
proof (induction ds arbitrary: kinds irs frs rule: descriptors_of.induct)
  case (1 kind rows io fo flags ds)
  show ?case
  proof (cases "kind \<in> kinds \<or> installed kind = None \<or> \<not> placed installed ints floats (kind, rows, io, fo)")
    case True
    then show ?thesis
      using assms [of kind]
      by (auto simp: placed_def int_range_def float_range_def range_fits_iff split: option.splits)
  next
    case False
    then obtain s where s: "installed kind = Some s" by auto
    have k: "ss_section_type s = kind" "0 < sint (ss_row_stride_ints s)" "0 < sint (ss_row_stride_floats s)" using assms [OF s] by auto
    let ?d = "(kind, rows, io, fo)"
    have fits: "range_fits io rows (ss_row_stride_ints s) ints = Some (snd (int_range installed ?d))"
      "range_fits fo rows (ss_row_stride_floats s) floats = Some (snd (float_range installed ?d))"
      "sint io = fst (int_range installed ?d)" "sint fo = fst (float_range installed ?d)"
      using False s k by (auto simp: placed_def int_range_def float_range_def range_fits_iff)
    have step: "validate_descriptors installed ints floats (kind # rows # io # fo # flags # ds) (kinds, irs, frs) = None \<longleftrightarrow>
        (\<forall>r\<in>set irs. \<not> ranges_overlap (int_range installed ?d) r) \<and> (\<forall>r\<in>set frs. \<not> ranges_overlap (float_range installed ?d) r) \<and>
        validate_descriptors installed ints floats ds
          (insert kind kinds, irs @ [int_range installed ?d], frs @ [float_range installed ?d]) = None"
      using False by (simp add: s k fits split: option.split)
    show ?thesis unfolding step 1 using False by (auto simp: ranges_overlap_sym)
  qed
qed auto

lemma validate_exact:
  "validate_sectioned_visual_frame schema frame = None \<longleftrightarrow> well_formed_frame schema frame"
proof (cases "\<forall>s\<in>set (fs_sections schema). 0 < sint (ss_row_stride_ints s) \<and> 0 < sint (ss_row_stride_floats s)")
  case False
  then show ?thesis by (auto simp: validate_sectioned_visual_frame_def well_formed_frame_def Let_def not_less)
next
  case True
  have i: "ss_section_type s = kind \<and> 0 < sint (ss_row_stride_ints s) \<and> 0 < sint (ss_row_stride_floats s)"
    if "sections_by_type (fs_sections schema) kind = Some s" for kind s
    using sections_by_type_entry [OF that] True by auto
  show ?thesis
    using True validate_descriptors_iff [of "sections_by_type (fs_sections schema)", OF i, of "length (sf_integers frame)" "length (sf_floats frame)" "sf_descriptors frame" "{}" "[]" "[]"]
    by (auto simp: validate_sectioned_visual_frame_def well_formed_frame_def Let_def not_less)
qed


subsection \<open>Reading an accepted frame\<close>

text \<open>The cells a reader takes: field \<open>k\<close> of row \<open>r\<close> of a section. They are in the buffer, and no cell is read twice.\<close>

definition rows_of :: "descriptor \<Rightarrow> int" where
  "rows_of d = sint (fst (snd d))"

definition int_stride :: "(i32 \<Rightarrow> section_schema option) \<Rightarrow> descriptor \<Rightarrow> int" where
  "int_stride installed d = sint (ss_row_stride_ints (the (installed (fst d))))"

definition float_stride :: "(i32 \<Rightarrow> section_schema option) \<Rightarrow> descriptor \<Rightarrow> int" where
  "float_stride installed d = sint (ss_row_stride_floats (the (installed (fst d))))"

definition separate :: "(descriptor \<Rightarrow> int) \<Rightarrow> (descriptor \<Rightarrow> int) \<Rightarrow> descriptor list \<Rightarrow> nat \<Rightarrow> bool" where
  "separate start step ds cells \<longleftrightarrow>
     (\<forall>i<length ds. \<forall>r k. 0 \<le> r \<and> r < rows_of (ds ! i) \<and> 0 \<le> k \<and> k < step (ds ! i) \<longrightarrow>
        0 \<le> start (ds ! i) + r * step (ds ! i) + k \<and> start (ds ! i) + r * step (ds ! i) + k < int cells \<and>
        (\<forall>j<length ds. \<forall>r' k'. 0 \<le> r' \<and> r' < rows_of (ds ! j) \<and> 0 \<le> k' \<and> k' < step (ds ! j) \<and>
           start (ds ! i) + r * step (ds ! i) + k = start (ds ! j) + r' * step (ds ! j) + k' \<longrightarrow> i = j \<and> r = r' \<and> k = k'))"

lemma row_field_bounds:
  fixes r k rows step :: int
  assumes "0 \<le> r" "r < rows" "0 \<le> k" "k < step"
  shows "0 \<le> r * step + k" and "r * step + k < rows * step"
proof -
  show "0 \<le> r * step + k" using assms by simp
  have "(r + 1) * step \<le> rows * step" using assms by (intro mult_right_mono) auto
  then show "r * step + k < rows * step" using assms(4) by (simp add: distrib_right)
qed

lemma row_field_unique:
  fixes r k r' k' step :: int
  assumes "0 \<le> k" "k < step" "0 \<le> k'" "k' < step" and "r * step + k = r' * step + k'"
  shows "r = r' \<and> k = k'"
proof -
  have "(r * step + k) div step = r" "(r' * step + k') div step = r'" using assms(1-4) by (auto simp: div_add1_eq)
  then show ?thesis using assms(5) by auto
qed

lemma separateI:
  assumes ranges: "\<And>d. d \<in> set ds \<Longrightarrow> 0 \<le> start d \<and> start d + rows_of d * step d \<le> int cells"
    and apart: "sorted_wrt (\<lambda>a b. \<not> ranges_overlap (start a, start a + rows_of a * step a) (start b, start b + rows_of b * step b)) ds"
  shows "separate start step ds cells"
  unfolding separate_def
proof (intro allI impI conjI)
  fix i r k assume i: "i < length ds" "0 \<le> r \<and> r < rows_of (ds ! i) \<and> 0 \<le> k \<and> k < step (ds ! i)"
  have bi: "0 \<le> r * step (ds ! i) + k" "r * step (ds ! i) + k < rows_of (ds ! i) * step (ds ! i)"
    using row_field_bounds i(2) by auto
  have di: "0 \<le> start (ds ! i)" "start (ds ! i) + rows_of (ds ! i) * step (ds ! i) \<le> int cells" using ranges i(1) by auto
  show "0 \<le> start (ds ! i) + r * step (ds ! i) + k" "start (ds ! i) + r * step (ds ! i) + k < int cells"
    using bi di by linarith+
  fix j r' k' assume j: "j < length ds"
    "0 \<le> r' \<and> r' < rows_of (ds ! j) \<and> 0 \<le> k' \<and> k' < step (ds ! j) \<and>
       start (ds ! i) + r * step (ds ! i) + k = start (ds ! j) + r' * step (ds ! j) + k'"
  have bj: "0 \<le> r' * step (ds ! j) + k'" "r' * step (ds ! j) + k' < rows_of (ds ! j) * step (ds ! j)"
    using row_field_bounds j(2) by auto
  have overlap: "ranges_overlap (start (ds ! i), start (ds ! i) + rows_of (ds ! i) * step (ds ! i))
      (start (ds ! j), start (ds ! j) + rows_of (ds ! j) * step (ds ! j))"
    unfolding ranges_overlap_def fst_conv snd_conv using bi bj j(2) by linarith
  show "i = j"
  proof (rule ccontr)
    assume "i \<noteq> j"
    then consider "i < j" | "j < i" by linarith
    then show False
      using apart overlap overlap [unfolded ranges_overlap_sym [of "(start (ds ! i), _)"]] i(1) j(1)
      by cases (auto simp: sorted_wrt_iff_nth_less)
  qed
  then show "r = r'" "k = k'" using row_field_unique [of k "step (ds ! i)" k' r r'] i(2) j(2) by auto
qed

text \<open>In an accepted frame every field of every row of every section is read inside its buffer, and no cell of a
  buffer is read for two of them.\<close>

theorem accepted_frames_read_separately:
  assumes "validate_sectioned_visual_frame schema frame = None"
  shows "let installed = sections_by_type (fs_sections schema); ds = descriptors_of (sf_descriptors frame)
    in separate (\<lambda>d. sint (fst (snd (snd d)))) (int_stride installed) ds (length (sf_integers frame)) \<and>
       separate (\<lambda>d. sint (snd (snd (snd d)))) (float_stride installed) ds (length (sf_floats frame))"
proof -
  define m where "m = sections_by_type (fs_sections schema)"
  define ds where "ds = descriptors_of (sf_descriptors frame)"
  have r: "int_range m d = (sint (fst (snd (snd d))), sint (fst (snd (snd d))) + rows_of d * int_stride m d)"
    "float_range m d = (sint (snd (snd (snd d))), sint (snd (snd (snd d))) + rows_of d * float_stride m d)" for d
    by (cases d; simp add: int_range_def float_range_def rows_of_def int_stride_def float_stride_def)+
  have w: "\<forall>d\<in>set ds. placed m (length (sf_integers frame)) (length (sf_floats frame)) d"
    "sorted_wrt (\<lambda>a b. \<not> ranges_overlap (int_range m a) (int_range m b)) ds"
    "sorted_wrt (\<lambda>a b. \<not> ranges_overlap (float_range m a) (float_range m b)) ds"
    using assms unfolding validate_exact well_formed_frame_def Let_def m_def ds_def by auto
  have "separate (\<lambda>d. sint (fst (snd (snd d)))) (int_stride m) ds (length (sf_integers frame))"
    using w(1,2) by (intro separateI) (auto simp: placed_def r)
  moreover have "separate (\<lambda>d. sint (snd (snd (snd d)))) (float_stride m) ds (length (sf_floats frame))"
    using w(1,3) by (intro separateI) (auto simp: placed_def r)
  ultimately show ?thesis unfolding m_def ds_def Let_def by simp
qed

text \<open>A frame with a row of an intensity and a row of a colour.\<close>

definition two_rows :: sectioned_frame where
  "two_rows = (new_frame 1)\<lparr>sf_descriptors := [EmitterIntensity, 1, 0, 0, 0, EmitterColor, 1, 3, 5, 0],
     sf_integers := [7, 8, 2, 7, 8, 1], sf_floats := [1, 0, 0, 0, 0, 1, 1, 1, 1]\<rparr>"

lemma two_rows_accepted: "validate_sectioned_visual_frame (make_default_visual_frame_schema 1) two_rows = None"
  by code_simp

theorem accepted_frames_read_separately_witness:
  "let installed = sections_by_type (fs_sections (make_default_visual_frame_schema 1)); ds = descriptors_of (sf_descriptors two_rows)
   in separate (\<lambda>d. sint (fst (snd (snd d)))) (int_stride installed) ds (length (sf_integers two_rows)) \<and>
      separate (\<lambda>d. sint (snd (snd (snd d)))) (float_stride installed) ds (length (sf_floats two_rows))"
  by (rule accepted_frames_read_separately [OF two_rows_accepted])

end
