(* ===== verification/Frame_Assembly.thy ===== *)
theory Frame_Assembly
  imports Frame_Schema
begin

text \<open>
  How \<open>consume_latest_visual_frame\<close> (\<open>runtime/peraviz_visual_runtime.cpp\<close>) and \<open>append_shutter_row\<close>
  (\<open>runtime/visual_runtime_shutter.cpp\<close>) pack the rows of a frame into its sections. The theorems: an assembled frame
  is accepted by the schema of a scene with the capabilities its rows need, and every section reads back as the rows that
  were packed into it.
\<close>

subsection \<open>Rows\<close>

record gobo_row =
  gr_fixture_id :: i32
  gr_beam_target_id :: i32
  gr_wheel_id :: i32
  gr_wheel_instance_index :: i32
  gr_slot_index :: i32
  gr_asset_id :: i32
  gr_mode :: i32
  gr_revision :: i32

record gobo_rotation_row =
  rr_fixture_id :: i32
  rr_beam_target_id :: i32
  rr_wheel_id :: i32
  rr_wheel_instance_index :: i32
  rr_mode :: i32
  rr_phase_degrees :: real
  rr_angular_velocity_dps :: real
  rr_reference_seconds :: real
  rr_revision :: i32

type_synonym frame_row = "i32 list \<times> real list"

definition mask_int :: "u32 \<Rightarrow> i32" where "mask_int m = ucast m"

definition component_id :: "(i32 \<Rightarrow> i32 option) \<Rightarrow> i32 \<Rightarrow> i32" where
  "component_id ids fixture = (case ids fixture of None \<Rightarrow> 0 | Some c \<Rightarrow> c)"

definition transform_cells :: "(i32 \<Rightarrow> i32 option) \<Rightarrow> (i32 \<Rightarrow> i32 option) \<Rightarrow> pending_row \<Rightarrow> frame_row" where
  "transform_cells pans tilts r =
     ([vr_fixture_id r, component_id pans (vr_fixture_id r), component_id tilts (vr_fixture_id r), mask_int (vr_changed_visual_mask r)],
      [co_pan (vr_state r), co_tilt (vr_state r)])"

definition target_cells :: "pending_row \<Rightarrow> real list \<Rightarrow> frame_row" where
  "target_cells r values = ([vr_fixture_id r, vr_render_target_id r, mask_int (vr_changed_visual_mask r)], values)"

definition intensity_cells :: "pending_row \<Rightarrow> frame_row" where
  "intensity_cells r = target_cells r
     [co_dimmer (vr_state r), co_beam_energy (vr_state r), co_spot_energy (vr_state r), co_beam_intensity (vr_state r),
      co_material_energy (vr_state r)]"

definition color_values :: "cooked_color \<Rightarrow> real list" where
  "color_values c = [ck_srgb_red c, ck_srgb_green c, ck_srgb_blue c, ck_gain c]"

definition color_cells :: "pending_row \<Rightarrow> frame_row" where
  "color_cells r = target_cells r (color_values (vr_color r))"

definition wheel_cells :: "(real \<Rightarrow> real) \<Rightarrow> pending_row \<Rightarrow> frame_row" where
  "wheel_cells narrow r =
     ([vr_fixture_id r, vr_render_target_id r, vr_wheel_id r, vr_wheel_mode r, vr_slot_a r, vr_slot_b r,
       mask_int VisualChangeColor, vr_revision r],
      [vr_normalized_phase r, vr_split_fraction r, vr_boundary_angle_degrees r] @ color_values (vr_color r) @ [narrow (2 / 100)])"

definition optics_cells :: "pending_row \<Rightarrow> frame_row" where
  "optics_cells r = target_cells r [co_beam_half_angle (vr_state r), co_beam_angle (vr_state r), co_zoom_normalized (vr_state r)]"

definition gobo_cells :: "gobo_row \<Rightarrow> frame_row" where
  "gobo_cells r =
     ([gr_fixture_id r, gr_beam_target_id r, gr_wheel_id r, gr_wheel_instance_index r, gr_slot_index r, gr_asset_id r, gr_mode r,
       mask_int (VisualChangeGobo OR VisualChangeBeamTopology), gr_revision r], [0])"

definition rotation_cells :: "gobo_rotation_row \<Rightarrow> frame_row" where
  "rotation_cells r =
     ([rr_fixture_id r, rr_beam_target_id r, rr_wheel_id r, rr_wheel_instance_index r, rr_mode r,
       mask_int VisualChangeGoboRotation, rr_revision r],
      [rr_phase_degrees r, rr_angular_velocity_dps r, rr_reference_seconds r])"

subsection \<open>Sections\<close>

text \<open>A section is appended when it has rows.\<close>

definition append_section :: "i32 \<Rightarrow> frame_row list \<Rightarrow> sectioned_frame \<Rightarrow> sectioned_frame" where
  "append_section kind rows frame =
     (if rows = [] then frame
      else frame\<lparr>sf_integers := sf_integers frame @ concat (map fst rows), sf_floats := sf_floats frame @ concat (map snd rows),
                 sf_descriptors := sf_descriptors frame @
                   [kind, word_of_nat (length rows), word_of_nat (length (sf_integers frame)),
                    word_of_nat (length (sf_floats frame)), 0]\<rparr>)"

definition rows_with :: "u32 \<Rightarrow> pending_row list \<Rightarrow> pending_row list" where
  "rows_with m rows = filter (\<lambda>r. vr_changed_visual_mask r AND m \<noteq> 0) rows"

definition sections_of ::
    "(real \<Rightarrow> real) \<Rightarrow> (i32 \<Rightarrow> i32 option) \<Rightarrow> (i32 \<Rightarrow> i32 option) \<Rightarrow> pending_row list \<Rightarrow> gobo_row list \<Rightarrow>
      gobo_rotation_row list \<Rightarrow> (i32 \<times> frame_row list) list" where
  "sections_of narrow pans tilts rows gobos rotations =
     [(GeometryTransform, map (transform_cells pans tilts) (rows_with VisualChangeTransform rows)),
      (EmitterIntensity, map intensity_cells
         (rows_with (VisualChangeDimmer OR VisualChangeMaterial OR VisualChangeBeamTopology) rows)),
      (EmitterColor, map color_cells (filter (\<lambda>r. \<not> vr_wheel_row r) (rows_with VisualChangeColor rows))),
      (WheelSelection, map (wheel_cells narrow) (filter vr_wheel_row rows)),
      (BeamOptics, map optics_cells (rows_with VisualChangeZoom rows)),
      (GoboSelection, map gobo_cells gobos),
      (GoboRotation, map rotation_cells rotations)]"

definition assemble_frame ::
    "(real \<Rightarrow> real) \<Rightarrow> (i32 \<Rightarrow> i32 option) \<Rightarrow> (i32 \<Rightarrow> i32 option) \<Rightarrow> pending_row list \<Rightarrow> gobo_row list \<Rightarrow>
      gobo_rotation_row list \<Rightarrow> sectioned_frame \<Rightarrow> sectioned_frame" where
  "assemble_frame narrow pans tilts rows gobos rotations frame =
     fold (\<lambda>(kind, cells). append_section kind cells) (sections_of narrow pans tilts rows gobos rotations) frame"

text \<open>The rows of the shutters are appended one by one, before the others; the descriptor of the last section counts
  them.\<close>

definition append_shutter_row :: "frame_row \<Rightarrow> sectioned_frame \<Rightarrow> sectioned_frame" where
  "append_shutter_row row frame =
     (let d = sf_descriptors frame; n = length d
      in frame\<lparr>sf_integers := sf_integers frame @ fst row, sf_floats := sf_floats frame @ snd row,
               sf_descriptors :=
                 (if n \<ge> 5 \<and> d ! (n - 5) = ShutterState then d[n - 4 := d ! (n - 4) + 1]
                  else d @ [ShutterState, 1, word_of_nat (length (sf_integers frame)), word_of_nat (length (sf_floats frame)), 0])\<rparr>)"

subsection \<open>What a frame holds\<close>

text \<open>A frame that holds some sections: its buffers are their cells, one after the other, and its descriptors say where.\<close>

definition int_cells :: "(i32 \<times> frame_row list) list \<Rightarrow> i32 list" where
  "int_cells ss = concat (map (\<lambda>(kind, rows). concat (map fst rows)) ss)"

definition float_cells :: "(i32 \<times> frame_row list) list \<Rightarrow> real list" where
  "float_cells ss = concat (map (\<lambda>(kind, rows). concat (map snd rows)) ss)"

fun pack_from :: "nat \<Rightarrow> nat \<Rightarrow> (i32 \<times> frame_row list) list \<Rightarrow> i32 list" where
  "pack_from io fo [] = []"
| "pack_from io fo ((kind, rows) # ss) =
     [kind, word_of_nat (length rows), word_of_nat io, word_of_nat fo, 0] @
     pack_from (io + length (concat (map fst rows))) (fo + length (concat (map snd rows))) ss"

definition holds :: "sectioned_frame \<Rightarrow> (i32 \<times> frame_row list) list \<Rightarrow> bool" where
  "holds frame ss \<longleftrightarrow> sf_descriptors frame = pack_from 0 0 ss \<and> sf_integers frame = int_cells ss \<and> sf_floats frame = float_cells ss"

lemma cells_simps [simp]:
  "int_cells [] = []" "float_cells [] = []"
  "int_cells ((kind, rows) # ss) = concat (map fst rows) @ int_cells ss"
  "float_cells ((kind, rows) # ss) = concat (map snd rows) @ float_cells ss"
  "int_cells (ss @ ts) = int_cells ss @ int_cells ts" "float_cells (ss @ ts) = float_cells ss @ float_cells ts"
  by (simp_all add: int_cells_def float_cells_def)

lemma pack_from_append:
  "pack_from io fo (ss @ ts) = pack_from io fo ss @ pack_from (io + length (int_cells ss)) (fo + length (float_cells ss)) ts"
  by (induction io fo ss rule: pack_from.induct) (simp_all add: add.assoc)

lemma holds_append_section:
  assumes "holds frame ss"
  shows "holds (append_section kind rows frame) (ss @ (if rows = [] then [] else [(kind, rows)]))"
  using assms by (simp add: holds_def append_section_def pack_from_append)

lemma holds_sections:
  "holds frame ss \<Longrightarrow> holds (fold (\<lambda>(kind, cells). append_section kind cells) ts frame) (ss @ filter (\<lambda>(kind, rows). rows \<noteq> []) ts)"
proof (induction ts arbitrary: frame ss)
  case (Cons x xs)
  obtain kind rows where x: "x = (kind, rows)" by force
  show ?case using Cons.IH [OF holds_append_section [OF Cons.prems, of kind rows]] by (cases "rows = []") (simp_all add: x)
qed simp

definition shutter_sections :: "frame_row list \<Rightarrow> (i32 \<times> frame_row list) list" where
  "shutter_sections rows = (if rows = [] then [] else [(ShutterState, rows)])"

lemma holds_shutter_row:
  assumes "holds frame (shutter_sections rows)"
  shows "holds (append_shutter_row row frame) (shutter_sections (rows @ [row]))"
  using assms by (auto simp: holds_def append_shutter_row_def shutter_sections_def Let_def split: if_splits)

lemma holds_shutter_rows:
  "holds frame (shutter_sections rows) \<Longrightarrow> holds (fold append_shutter_row more_rows frame) (shutter_sections (rows @ more_rows))"
proof (induction more_rows arbitrary: frame rows)
  case (Cons row more_rows)
  from Cons.IH [OF holds_shutter_row [OF Cons.prems, of row]] show ?case by simp
qed simp

subsection \<open>Held frames are well formed\<close>

definition shaped :: "(i32 \<Rightarrow> section_schema option) \<Rightarrow> i32 \<times> frame_row list \<Rightarrow> bool" where
  "shaped installed = (\<lambda>(kind, rows). case installed kind of None \<Rightarrow> False
     | Some s \<Rightarrow> \<forall>(is, fs)\<in>set rows. int (length is) = sint (ss_row_stride_ints s) \<and> int (length fs) = sint (ss_row_stride_floats s))"

lemma length_uniform: "\<forall>x\<in>set xs. int (length (f x)) = n \<Longrightarrow> int (length (concat (map f xs))) = int (length xs) * n"
  by (induction xs) (simp_all add: distrib_right)

lemma sint_of_nat: "n < 2 ^ 31 \<Longrightarrow> sint (word_of_nat n :: i32) = int n"
  by (simp add: signed_of_nat signed_take_bit_int_eq_self)

lemma descriptors_of_pack:
  "descriptors_of (pack_from io fo ((kind, rows) # ss)) =
     (kind, word_of_nat (length rows), word_of_nat io, word_of_nat fo) #
     descriptors_of (pack_from (io + length (concat (map fst rows))) (fo + length (concat (map snd rows))) ss)"
  by simp

lemma pack_kinds: "map fst (descriptors_of (pack_from io fo ss)) = map fst ss"
  by (induction io fo ss rule: pack_from.induct) simp_all

lemma pack_mod: "length (pack_from io fo ss) mod 5 = 0"
  by (induction io fo ss rule: pack_from.induct) (simp_all add: mod_simps)

lemma rows_le_cells:
  assumes "shaped installed (kind, rows)" and "installed kind = Some s" and "0 < sint (ss_row_stride_ints s)"
  shows "length rows \<le> length (concat (map fst rows))"
proof -
  have "int (length (concat (map fst rows))) = int (length rows) * sint (ss_row_stride_ints s)"
    using assms(1,2) by (intro length_uniform) (auto simp: shaped_def)
  moreover have "int (length rows) * 1 \<le> int (length rows) * sint (ss_row_stride_ints s)"
    using assms(3) by (intro mult_left_mono) auto
  ultimately show ?thesis by linarith
qed

lemma pack_placed:
  assumes "\<forall>kind s. installed kind = Some s \<longrightarrow> 0 < sint (ss_row_stride_ints s) \<and> 0 < sint (ss_row_stride_floats s)"
    and "\<forall>section\<in>set ss. shaped installed section"
    and "io + length (int_cells ss) < 2 ^ 31" and "fo + length (float_cells ss) < 2 ^ 31"
  shows "(\<forall>d\<in>set (descriptors_of (pack_from io fo ss)).
      placed installed (io + length (int_cells ss)) (fo + length (float_cells ss)) d \<and>
      int io \<le> fst (int_range installed d) \<and> int fo \<le> fst (float_range installed d)) \<and>
    sorted_wrt (\<lambda>a b. \<not> ranges_overlap (int_range installed a) (int_range installed b)) (descriptors_of (pack_from io fo ss)) \<and>
    sorted_wrt (\<lambda>a b. \<not> ranges_overlap (float_range installed a) (float_range installed b)) (descriptors_of (pack_from io fo ss))"
  using assms(2-4)
proof (induction io fo ss rule: pack_from.induct)
  case (2 io fo kind rows ss)
  obtain s where s: "installed kind = Some s" using 2(2) by (auto simp: shaped_def split: option.splits)
  have pos: "0 < sint (ss_row_stride_ints s)" "0 < sint (ss_row_stride_floats s)" using assms(1) s by auto
  define ni where "ni = length (concat (map fst rows))"
  define nf where "nf = length (concat (map snd rows))"
  have sizes: "int ni = int (length rows) * sint (ss_row_stride_ints s)" "int nf = int (length rows) * sint (ss_row_stride_floats s)"
    unfolding ni_def nf_def using 2(2) s by (auto simp: shaped_def intro!: length_uniform)
  have le: "length rows \<le> ni" unfolding ni_def using rows_le_cells [of installed kind rows s] s pos(1) 2(2) by simp
  have b: "io + ni + length (int_cells ss) < 2 ^ 31" "fo + nf + length (float_cells ss) < 2 ^ 31"
    using 2(3,4) by (simp_all add: ni_def nf_def add.assoc)
  let ?d = "(kind, word_of_nat (length rows), word_of_nat io, word_of_nat fo) :: descriptor"
  have w: "sint (word_of_nat (length rows) :: i32) = int (length rows)" "sint (word_of_nat io :: i32) = int io"
    "sint (word_of_nat fo :: i32) = int fo"
    using b le by (auto intro!: sint_of_nat)
  have r: "int_range installed ?d = (int io, int (io + ni))" "float_range installed ?d = (int fo, int (fo + nf))"
    by (simp_all add: int_range_def float_range_def w s sizes)
  have IH: "\<forall>d\<in>set (descriptors_of (pack_from (io + ni) (fo + nf) ss)).
      placed installed (io + ni + length (int_cells ss)) (fo + nf + length (float_cells ss)) d \<and>
      int (io + ni) \<le> fst (int_range installed d) \<and> int (fo + nf) \<le> fst (float_range installed d)"
    "sorted_wrt (\<lambda>a b. \<not> ranges_overlap (int_range installed a) (int_range installed b)) (descriptors_of (pack_from (io + ni) (fo + nf) ss))"
    "sorted_wrt (\<lambda>a b. \<not> ranges_overlap (float_range installed a) (float_range installed b)) (descriptors_of (pack_from (io + ni) (fo + nf) ss))"
    using 2(1) 2(2) b unfolding ni_def nf_def by simp_all
  have "placed installed (io + ni + length (int_cells ss)) (fo + nf + length (float_cells ss)) ?d"
    using b by (simp add: placed_def r w s sizes [symmetric])
  moreover have "\<not> ranges_overlap (int_range installed ?d) (int_range installed d) \<and>
      \<not> ranges_overlap (float_range installed ?d) (float_range installed d)"
    if "d \<in> set (descriptors_of (pack_from (io + ni) (fo + nf) ss))" for d
    using IH(1) that by (auto simp: ranges_overlap_def r)
  moreover have "int io \<le> fst (int_range installed d) \<and> int fo \<le> fst (float_range installed d)"
    if "d \<in> set (descriptors_of (pack_from (io + ni) (fo + nf) ss))" for d
    using IH(1) that by fastforce
  ultimately show ?case
    unfolding descriptors_of_pack ni_def [symmetric] nf_def [symmetric] cells_simps length_append
    using IH by (auto simp: r add.assoc ni_def nf_def)
qed simp

lemma holds_well_formed:
  assumes "holds frame ss" and "\<forall>s\<in>set (fs_sections schema). 0 < sint (ss_row_stride_ints s) \<and> 0 < sint (ss_row_stride_floats s)"
    and "\<forall>section\<in>set ss. shaped (sections_by_type (fs_sections schema)) section" and "distinct (map fst ss)"
    and "length (sf_integers frame) < 2 ^ 31" and "length (sf_floats frame) < 2 ^ 31"
    and "sf_protocol_major frame = fs_protocol_major schema" and "sf_protocol_minor frame = fs_protocol_minor schema"
    and "sf_schema_generation frame = fs_schema_generation schema"
  shows "well_formed_frame schema frame"
proof -
  let ?m = "sections_by_type (fs_sections schema)"
  have h: "sf_descriptors frame = pack_from 0 0 ss" "sf_integers frame = int_cells ss" "sf_floats frame = float_cells ss"
    using assms(1) by (simp_all add: holds_def)
  have "\<forall>kind s. ?m kind = Some s \<longrightarrow> 0 < sint (ss_row_stride_ints s) \<and> 0 < sint (ss_row_stride_floats s)"
    using assms(2) sections_by_type_entry by blast
  from pack_placed [OF this assms(3), of 0 0] show ?thesis
    using assms(2,4-9) unfolding well_formed_frame_def Let_def h by (simp add: pack_kinds pack_mod)
qed

subsection \<open>Assembled frames are valid\<close>

lemma fold_optional_section:
  "fold (\<lambda>s m. m(ss_section_type s \<mapsto> s)) ((if c then [x] else []) @ sections) m =
     fold (\<lambda>s m. m(ss_section_type s \<mapsto> s)) sections (if c then m(ss_section_type x \<mapsto> x) else m)"
  "fold (\<lambda>s m. m(ss_section_type s \<mapsto> s)) (if c then [x] else []) m = (if c then m(ss_section_type x \<mapsto> x) else m)"
  by simp_all

lemma if_map_apply: "(if c then m(k \<mapsto> x) else m) j = (if c \<and> j = k then Some x else m j)"
  by simp

lemma installed_sections:
  "sections_by_type (fs_sections (make_visual_frame_schema gen caps)) kind =
    (if kind = GeometryTransform \<and> has_transform caps then Some (add_section kind 4 2)
     else if kind = EmitterIntensity \<and> has_intensity caps then Some (add_section kind 3 5)
     else if kind = EmitterColor \<and> has_color caps then Some (add_section kind 3 4)
     else if kind = BeamOptics \<and> has_optics caps then Some (add_section kind 3 3)
     else if kind = WheelSelection \<and> has_wheel_selection caps then Some (add_section kind 8 8)
     else if kind = WheelMotion \<and> has_wheel_motion caps then Some (add_section kind 6 4)
     else if kind = TemporalOutput \<and> has_temporal caps then Some (add_section kind 4 2)
     else if kind = GoboSelection \<and> has_gobo_selection caps then Some (add_section kind 9 1)
     else if kind = GoboRotation \<and> has_gobo_rotation caps then Some (add_section kind 7 3)
     else if kind = ShutterState \<and> has_shutter caps then Some (add_section kind 10 7) else None)"
  unfolding sections_by_type_def make_visual_frame_schema_def frame_schema.select_convs fold_optional_section
  unfolding add_section_def section_schema.select_convs if_map_apply
  by (auto simp: section_types)

definition section_kinds :: "i32 list" where
  "section_kinds = [GeometryTransform, EmitterIntensity, EmitterColor, WheelSelection, BeamOptics, GoboSelection, GoboRotation]"

text \<open>The capabilities the rows of a frame need.\<close>

definition capable ::
    "schema_capabilities \<Rightarrow> pending_row list \<Rightarrow> gobo_row list \<Rightarrow> gobo_rotation_row list \<Rightarrow> frame_row list \<Rightarrow> bool" where
  "capable caps rows gobos rotations shutters \<longleftrightarrow>
     (rows_with VisualChangeTransform rows \<noteq> [] \<longrightarrow> has_transform caps) \<and>
     (rows_with (VisualChangeDimmer OR VisualChangeMaterial OR VisualChangeBeamTopology) rows \<noteq> [] \<longrightarrow> has_intensity caps) \<and>
     (filter (\<lambda>r. \<not> vr_wheel_row r) (rows_with VisualChangeColor rows) \<noteq> [] \<longrightarrow> has_color caps) \<and>
     (filter vr_wheel_row rows \<noteq> [] \<longrightarrow> has_wheel_selection caps) \<and>
     (rows_with VisualChangeZoom rows \<noteq> [] \<longrightarrow> has_optics caps) \<and>
     (gobos \<noteq> [] \<longrightarrow> has_gobo_selection caps) \<and> (rotations \<noteq> [] \<longrightarrow> has_gobo_rotation caps) \<and>
     (shutters \<noteq> [] \<longrightarrow> has_shutter caps)"

definition consumed_frame ::
    "(real \<Rightarrow> real) \<Rightarrow> (i32 \<Rightarrow> i32 option) \<Rightarrow> (i32 \<Rightarrow> i32 option) \<Rightarrow> pending_row list \<Rightarrow> gobo_row list \<Rightarrow>
      gobo_rotation_row list \<Rightarrow> frame_row list \<Rightarrow> i32 \<Rightarrow> sectioned_frame" where
  "consumed_frame narrow pans tilts rows gobos rotations shutters gen =
     assemble_frame narrow pans tilts rows gobos rotations (fold append_shutter_row shutters (new_frame gen))"

definition held_sections ::
    "(real \<Rightarrow> real) \<Rightarrow> (i32 \<Rightarrow> i32 option) \<Rightarrow> (i32 \<Rightarrow> i32 option) \<Rightarrow> pending_row list \<Rightarrow> gobo_row list \<Rightarrow>
      gobo_rotation_row list \<Rightarrow> frame_row list \<Rightarrow> (i32 \<times> frame_row list) list" where
  "held_sections narrow pans tilts rows gobos rotations shutters =
     shutter_sections shutters @ filter (\<lambda>(kind, rows). rows \<noteq> []) (sections_of narrow pans tilts rows gobos rotations)"

lemma consumed_frame_holds:
  "holds (consumed_frame narrow pans tilts rows gobos rotations shutters gen) (held_sections narrow pans tilts rows gobos rotations shutters)"
proof -
  have "holds (new_frame gen) (shutter_sections [])" by (simp add: holds_def new_frame_def shutter_sections_def)
  from holds_shutter_rows [OF this, of shutters] show ?thesis
    unfolding consumed_frame_def assemble_frame_def held_sections_def by (intro holds_sections) simp
qed

lemma append_section_header [simp]:
  "sf_protocol_major (append_section kind rows frame) = sf_protocol_major frame"
  "sf_protocol_minor (append_section kind rows frame) = sf_protocol_minor frame"
  "sf_schema_generation (append_section kind rows frame) = sf_schema_generation frame"
  by (simp_all add: append_section_def)

lemma fold_shutter_header [simp]:
  "sf_protocol_major (fold append_shutter_row rows frame) = sf_protocol_major frame"
  "sf_protocol_minor (fold append_shutter_row rows frame) = sf_protocol_minor frame"
  "sf_schema_generation (fold append_shutter_row rows frame) = sf_schema_generation frame"
  by (induction rows arbitrary: frame) (simp_all add: append_shutter_row_def Let_def)

lemma consumed_frame_header:
  "sf_protocol_major (consumed_frame narrow pans tilts rows gobos rotations shutters gen) = 2"
  "sf_protocol_minor (consumed_frame narrow pans tilts rows gobos rotations shutters gen) = 6"
  "sf_schema_generation (consumed_frame narrow pans tilts rows gobos rotations shutters gen) = gen"
  by (simp_all add: consumed_frame_def assemble_frame_def sections_of_def new_frame_def)

lemma section_kinds_distinct: "distinct (ShutterState # section_kinds)"
  by (simp add: section_kinds_def section_types)

lemma held_sections_distinct: "distinct (map fst (held_sections narrow pans tilts rows gobos rotations shutters))"
proof -
  let ?ss = "sections_of narrow pans tilts rows gobos rotations"
  have kinds: "map fst ?ss = section_kinds" by (simp add: sections_of_def section_kinds_def)
  have sub: "fst ` set (filter (\<lambda>(kind, rows). rows \<noteq> []) ?ss) \<subseteq> set section_kinds" unfolding kinds [symmetric] by auto
  have "distinct (map fst (filter (\<lambda>(kind, rows). rows \<noteq> []) ?ss))"
    using section_kinds_distinct kinds by (intro distinct_map_filter) simp
  then show ?thesis using section_kinds_distinct sub
    by (auto simp: held_sections_def shutter_sections_def)
qed

lemma shaped_map:
  assumes "installed kind = Some (add_section kind a b)"
    and "\<And>x. int (length (fst (f x))) = sint a \<and> int (length (snd (f x))) = sint b"
  shows "shaped installed (kind, map f xs)"
  using assms by (auto simp: shaped_def add_section_def) (metis fst_conv, metis snd_conv)

lemmas cells_defs = transform_cells_def intensity_cells_def color_cells_def wheel_cells_def optics_cells_def gobo_cells_def
  rotation_cells_def target_cells_def color_values_def

lemma sections_shaped:
  assumes "capable caps rows gobos rotations shutters"
  shows "\<forall>(kind, cells)\<in>set (sections_of narrow pans tilts rows gobos rotations).
    cells \<noteq> [] \<longrightarrow> shaped (sections_by_type (fs_sections (make_visual_frame_schema gen caps))) (kind, cells)"
proof -
  let ?m = "sections_by_type (fs_sections (make_visual_frame_schema gen caps))"
  have t: "shaped ?m (GeometryTransform, map (transform_cells pans tilts) xs)" if "has_transform caps" for xs
    by (rule shaped_map [of _ _ 4 2]) (use that in \<open>simp_all add: installed_sections cells_defs\<close>)
  have i: "shaped ?m (EmitterIntensity, map intensity_cells xs)" if "has_intensity caps" for xs
    by (rule shaped_map [of _ _ 3 5]) (use that in \<open>simp_all add: installed_sections cells_defs section_types\<close>)
  have c: "shaped ?m (EmitterColor, map color_cells xs)" if "has_color caps" for xs
    by (rule shaped_map [of _ _ 3 4]) (use that in \<open>simp_all add: installed_sections cells_defs section_types\<close>)
  have w: "shaped ?m (WheelSelection, map (wheel_cells narrow) xs)" if "has_wheel_selection caps" for xs
    by (rule shaped_map [of _ _ 8 8]) (use that in \<open>simp_all add: installed_sections cells_defs section_types\<close>)
  have b: "shaped ?m (BeamOptics, map optics_cells xs)" if "has_optics caps" for xs
    by (rule shaped_map [of _ _ 3 3]) (use that in \<open>simp_all add: installed_sections cells_defs section_types\<close>)
  have g: "shaped ?m (GoboSelection, map gobo_cells xs)" if "has_gobo_selection caps" for xs
    by (rule shaped_map [of _ _ 9 1]) (use that in \<open>simp_all add: installed_sections cells_defs section_types\<close>)
  have r: "shaped ?m (GoboRotation, map rotation_cells xs)" if "has_gobo_rotation caps" for xs
    by (rule shaped_map [of _ _ 7 3]) (use that in \<open>simp_all add: installed_sections cells_defs section_types\<close>)
  show ?thesis
    using assms t i c w b g r by (simp add: sections_of_def capable_def)
qed

lemma held_sections_shaped:
  assumes "capable caps rows gobos rotations shutters" and "\<forall>(is, fs)\<in>set shutters. length is = 10 \<and> length fs = 7"
  shows "\<forall>section\<in>set (held_sections narrow pans tilts rows gobos rotations shutters).
    shaped (sections_by_type (fs_sections (make_visual_frame_schema gen caps))) section"
proof -
  let ?m = "sections_by_type (fs_sections (make_visual_frame_schema gen caps))"
  have "shaped ?m (ShutterState, shutters)" if "shutters \<noteq> []"
    using assms that by (auto simp: shaped_def installed_sections capable_def add_section_def section_types)
  then show ?thesis using sections_shaped [OF assms(1), of narrow pans tilts gen]
    by (auto simp: held_sections_def shutter_sections_def)
qed

lemma schema_strides:
  "\<forall>s\<in>set (fs_sections (make_visual_frame_schema gen caps)). 0 < sint (ss_row_stride_ints s) \<and> 0 < sint (ss_row_stride_floats s)"
  by (auto simp: make_visual_frame_schema_def add_section_def split: if_splits)

lemma installed_iff:
  fixes gen caps
  defines "m \<equiv> sections_by_type (fs_sections (make_visual_frame_schema gen caps))"
  shows "m GeometryTransform \<noteq> None \<longleftrightarrow> has_transform caps" "m EmitterIntensity \<noteq> None \<longleftrightarrow> has_intensity caps"
    "m EmitterColor \<noteq> None \<longleftrightarrow> has_color caps" "m BeamOptics \<noteq> None \<longleftrightarrow> has_optics caps"
    "m WheelSelection \<noteq> None \<longleftrightarrow> has_wheel_selection caps" "m GoboSelection \<noteq> None \<longleftrightarrow> has_gobo_selection caps"
    "m GoboRotation \<noteq> None \<longleftrightarrow> has_gobo_rotation caps" "m ShutterState \<noteq> None \<longleftrightarrow> has_shutter caps"
  unfolding m_def installed_sections by (simp_all add: section_types)

lemma placed_installed: "placed installed n m d \<Longrightarrow> installed (fst d) \<noteq> None"
  by (auto simp: placed_def)

lemma well_formed_capable:
  assumes "well_formed_frame (make_visual_frame_schema gen caps) (consumed_frame narrow pans tilts rows gobos rotations shutters gen')"
  shows "capable caps rows gobos rotations shutters"
proof -
  let ?frame = "consumed_frame narrow pans tilts rows gobos rotations shutters gen'"
  let ?ss = "held_sections narrow pans tilts rows gobos rotations shutters"
  let ?m = "sections_by_type (fs_sections (make_visual_frame_schema gen caps))"
  have "?m (fst d) \<noteq> None" if "d \<in> set (descriptors_of (sf_descriptors ?frame))" for d
    using assms that placed_installed unfolding well_formed_frame_def Let_def by blast
  then have kinds: "\<forall>kind\<in>set (map fst (descriptors_of (sf_descriptors ?frame))). ?m kind \<noteq> None" by auto
  have same: "map fst (descriptors_of (sf_descriptors ?frame)) = map fst ?ss"
    using consumed_frame_holds [of narrow pans tilts rows gobos rotations shutters gen'] by (simp add: holds_def pack_kinds)
  have inst: "?m kind \<noteq> None" if "(kind, cells) \<in> set ?ss" for kind cells
  proof -
    have "kind \<in> set (map fst ?ss)" using that by force
    then show ?thesis using kinds unfolding same by blast
  qed
  have held: "?m kind \<noteq> None" if "(kind, cells) \<in> set (sections_of narrow pans tilts rows gobos rotations)" "cells \<noteq> []" for kind cells
    using inst [of kind cells] that by (simp add: held_sections_def)
  have "?m ShutterState \<noteq> None" if "shutters \<noteq> []" using inst [of ShutterState shutters] that
    by (simp add: held_sections_def shutter_sections_def)
  moreover have "?m GeometryTransform \<noteq> None" if "rows_with VisualChangeTransform rows \<noteq> []"
    by (rule held [of _ "map (transform_cells pans tilts) (rows_with VisualChangeTransform rows)"])
      (use that in \<open>simp_all add: sections_of_def\<close>)
  moreover have "?m EmitterIntensity \<noteq> None" if "rows_with (VisualChangeDimmer OR VisualChangeMaterial OR VisualChangeBeamTopology) rows \<noteq> []"
    by (rule held [of _ "map intensity_cells (rows_with (VisualChangeDimmer OR VisualChangeMaterial OR VisualChangeBeamTopology) rows)"])
      (use that in \<open>simp_all add: sections_of_def\<close>)
  moreover have "?m EmitterColor \<noteq> None" if "filter (\<lambda>r. \<not> vr_wheel_row r) (rows_with VisualChangeColor rows) \<noteq> []"
    by (rule held [of _ "map color_cells (filter (\<lambda>r. \<not> vr_wheel_row r) (rows_with VisualChangeColor rows))"])
      (use that in \<open>simp_all add: sections_of_def\<close>)
  moreover have "?m WheelSelection \<noteq> None" if "filter vr_wheel_row rows \<noteq> []"
    by (rule held [of _ "map (wheel_cells narrow) (filter vr_wheel_row rows)"]) (use that in \<open>simp_all add: sections_of_def\<close>)
  moreover have "?m BeamOptics \<noteq> None" if "rows_with VisualChangeZoom rows \<noteq> []"
    by (rule held [of _ "map optics_cells (rows_with VisualChangeZoom rows)"]) (use that in \<open>simp_all add: sections_of_def\<close>)
  moreover have "?m GoboSelection \<noteq> None" if "gobos \<noteq> []"
    by (rule held [of _ "map gobo_cells gobos"]) (use that in \<open>simp_all add: sections_of_def\<close>)
  moreover have "?m GoboRotation \<noteq> None" if "rotations \<noteq> []"
    by (rule held [of _ "map rotation_cells rotations"]) (use that in \<open>simp_all add: sections_of_def\<close>)
  ultimately show ?thesis unfolding installed_iff capable_def by blast
qed

lemma capable_well_formed:
  assumes "frame = consumed_frame narrow pans tilts rows gobos rotations shutters gen"
    and "capable caps rows gobos rotations shutters" and "\<forall>(is, fs)\<in>set shutters. length is = 10 \<and> length fs = 7"
    and "length (sf_integers frame) < 2 ^ 31" and "length (sf_floats frame) < 2 ^ 31"
  shows "well_formed_frame (make_visual_frame_schema gen caps) frame"
proof -
  have "holds frame (held_sections narrow pans tilts rows gobos rotations shutters)"
    unfolding assms(1) by (rule consumed_frame_holds)
  from holds_well_formed [OF this schema_strides held_sections_shaped [OF assms(2,3)] held_sections_distinct assms(4,5)]
  show ?thesis by (simp add: assms(1) consumed_frame_header) (simp add: make_visual_frame_schema_def)
qed

text \<open>C12: A scene's schema accepts an assembled frame exactly when the scene has the capability of each kind of row in it.
  The buffers are shorter than 2^31 cells, and the rows of the shutters have the ten integers and seven floats of
  \<open>append_shutter_row\<close>.\<close>

theorem assembled_frame_accepted_iff_capable:
  assumes "frame = consumed_frame narrow pans tilts rows gobos rotations shutters gen"
    and "\<forall>(is, fs)\<in>set shutters. length is = 10 \<and> length fs = 7"
    and "length (sf_integers frame) < 2 ^ 31" and "length (sf_floats frame) < 2 ^ 31"
  shows "validate_sectioned_visual_frame (make_visual_frame_schema gen caps) frame = None \<longleftrightarrow> capable caps rows gobos rotations shutters"
proof
  assume "validate_sectioned_visual_frame (make_visual_frame_schema gen caps) frame = None"
  then show "capable caps rows gobos rotations shutters"
    unfolding validate_exact assms(1) by (rule well_formed_capable)
next
  assume "capable caps rows gobos rotations shutters"
  then show "validate_sectioned_visual_frame (make_visual_frame_schema gen caps) frame = None"
    unfolding validate_exact by (rule capable_well_formed [OF assms(1) _ assms(2-4)])
qed

subsection \<open>Reading a section back\<close>

definition row_at :: "frame_schema \<Rightarrow> sectioned_frame \<Rightarrow> descriptor \<Rightarrow> nat \<Rightarrow> frame_row" where
  "row_at schema frame d r =
     (let installed = sections_by_type (fs_sections schema); ni = nat (int_stride installed d); nf = nat (float_stride installed d)
      in (take ni (drop (nat (sint (fst (snd (snd d)))) + r * ni) (sf_integers frame)),
          take nf (drop (nat (sint (snd (snd (snd d)))) + r * nf) (sf_floats frame))))"

definition read_section :: "frame_schema \<Rightarrow> sectioned_frame \<Rightarrow> i32 \<Rightarrow> frame_row list" where
  "read_section schema frame kind =
     (case find (\<lambda>d. fst d = kind) (descriptors_of (sf_descriptors frame)) of
        None \<Rightarrow> []
      | Some d \<Rightarrow> map (row_at schema frame d) [0..<nat (rows_of d)])"

lemma take_drop_concat:
  "\<forall>x\<in>set xs. length (f x) = n \<Longrightarrow> r < length xs \<Longrightarrow> take n (drop (r * n) (concat (map f xs) @ rest)) = f (xs ! r)"
proof (induction xs arbitrary: r)
  case (Cons x xs)
  then show ?case by (cases r) (simp_all add: drop_append)
qed simp

lemma read_pack:
  assumes "\<forall>kind s. sections_by_type (fs_sections schema) kind = Some s \<longrightarrow> 0 < sint (ss_row_stride_ints s) \<and> 0 < sint (ss_row_stride_floats s)"
    and "\<forall>section\<in>set ss. shaped (sections_by_type (fs_sections schema)) section" and "distinct (map fst ss)" and "(kind, rows) \<in> set ss"
    and "sf_integers frame = ipre @ int_cells ss" and "sf_floats frame = fpre @ float_cells ss"
    and "length (sf_integers frame) < 2 ^ 31" and "length (sf_floats frame) < 2 ^ 31"
  shows "\<exists>d. find (\<lambda>d. fst d = kind) (descriptors_of (pack_from (length ipre) (length fpre) ss)) = Some d \<and>
    map (row_at schema frame d) [0..<nat (rows_of d)] = rows"
  using assms(2-6)
proof (induction ss arbitrary: ipre fpre)
  case (Cons x ss)
  obtain k0 rows0 where x: "x = (k0, rows0)" by force
  show ?case
  proof (cases "k0 = kind")
    case False
    have "\<exists>d. find (\<lambda>d. fst d = kind) (descriptors_of (pack_from (length (ipre @ concat (map fst rows0))) (length (fpre @ concat (map snd rows0))) ss)) = Some d \<and>
        map (row_at schema frame d) [0..<nat (rows_of d)] = rows"
      using Cons.prems False by (intro Cons.IH) (auto simp: x)
    then show ?thesis using False by (simp add: x)
  next
    case True
    have rows: "rows0 = rows" using Cons.prems(2,3) True by (auto simp: x image_iff)
    let ?m = "sections_by_type (fs_sections schema)"
    obtain s where s: "?m kind = Some s" using Cons.prems(1) True by (auto simp: x shaped_def split: option.splits)
    define ni where "ni = nat (sint (ss_row_stride_ints s))"
    define nf where "nf = nat (sint (ss_row_stride_floats s))"
    have pos: "int ni = sint (ss_row_stride_ints s)" "int nf = sint (ss_row_stride_floats s)"
      using assms(1) s by (auto simp: ni_def nf_def less_imp_le)
    have len: "\<forall>row\<in>set rows. length (fst row) = ni \<and> length (snd row) = nf"
      using Cons.prems(1) s True unfolding x rows by (auto simp: shaped_def pos [symmetric])
    have li: "length ipre + length (concat (map fst rows)) \<le> length (sf_integers frame)" "length fpre \<le> length (sf_floats frame)"
      using Cons.prems(4,5) by (simp_all add: x rows)
    have "length rows \<le> length (concat (map fst rows))"
      using rows_le_cells [of ?m kind rows s] Cons.prems(1) s assms(1) True by (simp add: x rows)
    then have w: "sint (word_of_nat (length rows) :: i32) = int (length rows)" "sint (word_of_nat (length ipre) :: i32) = int (length ipre)"
      "sint (word_of_nat (length fpre) :: i32) = int (length fpre)"
      using li assms(7,8) by (auto intro!: sint_of_nat)
    let ?d = "(kind, word_of_nat (length rows), word_of_nat (length ipre), word_of_nat (length fpre)) :: descriptor"
    have "row_at schema frame ?d r = rows ! r" if "r < length rows" for r
    proof -
      have "take ni (drop (length ipre + r * ni) (sf_integers frame)) = fst (rows ! r)"
        using take_drop_concat [of rows fst ni r "int_cells ss"] len that Cons.prems(4) by (simp add: x rows)
      moreover have "take nf (drop (length fpre + r * nf) (sf_floats frame)) = snd (rows ! r)"
        using take_drop_concat [of rows snd nf r "float_cells ss"] len that Cons.prems(5) by (simp add: x rows)
      ultimately show ?thesis
        by (simp add: row_at_def Let_def int_stride_def float_stride_def s w ni_def [symmetric] nf_def [symmetric] nat_int_add)
    qed
    then have "map (row_at schema frame ?d) [0..<nat (rows_of ?d)] = rows"
      by (intro nth_equalityI) (simp_all add: rows_of_def w)
    then show ?thesis using True by (simp add: x rows)
  qed
qed simp

lemma find_none: "kind \<notin> fst ` set ds \<Longrightarrow> find (\<lambda>d. fst d = kind) ds = None"
  by (force simp: find_None_iff)

text \<open>C11: What is packed is what is read. In an assembled frame that its schema accepts, every section reads back, row by
  row and field by field, as the rows that were packed into it - and as no rows where there were none.\<close>

theorem sections_read_back:
  assumes "frame = consumed_frame narrow pans tilts rows gobos rotations shutters gen"
    and "\<forall>(is, fs)\<in>set shutters. length is = 10 \<and> length fs = 7"
    and "length (sf_integers frame) < 2 ^ 31" and "length (sf_floats frame) < 2 ^ 31"
    and "validate_sectioned_visual_frame (make_visual_frame_schema gen caps) frame = None"
    and "(kind, cells) \<in> set ((ShutterState, shutters) # sections_of narrow pans tilts rows gobos rotations)"
  shows "read_section (make_visual_frame_schema gen caps) frame kind = cells"
proof -
  let ?ss = "held_sections narrow pans tilts rows gobos rotations shutters"
  let ?schema = "make_visual_frame_schema gen caps"
  let ?all = "(ShutterState, shutters) # sections_of narrow pans tilts rows gobos rotations"
  have capable: "capable caps rows gobos rotations shutters"
    using assms(5) unfolding validate_exact assms(1) by (rule well_formed_capable)
  have h: "sf_descriptors frame = pack_from 0 0 ?ss" "sf_integers frame = int_cells ?ss" "sf_floats frame = float_cells ?ss"
    using consumed_frame_holds [of narrow pans tilts rows gobos rotations shutters gen] by (simp_all add: assms(1) holds_def)
  have kinds: "distinct (map fst ?all)"
    using section_kinds_distinct by (simp add: sections_of_def section_kinds_def)
  have held: "?ss = filter (\<lambda>(kind, rows). rows \<noteq> []) ?all" by (simp add: held_sections_def shutter_sections_def)
  show ?thesis
  proof (cases "cells = []")
    case True
    have "kind \<notin> fst ` set ?ss"
    proof
      assume "kind \<in> fst ` set ?ss"
      then obtain sec where s: "sec \<in> set ?ss" "fst sec = kind" by auto
      then have "sec \<in> set ?all" "snd sec \<noteq> []" unfolding held set_filter by auto
      then obtain other where "(kind, other) \<in> set ?all" "other \<noteq> []" using s(2) by (metis prod.collapse)
      then show False using eq_key_imp_eq_value [OF kinds] assms(6) True by blast
    qed
    then have "kind \<notin> fst ` set (descriptors_of (pack_from 0 0 ?ss))"
      using pack_kinds [of 0 0 ?ss] by (metis list.set_map)
    then show ?thesis using True by (simp add: read_section_def h find_none)
  next
    case False
    have strides: "\<forall>kind s. sections_by_type (fs_sections ?schema) kind = Some s \<longrightarrow> 0 < sint (ss_row_stride_ints s) \<and> 0 < sint (ss_row_stride_floats s)"
      using schema_strides sections_by_type_entry by blast
    have "(kind, cells) \<in> set ?ss" using assms(6) False unfolding held by auto
    from read_pack [OF strides held_sections_shaped [OF capable assms(2)] held_sections_distinct this, of frame "[]" "[]"]
    show ?thesis using assms(3,4) by (auto simp: read_section_def h)
  qed
qed

subsection \<open>An example\<close>

definition sample_row :: pending_row where
  "sample_row = plain_row 7 9 258 (blank_component\<lparr>co_dimmer := 1\<rparr>) blank_color"

definition sample_frame :: sectioned_frame where
  "sample_frame = consumed_frame id Map.empty Map.empty [sample_row] [] [] [] 5"

lemma sample_cells:
  "sf_integers sample_frame = [7, 9, 258]" "sf_floats sample_frame = [1, 0, 0, 0, 0]"
  by (simp_all add: sample_frame_def consumed_frame_def assemble_frame_def sections_of_def append_section_def rows_with_def
      sample_row_def plain_row_def visual_change_defs intensity_cells_def target_cells_def new_frame_def mask_int_def
      blank_component_def blank_color_def)

lemma sample_capable: "capable caps [sample_row] [] [] [] \<longleftrightarrow> has_intensity caps"
  by (simp add: capable_def rows_with_def sample_row_def plain_row_def visual_change_defs)

lemma assembled_frame_accepted_iff_capable_witness:
  "validate_sectioned_visual_frame (make_visual_frame_schema 5 (no_capabilities\<lparr>has_intensity := True\<rparr>)) sample_frame = None \<and>
   validate_sectioned_visual_frame (make_visual_frame_schema 5 no_capabilities) sample_frame \<noteq> None"
  using assembled_frame_accepted_iff_capable [of sample_frame id Map.empty Map.empty "[sample_row]" "[]" "[]" "[]" 5]
  by (simp add: sample_cells sample_capable sample_frame_def [symmetric]) (simp add: no_capabilities_def)

lemma sections_read_back_witness:
  "read_section (make_visual_frame_schema 5 (no_capabilities\<lparr>has_intensity := True\<rparr>)) sample_frame EmitterIntensity =
     [([7, 9, 258], [1, 0, 0, 0, 0])]"
proof -
  let ?caps = "no_capabilities\<lparr>has_intensity := True\<rparr>"
  have cells: "(EmitterIntensity, [([7, 9, 258], [1, 0, 0, 0, 0])]) \<in> set ((ShutterState, []) # sections_of id Map.empty Map.empty [sample_row] [] [])"
    by (simp add: sections_of_def rows_with_def sample_row_def plain_row_def visual_change_defs intensity_cells_def target_cells_def
        mask_int_def blank_component_def)
  have frame: "sample_frame = consumed_frame id Map.empty Map.empty [sample_row] [] [] [] 5" by (simp add: sample_frame_def)
  have "well_formed_frame (make_visual_frame_schema 5 ?caps) sample_frame"
    by (rule capable_well_formed [OF frame]) (simp_all add: sample_cells sample_capable)
  then show ?thesis
    using sections_read_back [OF frame _ _ _ _ cells, of ?caps] by (simp add: sample_cells validate_exact)
qed

end
