(* ===== verification/Runtime_Colors.thy ===== *)
theory Runtime_Colors
  imports Frame_Assembly "HOL-Library.Multiset"
begin

text \<open>
  The colours of emitters: the colour science (\<open>runtime/color_science.cpp\<close>), the inputs of a colour target, its base
  colour and its composition with the layers of the colour wheels (\<open>runtime/peraviz_visual_runtime.cpp\<close>). A cooked
  colour is its linear chromaticity, in sRGB and as it is, and a gain.

  Numbers are reals, so the tests for finite numbers hold; \<open>narrow\<close> is the conversion of a \<open>double\<close> to a \<open>float\<close>.
\<close>

subsection \<open>Colour science\<close>

record linear_rgb =
  lr_r :: real
  lr_g :: real
  lr_b :: real

record cie_xyz =
  xyz_x :: real
  xyz_y :: real
  xyz_z :: real
  xyz_valid :: bool

definition rgb :: "real \<Rightarrow> real \<Rightarrow> real \<Rightarrow> linear_rgb" where
  "rgb r g b = \<lparr>lr_r = r, lr_g = g, lr_b = b\<rparr>"

definition no_xyz :: cie_xyz where
  "no_xyz = \<lparr>xyz_x = 0, xyz_y = 0, xyz_z = 0, xyz_valid = False\<rparr>"

definition kEpsilon :: real where "kEpsilon = 1 / 1000000"

text \<open>A lobe of the observer: its height, where it is, and its widths to the left and to the right.\<close>

definition lobe :: "real \<Rightarrow> real \<Rightarrow> real \<Rightarrow> real \<Rightarrow> real \<Rightarrow> real" where
  "lobe height centre left right w =
     (let t = (w - centre) * (if w < centre then left else right) in height * exp (- (1 / 2) * t * t))"

definition observer_xyz :: "real \<Rightarrow> cie_xyz" where
  "observer_xyz w =
     (if w < 380 \<or> w > 780 then no_xyz
      else \<lparr>xyz_x = lobe (362 / 1000) 442 (624 / 10000) (374 / 10000) w + lobe (1056 / 1000) (5998 / 10) (264 / 10000) (323 / 10000) w -
                    lobe (65 / 1000) (5011 / 10) (490 / 10000) (382 / 10000) w,
            xyz_y = lobe (821 / 1000) (5688 / 10) (213 / 10000) (247 / 10000) w + lobe (286 / 1000) (5309 / 10) (613 / 10000) (322 / 10000) w,
            xyz_z = lobe (1217 / 1000) 437 (845 / 10000) (278 / 10000) w + lobe (681 / 1000) 459 (385 / 10000) (725 / 10000) w,
            xyz_valid = True\<rparr>)"

text \<open>The numbers of a \<open>ColorCIE\<close>, already split off the text.\<close>

definition cie_of_numbers :: "real list \<Rightarrow> bool \<Rightarrow> color_cie" where
  "cie_of_numbers values percentage_y =
     (if length values < 3 then \<lparr>cie_x = 0, cie_y = 0, cie_Y = 0, cie_valid = False\<rparr>
      else let x = values ! 0; y = values ! 1; lum = values ! 2;
               lum = (if percentage_y \<and> lum > 1 then lum * (1 / 100) else lum)
           in \<lparr>cie_x = x, cie_y = y, cie_Y = lum, cie_valid = (x \<ge> 0 \<and> y > kEpsilon \<and> lum \<ge> 0)\<rparr>)"

definition cie_xyy_to_xyz :: "color_cie \<Rightarrow> cie_xyz" where
  "cie_xyy_to_xyz c =
     (if \<not> cie_valid c \<or> cie_y c \<le> kEpsilon \<or> cie_Y c < 0 then no_xyz
      else \<lparr>xyz_x = cie_x c * cie_Y c / cie_y c, xyz_y = cie_Y c, xyz_z = (1 - cie_x c - cie_y c) * cie_Y c / cie_y c,
            xyz_valid = True\<rparr>)"

definition xyz_to_linear_srgb :: "cie_xyz \<Rightarrow> linear_rgb" where
  "xyz_to_linear_srgb c =
     (if \<not> xyz_valid c then rgb 0 0 0
      else rgb (32404542 / 10000000 * xyz_x c - 15371385 / 10000000 * xyz_y c - 4985314 / 10000000 * xyz_z c)
               (- (9692660 / 10000000) * xyz_x c + 18760108 / 10000000 * xyz_y c + 415560 / 10000000 * xyz_z c)
               (556434 / 10000000 * xyz_x c - 2040259 / 10000000 * xyz_y c + 10572252 / 10000000 * xyz_z c))"

definition srgb_encode :: "real \<Rightarrow> real" where
  "srgb_encode v =
     (let c = clamp v 0 1
      in if c \<le> 31308 / 10000000 then c * (1292 / 100) else 1055 / 1000 * c powr (10 / 24) - 55 / 1000)"

text \<open>The integral over a spectrum. The first sample has the width to the second.\<close>

fun integrate_spectrum :: "real \<Rightarrow> spectral_point list \<Rightarrow> real \<times> real \<times> real \<Rightarrow> (real \<times> real \<times> real) option" where
  "integrate_spectrum previous [] acc = Some acc"
| "integrate_spectrum previous (s # ss) (x, y, z) =
     (if sp_energy s < 0 \<or> sp_wavelength_nm s \<le> previous then None
      else let obs = observer_xyz (sp_wavelength_nm s); width = sp_wavelength_nm s - previous
           in integrate_spectrum (sp_wavelength_nm s) ss
                (x + xyz_x obs * sp_energy s * width, y + xyz_y obs * sp_energy s * width, z + xyz_z obs * sp_energy s * width))"

definition spectrum_to_xyz :: "spectral_point list \<Rightarrow> cie_xyz" where
  "spectrum_to_xyz samples =
     (case samples of
        s # t # ss \<Rightarrow>
          if sp_energy s < 0 then no_xyz
          else let obs = observer_xyz (sp_wavelength_nm s); width = max 1 (sp_wavelength_nm t - sp_wavelength_nm s)
               in (case integrate_spectrum (sp_wavelength_nm s) (t # ss)
                          (xyz_x obs * sp_energy s * width, xyz_y obs * sp_energy s * width, xyz_z obs * sp_energy s * width) of
                     None \<Rightarrow> no_xyz
                   | Some (x, y, z) \<Rightarrow> \<lparr>xyz_x = x, xyz_y = y, xyz_z = z, xyz_valid = (y > kEpsilon)\<rparr>)
      | _ \<Rightarrow> no_xyz)"

text \<open>Powers of a negative or zero base and logarithms of numbers that are not positive are not numbers; \<open>kelvin\<close> is positive
  where this is called, and the logarithm for blue is taken above 19.\<close>

definition cct_to_linear_srgb :: "real \<Rightarrow> linear_rgb" where
  "cct_to_linear_srgb kelvin =
     (let t = kelvin / 100
      in rgb (if t \<le> 66 then 1 else clamp (1292936186 / 1000000000 * (t - 60) powr (- (1332047592 / 10000000000))) 0 1)
             (if t \<le> 66 then clamp (3900815788 / 10000000000 * ln t - 6318414438 / 10000000000) 0 1
              else clamp (1129890861 / 1000000000 * (t - 60) powr (- (755148492 / 10000000000))) 0 1)
             (if t \<ge> 66 then 1 else if t \<le> 19 then 0
              else clamp (5432067891 / 10000000000 * ln (t - 10) - 11962540891 / 10000000000) 0 1))"

definition normalize_color_gain :: "linear_rgb \<Rightarrow> linear_rgb \<times> real" where
  "normalize_color_gain c =
     (let gain = max (max (max (lr_r c) (lr_g c)) (lr_b c)) 0
      in if gain \<le> kEpsilon then (rgb 0 0 0, 0) else (rgb (lr_r c / gain) (lr_g c / gain) (lr_b c / gain), gain))"

subsection \<open>The base colour of a target\<close>

record color_input =
  in_binding :: color_input_binding
  in_color :: real
  in_initialized :: bool
  in_source :: nat

record color_target =
  ta_target :: color_target_program
  ta_inputs :: "color_input list"

text \<open>The semantics of colours, by the numbers of \<open>CompiledSemantic\<close>.\<close>

definition unit_physical :: "compiled_semantic \<Rightarrow> bool" where
  "unit_physical sem \<longleftrightarrow> sem \<in> {12, 13, 14, 15, 16, 17, 5, 6, 7, 11}"

definition correlated_temperature :: "compiled_semantic \<Rightarrow> bool" where
  "correlated_temperature sem \<longleftrightarrow> sem = 8 \<or> sem = 9 \<or> sem = 10"

definition color_value_from_evaluation :: "compiled_semantic \<Rightarrow> evaluated_value \<Rightarrow> real" where
  "color_value_from_evaluation sem v =
     (if unit_physical sem \<and> - 1 \<le> ev_physical_value v \<and> ev_physical_value v \<le> 1 then ev_physical_value v
      else if correlated_temperature sem \<and> ev_physical_value v > 0 then ev_physical_value v
      else clamp (ev_normalized_value v) 0 1)"

record color_mix =
  mx_add :: linear_rgb
  mx_additive :: bool
  mx_cyan :: real
  mx_magenta :: real
  mx_yellow :: real
  mx_filters :: "(filter_resource \<times> real) list"
  mx_cie_x :: "real option"
  mx_cie_y :: "real option"
  mx_cie_brightness :: "real option"
  mx_kelvin :: real
  mx_tint :: "real option"

definition add_rgb :: "linear_rgb \<Rightarrow> linear_rgb \<Rightarrow> linear_rgb" where
  "add_rgb a b = rgb (lr_r a + lr_r b) (lr_g a + lr_g b) (lr_b a + lr_b b)"

definition times_rgb :: "linear_rgb \<Rightarrow> linear_rgb \<Rightarrow> linear_rgb" where
  "times_rgb a b = rgb (lr_r a * lr_r b) (lr_g a * lr_g b) (lr_b a * lr_b b)"

definition mix_additive :: "linear_rgb \<Rightarrow> color_mix \<Rightarrow> color_mix" where
  "mix_additive c m = m\<lparr>mx_add := add_rgb (mx_add m) c, mx_additive := True\<rparr>"

definition mix_semantic :: "compiled_semantic \<Rightarrow> real \<Rightarrow> color_mix \<Rightarrow> color_mix" where
  "mix_semantic sem raw m =
     (let v = clamp raw 0 1
      in if sem = 12 then mix_additive (rgb v 0 0) m
         else if sem = 13 then mix_additive (rgb 0 v 0) m
         else if sem = 14 then mix_additive (rgb 0 0 v) m
         else if sem = 15 then mix_additive (rgb v v v) m
         else if sem = 16 then mix_additive (rgb v (v * (45 / 100)) 0) m
         else if sem = 17 then mix_additive (rgb (v * (15 / 100)) v 0) m
         else if sem = 18 then m\<lparr>mx_cyan := max (mx_cyan m) v\<rparr>
         else if sem = 19 then m\<lparr>mx_magenta := max (mx_magenta m) v\<rparr>
         else if sem = 20 then m\<lparr>mx_yellow := max (mx_yellow m) v\<rparr>
         else if sem = 5 then m\<lparr>mx_cie_x := Some raw\<rparr>
         else if sem = 6 then m\<lparr>mx_cie_y := Some raw\<rparr>
         else if sem = 7 then m\<lparr>mx_cie_brightness := Some (max 0 raw)\<rparr>
         else if correlated_temperature sem then m\<lparr>mx_kelvin := raw\<rparr>
         else if sem = 11 then m\<lparr>mx_tint := Some raw\<rparr>
         else m)"

definition mix_input ::
    "(i32 \<Rightarrow> emitter_resource option) \<Rightarrow> (i32 \<Rightarrow> filter_resource option) \<Rightarrow> color_input \<Rightarrow> color_mix \<Rightarrow> color_mix" where
  "mix_input emitters filters input m =
     (let raw = in_color input; v = clamp raw 0 1
      in case emitters (ci_emitter_resource_id (in_binding input)) of
           Some e \<Rightarrow>
             if er_valid e
             then mix_additive (rgb (er_fallback_linear_r e * v) (er_fallback_linear_g e * v) (er_fallback_linear_b e * v)) m
             else (case filters (ci_filter_resource_id (in_binding input)) of
                     Some f \<Rightarrow> if fr_valid f then m\<lparr>mx_filters := mx_filters m @ [(f, v)]\<rparr>
                               else mix_semantic (ci_semantic (in_binding input)) raw m
                   | None \<Rightarrow> mix_semantic (ci_semantic (in_binding input)) raw m)
         | None \<Rightarrow>
             (case filters (ci_filter_resource_id (in_binding input)) of
                Some f \<Rightarrow> if fr_valid f then m\<lparr>mx_filters := mx_filters m @ [(f, v)]\<rparr>
                          else mix_semantic (ci_semantic (in_binding input)) raw m
              | None \<Rightarrow> mix_semantic (ci_semantic (in_binding input)) raw m))"

definition empty_mix :: "bool \<Rightarrow> color_mix" where
  "empty_mix flag = \<lparr>mx_add = rgb 0 0 0, mx_additive = flag, mx_cyan = 0, mx_magenta = 0, mx_yellow = 0, mx_filters = [],
     mx_cie_x = None, mx_cie_y = None, mx_cie_brightness = None, mx_kelvin = 0, mx_tint = None\<rparr>"

definition filter_factor :: "filter_resource \<times> real \<Rightarrow> linear_rgb" where
  "filter_factor = (\<lambda>(f, amount).
     let insertion = clamp amount 0 1;
         transmission = 1 + (clamp (fr_fallback_transmission f) 0 1 - 1) * insertion
     in rgb (transmission * (1 + (clamp (fr_fallback_linear_r f) 0 1 - 1) * insertion))
            (transmission * (1 + (clamp (fr_fallback_linear_g f) 0 1 - 1) * insertion))
            (transmission * (1 + (clamp (fr_fallback_linear_b f) 0 1 - 1) * insertion)))"

definition tint_factor :: "real option \<Rightarrow> linear_rgb" where
  "tint_factor tint =
     (case tint of None \<Rightarrow> rgb 1 1 1
      | Some t \<Rightarrow> let shift = clamp t (- 1) 1 * (8 / 100) in rgb (1 - shift * (1 / 2)) (1 + shift) (1 - shift * (1 / 2)))"

definition mixed_linear :: "color_mix \<Rightarrow> linear_rgb" where
  "mixed_linear m =
     (let light = (case (mx_cie_x m, mx_cie_y m, mx_cie_brightness m) of
                      (Some x, Some y, Some b) \<Rightarrow>
                        xyz_to_linear_srgb (cie_xyy_to_xyz \<lparr>cie_x = x, cie_y = y, cie_Y = b, cie_valid = True\<rparr>)
                    | _ \<Rightarrow> if mx_additive m then mx_add m else rgb 1 1 1);
          light = fold (\<lambda>f c. times_rgb c (filter_factor f)) (mx_filters m) light;
          light = times_rgb light (rgb (1 - clamp (mx_cyan m) 0 1) (1 - clamp (mx_magenta m) 0 1) (1 - clamp (mx_yellow m) 0 1));
          light = (if mx_kelvin m > 0 then times_rgb light (cct_to_linear_srgb (mx_kelvin m)) else light)
      in times_rgb light (tint_factor (mx_tint m)))"

text \<open>The end of every cooking: the chromaticity and the gain, or black.\<close>

definition black :: cooked_color where
  "black = \<lparr>ck_srgb_red = 0, ck_srgb_green = 0, ck_srgb_blue = 0, ck_gain = 0, ck_linear_red = 0, ck_linear_green = 0,
     ck_linear_blue = 0, ck_valid = True, ck_initialized = True\<rparr>"

definition cook_linear :: "(real \<Rightarrow> real) \<Rightarrow> linear_rgb \<Rightarrow> cooked_color" where
  "cook_linear narrow light =
     (let (c, gain) = normalize_color_gain light
      in if gain \<le> 0 then black
         else \<lparr>ck_srgb_red = narrow (srgb_encode (lr_r c)), ck_srgb_green = narrow (srgb_encode (lr_g c)),
               ck_srgb_blue = narrow (srgb_encode (lr_b c)), ck_gain = narrow gain, ck_linear_red = lr_r c, ck_linear_green = lr_g c,
               ck_linear_blue = lr_b c, ck_valid = True, ck_initialized = True\<rparr>)"

definition cook_emitter_color ::
    "(real \<Rightarrow> real) \<Rightarrow> (i32 \<Rightarrow> emitter_resource option) \<Rightarrow> (i32 \<Rightarrow> filter_resource option) \<Rightarrow> color_target \<Rightarrow> cooked_color" where
  "cook_emitter_color narrow emitters filters target =
     cook_linear narrow (mixed_linear
       (fold (mix_input emitters filters) (ta_inputs target) (empty_mix (ct_additive_source (ta_target target)))))"

subsection \<open>Wheel layers\<close>

record wheel_state =
  ws_active_binding_id :: i32
  ws_beam_target_id :: i32
  ws_wheel_renderer_id :: i32
  ws_slot_a :: i32
  ws_slot_b :: i32
  ws_color :: cooked_color
  ws_normalized_phase :: real
  ws_split_fraction :: real
  ws_boundary_angle_degrees :: real
  ws_mode :: wheel_mode
  ws_revision :: i32
  ws_initialized :: bool

definition blank_wheel :: wheel_state where
  "blank_wheel = \<lparr>ws_active_binding_id = 0, ws_beam_target_id = 0, ws_wheel_renderer_id = 0, ws_slot_a = 0, ws_slot_b = 0,
     ws_color = blank_color, ws_normalized_phase = 0, ws_split_fraction = 0, ws_boundary_angle_degrees = 0, ws_mode = 0,
     ws_revision = 0, ws_initialized = False\<rparr>"

definition slot_linear :: "wheel_palette_slot \<Rightarrow> linear_rgb" where
  "slot_linear s = rgb (clamp (ps_linear_red s) 0 1) (clamp (ps_linear_green s) 0 1) (clamp (ps_linear_blue s) 0 1)"

definition cook_wheel_slot_layer :: "(real \<Rightarrow> real) \<Rightarrow> wheel_palette_slot \<Rightarrow> cooked_color" where
  "cook_wheel_slot_layer narrow s =
     (let c = slot_linear s; gain = max 0 (ps_gain s)
      in if gain \<le> 0 \<or> (lr_r c \<le> 0 \<and> lr_g c \<le> 0 \<and> lr_b c \<le> 0) then black
         else \<lparr>ck_srgb_red = narrow (srgb_encode (lr_r c)), ck_srgb_green = narrow (srgb_encode (lr_g c)),
               ck_srgb_blue = narrow (srgb_encode (lr_b c)), ck_gain = gain, ck_linear_red = lr_r c, ck_linear_green = lr_g c,
               ck_linear_blue = lr_b c, ck_valid = True, ck_initialized = True\<rparr>)"

definition aggregate_indexed_wheel_layer ::
    "(real \<Rightarrow> real) \<Rightarrow> wheel_palette_slot \<Rightarrow> wheel_palette_slot \<Rightarrow> real \<Rightarrow> cooked_color" where
  "aggregate_indexed_wheel_layer narrow a b split =
     (let b_weight = clamp split 0 1; a_weight = 1 - b_weight;
          part = (\<lambda>channel. channel (slot_linear a) * max 0 (ps_gain a) * a_weight + channel (slot_linear b) * max 0 (ps_gain b) * b_weight)
      in cook_linear narrow (rgb (part lr_r) (part lr_g) (part lr_b)))"

text \<open>The light of a layer, and its product with the base.\<close>

definition light_of :: "cooked_color \<Rightarrow> linear_rgb" where
  "light_of c = rgb (ck_linear_red c * ck_gain c) (ck_linear_green c * ck_gain c) (ck_linear_blue c * ck_gain c)"

definition compose_ordered_target_color :: "(real \<Rightarrow> real) \<Rightarrow> cooked_color option \<Rightarrow> wheel_state list \<Rightarrow> cooked_color" where
  "compose_ordered_target_color narrow base layers =
     (let base = (case base of None \<Rightarrow> blank_color | Some c \<Rightarrow> if ck_initialized c then c else blank_color)
      in cook_linear narrow (fold (\<lambda>layer c. if ws_initialized layer then times_rgb c (light_of (ws_color layer)) else c) layers
           (light_of base)))"

subsection \<open>Properties\<close>

lemma rgb_simps [simp]:
  "lr_r (rgb r g b) = r" "lr_g (rgb r g b) = g" "lr_b (rgb r g b) = b"
  "rgb (lr_r c) (lr_g c) (lr_b c) = c"
  by (simp_all add: rgb_def)

lemma rgb_eq_iff: "a = b \<longleftrightarrow> lr_r a = lr_r b \<and> lr_g a = lr_g b \<and> lr_b (a :: linear_rgb) = lr_b b"
  by auto

lemma times_rgb_simps [simp]:
  "lr_r (times_rgb a b) = lr_r a * lr_r b" "lr_g (times_rgb a b) = lr_g a * lr_g b" "lr_b (times_rgb a b) = lr_b a * lr_b b"
  by (simp_all add: times_rgb_def)

text \<open>The product of the lights of some layers, channel by channel.\<close>

definition product_rgb :: "linear_rgb multiset \<Rightarrow> linear_rgb" where
  "product_rgb cs = rgb (\<Prod>c\<in>#cs. lr_r c) (\<Prod>c\<in>#cs. lr_g c) (\<Prod>c\<in>#cs. lr_b c)"

definition layer_lights :: "wheel_state list \<Rightarrow> linear_rgb multiset" where
  "layer_lights layers = image_mset (\<lambda>layer. light_of (ws_color layer)) (filter_mset ws_initialized (mset layers))"

definition base_of :: "cooked_color option \<Rightarrow> cooked_color" where
  "base_of base = (case base of None \<Rightarrow> blank_color | Some c \<Rightarrow> if ck_initialized c then c else blank_color)"

lemma fold_layers:
  "fold (\<lambda>layer c. if ws_initialized layer then times_rgb c (light_of (ws_color layer)) else c) layers light =
     times_rgb light (product_rgb (layer_lights layers))"
  by (induction layers arbitrary: light)
    (simp_all add: rgb_eq_iff product_rgb_def layer_lights_def mult.assoc mult.left_commute)

lemma compose_alt:
  "compose_ordered_target_color narrow base layers =
     cook_linear narrow (times_rgb (light_of (base_of base)) (product_rgb (layer_lights layers)))"
  unfolding compose_ordered_target_color_def base_of_def [symmetric] Let_def fold_layers ..

definition brightest :: "linear_rgb \<Rightarrow> real" where
  "brightest c = max (max (lr_r c) (lr_g c)) (lr_b c)"

lemma normalize_cases:
  "normalize_color_gain c = (if brightest c \<le> kEpsilon then (rgb 0 0 0, 0)
     else (rgb (lr_r c / brightest c) (lr_g c / brightest c) (lr_b c / brightest c), brightest c))"
  by (auto simp: normalize_color_gain_def Let_def brightest_def kEpsilon_def max_def)

lemma cook_linear_cases:
  "cook_linear narrow c = (if brightest c \<le> kEpsilon then black
     else \<lparr>ck_srgb_red = narrow (srgb_encode (lr_r c / brightest c)), ck_srgb_green = narrow (srgb_encode (lr_g c / brightest c)),
           ck_srgb_blue = narrow (srgb_encode (lr_b c / brightest c)), ck_gain = narrow (brightest c),
           ck_linear_red = lr_r c / brightest c, ck_linear_green = lr_g c / brightest c,
           ck_linear_blue = lr_b c / brightest c, ck_valid = True, ck_initialized = True\<rparr>)"
  by (simp add: cook_linear_def normalize_cases kEpsilon_def)

lemma light_of_cooked:
  "light_of (cook_linear id c) = (if brightest c \<le> kEpsilon then rgb 0 0 0 else c)"
  by (auto simp: cook_linear_cases light_of_def black_def kEpsilon_def rgb_eq_iff)


lemma composed_color_ignores_order:
  "mset layers = mset layers' \<Longrightarrow>
     compose_ordered_target_color narrow base layers = compose_ordered_target_color narrow base layers'"
  by (simp add: compose_alt layer_lights_def)

lemma srgb_encode_bounds: "0 \<le> srgb_encode v \<and> srgb_encode v \<le> 1"
proof -
  define c where "c = clamp v 0 1"
  have c: "0 \<le> c" "c \<le> 1" by (auto simp: c_def clamp_def)
  show ?thesis
  proof (cases "c \<le> 31308 / 10000000")
    case True
    then show ?thesis using c by (simp add: srgb_encode_def c_def [symmetric] Let_def)
  next
    case False
    have "c powr (10 / 24) \<le> 1 powr (10 / 24)" using c by (intro powr_mono2) auto
    moreover have "c powr (1 / 2) \<le> c powr (10 / 24)" using c False by (intro powr_mono') auto
    moreover have "55 / 1000 \<le> sqrt c" using False by (intro real_le_rsqrt) (simp add: power2_eq_square)
    ultimately have "55 / 1000 \<le> c powr (10 / 24)" "c powr (10 / 24) \<le> 1" using c by (simp_all add: powr_half_sqrt)
    then show ?thesis using False by (simp add: srgb_encode_def c_def [symmetric] Let_def)
  qed
qed


definition white_target :: "color_input list \<Rightarrow> color_target" where
  "white_target inputs = \<lparr>ta_target = \<lparr>ct_color_target_id = 1, ct_fixture_id = 7, ct_beam_render_target_id = 9, ct_geometry_id = 0,
     ct_geometry_name = [], ct_geometry_key = [], ct_inputs = map in_binding inputs, ct_additive_source = False\<rparr>, ta_inputs = inputs\<rparr>"

definition semantic_input :: "compiled_semantic \<Rightarrow> real \<Rightarrow> color_input" where
  "semantic_input sem x = \<lparr>in_binding = \<lparr>ci_source_program_id = 1, ci_semantic = sem, ci_default_value = 0,
     ci_use_normalized_value = False, ci_emitter_resource_id = 0, ci_filter_resource_id = 0\<rparr>, in_color = x, in_initialized = True,
     in_source = 0\<rparr>"


text \<open>A correction of the colour temperature whose function has no temperatures turns white light red. A function whose
  physical range is the one GDTF gives it when none is written, 0 to 1, is taken to be in kelvin as soon as it leaves 0, and
  at a few kelvin - at anything up to 100 - all that is left of a white source is its red.\<close>

theorem unitless_temperature_is_red:
  assumes "correlated_temperature sem" and "0 < ev_physical_value v" and "ev_physical_value v \<le> 100"
  shows "light_of (cook_emitter_color id Map.empty Map.empty
      (white_target [semantic_input sem (color_value_from_evaluation sem v)])) = rgb 1 0 0"
proof -
  define k where "k = ev_physical_value v"
  have "color_value_from_evaluation sem v = k"
    using assms by (auto simp: color_value_from_evaluation_def correlated_temperature_def unit_physical_def k_def)
  moreover have "ln (k / 100) \<le> 0" using assms(2,3) by (simp add: k_def)
  then have "clamp (3900815788 / 10000000000 * ln (k / 100) - 6318414438 / 10000000000) 0 1 = 0"
    unfolding clamp_def by (auto intro: ccontr)
  then have "cct_to_linear_srgb k = rgb 1 0 0"
    using assms(2,3) unfolding cct_to_linear_srgb_def Let_def by (simp only: k_def [symmetric]) simp
  moreover have "mix_input Map.empty Map.empty (semantic_input sem k) (empty_mix False) = (empty_mix False)\<lparr>mx_kelvin := k\<rparr>"
    using assms(1) unfolding correlated_temperature_def
    by (elim disjE) (simp_all add: mix_input_def semantic_input_def mix_semantic_def correlated_temperature_def Let_def)
  moreover have "mixed_linear ((empty_mix False)\<lparr>mx_kelvin := k\<rparr>) = cct_to_linear_srgb k"
    using assms(2) by (simp add: mixed_linear_def empty_mix_def Let_def tint_factor_def k_def [symmetric] clamp_def times_rgb_def)
  ultimately show ?thesis
    by (simp add: cook_emitter_color_def light_of_cooked white_target_def brightest_def kEpsilon_def)
qed

lemma unitless_temperature_is_red_witness:
  "light_of (cook_emitter_color id Map.empty Map.empty
      (white_target [semantic_input 8 (color_value_from_evaluation 8
        \<lparr>ev_raw_value = 255, ev_normalized_value = 1, ev_physical_value = 1, ev_active_program_id = 1, ev_valid = True\<rparr>)])) = rgb 1 0 0"
  by (rule unitless_temperature_is_red) (simp_all add: correlated_temperature_def)

end
