(* ===== verification/Runtime_Wheels.thy ===== *)
theory Runtime_Wheels
  imports Runtime_Colors
begin

text \<open>
  The colours of a frame in \<open>PeravizVisualRuntimeCore\<close> (\<open>runtime/peraviz_visual_runtime.cpp\<close>,
  \<open>runtime/visual_runtime_install.cpp\<close>): the installation of colour targets and wheel bindings, the inputs of the dirty
  targets, the wheels that depend on them, the slots the wheels show, and the composition of every touched target into one
  row. A read past the end of an array is \<^term>\<open>None\<close>. Statistics and the ahead-of-time evaluation are left out.

  The theorems: what a wheel publishes is never a surprise to the target it colours (its composed colour is in the same
  frame), and the schema of a scene whose colours all come from wheels has no section for them.
\<close>

subsection \<open>State\<close>

type_synonym i64 = "64 word"

record wheel_runtime =
  wr_binding :: wheel_target_binding
  wr_source :: nat

record color_universe =
  cu_targets :: "color_target list"
  cu_wheels :: "wheel_runtime list"
  cu_wheels_by_target :: "i32 \<Rightarrow> int list option"
  cu_wheels_by_key :: "i64 \<Rightarrow> int list option"
  cu_fixtures :: "i32 \<Rightarrow> i32 option"
  cu_dirty_wheels :: dirty_indices

record color_core =
  kc_emitters :: "i32 \<Rightarrow> emitter_resource option"
  kc_filters :: "i32 \<Rightarrow> filter_resource option"
  kc_palettes :: "i32 \<Rightarrow> wheel_palette option"
  kc_bases :: "i32 \<Rightarrow> cooked_color option"
  kc_colors :: "i32 \<Rightarrow> cooked_color option"
  kc_wheels :: "i64 \<Rightarrow> wheel_state option"
  kc_layers :: "i32 \<Rightarrow> i64 list option"
  kc_diagnostics :: "runtime_diagnostic list"

definition wheel_physical_key :: "i32 \<Rightarrow> i32 \<Rightarrow> i64" where
  "wheel_physical_key target renderer = push_bit 32 (scast target) XOR ucast renderer"

subsection \<open>Installation\<close>

text \<open>The universe of a target: that of its first byte, if every input is known, has bytes, and is of that universe. The search
  starts at -1; a universe below zero is none.\<close>

fun target_universe :: "(i32 \<Rightarrow> dmx_source_program option) \<Rightarrow> color_input_binding list \<Rightarrow> i32 \<times> bool \<Rightarrow> i32 \<times> bool" where
  "target_universe programs [] acc = acc"
| "target_universe programs (input # inputs) (universe, valid) =
     (case programs (ci_source_program_id input) of
        None \<Rightarrow> target_universe programs inputs (universe, False)
      | Some program \<Rightarrow>
          if pr_sources program = [] then target_universe programs inputs (universe, False)
          else target_universe programs inputs
                 (fold (\<lambda>s (u, ok). let u = (if sint u < 0 then bs_universe_id s else u) in (u, ok \<and> bs_universe_id s = u))
                    (pr_sources program) (universe, valid)))"

definition fresh_color_input :: "(real \<Rightarrow> real) \<Rightarrow> color_input_binding \<Rightarrow> color_input" where
  "fresh_color_input narrow input = \<lparr>in_binding = input, in_color = narrow (ci_default_value input), in_initialized = False, in_source = 0\<rparr>"

definition installed_target ::
    "(real \<Rightarrow> real) \<Rightarrow> (i32 \<Rightarrow> dmx_source_program option) \<Rightarrow> color_target_program \<Rightarrow> (i32 \<times> color_target) option" where
  "installed_target narrow programs target =
     (if sint (ct_fixture_id target) \<le> 0 \<or> sint (ct_beam_render_target_id target) \<le> 0 \<or> ct_inputs target = [] then None
      else case target_universe programs (ct_inputs target) (- 1, True) of (universe, valid) \<Rightarrow>
        if \<not> valid \<or> sint universe < 0 then None
        else Some (universe, \<lparr>ta_target = target, ta_inputs = map (fresh_color_input narrow) (ct_inputs target)\<rparr>))"

definition wheel_binding_warning :: "wheel_target_binding \<Rightarrow> runtime_diagnostic" where
  "wheel_binding_warning b = \<lparr>rd_code = ''PVZ-RUNTIME-INVALID-WHEEL-BINDING'', rd_severity = ''warning'',
     rd_message = ''Compiled wheel binding is missing a source, palette, target, or required ChannelSets.'',
     rd_subject = int_string (sint (wb_binding_id b))\<rparr>"

text \<open>Whether a binding is installed; the first byte of its program, which says the universe, is taken unchecked.\<close>

definition wheel_universe ::
    "(i32 \<Rightarrow> dmx_source_program option) \<Rightarrow> (i32 \<Rightarrow> wheel_palette option) \<Rightarrow> wheel_target_binding \<Rightarrow> i32 option option" where
  "wheel_universe programs palettes b =
     (if sint (wb_binding_id b) \<le> 0 \<or> sint (wb_fixture_id b) \<le> 0 \<or> sint (wb_beam_render_target_id b) \<le> 0 \<or>
         programs (wb_source_program_id b) = None \<or> palettes (wb_wheel_renderer_id b) = None \<or>
         (wb_mode b = 0 \<and> wb_channel_sets b = []) then Some None
      else case pr_sources (the (programs (wb_source_program_id b))) of [] \<Rightarrow> None | s # ss \<Rightarrow> Some (Some (bs_universe_id s)))"

text \<open>What the two loops decide of the schema.\<close>

fun color_capabilities ::
    "(real \<Rightarrow> real) \<Rightarrow> (i32 \<Rightarrow> dmx_source_program option) \<Rightarrow> color_target_program list \<Rightarrow> schema_capabilities \<Rightarrow> schema_capabilities" where
  "color_capabilities narrow programs [] caps = caps"
| "color_capabilities narrow programs (t # ts) caps =
     color_capabilities narrow programs ts
       (if installed_target narrow programs t = None then caps else caps\<lparr>has_color := True\<rparr>)"

fun wheel_capabilities ::
    "(i32 \<Rightarrow> dmx_source_program option) \<Rightarrow> (i32 \<Rightarrow> wheel_palette option) \<Rightarrow> wheel_target_binding list \<Rightarrow>
      schema_capabilities \<Rightarrow> schema_capabilities option" where
  "wheel_capabilities programs palettes [] caps = Some caps"
| "wheel_capabilities programs palettes (b # bs) caps =
     (case wheel_universe programs palettes b of
        None \<Rightarrow> None
      | Some universe \<Rightarrow>
          wheel_capabilities programs palettes bs (if universe = None then caps else caps\<lparr>has_wheel_selection := True\<rparr>))"

subsection \<open>The inputs of the targets\<close>

fun refresh_inputs ::
    "(real \<Rightarrow> real) \<Rightarrow> color_input list \<Rightarrow> color_input list \<Rightarrow> bool \<Rightarrow> universe_state \<Rightarrow>
      (color_input list \<times> bool \<times> universe_state) option" where
  "refresh_inputs narrow [] past changed un = Some (past, changed, un)"
| "refresh_inputs narrow (input # inputs) past changed un =
     (case (if in_initialized input then source_changed (in_source input) (un_plan un) else Some True) of
        None \<Rightarrow> None
      | Some False \<Rightarrow> refresh_inputs narrow inputs (past @ [input]) changed un
      | Some True \<Rightarrow>
          (case evaluate_cached_source narrow (in_source input) un of
             None \<Rightarrow> None
           | Some (v, un) \<Rightarrow>
               if \<not> ev_valid v then refresh_inputs narrow inputs (past @ [input]) changed un
               else let x = color_value_from_evaluation (ci_semantic (in_binding input)) v
                    in refresh_inputs narrow inputs (past @ [input\<lparr>in_color := x, in_initialized := True\<rparr>])
                         (changed \<or> \<not> in_initialized input \<or> \<not> nearly_equal (in_color input) x kDefaultEpsilon) un))"

definition evaluate_target ::
    "(real \<Rightarrow> real) \<Rightarrow> int \<Rightarrow> universe_state \<times> color_universe \<times> color_core \<times> i32 list \<Rightarrow>
      (universe_state \<times> color_universe \<times> color_core \<times> i32 list) option" where
  "evaluate_target narrow index = (\<lambda>(un, cu, core, targets).
     if index < 0 \<or> index \<ge> int (length (cu_targets cu)) then Some (un, cu, core, targets)
     else let target = cu_targets cu ! nat index; beam = ct_beam_render_target_id (ta_target target)
          in case refresh_inputs narrow (ta_inputs target) [] False un of
               None \<Rightarrow> None
             | Some (inputs, changed, un) \<Rightarrow>
                 let target = target\<lparr>ta_inputs := inputs\<rparr>; cu = cu\<lparr>cu_targets := (cu_targets cu)[nat index := target]\<rparr>
                 in if \<not> changed then Some (un, cu, core, targets)
                    else let cooked = cook_emitter_color narrow (kc_emitters core) (kc_filters core) target;
                             core = core\<lparr>kc_bases := (kc_bases core)(beam \<mapsto> cooked\<lparr>ck_initialized := True\<rparr>)\<rparr>;
                             cu = (case cu_wheels_by_target cu beam of None \<Rightarrow> cu
                                   | Some wheels \<Rightarrow> cu\<lparr>cu_dirty_wheels := dirty_insert wheels (cu_dirty_wheels cu)\<rparr>)
                         in Some (un, cu, core, targets @ [beam]))"

subsection \<open>The slots of a wheel\<close>

definition unique_sorted :: "('a \<Rightarrow> int) \<Rightarrow> 'a list \<Rightarrow> 'a list" where
  "unique_sorted key xs = remdups_adj (sort_key key xs)"

definition dirty_keys :: "color_universe \<Rightarrow> i64 list" where
  "dirty_keys cu = unique_sorted sint
     (map (\<lambda>i. let b = wr_binding (cu_wheels cu ! nat i) in wheel_physical_key (wb_beam_render_target_id b) (wb_wheel_renderer_id b))
        (filter (\<lambda>i. 0 \<le> i \<and> i < int (length (cu_wheels cu))) (dirty_visit (cu_dirty_wheels cu))))"

definition overlap_warning :: "wheel_target_binding \<Rightarrow> runtime_diagnostic" where
  "overlap_warning b = \<lparr>rd_code = ''PVZ-RUNTIME-WHEEL-RANGE-OVERLAP'', rd_severity = ''warning'',
     rd_message = ''Multiple wheel control bindings were active for one physical wheel; using deterministic binding order.'',
     rd_subject = int_string (sint (wb_beam_render_target_id b)) @ '':'' @ int_string (sint (wb_wheel_renderer_id b))\<rparr>"

text \<open>The active binding of a physical wheel and its value: the first in whose range the channel is.\<close>

fun active_wheel ::
    "(real \<Rightarrow> real) \<Rightarrow> color_universe \<Rightarrow> int list \<Rightarrow> universe_state \<Rightarrow> (wheel_target_binding \<times> evaluated_value) option \<Rightarrow>
      runtime_diagnostic list \<Rightarrow> ((wheel_target_binding \<times> evaluated_value) option \<times> universe_state \<times> runtime_diagnostic list) option" where
  "active_wheel narrow cu [] un chosen diags = Some (chosen, un, diags)"
| "active_wheel narrow cu (i # is) un chosen diags =
     (if i < 0 \<or> i \<ge> int (length (cu_wheels cu)) then active_wheel narrow cu is un chosen diags
      else let wheel = cu_wheels cu ! nat i
           in if wr_source wheel \<ge> length (un_bindings un) then None
              else case evaluate_cached_source narrow (wr_source wheel) un of
                None \<Rightarrow> None
              | Some (v, un) \<Rightarrow>
                  if \<not> ev_valid v \<or> \<not> in_range (in_program (un_bindings un ! wr_source wheel)) (ev_raw_value v)
                  then active_wheel narrow cu is un chosen diags
                  else if chosen = None then active_wheel narrow cu is un (Some (wr_binding wheel, v)) diags
                  else active_wheel narrow cu is un chosen (diags @ [overlap_warning (wr_binding wheel)]))"

record wheel_pick =
  pk_slot_a :: wheel_palette_slot
  pk_slot_b :: wheel_palette_slot
  pk_phase :: real
  pk_split :: real
  pk_boundary :: real
  pk_color :: cooked_color

definition normalize_degrees :: "real \<Rightarrow> real" where
  "normalize_degrees degrees =
     (let wrapped = degrees - 360 * (if degrees \<ge> 0 then of_int \<lfloor>degrees / 360\<rfloor> else of_int \<lceil>degrees / 360\<rceil>)
      in if wrapped < 0 then wrapped + 360 else wrapped)"

definition index_pick :: "(real \<Rightarrow> real) \<Rightarrow> wheel_target_binding \<Rightarrow> wheel_palette_slot list \<Rightarrow> evaluated_value \<Rightarrow> wheel_pick" where
  "index_pick narrow b slots v =
     (let boundary = normalize_degrees (ev_physical_value v + wb_placement_offset_degrees b); phase = boundary / 360;
          coordinate = phase * real (length slots); base = nat \<lfloor>coordinate\<rfloor> mod length slots; split = coordinate - of_int \<lfloor>coordinate\<rfloor>;
          slot_a = slots ! base; slot_b = slots ! ((base + 1) mod length slots)
      in \<lparr>pk_slot_a = slot_a, pk_slot_b = slot_b, pk_phase = phase, pk_split = split, pk_boundary = boundary,
          pk_color = aggregate_indexed_wheel_layer narrow slot_a slot_b split\<rparr>)"

definition slot_pick :: "(real \<Rightarrow> real) \<Rightarrow> wheel_palette_slot \<Rightarrow> wheel_pick" where
  "slot_pick narrow s = \<lparr>pk_slot_a = s, pk_slot_b = s, pk_phase = 0, pk_split = 0, pk_boundary = 0,
     pk_color = cook_wheel_slot_layer narrow s\<rparr>"

definition slot_lookup_error :: "wheel_target_binding \<Rightarrow> i32 \<Rightarrow> runtime_diagnostic" where
  "slot_lookup_error b slot = \<lparr>rd_code = ''PVZ-RUNTIME-WHEEL-SLOT-LOOKUP'', rd_severity = ''error'',
     rd_message = ''WheelSelection could not resolve exactly one palette slot for ChannelSet.WheelSlotIndex.'',
     rd_subject = int_string (sint (wb_binding_id b)) @ '' slot='' @ int_string (sint slot)\<rparr>"

text \<open>The slots a binding shows; a binding of another mode takes the first slot of its palette unchecked.\<close>

definition pick_slots ::
    "(real \<Rightarrow> real) \<Rightarrow> wheel_target_binding \<Rightarrow> wheel_palette_slot list \<Rightarrow> evaluated_value \<Rightarrow> (wheel_pick option \<times> runtime_diagnostic list) option" where
  "pick_slots narrow b slots v =
     (if wb_mode b = 1 then (if slots = [] then Some (None, []) else Some (Some (index_pick narrow b slots v), []))
      else if wb_mode b = 0
      then (case find (\<lambda>s. cs_dmx_from s \<le> ev_raw_value v \<and> ev_raw_value v \<le> cs_dmx_to s) (wb_channel_sets b) of
              None \<Rightarrow> Some (None, [])
            | Some s \<Rightarrow>
                (case filter (\<lambda>slot. ps_slot_index slot = cs_wheel_slot_index s) slots of
                   [slot] \<Rightarrow> Some (Some (slot_pick narrow slot), [])
                 | _ \<Rightarrow> Some (None, [slot_lookup_error b (cs_wheel_slot_index s)])))
      else (case slots of [] \<Rightarrow> None | slot # _ \<Rightarrow> Some (Some (slot_pick narrow slot), [])))"

subsection \<open>A physical wheel\<close>

definition wheel_changed :: "wheel_state \<Rightarrow> wheel_target_binding \<Rightarrow> wheel_pick \<Rightarrow> bool" where
  "wheel_changed previous b pick \<longleftrightarrow>
     \<not> ws_initialized previous \<or> ws_active_binding_id previous \<noteq> wb_binding_id b \<or> ws_mode previous \<noteq> wb_mode b \<or>
     ws_slot_a previous \<noteq> ps_slot_index (pk_slot_a pick) \<or> ws_slot_b previous \<noteq> ps_slot_index (pk_slot_b pick) \<or>
     \<not> nearly_equal (ws_normalized_phase previous) (pk_phase pick) kDefaultEpsilon \<or>
     \<not> nearly_equal (ws_split_fraction previous) (pk_split pick) kDefaultEpsilon \<or>
     \<not> nearly_equal (ck_srgb_red (ws_color previous)) (ck_srgb_red (pk_color pick)) kDefaultEpsilon \<or>
     \<not> nearly_equal (ck_srgb_green (ws_color previous)) (ck_srgb_green (pk_color pick)) kDefaultEpsilon \<or>
     \<not> nearly_equal (ck_srgb_blue (ws_color previous)) (ck_srgb_blue (pk_color pick)) kDefaultEpsilon \<or>
     \<not> nearly_equal (ck_gain (ws_color previous)) (ck_gain (pk_color pick)) kDefaultEpsilon"

definition picked_state :: "wheel_state \<Rightarrow> wheel_target_binding \<Rightarrow> wheel_pick \<Rightarrow> wheel_state" where
  "picked_state previous b pick =
     \<lparr>ws_active_binding_id = wb_binding_id b, ws_beam_target_id = wb_beam_render_target_id b,
      ws_wheel_renderer_id = wb_wheel_renderer_id b, ws_slot_a = ps_slot_index (pk_slot_a pick),
      ws_slot_b = ps_slot_index (pk_slot_b pick), ws_color = pk_color pick, ws_normalized_phase = pk_phase pick,
      ws_split_fraction = pk_split pick, ws_boundary_angle_degrees = pk_boundary pick, ws_mode = wb_mode b,
      ws_revision = ws_revision previous + 1, ws_initialized = True\<rparr>"

definition released_state :: "wheel_state \<Rightarrow> wheel_state" where
  "released_state previous = blank_wheel\<lparr>ws_beam_target_id := ws_beam_target_id previous,
     ws_wheel_renderer_id := ws_wheel_renderer_id previous, ws_revision := ws_revision previous + 1\<rparr>"

definition wheel_row :: "wheel_target_binding \<Rightarrow> wheel_pick \<Rightarrow> i32 \<Rightarrow> pending_row" where
  "wheel_row b pick revision =
     (plain_row (wb_fixture_id b) (wb_beam_render_target_id b) VisualChangeColor blank_component (pk_color pick))
       \<lparr>vr_wheel_id := wb_wheel_renderer_id b, vr_slot_a := ps_slot_index (pk_slot_a pick),
        vr_slot_b := ps_slot_index (pk_slot_b pick), vr_normalized_phase := pk_phase pick, vr_split_fraction := pk_split pick,
        vr_boundary_angle_degrees := pk_boundary pick, vr_wheel_mode := wb_mode b, vr_revision := revision, vr_wheel_row := True\<rparr>"

type_synonym color_step = "universe_state \<times> color_core \<times> i32 list \<times> pending_row list"

definition wheel_or_blank :: "color_core \<Rightarrow> i64 \<Rightarrow> wheel_state" where
  "wheel_or_blank core key = (case kc_wheels core key of None \<Rightarrow> blank_wheel | Some w \<Rightarrow> w)"

definition put_wheel :: "i64 \<Rightarrow> wheel_state \<Rightarrow> color_core \<Rightarrow> color_core" where
  "put_wheel key w core = core\<lparr>kc_wheels := (kc_wheels core)(key \<mapsto> w)\<rparr>"

definition report :: "runtime_diagnostic list \<Rightarrow> color_core \<Rightarrow> color_core" where
  "report diags core = core\<lparr>kc_diagnostics := kc_diagnostics core @ diags\<rparr>"

text \<open>No binding is active: the layer opens.\<close>

definition release_wheel :: "i64 \<Rightarrow> wheel_state \<Rightarrow> color_step \<Rightarrow> color_step" where
  "release_wheel key previous = (\<lambda>(un, core, targets, rows).
     if ws_initialized previous
     then (un, put_wheel key (released_state previous) core, targets @ [ws_beam_target_id previous], rows)
     else (un, put_wheel key previous core, targets, rows))"

definition show_wheel ::
    "(real \<Rightarrow> real) \<Rightarrow> i64 \<Rightarrow> wheel_state \<Rightarrow> wheel_target_binding \<Rightarrow> evaluated_value \<Rightarrow> color_step \<Rightarrow> color_step option" where
  "show_wheel narrow key previous b v = (\<lambda>(un, core, targets, rows).
     let core = put_wheel key previous core
     in case kc_palettes core (wb_wheel_renderer_id b) of
          None \<Rightarrow> Some (un, core, targets, rows)
        | Some palette \<Rightarrow>
            (case pick_slots narrow b (wp_slots palette) v of
               None \<Rightarrow> None
             | Some (None, diags) \<Rightarrow> Some (un, report diags core, targets, rows)
             | Some (Some pick, diags) \<Rightarrow>
                 Some (if \<not> wheel_changed previous b pick then (un, core, targets, rows)
                       else (un, put_wheel key (picked_state previous b pick) core, targets @ [wb_beam_render_target_id b],
                             rows @ [wheel_row b pick (ws_revision previous + 1)]))))"

definition evaluate_wheel :: "(real \<Rightarrow> real) \<Rightarrow> color_universe \<Rightarrow> i64 \<Rightarrow> color_step \<Rightarrow> color_step option" where
  "evaluate_wheel narrow cu key = (\<lambda>(un, core, targets, rows).
     case cu_wheels_by_key cu key of
       None \<Rightarrow> Some (un, core, targets, rows)
     | Some members \<Rightarrow>
         (case active_wheel narrow cu members un None [] of
            None \<Rightarrow> None
          | Some (None, un, diags) \<Rightarrow> Some (release_wheel key (wheel_or_blank core key) (un, report diags core, targets, rows))
          | Some (Some (b, v), un, diags) \<Rightarrow>
              show_wheel narrow key (wheel_or_blank core key) b v (un, report diags core, targets, rows)))"

subsection \<open>Composition\<close>

definition useful_delta :: "cooked_color \<Rightarrow> cooked_color \<Rightarrow> real" where
  "useful_delta previous c =
     (if ck_initialized previous
      then max (max (max \<bar>ck_srgb_red previous - ck_srgb_red c\<bar> \<bar>ck_srgb_green previous - ck_srgb_green c\<bar>)
                    \<bar>ck_srgb_blue previous - ck_srgb_blue c\<bar>) \<bar>ck_gain previous - ck_gain c\<bar>
      else 1)"

definition layers_of :: "color_core \<Rightarrow> i32 \<Rightarrow> wheel_state list" where
  "layers_of core beam = (case kc_layers core beam of None \<Rightarrow> []
     | Some keys \<Rightarrow> map (wheel_or_blank core) keys)"

definition compose_target ::
    "(real \<Rightarrow> real) \<Rightarrow> color_universe \<Rightarrow> i32 \<Rightarrow> color_core \<times> pending_row list \<Rightarrow> color_core \<times> pending_row list" where
  "compose_target narrow cu beam = (\<lambda>(core, rows).
     let composed = compose_ordered_target_color narrow (kc_bases core beam) (layers_of core beam);
         previous = (case kc_colors core beam of None \<Rightarrow> blank_color | Some c \<Rightarrow> c);
         changed = (\<not> ck_initialized previous \<or> useful_delta previous composed > kDefaultEpsilon \<or>
                    ck_valid previous \<noteq> ck_valid composed);
         core = core\<lparr>kc_colors := (kc_colors core)(beam \<mapsto> composed\<lparr>ck_initialized := True\<rparr>)\<rparr>
     in if \<not> changed then (core, rows)
        else (core, rows @ [plain_row (case cu_fixtures cu beam of None \<Rightarrow> 0 | Some f \<Rightarrow> f) beam VisualChangeColor blank_component composed]))"

text \<open>The colours of a universe in \<open>consume_latest_visual_frame\<close>: the targets, the wheels, the composition.\<close>

definition consume_colors ::
    "(real \<Rightarrow> real) \<Rightarrow> int list \<Rightarrow> int list \<Rightarrow> universe_state \<times> color_universe \<times> color_core \<times> pending_row list \<Rightarrow>
      (universe_state \<times> color_universe \<times> color_core \<times> pending_row list) option" where
  "consume_colors narrow target_indices wheel_indices = (\<lambda>(un, cu, core, rows).
     let cu = cu\<lparr>cu_dirty_wheels := dirty_insert wheel_indices (dirty_clear (cu_dirty_wheels cu))\<rparr>
     in case each (evaluate_target narrow) target_indices (un, cu, core, []) of
          None \<Rightarrow> None
        | Some (un, cu, core, targets) \<Rightarrow>
            (case each (evaluate_wheel narrow cu) (dirty_keys cu) (un, core, [], rows) of
               None \<Rightarrow> None
             | Some (un, core, wheel_targets, rows) \<Rightarrow>
                 let (core, rows) = fold (compose_target narrow cu) (unique_sorted sint (targets @ wheel_targets)) (core, rows)
                 in Some (un, cu, core, rows)))"

subsection \<open>Published colours are composed\<close>

text \<open>The colour held for a target is the composition of its base and of its layers.\<close>

definition settled_color :: "(real \<Rightarrow> real) \<Rightarrow> color_core \<Rightarrow> i32 \<Rightarrow> bool" where
  "settled_color narrow core beam \<longleftrightarrow>
     (\<forall>c. kc_colors core beam = Some c \<longrightarrow> c = compose_ordered_target_color narrow (kc_bases core beam) (layers_of core beam))"

text \<open>Every layer of a target is a wheel of that target, now and after any of its bindings has become active.\<close>

definition wheels_ok :: "color_universe \<Rightarrow> color_core \<Rightarrow> bool" where
  "wheels_ok cu core \<longleftrightarrow> (\<forall>beam keys key. kc_layers core beam = Some keys \<and> key \<in> set keys \<longrightarrow>
     (\<forall>w. kc_wheels core key = Some w \<and> ws_initialized w \<longrightarrow> ws_beam_target_id w = beam) \<and>
     (\<forall>members i. cu_wheels_by_key cu key = Some members \<and> i \<in> set members \<and> 0 \<le> i \<and> i < int (length (cu_wheels cu)) \<longrightarrow>
        wb_beam_render_target_id (wr_binding (cu_wheels cu ! nat i)) = beam))"

lemma each_invariant:
  assumes "each step xs s = Some s'" and "P s" and "\<forall>x s s'. x \<in> set xs \<and> P s \<and> step x s = Some s' \<longrightarrow> P s'"
  shows "P s'"
  using assms
proof (induction xs arbitrary: s)
  case (Cons x xs)
  obtain s1 where s1: "step x s = Some s1" "each step xs s1 = Some s'"
    using Cons.prems(1) by (auto split: option.splits)
  have "P s1" by (rule Cons.prems(3) [rule_format, of x s]) (use Cons.prems(2) s1(1) in simp)
  moreover have "\<forall>y s s'. y \<in> set xs \<and> P s \<and> step y s = Some s' \<longrightarrow> P s'"
    using Cons.prems(3) by (meson list.set_intros(2))
  ultimately show ?case by (rule Cons.IH [OF s1(2)])
qed simp

lemma compose_initialized [simp]:
  "ck_initialized (compose_ordered_target_color narrow base layers)"
  "(compose_ordered_target_color narrow base layers)\<lparr>ck_initialized := True\<rparr> = compose_ordered_target_color narrow base layers"
  by (simp_all add: compose_alt cook_linear_cases black_def)

lemma active_wheel_member:
  assumes "active_wheel narrow cu is un chosen diags = Some (found, un', diags')" and "\<forall>b v. chosen = Some (b, v) \<longrightarrow> P b"
    and "\<forall>i\<in>set is. 0 \<le> i \<and> i < int (length (cu_wheels cu)) \<longrightarrow> P (wr_binding (cu_wheels cu ! nat i))"
  shows "\<forall>b v. found = Some (b, v) \<longrightarrow> P b"
  using assms
proof (induction "is" arbitrary: un chosen diags)
  case (Cons i js)
  have rest: "\<forall>i\<in>set js. 0 \<le> i \<and> i < int (length (cu_wheels cu)) \<longrightarrow> P (wr_binding (cu_wheels cu ! nat i))"
    using Cons.prems(3) by simp
  obtain un1 chosen1 diags1 where next_wheel: "active_wheel narrow cu js un1 chosen1 diags1 = Some (found, un', diags')"
    and "\<forall>b v. chosen1 = Some (b, v) \<longrightarrow> P b"
  proof (cases "i < 0 \<or> i \<ge> int (length (cu_wheels cu))")
    case True
    then show ?thesis using that [of un chosen diags] Cons.prems(1,2) by auto
  next
    case False
    let ?w = "cu_wheels cu ! nat i"
    have w: "P (wr_binding ?w)" using Cons.prems(3) False by simp
    obtain v un1 where "evaluate_cached_source narrow (wr_source ?w) un = Some (v, un1)"
      using Cons.prems(1) False by (auto simp: Let_def split: if_splits option.splits)
    then show ?thesis
      using that [of un1 chosen diags] that [of un1 "Some (wr_binding ?w, v)" diags] that [of un1 chosen "diags @ [overlap_warning (wr_binding ?w)]"]
        Cons.prems(1,2) False w
      by (auto simp: Let_def split: if_splits)
  qed
  then show ?case using Cons.IH [OF next_wheel _ rest] by blast
qed simp

text \<open>In the course of a frame: every target that is not yet touched has its composed colour.\<close>

definition colors_ok :: "(real \<Rightarrow> real) \<Rightarrow> color_universe \<Rightarrow> color_core \<Rightarrow> i32 set \<Rightarrow> bool" where
  "colors_ok narrow cu core touched \<longleftrightarrow> wheels_ok cu core \<and> (\<forall>beam. beam \<notin> touched \<longrightarrow> settled_color narrow core beam)"

lemma wheels_ok_cong:
  "cu_wheels cu' = cu_wheels cu \<Longrightarrow> cu_wheels_by_key cu' = cu_wheels_by_key cu \<Longrightarrow> kc_layers core' = kc_layers core \<Longrightarrow>
     kc_wheels core' = kc_wheels core \<Longrightarrow> wheels_ok cu' core' = wheels_ok cu core"
  unfolding wheels_ok_def by simp

lemma settled_color_cong:
  "kc_colors core' beam = kc_colors core beam \<Longrightarrow> kc_bases core' beam = kc_bases core beam \<Longrightarrow> layers_of core' beam = layers_of core beam \<Longrightarrow>
     settled_color narrow core' beam = settled_color narrow core beam"
  by (simp add: settled_color_def)

lemma wheel_or_blank_bases [simp]: "wheel_or_blank (core\<lparr>kc_bases := x\<rparr>) = wheel_or_blank core"
  by (rule ext) (simp add: wheel_or_blank_def)

lemma evaluate_target_cases:
  assumes "evaluate_target narrow i (un, cu, core, targets) = Some (un', cu', core', targets')"
  shows "cu_wheels cu' = cu_wheels cu \<and> cu_wheels_by_key cu' = cu_wheels_by_key cu \<and> cu_fixtures cu' = cu_fixtures cu \<and>
    (core' = core \<and> targets' = targets \<or>
     (\<exists>beam c. core' = core\<lparr>kc_bases := (kc_bases core)(beam \<mapsto> c)\<rparr> \<and> targets' = targets @ [beam]))"
  using assms by (auto simp: evaluate_target_def Let_def split: if_splits option.splits prod.splits)

lemma evaluate_target_ok:
  assumes "evaluate_target narrow i (un, cu, core, targets) = Some (un', cu', core', targets')"
    and "colors_ok narrow cu core (set targets)"
  shows "colors_ok narrow cu' core' (set targets') \<and> kc_colors core' = kc_colors core"
proof -
  note facts = evaluate_target_cases [OF assms(1)]
  consider "core' = core" "targets' = targets"
    | beam c where "core' = core\<lparr>kc_bases := (kc_bases core)(beam \<mapsto> c)\<rparr>" "targets' = targets @ [beam]"
    using facts by blast
  then show ?thesis
  proof cases
    case 1
    moreover have "wheels_ok cu' core' = wheels_ok cu core" using facts by (intro wheels_ok_cong) (simp_all add: 1)
    ultimately show ?thesis using assms(2) by (simp add: colors_ok_def)
  next
    case 2
    have "settled_color narrow core' other = settled_color narrow core other" if "other \<noteq> beam" for other
      using that by (intro settled_color_cong) (simp_all add: 2 layers_of_def split: option.split)
    moreover have "wheels_ok cu' core' = wheels_ok cu core" using facts by (intro wheels_ok_cong) (simp_all add: 2)
    ultimately show ?thesis using assms(2) by (auto simp: colors_ok_def 2)
  qed
qed

lemma put_wheel_simps [simp]:
  "kc_colors (put_wheel key w core) = kc_colors core" "kc_bases (put_wheel key w core) = kc_bases core"
  "kc_layers (put_wheel key w core) = kc_layers core" "kc_palettes (put_wheel key w core) = kc_palettes core"
  "kc_wheels (put_wheel key w core) = (kc_wheels core)(key \<mapsto> w)"
  "kc_colors (report ds core) = kc_colors core" "kc_bases (report ds core) = kc_bases core"
  "kc_layers (report ds core) = kc_layers core" "kc_palettes (report ds core) = kc_palettes core"
  "kc_wheels (report ds core) = kc_wheels core"
  by (simp_all add: put_wheel_def report_def)

text \<open>What a step of a wheel does to the state: nothing that a layer shows, or one wheel is replaced.\<close>

definition wheel_kept :: "i64 \<Rightarrow> color_core \<Rightarrow> color_core \<Rightarrow> bool" where
  "wheel_kept key core core' \<longleftrightarrow> kc_colors core' = kc_colors core \<and> kc_bases core' = kc_bases core \<and> kc_layers core' = kc_layers core \<and>
     (kc_wheels core' = kc_wheels core \<or> kc_wheels core' = (kc_wheels core)(key \<mapsto> wheel_or_blank core key))"

definition wheel_replaced :: "i64 \<Rightarrow> wheel_state \<Rightarrow> color_core \<Rightarrow> color_core \<Rightarrow> bool" where
  "wheel_replaced key w core core' \<longleftrightarrow> kc_colors core' = kc_colors core \<and> kc_bases core' = kc_bases core \<and> kc_layers core' = kc_layers core \<and>
     kc_wheels core' = (kc_wheels core)(key \<mapsto> w)"

definition wheel_of_beam :: "color_universe \<Rightarrow> color_core \<Rightarrow> i64 \<Rightarrow> i32 \<Rightarrow> bool" where
  "wheel_of_beam cu core key beam \<longleftrightarrow>
     ws_initialized (wheel_or_blank core key) \<and> ws_beam_target_id (wheel_or_blank core key) = beam \<or>
     (\<exists>members i. cu_wheels_by_key cu key = Some members \<and> i \<in> set members \<and> 0 \<le> i \<and> i < int (length (cu_wheels cu)) \<and>
        wb_beam_render_target_id (wr_binding (cu_wheels cu ! nat i)) = beam)"

lemma show_wheel_cases:
  assumes "show_wheel narrow key (wheel_or_blank core key) b v (un, report ds core, targets, rows) = Some (un', core', targets', rows')"
  shows "targets' = targets \<and> rows' = rows \<and> wheel_kept key core core' \<or>
    (\<exists>w r. wheel_replaced key w core core' \<and> targets' = targets @ [wb_beam_render_target_id b] \<and> rows' = rows @ [r] \<and>
       vr_wheel_row r \<and> vr_render_target_id r = wb_beam_render_target_id b \<and> ws_beam_target_id w = wb_beam_render_target_id b)"
proof -
  define previous where "previous = wheel_or_blank core key"
  obtain palette where palette: "kc_palettes core (wb_wheel_renderer_id b) = None \<or> kc_palettes core (wb_wheel_renderer_id b) = Some palette"
    by (cases "kc_palettes core (wb_wheel_renderer_id b)") auto
  consider "targets' = targets" "rows' = rows" "wheel_kept key core core'"
    | pick where "core' = put_wheel key (picked_state previous b pick) (put_wheel key previous (report ds core))"
        "targets' = targets @ [wb_beam_render_target_id b]" "rows' = rows @ [wheel_row b pick (ws_revision previous + 1)]"
    using assms palette unfolding previous_def [symmetric]
    by (auto simp: show_wheel_def Let_def wheel_kept_def previous_def split: option.splits if_splits)
  then show ?thesis
  proof cases
    case 2
    have "wheel_replaced key (picked_state previous b pick) core core'" by (simp add: wheel_replaced_def 2(1))
    moreover have "ws_beam_target_id (picked_state previous b pick) = wb_beam_render_target_id b" by (simp add: picked_state_def)
    moreover have "vr_wheel_row (wheel_row b pick (ws_revision previous + 1))"
      "vr_render_target_id (wheel_row b pick (ws_revision previous + 1)) = wb_beam_render_target_id b"
      by (simp_all add: wheel_row_def plain_row_def)
    ultimately show ?thesis using 2(2,3) by blast
  qed simp
qed

lemma evaluate_wheel_cases:
  assumes "evaluate_wheel narrow cu key (un, core, targets, rows) = Some (un', core', targets', rows')"
  shows "targets' = targets \<and> rows' = rows \<and> wheel_kept key core core' \<or>
    (\<exists>w beam new. wheel_replaced key w core core' \<and> targets' = targets @ [beam] \<and> rows' = rows @ new \<and>
      (\<forall>r\<in>set new. vr_wheel_row r \<and> vr_render_target_id r = beam) \<and> (ws_initialized w \<longrightarrow> ws_beam_target_id w = beam) \<and>
      wheel_of_beam cu core key beam)"
proof (cases "cu_wheels_by_key cu key")
  case None
  then show ?thesis using assms by (simp add: evaluate_wheel_def wheel_kept_def)
next
  case (Some members)
  obtain chosen un1 ds where a: "active_wheel narrow cu members un None [] = Some (chosen, un1, ds)"
    using assms Some by (auto simp: evaluate_wheel_def split: option.splits)
  show ?thesis
  proof (cases chosen)
    case None
    then show ?thesis using assms a Some
      by (auto simp: evaluate_wheel_def release_wheel_def wheel_kept_def wheel_replaced_def wheel_of_beam_def released_state_def
          blank_wheel_def split: if_splits)
  next
    case (Some bv)
    obtain b v where bv: "chosen = Some (b, v)" using Some by (cases bv) auto
    have "\<exists>i. i \<in> set members \<and> 0 \<le> i \<and> i < int (length (cu_wheels cu)) \<and> wr_binding (cu_wheels cu ! nat i) = b"
      using active_wheel_member [OF a, of "\<lambda>b. \<exists>i. i \<in> set members \<and> 0 \<le> i \<and> i < int (length (cu_wheels cu)) \<and> wr_binding (cu_wheels cu ! nat i) = b"]
      bv by auto
    then have "wheel_of_beam cu core key (wb_beam_render_target_id b)"
      using \<open>cu_wheels_by_key cu key = Some members\<close> unfolding wheel_of_beam_def by blast
    moreover have "show_wheel narrow key (wheel_or_blank core key) b v (un1, report ds core, targets, rows) = Some (un', core', targets', rows')"
      using assms a bv \<open>cu_wheels_by_key cu key = Some members\<close> by (simp add: evaluate_wheel_def)
    ultimately show ?thesis using show_wheel_cases by fastforce
  qed
qed

lemma evaluate_wheel_ok:
  assumes "evaluate_wheel narrow cu key (un, core, targets, rows) = Some (un', core', targets', rows')"
    and "colors_ok narrow cu core (touched \<union> set targets)"
  shows "colors_ok narrow cu core' (touched \<union> set targets')"
  using evaluate_wheel_cases [OF assms(1)]
proof (elim disjE exE conjE)
  assume "targets' = targets" "wheel_kept key core core'"
  have wheels: "wheel_or_blank core' k = wheel_or_blank core k" for k
    using \<open>wheel_kept key core core'\<close> by (auto simp: wheel_kept_def wheel_or_blank_def)
  have "layers_of core' beam = layers_of core beam" for beam
    using \<open>wheel_kept key core core'\<close> wheels by (auto simp: layers_of_def wheel_kept_def split: option.splits)
  then have "settled_color narrow core' beam = settled_color narrow core beam" for beam
    using \<open>wheel_kept key core core'\<close> by (intro settled_color_cong) (simp_all add: wheel_kept_def)
  moreover have "wheels_ok cu core'"
    using assms(2) \<open>wheel_kept key core core'\<close>
    by (auto simp: colors_ok_def wheels_ok_def wheel_kept_def wheel_or_blank_def blank_wheel_def split: option.splits if_splits)
  ultimately show ?thesis using assms(2) \<open>targets' = targets\<close> by (simp add: colors_ok_def)
next
  fix w beam new
  assume r: "wheel_replaced key w core core'" "targets' = targets @ [beam]" "ws_initialized w \<longrightarrow> ws_beam_target_id w = beam"
    and of_beam: "wheel_of_beam cu core key beam"
  have ok: "wheels_ok cu core" using assms(2) by (simp add: colors_ok_def)
  have only: "other = beam" if "kc_layers core other = Some keys" "key \<in> set keys" for other keys
    using ok of_beam that unfolding wheels_ok_def wheel_of_beam_def wheel_or_blank_def
    by (auto simp: blank_wheel_def split: option.splits)
  have "layers_of core' other = layers_of core other" if "other \<noteq> beam" for other
    using only that r(1) by (auto simp: layers_of_def wheel_replaced_def wheel_or_blank_def split: option.splits)
  then have "settled_color narrow core' other = settled_color narrow core other" if "other \<noteq> beam" for other
    using that r(1) by (intro settled_color_cong) (simp_all add: wheel_replaced_def)
  moreover have "wheels_ok cu core'"
    using ok only r(1,3) unfolding wheels_ok_def wheel_replaced_def by (auto split: if_splits)
  ultimately show ?thesis using assms(2) r(2) by (auto simp: colors_ok_def)
qed

lemma compose_target_cases:
  obtains new where "compose_target narrow cu beam (core, rows) =
      (core\<lparr>kc_colors := (kc_colors core)(beam \<mapsto> compose_ordered_target_color narrow (kc_bases core beam) (layers_of core beam))\<rparr>, rows @ new)"
    and "\<And>r. r \<in> set new \<Longrightarrow> \<not> vr_wheel_row r \<and> vr_render_target_id r = beam \<and> vr_changed_visual_mask r = VisualChangeColor"
    and "kc_colors core beam = None \<Longrightarrow> new \<noteq> []"
proof -
  let ?composed = "compose_ordered_target_color narrow (kc_bases core beam) (layers_of core beam)"
  let ?row = "plain_row (case cu_fixtures cu beam of None \<Rightarrow> 0 | Some f \<Rightarrow> f) beam VisualChangeColor blank_component ?composed"
  have "compose_target narrow cu beam (core, rows) = (core\<lparr>kc_colors := (kc_colors core)(beam \<mapsto> ?composed)\<rparr>, rows @ []) \<and>
        kc_colors core beam \<noteq> None \<or>
      compose_target narrow cu beam (core, rows) = (core\<lparr>kc_colors := (kc_colors core)(beam \<mapsto> ?composed)\<rparr>, rows @ [?row])"
    by (cases "kc_colors core beam") (simp_all add: compose_target_def Let_def blank_color_def)
  moreover have "\<not> vr_wheel_row ?row \<and> vr_render_target_id ?row = beam \<and> vr_changed_visual_mask ?row = VisualChangeColor"
    by (simp add: plain_row_def)
  ultimately show ?thesis using that [of "[]"] that [of "[?row]"] by auto
qed

lemma compose_all_ok:
  assumes "colors_ok narrow cu core touched"
  shows "\<exists>core' new. fold (compose_target narrow cu) beams (core, rows) = (core', rows @ new) \<and>
    colors_ok narrow cu core' (touched - set beams) \<and>
    (\<forall>r\<in>set new. \<not> vr_wheel_row r) \<and>
    (\<forall>beam\<in>set beams. kc_colors core beam = None \<longrightarrow>
       (\<exists>r\<in>set new. vr_render_target_id r = beam \<and> vr_changed_visual_mask r = VisualChangeColor))"
  using assms
proof (induction beams arbitrary: core rows touched)
  case (Cons beam beams)
  let ?composed = "compose_ordered_target_color narrow (kc_bases core beam) (layers_of core beam)"
  let ?core = "core\<lparr>kc_colors := (kc_colors core)(beam \<mapsto> ?composed)\<rparr>"
  obtain new where new: "compose_target narrow cu beam (core, rows) = (?core, rows @ new)"
    "\<And>r. r \<in> set new \<Longrightarrow> \<not> vr_wheel_row r \<and> vr_render_target_id r = beam \<and> vr_changed_visual_mask r = VisualChangeColor"
    "kc_colors core beam = None \<Longrightarrow> new \<noteq> []"
    using compose_target_cases [of narrow cu beam core rows] by blast
  have wheels: "wheel_or_blank (core\<lparr>kc_colors := x\<rparr>) = wheel_or_blank core" for x by (rule ext) (simp add: wheel_or_blank_def)
  have layers: "layers_of ?core other = layers_of core other" for other by (simp add: layers_of_def wheels split: option.split)
  have "settled_color narrow ?core other" if "other \<notin> touched - {beam}" for other
    using that Cons.prems by (cases "other = beam") (auto simp: colors_ok_def settled_color_def layers)
  moreover have "wheels_ok cu ?core = wheels_ok cu core" by (rule wheels_ok_cong) simp_all
  ultimately have "colors_ok narrow cu ?core (touched - {beam})" using Cons.prems by (simp add: colors_ok_def)
  from Cons.IH [OF this, of "rows @ new"]
  obtain core' rest where rest: "fold (compose_target narrow cu) beams (?core, rows @ new) = (core', (rows @ new) @ rest)"
    "colors_ok narrow cu core' (touched - {beam} - set beams)" "\<forall>r\<in>set rest. \<not> vr_wheel_row r"
    "\<forall>other\<in>set beams. kc_colors ?core other = None \<longrightarrow> (\<exists>r\<in>set rest. vr_render_target_id r = other \<and> vr_changed_visual_mask r = VisualChangeColor)"
    by blast
  have "\<exists>r\<in>set (new @ rest). vr_render_target_id r = other \<and> vr_changed_visual_mask r = VisualChangeColor"
    if o: "other \<in> set (beam # beams)" "kc_colors core other = None" for other
  proof (cases "other = beam")
    case True
    then obtain r where "r \<in> set new" using new(3) o(2) by (cases new) auto
    then show ?thesis using new(2) True by auto
  next
    case False
    then show ?thesis using rest(4) o by auto
  qed
  moreover have "touched - {beam} - set beams = touched - set (beam # beams)" by auto
  ultimately show ?case using new(1,2) rest(1-3) by (intro exI [of _ core'] exI [of _ "new @ rest"]) (auto simp del: Diff_insert)
qed (auto simp: colors_ok_def)

lemma set_unique_sorted [simp]: "set (unique_sorted key xs) = set xs"
  by (simp add: unique_sorted_def)

text \<open>The wheels of a frame: rows for touched targets.\<close>

lemma each_target_ok:
  assumes "each (evaluate_target narrow) is (un, cu, core, []) = Some (un', cu', core', targets)" and "colors_ok narrow cu core {}"
  shows "colors_ok narrow cu' core' (set targets) \<and> kc_colors core' = kc_colors core \<and> cu_fixtures cu' = cu_fixtures cu"
proof -
  let ?P = "\<lambda>(un', cu', core', targets). colors_ok narrow cu' core' (set targets) \<and> kc_colors core' = kc_colors core \<and>
    cu_fixtures cu' = cu_fixtures cu"
  have "?P (un', cu', core', targets)"
  proof (rule each_invariant [OF assms(1), where P = ?P])
    show "?P (un, cu, core, [])" using assms(2) by simp
    show "\<forall>x s s'. x \<in> set is \<and> ?P s \<and> evaluate_target narrow x s = Some s' \<longrightarrow> ?P s'"
    proof (intro allI impI)
      fix x s s' assume a: "x \<in> set is \<and> ?P s \<and> evaluate_target narrow x s = Some s'"
      obtain un1 cu1 core1 ts1 where s: "s = (un1, cu1, core1, ts1)" by (cases s)
      obtain un2 cu2 core2 ts2 where s': "s' = (un2, cu2, core2, ts2)" by (cases s')
      have e: "evaluate_target narrow x (un1, cu1, core1, ts1) = Some (un2, cu2, core2, ts2)" using a s s' by simp
      show "?P s'" using evaluate_target_ok [OF e] evaluate_target_cases [OF e] a unfolding s s' by simp
    qed
  qed
  then show ?thesis by simp
qed

lemma each_wheel_ok:
  assumes "each (evaluate_wheel narrow cu) keys (un, core, [], rows) = Some (un', core', targets, rows')" and "colors_ok narrow cu core touched"
  shows "colors_ok narrow cu core' (touched \<union> set targets) \<and> kc_colors core' = kc_colors core \<and>
    (\<exists>new. rows' = rows @ new \<and> (\<forall>r\<in>set new. vr_wheel_row r \<and> vr_render_target_id r \<in> set targets))"
proof -
  let ?P = "\<lambda>(un', core', targets, rows'). colors_ok narrow cu core' (touched \<union> set targets) \<and> kc_colors core' = kc_colors core \<and>
    (\<exists>new. rows' = rows @ new \<and> (\<forall>r\<in>set new. vr_wheel_row r \<and> vr_render_target_id r \<in> set targets))"
  have "?P (un', core', targets, rows')"
  proof (rule each_invariant [OF assms(1), where P = ?P])
    show "?P (un, core, [], rows)" using assms(2) by simp
    show "\<forall>x s s'. x \<in> set keys \<and> ?P s \<and> evaluate_wheel narrow cu x s = Some s' \<longrightarrow> ?P s'"
    proof (intro allI impI)
      fix x s s' assume a: "x \<in> set keys \<and> ?P s \<and> evaluate_wheel narrow cu x s = Some s'"
      obtain un1 core1 ts1 rows1 where s: "s = (un1, core1, ts1, rows1)" by (cases s)
      obtain un2 core2 ts2 rows2 where s': "s' = (un2, core2, ts2, rows2)" by (cases s')
      have e: "evaluate_wheel narrow cu x (un1, core1, ts1, rows1) = Some (un2, core2, ts2, rows2)" using a s s' by simp
      have "colors_ok narrow cu core2 (touched \<union> set ts2)" using evaluate_wheel_ok [OF e] a s by simp
      moreover have "kc_colors core2 = kc_colors core1" "\<exists>new. rows2 = rows1 @ new \<and> (\<forall>r\<in>set new. vr_wheel_row r \<and> vr_render_target_id r \<in> set ts2)"
        "set ts1 \<subseteq> set ts2"
        using evaluate_wheel_cases [OF e] by (auto simp: wheel_kept_def wheel_replaced_def)
      ultimately show "?P s'" using a unfolding s s' by fastforce
    qed
  qed
  then show ?thesis by simp
qed

lemma consume_colors_ok:
  assumes "consume_colors narrow target_indices wheel_indices (un, cu, core, rows) = Some (un', cu', core', rows')"
    and "colors_ok narrow cu core {}"
  shows "colors_ok narrow cu' core' {} \<and>
    (\<exists>new. rows' = rows @ new \<and> (\<forall>r\<in>set new. vr_wheel_row r \<and> kc_colors core (vr_render_target_id r) = None \<longrightarrow>
       (\<exists>r'\<in>set new. \<not> vr_wheel_row r' \<and> vr_render_target_id r' = vr_render_target_id r \<and> vr_changed_visual_mask r' = VisualChangeColor)))"
proof -
  define cu0 where "cu0 = cu\<lparr>cu_dirty_wheels := dirty_insert wheel_indices (dirty_clear (cu_dirty_wheels cu))\<rparr>"
  have "wheels_ok cu0 core = wheels_ok cu core" by (rule wheels_ok_cong) (simp_all add: cu0_def)
  then have ok0: "colors_ok narrow cu0 core {}" using assms(2) by (simp add: colors_ok_def)
  obtain un1 core1 targets where t: "each (evaluate_target narrow) target_indices (un, cu0, core, []) = Some (un1, cu', core1, targets)"
    and "\<exists>un2 core2 wheel_targets rows2. each (evaluate_wheel narrow cu') (dirty_keys cu') (un1, core1, [], rows) = Some (un2, core2, wheel_targets, rows2) \<and>
      (core', rows') = fold (compose_target narrow cu') (unique_sorted sint (targets @ wheel_targets)) (core2, rows2)"
    using assms(1) unfolding consume_colors_def Let_def prod.case cu0_def [symmetric]
    by (auto split: option.splits prod.splits)
  then obtain un2 core2 wheel_targets rows2 where
    w: "each (evaluate_wheel narrow cu') (dirty_keys cu') (un1, core1, [], rows) = Some (un2, core2, wheel_targets, rows2)"
    and c: "(core', rows') = fold (compose_target narrow cu') (unique_sorted sint (targets @ wheel_targets)) (core2, rows2)" by blast
  note ok1 = each_target_ok [OF t ok0]
  note ok2 = each_wheel_ok [OF w conjunct1 [OF ok1]]
  obtain wheel_rows where wr: "rows2 = rows @ wheel_rows" "\<forall>r\<in>set wheel_rows. vr_wheel_row r \<and> vr_render_target_id r \<in> set wheel_targets"
    using ok2 by blast
  let ?beams = "unique_sorted sint (targets @ wheel_targets)"
  obtain new where new: "rows' = rows2 @ new" "colors_ok narrow cu' core' (set targets \<union> set wheel_targets - set ?beams)"
    "\<forall>r\<in>set new. \<not> vr_wheel_row r"
    "\<forall>beam\<in>set ?beams. kc_colors core2 beam = None \<longrightarrow> (\<exists>r\<in>set new. vr_render_target_id r = beam \<and> vr_changed_visual_mask r = VisualChangeColor)"
    using compose_all_ok [OF conjunct1 [OF ok2], of ?beams rows2] c by auto
  have "colors_ok narrow cu' core' {}" using new(2) by simp
  moreover have "rows' = rows @ (wheel_rows @ new)" using new(1) wr(1) by simp
  moreover have "\<exists>r'\<in>set (wheel_rows @ new). \<not> vr_wheel_row r' \<and> vr_render_target_id r' = vr_render_target_id r \<and> vr_changed_visual_mask r' = VisualChangeColor"
    if r: "r \<in> set (wheel_rows @ new)" "vr_wheel_row r" "kc_colors core (vr_render_target_id r) = None" for r
  proof -
    have "r \<in> set wheel_rows" using r(1,2) new(3) by auto
    then have "vr_render_target_id r \<in> set ?beams" using wr(2) by simp
    moreover have "kc_colors core2 = kc_colors core" using ok1 ok2 by simp
    ultimately obtain r' where "r' \<in> set new" "vr_render_target_id r' = vr_render_target_id r" "vr_changed_visual_mask r' = VisualChangeColor"
      using new(4) r(3) by auto
    then show ?thesis using new(3) by auto
  qed
  ultimately show ?thesis by blast
qed

inductive color_reachable :: "(real \<Rightarrow> real) \<Rightarrow> color_universe \<Rightarrow> color_core \<Rightarrow> bool" for narrow :: "real \<Rightarrow> real" where
  Installed: "wheels_ok cu core \<Longrightarrow> kc_colors core = Map.empty \<Longrightarrow> color_reachable narrow cu core"
| Frame: "color_reachable narrow cu core \<Longrightarrow>
    consume_colors narrow target_indices wheel_indices (un, cu, core, rows) = Some (un', cu', core', rows') \<Longrightarrow>
    color_reachable narrow cu' core'"

lemma color_reachable_ok: "color_reachable narrow cu core \<Longrightarrow> colors_ok narrow cu core {}"
  by (induction rule: color_reachable.induct) (auto simp: colors_ok_def settled_color_def dest: consume_colors_ok)


subsection \<open>Scenes whose colours come from wheels\<close>

lemma color_capabilities_none:
  "\<forall>t\<in>set targets. installed_target narrow programs t = None \<Longrightarrow> color_capabilities narrow programs targets caps = caps"
  by (induction targets) simp_all

lemma wheel_capabilities_color:
  "wheel_capabilities programs palettes bs caps = Some caps' \<Longrightarrow> has_color caps' = has_color caps"
  by (induction bs arbitrary: caps) (auto split: option.splits if_splits)

text \<open>C32: The schema of a scene that takes its colours from wheels alone has no section for them. Installing it gives the
  capability of wheel selections and not that of emitter colours; but the first frame in which a wheel shows a slot carries
  the composed colour of its target beside the wheel's row, and the schema rejects that frame.\<close>

theorem wheel_only_frames_are_rejected:
  assumes "\<forall>t\<in>set targets. installed_target narrow programs t = None"
    and "wheel_capabilities programs palettes bs (color_capabilities narrow programs targets base_caps) = Some caps" and "\<not> has_color base_caps"
    and "color_reachable narrow cu core"
    and "consume_colors narrow target_indices wheel_indices (un, cu, core, []) = Some (un', cu', core', rows)"
    and "r \<in> set rows" and "vr_wheel_row r" and "kc_colors core (vr_render_target_id r) = None"
  shows "validate_sectioned_visual_frame (make_visual_frame_schema gen caps)
    (consumed_frame narrow pans tilts (before @ rows) gobos rotations shutters gen) \<noteq> None"
proof -
  have "\<not> has_color caps"
    using wheel_capabilities_color [OF assms(2)] assms(3) by (simp add: color_capabilities_none [OF assms(1)])
  moreover obtain r' where "r' \<in> set rows" "\<not> vr_wheel_row r'" "vr_changed_visual_mask r' = VisualChangeColor"
    using consume_colors_ok [OF assms(5) color_reachable_ok [OF assms(4)]] assms(6-8) by auto
  then have "r' \<in> set (filter (\<lambda>r. \<not> vr_wheel_row r) (rows_with VisualChangeColor (before @ rows)))"
    by (simp add: rows_with_def VisualChangeColor_def)
  ultimately have "\<not> capable caps (before @ rows) gobos rotations shutters"
    unfolding capable_def by (metis empty_iff empty_set)
  then show ?thesis unfolding validate_exact using well_formed_capable by blast
qed

subsection \<open>An example\<close>

definition wheel_source :: dmx_source_program where
  "wheel_source = dimmer_source\<lparr>pr_dmx_from := 0, pr_dmx_to := 255\<rparr>"

definition red_slot :: wheel_palette_slot where
  "red_slot = \<lparr>ps_slot_index = 2, ps_srgb_red = 1, ps_srgb_green = 0, ps_srgb_blue = 0, ps_linear_red = 1, ps_linear_green = 0,
     ps_linear_blue = 0, ps_gain = 1, ps_identity = False, ps_media_file_name = [], ps_provenance = [], ps_name = ''Red'',
     ps_filter_resource_id = 0, ps_uniform_color_presentation = True\<rparr>"

definition red_palette :: wheel_palette where
  "red_palette = \<lparr>wp_wheel_renderer_id = 4, wp_fixture_id = 7, wp_name = ''Color'', wp_placement_offset_degrees = 0, wp_slots = [red_slot]\<rparr>"

definition red_binding :: wheel_target_binding where
  "red_binding = \<lparr>wb_binding_id = 1, wb_fixture_id = 7, wb_beam_render_target_id = 9, wb_wheel_renderer_id = 4,
     wb_source_program_id = 1, wb_mode = 0, wb_snap = True, wb_placement_offset_degrees = 0,
     wb_channel_sets = [\<lparr>cs_dmx_from = 0, cs_dmx_to = 255, cs_wheel_slot_index = 2, cs_name = ''Red'', cs_physical_from = 0, cs_physical_to = 1\<rparr>]\<rparr>"

definition red_universe :: color_universe where
  "red_universe = \<lparr>cu_targets = [], cu_wheels = [\<lparr>wr_binding = red_binding, wr_source = 0\<rparr>], cu_wheels_by_target = [9 \<mapsto> [0]],
     cu_wheels_by_key = [wheel_physical_key 9 4 \<mapsto> [0]], cu_fixtures = [9 \<mapsto> 7], cu_dirty_wheels = dirty_install 1 fresh_dirty\<rparr>"

definition red_core :: color_core where
  "red_core = \<lparr>kc_emitters = Map.empty, kc_filters = Map.empty, kc_palettes = [4 \<mapsto> red_palette], kc_bases = Map.empty,
     kc_colors = Map.empty, kc_wheels = Map.empty, kc_layers = [9 \<mapsto> [wheel_physical_key 9 4]], kc_diagnostics = []\<rparr>"

lemma red_reachable: "color_reachable id red_universe red_core"
  by (rule Installed) (simp_all add: wheels_ok_def red_universe_def red_core_def red_binding_def)

lemma red_frame:
  "\<exists>un un' cu' core' rows r. take_frame (submit_frame [0, 0, 40] (installed_universe [wheel_source] [] [] [2])) = Some (True, un) \<and>
     consume_colors id [] [0] (un, red_universe, red_core, []) = Some (un', cu', core', rows) \<and> r \<in> set rows \<and> vr_wheel_row r \<and>
     vr_render_target_id r = 9 \<and> (\<exists>c. kc_colors core' 9 = Some c)"
proof -
  let ?ps = "map (\<lambda>p. in_program (installed_program p)) [wheel_source]"
  have ps: "?ps = [wheel_source]" by (simp add: installed_program_def wheel_source_def dimmer_source_def blank_program_def)
  let ?start = "submit_frame [0, 0, 40] (installed_universe [wheel_source] [] [] [2])"
  have "universe_ok id ?ps [] (installed_universe [wheel_source] [] [] [2])" by (rule installed_universe_ok) simp
  from submit_frame_ok [OF this, of "[0, 0, 40]"] have ok: "universe_ok id [wheel_source] [] ?start" unfolding ps .
  have start: "un_pending ?start" "un_latest ?start = [0, 0, 40]" "un_interest ?start = [2]"
    by (simp_all add: submit_frame_def installed_universe_def Let_def)
  obtain ev un where un: "take_frame ?start = Some (ev, un)" "settled id [wheel_source] [] [0, 0, 40] [2] un"
    using take_frame_ok [OF ok start(1)] start(2,3) by (auto simp: settled_def)
  have ev: "ev = True" using un(1)
    by (simp add: take_frame_def submit_frame_def installed_universe_def Let_def byte_at_def split: option.splits)
  have good: "source_good [2] [wheel_source] 0" by (simp add: source_good_def covered_def wheel_source_def dimmer_source_def)
  define v where "v = current_value id (byte_at [0, 0, 40]) wheel_source"
  obtain un1 where s: "evaluate_cached_source id 0 un = Some (v, un1)" "settled id [wheel_source] [] [0, 0, 40] [2] un1"
    using settled_source [OF un(2) good] by (auto simp: v_def)
  have program: "in_program (un_bindings un1 ! 0) = wheel_source" "length (un_bindings un) > 0"
    using s(2) un(2) by (auto simp: settled_def universe_ok_def map_eq_Cons_conv)
  have raw: "ev_raw_value v = 40" by (simp add: v_def raw_of_def wheel_source_def dimmer_source_def byte_at_def)
  have valid: "ev_valid v" by (simp add: v_def)
  let ?cu = "red_universe\<lparr>cu_dirty_wheels := dirty_insert [0] (dirty_clear (cu_dirty_wheels red_universe))\<rparr>"
  have keys: "dirty_keys ?cu = [wheel_physical_key 9 4]"
    by (simp add: dirty_keys_def red_universe_def dirty_insert_def dirty_clear_def dirty_install_def fresh_dirty_def dirty_insert_one_def
        dirty_visit_def dirty_begin_def unique_sorted_def red_binding_def)
  have active: "active_wheel id ?cu [0] un None [] = Some (Some (red_binding, v), un1, [])"
    using s(1) program valid raw by (simp add: red_universe_def in_range_def) (simp add: wheel_source_def)
  have wheel: "evaluate_wheel id ?cu (wheel_physical_key 9 4) (un, red_core, [], []) =
      Some (un1, put_wheel (wheel_physical_key 9 4) (picked_state blank_wheel red_binding (slot_pick id red_slot))
        (put_wheel (wheel_physical_key 9 4) blank_wheel (report [] red_core)), [9], [wheel_row red_binding (slot_pick id red_slot) 1])"
    using active
    by (simp add: evaluate_wheel_def red_universe_def show_wheel_def red_core_def wheel_or_blank_def put_wheel_def report_def raw
        pick_slots_def red_binding_def red_palette_def red_slot_def wheel_changed_def blank_wheel_def Let_def)
  have "\<exists>un' cu' core' rows. consume_colors id [] [0] (un, red_universe, red_core, []) = Some (un', cu', core', rows) \<and>
      wheel_row red_binding (slot_pick id red_slot) 1 \<in> set rows \<and> (\<exists>c. kc_colors core' 9 = Some c)"
    unfolding consume_colors_def Let_def prod.case keys each.simps wheel option.case
    by (auto simp: unique_sorted_def compose_target_def Let_def)
  moreover have "vr_wheel_row (wheel_row red_binding (slot_pick id red_slot) 1)"
    "vr_render_target_id (wheel_row red_binding (slot_pick id red_slot) 1) = 9"
    by (simp_all add: wheel_row_def plain_row_def red_binding_def)
  ultimately show ?thesis using un(1) ev by blast
qed


lemma wheel_only_frames_are_rejected_witness:
  "\<exists>un un' cu' core' rows. take_frame (submit_frame [0, 0, 40] (installed_universe [wheel_source] [] [] [2])) = Some (True, un) \<and>
     consume_colors id [] [0] (un, red_universe, red_core, []) = Some (un', cu', core', rows) \<and>
     validate_sectioned_visual_frame (make_visual_frame_schema 1 (no_capabilities\<lparr>has_wheel_selection := True\<rparr>))
       (consumed_frame id Map.empty Map.empty rows [] [] [] 1) \<noteq> None"
proof -
  obtain un un' cu' core' rows r where f: "take_frame (submit_frame [0, 0, 40] (installed_universe [wheel_source] [] [] [2])) = Some (True, un)"
    "consume_colors id [] [0] (un, red_universe, red_core, []) = Some (un', cu', core', rows)" "r \<in> set rows" "vr_wheel_row r"
    "vr_render_target_id r = 9"
    using red_frame by blast
  have caps: "wheel_capabilities [1 \<mapsto> wheel_source] [4 \<mapsto> red_palette] [red_binding]
      (color_capabilities id [1 \<mapsto> wheel_source] [] no_capabilities) = Some (no_capabilities\<lparr>has_wheel_selection := True\<rparr>)"
    by (simp add: wheel_universe_def red_binding_def wheel_source_def dimmer_source_def)
  have "kc_colors red_core (vr_render_target_id r) = None" by (simp add: red_core_def)
  from wheel_only_frames_are_rejected [OF _ caps _ red_reachable f(2-4) this, where gen = 1 and pans = Map.empty and tilts = Map.empty
      and before = "[]" and gobos = "[]" and rotations = "[]" and shutters = "[]"]
  show ?thesis using f(1,2) by (auto simp: no_capabilities_def)
qed

end
