(* ===== verification/Runtime_Activation.thy ===== *)
theory Runtime_Activation
  imports Runtime_Sources
begin

text \<open>
  Which gobo and shutter functions are active (\<open>runtime/gobo_motion_evaluator.cpp\<close>, and the contexts of
  \<open>runtime/visual_runtime_install.cpp\<close>, \<open>visual_runtime_plan.cpp\<close> and \<open>visual_runtime_evaluation.cpp\<close>): a source program is
  active when its own reading is in its range and its ModeMaster, if it has one, is in the range of the condition and, if it
  is a function, active itself. A context holds the chain of masters of one source, compiled once; results are cached
  by source for the length of an update.

  The theorems: the depth bound never cuts a chain short, and what the cache answers is what the whole scene says on the
  latest frame.
\<close>

subsection \<open>The evaluator\<close>

definition find_program :: "dmx_source_program list \<Rightarrow> i32 \<Rightarrow> dmx_source_program option" where
  "find_program programs key = find (\<lambda>p. pr_program_id p = key) programs"

definition find_reading :: "(i32 \<times> u32) list \<Rightarrow> i32 \<Rightarrow> u32 option" where
  "find_reading readings key = map_option snd (find (\<lambda>r. fst r = key) readings)"

definition reading_within :: "u32 option \<Rightarrow> u32 \<Rightarrow> u32 \<Rightarrow> bool" where
  "reading_within reading from to = (case reading of None \<Rightarrow> False | Some raw \<Rightarrow> from \<le> raw \<and> raw \<le> to)"

text \<open>The kinds of a master: none 0, a channel 1, a channel function 2, invalid 3.\<close>

function activation_is_active :: "dmx_source_program \<Rightarrow> dmx_source_program list \<Rightarrow> (i32 \<times> u32) list \<Rightarrow> nat \<Rightarrow> bool" where
  "activation_is_active program programs readings depth =
     (if depth > length programs then False
      else if \<not> reading_within (find_reading readings (pr_program_id program)) (pr_dmx_from program) (pr_dmx_to program) then False
      else let condition = pr_activation program
           in if \<not> ac_valid condition \<or> ac_target_kind condition = 3 then False
              else if ac_target_kind condition = 0 then True
              else case find_program programs (ac_master_program_id condition) of
                None \<Rightarrow> False
              | Some master \<Rightarrow>
                  if \<not> reading_within (find_reading readings (pr_program_id master)) (ac_from condition) (ac_to condition) then False
                  else ac_target_kind condition \<noteq> 2 \<or> activation_is_active master programs readings (depth + 1))"
  by pat_completeness auto
termination by (relation "measure (\<lambda>(program, programs, readings, depth). Suc (length programs) - depth)") auto

declare activation_is_active.simps [simp del]

text \<open>The raw value where the source is active.\<close>

definition evaluate_gobo_source_activation :: "i32 \<Rightarrow> dmx_source_program list \<Rightarrow> (i32 \<times> u32) list \<Rightarrow> u32 option" where
  "evaluate_gobo_source_activation key programs readings =
     (case find_program programs key of
        None \<Rightarrow> None
      | Some program \<Rightarrow>
          (case find_reading readings (pr_program_id program) of
             None \<Rightarrow> None
           | Some raw \<Rightarrow> if activation_is_active program programs readings 0 then Some raw else None))"

subsection \<open>Contexts\<close>

record activation_context =
  xc_program_ids :: "i32 list"
  xc_definitions :: "dmx_source_program list"
  xc_sources :: "nat list"

text \<open>The chain of masters of a source: their ids and the addresses of their bytes. A chain with a missing program or with a
  byte of another universe is refused; the set of the visited ids ends a cyclic one.\<close>

definition next_dependency :: "dmx_source_program \<Rightarrow> i32" where
  "next_dependency program =
     (if ac_target_kind (pr_activation program) = 0 then 0 else ac_master_program_id (pr_activation program))"

function gobo_dependencies ::
    "(i32 \<Rightarrow> dmx_source_program option) \<Rightarrow> i32 \<Rightarrow> i32 \<Rightarrow> i32 list \<Rightarrow> i32 list \<Rightarrow> (i32 list \<times> i32 list) option" where
  "gobo_dependencies programs universe key ids offsets =
     (if sint key \<le> 0 \<or> key \<in> set ids then Some (ids, offsets)
      else case programs key of
        None \<Rightarrow> None
      | Some program \<Rightarrow>
          if \<exists>s\<in>set (pr_sources program). bs_universe_id s \<noteq> universe then None
          else gobo_dependencies programs universe (next_dependency program) (ids @ [key])
                 (offsets @ map bs_address (pr_sources program)))"
  by pat_completeness auto
termination
proof (relation "measure (\<lambda>(programs, universe, key, ids, offsets). card (- set ids))")
  fix programs :: "i32 \<Rightarrow> dmx_source_program option" and universe key ids offsets program
  assume "\<not> (sint (key :: i32) \<le> 0 \<or> key \<in> set ids)"
  then have "- set (ids @ [key]) \<subset> - set ids" by auto
  then show "((programs, universe, next_dependency program, ids @ [key], offsets @ map bs_address (pr_sources program)),
      programs, universe, key, ids, offsets) \<in> measure (\<lambda>(programs, universe, key, ids, offsets). card (- set ids))"
    by (simp add: psubset_card_mono)
qed simp

declare gobo_dependencies.simps [simp del]

text \<open>\<open>prepare_context\<close>: the definitions and the handles of the chain.\<close>

definition prepare_context :: "(i32 \<Rightarrow> dmx_source_program option) \<Rightarrow> evaluation_plan \<Rightarrow> i32 list \<Rightarrow> activation_context" where
  "prepare_context programs plan ids =
     \<lparr>xc_program_ids = ids, xc_definitions = map (\<lambda>key. the (programs key)) ids, xc_sources = map (\<lambda>key. source_index key plan) ids\<rparr>"

fun fill_gobo_context ::
    "(real \<Rightarrow> real) \<Rightarrow> (i32 \<times> nat) list \<Rightarrow> universe_state \<Rightarrow> ((i32 \<times> u32) list \<times> universe_state) option" where
  "fill_gobo_context narrow [] un = Some ([], un)"
| "fill_gobo_context narrow ((key, source) # inputs) un =
     (case evaluate_cached_source narrow source un of
        None \<Rightarrow> None
      | Some (v, un) \<Rightarrow> map_option (\<lambda>(rs, un). ((key, ev_raw_value v) # rs, un)) (fill_gobo_context narrow inputs un))"

definition evaluate_cached_activation ::
    "(real \<Rightarrow> real) \<Rightarrow> activation_context \<Rightarrow> universe_state \<Rightarrow> (bool \<times> universe_state) option" where
  "evaluate_cached_activation narrow context un =
     (case xc_sources context of
        [] \<Rightarrow> None
      | source # _ \<Rightarrow>
          (if activation_cached source (un_plan un) then map_option (\<lambda>a. (a, un)) (activation_value source (un_plan un))
           else case fill_gobo_context narrow (zip (xc_program_ids context) (xc_sources context)) un of
             None \<Rightarrow> None
           | Some (readings, un) \<Rightarrow>
               let a = evaluate_gobo_source_activation (hd (xc_program_ids context)) (xc_definitions context) readings \<noteq> None
               in map_option (\<lambda>p. (a, un\<lparr>un_plan := p\<rparr>)) (store_activation source a (un_plan un))))"

subsection \<open>Chains of activations\<close>

text \<open>When a program is active, as a rule: its readings and the programs are given by their ids.\<close>

definition own_active :: "(i32 \<Rightarrow> u32 option) \<Rightarrow> dmx_source_program \<Rightarrow> bool" where
  "own_active readings p \<longleftrightarrow> reading_within (readings (pr_program_id p)) (pr_dmx_from p) (pr_dmx_to p) \<and>
     ac_valid (pr_activation p) \<and> ac_target_kind (pr_activation p) \<noteq> 3"

definition master_active :: "(i32 \<Rightarrow> dmx_source_program option) \<Rightarrow> (i32 \<Rightarrow> u32 option) \<Rightarrow> dmx_source_program \<Rightarrow> dmx_source_program \<Rightarrow> bool" where
  "master_active table readings p m \<longleftrightarrow> table (ac_master_program_id (pr_activation p)) = Some m \<and>
     reading_within (readings (pr_program_id m)) (ac_from (pr_activation p)) (ac_to (pr_activation p))"

inductive program_active ::
    "(i32 \<Rightarrow> dmx_source_program option) \<Rightarrow> (i32 \<Rightarrow> u32 option) \<Rightarrow> dmx_source_program \<Rightarrow> bool" for table readings where
  unconditional: "own_active readings p \<Longrightarrow> ac_target_kind (pr_activation p) = 0 \<Longrightarrow> program_active table readings p"
| by_channel: "own_active readings p \<Longrightarrow> ac_target_kind (pr_activation p) \<notin> {0, 2} \<Longrightarrow> master_active table readings p m \<Longrightarrow>
     program_active table readings p"
| by_function: "own_active readings p \<Longrightarrow> ac_target_kind (pr_activation p) = 2 \<Longrightarrow> master_active table readings p m \<Longrightarrow>
     program_active table readings m \<Longrightarrow> program_active table readings p"

inductive_cases program_active_cases: "program_active table readings p"

text \<open>The same up to a height.\<close>

primrec active_within ::
    "(i32 \<Rightarrow> dmx_source_program option) \<Rightarrow> (i32 \<Rightarrow> u32 option) \<Rightarrow> nat \<Rightarrow> dmx_source_program \<Rightarrow> bool" where
  "active_within table readings 0 p \<longleftrightarrow> False"
| "active_within table readings (Suc h) p \<longleftrightarrow> own_active readings p \<and>
     (ac_target_kind (pr_activation p) = 0 \<or> (\<exists>m. master_active table readings p m \<and>
        (ac_target_kind (pr_activation p) = 2 \<longrightarrow> active_within table readings h m)))"

lemma active_within_Suc: "active_within table readings h p \<Longrightarrow> active_within table readings (Suc h) p"
proof (induction h arbitrary: p)
  case (Suc h)
  then show ?case by (auto simp del: active_within.simps simp: active_within.simps(2) [of table readings "Suc h"] active_within.simps(2) [of table readings h])
qed simp

lemma program_active_within: "program_active table readings p \<longleftrightarrow> (\<exists>h. active_within table readings h p)"
proof
  assume "program_active table readings p"
  then show "\<exists>h. active_within table readings h p"
  proof (induction rule: program_active.induct)
    case (unconditional p)
    then have "active_within table readings (Suc 0) p" by simp
    then show ?case by blast
  next
    case (by_channel p m)
    then have "active_within table readings (Suc 0) p" by auto
    then show ?case by blast
  next
    case (by_function p m)
    then obtain h where "active_within table readings h m" by blast
    then have "active_within table readings (Suc h) p" using by_function.hyps by auto
    then show ?case by blast
  qed
next
  assume "\<exists>h. active_within table readings h p"
  then obtain h where "active_within table readings h p" by blast
  then show "program_active table readings p"
  proof (induction h arbitrary: p)
    case (Suc h)
    consider "ac_target_kind (pr_activation p) = 0" | m where "ac_target_kind (pr_activation p) \<notin> {0, 2}" "master_active table readings p m"
      | m where "ac_target_kind (pr_activation p) = 2" "master_active table readings p m" "active_within table readings h m"
      using Suc.prems by auto
    then show ?case using Suc.prems Suc.IH by cases (auto intro: program_active.intros)
  qed simp
qed

lemma activation_within:
  "activation_is_active p programs readings depth =
     active_within (find_program programs) (find_reading readings) (Suc (length programs) - depth) p"
proof (induction p programs readings depth rule: activation_is_active.induct)
  case (1 p programs readings depth)
  show ?case
  proof (cases "depth > length programs")
    case True
    then have "Suc (length programs) - depth = 0" by simp
    then show ?thesis using True by (simp add: activation_is_active.simps [of p])
  next
    case False
    then have s: "Suc (length programs) - depth = Suc (length programs - depth)" by simp
    show ?thesis
    proof (cases "find_program programs (ac_master_program_id (pr_activation p))")
      case None
      then show ?thesis using False unfolding s
        by (auto simp: activation_is_active.simps [of p] own_active_def master_active_def Let_def)
    next
      case (Some m)
      note ih = 1 [OF False _ refl _ _ Some, simplified]
      show ?thesis using False Some ih unfolding s
        by (auto simp: activation_is_active.simps [of p] own_active_def master_active_def Let_def)
    qed
  qed
qed

text \<open>Heights above the number of programs add nothing: the programs active up to a height grow until they stop growing.\<close>

lemma active_within_length:
  assumes "p \<in> set programs"
  shows "active_within (find_program programs) readings (length programs) p \<longleftrightarrow> program_active (find_program programs) readings p"
proof -
  let ?table = "find_program programs"
  define F where "F h = {q \<in> set programs. active_within ?table readings h q}" for h
  have mono: "F h \<subseteq> F (Suc h)" for h using active_within_Suc by (auto simp: F_def simp del: active_within.simps)
  then have "mono F" by (simp add: mono_iff_le_Suc)
  have known: "m \<in> set programs" if "?table k = Some m" for k m
    using that by (auto simp: find_program_def find_Some_iff)
  have stable: "F (Suc h) = F (Suc (Suc h))" if "F h = F (Suc h)" for h
  proof -
    have same: "active_within ?table readings h m \<longleftrightarrow> active_within ?table readings (Suc h) m" if "m \<in> set programs" for m
      using \<open>F h = F (Suc h)\<close> that unfolding F_def by blast
    define level where "level rec q \<longleftrightarrow> own_active readings q \<and> (ac_target_kind (pr_activation q) = 0 \<or>
      (\<exists>m. master_active ?table readings q m \<and> (ac_target_kind (pr_activation q) = 2 \<longrightarrow> rec m)))" for rec q
    have "(\<exists>m. master_active ?table readings q m \<and> (k \<longrightarrow> active_within ?table readings h m)) \<longleftrightarrow>
        (\<exists>m. master_active ?table readings q m \<and> (k \<longrightarrow> active_within ?table readings (Suc h) m))" for q k
      using same known by (intro iff_exI) (auto simp: master_active_def simp del: active_within.simps)
    then have "level (active_within ?table readings h) q \<longleftrightarrow> level (active_within ?table readings (Suc h)) q" for q
      by (simp only: level_def)
    moreover have "active_within ?table readings (Suc n) q \<longleftrightarrow> level (active_within ?table readings n) q" for n q
      by (simp add: level_def)
    ultimately have "active_within ?table readings (Suc h) q \<longleftrightarrow> active_within ?table readings (Suc (Suc h)) q" for q
      by blast
    then show ?thesis unfolding F_def by blast
  qed
  have "range F \<subseteq> Pow (set programs)" by (auto simp: F_def)
  then have finite_range: "finite (range F)" by (rule finite_subset) simp
  have "F (card (set programs)) = (\<Union>h. F h)"
  proof (rule finite_mono_strict_prefix_implies_finite_fixpoint)
    show "\<exists>N. (\<forall>n\<le>N. \<forall>m\<le>N. m < n \<longrightarrow> F m \<subset> F n) \<and> (\<forall>n\<ge>N. F N = F n)"
      using finite_range \<open>mono F\<close> stable by (intro finite_mono_remains_stable_implies_strict_prefix) blast+
  qed (auto simp: F_def simp del: active_within.simps)
  moreover have "F (card (set programs)) \<subseteq> F (length programs)"
    using \<open>mono F\<close> card_length [of programs] by (rule monoD)
  ultimately have "(\<exists>h. p \<in> F h) \<longleftrightarrow> p \<in> F (length programs)" by blast
  then show ?thesis using assms by (simp add: F_def program_active_within)
qed

text \<open>The depth limit of the evaluator never cuts a chain of masters short, and a cyclic chain is never active: a source
  is active exactly when some finite chain of readings says so.\<close>

theorem gobo_activation_exact:
  "evaluate_gobo_source_activation key programs readings =
     (case find_program programs key of
        Some p \<Rightarrow> if program_active (find_program programs) (find_reading readings) p then find_reading readings key else None
      | None \<Rightarrow> None)"
proof (cases "find_program programs key")
  case (Some p)
  then have p: "p \<in> set programs" "pr_program_id p = key" by (auto simp: find_program_def find_Some_iff)
  have "activation_is_active p programs readings 0 \<longleftrightarrow> program_active (find_program programs) (find_reading readings) p"
    unfolding activation_within using active_within_length [OF p(1), of "find_reading readings"] active_within_Suc
    by (auto simp: program_active_within simp del: active_within.simps)
  then show ?thesis using Some p by (auto simp: evaluate_gobo_source_activation_def split: option.split)
qed (simp add: evaluate_gobo_source_activation_def)


subsection \<open>Activations of a scene\<close>

text \<open>A scene's programs by their ids, and whether one of them is active on a frame.\<close>

definition scene_table :: "(i32 \<Rightarrow> dmx_source_program option) \<Rightarrow> bool" where
  "scene_table table \<longleftrightarrow> (\<forall>k p. table k = Some p \<longrightarrow> pr_program_id p = k \<and> 0 < sint k)"

definition scene_readings :: "(i32 \<Rightarrow> dmx_source_program option) \<Rightarrow> (int \<Rightarrow> u8) \<Rightarrow> i32 \<Rightarrow> u32 option" where
  "scene_readings table f key = map_option (raw_of f) (table key)"

definition active_on :: "(i32 \<Rightarrow> dmx_source_program option) \<Rightarrow> (int \<Rightarrow> u8) \<Rightarrow> i32 \<Rightarrow> bool" where
  "active_on table f key \<longleftrightarrow> (\<exists>p. table key = Some p \<and> program_active table (scene_readings table f) p)"

text \<open>A chain is closed: the master of each of its programs is in it, or none can have its id.\<close>

definition closed_chain :: "(i32 \<Rightarrow> dmx_source_program option) \<Rightarrow> i32 set \<Rightarrow> bool" where
  "closed_chain table K \<longleftrightarrow> (\<forall>k\<in>K. \<exists>p. table k = Some p \<and> (sint (next_dependency p) \<le> 0 \<or> next_dependency p \<in> K))"

lemma gobo_dependencies_chain:
  assumes "gobo_dependencies table universe key ids offsets = Some (ids', offsets')"
    and "\<forall>k\<in>set ids. \<exists>p. table k = Some p \<and> (sint (next_dependency p) \<le> 0 \<or> next_dependency p \<in> insert key (set ids))"
    and "\<forall>k\<in>set ids. bs_address ` set (pr_sources (the (table k))) \<subseteq> set offsets"
  shows "closed_chain table (set ids') \<and> (\<exists>ks. ids' = ids @ ks \<and> (0 < sint key \<and> key \<notin> set ids \<longrightarrow> ks \<noteq> [] \<and> hd ks = key)) \<and>
    (\<forall>k\<in>set ids'. bs_address ` set (pr_sources (the (table k))) \<subseteq> set offsets')"
  using assms
proof (induction table universe key ids offsets rule: gobo_dependencies.induct)
  case (1 table universe key ids offsets)
  show ?case
  proof (cases "sint key \<le> 0 \<or> key \<in> set ids")
    case True
    then have "ids' = ids" "offsets' = offsets" using "1.prems"(1) by (auto simp: gobo_dependencies.simps [of table])
    then show ?thesis using True "1.prems"(2,3) by (auto simp: closed_chain_def)
  next
    case False
    then obtain p where p: "table key = Some p" "\<not> (\<exists>s\<in>set (pr_sources p). bs_universe_id s \<noteq> universe)"
      and run: "gobo_dependencies table universe (next_dependency p) (ids @ [key]) (offsets @ map bs_address (pr_sources p)) = Some (ids', offsets')"
      using "1.prems"(1) by (auto simp: gobo_dependencies.simps [of table _ key] split: option.splits if_splits)
    have "closed_chain table (set ids') \<and> (\<exists>ks. ids' = (ids @ [key]) @ ks) \<and>
        (\<forall>k\<in>set ids'. bs_address ` set (pr_sources (the (table k))) \<subseteq> set offsets')"
    proof -
      have "\<forall>k\<in>set (ids @ [key]). \<exists>q. table k = Some q \<and>
          (sint (next_dependency q) \<le> 0 \<or> next_dependency q \<in> insert (next_dependency p) (set (ids @ [key])))"
        using "1.prems"(2) p(1) by auto
      moreover have "\<forall>k\<in>set (ids @ [key]). bs_address ` set (pr_sources (the (table k))) \<subseteq>
          set (offsets @ map bs_address (pr_sources p))"
        using "1.prems"(3) p(1) by auto
      ultimately show ?thesis using "1.IH" [OF False p run] by blast
    qed
    then show ?thesis using False by auto
  qed
qed

lemma program_active_cong:
  assumes "program_active table readings p" and "table (pr_program_id p) = Some p" and "pr_program_id p \<in> K"
    and "\<forall>k\<in>K. \<exists>p. table k = Some p \<and> pr_program_id p = k \<and> (sint (next_dependency p) \<le> 0 \<or> next_dependency p \<in> K)"
    and "\<forall>k\<in>K. table k = table' k \<and> readings k = readings' k" and "\<forall>k. sint k \<le> 0 \<longrightarrow> table k = None"
  shows "program_active table' readings' p"
proof -
  have own: "own_active readings' p \<longleftrightarrow> own_active readings p" if "pr_program_id p \<in> K" for p
    using assms(5) that by (simp add: own_active_def)
  have master: "m = m' \<and> master_active table' readings' p m' \<and> table (pr_program_id m) = Some m \<and> pr_program_id m \<in> K"
    if "master_active table readings p m" "ac_target_kind (pr_activation p) \<noteq> 0" "table (pr_program_id p) = Some p" "pr_program_id p \<in> K"
      "m' = m" for p m m'
  proof -
    have next_id: "next_dependency p = ac_master_program_id (pr_activation p)" using that(2) by (simp add: next_dependency_def)
    have m: "table (next_dependency p) = Some m" using that(1) by (simp add: master_active_def next_id)
    then have "next_dependency p \<in> K" using assms(4,6) that(3,4) by fastforce
    then show ?thesis using m assms(4,5) that(1,5) by (auto simp: master_active_def next_id)
  qed
  show ?thesis using assms(1-3)
  proof (induction rule: program_active.induct)
    case (unconditional p)
    then show ?case using own [of p] by (intro program_active.unconditional) simp_all
  next
    case (by_channel p m)
    then have "master_active table' readings' p m" using master [OF by_channel.hyps(3)] by simp
    then show ?case using own [of p] by_channel by (intro program_active.by_channel) simp_all
  next
    case (by_function p m)
    then have "master_active table' readings' p m \<and> table (pr_program_id m) = Some m \<and> pr_program_id m \<in> K"
      using master [OF by_function.hyps(3)] by simp
    then have m: "master_active table' readings' p m" "program_active table' readings' m" using by_function.IH by simp_all
    have "own_active readings' p" using own by_function.prems(2) by_function.hyps(1) by simp
    then show ?case using by_function.hyps(2) m by (rule program_active.by_function)
  qed
qed

lemma find_program_chain:
  assumes "\<forall>k\<in>set ids. \<exists>p. table k = Some p \<and> pr_program_id p = k"
  shows "find_program (map (\<lambda>k. the (table k)) ids) key = (if key \<in> set ids then table key else None)"
  using assms
proof (induction ids)
  case (Cons k ids)
  then obtain p where "table k = Some p" "pr_program_id p = k" by auto
  then show ?case using Cons.IH Cons.prems by (auto simp: find_program_def)
qed (simp add: find_program_def)

lemma find_reading_chain: "find_reading (map (\<lambda>k. (k, g k)) ids) key = (if key \<in> set ids then Some (g key) else None)"
  by (induction ids) (auto simp: find_reading_def)

text \<open>The chain of a source says what the scene says.\<close>

lemma chain_active:
  assumes "scene_table table" and "closed_chain table (set ids)" and "ids \<noteq> []"
  shows "evaluate_gobo_source_activation (hd ids) (map (\<lambda>k. the (table k)) ids) (map (\<lambda>k. (k, raw_of f (the (table k)))) ids) \<noteq> None
    \<longleftrightarrow> active_on table f (hd ids)"
proof -
  let ?defs = "find_program (map (\<lambda>k. the (table k)) ids)" and ?rs = "find_reading (map (\<lambda>k. (k, raw_of f (the (table k)))) ids)"
  have chain: "\<forall>k\<in>set ids. \<exists>p. table k = Some p \<and> pr_program_id p = k \<and> (sint (next_dependency p) \<le> 0 \<or> next_dependency p \<in> set ids)"
    using assms(1,2) unfolding closed_chain_def scene_table_def by blast
  then have defs: "?defs key = (if key \<in> set ids then table key else None)" for key by (intro find_program_chain) blast
  have rs: "?rs key = (if key \<in> set ids then Some (raw_of f (the (table key))) else None)" for key by (rule find_reading_chain)
  have same: "\<forall>k\<in>set ids. table k = ?defs k \<and> scene_readings table f k = ?rs k"
    using chain unfolding defs rs scene_readings_def by force
  have none: "\<forall>k. sint k \<le> 0 \<longrightarrow> table k = None"
    using assms(1) unfolding scene_table_def by (metis not_None_eq not_less)
  have head: "hd ids \<in> set ids" using assms(3) by simp
  then obtain p where p: "table (hd ids) = Some p" "pr_program_id p = hd ids" using chain by blast
  have "program_active table (scene_readings table f) p \<Longrightarrow> program_active ?defs ?rs p"
    by (rule program_active_cong [OF _ _ _ chain same none]) (use p head in simp_all)
  moreover have "program_active ?defs ?rs p \<Longrightarrow> program_active table (scene_readings table f) p"
  proof (rule program_active_cong [where K = "set ids"])
    show "\<forall>k\<in>set ids. \<exists>p. ?defs k = Some p \<and> pr_program_id p = k \<and> (sint (next_dependency p) \<le> 0 \<or> next_dependency p \<in> set ids)"
      unfolding defs using chain by simp
    show "\<forall>k\<in>set ids. ?defs k = table k \<and> ?rs k = scene_readings table f k" using same by simp
    show "\<forall>k. sint k \<le> 0 \<longrightarrow> ?defs k = None" unfolding defs using none by simp
    show "?defs (pr_program_id p) = Some p" unfolding defs using p head by simp
    show "pr_program_id p \<in> set ids" using p head by simp
  qed
  ultimately show ?thesis
    using p head by (auto simp: gobo_activation_exact defs rs active_on_def)
qed

lemma active_on_cong:
  assumes "scene_table table" and "closed_chain table (set ids)" and "ids \<noteq> []"
    and "\<forall>k\<in>set ids. raw_of f (the (table k)) = raw_of g (the (table k))"
  shows "active_on table f (hd ids) = active_on table g (hd ids)"
proof -
  have "map (\<lambda>k. (k, raw_of f (the (table k)))) ids = map (\<lambda>k. (k, raw_of g (the (table k)))) ids" using assms(4) by simp
  then show ?thesis using chain_active [OF assms(1-3), of f] chain_active [OF assms(1-3), of g] by argo
qed


subsection \<open>The cache of activations\<close>

definition activations_ok ::
    "(i32 \<Rightarrow> dmx_source_program option) \<Rightarrow> dmx_source_program list \<Rightarrow> universe_state \<Rightarrow> bool" where
  "activations_ok table programs un \<longleftrightarrow> (\<forall>i a. cache_activations (cache_of (un_plan un)) i = Some a \<longrightarrow>
     a = active_on table (remembered un) (pr_program_id (programs ! i)))"

text \<open>A context of the scene, for a source: the chain is closed, the handles are those of its programs, all of whose bytes
  are of interest, and the plan has a place for the result.\<close>

definition context_ok ::
    "(i32 \<Rightarrow> dmx_source_program option) \<Rightarrow> dmx_source_program list \<Rightarrow> int list \<Rightarrow> i32 \<Rightarrow> activation_context \<Rightarrow> bool" where
  "context_ok table programs interest key context \<longleftrightarrow>
     (let ids = xc_program_ids context; sources = xc_sources context
      in ids \<noteq> [] \<and> hd ids = key \<and> closed_chain table (set ids) \<and> xc_definitions context = map (\<lambda>k. the (table k)) ids \<and>
         length sources = length ids \<and>
         (\<forall>(k, i)\<in>set (zip ids sources). source_good interest programs i \<and> programs ! i = the (table k)))"

lemma evaluate_cached_source_plan:
  assumes "plan_ready programs calls (un_plan un)" and "workspace_ready (un_plan un) (plan_workspace (un_plan un))"
    and "evaluate_cached_source narrow i un = Some (v, un')"
  shows "cache_activations (cache_of (un_plan un')) = cache_activations (cache_of (un_plan un)) \<and>
    activation_slot j (un_plan un') = activation_slot j (un_plan un) \<and> un_last un' = un_last un"
proof (cases "needs_evaluation i (un_plan un) = Some True")
  case True
  then obtain w q source diags where q: "store_value i w (un_plan un) = Some q"
    and un': "un' = un\<lparr>un_plan := q, un_bindings := (un_bindings un)[i := source], un_diagnostics := diags\<rparr>"
    using assms(3) by (auto simp: evaluate_cached_source_def split: if_splits prod.splits)
  have "plan_step (Store i w) (un_plan un) = Some q" using q by (simp add: plan_step_def)
  then have "cache_activations (cache_of q) = cache_activations (cache_of (un_plan un))"
    using cache_step_refines [OF assms(1,2)] by (simp add: cache_step_def)
  moreover have "activation_slot j q = activation_slot j (un_plan un)"
    using q by (auto simp: store_value_def Let_def split: if_splits)
  ultimately show ?thesis by (simp add: un')
next
  case False
  then have "un' = un" using assms(3) by (auto simp: evaluate_cached_source_def split: option.splits bool.splits)
  then show ?thesis by simp
qed

text \<open>What a step of the evaluation keeps: the frame, the invariants, and the places of the results.\<close>

definition evaluating ::
    "(real \<Rightarrow> real) \<Rightarrow> (i32 \<Rightarrow> dmx_source_program option) \<Rightarrow> dmx_source_program list \<Rightarrow> consumer_call list \<Rightarrow> u8 list \<Rightarrow> int list \<Rightarrow>
      nat set \<Rightarrow> universe_state \<Rightarrow> bool" where
  "evaluating narrow table programs calls frame interest slots un \<longleftrightarrow>
     settled narrow programs calls frame interest un \<and> activations_ok table programs un \<and>
     (\<forall>i\<in>slots. activation_slot i (un_plan un) \<noteq> None)"

lemma evaluating_source:
  assumes "evaluating narrow table programs calls frame interest slots un" and "source_good interest programs i"
  shows "\<exists>un'. evaluate_cached_source narrow i un = Some (current_value narrow (byte_at frame) (programs ! i), un') \<and>
    evaluating narrow table programs calls frame interest slots un'"
proof -
  have s: "settled narrow programs calls frame interest un" using assms(1) by (simp add: evaluating_def)
  note ok = universe_okD [of narrow programs calls un]
  obtain un' where un': "evaluate_cached_source narrow i un = Some (current_value narrow (byte_at frame) (programs ! i), un')"
    "settled narrow programs calls frame interest un'"
    using settled_source [OF s assms(2)] by blast
  have p: "plan_ready programs calls (un_plan un)" "workspace_ready (un_plan un) (plan_workspace (un_plan un))"
    using s ok by (simp_all add: settled_def)
  note k = evaluate_cached_source_plan [OF p un'(1)]
  have "remembered un' = remembered un" using k by (simp add: remembered_def [abs_def])
  then show ?thesis using un' assms(1) k by (auto simp: evaluating_def activations_ok_def)
qed

lemma fill_gobo_context_ok:
  assumes "evaluating narrow table programs calls frame interest slots un"
    and "\<forall>(k, i)\<in>set inputs. source_good interest programs i \<and> programs ! i = the (table k)"
  shows "\<exists>un'. fill_gobo_context narrow inputs un = Some (map (\<lambda>(k, i). (k, raw_of (byte_at frame) (the (table k)))) inputs, un') \<and>
    evaluating narrow table programs calls frame interest slots un'"
  using assms
proof (induction inputs arbitrary: un)
  case (Cons x inputs)
  obtain k i where x: "x = (k, i)" by force
  obtain un1 where un1: "evaluate_cached_source narrow i un = Some (current_value narrow (byte_at frame) (programs ! i), un1)"
    "evaluating narrow table programs calls frame interest slots un1"
    using evaluating_source [OF Cons.prems(1), of i] Cons.prems(2) x by auto
  then show ?case using Cons.IH [OF un1(2)] Cons.prems(2) x by auto
qed simp

lemma remembered_active:
  assumes "evaluating narrow table programs calls frame interest slots un" and "scene_table table"
    and "context_ok table programs interest key context"
  shows "active_on table (remembered un) key \<longleftrightarrow> active_on table (byte_at frame) key"
proof -
  define ids where "ids = xc_program_ids context"
  have c: "closed_chain table (set ids)" "ids \<noteq> []" "hd ids = key" "length (xc_sources context) = length ids"
    "\<forall>(k, i)\<in>set (zip ids (xc_sources context)). source_good interest programs i \<and> programs ! i = the (table k)"
    using assms(3) by (simp_all add: context_ok_def ids_def Let_def)
  have same: "remembered un o' = byte_at frame o'" if "o' \<in> set interest" for o'
    using assms(1) that by (auto simp: evaluating_def settled_def universe_ok_def)
  have "raw_of (remembered un) (the (table k)) = raw_of (byte_at frame) (the (table k))" if k: "k \<in> set ids" for k
  proof -
    obtain j where j: "j < length ids" "ids ! j = k" using k by (auto simp: in_set_conv_nth)
    then have "(k, xc_sources context ! j) \<in> set (zip ids (xc_sources context))" using c(4) by (auto simp: in_set_zip)
    then have "covered interest (the (table k))" using c(5) by (auto simp: source_good_def)
    then show ?thesis using same by (intro raw_of_cong) (auto simp: covered_def)
  qed
  then show ?thesis using active_on_cong [OF assms(2) c(1,2), of "remembered un" "byte_at frame"] c(3) by simp
qed

lemma evaluate_cached_activation_ok:
  assumes "evaluating narrow table programs calls frame interest slots un" and "scene_table table"
    and "context_ok table programs interest key context" and "hd (xc_sources context) \<in> slots"
  shows "\<exists>un'. evaluate_cached_activation narrow context un = Some (active_on table (byte_at frame) key, un') \<and>
    evaluating narrow table programs calls frame interest slots un'"
proof -
  define ids where "ids = xc_program_ids context"
  have c: "closed_chain table (set ids)" "ids \<noteq> []" "hd ids = key" "length (xc_sources context) = length ids"
    "xc_definitions context = map (\<lambda>k. the (table k)) ids"
    "\<forall>(k, i)\<in>set (zip ids (xc_sources context)). source_good interest programs i \<and> programs ! i = the (table k)"
    using assms(3) by (simp_all add: context_ok_def ids_def Let_def)
  obtain s rest where s: "xc_sources context = s # rest" using c(2,4) by (cases "xc_sources context") auto
  obtain ks where ids: "ids = key # ks" using c(2,3) by (cases ids) auto
  have key: "source_good interest programs s" "programs ! s = the (table key)" using c(6) s ids by auto
  obtain p where p: "table key = Some p" using c(1) ids by (auto simp: closed_chain_def)
  then have id: "pr_program_id (programs ! s) = key" using assms(2) key(2) by (simp add: scene_table_def)
  have slot: "activation_slot s (un_plan u) \<noteq> None" if "evaluating narrow table programs calls frame interest slots u" for u
    using that assms(4) s by (simp add: evaluating_def)
  show ?thesis
  proof (cases "activation_cached s (un_plan un)")
    case True
    obtain a where a: "activation_value s (un_plan un) = Some a" using slot [OF assms(1)] by (auto simp: activation_value_def)
    then have "cache_activations (cache_of (un_plan un)) s = Some a" using True by (simp add: cache_of_def)
    moreover have "activations_ok table programs un" using assms(1) by (simp add: evaluating_def)
    ultimately have "a = active_on table (remembered un) key" unfolding activations_ok_def id [symmetric] by blast
    then have "a = active_on table (byte_at frame) key" using remembered_active [OF assms(1-3)] by simp
    then show ?thesis using True a assms(1) s by (simp add: evaluate_cached_activation_def)
  next
    case False
    let ?inputs = "zip ids (xc_sources context)" and ?a = "active_on table (byte_at frame) key"
    obtain un1 where un1: "fill_gobo_context narrow ?inputs un = Some (map (\<lambda>(k, i). (k, raw_of (byte_at frame) (the (table k)))) ?inputs, un1)"
      "evaluating narrow table programs calls frame interest slots un1"
      using fill_gobo_context_ok [OF assms(1) c(6)] by blast
    have readings: "map (\<lambda>(k, i). (k, raw_of (byte_at frame) (the (table k)))) ?inputs = map (\<lambda>k. (k, raw_of (byte_at frame) (the (table k)))) ids"
      using c(4) by (intro nth_equalityI) auto
    have result: "evaluate_gobo_source_activation key (xc_definitions context) (map (\<lambda>k. (k, raw_of (byte_at frame) (the (table k)))) ids) \<noteq> None
        \<longleftrightarrow> ?a"
      using chain_active [OF assms(2) c(1,2), of "byte_at frame"] c(3,5) by simp
    obtain q where q: "store_activation s ?a (un_plan un1) = Some q"
      using slot [OF un1(2)] by (auto simp: store_activation_def)
    define un2 where "un2 = un1\<lparr>un_plan := q\<rparr>"
    have set1: "settled narrow programs calls frame interest un1" using un1(2) by (simp add: evaluating_def)
    then have ok1: "universe_ok narrow programs calls un1" by (simp add: settled_def)
    note d = universe_okD [OF ok1]
    have step: "plan_step (Activate s ?a) (un_plan un1) = Some q" using q by (simp add: plan_step_def)
    have cache: "cache_values (cache_of q) = cache_values (cache_of (un_plan un1))"
      "cache_activations (cache_of q) = (cache_activations (cache_of (un_plan un1)))(s \<mapsto> ?a)"
      using cache_step_refines [OF d(1,2) step] by (simp_all add: cache_step_def)
    have rem: "remembered un2 = remembered un1" by (simp add: remembered_def [abs_def] un2_def)
    have "universe_ok narrow programs calls un2"
      unfolding universe_ok_def rem using ok1 plan_step_ready [OF d(1,2) step] cache(1)
      by (simp add: un2_def universe_ok_def)
    then have set2: "settled narrow programs calls frame interest un2" using set1 by (simp add: settled_def un2_def)
    have "active_on table (remembered un1) key = ?a" by (rule remembered_active [OF un1(2) assms(2,3)])
    then have acts: "activations_ok table programs un2"
      using un1(2) cache(2) id unfolding evaluating_def activations_ok_def rem by (simp add: un2_def)
    have "activation_slot j q = activation_slot j (un_plan un1)" for j
      using q by (auto simp: store_activation_def)
    then have "evaluating narrow table programs calls frame interest slots un2"
      using set2 acts un1(2) by (simp add: evaluating_def un2_def)
    moreover have "evaluate_cached_activation narrow context un = Some (?a, un2)"
      using False s un1(1) [unfolded readings] q result
      by (simp add: evaluate_cached_activation_def Let_def c(3) un2_def flip: ids_def)
    ultimately show ?thesis by blast
  qed
qed


subsection \<open>Compiled contexts\<close>

text \<open>Every source that a consumer follows with activation has a place for its result.\<close>

lemma add_edge_slot:
  assumes "building_ok programs p"
  shows "activation_slot i (add_edge a k s p) \<noteq> None \<longleftrightarrow> activation_slot i p \<noteq> None \<or> a \<and> i = s \<and> s < length programs"
proof -
  have n: "length (plan_sources p) = length programs" using assms by (simp add: building_ok_def nodes_ok_def)
  show ?thesis
  proof (cases "a \<and> s < length (plan_sources p) \<and> node_activation_slot (plan_sources p ! s) = None")
    case True
    then show ?thesis using n by (simp add: add_edge_alt Let_def activation_slot_give)
  next
    case False
    have "activation_slot s p \<noteq> None" if "a" "s < length programs" using False that n by (simp add: activation_slot_def)
    then show ?thesis unfolding add_edge_alt Let_def if_not_P [OF False] by auto
  qed
qed

lemma add_edges_slot:
  "building_ok programs p \<Longrightarrow> activation_slot i (fold (add_edge a k) ss p) \<noteq> None \<longleftrightarrow>
     activation_slot i p \<noteq> None \<or> a \<and> i \<in> set ss \<and> i < length programs"
proof (induction ss arbitrary: p)
  case (Cons s ss)
  have "building_ok programs (add_edge a k s p)" using add_edge_ok [OF Cons.prems] by blast
  then show ?case using Cons.IH add_edge_slot [OF Cons.prems, of i a k s] by auto
qed simp

lemma add_call_slot:
  assumes "building_ok programs p"
  shows "building_ok programs (add_call call p) \<and> (activation_slot i (add_call call p) \<noteq> None \<longleftrightarrow>
    activation_slot i p \<noteq> None \<or> call_activation call \<and> i \<in> set (call_sources call) \<and> i < length programs)"
proof -
  let ?p = "p\<lparr>plan_consumers := plan_consumers p @ [consumer_of call]\<rparr>"
  have p: "building_ok programs ?p" using assms by (simp add: building_ok_def nodes_ok_def slots_ok_def)
  have "add_call call p = fold (add_edge (call_activation call) (length (plan_consumers p))) (call_sources call) ?p"
    by (simp add: add_call_def add_consumer_def Let_def consumer_of_def)
  then show ?thesis
    using add_edges_ok [OF p, of "call_activation call" "length (plan_consumers p)" "call_sources call"]
      add_edges_slot [OF p, of i "call_activation call" "length (plan_consumers p)" "call_sources call"] by simp
qed

lemma add_calls_slot:
  "building_ok programs p \<Longrightarrow> building_ok programs (fold add_call calls p) \<and> (activation_slot i (fold add_call calls p) \<noteq> None \<longleftrightarrow>
     activation_slot i p \<noteq> None \<or> (\<exists>call\<in>set calls. call_activation call \<and> i \<in> set (call_sources call)) \<and> i < length programs)"
proof (induction calls arbitrary: p)
  case (Cons call calls)
  show ?case using Cons.IH [of "add_call call p"] add_call_slot [OF Cons.prems, of call i] by auto
qed simp

lemma build_slot:
  assumes "call \<in> set calls" and "call_activation call" and "i \<in> set (call_sources call)" and "i < length programs"
  shows "activation_slot i (build programs diags calls) \<noteq> None"
proof -
  let ?p = "fold add_call calls (fst (install programs diags empty_plan))"
  have p: "building_ok programs ?p" "activation_slot i ?p \<noteq> None"
    using add_calls_slot [OF installed_ok [of programs diags empty_plan], of calls i] assms by auto
  then have "activation_slot i (finish_install ?p) = activation_slot i ?p"
    by (simp add: activation_slot_def finished(1) [OF p(1) refl] frozen_def building_ok_def nodes_ok_def)
  then show ?thesis using p(2) by (simp add: build_def)
qed

lemma installed_index:
  assumes "distinct (map pr_program_id programs)" and "i < length programs"
  shows "source_index (pr_program_id (programs ! i)) (fst (install programs diags p0)) = i"
proof -
  have "program_index programs (pr_program_id (programs ! i)) = Some i"
    unfolding program_index_def using assms by (intro map_of_is_SomeI) (auto simp: in_set_zip intro!: exI [of _ i])
  then show ?thesis by (simp add: source_index_def installed)
qed

text \<open>What \<open>compile_evaluation_plans\<close> makes of the chain that the installation found for a source: all programs of the chain are
  sources of the universe, their bytes are of interest, and a consumer follows the source with activation.\<close>

definition compiled_context ::
    "(i32 \<Rightarrow> dmx_source_program option) \<Rightarrow> dmx_source_program list \<Rightarrow> runtime_diagnostic list \<Rightarrow> consumer_call list \<Rightarrow> int list \<Rightarrow> i32 \<Rightarrow>
      i32 \<Rightarrow> activation_context \<Rightarrow> bool" where
  "compiled_context table programs diags calls interest universe key context \<longleftrightarrow> 0 < sint key \<and> pr_sources (the (table key)) \<noteq> [] \<and>
     (case gobo_dependencies table universe key [] [] of
        None \<Rightarrow> False
      | Some (ids, offsets) \<Rightarrow>
          context = prepare_context table (fst (install programs diags empty_plan)) ids \<and>
          set ids \<subseteq> pr_program_id ` set programs \<and> sint ` set offsets \<subseteq> set interest \<and>
          (\<exists>call\<in>set calls. call_activation call \<and> hd (xc_sources context) \<in> set (call_sources call)))"

lemma compiled_context_ok:
  assumes "compiled_context table programs diags calls interest universe key context" and "scene_table table"
    and "\<forall>p\<in>set programs. table (pr_program_id p) = Some p" and "distinct (map pr_program_id programs)"
  shows "context_ok table programs interest key context \<and> interest \<noteq> [] \<and>
    activation_slot (hd (xc_sources context)) (build programs diags calls) \<noteq> None"
proof -
  obtain ids offsets where run: "gobo_dependencies table universe key [] [] = Some (ids, offsets)"
    using assms(1) by (auto simp: compiled_context_def split: option.splits)
  define plan where "plan = fst (install programs diags empty_plan)"
  have c: "0 < sint key" "pr_sources (the (table key)) \<noteq> []" "context = prepare_context table plan ids" "set ids \<subseteq> pr_program_id ` set programs"
    "sint ` set offsets \<subseteq> set interest" "\<exists>call\<in>set calls. call_activation call \<and> hd (xc_sources context) \<in> set (call_sources call)"
    using assms(1) run by (auto simp: compiled_context_def plan_def)
  have "closed_chain table (set ids) \<and> (\<exists>ks. ids = [] @ ks \<and> (0 < sint key \<and> key \<notin> set [] \<longrightarrow> ks \<noteq> [] \<and> hd ks = key)) \<and>
      (\<forall>k\<in>set ids. bs_address ` set (pr_sources (the (table k))) \<subseteq> set offsets)"
    using gobo_dependencies_chain [OF run] by simp
  then have chain: "closed_chain table (set ids)" "ids \<noteq> []" "hd ids = key"
    "\<forall>k\<in>set ids. bs_address ` set (pr_sources (the (table k))) \<subseteq> set offsets" using c(1) by auto
  have source: "source_good interest programs (source_index k plan) \<and> programs ! source_index k plan = the (table k)" if k: "k \<in> set ids" for k
  proof -
    obtain i where i: "i < length programs" "pr_program_id (programs ! i) = k" 
      using c(4) k by (fastforce simp: in_set_conv_nth)
    then have index: "source_index k plan = i" using installed_index [OF assms(4) i(1)] by (simp add: plan_def)
    have p: "table k = Some (programs ! i)" using assms(3) i by auto
    then have "covered interest (programs ! i)" using chain(4) c(5) k by (fastforce simp: covered_def)
    then show ?thesis using index p i(1) by (simp add: source_good_def)
  qed
  obtain k ks where ids: "ids = k # ks" using chain(2) by (cases ids) auto
  have head: "hd (xc_sources context) = source_index k plan" by (simp add: c(3) prepare_context_def ids)
  have "\<forall>(k, i)\<in>set (zip ids (map (\<lambda>k. source_index k plan) ids)). source_good interest programs i \<and> programs ! i = the (table k)"
    using source by (auto simp: in_set_zip)
  then have "context_ok table programs interest key context"
    using chain by (simp add: context_ok_def c(3) prepare_context_def Let_def)
  moreover have "source_index k plan < length programs" using source [of k] ids by (simp add: source_good_def)
  then have "activation_slot (hd (xc_sources context)) (build programs diags calls) \<noteq> None"
    using c(6) build_slot unfolding head by blast
  moreover have "interest \<noteq> []" using chain c(2,5) by (cases "pr_sources (the (table key))") (auto dest!: bspec [of _ _ key])
  ultimately show ?thesis by blast
qed


subsection \<open>Sessions\<close>

text \<open>What one consumed frame evaluates, source by source and context by context, and the frames of a session.\<close>

datatype evaluation = OfSource nat | OfActivation activation_context
datatype frame_event = Arrives "u8 list" | Consumes "evaluation list"

fun evaluations :: "(real \<Rightarrow> real) \<Rightarrow> evaluation list \<Rightarrow> universe_state \<Rightarrow> universe_state option" where
  "evaluations narrow [] un = Some un"
| "evaluations narrow (OfSource i # es) un =
     (case evaluate_cached_source narrow i un of None \<Rightarrow> None | Some (v, un) \<Rightarrow> evaluations narrow es un)"
| "evaluations narrow (OfActivation c # es) un =
     (case evaluate_cached_activation narrow c un of None \<Rightarrow> None | Some (a, un) \<Rightarrow> evaluations narrow es un)"

fun frame_run :: "(real \<Rightarrow> real) \<Rightarrow> frame_event list \<Rightarrow> universe_state \<Rightarrow> universe_state option" where
  "frame_run narrow [] un = Some un"
| "frame_run narrow (Arrives bytes # es) un = frame_run narrow es (submit_frame bytes un)"
| "frame_run narrow (Consumes evs # es) un =
     (case take_frame un of
        None \<Rightarrow> None
      | Some (evaluate, un) \<Rightarrow>
          (case (if evaluate then evaluations narrow evs un else Some un) of None \<Rightarrow> None | Some un \<Rightarrow> frame_run narrow es un))"

lemma frame_run_append:
  "frame_run narrow (es @ fs) un = (case frame_run narrow es un of None \<Rightarrow> None | Some un \<Rightarrow> frame_run narrow fs un)"
  by (induction narrow es un rule: frame_run.induct) (auto split: option.split)

text \<open>The evaluations that the code can ask for.\<close>

definition evaluation_good ::
    "(i32 \<Rightarrow> dmx_source_program option) \<Rightarrow> dmx_source_program list \<Rightarrow> int list \<Rightarrow> nat set \<Rightarrow> evaluation \<Rightarrow> bool" where
  "evaluation_good table programs interest slots e \<longleftrightarrow>
     (case e of
        OfSource i \<Rightarrow> source_good interest programs i
      | OfActivation c \<Rightarrow> (\<exists>key. context_ok table programs interest key c) \<and> hd (xc_sources c) \<in> slots)"

lemma evaluations_ok:
  assumes "evaluating narrow table programs calls frame interest slots un" and "scene_table table"
    and "\<forall>e\<in>set es. evaluation_good table programs interest slots e"
  shows "\<exists>un'. evaluations narrow es un = Some un' \<and> evaluating narrow table programs calls frame interest slots un'"
  using assms(1,3)
proof (induction es arbitrary: un)
  case (Cons e es)
  show ?case
  proof (cases e)
    case (OfSource i)
    then obtain un1 where "evaluate_cached_source narrow i un = Some (current_value narrow (byte_at frame) (programs ! i), un1)"
      "evaluating narrow table programs calls frame interest slots un1"
      using evaluating_source [OF Cons.prems(1), of i] Cons.prems(2) by (auto simp: evaluation_good_def)
    then show ?thesis using Cons.IH [of un1] Cons.prems(2) OfSource by simp
  next
    case (OfActivation c)
    then obtain key where "context_ok table programs interest key c" "hd (xc_sources c) \<in> slots"
      using Cons.prems(2) by (auto simp: evaluation_good_def)
    then obtain un1 where "evaluate_cached_activation narrow c un = Some (active_on table (byte_at frame) key, un1)"
      "evaluating narrow table programs calls frame interest slots un1"
      using evaluate_cached_activation_ok [OF Cons.prems(1) assms(2)] by blast
    then show ?thesis using Cons.IH [of un1] Cons.prems(2) OfActivation by simp
  qed
qed simp

text \<open>Between the frames of a session.\<close>

definition session_ok ::
    "(real \<Rightarrow> real) \<Rightarrow> (i32 \<Rightarrow> dmx_source_program option) \<Rightarrow> dmx_source_program list \<Rightarrow> consumer_call list \<Rightarrow> int list \<Rightarrow>
      nat set \<Rightarrow> universe_state \<Rightarrow> bool" where
  "session_ok narrow table programs calls interest slots un \<longleftrightarrow>
     universe_ok narrow programs calls un \<and> un_interest un = interest \<and> (un_has_last un \<longrightarrow> activations_ok table programs un) \<and>
     (\<forall>i\<in>slots. activation_slot i (un_plan un) \<noteq> None)"

lemma scan_unchanged:
  "scan_interest frame known offsets (changed, bytes) = Some (changed', bytes') \<Longrightarrow>
     \<exists>new. changed' = changed @ new \<and> (new = [] \<longrightarrow> bytes' = bytes)"
proof (induction offsets arbitrary: changed bytes)
  case (Cons j js)
  show ?case
  proof (cases "\<not> known \<or> bytes ! nat j \<noteq> byte_at frame j")
    case True
    then show ?thesis using Cons.IH [of "changed @ [j]"] Cons.prems by (auto split: if_splits)
  next
    case False
    then show ?thesis using Cons.IH [of changed bytes] Cons.prems by (auto split: if_splits)
  qed
qed simp

lemma take_frame_activations:
  assumes "session_ok narrow table programs calls interest slots un" and "un_pending un" and "interest \<noteq> []"
  shows "\<exists>evaluate un'. take_frame un = Some (evaluate, un') \<and> evaluating narrow table programs calls (un_latest un) interest slots un'"
proof -
  have ok: "universe_ok narrow programs calls un" using assms(1) by (simp add: session_ok_def)
  obtain evaluate un' where t: "take_frame un = Some (evaluate, un')" and s: "settled narrow programs calls (un_latest un) interest un'"
    using take_frame_ok [OF ok assms(2)] assms(1) by (auto simp: settled_def session_ok_def)
  note d = universe_okD [OF ok]
  obtain changed bytes where scan: "scan_interest (un_latest un) (un_has_last un) (un_interest un) ([], un_last un) = Some (changed, bytes)"
    using t assms(2) by (auto simp: take_frame_def split: option.splits)
  define un1 where "un1 = un\<lparr>un_pending := False, un_changed := changed, un_last := bytes, un_has_last := True\<rparr>"
  have un': "un' = (if changed = [] then un1 else un1\<lparr>un_plan := begin_update changed (un_plan un)\<rparr>)"
    using t assms(2) scan by (auto simp: take_frame_def un1_def Let_def split: if_splits)
  have "activation_slot i (begin_update changed (un_plan un)) = activation_slot i (un_plan un)" for i
    by (simp add: begin_update_def Let_def)
  then have slots: "\<forall>i\<in>slots. activation_slot i (un_plan un') \<noteq> None"
    using assms(1) unfolding session_ok_def un' by (simp add: un1_def)
  have "activations_ok table programs un'"
  proof (cases "changed = []")
    case True
    have "set changed = {k \<in> set interest. differs (un_latest un) (un_has_last un) (un_last un) k}"
      using scan_interest_Some [OF scan d(4)] assms(1) by (simp add: session_ok_def)
    then have "un_has_last un" using True assms(3) by (cases interest) (auto simp: differs_def)
    have "bytes = un_last un" using scan_unchanged [OF scan] True by simp
    then have "remembered un' = remembered un" "un_plan un' = un_plan un" using True by (simp_all add: un' un1_def remembered_def [abs_def])
    then show ?thesis using assms(1) \<open>un_has_last un\<close> by (simp add: session_ok_def activations_ok_def)
  next
    case False
    then have "cache_activations (cache_of (un_plan un')) = Map.empty"
      using cache_update [OF d(1,2), of changed] by (simp add: un' cache_step_def Let_def)
    then show ?thesis by (simp add: activations_ok_def)
  qed
  then show ?thesis using t s slots by (auto simp: evaluating_def)
qed

lemma evaluating_session:
  "evaluating narrow table programs calls frame interest slots un \<Longrightarrow> session_ok narrow table programs calls interest slots un"
  by (simp add: evaluating_def session_ok_def settled_def)

lemma frame_run_ok:
  assumes "session_ok narrow table programs calls interest slots un" and "scene_table table" and "interest \<noteq> []"
    and "\<forall>evs. Consumes evs \<in> set es \<longrightarrow> (\<forall>e\<in>set evs. evaluation_good table programs interest slots e)"
  shows "\<exists>un'. frame_run narrow es un = Some un' \<and> session_ok narrow table programs calls interest slots un'"
  using assms(1,4)
proof (induction es arbitrary: un)
  case (Cons e es)
  show ?case
  proof (cases e)
    case (Arrives bytes)
    have "session_ok narrow table programs calls interest slots (submit_frame bytes un)"
      using Cons.prems(1) submit_frame_ok
      by (simp add: session_ok_def activations_ok_def) (simp add: submit_frame_def remembered_def [abs_def])
    then show ?thesis using Cons.IH Cons.prems(2) Arrives by simp
  next
    case (Consumes evs)
    show ?thesis
    proof (cases "un_pending un")
      case False
      then show ?thesis using Cons.IH [OF Cons.prems(1)] Cons.prems(2) Consumes by (simp add: take_frame_def)
    next
      case True
      obtain b un1 where t: "take_frame un = Some (b, un1)" "evaluating narrow table programs calls (un_latest un) interest slots un1"
        using take_frame_activations [OF Cons.prems(1) True assms(3)] by blast
      have evs: "\<forall>e\<in>set evs. evaluation_good table programs interest slots e" using Cons.prems(2) Consumes by simp
      obtain un2 where "evaluations narrow evs un1 = Some un2" "evaluating narrow table programs calls (un_latest un) interest slots un2"
        using evaluations_ok [OF t(2) assms(2) evs] by blast
      then show ?thesis
        using Cons.IH [of un1] Cons.IH [of un2] evaluating_session t Cons.prems(2) Consumes by (cases b) simp_all
    qed
  qed
qed simp

definition asks :: "(activation_context \<Rightarrow> bool) \<Rightarrow> int list \<Rightarrow> dmx_source_program list \<Rightarrow> frame_event \<Rightarrow> bool" where
  "asks compiled interest programs e \<longleftrightarrow>
     (case e of
        Arrives bytes \<Rightarrow> True
      | Consumes evs \<Rightarrow> (\<forall>x\<in>set evs. case x of OfSource i \<Rightarrow> source_good interest programs i | OfActivation c \<Rightarrow> compiled c))"

text \<open>C5: What the runtime believes active is active. Whatever frames have arrived, and whatever sources and activations were
  evaluated on them, once the latest frame is taken the cached evaluation of a gobo or shutter function says exactly whether
  some finite chain of ModeMasters of the whole scene says so on that frame: no result outlives the frame it is of, the
  context's chain leaves nothing out, and the depth limit cuts nothing short.\<close>

theorem activations_are_current:
  assumes "scene_table table" and "set interest \<subseteq> {0..<512}" and "ps = map (\<lambda>p. in_program (installed_program p)) programs"
    and "\<forall>p\<in>set ps. table (pr_program_id p) = Some p" and "distinct (map pr_program_id ps)"
    and "compiled = (\<lambda>c. \<exists>universe key. compiled_context table ps diags calls interest universe key c)"
    and "\<forall>e\<in>set (es @ [Consumes evs]). asks compiled interest ps e"
    and "compiled_context table ps diags calls interest universe key context"
  shows "\<exists>un un'. frame_run narrow (es @ [Arrives bytes, Consumes evs]) (installed_universe programs diags calls interest) = Some un \<and>
    evaluate_cached_activation narrow context un = Some (active_on table (byte_at (take 512 bytes)) key, un')"
proof -
  let ?start = "installed_universe programs diags calls interest"
  define slots where "slots = {i. activation_slot i (build ps diags calls) \<noteq> None}"
  have plan: "un_plan ?start = build ps diags calls" "un_interest ?start = interest"
    by (simp_all add: installed_universe_def Let_def assms(3) comp_def)
  have interest: "interest \<noteq> []" using compiled_context_ok [OF assms(8,1,4,5)] by simp
  have "\<not> un_has_last ?start" by (simp add: installed_universe_def Let_def)
  then have start: "session_ok narrow table ps calls interest slots ?start"
    using installed_universe_ok [OF assms(2), of narrow programs calls diags] by (simp add: session_ok_def plan slots_def assms(3))
  have good: "\<forall>x\<in>set xs. evaluation_good table ps interest slots x" if ask: "asks compiled interest ps (Consumes xs)" for xs
  proof
    fix x assume x: "x \<in> set xs"
    show "evaluation_good table ps interest slots x"
    proof (cases x)
      case (OfSource i)
      then show ?thesis using ask x by (auto simp: asks_def evaluation_good_def)
    next
      case (OfActivation c)
      then obtain universe key where "compiled_context table ps diags calls interest universe key c"
        using ask x unfolding asks_def assms(6) by fastforce
      then have "context_ok table ps interest key c \<and> hd (xc_sources c) \<in> slots"
        using compiled_context_ok [OF _ assms(1,4,5)] by (simp add: slots_def)
      then show ?thesis using OfActivation by (auto simp: evaluation_good_def)
    qed
  qed
  obtain un1 where un1: "frame_run narrow es ?start = Some un1" "session_ok narrow table ps calls interest slots un1"
    using frame_run_ok [OF start assms(1) interest, of es] good assms(7) by auto
  define un2 where "un2 = submit_frame bytes un1"
  have "frame_run narrow [Arrives bytes] un1 = Some un2" by (simp add: un2_def)
  then have un2: "session_ok narrow table ps calls interest slots un2" "un_pending un2" "un_latest un2 = take 512 bytes"
    using frame_run_ok [OF un1(2) assms(1) interest, of "[Arrives bytes]"] by (auto simp: un2_def submit_frame_def)
  obtain b un3 where t: "take_frame un2 = Some (b, un3)" "evaluating narrow table ps calls (take 512 bytes) interest slots un3"
    using take_frame_activations [OF un2(1,2) interest] un2(3) by auto
  obtain un where un: "(if b then evaluations narrow evs un3 else Some un3) = Some un"
    "evaluating narrow table ps calls (take 512 bytes) interest slots un"
    using evaluations_ok [OF t(2) assms(1), of evs] good [of evs] assms(7) t(2) by (cases b) auto
  have "frame_run narrow (es @ [Arrives bytes, Consumes evs]) ?start = Some un"
    using un1(1) t(1) un(1) by (simp add: frame_run_append un2_def)
  then show ?thesis
    using evaluate_cached_activation_ok [OF un(2) assms(1)] compiled_context_ok [OF assms(8,1,4,5)] by (fastforce simp: slots_def)
qed


text \<open>A gobo function on the second byte that is active while the first is in the upper part of its range.\<close>

definition mode_channel :: dmx_source_program where
  "mode_channel = blank_program\<lparr>pr_program_id := 1, pr_sources := [\<lparr>bs_universe_id = 0, bs_address = 0, bs_byte_order = 0\<rparr>]\<rparr>"

definition gobo_function :: dmx_source_program where
  "gobo_function = blank_program\<lparr>pr_program_id := 2, pr_sources := [\<lparr>bs_universe_id = 0, bs_address = 1, bs_byte_order = 0\<rparr>],
     pr_activation := blank_activation\<lparr>ac_target_kind := 2, ac_master_program_id := 1, ac_from := 100, ac_to := 255\<rparr>\<rparr>"

definition gobo_table :: "i32 \<Rightarrow> dmx_source_program option" where
  "gobo_table = [1 \<mapsto> mode_channel, 2 \<mapsto> gobo_function]"

definition gobo_call :: consumer_call where
  "gobo_call = \<lparr>call_domain = GoboSelectionDomain, call_index = 0, call_target = 7, call_sources = [1], call_activation = True\<rparr>"

definition gobo_context :: activation_context where
  "gobo_context = \<lparr>xc_program_ids = [2, 1], xc_definitions = [gobo_function, mode_channel], xc_sources = [1, 0]\<rparr>"

lemmas gobo_sample = mode_channel_def gobo_function_def gobo_table_def blank_program_def blank_activation_def

lemma gobo_fields [simp]:
  "gobo_table 1 = Some mode_channel" "gobo_table 2 = Some gobo_function" "pr_program_id mode_channel = 1" "pr_program_id gobo_function = 2"
  "pr_sources mode_channel = [\<lparr>bs_universe_id = 0, bs_address = 0, bs_byte_order = 0\<rparr>]"
  "pr_sources gobo_function = [\<lparr>bs_universe_id = 0, bs_address = 1, bs_byte_order = 0\<rparr>]"
  "next_dependency mode_channel = 0" "next_dependency gobo_function = 1"
  by (simp_all add: gobo_sample next_dependency_def)

lemma gobo_installed: "map (\<lambda>p. in_program (installed_program p)) [mode_channel, gobo_function] = [mode_channel, gobo_function]"
  by (simp add: installed_program_def gobo_sample)

lemma gobo_chain: "gobo_dependencies gobo_table 0 2 [] [] = Some ([2, 1], [1, 0])"
  by (simp add: gobo_dependencies.simps [of gobo_table])

lemma gobo_compiled: "compiled_context gobo_table [mode_channel, gobo_function] [] [gobo_call] [0, 1] 0 2 gobo_context"
proof -
  have "source_index 2 (fst (install [mode_channel, gobo_function] [] empty_plan)) = 1"
    "source_index 1 (fst (install [mode_channel, gobo_function] [] empty_plan)) = 0"
    using installed_index [of "[mode_channel, gobo_function]" 1] installed_index [of "[mode_channel, gobo_function]" 0] by simp_all
  then have "gobo_context = prepare_context gobo_table (fst (install [mode_channel, gobo_function] [] empty_plan)) [2, 1]"
    by (simp add: gobo_context_def prepare_context_def)
  moreover have "pr_sources (the (gobo_table 2)) \<noteq> []" "set [2, 1] \<subseteq> pr_program_id ` set [mode_channel, gobo_function]"
    by simp_all
  moreover have "\<exists>call\<in>set [gobo_call]. call_activation call \<and> hd (xc_sources gobo_context) \<in> set (call_sources call)"
    by (simp add: gobo_call_def gobo_context_def)
  moreover have "0 < sint (2 :: i32)" "sint ` set [1, 0 :: i32] \<subseteq> set [0, 1]" by simp_all
  ultimately show ?thesis unfolding compiled_context_def gobo_chain option.case prod.case by (intro conjI)
qed

lemma gobo_active: "active_on gobo_table (byte_at [120, 0]) 2"
proof -
  let ?rs = "scene_readings gobo_table (byte_at [120, 0])"
  have raw: "raw_of (byte_at [120, 0]) mode_channel = 120" "raw_of (byte_at [120, 0]) gobo_function = 0"
    by (simp_all add: raw_of_def byte_at_def)
  have rs: "?rs 1 = Some 120" "?rs 2 = Some 0" by (simp_all add: scene_readings_def raw)
  have own: "own_active ?rs mode_channel" "own_active ?rs gobo_function"
    unfolding own_active_def gobo_fields rs reading_within_def by (simp_all add: mode_channel_def gobo_function_def blank_program_def blank_activation_def)
  have kinds: "ac_target_kind (pr_activation mode_channel) = 0" "ac_target_kind (pr_activation gobo_function) = 2"
    "ac_master_program_id (pr_activation gobo_function) = 1" "ac_from (pr_activation gobo_function) = 100" "ac_to (pr_activation gobo_function) = 255"
    by (simp_all add: mode_channel_def gobo_function_def blank_program_def blank_activation_def)
  have "master_active gobo_table ?rs gobo_function mode_channel"
    unfolding master_active_def kinds gobo_fields rs reading_within_def by simp
  then have "program_active gobo_table ?rs gobo_function"
    by (rule program_active.by_function [OF own(2) kinds(2) _ program_active.unconditional [OF own(1) kinds(1)]])
  then show ?thesis by (simp add: active_on_def)
qed

theorem activations_are_current_witness:
  "\<exists>un un'. frame_run id [Arrives [0, 0], Consumes [OfActivation gobo_context], Arrives [120, 0], Consumes []]
       (installed_universe [mode_channel, gobo_function] [] [gobo_call] [0, 1]) = Some un \<and>
     evaluate_cached_activation id gobo_context un = Some (True, un')"
proof -
  let ?ps = "[mode_channel, gobo_function]"
  let ?compiled = "\<lambda>c. \<exists>universe key. compiled_context gobo_table ?ps [] [gobo_call] [0, 1] universe key c"
  have table: "scene_table gobo_table" "\<forall>p\<in>set ?ps. gobo_table (pr_program_id p) = Some p" "distinct (map pr_program_id ?ps)"
    by (auto simp: scene_table_def gobo_table_def split: if_splits)
  have asked: "\<forall>e\<in>set ([Arrives [0, 0], Consumes [OfActivation gobo_context]] @ [Consumes []]). asks ?compiled [0, 1] ?ps e"
    using gobo_compiled by (auto simp: asks_def)
  have interest: "set [0, 1 :: int] \<subseteq> {0..<512}" by simp
  show ?thesis
    using activations_are_current [OF table(1) interest gobo_installed [symmetric] table(2,3) refl asked gobo_compiled, of id "[120, 0]"]
      gobo_active by simp
qed

end
