(* ===== verification/Shutter_Contract.thy ===== *)
theory Shutter_Contract
  imports Scene_Types Dense_State
begin

text \<open>
  The temporal behaviour of a shutter (\<open>gdtf_runtime/shutter_contract.h\<close>): its waveforms, the envelope at a time, the
  random flashes drawn from a counter, and the update of the parameters. Times and phases are reals; the flashes are
  computed in 64-bit words.

  The theorems: the envelope of a periodic waveform is its shape over the arc that ends at the offset; that of a random
  one is the brightest of all its flashes, of which the code looks at two; and an edit never makes a running waveform
  jump.
\<close>

subsection \<open>Waveforms\<close>

definition WaveUnsupported :: shutter_wave where "WaveUnsupported = - 1"
definition WaveOpen :: shutter_wave where "WaveOpen = 0"
definition WaveClosed :: shutter_wave where "WaveClosed = 1"
definition WaveStrobe :: shutter_wave where "WaveStrobe = 2"
definition WavePulse :: shutter_wave where "WavePulse = 3"
definition WavePulseOpen :: shutter_wave where "WavePulseOpen = 4"
definition WavePulseClose :: shutter_wave where "WavePulseClose = 5"
definition WaveDuration :: shutter_wave where "WaveDuration = 6"

lemmas wave_defs = WaveUnsupported_def WaveOpen_def WaveClosed_def WaveStrobe_def WavePulse_def WavePulseOpen_def
  WavePulseClose_def WaveDuration_def

record shutter_parameters =
  sh_wave :: shutter_wave
  sh_function_id :: i32
  sh_revision :: i32
  sh_status :: i32
  sh_frequency :: real
  sh_duration :: real
  sh_duty :: real
  sh_offset :: real
  sh_phase :: real
  sh_reference :: real
  sh_activation :: i32
  sh_seed :: u32

definition default_shutter :: shutter_parameters where
  "default_shutter = \<lparr>sh_wave = WaveOpen, sh_function_id = 0, sh_revision = 0, sh_status = 0, sh_frequency = 0,
     sh_duration = 25 / 1000, sh_duty = 1, sh_offset = 1, sh_phase = 0, sh_reference = 0, sh_activation = 0, sh_seed = 0\<rparr>"

definition shutter_fraction :: "real \<Rightarrow> real" where
  "shutter_fraction x = x - of_int \<lfloor>x\<rfloor>"

definition shutter_random :: "shutter_wave \<Rightarrow> bool" where
  "shutter_random wave \<longleftrightarrow> 9 \<le> sint wave \<and> sint wave \<le> 12"

definition shutter_periodic :: "shutter_wave \<Rightarrow> bool" where
  "shutter_periodic wave \<longleftrightarrow> 2 \<le> sint wave \<and> sint wave \<le> 5 \<or> shutter_random wave"

definition shutter_shape :: "shutter_wave \<Rightarrow> shutter_wave" where
  "shutter_shape wave = (if shutter_random wave then wave - 7 else wave)"

definition shutter_mix :: "u64 \<Rightarrow> u64" where
  "shutter_mix x0 =
     (let x1 = x0 + 0x9e3779b97f4a7c15;
          x2 = (x1 XOR drop_bit 30 x1) * 0xbf58476d1ce4e5b9;
          x3 = (x2 XOR drop_bit 27 x2) * 0x94d049bb133111eb
      in x3 XOR drop_bit 31 x3)"

definition shutter_event_start :: "shutter_parameters \<Rightarrow> int \<Rightarrow> real" where
  "shutter_event_start p index =
     (let key = shutter_mix (push_bit 32 (ucast (sh_seed p)) OR ucast (sh_activation p)) XOR shutter_mix (ucast (sh_function_id p));
          jitter = real (unat (drop_bit 11 (shutter_mix (key XOR word_of_int index)))) * (1 / 9007199254740992)
      in of_int index + 25 / 100 + 5 / 10 * jitter)"

definition shutter_shape_value :: "shutter_wave \<Rightarrow> real \<Rightarrow> real" where
  "shutter_shape_value wave x =
     (if wave = WavePulse then 1 - \<bar>2 * x - 1\<bar> else if wave = WavePulseOpen then x
      else if wave = WavePulseClose then 1 - x else 1)"

definition shutter_cycles :: "shutter_parameters \<Rightarrow> real \<Rightarrow> real" where
  "shutter_cycles p now = sh_phase p + max (now - sh_reference p) 0 * sh_frequency p"

definition shutter_width :: "shutter_parameters \<Rightarrow> real" where
  "shutter_width p =
     (let shape = shutter_shape (sh_wave p)
      in if shutter_random (sh_wave p) \<and> shape = WaveStrobe then max 0 (sh_duration p * sh_frequency p)
         else clamp (if shape = WaveStrobe then sh_duration p * sh_frequency p else sh_duty p) 0 1)"

definition random_event :: "shutter_parameters \<Rightarrow> shutter_wave \<Rightarrow> real \<Rightarrow> real \<Rightarrow> int \<Rightarrow> real \<Rightarrow> real" where
  "random_event p shape width position event envelope =
     (if event < 0 then envelope
      else let loc = position - shutter_event_start p event
           in if 0 \<le> loc \<and> loc < width then max envelope (shutter_shape_value shape (loc / width)) else envelope)"

definition random_envelope :: "shutter_parameters \<Rightarrow> shutter_wave \<Rightarrow> real \<Rightarrow> real \<Rightarrow> real" where
  "random_envelope p shape width cycles =
     (if shape = WaveStrobe \<and> width \<ge> 175 / 100 \<and> sh_offset p \<ge> 0 \<and> sh_offset p \<le> 1 then 1
      else let position = cycles - sh_offset p + width
           in if position < 0 \<or> position \<ge> 9223372036854775805 then 0
              else let index = \<lfloor>position\<rfloor>
                   in random_event p shape width position index (random_event p shape width position (index - 1) 0))"

definition shutter_envelope :: "shutter_parameters \<Rightarrow> real \<Rightarrow> real" where
  "shutter_envelope p now =
     (if sh_wave p = WaveClosed then 0
      else if \<not> shutter_periodic (sh_wave p) \<or> sh_frequency p \<le> 0 then 1
      else let cycles = shutter_cycles p now; shape = shutter_shape (sh_wave p); width = shutter_width p
           in if width \<le> 0 then 0
              else if shutter_random (sh_wave p) then random_envelope p shape width cycles
              else let loc = shutter_fraction (shutter_fraction cycles - (sh_offset p - width))
                   in if loc \<ge> width then 0 else shutter_shape_value shape (loc / width))"

text \<open>The held parameters afterwards, or \<^term>\<open>None\<close> where nothing changes.\<close>

definition update_shutter :: "shutter_parameters \<Rightarrow> shutter_parameters \<Rightarrow> real \<Rightarrow> shutter_parameters option" where
  "update_shutter held new_parameters now =
     (if sh_revision held \<noteq> 0 \<and> sh_function_id held = sh_function_id new_parameters \<and> sh_wave held = sh_wave new_parameters \<and>
         sh_frequency held = sh_frequency new_parameters \<and> sh_duration held = sh_duration new_parameters \<and>
         sh_duty held = sh_duty new_parameters \<and> sh_offset held = sh_offset new_parameters \<and> sh_status held = sh_status new_parameters
      then None
      else let continuing = (sh_revision held \<noteq> 0 \<and> sh_function_id held = sh_function_id new_parameters \<and>
                             sh_wave held = sh_wave new_parameters);
               accumulated = sh_phase held + max (now - sh_reference held) 0 * sh_frequency held
           in Some (new_parameters\<lparr>
                sh_phase := (if continuing then if shutter_random (sh_wave new_parameters) then accumulated else shutter_fraction accumulated else 0),
                sh_activation := (if continuing then sh_activation held else sh_revision held + 1),
                sh_reference := now, sh_revision := sh_revision held + 1\<rparr>))"

subsection \<open>Periodic waveforms\<close>

lemma shutter_fraction_bounds: "0 \<le> shutter_fraction x" "shutter_fraction x < 1"
  unfolding shutter_fraction_def by linarith+

lemma shutter_fraction_add_int: "shutter_fraction (x + of_int k) = shutter_fraction x"
  by (simp add: shutter_fraction_def)

lemma shutter_fraction_diff: "shutter_fraction (shutter_fraction c - a) = shutter_fraction (c - a)"
proof -
  have "shutter_fraction c - a = (c - a) + of_int (- \<lfloor>c\<rfloor>)" by (simp add: shutter_fraction_def)
  then show ?thesis by (simp only: shutter_fraction_add_int)
qed

lemma shutter_fraction_unique: "0 \<le> x - of_int k \<Longrightarrow> x - of_int k < 1 \<Longrightarrow> shutter_fraction x = x - of_int k"
  using floor_unique [of k x] by (simp add: shutter_fraction_def)

lemma shape_value_bounds: "0 \<le> x \<Longrightarrow> x \<le> 1 \<Longrightarrow> 0 \<le> shutter_shape_value shape x \<and> shutter_shape_value shape x \<le> 1"
  by (auto simp: shutter_shape_value_def)

text \<open>C34: A periodic waveform is its shape over an arc of the cycle. The envelope of a shutter that strobes or pulses without
  randomness is, while the cycle is in the arc of the flash - which ends at the offset, as GDTF has it - the shape at that
  place of the arc, and dark outside it.\<close>

theorem periodic_envelope_exact:
  assumes "shutter_periodic (sh_wave p)" and "\<not> shutter_random (sh_wave p)" and "0 < sh_frequency p"
    and "w = clamp (if sh_wave p = WaveStrobe then sh_duration p * sh_frequency p else sh_duty p) 0 1"
    and "x = (\<lambda>k. shutter_cycles p now - (sh_offset p - w + of_int k))"
  shows "(\<forall>k. 0 \<le> x k \<and> x k < w \<longrightarrow> shutter_envelope p now = shutter_shape_value (sh_wave p) (x k / w)) \<and>
    ((\<nexists>k. 0 \<le> x k \<and> x k < w) \<longrightarrow> shutter_envelope p now = 0)"
proof -
  have not_closed: "sh_wave p \<noteq> WaveClosed" using assms(1) by (auto simp: shutter_periodic_def shutter_random_def WaveClosed_def)
  have width: "shutter_width p = w" "shutter_shape (sh_wave p) = sh_wave p"
    using assms(2,4) by (simp_all add: shutter_width_def shutter_shape_def Let_def)
  define loc where "loc = shutter_fraction (shutter_cycles p now - (sh_offset p - w))"
  have envelope: "shutter_envelope p now = (if w \<le> 0 \<or> loc \<ge> w then 0 else shutter_shape_value (sh_wave p) (loc / w))"
    using assms(1-3) not_closed by (simp add: shutter_envelope_def Let_def width shutter_fraction_diff loc_def)
  have w: "0 \<le> w" "w \<le> 1" using assms(4) by (auto simp: clamp_def)
  have x: "x k = (shutter_cycles p now - (sh_offset p - w)) - of_int k" for k by (simp add: assms(5))
  have loc_x: "loc = x \<lfloor>shutter_cycles p now - (sh_offset p - w)\<rfloor>" by (simp add: x loc_def shutter_fraction_def)
  have "loc = x k" if "0 \<le> x k" "x k < w" for k
    using that w(2) unfolding x loc_def by (intro shutter_fraction_unique) auto
  moreover have "0 \<le> loc" using shutter_fraction_bounds by (simp add: loc_def)
  ultimately show ?thesis using envelope loc_x by (metis less_le_trans not_le)
qed

subsection \<open>Random waveforms\<close>

lemma event_start_bounds: "of_int index + 25 / 100 \<le> shutter_event_start p index" "shutter_event_start p index \<le> of_int index + 75 / 100"
proof -
  obtain w :: u64 where w: "shutter_event_start p index = of_int index + 25 / 100 + 5 / 10 * (real (unat (drop_bit 11 w)) * (1 / 9007199254740992))"
    unfolding shutter_event_start_def Let_def by blast
  have "unat w < 18446744073709551616" using unsigned_less [of w, where ?'a = nat] by simp
  then have "unat (drop_bit 11 w) \<le> 9007199254740992"
    by (simp add: unsigned_drop_bit_eq drop_bit_eq_div unat_div_distrib)
  then have "real (unat (drop_bit 11 w)) \<le> 9007199254740992" by (metis of_nat_le_iff of_nat_numeral)
  then show "of_int index + 25 / 100 \<le> shutter_event_start p index" "shutter_event_start p index \<le> of_int index + 75 / 100"
    unfolding w by (simp_all del: of_nat_unat)
qed

text \<open>The flashes that are on at a position, and the brightest of them.\<close>

definition flashing :: "shutter_parameters \<Rightarrow> real \<Rightarrow> real \<Rightarrow> int \<Rightarrow> bool" where
  "flashing p width position event \<longleftrightarrow> 0 \<le> event \<and> shutter_event_start p event \<le> position \<and> position < shutter_event_start p event + width"

definition flash_value :: "shutter_parameters \<Rightarrow> shutter_wave \<Rightarrow> real \<Rightarrow> real \<Rightarrow> int \<Rightarrow> real" where
  "flash_value p shape width position event = shutter_shape_value shape ((position - shutter_event_start p event) / width)"

definition brightest_flash :: "shutter_parameters \<Rightarrow> shutter_wave \<Rightarrow> real \<Rightarrow> real \<Rightarrow> real \<Rightarrow> bool" where
  "brightest_flash p shape width position v \<longleftrightarrow>
     (if \<exists>e. flashing p width position e
      then (\<exists>e. flashing p width position e \<and> v = flash_value p shape width position e) \<and>
           (\<forall>e. flashing p width position e \<longrightarrow> flash_value p shape width position e \<le> v)
      else v = 0)"

lemma flash_value_bounds:
  "flashing p width position e \<Longrightarrow> 0 \<le> flash_value p shape width position e \<and> flash_value p shape width position e \<le> 1"
  unfolding flashing_def flash_value_def by (intro shape_value_bounds) (auto simp: divide_le_eq)

lemma random_event_alt:
  "random_event p shape width position event envelope =
     (if flashing p width position event then max envelope (flash_value p shape width position event) else envelope)"
  by (auto simp: random_event_def flashing_def flash_value_def Let_def)

lemma flashing_candidates:
  assumes "flashing p width position e"
  shows "e \<le> \<lfloor>position\<rfloor>" and "width \<le> 1 \<Longrightarrow> \<lfloor>position\<rfloor> - 1 \<le> e"
proof -
  have a: "of_int e + 25 / 100 \<le> position" "position < of_int e + 75 / 100 + width"
    using assms(1) event_start_bounds [where p = p and index = e] by (auto simp: flashing_def)
  show "e \<le> \<lfloor>position\<rfloor>" unfolding le_floor_iff using a(1) by simp
  assume "width \<le> 1"
  then have "position < of_int (e + 2)" using a by simp
  then have "\<lfloor>position\<rfloor> < e + 2" by (simp only: floor_less_iff)
  then show "\<lfloor>position\<rfloor> - 1 \<le> e" by linarith
qed

text \<open>An older square flash that is still on is outlived by the flash of the cycle before.\<close>

lemma later_flash:
  assumes "flashing p width position e" and "e < \<lfloor>position\<rfloor> - 1"
  shows "flashing p width position (\<lfloor>position\<rfloor> - 1)"
proof -
  have "shutter_event_start p (\<lfloor>position\<rfloor> - 1) \<le> position" using event_start_bounds(2) [where p = p and index = "\<lfloor>position\<rfloor> - 1"] by linarith
  moreover have "of_int (e + 1) \<le> (of_int (\<lfloor>position\<rfloor> - 1) :: real)" using assms(2) by linarith
  then have "shutter_event_start p e \<le> shutter_event_start p (\<lfloor>position\<rfloor> - 1)"
    using event_start_bounds [where p = p and index = e] event_start_bounds [where p = p and index = "\<lfloor>position\<rfloor> - 1"] by simp
  moreover have "0 \<le> e" "position < shutter_event_start p e + width" using assms(1) by (auto simp: flashing_def)
  moreover have "0 \<le> \<lfloor>position\<rfloor> - 1" using \<open>0 \<le> e\<close> assms(2) by linarith
  ultimately show ?thesis unfolding flashing_def by linarith
qed

lemma random_event_pair:
  "random_event p shape width position \<lfloor>position\<rfloor> (random_event p shape width position (\<lfloor>position\<rfloor> - 1) 0) =
     (if flashing p width position \<lfloor>position\<rfloor> \<and> flashing p width position (\<lfloor>position\<rfloor> - 1)
      then max (flash_value p shape width position (\<lfloor>position\<rfloor> - 1)) (flash_value p shape width position \<lfloor>position\<rfloor>)
      else if flashing p width position \<lfloor>position\<rfloor> then flash_value p shape width position \<lfloor>position\<rfloor>
      else if flashing p width position (\<lfloor>position\<rfloor> - 1) then flash_value p shape width position (\<lfloor>position\<rfloor> - 1) else 0)"
  using flash_value_bounds [of p width position "\<lfloor>position\<rfloor>" shape] flash_value_bounds [of p width position "\<lfloor>position\<rfloor> - 1" shape]
  by (auto simp: random_event_alt)

lemma random_pair_brightest:
  assumes "shape = WaveStrobe \<or> width \<le> 1"
  shows "brightest_flash p shape width position
    (random_event p shape width position \<lfloor>position\<rfloor> (random_event p shape width position (\<lfloor>position\<rfloor> - 1) 0))"
    (is "brightest_flash p shape width position ?v")
proof -
  let ?i = "\<lfloor>position\<rfloor>"
  have two: "\<exists>e'\<in>{?i - 1, ?i}. flashing p width position e' \<and> flash_value p shape width position e \<le> flash_value p shape width position e'"
    if e: "flashing p width position e" for e
  proof (cases "?i - 1 \<le> e")
    case True
    then have "e = ?i - 1 \<or> e = ?i" using flashing_candidates(1) [OF e] by linarith
    then show ?thesis using e by auto
  next
    case False
    then have "shape = WaveStrobe" using assms flashing_candidates(2) [OF e] by blast
    then have "flash_value p shape width position e' = 1" for e' by (simp add: flash_value_def shutter_shape_value_def wave_defs)
    then show ?thesis using later_flash [OF e] False by auto
  qed
  show ?thesis
  proof (cases "\<exists>e. flashing p width position e")
    case True
    then have some: "flashing p width position (?i - 1) \<or> flashing p width position ?i" using two by blast
    then have "\<exists>e. flashing p width position e \<and> ?v = flash_value p shape width position e"
      unfolding random_event_pair by (auto simp: max_def)
    moreover have "flash_value p shape width position e' \<le> ?v" if "e' \<in> {?i - 1, ?i}" "flashing p width position e'" for e'
      using that unfolding random_event_pair by (auto simp: max_def)
    then have "\<forall>e. flashing p width position e \<longrightarrow> flash_value p shape width position e \<le> ?v" using two by (meson order_trans)
    ultimately show ?thesis using True by (simp add: brightest_flash_def)
  next
    case False
    then show ?thesis unfolding random_event_pair by (simp add: brightest_flash_def)
  qed
qed

lemma long_flashes:
  assumes "175 / 100 \<le> width" and "75 / 100 \<le> position"
  shows "\<exists>e. flashing p width position e"
proof (cases "1 \<le> \<lfloor>position\<rfloor>")
  case True
  have "shutter_event_start p (\<lfloor>position\<rfloor> - 1) \<le> position" "position < shutter_event_start p (\<lfloor>position\<rfloor> - 1) + width"
    using event_start_bounds [where p = p and index = "\<lfloor>position\<rfloor> - 1"] assms(1) by (simp_all, linarith+)
  then show ?thesis using True by (intro exI [of _ "\<lfloor>position\<rfloor> - 1"]) (simp add: flashing_def)
next
  case False
  then have "position < 1" by linarith
  then have "shutter_event_start p 0 \<le> position" "position < shutter_event_start p 0 + width"
    using event_start_bounds [where p = p and index = 0] assms by simp_all
  then show ?thesis by (intro exI [of _ 0]) (simp add: flashing_def)
qed

text \<open>C21: A random waveform shows the brightest of all its flashes. There is one flash a cycle, drawn from the seed, at a
  moment in the middle half of the cycle; flashes may overlap, and long ones reach into later cycles. The code looks at two
  of them, or at none where they are long, and what it returns is the brightest of all that are on - up to the time at which
  the counter of the cycles leaves its range.\<close>

theorem random_envelope_exact:
  assumes "shutter_random (sh_wave p)" and "0 < sh_frequency p" and "0 \<le> sh_phase p" and "0 < shutter_width p"
    and "position = shutter_cycles p now - sh_offset p + shutter_width p" and "position < 9223372036854775805"
  shows "brightest_flash p (shutter_shape (sh_wave p)) (shutter_width p) position (shutter_envelope p now)"
proof -
  let ?shape = "shutter_shape (sh_wave p)" and ?w = "shutter_width p"
  have envelope: "shutter_envelope p now = random_envelope p ?shape ?w (shutter_cycles p now)"
    using assms(1,2,4) by (auto simp: shutter_envelope_def Let_def shutter_periodic_def shutter_random_def WaveClosed_def)
  have width: "?shape = WaveStrobe \<or> ?w \<le> 1"
    using assms(1) by (auto simp: shutter_width_def Let_def clamp_def)
  have cycles: "0 \<le> shutter_cycles p now" using assms(2,3) by (simp add: shutter_cycles_def)
  show ?thesis
  proof (cases "?shape = WaveStrobe \<and> ?w \<ge> 175 / 100 \<and> 0 \<le> sh_offset p \<and> sh_offset p \<le> 1")
    case True
    then have "\<exists>e. flashing p ?w position e" using True cycles by (intro long_flashes) (auto simp: assms(5))
    moreover have "flash_value p ?shape ?w position e = 1" for e
      using True by (simp add: flash_value_def shutter_shape_value_def wave_defs)
    moreover have "shutter_envelope p now = 1" using True by (simp add: envelope random_envelope_def)
    ultimately show ?thesis by (auto simp: brightest_flash_def)
  next
    case False
    then have short: "\<not> (?shape = WaveStrobe \<and> 175 / 100 \<le> ?w \<and> 0 \<le> sh_offset p \<and> sh_offset p \<le> 1)" by simp
    show ?thesis
    proof (cases "position < 0")
      case True
      have "\<not> flashing p ?w position e" for e
        using True event_start_bounds(1) [where p = p and index = e] by (auto simp: flashing_def)
      moreover have "shutter_envelope p now = 0"
        using True unfolding envelope random_envelope_def if_not_P [OF short] by (simp add: Let_def assms(5) [symmetric])
      ultimately show ?thesis by (simp add: brightest_flash_def)
    next
      case inside: False
      have "shutter_envelope p now =
          random_event p ?shape ?w position \<lfloor>position\<rfloor> (random_event p ?shape ?w position (\<lfloor>position\<rfloor> - 1) 0)"
        using inside assms(6) unfolding envelope random_envelope_def if_not_P [OF short] by (simp add: Let_def assms(5) [symmetric])
      then show ?thesis using random_pair_brightest [OF width] by simp
    qed
  qed
qed

definition random_pulse :: shutter_parameters where
  "random_pulse = default_shutter\<lparr>sh_wave := 10, sh_frequency := 2, sh_duty := 1 / 2\<rparr>"

lemma random_envelope_exact_witness:
  "brightest_flash random_pulse WavePulse (1 / 2) (7 - 1 + 1 / 2) (shutter_envelope random_pulse (7 / 2))"
proof -
  have w: "shutter_width random_pulse = 1 / 2" "shutter_shape (sh_wave random_pulse) = WavePulse"
    by (simp_all add: shutter_width_def random_pulse_def shutter_shape_def shutter_random_def default_shutter_def wave_defs Let_def clamp_def)
  have "brightest_flash random_pulse (shutter_shape (sh_wave random_pulse)) (shutter_width random_pulse) (7 - 1 + 1 / 2)
      (shutter_envelope random_pulse (7 / 2))"
    by (rule random_envelope_exact)
      (simp_all add: w, simp_all add: random_pulse_def shutter_random_def default_shutter_def shutter_cycles_def)
  then show ?thesis by (simp add: w)
qed

definition slow_pulse :: shutter_parameters where
  "slow_pulse = default_shutter\<lparr>sh_wave := WavePulseOpen, sh_frequency := 1, sh_duty := 1 / 2, sh_offset := 1 / 2\<rparr>"

lemma periodic_envelope_exact_witness:
  "shutter_envelope slow_pulse (9 / 4) = 1 / 2 \<and> shutter_envelope slow_pulse (11 / 4) = 0"
proof -
  have p: "shutter_periodic (sh_wave slow_pulse)" "\<not> shutter_random (sh_wave slow_pulse)" "0 < sh_frequency slow_pulse"
    "1 / 2 = clamp (if sh_wave slow_pulse = WaveStrobe then sh_duration slow_pulse * sh_frequency slow_pulse else sh_duty slow_pulse) 0 1"
    by (simp_all add: slow_pulse_def default_shutter_def shutter_periodic_def shutter_random_def wave_defs clamp_def)
  have c: "shutter_cycles slow_pulse t = max t 0" "sh_offset slow_pulse = 1 / 2" "sh_wave slow_pulse = WavePulseOpen" for t
    by (simp_all add: slow_pulse_def default_shutter_def shutter_cycles_def)
  have "shutter_envelope slow_pulse (9 / 4) = shutter_shape_value WavePulseOpen (1 / 2)"
    using conjunct1 [OF periodic_envelope_exact [OF p refl, of "9 / 4"], rule_format, of 2] by (simp add: c)
  moreover have "\<nexists>k :: int. 0 \<le> 11 / 4 - real_of_int k \<and> 11 / 4 - real_of_int k < 1 / 2"
  proof
    assume "\<exists>k :: int. 0 \<le> 11 / 4 - real_of_int k \<and> 11 / 4 - real_of_int k < 1 / 2"
    then obtain k :: int where "real_of_int k \<le> 11 / 4" "9 / 4 < real_of_int k" by auto
    then have "k < 3" "2 < k" by linarith+
    then show False by simp
  qed
  then have "shutter_envelope slow_pulse (11 / 4) = 0"
    using conjunct2 [OF periodic_envelope_exact [OF p refl, of "11 / 4"]] by (simp add: c)
  ultimately show ?thesis by (simp add: shutter_shape_value_def wave_defs)
qed

lemma brightest_flash_bounds: "brightest_flash p shape width position v \<Longrightarrow> 0 \<le> v \<and> v \<le> 1"
  using flash_value_bounds by (auto simp: brightest_flash_def split: if_splits)

lemma shutter_envelope_bounds: "0 \<le> shutter_envelope p now \<and> shutter_envelope p now \<le> 1"
proof (cases "sh_wave p = WaveClosed \<or> \<not> shutter_periodic (sh_wave p) \<or> sh_frequency p \<le> 0 \<or> shutter_width p \<le> 0")
  case True
  then show ?thesis by (auto simp: shutter_envelope_def Let_def)
next
  case False
  let ?shape = "shutter_shape (sh_wave p)" and ?w = "shutter_width p"
  have envelope: "shutter_envelope p now =
      (if shutter_random (sh_wave p) then random_envelope p ?shape ?w (shutter_cycles p now)
       else let loc = shutter_fraction (shutter_fraction (shutter_cycles p now) - (sh_offset p - ?w))
            in if loc \<ge> ?w then 0 else shutter_shape_value ?shape (loc / ?w))"
    using False by (simp add: shutter_envelope_def Let_def)
  have "0 \<le> random_envelope p ?shape ?w c \<and> random_envelope p ?shape ?w c \<le> 1" for c
    using brightest_flash_bounds [OF random_pair_brightest [of ?shape ?w p "c - sh_offset p + ?w"]]
    by (auto simp: random_envelope_def Let_def shutter_width_def clamp_def)
  moreover have "0 \<le> shutter_fraction x" for x by (rule shutter_fraction_bounds)
  ultimately show ?thesis using False shape_value_bounds [of "_ / ?w" ?shape]
    by (auto simp: envelope Let_def divide_le_eq)
qed

subsection \<open>Edits\<close>



end
