(* ===== verification/Spec2Isabelle.thy ===== *)
theory Spec2Isabelle
  imports Receiver Realtime_Exchange Latency_Histogram Mode_Master Fixture_Binding Attribute_Classifier
    Codec_Roundtrip Codec_Safety Plan_Schedule Xchange_Transfer Mesh_Loader Async_Delivery
    Projection_Refinement Worker_Pool Archive_Paths Runtime_Wheels Runtime_Activation Shutter_Contract
begin

text \<open>
  A model of the native core of Peraviz, the C++ code under \<open>src/native/src\<close>, with the theorems that make
  its parts correct.  Peraviz shows lighting fixtures in real time: it imports an MVR scene with GDTF
  fixture descriptions, receives DMX over Art-Net, and evaluates the DMX bytes into the state of lamps,
  colours, wheels and shutters.  All file names below are relative to \<open>src/native/src\<close>.

  \<^bold>\<open>The parts and how they interact.\<close>

  Receiving.  The receiver thread (\<open>dmx/artnet_receiver.cpp\<close>) takes datagrams from a socket; the parser
  checks them, the sequence tracker drops the late ones, the metadata cache notes every universe on the network,
  the payload cache holds the universes that the monitor captures under the allowance of the capture
  budget, and the realtime mailbox holds those the scene wants.  The mailbox is the only thing shared with
  the frame thread: the coordinator installs the scene's subscription there and pumps the changed frames into the
  visual runtime once per frame.
    \<^item> \<open>Prelude\<close>: integer types, \<open>memcpy\<close> and \<open>memcmp\<close> as partial operations, characters and strings.
    \<^item> \<open>ArtNet_Packet\<close>: \<open>ArtNetDmxParser::parse\<close>; accepted exactly when the bytes form an ArtDmx packet.
    \<^item> \<open>Sequence_Tracker\<close>: \<open>ArtNetSequenceTracker\<close>; a refinement of a sliding window on stream positions.
    \<^item> \<open>Slot_Directory\<close>: the frame records, and the locale of a directory of slots by universe that both caches
      below instantiate.
    \<^item> \<open>Metadata_Cache\<close>, \<open>Universe_Cache\<close>: \<open>DmxNetworkMetadataCache\<close>, \<open>DmxUniverseCache\<close>; what readers see
      after any writes, and when a change is reported.
    \<^item> \<open>Token_Ring\<close>, \<open>Realtime_Subscription\<close>, \<open>Realtime_Mailbox\<close>, \<open>Mailbox_Refinement\<close>:
      \<open>RealtimeUniverseMailbox\<close>; a queue locale instantiated by the ring, the invariant of the mailbox, and
      its refinement of a map from universes to the latest bytes.
    \<^item> \<open>Realtime_Exchange\<close>: \<open>RealtimeDmxCoordinator\<close> and the input side of the visual runtime; publishes and
      pumps in any interleaving deliver the latest bytes.
    \<^item> \<open>Capture_Budget\<close>, \<open>Latency_Histogram\<close>: rate limit and percentile.
    \<^item> \<open>Receiver\<close>: \<open>ArtNetReceiver\<close>; its loop over the socket's results, with the counters.

  Describing fixtures.  The importers bind patched fixtures to DMX channels and compile a scene.
    \<^item> \<open>Text_Numbers\<close>: \<open>strtol\<close>, \<open>strtoul\<close>, \<open>from_chars\<close>, \<open>to_string\<close>.
    \<^item> \<open>Attribute_Classifier\<close>: GDTF attribute names and channel offsets.
    \<^item> \<open>Mode_Master\<close>: the conditions under which a channel function is active: DMX value syntax, resolution of
      links, the cycle check and the evaluation of a cascade.
    \<^item> \<open>Fixture_Binding\<close>: patches with the offsets of their mode to channel bindings and back.
    \<^item> \<open>Scene_Types\<close>, \<open>Scene_Codec\<close>, \<open>Codec_Roundtrip\<close>, \<open>Codec_Safety\<close>: the records of a compiled scene and
      their packed form; a locale of record codecs carries the round trip, and the decoder stays inside any
      payload.

  Evaluating.  For every universe the runtime compiles a plan that says which sources read which DMX
  offsets, and which consumers depend on which sources, and updates it with the offsets that changed.
    \<^item> \<open>Dirty_Indices\<close>: \<open>OrderedDirtyIndices\<close>, with the locale of a nomination set.
    \<^item> \<open>Evaluation_Plan\<close>: \<open>CompiledEvaluationPlan\<close>, installation and updates.
    \<^item> \<open>Plan_Graph\<close>: what the compiled graph contains, as sets read off the programs.
    \<^item> \<open>Plan_Schedule\<close>: what an update schedules, and the refinement of the workspace by maps.

  The visual runtime (\<open>runtime/peraviz_visual_runtime.cpp\<close> with \<open>runtime/visual_runtime_*.cpp\<close>) plays the plan: it takes the
  frames that arrived, decodes the sources, evaluates what depends on them, and packs what changed into a frame of sections.
    \<^item> \<open>Runtime_Sources\<close>: a universe, the comparison of its bytes, decoding through the cache of the plan, and the value of a
      property; incremental evaluation equals evaluation from scratch.
    \<^item> \<open>Runtime_Components\<close>: pan, tilt, dimmer and zoom as the state of components, and which rows are published.
    \<^item> \<open>Runtime_Colors\<close>: \<open>color_science.cpp\<close>, the mixing of a target's colour, and its composition with wheel layers.
    \<^item> \<open>Runtime_Wheels\<close>: colour targets and colour wheels of a universe, frame by frame; held colours are never out of date.
    \<^item> \<open>Runtime_Activation\<close>: \<open>gobo_motion_evaluator.cpp\<close>, the chains of ModeMasters that activate gobos and shutters.
    \<^item> \<open>Shutter_Contract\<close>: \<open>shutter_contract.h\<close>; what a waveform shows, and that edits do not make it jump.
    \<^item> \<open>Frame_Schema\<close>: \<open>visual_frame_schema.cpp\<close>; the validator says yes to exactly the well-formed frames.
    \<^item> \<open>Frame_Assembly\<close>: the packing of rows into sections; what is packed is what is read.

  Showing frames.  The rows of an evaluated frame go to physical outputs; the outputs that changed are drawn, alone or
  summed in groups.
    \<^item> \<open>Dense_State\<close>, \<open>Dense_Refinement\<close>: \<open>DensePresentationState\<close>; validation of a frame, its routes, the dirty
      list; the last row for an output wins.
    \<^item> \<open>Render_Projection\<close>, \<open>Projection_Refinement\<close>: \<open>RenderGroupProjection\<close> and the transaction of
      \<open>DirectPresentationPipeline\<close>; sums that are kept by differences equal the sums from scratch.
    \<^item> \<open>Worker_Pool\<close>: \<open>NativeWorkerPool\<close>, on which the evaluation can spread; its batches end, with the serial result.

  With enough work the evaluation moves to a coordinator thread of its own; it and the main thread
  share three banks of DMX frames and two banks of snapshots through atomics, without a lock.
    \<^item> \<open>Async_Pipeline\<close>: \<open>AsyncPresentationPipeline\<close> (\<open>presentation/async_presentation_pipeline.cpp\<close>) as the
      interleaving of the steps of the two threads.
    \<^item> \<open>Async_Safety\<close>, \<open>Async_Delivery\<close>: no bank is in two hands, snapshots arrive in order, no frame is lost.

  Loading meshes.
    \<^item> \<open>Mesh_Stream\<close>: reads of a file stream, chunk headers, 32-bit floats.
    \<^item> \<open>Mesh_Validation\<close>, \<open>Mesh_Parser\<close>: \<open>validate_chunks\<close> and the parser of \<open>mesh_3ds_loader.cpp\<close>; what the
      one accepts the other reads without a failing read.
    \<^item> \<open>Mesh_Loader\<close>: winding, normals and the checks of \<open>load_3ds\<close>.

  Reading archives.
    \<^item> \<open>Archive_Paths\<close>: the paths and the index of \<open>ZipArchive\<close>; no path leaves the archive, lookups are unambiguous.

  Exchanging scenes.  MVR-xchange finds stations on the network and fetches their MVR files.
    \<^item> \<open>Xchange_Service\<close>: service names and \<open>MvrXchangeDiscovery\<close>.
    \<^item> \<open>Xchange_Packet\<close>, \<open>Xchange_Messages\<close>: packages, JSON messages and the expressions that read them.
    \<^item> \<open>Xchange_Transfer\<close>: \<open>MvrXchangeTransferClient\<close> and the answer of a local station.

  \<^bold>\<open>How the code is rendered.\<close>  A class is a record and a method a function on it that returns the new
  record; a method that can fail returns an option or a sum.  Integers keep their width where wrap-around or
  a range check matters; sizes and indices are natural numbers.  An access outside an array, which C++ leaves
  undefined, is \<^term>\<open>None\<close>, and theorems say when it cannot happen.  Threads that meet at a mutex are
  sequences of the atomic steps they take under it.  Results of the operating system, of the clock and
  of libraries outside the repository are arguments.  Floating-point numbers are real numbers; a float that comes from outside and may be infinite or
  not a number is an option, and the conversion from \<open>double\<close> to \<open>float\<close> is a parameter. So the theorems about sums
  (\<open>Projection_Refinement\<close>) and geometry (\<open>Mesh_Loader\<close>) say nothing of rounding.

  \<^bold>\<open>Termination.\<close>  Every loop is a total function.  The walks over ModeMasters are bounded by the
  functions not yet marked, in \<open>Mode_Master.visit\<close> as in \<open>Evaluation_Plan.walk_masters\<close> and \<open>climb\<close>, so cyclic data
  ends them; the parsers consume their input.  Where a model takes fuel or a list of outcomes, the theorem holds for
  every list.

  \<^bold>\<open>What the theorems found.\<close>  A datagram with a net above 127 indexes outside the metadata table
  (\<open>Receiver\<close>); an empty packet never reaches the runtime (\<open>Realtime_Exchange\<close>); a packet that lengthens a
  universe by bytes that the buffer already held goes unreported (\<open>Universe_Cache\<close>); joining a station
  replaces its known revision by an empty one, and pushed revisions are filed where nobody looks
  (\<open>Xchange_Transfer\<close>); an archive entry whose name differs from another's only in case is not found by its exact
  name (\<open>Archive_Paths\<close>); names with quotes do not survive a message (\<open>Xchange_Messages\<close>); addresses of colour and wheel
  sources that nobody checks index outside the remembered bytes (\<open>Runtime_Sources\<close>); a slow fade of a 16-bit dimmer is never
  shown (\<open>Runtime_Components\<close>); a colour temperature without units turns white red (\<open>Runtime_Colors\<close>); a scene with colour
  wheels alone publishes frames that its own schema rejects (\<open>Runtime_Wheels\<close>).

  \<^bold>\<open>Not modelled.\<close>  Walking GDTF and MVR documents, since the XML and ZIP libraries are not part of the repository
  (resolvers, fixture and scene compilers, gobo catalogue, scene import); sockets and threads themselves; the
  Godot bindings and the renderer; caches on disk.  Of the visual runtime: the rows of gobos and shutters that the activation
  and the waveforms lead to, the replay of held state, the prefetching of sources on worker threads, the counters, and
  the parts of the installation that only file bindings.  The routing of instances, the emitter
  groups and the table model are left out for want of time; they are pure enough to follow.
\<close>

end
